(* ===== verification/Go_Prelude.thy ===== *)
theory Go_Prelude
  imports Main "HOL-Library.Word"
begin

text \<open>
  Shared vocabulary of the development: the Go types and the pieces of the Go standard library
  that the modelled packages use.

  \<^item> Outcomes. A Go function that may fail returns a \<open>res\<close>: \<open>Ok\<close> for a normal return,
    \<open>Err\<close> for a non-nil \<open>error\<close>, and \<open>Panic\<close> for a run-time panic (index or slice bounds out
    of range, nil dereference, write to a nil map, explicit \<open>panic\<close>).
  \<^item> Machine integers of fixed width are words; Go's \<open>int\<close> is \<open>int\<close> (or \<open>nat\<close> for sizes)
    where no operation of the modelled code can reach its bounds.
  \<^item> Pointers that the code compares with nil are \<open>option\<close>s; \<open>interface{}\<close> values and
    function values that the code only stores and passes on are opaque handles \<open>go_any\<close>.
  \<^item> Strings and byte slices are lists; slicing is \<open>slice\<close>, with bounds checked by the caller.
\<close>

unbundle bit_operations_syntax

named_theorems go_simps \<open>equations that evaluate the modelled Go standard library\<close>

subsection \<open>Types\<close>

type_synonym byte = "8 word"
type_synonym u8 = "8 word"
type_synonym u16 = "16 word"
type_synonym u32 = "32 word"
type_synonym u64 = "64 word"
type_synonym bytes = "byte list"
type_synonym go_any = nat

datatype ('e, 'a) res = Ok 'a | Err 'e | Panic

fun bind_res :: "('e, 'a) res \<Rightarrow> ('a \<Rightarrow> ('e, 'b) res) \<Rightarrow> ('e, 'b) res" where
  "bind_res (Ok x) f = f x"
| "bind_res (Err e) f = Err e"
| "bind_res Panic f = Panic"

lemma bind_res_Ok_iff: "bind_res m f = Ok y \<longleftrightarrow> (\<exists>x. m = Ok x \<and> f x = Ok y)"
  by (cases m) auto

lemma bind_res_Err_iff: "bind_res m f = Err e \<longleftrightarrow> m = Err e \<or> (\<exists>x. m = Ok x \<and> f x = Err e)"
  by (cases m) auto

lemma bind_res_Panic_iff: "bind_res m f = Panic \<longleftrightarrow> m = Panic \<or> (\<exists>x. m = Ok x \<and> f x = Panic)"
  by (cases m) auto

lemmas bind_res_iffs = bind_res_Ok_iff bind_res_Err_iff bind_res_Panic_iff

lemma bind_res_assoc: "bind_res (bind_res m f) g = bind_res m (\<lambda>x. bind_res (f x) g)"
  by (cases m) auto

lemma unat_u32: "unat (c :: u32) < 4294967296"
  using unsigned_less [of c] by simp

text \<open>Fixed-size sub-slices \<open>s[i:j]\<close> (bounds are the caller's business).\<close>

definition slice :: "nat \<Rightarrow> nat \<Rightarrow> 'a list \<Rightarrow> 'a list" where
  "slice i j xs = take (j - i) (drop i xs)"

lemma slice_full [simp]: "slice 0 (length xs) xs = xs"
  by (simp add: slice_def)

lemma length_slice [simp]: "i \<le> j \<Longrightarrow> j \<le> length xs \<Longrightarrow> length (slice i j xs) = j - i"
  by (simp add: slice_def)

lemma slice_append_mid: "length a = i \<Longrightarrow> j = i + length b \<Longrightarrow> slice i j (a @ b @ c) = b"
  by (simp add: slice_def)

lemma slice_append_3:
  "slice 0 (length a) (a @ b @ c) = a"
  by (simp add: slice_def)

lemma slice_cover: "i \<le> j \<Longrightarrow> j \<le> length xs \<Longrightarrow> take i xs @ slice i j xs @ drop j xs = xs"
  by (simp add: slice_def) (metis append_take_drop_id drop_drop le_add_diff_inverse2)

subsection \<open>encoding/binary: big-endian integers\<close>

definition PutUint16 :: "u16 \<Rightarrow> bytes" where
  "PutUint16 v = [ucast (drop_bit 8 v), ucast v]"

definition Uint16 :: "bytes \<Rightarrow> u16" where
  "Uint16 b = (ucast (b ! 1) :: u16) OR push_bit 8 (ucast (b ! 0))"

definition PutUint32 :: "u32 \<Rightarrow> bytes" where
  "PutUint32 v = [ucast (drop_bit 24 v), ucast (drop_bit 16 v), ucast (drop_bit 8 v), ucast v]"

definition Uint32 :: "bytes \<Rightarrow> u32" where
  "Uint32 b = (ucast (b ! 3) :: u32) OR push_bit 8 (ucast (b ! 2))
     OR push_bit 16 (ucast (b ! 1)) OR push_bit 24 (ucast (b ! 0))"

lemma length_PutUint16 [simp]: "length (PutUint16 v) = 2"
  by (simp add: PutUint16_def)

lemma length_PutUint32 [simp]: "length (PutUint32 v) = 4"
  by (simp add: PutUint32_def)

lemma Uint16_PutUint16 [simp]: "Uint16 (PutUint16 v) = v"
proof (rule bit_word_eqI)
  fix n assume "n < LENGTH(16)"
  then have "n < 16" by simp
  then show "bit (Uint16 (PutUint16 v)) n = bit v n"
    by (cases "n < 8") (auto simp: Uint16_def PutUint16_def bit_or_iff bit_push_bit_iff
      bit_ucast_iff bit_drop_bit_eq nth_Cons' possible_bit_def)
qed

lemma Uint32_PutUint32 [simp]: "Uint32 (PutUint32 v) = v"
proof (rule bit_word_eqI)
  fix n assume "n < LENGTH(32)"
  then have "n < 8 \<or> 8 \<le> n \<and> n < 16 \<or> 16 \<le> n \<and> n < 24 \<or> 24 \<le> n \<and> n < 32" by auto
  then show "bit (Uint32 (PutUint32 v)) n = bit v n"
    by (elim disjE) (auto simp: Uint32_def PutUint32_def bit_or_iff bit_push_bit_iff
      bit_ucast_iff bit_drop_bit_eq nth_Cons' possible_bit_def)
qed

subsection \<open>strings\<close>

fun Split :: "char \<Rightarrow> string \<Rightarrow> string list" where
  "Split c [] = [[]]"
| "Split c (x # xs) =
     (if x = c then [] # Split c xs
      else (case Split c xs of [] \<Rightarrow> [[x]] | y # ys \<Rightarrow> (x # y) # ys))"

fun Join :: "string list \<Rightarrow> string \<Rightarrow> string" where
  "Join [] sep = []"
| "Join [s] sep = s"
| "Join (s # t # ss) sep = s @ sep @ Join (t # ss) sep"

definition HasPrefix :: "string \<Rightarrow> string \<Rightarrow> bool" where
  "HasPrefix s p \<longleftrightarrow> take (length p) s = p"

definition HasSuffix :: "string \<Rightarrow> string \<Rightarrow> bool" where
  "HasSuffix s p \<longleftrightarrow> length p \<le> length s \<and> drop (length s - length p) s = p"

definition TrimPrefix :: "string \<Rightarrow> string \<Rightarrow> string" where
  "TrimPrefix s p = (if HasPrefix s p then drop (length p) s else s)"

text \<open>\<open>strings.Index\<close> and \<open>strings.LastIndex\<close> for a one-byte needle; \<open>None\<close> is \<open>-1\<close>.\<close>

fun IndexByte :: "string \<Rightarrow> char \<Rightarrow> nat option" where
  "IndexByte [] c = None"
| "IndexByte (x # xs) c = (if x = c then Some 0 else map_option Suc (IndexByte xs c))"

definition LastIndexByte :: "string \<Rightarrow> char \<Rightarrow> nat option" where
  "LastIndexByte s c = map_option (\<lambda>i. length s - 1 - i) (IndexByte (rev s) c)"

lemma IndexByte_None: "IndexByte s c = None \<longleftrightarrow> c \<notin> set s"
  by (induction s) auto

lemma IndexByte_Some: "IndexByte s c = Some i \<Longrightarrow> i < length s \<and> s ! i = c \<and> c \<notin> set (take i s)"
  by (induction s arbitrary: i) (auto split: if_splits)

lemma IndexByte_append: "c \<notin> set a \<Longrightarrow> IndexByte (a @ c # b) c = Some (length a)"
  by (induction a) auto

lemma LastIndexByte_None: "LastIndexByte s c = None \<longleftrightarrow> c \<notin> set s"
  by (simp add: LastIndexByte_def IndexByte_None)

lemma LastIndexByte_append: "c \<notin> set b \<Longrightarrow> LastIndexByte (a @ c # b) c = Some (length a)"
  using IndexByte_append [of c "rev b" "rev a"] by (simp add: LastIndexByte_def)

lemma LastIndexByte_Some:
  assumes "LastIndexByte s c = Some i"
  shows "i < length s" "s = take i s @ c # drop (i + 1) s" "c \<notin> set (drop (i + 1) s)"
proof -
  from assms have "c \<in> set s" using LastIndexByte_None [of s c] by auto
  then obtain a b where s: "s = a @ c # b" "c \<notin> set b" by (meson split_list_last)
  with assms show "i < length s" "s = take i s @ c # drop (i + 1) s" "c \<notin> set (drop (i + 1) s)"
    by (auto simp: LastIndexByte_append)
qed

lemma Split_not_Nil [simp]: "Split c s \<noteq> []"
  by (cases s) (auto split: list.splits)

lemma Join_Split [simp]: "Join (Split c s) [c] = s"
proof (induction s)
  case (Cons x xs)
  then show ?case by (cases "Split c xs" rule: list.exhaust; cases "tl (Split c xs)") auto
qed simp

lemma Split_no_sep: "x \<in> set (Split c s) \<Longrightarrow> c \<notin> set x"
proof (induction s arbitrary: x)
  case (Cons y ys)
  then show ?case by (cases "Split c ys") (auto split: if_splits)
qed simp

lemma Split_append_sep: "c \<notin> set s \<Longrightarrow> Split c (s @ c # t) = s # Split c t"
  by (induction s) auto

lemma Split_atom: "c \<notin> set s \<Longrightarrow> Split c s = [s]"
  by (induction s) auto

lemma Split_Join:
  "ss \<noteq> [] \<Longrightarrow> (\<forall>s \<in> set ss. c \<notin> set s) \<Longrightarrow> Split c (Join ss [c]) = ss"
  by (induction ss "[c]" rule: Join.induct) (auto simp: Split_atom Split_append_sep)

lemma Join_append:
  "xs \<noteq> [] \<Longrightarrow> ys \<noteq> [] \<Longrightarrow> Join (xs @ ys) sep = Join xs sep @ sep @ Join ys sep"
  by (induction xs sep rule: Join.induct) (auto simp: neq_Nil_conv)

lemma Join_inj:
  assumes "xs \<noteq> []" "ys \<noteq> []" "\<forall>s \<in> set xs. c \<notin> set s" "\<forall>s \<in> set ys. c \<notin> set s"
    and "Join xs [c] = Join ys [c]"
  shows "xs = ys"
  using assms by (metis Split_Join)

text \<open>\<open>strconv.Itoa\<close>.\<close>

fun decimal :: "nat \<Rightarrow> string" where
  "decimal n = (if n < 10 then [char_of (48 + n)] else decimal (n div 10) @ [char_of (48 + n mod 10)])"

declare decimal.simps [simp del]

definition Itoa :: "int \<Rightarrow> string" where
  "Itoa i = (if i < 0 then CHR ''-'' # decimal (nat (- i)) else decimal (nat i))"

subsection \<open>sort.Search\<close>

text \<open>The binary search of \<open>sort.Search\<close>: the least index in \<open>[i, j)\<close> whose predicate holds,
  \<open>j\<close> if there is none, provided the predicate is monotone.\<close>

function search_loop :: "(nat \<Rightarrow> bool) \<Rightarrow> nat \<Rightarrow> nat \<Rightarrow> nat" where
  "search_loop f i j =
     (if i < j then
        (let h = (i + j) div 2 in if \<not> f h then search_loop f (h + 1) j else search_loop f i h)
      else i)"
  by pat_completeness auto
termination
  by (relation "measure (\<lambda>(f, i, j). j - i)") auto

declare search_loop.simps [simp del]

definition Search :: "nat \<Rightarrow> (nat \<Rightarrow> bool) \<Rightarrow> nat" where
  "Search n f = search_loop f 0 n"

lemma search_loop_least:
  assumes "\<And>a b. a \<le> b \<Longrightarrow> b < j \<Longrightarrow> f a \<Longrightarrow> f b" and "i \<le> j"
  shows "i \<le> search_loop f i j \<and> search_loop f i j \<le> j
     \<and> (\<forall>k. i \<le> k \<and> k < search_loop f i j \<longrightarrow> \<not> f k)
     \<and> (search_loop f i j < j \<longrightarrow> f (search_loop f i j))"
  using assms
proof (induction f i j rule: search_loop.induct)
  case (1 f i j)
  show ?case
  proof (cases "i < j")
    case False
    then have "search_loop f i j = i" by (simp add: search_loop.simps [of f i j])
    with False "1.prems" show ?thesis by auto
  next
    case True
    define h where "h = (i + j) div 2"
    from True have h: "i \<le> h" "h < j" by (auto simp: h_def)
    show ?thesis
    proof (cases "f h")
      case fh: True
      have eq: "search_loop f i j = search_loop f i h"
        using True fh by (subst search_loop.simps) (simp add: h_def)
      have mono: "f b" if "a \<le> b" "b < h" "f a" for a b
        using "1.prems"(1) that h by (meson less_trans)
      have "i \<le> search_loop f i h \<and> search_loop f i h \<le> h
         \<and> (\<forall>k. i \<le> k \<and> k < search_loop f i h \<longrightarrow> \<not> f k)
         \<and> (search_loop f i h < h \<longrightarrow> f (search_loop f i h))"
        using "1.IH"(2) [OF True h_def] fh mono h by blast
      with h fh show ?thesis unfolding eq by (metis le_neq_implies_less le_trans less_imp_le)
    next
      case fh: False
      have eq: "search_loop f i j = search_loop f (h + 1) j"
        using True fh by (subst search_loop.simps) (simp add: h_def)
      have ih: "h + 1 \<le> search_loop f (h + 1) j \<and> search_loop f (h + 1) j \<le> j
         \<and> (\<forall>k. h + 1 \<le> k \<and> k < search_loop f (h + 1) j \<longrightarrow> \<not> f k)
         \<and> (search_loop f (h + 1) j < j \<longrightarrow> f (search_loop f (h + 1) j))"
        using "1.IH"(1) [OF True h_def] fh "1.prems"(1) h by simp
      have "\<not> f k" if "k \<le> h" for k using that fh "1.prems"(1) h(2) by blast
      with ih h show ?thesis unfolding eq
        by (metis Suc_eq_plus1 add_leD1 le_trans less_imp_le not_less_eq_eq)
    qed
  qed
qed

lemma Search_sorted:
  fixes xs :: "'a :: linorder list" and x :: 'a
  assumes "sorted xs"
  defines "i \<equiv> Search (length xs) (\<lambda>i. xs ! i \<ge> x)"
  shows "i \<le> length xs" and "\<And>k. k < i \<Longrightarrow> xs ! k < x" and "i < length xs \<Longrightarrow> x \<le> xs ! i"
proof -
  have "x \<le> xs ! b" if "a \<le> b" "b < length xs" "x \<le> xs ! a" for a b
    using assms(1) that by (meson order_trans sorted_nth_mono)
  from search_loop_least [of "length xs" "\<lambda>i. xs ! i \<ge> x" 0, OF this]
  show "i \<le> length xs" and "\<And>k. k < i \<Longrightarrow> xs ! k < x" and "i < length xs \<Longrightarrow> x \<le> xs ! i"
    unfolding i_def Search_def by (auto simp: not_le)
qed

end
