(* ===== verification/Naming.thy ===== *)
theory Naming
  imports Go_Prelude
begin

text \<open>
  The node data of \<open>naming/registry\<close>, the copy made by \<open>naming/internal/registry\<close>, the banned
  node list of \<open>naming/bannednodes\<close>, and the random load balancer of \<open>naming/loadbalance\<close>.

  A \<open>*registry.Node\<close> is a \<open>node option\<close> (\<open>None\<close> is nil). The banned list hangs off a
  context; the part of the context the package reads is \<open>bannedNodes option\<close>, \<open>None\<close> where the
  context has no such value. The random source is a parameter: \<open>Intn k n\<close> is its \<open>k\<close>-th draw
  below \<open>n\<close>, of which only \<open>Intn k n < n\<close> is used.
\<close>

subsection \<open>registry.Node\<close>

record node =
  ServiceName :: string
  ContainerName :: string
  Address :: string
  Network :: string
  Protocol :: string
  SetName :: string
  Weight :: int
  CostTime :: int
  EnvKey :: string
  Metadata :: "(string \<rightharpoonup> go_any) option"
  ParseAddr :: "go_any option"

type_synonym nodeptr = "node option"

definition DeepCopyNode :: "nodeptr \<Rightarrow> nodeptr" where
  "DeepCopyNode p =
     (case p of
        None \<Rightarrow> None
      | Some n \<Rightarrow> Some (case Metadata n of
                           None \<Rightarrow> n
                         | Some m \<Rightarrow> n\<lparr>Metadata := Some (Map.empty ++ m)\<rparr>))"

lemma DeepCopyNode_id [simp]: "DeepCopyNode p = p"
  by (auto simp: DeepCopyNode_def split: option.splits)

subsection \<open>bannednodes\<close>

record bannedNodes =
  bn_nodes :: "nodeptr list"
  mandatory :: bool

type_synonym ban_ctx = "bannedNodes option"

definition NewCtx :: "ban_ctx \<Rightarrow> bool \<Rightarrow> ban_ctx" where
  "NewCtx ctx m = Some \<lparr>bn_nodes = [], mandatory = m\<rparr>"

definition FromCtx :: "ban_ctx \<Rightarrow> nodeptr list \<times> bool \<times> bool" where
  "FromCtx ctx =
     (case ctx of None \<Rightarrow> ([], False, False) | Some b \<Rightarrow> (bn_nodes b, mandatory b, True))"

fun Add_loop :: "bannedNodes \<Rightarrow> nodeptr list \<Rightarrow> bannedNodes" where
  "Add_loop b [] = b"
| "Add_loop b (n # ns) = Add_loop (b\<lparr>bn_nodes := n # bn_nodes b\<rparr>) ns"

definition Add :: "ban_ctx \<Rightarrow> nodeptr list \<Rightarrow> ban_ctx" where
  "Add ctx ns = (case ctx of None \<Rightarrow> None | Some b \<Rightarrow> Some (Add_loop b ns))"

fun Range :: "nodeptr list \<Rightarrow> (nodeptr \<Rightarrow> ('e, bool) res) \<Rightarrow> ('e, bool) res" where
  "Range [] f = Ok True"
| "Range (n # ns) f = bind_res (f n) (\<lambda>b. if b then Range ns f else Ok False)"

lemma Add_loop_nodes [simp]:
  "bn_nodes (Add_loop b ns) = rev ns @ bn_nodes b" "mandatory (Add_loop b ns) = mandatory b"
  by (induction b ns rule: Add_loop.induct) auto

lemma Range_total:
  "(\<And>n. n \<in> set ns \<Longrightarrow> f n = Ok (P n)) \<Longrightarrow> Range ns f = Ok (\<forall>n \<in> set ns. P n)"
  by (induction ns) auto

subsection \<open>loadbalance.Random\<close>

datatype lb_error = ErrNoServerAvailable | ErrMissingKey | ErrNilNode

definition chooseOne :: "(nat \<Rightarrow> nat) \<Rightarrow> nodeptr list \<Rightarrow> (lb_error, nodeptr) res" where
  "chooseOne intn nodes =
     (if nodes = [] then Err ErrNoServerAvailable
      else (let i = intn (length nodes)
            in if i < length nodes then Ok (DeepCopyNode (nodes ! i)) else Panic))"

definition addr_differs :: "nodeptr \<Rightarrow> nodeptr \<Rightarrow> ('e, bool) res" where
  "addr_differs p n =
     (case (n, p) of (Some n', Some p') \<Rightarrow> Ok (Address n' \<noteq> Address p') | _ \<Rightarrow> Panic)"

fun chooseUnbanned_loop ::
    "nodeptr list \<Rightarrow> nodeptr list \<Rightarrow> nat \<Rightarrow> nat list \<Rightarrow> (lb_error, nodeptr) res" where
  "chooseUnbanned_loop nodes bans i [] = Err ErrNoServerAvailable"
| "chooseUnbanned_loop nodes bans i (offset # offsets) =
     (let p = nodes ! ((i + offset) mod length nodes)
      in bind_res (Range bans (addr_differs p))
           (\<lambda>ok. if ok then Ok (DeepCopyNode p) else chooseUnbanned_loop nodes bans i offsets))"

definition chooseUnbanned ::
    "(nat \<Rightarrow> nat) \<Rightarrow> nodeptr list \<Rightarrow> nodeptr list \<Rightarrow> (lb_error, nodeptr) res" where
  "chooseUnbanned intn nodes bans =
     (if nodes = [] then Err ErrNoServerAvailable
      else chooseUnbanned_loop nodes bans (intn (length nodes)) [0..<length nodes])"

text \<open>
  \<open>Random.Select\<close>: the context is the outer option (\<open>None\<close> is \<open>o.Ctx == nil\<close>). The deferred
  function bans the chosen node when the call succeeds. \<open>Intn 0\<close> and \<open>Intn 1\<close> are the first
  and the second draw of the call.
\<close>

definition Random_Select ::
    "(nat \<Rightarrow> nat \<Rightarrow> nat) \<Rightarrow> ban_ctx option \<Rightarrow> nodeptr list
      \<Rightarrow> ban_ctx option \<times> (lb_error, nodeptr) res" where
  "Random_Select Intn octx nodes =
     (case octx of
        None \<Rightarrow> (octx, chooseOne (Intn 0) nodes)
      | Some ctx \<Rightarrow>
          (case FromCtx ctx of
             (bans, mand, ok) \<Rightarrow>
               if \<not> ok then (octx, chooseOne (Intn 0) nodes)
               else
                 (let r = chooseUnbanned (Intn 0) nodes bans;
                      r' = (if \<not> mand \<and> r = Err ErrNoServerAvailable
                            then chooseOne (Intn 1) nodes else r)
                  in case r' of
                       Ok n \<Rightarrow> (Some (Add ctx [n]), r')
                     | _ \<Rightarrow> (octx, r'))))"

definition banned_addrs :: "nodeptr list \<Rightarrow> string set" where
  "banned_addrs bans = {Address n |n. Some n \<in> set bans}"

lemma not_None_in_set: "None \<notin> set ps \<Longrightarrow> p \<in> set ps \<Longrightarrow> \<exists>n. p = Some n"
  by (cases p) auto

lemma Range_addr_differs:
  assumes "None \<notin> set bans"
  shows "Range bans (addr_differs (Some n)) = (Ok (Address n \<notin> banned_addrs bans) :: ('e, bool) res)"
proof -
  have "Range bans (addr_differs (Some n))
      = (Ok (\<forall>p \<in> set bans. Address (the p) \<noteq> Address n) :: ('e, bool) res)"
    using assms by (intro Range_total) (auto simp: addr_differs_def split: option.splits dest: not_None_in_set)
  moreover have "(\<forall>p \<in> set bans. Address (the p) \<noteq> Address n) \<longleftrightarrow> Address n \<notin> banned_addrs bans"
    unfolding banned_addrs_def mem_Collect_eq
    by (metis assms not_None_in_set option.sel)
  ultimately show ?thesis by simp
qed

lemma rotate_covers: "n > 0 \<Longrightarrow> (\<lambda>offset. (i + offset) mod n) ` {..<n} = {..<n::nat}"
proof (rule equalityI; rule subsetI)
  fix k assume n: "n > 0" and "k \<in> {..<n}"
  then have k: "k < n" by simp
  define off where "off = (k + n - i mod n) mod n"
  have "(i + off) mod n = (i mod n + (k + n - i mod n)) mod n"
    by (simp add: off_def mod_simps)
  also have "i mod n + (k + n - i mod n) = k + n"
    using mod_less_divisor [OF n, of i] by linarith
  also have "(k + n) mod n = k" using k by simp
  finally show "k \<in> (\<lambda>offset. (i + offset) mod n) ` {..<n}"
    using n by (auto simp: off_def intro!: image_eqI [of _ _ off])
qed auto

lemma chooseUnbanned_loop_spec:
  assumes "None \<notin> set nodes" "None \<notin> set bans" "nodes \<noteq> []"
  shows "chooseUnbanned_loop nodes bans i offs =
     (case find (\<lambda>p. Address (the p) \<notin> banned_addrs bans)
             (map (\<lambda>off. nodes ! ((i + off) mod length nodes)) offs) of
        None \<Rightarrow> Err ErrNoServerAvailable | Some p \<Rightarrow> Ok p)"
proof (induction offs)
  case (Cons off offs)
  let ?p = "nodes ! ((i + off) mod length nodes)"
  have "?p \<in> set nodes" using assms(3) by simp
  with assms(1) obtain n where "?p = Some n" by (cases ?p) auto
  with Cons assms(2) show ?case by (simp add: Range_addr_differs)
qed simp

lemma chooseUnbanned_spec:
  assumes "None \<notin> set nodes" "None \<notin> set bans"
  shows "case chooseUnbanned intn nodes bans of
       Ok p \<Rightarrow> \<exists>n. p = Some n \<and> Some n \<in> set nodes \<and> Address n \<notin> banned_addrs bans
     | Err e \<Rightarrow> e = ErrNoServerAvailable \<and> (\<forall>n. Some n \<in> set nodes \<longrightarrow> Address n \<in> banned_addrs bans)
     | Panic \<Rightarrow> False"
proof (cases "nodes = []")
  case False
  let ?is = "map (\<lambda>off. nodes ! ((intn (length nodes) + off) mod length nodes)) [0..<length nodes]"
  have "set ?is = (!) nodes ` ((\<lambda>off. (intn (length nodes) + off) mod length nodes) ` {..<length nodes})"
    by (auto simp: image_image)
  also have "\<dots> = set nodes"
    using False by (simp add: rotate_covers) (auto simp: set_conv_nth)
  finally have cover: "set ?is = set nodes" .
  show ?thesis
  proof (cases "find (\<lambda>p. Address (the p) \<notin> banned_addrs bans) ?is")
    case None
    then have "\<forall>p \<in> set ?is. Address (the p) \<in> banned_addrs bans"
      by (simp only: find_None_iff) blast
    then have "\<forall>n. Some n \<in> set nodes \<longrightarrow> Address n \<in> banned_addrs bans"
      unfolding cover by force
    with None False assms show ?thesis
      by (simp add: chooseUnbanned_def chooseUnbanned_loop_spec)
  next
    case (Some p)
    then have "p \<in> set ?is" and free: "Address (the p) \<notin> banned_addrs bans"
      by (metis find_Some_iff nth_mem)+
    then have p: "p \<in> set nodes" by (simp only: cover)
    with assms(1) obtain n where "p = Some n" using not_None_in_set by blast
    with p free False assms Some show ?thesis
      by (simp add: chooseUnbanned_def chooseUnbanned_loop_spec)
  qed
qed (simp add: chooseUnbanned_def)

text \<open>Consecutive selections that share one context, as a hedged or retried call makes them.\<close>

fun select_run ::
    "(nat \<Rightarrow> nat \<Rightarrow> nat \<Rightarrow> nat) \<Rightarrow> nodeptr list \<Rightarrow> ban_ctx option \<Rightarrow> nat
      \<Rightarrow> (lb_error, nodeptr) res list" where
  "select_run Intn nodes octx 0 = []"
| "select_run Intn nodes octx (Suc k) =
     (case Random_Select (Intn k) octx nodes of
        (octx', r) \<Rightarrow> r # select_run Intn nodes octx' k)"

fun picked_addrs :: "(lb_error, nodeptr) res list \<Rightarrow> string list" where
  "picked_addrs [] = []"
| "picked_addrs (Ok (Some n) # rs) = Address n # picked_addrs rs"
| "picked_addrs (_ # rs) = picked_addrs rs"

lemma Random_Select_mandatory:
  assumes "None \<notin> set nodes" "None \<notin> set bans"
  shows "(\<exists>n. Some n \<in> set nodes \<and> Address n \<notin> banned_addrs bans \<and>
      Random_Select Intn (Some (Some \<lparr>bn_nodes = bans, mandatory = True\<rparr>)) nodes =
        (Some (Some \<lparr>bn_nodes = Some n # bans, mandatory = True\<rparr>), Ok (Some n)))
    \<or> (\<forall>n. Some n \<in> set nodes \<longrightarrow> Address n \<in> banned_addrs bans) \<and>
      Random_Select Intn (Some (Some \<lparr>bn_nodes = bans, mandatory = True\<rparr>)) nodes =
        (Some (Some \<lparr>bn_nodes = bans, mandatory = True\<rparr>), Err ErrNoServerAvailable)"
  using chooseUnbanned_spec [OF assms, of "Intn 0"]
  by (auto simp: Random_Select_def FromCtx_def Add_def split: res.splits)

lemma banned_addrs_Cons [simp]:
  "banned_addrs (Some n # bans) = insert (Address n) (banned_addrs bans)"
  by (auto simp: banned_addrs_def)

lemma select_run_mandatory:
  assumes "None \<notin> set nodes" "None \<notin> set bans"
  shows "let picked = picked_addrs
            (select_run Intn nodes (Some (Some \<lparr>bn_nodes = bans, mandatory = True\<rparr>)) k)
     in distinct picked \<and> set picked \<inter> banned_addrs bans = {}
        \<and> length picked = min k (card ({Address n |n. Some n \<in> set nodes} - banned_addrs bans))"
  using assms
proof (induction k arbitrary: bans)
  case (Suc k)
  let ?A = "{Address n |n. Some n \<in> set nodes}"
  have fin: "finite ?A"
    by (rule finite_subset [of _ "(\<lambda>p. Address (the p)) ` set nodes"]) (auto simp: image_iff, force)
  from Random_Select_mandatory [OF Suc.prems, of "Intn k"] show ?case
  proof (elim disjE exE conjE)
    fix n
    assume n: "Some n \<in> set nodes" "Address n \<notin> banned_addrs bans"
      and eq: "Random_Select (Intn k) (Some (Some \<lparr>bn_nodes = bans, mandatory = True\<rparr>)) nodes =
        (Some (Some \<lparr>bn_nodes = Some n # bans, mandatory = True\<rparr>), Ok (Some n))"
    have "card (?A - banned_addrs bans) = Suc (card (?A - insert (Address n) (banned_addrs bans)))"
      using n fin by (subst card_Suc_Diff1 [symmetric, of _ "Address n"])
        (auto simp: Diff_insert2 [symmetric] Diff_insert [symmetric])
    with Suc.IH [of "Some n # bans"] Suc.prems eq n show ?thesis
      by (auto simp: Let_def)
  next
    assume all: "\<forall>n. Some n \<in> set nodes \<longrightarrow> Address n \<in> banned_addrs bans"
      and eq: "Random_Select (Intn k) (Some (Some \<lparr>bn_nodes = bans, mandatory = True\<rparr>)) nodes =
        (Some (Some \<lparr>bn_nodes = bans, mandatory = True\<rparr>), Err ErrNoServerAvailable)"
    have "?A - banned_addrs bans = {}" using all by auto
    then have "card (?A - banned_addrs bans) = 0" by (metis card.empty)
    with Suc.IH [of bans] Suc.prems eq show ?thesis by (simp add: Let_def)
  qed
qed simp

subsection \<open>Properties\<close>

definition sample_node :: "string \<Rightarrow> int \<Rightarrow> node" where
  "sample_node addr w = \<lparr>ServiceName = ''svc'', ContainerName = [], Address = addr,
     Network = ''tcp'', Protocol = ''trpc'', SetName = [], Weight = w, CostTime = 0,
     EnvKey = [], Metadata = None, ParseAddr = None\<rparr>"

text \<open>a sequence of random selections that share a context created with a mandatory ban
  list never returns the same address twice, whatever the random draws are, and it keeps
  returning nodes until every distinct address of the node list has been used; from then on
  every selection fails.\<close>

theorem Random_mandatory_no_repeat:
  assumes "None \<notin> set nodes"
  shows "let picked = picked_addrs (select_run Intn nodes (Some (NewCtx ctx True)) k)
     in distinct picked \<and> length picked = min k (card {Address n |n. Some n \<in> set nodes})"
  using select_run_mandatory [OF assms, of "[]" Intn k]
  by (simp add: NewCtx_def banned_addrs_def Let_def)

theorem Random_mandatory_no_repeat_witness:
  "None \<notin> set [Some (sample_node ''a'' 1), Some (sample_node ''b'' 1), Some (sample_node ''a'' 2)] \<and>
   (let picked = picked_addrs (select_run (\<lambda>k d n. k mod n)
       [Some (sample_node ''a'' 1), Some (sample_node ''b'' 1), Some (sample_node ''a'' 2)]
       (Some (NewCtx None True)) 5)
    in distinct picked \<and> length picked = min 5 (card {Address n |n. Some n \<in> set
       [Some (sample_node ''a'' 1), Some (sample_node ''b'' 1), Some (sample_node ''a'' 2)]}))"
  using Random_mandatory_no_repeat
    [of "[Some (sample_node ''a'' 1), Some (sample_node ''b'' 1), Some (sample_node ''a'' 2)]"
        "\<lambda>k d n. k mod n" None 5]
  by simp

text \<open>without a mandatory ban list (no context, a context without the ban list, or an
  optional ban list) random selection always succeeds on a non-empty node list, and the result is
  one of the nodes; an unbanned node is preferred: a banned address comes back only when every
  address of the list is banned.\<close>

theorem Random_optional_total:
  assumes intn: "\<forall>d n. 0 < n \<longrightarrow> Intn d n < n"
    and ns: "None \<notin> set nodes" "nodes \<noteq> []"
    and octx: "octx = None \<or> octx = Some None \<or>
      (\<exists>b. octx = Some (Some b) \<and> \<not> mandatory b \<and> None \<notin> set (bn_nodes b))"
  shows "\<exists>n. snd (Random_Select Intn octx nodes) = Ok (Some n) \<and> Some n \<in> set nodes
     \<and> (\<forall>b. octx = Some (Some b) \<and> Address n \<in> banned_addrs (bn_nodes b) \<longrightarrow>
           (\<forall>m. Some m \<in> set nodes \<longrightarrow> Address m \<in> banned_addrs (bn_nodes b)))"
proof -
  have one: "\<exists>n. chooseOne (Intn d) nodes = Ok (Some n) \<and> Some n \<in> set nodes" for d
  proof -
    have "Intn d (length nodes) < length nodes" using intn ns(2) by simp
    moreover from this obtain n where "nodes ! Intn d (length nodes) = Some n"
      using not_None_in_set [OF ns(1) nth_mem] by blast
    ultimately show ?thesis using ns(2) nth_mem [of "Intn d (length nodes)" nodes]
      by (simp add: chooseOne_def Let_def)
  qed
  show ?thesis
  proof (cases "\<exists>b. octx = Some (Some b)")
    case False
    with octx one [of 0] show ?thesis by (auto simp: Random_Select_def FromCtx_def)
  next
    case True
    with octx obtain b where b: "octx = Some (Some b)" "\<not> mandatory b" "None \<notin> set (bn_nodes b)"
      by auto
    with chooseUnbanned_spec [OF ns(1) b(3), of "Intn 0"] one [of 1] show ?thesis
      by (auto simp: Random_Select_def FromCtx_def Let_def split: res.splits)
  qed
qed

theorem Random_optional_total_witness:
  "\<exists>n. snd (Random_Select (\<lambda>d n. n - 1)
        (Some (Some \<lparr>bn_nodes = [Some (sample_node ''b'' 1)], mandatory = False\<rparr>))
        [Some (sample_node ''a'' 1), Some (sample_node ''b'' 1)]) = Ok (Some n)"
  using Random_optional_total [of "\<lambda>d n. n - 1"
      "[Some (sample_node ''a'' 1), Some (sample_node ''b'' 1)]"
      "Some (Some \<lparr>bn_nodes = [Some (sample_node ''b'' 1)], mandatory = False\<rparr>)"]
  by auto

end
