(* ===== verification/Load_Balance.thy ===== *)
theory Load_Balance
  imports Naming "HOL-Library.Multiset"
begin

text \<open>
  The round-robin and the smooth weighted round-robin load balancers
  (\<open>naming/loadbalance/roundrobin\<close>, \<open>naming/loadbalance/weightroundrobin\<close>).

  The clock is an argument: \<open>now\<close> is what \<open>time.Now()\<close> reads under the picker's lock, and
  \<open>time.Since(updated) > interval\<close> is \<open>now - updated > interval\<close>. The map of pickers keyed by
  service name is a partial function. Every picker method runs under the picker's mutex, so a
  call is one step on the picker's state.

  The locale \<open>picker\<close> is the contract both balancers share with the selector: an empty list is
  refused and a non-empty one gives a member of the list the picker was last refreshed with.
\<close>

subsection \<open>The picker contract\<close>

fun run_picks ::
    "(int \<Rightarrow> nodeptr list \<Rightarrow> 'p \<Rightarrow> 'p \<times> 'r) \<Rightarrow> 'p \<Rightarrow> (int \<times> nodeptr list) list \<Rightarrow> 'r list" where
  "run_picks pick p [] = []"
| "run_picks pick p (c # cs) =
     (case pick (fst c) (snd c) p of (p', r) \<Rightarrow> r # run_picks pick p' cs)"

locale picker =
  fixes nodes :: "'p \<Rightarrow> nodeptr list"
    and inv :: "'p \<Rightarrow> bool"
    and valid :: "nodeptr list \<Rightarrow> bool"
    and pick :: "int \<Rightarrow> nodeptr list \<Rightarrow> 'p \<Rightarrow> 'p \<times> (lb_error, nodeptr) res"
  assumes pick_inv: "inv p \<Longrightarrow> valid ns \<Longrightarrow> inv (fst (pick now ns p))"
    and pick_length: "inv p \<Longrightarrow> valid ns \<Longrightarrow> length (nodes (fst (pick now ns p))) = length ns"
    and pick_nodes: "inv p \<Longrightarrow> valid ns \<Longrightarrow>
      nodes (fst (pick now ns p)) = ns \<or> nodes (fst (pick now ns p)) = nodes p"
    and pick_result: "inv p \<Longrightarrow> valid ns \<Longrightarrow> ns \<noteq> [] \<Longrightarrow>
      \<exists>n \<in> set (nodes (fst (pick now ns p))). snd (pick now ns p) = Ok n"
    and pick_empty: "inv p \<Longrightarrow> snd (pick now [] p) = Err ErrNoServerAvailable"
begin

lemma run_picks_members:
  assumes "inv p" and "\<forall>c \<in> set cs. valid (snd c) \<and> snd c \<noteq> []"
  shows "\<forall>r \<in> set (run_picks pick p cs).
     \<exists>n. r = Ok n \<and> (n \<in> set (nodes p) \<or> (\<exists>c \<in> set cs. n \<in> set (snd c)))"
  using assms
proof (induction cs arbitrary: p)
  case (Cons c cs)
  obtain p' r where eq: "pick (fst c) (snd c) p = (p', r)" by (cases "pick (fst c) (snd c) p")
  from Cons.prems eq pick_inv [of p "snd c" "fst c"] have p': "inv p'" by simp
  from Cons.prems eq pick_result [of p "snd c" "fst c"] obtain n
    where n: "n \<in> set (nodes p')" "r = Ok n" by auto
  from Cons.prems eq pick_nodes [of p "snd c" "fst c"]
  have np': "nodes p' = snd c \<or> nodes p' = nodes p" by simp
  have "\<forall>r \<in> set (run_picks pick p' cs).
      \<exists>n. r = Ok n \<and> (n \<in> set (nodes p') \<or> (\<exists>c \<in> set cs. n \<in> set (snd c)))"
    using Cons.IH [OF p'] Cons.prems(2) by simp
  with n np' eq show ?case by (auto; metis)
qed simp

end

subsection \<open>roundrobin\<close>

record rrPicker =
  rr_list :: "nodeptr list"
  rr_updated :: int
  rr_next :: nat
  rr_interval :: int

definition rr_updateState :: "int \<Rightarrow> nodeptr list \<Rightarrow> rrPicker \<Rightarrow> rrPicker" where
  "rr_updateState now list p =
     (if rr_list p = [] \<or> length (rr_list p) \<noteq> length list \<or> now - rr_updated p > rr_interval p
      then p\<lparr>rr_list := list, rr_updated := now, rr_next := 0\<rparr>
      else p)"

definition rr_Pick :: "int \<Rightarrow> nodeptr list \<Rightarrow> rrPicker \<Rightarrow> rrPicker \<times> (lb_error, nodeptr) res" where
  "rr_Pick now list p =
     (let p = rr_updateState now list p
      in if rr_list p = [] then (p, Err ErrNoServerAvailable)
         else if rr_next p < length (rr_list p) then
           (p\<lparr>rr_next := (rr_next p + 1) mod length (rr_list p)\<rparr>,
            Ok (DeepCopyNode (rr_list p ! rr_next p)))
         else (p, Panic))"

record RoundRobin =
  rr_pickers :: "string \<rightharpoonup> rrPicker"
  rr_rate :: int

definition defaultUpdateRate :: int where
  "defaultUpdateRate = 10 * 1000000000"

definition NewRoundRobin :: "int \<Rightarrow> RoundRobin" where
  "NewRoundRobin interval =
     \<lparr>rr_pickers = Map.empty,
      rr_rate = (if interval = 0 then defaultUpdateRate else interval)\<rparr>"

definition rr_Select ::
    "int \<Rightarrow> string \<Rightarrow> nodeptr list \<Rightarrow> RoundRobin \<Rightarrow> RoundRobin \<times> (lb_error, nodeptr) res" where
  "rr_Select now serviceName list rr =
     (let p = (case rr_pickers rr serviceName of
                 Some p \<Rightarrow> p
               | None \<Rightarrow> \<lparr>rr_list = [], rr_updated = 0, rr_next = 0, rr_interval = rr_rate rr\<rparr>);
          (p', r) = rr_Pick now list p
      in (rr\<lparr>rr_pickers := (rr_pickers rr)(serviceName \<mapsto> p')\<rparr>, r))"

definition rr_inv :: "rrPicker \<Rightarrow> bool" where
  "rr_inv p \<longleftrightarrow> rr_list p = [] \<or> rr_next p < length (rr_list p)"

lemma rr_updateState_inv: "rr_inv p \<Longrightarrow> rr_inv (rr_updateState now ns p)"
  by (auto simp: rr_inv_def rr_updateState_def)

interpretation rr: picker rr_list rr_inv "\<lambda>_. True" rr_Pick
proof
  fix p now ns assume "rr_inv p"
  then have i: "rr_inv (rr_updateState now ns p)" by (rule rr_updateState_inv)
  show "rr_inv (fst (rr_Pick now ns p))"
    using i by (auto simp: rr_Pick_def rr_inv_def Let_def)
  show "length (rr_list (fst (rr_Pick now ns p))) = length ns"
    by (auto simp: rr_Pick_def rr_updateState_def Let_def)
  show "rr_list (fst (rr_Pick now ns p)) = ns \<or> rr_list (fst (rr_Pick now ns p)) = rr_list p"
    by (auto simp: rr_Pick_def rr_updateState_def Let_def)
  show "snd (rr_Pick now [] p) = Err ErrNoServerAvailable"
    by (auto simp: rr_Pick_def rr_updateState_def Let_def)
  assume "ns \<noteq> []"
  then have "rr_list (rr_updateState now ns p) \<noteq> []" by (auto simp: rr_updateState_def)
  with i show "\<exists>n \<in> set (rr_list (fst (rr_Pick now ns p))). snd (rr_Pick now ns p) = Ok n"
    by (simp add: rr_Pick_def rr_inv_def Let_def)
qed

lemma rr_run_rotates:
  assumes "rr_list p = ns" "ns \<noteq> []" "rr_next p < length ns"
    and "\<forall>c \<in> set cs. length (snd c) = length ns \<and> fst c - rr_updated p \<le> rr_interval p"
  shows "run_picks rr_Pick p cs = map (\<lambda>i. Ok (ns ! ((rr_next p + i) mod length ns))) [0..<length cs]"
  using assms
proof (induction cs arbitrary: p)
  case (Cons c cs)
  let ?p' = "p\<lparr>rr_next := (rr_next p + 1) mod length ns\<rparr>"
  have "rr_updateState (fst c) (snd c) p = p"
    using Cons.prems by (auto simp: rr_updateState_def)
  then have eq: "rr_Pick (fst c) (snd c) p = (?p', Ok (ns ! rr_next p))"
    using Cons.prems by (simp add: rr_Pick_def)
  have "run_picks rr_Pick ?p' cs =
      map (\<lambda>i. Ok (ns ! ((rr_next ?p' + i) mod length ns))) [0..<length cs]"
    using Cons.prems by (intro Cons.IH) simp_all
  with eq Cons.prems show ?case
    by (simp add: map_upt_Suc mod_simps add.assoc del: upt_Suc)
qed simp

subsection \<open>weightroundrobin\<close>

record Server =
  srv_node :: nodeptr
  srv_weight :: int
  currentWeight :: int
  effectWeight :: int

record wrrPicker =
  wrr_list :: "Server list"
  wrr_updated :: int
  wrr_interval :: int

fun getServers :: "nodeptr list \<Rightarrow> (lb_error, Server list) res" where
  "getServers [] = Ok []"
| "getServers (None # ns) = Panic"
| "getServers (Some n # ns) =
     (let w = (if Weight n = 0 then 1000 else Weight n)
      in bind_res (getServers ns)
           (\<lambda>ss. Ok (\<lparr>srv_node = Some n, srv_weight = w, currentWeight = 0, effectWeight = w\<rparr> # ss)))"

text \<open>The loop of \<open>selectServer\<close>: \<open>sel\<close> is the index of the selected server with its current
  weight, which the loop does not change again.\<close>

fun selectServer_loop ::
    "nat \<Rightarrow> Server list \<Rightarrow> (nat \<times> int) option \<Rightarrow> int \<Rightarrow> Server list \<times> (nat \<times> int) option \<times> int" where
  "selectServer_loop i [] sel tot = ([], sel, tot)"
| "selectServer_loop i (s # ss) sel tot =
     (let cw = currentWeight s + effectWeight s;
          tot = tot + effectWeight s;
          s' = s\<lparr>currentWeight := cw,
                 effectWeight := (if effectWeight s < srv_weight s then effectWeight s + 1
                                  else effectWeight s)\<rparr>;
          sel = (case sel of
                   None \<Rightarrow> Some (i, cw)
                 | Some (j, c) \<Rightarrow> if cw > c then Some (i, cw) else sel);
          (ss', r) = selectServer_loop (i + 1) ss sel tot
      in (s' # ss', r))"

definition selectServer :: "Server list \<Rightarrow> (lb_error, nat \<times> Server list) res" where
  "selectServer ss =
     (case selectServer_loop 0 ss None 0 of
        (ss', Some (j, _), tot) \<Rightarrow>
          Ok (j, ss'[j := (ss' ! j)\<lparr>currentWeight := currentWeight (ss' ! j) - tot\<rparr>])
      | (ss', None, tot) \<Rightarrow> Panic)"

definition wrr_updateState :: "int \<Rightarrow> nodeptr list \<Rightarrow> wrrPicker \<Rightarrow> (lb_error, wrrPicker) res" where
  "wrr_updateState now list p =
     (if wrr_list p = [] \<or> length (wrr_list p) \<noteq> length list \<or> now - wrr_updated p > wrr_interval p
      then bind_res (getServers list) (\<lambda>ss. Ok (p\<lparr>wrr_list := ss, wrr_updated := now\<rparr>))
      else Ok p)"

definition wrr_Pick :: "int \<Rightarrow> nodeptr list \<Rightarrow> wrrPicker \<Rightarrow> wrrPicker \<times> (lb_error, nodeptr) res" where
  "wrr_Pick now list p =
     (case wrr_updateState now list p of
        Ok p' \<Rightarrow>
          if wrr_list p' = [] then (p', Err ErrNoServerAvailable)
          else (case selectServer (wrr_list p') of
                  Ok (j, ss) \<Rightarrow> (p'\<lparr>wrr_list := ss\<rparr>, Ok (DeepCopyNode (srv_node (ss ! j))))
                | Err e \<Rightarrow> (p', Err e)
                | Panic \<Rightarrow> (p', Panic))
      | Err e \<Rightarrow> (p, Err e)
      | Panic \<Rightarrow> (p, Panic))"

record WeightRoundRobin =
  wrr_pickers :: "string \<rightharpoonup> wrrPicker"
  wrr_rate :: int

definition NewWeightRoundRobin :: "int \<Rightarrow> WeightRoundRobin" where
  "NewWeightRoundRobin interval =
     \<lparr>wrr_pickers = Map.empty,
      wrr_rate = (if interval = 0 then defaultUpdateRate else interval)\<rparr>"

definition wrr_Select ::
    "int \<Rightarrow> string \<Rightarrow> nodeptr list \<Rightarrow> WeightRoundRobin
      \<Rightarrow> WeightRoundRobin \<times> (lb_error, nodeptr) res" where
  "wrr_Select now serviceName list wrr =
     (let p = (case wrr_pickers wrr serviceName of
                 Some p \<Rightarrow> p
               | None \<Rightarrow> \<lparr>wrr_list = [], wrr_updated = 0, wrr_interval = wrr_rate wrr\<rparr>);
          (p', r) = wrr_Pick now list p
      in (wrr\<lparr>wrr_pickers := (wrr_pickers wrr)(serviceName \<mapsto> p')\<rparr>, r))"

text \<open>Invariant of a weighted picker: effective weights are the configured (positive) ones, the
  current weights sum to zero, and each stays above minus the total weight.\<close>

definition total_weight :: "Server list \<Rightarrow> int" where
  "total_weight ss = (\<Sum>s\<leftarrow>ss. srv_weight s)"

definition wrr_ok :: "Server list \<Rightarrow> bool" where
  "wrr_ok ss \<longleftrightarrow>
     (\<forall>s \<in> set ss. effectWeight s = srv_weight s \<and> 0 < srv_weight s
        \<and> - total_weight ss < currentWeight s)
     \<and> (\<Sum>s\<leftarrow>ss. currentWeight s) = 0"

definition bump :: "Server \<Rightarrow> Server" where
  "bump s = s\<lparr>currentWeight := currentWeight s + srv_weight s\<rparr>"

lemma bump_sel [simp]:
  "currentWeight (bump s) = currentWeight s + srv_weight s" "srv_weight (bump s) = srv_weight s"
  "effectWeight (bump s) = effectWeight s" "srv_node (bump s) = srv_node s"
  by (simp_all add: bump_def)

lemma selectServer_loop_spec:
  assumes "\<forall>s \<in> set ss. effectWeight s = srv_weight s"
    and "selectServer_loop i ss sel t = (ss', sel', t')"
  shows "ss' = map bump ss \<and> t' = t + total_weight ss \<and>
     (case sel' of
        None \<Rightarrow> sel = None \<and> ss = []
      | Some (j, c) \<Rightarrow>
          (sel = Some (j, c) \<or> (\<exists>k < length ss. j = i + k \<and> c = currentWeight (bump (ss ! k))))
          \<and> (\<forall>s \<in> set ss. currentWeight (bump s) \<le> c) \<and> (\<forall>j0 c0. sel = Some (j0, c0) \<longrightarrow> c0 \<le> c))"
  using assms
proof (induction ss arbitrary: i sel t ss' sel' t')
  case Nil
  then show ?case by (auto simp: total_weight_def split: option.splits)
next
  case (Cons s ss)
  define cw where "cw = currentWeight s + srv_weight s"
  define sel1 where "sel1 = (case sel of None \<Rightarrow> Some (i, cw)
    | Some (j, c) \<Rightarrow> if cw > c then Some (i, cw) else sel)"
  obtain ss1 sl t1 where rec: "selectServer_loop (i + 1) ss sel1 (t + srv_weight s) = (ss1, sl, t1)"
    by (metis prod_cases3)
  from Cons.prems rec [unfolded sel1_def cw_def]
  have eq: "ss' = bump s # ss1" "sel' = sl" "t' = t1"
    by (auto simp: Let_def bump_def split: prod.splits)
  have IH: "ss1 = map bump ss \<and> t1 = t + srv_weight s + total_weight ss \<and>
     (case sl of
        None \<Rightarrow> sel1 = None \<and> ss = []
      | Some (j, c) \<Rightarrow>
          (sel1 = Some (j, c) \<or> (\<exists>k < length ss. j = i + 1 + k \<and> c = currentWeight (bump (ss ! k))))
          \<and> (\<forall>s \<in> set ss. currentWeight (bump s) \<le> c) \<and> (\<forall>j0 c0. sel1 = Some (j0, c0) \<longrightarrow> c0 \<le> c))"
    using Cons.IH [OF _ rec] Cons.prems(1) by simp
  have some1: "sel1 \<noteq> None" by (auto simp: sel1_def split: option.splits)
  with IH obtain j c where sl: "sl = Some (j, c)" by (cases sl) auto
  from IH sl have a: "sel1 = Some (j, c) \<or> (\<exists>k < length ss. j = i + 1 + k \<and> c = currentWeight (bump (ss ! k)))"
    and b: "\<forall>s \<in> set ss. currentWeight (bump s) \<le> c"
    and d: "\<And>j0 c0. sel1 = Some (j0, c0) \<Longrightarrow> c0 \<le> c" by auto
  from some1 obtain j1 c1 where s1: "sel1 = Some (j1, c1)" by auto
  then have c1: "cw \<le> c1 \<and> (\<forall>j0 c0. sel = Some (j0, c0) \<longrightarrow> c0 \<le> c1)"
    by (auto simp: sel1_def split: option.splits if_splits)
  with d [OF s1] have "cw \<le> c" and "\<forall>j0 c0. sel = Some (j0, c0) \<longrightarrow> c0 \<le> c" by auto
  moreover have "sel = Some (j, c) \<or> (\<exists>k < length (s # ss). j = i + k \<and> c = currentWeight (bump ((s # ss) ! k)))"
    using a
  proof
    assume "sel1 = Some (j, c)"
    then show ?thesis by (auto simp: sel1_def cw_def split: option.splits if_splits)
  next
    assume "\<exists>k < length ss. j = i + 1 + k \<and> c = currentWeight (bump (ss ! k))"
    then obtain k where "k < length ss" "j = i + 1 + k" "c = currentWeight (bump (ss ! k))" by auto
    then show ?thesis by (intro disjI2 exI [of _ "Suc k"]) simp
  qed
  ultimately show ?case using IH sl eq b by (simp add: total_weight_def cw_def)
qed

lemma sum_list_update_int:
  "j < length xs \<Longrightarrow> sum_list (xs[j := y]) = sum_list xs - xs ! j + (y :: int)"
  by (induction xs arbitrary: j) (auto split: nat.splits)

lemma sum_list_le_max:
  "\<forall>x \<in> set xs. x \<le> c \<Longrightarrow> sum_list xs \<le> int (length xs) * (c :: int)"
  by (induction xs) (auto simp: algebra_simps)

lemma total_weight_pos:
  assumes "wrr_ok ss" "ss \<noteq> []"
  shows "0 < total_weight ss"
proof -
  obtain s rest where "ss = s # rest" using assms(2) by (cases ss) auto
  moreover have "0 \<le> (\<Sum>s\<leftarrow>rest. srv_weight s)"
    using assms(1) \<open>ss = s # rest\<close> by (intro sum_list_nonneg) (auto simp: wrr_ok_def)
  ultimately show ?thesis using assms(1) by (auto simp: total_weight_def wrr_ok_def)
qed

lemma selectServer_ok:
  assumes ok: "wrr_ok ss" and ne: "ss \<noteq> []"
  obtains j ss' where "selectServer ss = Ok (j, ss')" "j < length ss" "length ss' = length ss"
    "wrr_ok ss'" "map srv_weight ss' = map srv_weight ss" "map srv_node ss' = map srv_node ss"
    "\<And>i. i < length ss \<Longrightarrow> currentWeight (ss' ! i) =
        currentWeight (ss ! i) + srv_weight (ss ! i) - (if i = j then total_weight ss else 0)"
proof -
  obtain s1 sel t where l: "selectServer_loop 0 ss None 0 = (s1, sel, t)" by (metis prod_cases3)
  have eff: "\<forall>s \<in> set ss. effectWeight s = srv_weight s" using ok by (simp add: wrr_ok_def)
  note spec = selectServer_loop_spec [OF eff l]
  with ne obtain j c where j: "sel = Some (j, c)" by (cases sel) auto
  with spec have s1: "s1 = map bump ss" "t = total_weight ss" and jl: "j < length ss"
    and c: "c = currentWeight (bump (ss ! j))" and mx: "\<forall>s \<in> set ss. currentWeight (bump s) \<le> c"
    by auto
  define ss' where "ss' = (map bump ss)[j := (bump (ss ! j))\<lparr>currentWeight := c - total_weight ss\<rparr>]"
  have sel: "selectServer ss = Ok (j, ss')"
    using jl by (simp add: selectServer_def l j s1 ss'_def c)
  have nth: "currentWeight (ss' ! i) =
        currentWeight (ss ! i) + srv_weight (ss ! i) - (if i = j then total_weight ss else 0)"
    if "i < length ss" for i
    using that jl by (auto simp: ss'_def nth_list_update c)
  have w: "map srv_weight ss' = map srv_weight ss"
    using jl by (simp add: ss'_def map_update comp_def list_update_same_conv)
  then have tw: "total_weight ss' = total_weight ss" by (simp add: total_weight_def)
  have pos: "0 < total_weight ss" using ok ne by (rule total_weight_pos)
  have sum1: "(\<Sum>s\<leftarrow>ss. currentWeight (bump s)) = total_weight ss"
    using ok by (simp add: wrr_ok_def total_weight_def sum_list_addf)
  have "total_weight ss \<le> int (length ss) * c"
    using sum_list_le_max [of "map (\<lambda>s. currentWeight (bump s)) ss" c] mx sum1 by simp
  moreover have "int (length ss) * c \<le> 0" if "c \<le> 0"
    using that by (simp add: mult_nonneg_nonpos)
  ultimately have cpos: "0 < c" using pos by linarith
  have "wrr_ok ss'"
    unfolding wrr_ok_def tw
  proof (intro conjI ballI)
    have "map currentWeight ss' = (map (\<lambda>s. currentWeight (bump s)) ss)[j := c - total_weight ss]"
      by (simp add: ss'_def map_update comp_def)
    then show "(\<Sum>s\<leftarrow>ss'. currentWeight s) = 0"
      using jl c sum1 by (simp add: sum_list_update_int del: bump_sel)
  next
    fix s assume "s \<in> set ss'"
    then obtain i where i: "i < length ss" "s = ss' ! i" by (auto simp: in_set_conv_nth ss'_def)
    with ok have w_i: "0 < srv_weight (ss ! i)" "effectWeight (ss ! i) = srv_weight (ss ! i)"
      "- total_weight ss < currentWeight (ss ! i)" by (simp_all add: wrr_ok_def)
    show "effectWeight s = srv_weight s" "0 < srv_weight s"
      using i jl w_i by (auto simp: ss'_def nth_list_update)
    show "- total_weight ss < currentWeight s"
      using i jl w_i cpos by (auto simp: ss'_def nth_list_update)
  qed
  moreover have "map srv_node ss' = map srv_node ss"
    using jl by (simp add: ss'_def map_update comp_def list_update_same_conv)
  ultimately show thesis
    using that [of j ss'] sel jl w nth by (simp add: ss'_def)
qed

text \<open>\<open>k\<close> selections in a row, by server index.\<close>

fun select_indices :: "nat \<Rightarrow> Server list \<Rightarrow> nat list \<times> Server list" where
  "select_indices 0 ss = ([], ss)"
| "select_indices (Suc k) ss =
     (case selectServer ss of
        Ok (j, ss') \<Rightarrow> (case select_indices k ss' of (js, ss'') \<Rightarrow> (j # js, ss''))
      | _ \<Rightarrow> ([], ss))"

lemma select_indices_weights:
  assumes "wrr_ok ss" "ss \<noteq> []" "select_indices k ss = (js, ss')"
  shows "length js = k \<and> set js \<subseteq> {..<length ss} \<and> wrr_ok ss' \<and> length ss' = length ss
     \<and> total_weight ss' = total_weight ss
     \<and> (\<forall>i < length ss. currentWeight (ss' ! i) =
          currentWeight (ss ! i) + int k * srv_weight (ss ! i) - total_weight ss * int (count_list js i))"
  using assms
proof (induction k arbitrary: ss js)
  case (Suc k)
  obtain j s1 where s1: "selectServer ss = Ok (j, s1)" "j < length ss" "length s1 = length ss"
    "wrr_ok s1" "map srv_weight s1 = map srv_weight ss"
    "\<And>i. i < length ss \<Longrightarrow> currentWeight (s1 ! i) =
        currentWeight (ss ! i) + srv_weight (ss ! i) - (if i = j then total_weight ss else 0)"
    using selectServer_ok [OF Suc.prems(1,2)] by metis
  obtain js1 s2 where r: "select_indices k s1 = (js1, s2)" by (cases "select_indices k s1")
  have ne: "s1 \<noteq> []" using s1(3) Suc.prems(2) by auto
  from s1(1) r Suc.prems(3) have js: "js = j # js1" "s2 = ss'" by auto
  have tw: "total_weight s1 = total_weight ss" using s1(5) by (simp add: total_weight_def)
  have sw: "srv_weight (s1 ! i) = srv_weight (ss ! i)" if "i < length ss" for i
    using that s1(3,5) by (metis nth_map)
  from Suc.IH [OF s1(4) ne r [unfolded js(2)]] js s1(2,3) tw show ?case
    by (auto simp: s1(6) sw algebra_simps)
qed simp

lemma sum_count_list:
  "set js \<subseteq> {..<n :: nat} \<Longrightarrow> (\<Sum>i<n. count_list js i) = length js"
proof (induction js)
  case (Cons j js)
  have "(\<Sum>i<n. count_list (j # js) i) = (\<Sum>i<n. count_list js i + (if j = i then 1 else 0))"
    by (intro sum.cong) auto
  also have "\<dots> = length js + 1"
  proof -
    have "(\<Sum>i<n. if j = i then 1 else 0) = (1 :: nat)"
      using Cons.prems by (subst sum.delta') auto
    with Cons show ?thesis by (simp only: sum.distrib) simp
  qed
  finally show ?case by simp
qed simp

lemma select_indices_fair:
  assumes ok: "wrr_ok ss" and zero: "\<forall>s \<in> set ss. currentWeight s = 0" and ne: "ss \<noteq> []"
    and js: "select_indices (nat (total_weight ss)) ss = (js, ss')"
  shows "\<forall>i < length ss. int (count_list js i) = srv_weight (ss ! i)"
proof -
  let ?W = "total_weight ss"
  note r = select_indices_weights [OF ok ne js]
  have W: "?W = (\<Sum>i<length ss. srv_weight (ss ! i))"
    by (simp add: total_weight_def sum_list_sum_nth atLeast0LessThan)
  have Wpos: "0 < ?W" using ok ne by (rule total_weight_pos)
  have le: "int (count_list js i) \<le> srv_weight (ss ! i)" if i: "i < length ss" for i
  proof -
    have "- total_weight ss' < currentWeight (ss' ! i)"
      using r i nth_mem [of i ss'] unfolding wrr_ok_def by metis
    then have "- ?W < currentWeight (ss' ! i)" using r by metis
    also have "\<dots> = ?W * (srv_weight (ss ! i) - int (count_list js i))"
      using r i zero Wpos by (simp add: algebra_simps)
    finally have "?W * (-1) < ?W * (srv_weight (ss ! i) - int (count_list js i))" by simp
    then have "-1 < srv_weight (ss ! i) - int (count_list js i)"
      by (simp only: mult_less_cancel_left_pos [OF Wpos])
    then show ?thesis by simp
  qed
  have "(\<Sum>i<length ss. int (count_list js i)) = int (length js)"
    using sum_count_list [of js "length ss"] r by (metis of_nat_sum)
  then have "(\<Sum>i<length ss. int (count_list js i)) = (\<Sum>i<length ss. srv_weight (ss ! i))"
    using r Wpos by (simp add: W [symmetric])
  then have "int (count_list js i) = srv_weight (ss ! i)" if "i \<in> {..<length ss}" for i
    using that le by (intro sum_mono_inv [of "\<lambda>i. int (count_list js i)" "{..<length ss}"
      "\<lambda>i. srv_weight (ss ! i)"]) auto
  then show ?thesis by simp
qed

definition eff_weight :: "node \<Rightarrow> int" where
  "eff_weight n = (if Weight n = 0 then 1000 else Weight n)"

definition wrr_valid :: "nodeptr list \<Rightarrow> bool" where
  "wrr_valid ns \<longleftrightarrow> (\<forall>p \<in> set ns. case p of None \<Rightarrow> False | Some n \<Rightarrow> 0 \<le> Weight n)"

lemma getServers_valid:
  "wrr_valid ns \<Longrightarrow> \<exists>ss. getServers ns = Ok ss \<and> map srv_node ss = ns \<and> wrr_ok ss
     \<and> (\<forall>s \<in> set ss. currentWeight s = 0) \<and> map srv_weight ss = map (\<lambda>p. eff_weight (the p)) ns"
proof (induction ns rule: getServers.induct)
  case (3 n ns)
  then obtain ss where ss: "getServers ns = Ok ss" "map srv_node ss = ns" "wrr_ok ss"
    "\<forall>s \<in> set ss. currentWeight s = 0" "map srv_weight ss = map (\<lambda>p. eff_weight (the p)) ns"
    by (auto simp: wrr_valid_def)
  have w: "0 < eff_weight n" using "3.prems" by (auto simp: wrr_valid_def eff_weight_def)
  have pos: "\<forall>s \<in> set ss. 0 < srv_weight s" using ss(3) by (simp add: wrr_ok_def)
  have "0 \<le> (\<Sum>s\<leftarrow>ss. srv_weight s)" using pos by (intro sum_list_nonneg) auto
  with ss w show ?case
    by (auto simp: wrr_ok_def total_weight_def eff_weight_def Let_def)
qed (auto simp: wrr_valid_def wrr_ok_def)

lemma wrr_Pick_fresh:
  "wrr_updateState now ns p = Ok p' \<Longrightarrow> wrr_updateState now ns p' = Ok p' \<Longrightarrow>
     wrr_Pick now ns p = wrr_Pick now ns p'"
  by (simp add: wrr_Pick_def)

lemma wrr_Pick_selects:
  assumes "wrr_updateState now ns p = Ok p'" "wrr_ok (wrr_list p')" "wrr_list p' \<noteq> []"
  obtains j ss where "selectServer (wrr_list p') = Ok (j, ss)" "j < length (wrr_list p')"
    "wrr_ok ss" "map srv_node ss = map srv_node (wrr_list p')"
    "wrr_Pick now ns p = (p'\<lparr>wrr_list := ss\<rparr>, Ok (srv_node (wrr_list p' ! j)))"
proof -
  obtain j ss where s: "selectServer (wrr_list p') = Ok (j, ss)" "j < length (wrr_list p')"
    "length ss = length (wrr_list p')" "wrr_ok ss" "map srv_node ss = map srv_node (wrr_list p')"
    using selectServer_ok [OF assms(2,3)] by metis
  then have "srv_node (ss ! j) = srv_node (wrr_list p' ! j)" by (metis nth_map)
  with s assms that [OF s(1,2,4,5)] show thesis by (simp add: wrr_Pick_def)
qed

lemma wrr_updateState_ok:
  assumes "wrr_ok (wrr_list p)" "wrr_valid ns"
  obtains p' where "wrr_updateState now ns p = Ok p'" "wrr_ok (wrr_list p')"
    "length (wrr_list p') = length ns"
    "map srv_node (wrr_list p') = ns \<or> map srv_node (wrr_list p') = map srv_node (wrr_list p)"
proof (cases "wrr_list p = [] \<or> length (wrr_list p) \<noteq> length ns \<or> now - wrr_updated p > wrr_interval p")
  case True
  with getServers_valid [OF assms(2)] obtain ss where
    ss: "getServers ns = Ok ss" "map srv_node ss = ns" "wrr_ok ss" by auto
  with True that [of "p\<lparr>wrr_list := ss, wrr_updated := now\<rparr>"] show thesis
    by (auto simp: wrr_updateState_def dest: arg_cong [of _ _ length])
next
  case False
  with assms that [of p] show thesis by (simp add: wrr_updateState_def)
qed

lemma wrr_Pick_contract:
  fixes p :: wrrPicker and now :: int
  assumes "wrr_ok (wrr_list p)" and "wrr_valid ns"
  defines "r \<equiv> wrr_Pick now ns p"
  shows "wrr_ok (wrr_list (fst r))" and "length (wrr_list (fst r)) = length ns"
    and "map srv_node (wrr_list (fst r)) = ns \<or>
         map srv_node (wrr_list (fst r)) = map srv_node (wrr_list p)"
    and "ns \<noteq> [] \<Longrightarrow> \<exists>n \<in> set (map srv_node (wrr_list (fst r))). snd r = Ok n"
    and "ns = [] \<Longrightarrow> snd r = Err ErrNoServerAvailable"
proof -
  obtain p' where p': "wrr_updateState now ns p = Ok p'" "wrr_ok (wrr_list p')"
    "length (wrr_list p') = length ns"
    "map srv_node (wrr_list p') = ns \<or> map srv_node (wrr_list p') = map srv_node (wrr_list p)"
    using assms(1,2) by (rule wrr_updateState_ok)
  have "wrr_ok (wrr_list (fst r)) \<and> length (wrr_list (fst r)) = length ns
      \<and> (map srv_node (wrr_list (fst r)) = ns \<or>
         map srv_node (wrr_list (fst r)) = map srv_node (wrr_list p))
      \<and> (if ns = [] then snd r = Err ErrNoServerAvailable
         else \<exists>n \<in> set (map srv_node (wrr_list (fst r))). snd r = Ok n)"
  proof (cases "wrr_list p' = []")
    case True
    with p' show ?thesis by (auto simp: wrr_Pick_def r_def)
  next
    case False
    then obtain j ss where s: "j < length (wrr_list p')" "wrr_ok ss"
      "map srv_node ss = map srv_node (wrr_list p')"
      "r = (p'\<lparr>wrr_list := ss\<rparr>, Ok (srv_node (wrr_list p' ! j)))"
      using wrr_Pick_selects [OF p'(1,2)] unfolding r_def by metis
    have "srv_node (wrr_list p' ! j) \<in> set (map srv_node ss)"
      unfolding s(3) using s(1) by simp
    moreover have "length ss = length ns" using s(3) p'(3) by (metis length_map)
    moreover have "ns \<noteq> []" using False p'(3) by auto
    ultimately show ?thesis using s p'(4) by simp
  qed
  then show "wrr_ok (wrr_list (fst r))" and "length (wrr_list (fst r)) = length ns"
    and "map srv_node (wrr_list (fst r)) = ns \<or>
         map srv_node (wrr_list (fst r)) = map srv_node (wrr_list p)"
    and "ns \<noteq> [] \<Longrightarrow> \<exists>n \<in> set (map srv_node (wrr_list (fst r))). snd r = Ok n"
    and "ns = [] \<Longrightarrow> snd r = Err ErrNoServerAvailable"
    by (auto split: if_splits)
qed

interpretation wrr: picker "\<lambda>p. map srv_node (wrr_list p)" "\<lambda>p. wrr_ok (wrr_list p)" wrr_valid wrr_Pick
proof unfold_locales
  fix p :: wrrPicker and now assume "wrr_ok (wrr_list p)"
  then show "snd (wrr_Pick now [] p) = Err ErrNoServerAvailable"
    using wrr_Pick_contract(5) [of p "[]" now] by (simp add: wrr_valid_def)
qed (use wrr_Pick_contract in \<open>simp_all\<close>)

lemma wrr_run_indices:
  assumes "wrr_ok (wrr_list p)" "wrr_list p \<noteq> []"
    and "\<forall>c \<in> set cs. length (snd c) = length (wrr_list p) \<and> fst c - wrr_updated p \<le> wrr_interval p"
  shows "run_picks wrr_Pick p cs =
     map (\<lambda>j. Ok (srv_node (wrr_list p ! j))) (fst (select_indices (length cs) (wrr_list p)))"
  using assms
proof (induction cs arbitrary: p)
  case (Cons c cs)
  from Cons.prems have "wrr_updateState (fst c) (snd c) p = Ok p"
    by (simp add: wrr_updateState_def)
  then obtain j ss where s: "selectServer (wrr_list p) = Ok (j, ss)" "wrr_ok ss"
    "map srv_node ss = map srv_node (wrr_list p)"
    "wrr_Pick (fst c) (snd c) p = (p\<lparr>wrr_list := ss\<rparr>, Ok (srv_node (wrr_list p ! j)))"
    using wrr_Pick_selects [OF _ Cons.prems(1,2)] by metis
  let ?p' = "p\<lparr>wrr_list := ss\<rparr>"
  have len: "length ss = length (wrr_list p)" using s(3) by (metis length_map)
  then have ne: "wrr_list ?p' \<noteq> []" using Cons.prems(2) by auto
  obtain js ss' where js: "select_indices (length cs) ss = (js, ss')"
    by (cases "select_indices (length cs) ss")
  have "set js \<subseteq> {..<length (wrr_list p)}"
    using select_indices_weights [OF s(2) _ js] ne len by simp
  then have "srv_node (ss ! i) = srv_node (wrr_list p ! i)" if "i \<in> set js" for i
    using that s(3) len by (metis lessThan_iff nth_map subsetD)
  then have "map (\<lambda>j. Ok (srv_node (ss ! j))) js = map (\<lambda>j. Ok (srv_node (wrr_list p ! j))) js"
    by simp
  moreover have "run_picks wrr_Pick ?p' cs =
      map (\<lambda>j. Ok (srv_node (wrr_list ?p' ! j))) (fst (select_indices (length cs) (wrr_list ?p')))"
    using Cons.prems(3) s(2) len ne by (intro Cons.IH) simp_all
  ultimately show ?case using s js by simp
qed simp

lemma count_list_map_inj:
  "inj_on f (set js \<union> {i}) \<Longrightarrow> count_list (map f js) (f i) = count_list js i"
  by (induction js) (auto simp: inj_on_def)

subsection \<open>Properties\<close>

text \<open>C22: smooth weighted round robin is exactly proportional. From a fresh picker, the first
  \<open>W\<close> picks, \<open>W\<close> being the sum of the weights (a weight 0 counts as 1000), return every node
  exactly as often as its weight says, as long as the picker is not refreshed in between (the
  calls lie within the interval and pass lists of the same length).\<close>

theorem wrr_proportional:
  assumes valid: "wrr_valid ns" and ne: "ns \<noteq> []" and dist: "distinct ns" and iv: "0 \<le> iv"
    and len: "int (length cs) = (\<Sum>p\<leftarrow>ns. eff_weight (the p))"
    and first: "hd cs = (t0, ns)"
    and calls: "\<forall>c \<in> set cs. length (snd c) = length ns \<and> fst c - t0 \<le> iv"
    and n: "Some n \<in> set ns"
  shows "int (count_list
      (run_picks wrr_Pick \<lparr>wrr_list = [], wrr_updated = 0, wrr_interval = iv\<rparr> cs) (Ok (Some n)))
     = eff_weight n"
proof -
  let ?p0 = "\<lparr>wrr_list = [], wrr_updated = 0, wrr_interval = iv\<rparr>"
  obtain ss where ss: "getServers ns = Ok ss" "map srv_node ss = ns" "wrr_ok ss"
    "\<forall>s \<in> set ss. currentWeight s = 0" "map srv_weight ss = map (\<lambda>p. eff_weight (the p)) ns"
    using getServers_valid [OF valid] by auto
  let ?p1 = "\<lparr>wrr_list = ss, wrr_updated = t0, wrr_interval = iv\<rparr>"
  have tw: "total_weight ss = int (length cs)" using ss(5) len by (simp add: total_weight_def)
  have ssne: "ss \<noteq> []" using ss(2) ne by auto
  have lss: "length ss = length ns" using ss(2) by (metis length_map)
  have "0 < total_weight ss" using ss(3) ssne by (rule total_weight_pos)
  then obtain cs' where cs: "cs = (t0, ns) # cs'" using tw first by (cases cs) auto
  have "wrr_Pick t0 ns ?p0 = wrr_Pick t0 ns ?p1"
    using ss(1) lss ssne iv by (intro wrr_Pick_fresh) (simp_all add: wrr_updateState_def)
  then have "run_picks wrr_Pick ?p0 cs = run_picks wrr_Pick ?p1 cs" by (simp add: cs)
  also have "\<dots> = map (\<lambda>j. Ok (ns ! j)) (fst (select_indices (length cs) ss))"
  proof -
    obtain js ss' where js: "select_indices (length cs) ss = (js, ss')"
      by (cases "select_indices (length cs) ss")
    have "set js \<subseteq> {..<length ss}" using select_indices_weights [OF ss(3) ssne js] by simp
    then have "srv_node (ss ! i) = ns ! i" if "i \<in> set js" for i
      using that ss(2) by (metis lessThan_iff nth_map subsetD)
    with js show ?thesis
      using wrr_run_indices [of ?p1 cs] ss(3) ssne calls lss by simp
  qed
  finally have run: "run_picks wrr_Pick ?p0 cs = map (\<lambda>j. Ok (ns ! j)) (fst (select_indices (length cs) ss))" .
  obtain js ss' where js: "select_indices (nat (total_weight ss)) ss = (js, ss')"
    by (cases "select_indices (nat (total_weight ss)) ss")
  from n obtain i where i: "i < length ns" "ns ! i = Some n" by (auto simp: in_set_conv_nth)
  have sub: "set js \<subseteq> {..<length ns}" using select_indices_weights [OF ss(3) ssne js] lss by simp
  have "inj_on (\<lambda>j. Ok (ns ! j) :: (lb_error, nodeptr) res) (set js \<union> {i})"
    using sub i dist by (auto intro!: inj_onI simp: nth_eq_iff_index_eq subset_iff)
  then have "count_list (map (\<lambda>j. Ok (ns ! j)) js) (Ok (Some n) :: (lb_error, nodeptr) res)
      = count_list js i"
    using count_list_map_inj [of "\<lambda>j. Ok (ns ! j) :: (lb_error, nodeptr) res" js i] i by simp
  then have cnt: "count_list (run_picks wrr_Pick ?p0 cs) (Ok (Some n)) = count_list js i"
    using js tw by (simp add: run)
  have "int (count_list js i) = srv_weight (ss ! i)"
    using select_indices_fair [OF ss(3,4) ssne js] i lss by simp
  also have "\<dots> = eff_weight n" using ss(5) i lss by (metis nth_map option.sel)
  finally show ?thesis using cnt by simp
qed

theorem wrr_proportional_witness:
  "int (count_list
      (run_picks wrr_Pick \<lparr>wrr_list = [], wrr_updated = 0, wrr_interval = 10\<rparr>
        (replicate 4 (7, [Some (sample_node ''a'' 1), Some (sample_node ''b'' 3)])))
      (Ok (Some (sample_node ''b'' 3)))) = 3"
  using wrr_proportional [of "[Some (sample_node ''a'' 1), Some (sample_node ''b'' 3)]" 10
      "replicate 4 (7, [Some (sample_node ''a'' 1), Some (sample_node ''b'' 3)])" 7
      "sample_node ''b'' 3"]
  by (simp add: wrr_valid_def eff_weight_def sample_node_def)

text \<open>the current weights of a weighted picker stay bounded: after any number of selections
  from the initial state they sum to zero, each lies strictly above minus the total weight \<open>W\<close>
  and is at most \<open>(n - 1) * W\<close> for \<open>n\<close> servers, so the Go \<open>int\<close> arithmetic of the loop cannot
  overflow while \<open>n * W\<close> fits.\<close>

theorem wrr_weights_bounded:
  assumes valid: "wrr_valid ns" and "ns \<noteq> []"
    and ss: "getServers ns = Ok ss" and sel: "select_indices k ss = (js, ss')" and s: "s \<in> set ss'"
  shows "(\<Sum>s\<leftarrow>ss'. currentWeight s) = 0
     \<and> - total_weight ss < currentWeight s
     \<and> currentWeight s \<le> int (length ns - 1) * total_weight ss"
proof -
  have ok: "wrr_ok ss" and lss: "length ss = length ns"
    using getServers_valid [OF valid] ss by (auto dest: arg_cong [of _ _ length])
  have ne: "ss \<noteq> []" using lss assms(2) by auto
  note r = select_indices_weights [OF ok ne sel]
  then have ok': "wrr_ok ss'" and tw: "total_weight ss' = total_weight ss"
    and len: "length ss' = length ns" using lss by auto
  obtain xs ys where split: "ss' = xs @ s # ys" using s by (meson split_list)
  have "int (length (xs @ ys)) * (- total_weight ss) \<le> (\<Sum>s\<leftarrow>xs @ ys. currentWeight s)"
  proof -
    have "- currentWeight x \<le> total_weight ss" if "x \<in> set (xs @ ys)" for x
    proof -
      have "- total_weight ss < currentWeight x"
        using that ok' tw split unfolding wrr_ok_def by auto
      then show ?thesis by simp
    qed
    then have "\<forall>x \<in> set (map (\<lambda>s. - currentWeight s) (xs @ ys)). x \<le> total_weight ss"
      by auto
    from sum_list_le_max [OF this] show ?thesis
      by (simp add: uminus_sum_list_map [symmetric, unfolded comp_def])
  qed
  moreover have "(\<Sum>s\<leftarrow>xs @ ys. currentWeight s) + currentWeight s = 0"
    using ok' split by (simp add: wrr_ok_def)
  moreover have "length (xs @ ys) = length ns - 1" using split len by simp
  ultimately show ?thesis
    using ok' tw s by (simp add: wrr_ok_def del: map_append sum_list_append length_append)
qed

theorem wrr_weights_bounded_witness:
  "\<exists>ss js ss'. getServers [Some (sample_node ''a'' 1), Some (sample_node ''b'' 3)] = Ok ss
     \<and> select_indices 3 ss = (js, ss')
     \<and> (\<forall>s \<in> set ss'. currentWeight s \<le> int (2 - 1) * total_weight ss)"
proof -
  let ?ns = "[Some (sample_node ''a'' 1), Some (sample_node ''b'' 3)]"
  have v: "wrr_valid ?ns" by (simp add: wrr_valid_def sample_node_def)
  obtain ss where ss: "getServers ?ns = Ok ss" using getServers_valid [OF v] by blast
  obtain js ss' where sel: "select_indices 3 ss = (js, ss')" by (cases "select_indices 3 ss")
  from wrr_weights_bounded [OF v _ ss sel] ss sel show ?thesis by simp
qed

text \<open>round robin rotates strictly. From a fresh picker whose first call at time \<open>t0\<close> passes
  the list \<open>ns\<close>, the \<open>i\<close>-th of the calls returns node \<open>i mod n\<close>, so any \<open>n\<close> consecutive calls
  visit every node once, as long as the picker is not refreshed.\<close>

theorem rr_rotates:
  assumes "ns \<noteq> []" "0 \<le> iv" "cs \<noteq> []" "hd cs = (t0, ns)"
    and "\<forall>c \<in> set cs. length (snd c) = length ns \<and> fst c - t0 \<le> iv"
  shows "run_picks rr_Pick \<lparr>rr_list = [], rr_updated = 0, rr_next = 0, rr_interval = iv\<rparr> cs =
     map (\<lambda>i. Ok (ns ! (i mod length ns))) [0..<length cs]"
proof -
  let ?p0 = "\<lparr>rr_list = [], rr_updated = 0, rr_next = 0, rr_interval = iv\<rparr>"
  let ?p1 = "\<lparr>rr_list = ns, rr_updated = t0, rr_next = 0, rr_interval = iv\<rparr>"
  obtain cs' where cs: "cs = (t0, ns) # cs'" using assms(3,4) by (cases cs) auto
  have "rr_Pick t0 ns ?p0 = rr_Pick t0 ns ?p1"
    using assms(1,2) by (simp add: rr_Pick_def rr_updateState_def)
  then have "run_picks rr_Pick ?p0 cs = run_picks rr_Pick ?p1 cs" by (simp add: cs)
  with rr_run_rotates [of ?p1 ns cs] assms show ?thesis by simp
qed

theorem rr_rotates_witness:
  "run_picks rr_Pick \<lparr>rr_list = [], rr_updated = 0, rr_next = 0, rr_interval = 10\<rparr>
     (replicate 3 (5, [Some (sample_node ''a'' 1), Some (sample_node ''b'' 1)])) =
   map (\<lambda>i. Ok ([Some (sample_node ''a'' 1), Some (sample_node ''b'' 1)] ! (i mod 2))) [0..<3]"
  using rr_rotates [of "[Some (sample_node ''a'' 1), Some (sample_node ''b'' 1)]" 10
      "replicate 3 (5, [Some (sample_node ''a'' 1), Some (sample_node ''b'' 1)])" 5]
  by (simp add: numeral_2_eq_2)

end
