(* ===== verification/Consistent_Hash.thy ===== *)
theory Consistent_Hash
  imports Naming
begin

text \<open>
  The consistent-hash load balancer (\<open>naming/loadbalance/consistenthash\<close>).

  The hash function (xxhash by default, or the caller's) is a parameter. A Go slice that is
  compared with nil is an \<open>option\<close> of a list. The ring is the sorted list of the hashes of all
  virtual nodes together with the map from a hash to the nodes that own it; both are rebuilt
  when the addresses of the node list change, under the picker's mutex.
\<close>

record lb_options =
  Key :: string
  Replicas :: int

record chPicker =
  ch_list :: "nodeptr list option"
  ch_keys :: "u64 list"
  ch_hashMap :: "u64 \<rightharpoonup> nodeptr list"

definition defaultReplicas :: int where
  "defaultReplicas = 100"

definition prime :: int where
  "prime = 16777619"

definition innerRepr :: "string \<Rightarrow> string" where
  "innerRepr key = Itoa prime @ '':'' @ key"

definition slice_len :: "'a list option \<Rightarrow> nat" where
  "slice_len s = (case s of None \<Rightarrow> 0 | Some xs \<Rightarrow> length xs)"

fun nodes_equal_loop :: "nodeptr list \<Rightarrow> nodeptr list \<Rightarrow> (lb_error, bool) res" where
  "nodes_equal_loop (v # vs) (w # ws) =
     (if (v = None) \<noteq> (w = None) then Ok False
      else (case (v, w) of
              (Some n, Some m) \<Rightarrow> if Address n \<noteq> Address m then Ok False else nodes_equal_loop vs ws
            | _ \<Rightarrow> Panic))"
| "nodes_equal_loop _ _ = Ok True"

definition isNodeSliceEqualBCE ::
    "nodeptr list option \<Rightarrow> nodeptr list option \<Rightarrow> (lb_error, bool) res" where
  "isNodeSliceEqualBCE a b =
     (if slice_len a \<noteq> slice_len b then Ok False
      else if (a = None) \<noteq> (b = None) then Ok False
      else (case (a, b) of
              (Some xs, Some ys) \<Rightarrow> nodes_equal_loop xs ys
            | _ \<Rightarrow> Ok True))"

text \<open>The two nested loops of \<open>updateState\<close>: virtual node \<open>j\<close> of the \<open>i\<close>-th node.\<close>

fun replica_loop ::
    "(string \<Rightarrow> u64) \<Rightarrow> nat \<Rightarrow> nat \<Rightarrow> node \<Rightarrow> nat list \<Rightarrow> u64 list \<times> (u64 \<rightharpoonup> nodeptr list)
      \<Rightarrow> u64 list \<times> (u64 \<rightharpoonup> nodeptr list)" where
  "replica_loop hashFunc R i n [] st = st"
| "replica_loop hashFunc R i n (j # js) (keys, m) =
     (let hash = hashFunc (Itoa (int j) @ Address n)
      in replica_loop hashFunc R i n js
           (keys[i * R + j := hash],
            m(hash \<mapsto> (case m hash of None \<Rightarrow> [] | Some l \<Rightarrow> l) @ [Some n])))"

fun ring_loop ::
    "(string \<Rightarrow> u64) \<Rightarrow> nat \<Rightarrow> nat \<Rightarrow> nodeptr list \<Rightarrow> u64 list \<times> (u64 \<rightharpoonup> nodeptr list)
      \<Rightarrow> (u64 list \<times> (u64 \<rightharpoonup> nodeptr list)) \<times> bool" where
  "ring_loop hashFunc R i [] st = (st, True)"
| "ring_loop hashFunc R i (None # ns) st = (st, False)"
| "ring_loop hashFunc R i (Some n # ns) st =
     ring_loop hashFunc R (i + 1) ns (replica_loop hashFunc R i n [0..<R] st)"

definition ch_updateState ::
    "(string \<Rightarrow> u64) \<Rightarrow> nodeptr list \<Rightarrow> int \<Rightarrow> chPicker
      \<Rightarrow> chPicker \<times> (lb_error, u64 list \<times> (u64 \<rightharpoonup> nodeptr list)) res" where
  "ch_updateState hashFunc list replicas p =
     (case isNodeSliceEqualBCE (ch_list p) (Some list) of
        Ok True \<Rightarrow> (p, Ok (ch_keys p, ch_hashMap p))
      | Ok False \<Rightarrow>
          (let R = nat (if replicas \<le> 0 then defaultReplicas else replicas);
               ((keys, m), ok) = ring_loop hashFunc R 0 list
                                   (replicate (length list * R) 0, Map.empty)
           in if \<not> ok then (\<lparr>ch_list = Some list, ch_keys = keys, ch_hashMap = m\<rparr>, Err ErrNilNode)
              else (\<lparr>ch_list = Some list, ch_keys = sort keys, ch_hashMap = m\<rparr>,
                    Ok (sort keys, m)))
      | Err e \<Rightarrow> (p, Err e)
      | Panic \<Rightarrow> (p, Panic))"

definition ch_choose ::
    "(string \<Rightarrow> u64) \<Rightarrow> string \<Rightarrow> u64 list \<times> (u64 \<rightharpoonup> nodeptr list) \<Rightarrow> (lb_error, nodeptr) res" where
  "ch_choose hashFunc key ring =
     (case ring of (tmpKeys, tmpMap) \<Rightarrow>
        (let hash = hashFunc key;
             idx = Search (length tmpKeys) (\<lambda>i. tmpKeys ! i \<ge> hash);
             idx = (if idx = length tmpKeys then 0 else idx)
         in if length tmpKeys \<le> idx then Panic
            else (case tmpMap (tmpKeys ! idx) of
                    None \<Rightarrow> Err ErrNoServerAvailable
                  | Some nodes \<Rightarrow>
                      if length nodes = 1 then Ok (DeepCopyNode (nodes ! 0))
                      else if nodes = [] then Panic
                      else Ok (DeepCopyNode
                             (nodes ! unat (hashFunc (innerRepr key) mod word_of_nat (length nodes)))))))"

definition ch_Pick ::
    "(string \<Rightarrow> u64) \<Rightarrow> lb_options \<Rightarrow> nodeptr list \<Rightarrow> chPicker \<Rightarrow> chPicker \<times> (lb_error, nodeptr) res" where
  "ch_Pick hashFunc opts list p =
     (if list = [] then (p, Err ErrNoServerAvailable)
      else if Key opts = [] then (p, Err ErrMissingKey)
      else (case ch_updateState hashFunc list (Replicas opts) p of
              (p', r) \<Rightarrow> (p', bind_res r (ch_choose hashFunc (Key opts)))))"

definition ch_new :: chPicker where
  "ch_new = \<lparr>ch_list = None, ch_keys = [], ch_hashMap = Map.empty\<rparr>"

definition ch_Select ::
    "(string \<Rightarrow> u64) \<Rightarrow> string \<Rightarrow> nodeptr list \<Rightarrow> lb_options \<Rightarrow> (string \<rightharpoonup> chPicker)
      \<Rightarrow> (string \<rightharpoonup> chPicker) \<times> (lb_error, nodeptr) res" where
  "ch_Select hashFunc serviceName list opts pickers =
     (let p = (case pickers serviceName of Some p \<Rightarrow> p | None \<Rightarrow> ch_new);
          (p', r) = ch_Pick hashFunc opts list p
      in (pickers(serviceName \<mapsto> p'), r))"

subsection \<open>The ring built by the loops\<close>

definition madd :: "(u64 \<rightharpoonup> nodeptr list) \<Rightarrow> u64 \<times> nodeptr \<Rightarrow> (u64 \<rightharpoonup> nodeptr list)" where
  "madd m e = m(fst e \<mapsto> (case m (fst e) of None \<Rightarrow> [] | Some l \<Rightarrow> l) @ [snd e])"

definition node_entries :: "(string \<Rightarrow> u64) \<Rightarrow> nat list \<Rightarrow> nodeptr \<Rightarrow> (u64 \<times> nodeptr) list" where
  "node_entries h js p = map (\<lambda>j. (h (Itoa (int j) @ Address (the p)), p)) js"

definition ring_entries :: "(string \<Rightarrow> u64) \<Rightarrow> nat \<Rightarrow> nodeptr list \<Rightarrow> (u64 \<times> nodeptr) list" where
  "ring_entries h R ns = concat (map (node_entries h [0..<R]) ns)"

definition ring_of :: "(u64 \<times> nodeptr) list \<Rightarrow> u64 list \<times> (u64 \<rightharpoonup> nodeptr list)" where
  "ring_of es = (sort (map fst es), foldl madd Map.empty es)"

lemma replica_loop_entries:
  assumes "length pre = i * R + j" "j \<le> R" "length z = R - j"
  shows "replica_loop h R i n [j..<R] (pre @ z @ rest, m) =
     (pre @ map fst (node_entries h [j..<R] (Some n)) @ rest,
      foldl madd m (node_entries h [j..<R] (Some n)))"
  using assms
proof (induction "R - j" arbitrary: j pre z m)
  case (Suc d)
  then obtain z0 z' where z: "z = z0 # z'" by (cases z) auto
  from Suc have jR: "j < R" by simp
  let ?h = "h (Itoa (int j) @ Address n)"
  have "(pre @ z @ rest)[i * R + j := ?h] = (pre @ [?h]) @ z' @ rest"
    using Suc.prems(1) by (simp add: z list_update_append)
  then show ?case
    using Suc.hyps(1) [of "Suc j" "pre @ [?h]" z' "madd m (?h, Some n)"] Suc.hyps(2) Suc.prems jR z
    by (simp add: upt_conv_Cons node_entries_def madd_def Let_def)
qed (simp add: node_entries_def)

lemma length_ring_entries: "length (ring_entries h R ns) = length ns * R"
  by (induction ns) (auto simp: ring_entries_def node_entries_def)

lemma ring_loop_entries:
  assumes "None \<notin> set ns" "length pre = i * R"
  shows "ring_loop h R i ns (pre @ replicate (length ns * R) 0, m) =
     ((pre @ map fst (ring_entries h R ns), foldl madd m (ring_entries h R ns)), True)"
  using assms
proof (induction ns arbitrary: i pre m)
  case (Cons p ns)
  then obtain n where p: "p = Some n" by (cases p) auto
  have "replicate (length (p # ns) * R) 0 = replicate R 0 @ replicate (length ns * R) (0 :: u64)"
    by (simp add: replicate_add)
  moreover have "length (node_entries h [0..<R] (Some n)) = R" by (simp add: node_entries_def)
  ultimately show ?case
    using replica_loop_entries [of pre i R 0 "replicate R 0" h n "replicate (length ns * R) 0" m]
      Cons.IH [of "pre @ map fst (node_entries h [0..<R] (Some n))" "i + 1"
        "foldl madd m (node_entries h [0..<R] (Some n))"] Cons.prems
    by (simp add: p ring_entries_def)
qed (simp add: ring_entries_def)

lemma foldl_madd_lookup:
  "(case foldl madd m es k of None \<Rightarrow> [] | Some l \<Rightarrow> l) =
     (case m k of None \<Rightarrow> [] | Some l \<Rightarrow> l) @ map snd (filter (\<lambda>e. fst e = k) es)"
  by (induction es arbitrary: m) (auto simp: madd_def)

lemma foldl_madd_dom: "dom (foldl madd m es) = dom m \<union> fst ` set es"
  by (induction es arbitrary: m) (auto simp: madd_def)

lemma ring_map_lookup:
  assumes "k \<in> fst ` set es"
  shows "foldl madd Map.empty es k = Some (map snd (filter (\<lambda>e. fst e = k) es))"
proof -
  have "k \<in> dom (foldl madd Map.empty es)" using assms by (simp add: foldl_madd_dom)
  then obtain l where "foldl madd Map.empty es k = Some l" by auto
  with foldl_madd_lookup [of Map.empty es k] show ?thesis by simp
qed

text \<open>The successor of a hash on the ring: the least key not below it, or else the least key.\<close>

definition succ_key :: "u64 set \<Rightarrow> u64 \<Rightarrow> u64" where
  "succ_key K h = (if \<exists>k \<in> K. h \<le> k then Min {k \<in> K. h \<le> k} else Min K)"

lemma Search_succ_key:
  fixes hash :: u64 and es :: "(u64 \<times> nodeptr) list"
  assumes ne: "es \<noteq> []"
  defines "ks \<equiv> sort (map fst es)"
  defines "idx \<equiv> Search (length ks) (\<lambda>i. ks ! i \<ge> hash)"
  shows "ks ! (if idx = length ks then 0 else idx) = succ_key (fst ` set es) hash"
    and "(if idx = length ks then 0 else idx) < length ks"
proof -
  have srt: "sorted ks" and st: "set ks = fst ` set es"
    by (auto simp: ks_def)
  have lne: "ks \<noteq> []" using ne unfolding ks_def by (metis length_0_conv length_map length_sort)
  note S = Search_sorted [OF srt, where x = hash, folded idx_def]
  show lt: "(if idx = length ks then 0 else idx) < length ks" using S(1) lne by auto
  show "ks ! (if idx = length ks then 0 else idx) = succ_key (fst ` set es) hash"
  proof (cases "idx = length ks")
    case True
    then have no: "\<not> (\<exists>k \<in> set ks. hash \<le> k)" using S(2) by (auto simp: in_set_conv_nth not_le)
    have "Min (set ks) = ks ! 0"
      using srt lne by (intro Min_eqI) (auto simp: in_set_conv_nth intro: sorted_nth_mono)
    with True no show ?thesis by (simp add: succ_key_def st [symmetric])
  next
    case False
    then have il: "idx < length ks" using S(1) by simp
    have "Min {k \<in> set ks. hash \<le> k} = ks ! idx"
    proof (rule Min_eqI)
      fix y assume "y \<in> {k \<in> set ks. hash \<le> k}"
      then obtain i where i: "i < length ks" "y = ks ! i" "hash \<le> ks ! i" by (auto simp: in_set_conv_nth)
      then have "idx \<le> i" using S(2) [of i] by (meson not_le)
      then show "ks ! idx \<le> y" using i srt by (simp add: sorted_nth_mono)
    qed (use S(3) il in auto)
    moreover have "\<exists>k \<in> set ks. hash \<le> k" using S(3) il nth_mem by blast
    ultimately show ?thesis using False by (simp add: succ_key_def st [symmetric])
  qed
qed

lemma succ_key_in: "finite K \<Longrightarrow> K \<noteq> {} \<Longrightarrow> succ_key K h \<in> K"
  using Min_in [of "{k \<in> K. h \<le> k}"] Min_in [of K] by (auto simp: succ_key_def)

lemma succ_key_subset:
  assumes "finite K'" "K \<subseteq> K'" "succ_key K' h \<in> K"
  shows "succ_key K h = succ_key K' h"
proof (cases "\<exists>k \<in> K'. h \<le> k")
  case True
  then have eq: "succ_key K' h = Min {k \<in> K'. h \<le> k}" by (simp add: succ_key_def)
  have mem: "succ_key K' h \<in> {k \<in> K'. h \<le> k}"
    unfolding eq using assms(1) True by (intro Min_in) auto
  have "Min {k \<in> K. h \<le> k} = succ_key K' h"
    unfolding eq using assms mem eq finite_subset [OF assms(2,1)] by (intro Min_eqI) (auto intro: Min_le)
  with mem assms(3) show ?thesis by (auto simp: succ_key_def)
next
  case False
  then have eq: "succ_key K' h = Min K'" by (simp add: succ_key_def)
  have "Min K = Min K'"
    using assms eq finite_subset [OF assms(2,1)] by (intro Min_eqI) (auto intro: Min_le)
  with False assms(2) eq show ?thesis by (auto simp: succ_key_def)
qed

lemma ch_choose_ring:
  fixes h :: "string \<Rightarrow> u64" and key :: string
  assumes "es \<noteq> []" "length es < 2 ^ 64"
  defines "owners \<equiv> map snd (filter (\<lambda>e. fst e = succ_key (fst ` set es) (h key)) es)"
  shows "owners \<noteq> [] \<and> ch_choose h key (ring_of es) =
     Ok (owners ! (if length owners = 1 then 0
                   else unat (h (innerRepr key) mod word_of_nat (length owners))))"
    and "\<exists>p \<in> set owners. ch_choose h key (ring_of es) = Ok p"
proof -
  let ?k = "succ_key (fst ` set es) (h key)"
  have k: "?k \<in> fst ` set es" using assms(1) by (intro succ_key_in) auto
  then have ne: "owners \<noteq> []" by (force simp: owners_def filter_empty_conv)
  define ks idx where "ks = sort (map fst es)" and "idx = Search (length ks) (\<lambda>i. ks ! i \<ge> h key)"
  define i where "i = (if idx = length ks then 0 else idx)"
  have i: "ks ! i = ?k" "i < length ks"
    using Search_succ_key [OF assms(1), of "h key"] by (simp_all only: i_def idx_def ks_def)
  have choose: "ch_choose h key (ring_of es) =
      (if length ks \<le> i then Panic
       else (case foldl madd Map.empty es (ks ! i) of
               None \<Rightarrow> Err ErrNoServerAvailable
             | Some nodes \<Rightarrow>
                 if length nodes = 1 then Ok (DeepCopyNode (nodes ! 0))
                 else if nodes = [] then Panic
                 else Ok (DeepCopyNode
                        (nodes ! unat (h (innerRepr key) mod word_of_nat (length nodes))))))"
    by (simp only: ch_choose_def ring_of_def Let_def prod.case ks_def idx_def i_def)
  show a: "owners \<noteq> [] \<and> ch_choose h key (ring_of es) =
     Ok (owners ! (if length owners = 1 then 0
                   else unat (h (innerRepr key) mod word_of_nat (length owners))))"
    using ne i ring_map_lookup [OF k, folded owners_def] by (simp add: choose)
  have "length owners \<le> length es" by (simp add: owners_def)
  then have "length owners < 2 ^ 64" using assms(2) by simp
  then have "unat (word_of_nat (length owners) :: u64) = length owners"
    by (simp add: unat_of_nat)
  then have "unat (h (innerRepr key) mod word_of_nat (length owners)) < length owners"
    unfolding unat_mod_distrib using ne by simp
  then have "(if length owners = 1 then 0
      else unat (h (innerRepr key) mod word_of_nat (length owners))) < length owners"
    using ne by auto
  from nth_mem [OF this] a show "\<exists>p \<in> set owners. ch_choose h key (ring_of es) = Ok p"
    by blast
qed

subsection \<open>Invariant of the picker\<close>

definition ch_inv :: "(string \<Rightarrow> u64) \<Rightarrow> chPicker \<Rightarrow> bool" where
  "ch_inv h p \<longleftrightarrow>
     (case ch_list p of
        None \<Rightarrow> True
      | Some ns \<Rightarrow> None \<in> set ns \<or>
          (\<exists>R > 0. length ns * R < 2 ^ 63 \<and> (ch_keys p, ch_hashMap p) = ring_of (ring_entries h R ns)))"

abbreviation addrs :: "nodeptr list \<Rightarrow> string list" where
  "addrs ns \<equiv> map (\<lambda>p. Address (the p)) ns"

lemma nodes_equal_loop_addrs:
  "None \<notin> set ws \<Longrightarrow> length vs = length ws \<Longrightarrow>
     nodes_equal_loop vs ws = Ok (None \<notin> set vs \<and> addrs vs = addrs ws)"
proof (induction vs ws rule: nodes_equal_loop.induct)
  case (1 v vs w ws)
  then show ?case by (cases v; cases w) auto
qed auto

lemma isNodeSliceEqualBCE_addrs:
  "None \<notin> set ns \<Longrightarrow> ns \<noteq> [] \<Longrightarrow> isNodeSliceEqualBCE a (Some ns) =
     Ok (\<exists>ms. a = Some ms \<and> None \<notin> set ms \<and> addrs ms = addrs ns)"
  by (auto simp: isNodeSliceEqualBCE_def slice_len_def nodes_equal_loop_addrs
    dest: arg_cong [of _ _ length] split: option.splits)

definition eff_replicas :: "int \<Rightarrow> nat" where
  "eff_replicas r = nat (if r \<le> 0 then defaultReplicas else r)"

lemma eff_replicas_pos [simp]: "0 < eff_replicas r"
  by (simp add: eff_replicas_def defaultReplicas_def)

lemma ch_updateState_spec:
  assumes "ch_inv h p" "None \<notin> set ns" "ns \<noteq> []" "length ns * eff_replicas r < 2 ^ 63"
  obtains ms R p' where "ch_updateState h ns r p = (p', Ok (ring_of (ring_entries h R ms)))"
    "None \<notin> set ms" "addrs ms = addrs ns" "0 < R" "length ms * R < 2 ^ 63" "ch_inv h p'"
    "ms = ns \<and> R = eff_replicas r \<or> ch_list p = Some ms \<and> p' = p"
proof (cases "\<exists>ms. ch_list p = Some ms \<and> None \<notin> set ms \<and> addrs ms = addrs ns")
  case True
  then obtain ms where ms: "ch_list p = Some ms" "None \<notin> set ms" "addrs ms = addrs ns" by auto
  with assms(1) obtain R where "0 < R" "length ms * R < 2 ^ 63"
    "(ch_keys p, ch_hashMap p) = ring_of (ring_entries h R ms)"
    by (auto simp: ch_inv_def)
  with ms True assms that [of p R ms] show thesis
    by (simp add: ch_updateState_def isNodeSliceEqualBCE_addrs)
next
  case False
  let ?R = "eff_replicas r"
  let ?es = "ring_entries h ?R ns"
  let ?p' = "\<lparr>ch_list = Some ns, ch_keys = fst (ring_of ?es), ch_hashMap = snd (ring_of ?es)\<rparr>"
  have "ring_loop h ?R 0 ns (replicate (length ns * ?R) 0, Map.empty) =
      ((map fst ?es, foldl madd Map.empty ?es), True)"
    using ring_loop_entries [OF assms(2), of "[]" 0 ?R h Map.empty] by simp
  moreover have eqF: "isNodeSliceEqualBCE (ch_list p) (Some ns) = Ok False"
    using False assms(2,3) by (simp add: isNodeSliceEqualBCE_addrs)
  ultimately have "ch_updateState h ns r p = (?p', Ok (ring_of ?es))"
    unfolding ch_updateState_def eqF eff_replicas_def [symmetric] by (simp add: ring_of_def Let_def)
  moreover have "ch_inv h ?p'"
    using assms(4) eff_replicas_pos by (auto simp: ch_inv_def intro!: exI [of _ ?R])
  ultimately show thesis using that [of ?p' ?R ns] assms by simp
qed

lemma ring_entries_snd: "snd ` set (ring_entries h R ns) \<subseteq> set ns"
  by (auto simp: ring_entries_def node_entries_def)

lemma ring_entries_ne: "0 < R \<Longrightarrow> ns \<noteq> [] \<Longrightarrow> ring_entries h R ns \<noteq> []"
  using length_ring_entries [of h R ns] by auto

lemma ch_Pick_spec:
  assumes "ch_inv h p" "None \<notin> set ns" "ns \<noteq> []" "Key opts \<noteq> []"
    "length ns * eff_replicas (Replicas opts) < 2 ^ 63"
  shows "ch_inv h (fst (ch_Pick h opts ns p))"
    and "\<exists>n. snd (ch_Pick h opts ns p) = Ok (Some n) \<and> Address n \<in> set (addrs ns)"
proof -
  obtain ms R p' where u: "ch_updateState h ns (Replicas opts) p = (p', Ok (ring_of (ring_entries h R ms)))"
    "None \<notin> set ms" "addrs ms = addrs ns" "0 < R" "length ms * R < 2 ^ 63" "ch_inv h p'"
    using assms(1-3,5) by (rule ch_updateState_spec)
  have pick: "ch_Pick h opts ns p = (p', ch_choose h (Key opts) (ring_of (ring_entries h R ms)))"
    using assms u(1) by (simp add: ch_Pick_def)
  show "ch_inv h (fst (ch_Pick h opts ns p))" using u(6) by (simp add: pick)
  let ?es = "ring_entries h R ms"
  have "ms \<noteq> []" using u(3) assms(3) by auto
  then have ne: "?es \<noteq> []" using u(4) by (simp add: ring_entries_ne)
  have "length ?es < 2 ^ 64" using u(5) by (simp add: length_ring_entries)
  from ch_choose_ring(2) [OF ne this, of h "Key opts"]
  obtain q where q: "q \<in> snd ` set ?es" "ch_choose h (Key opts) (ring_of ?es) = Ok q"
    by force
  then have "q \<in> set ms" using ring_entries_snd by blast
  with u(2) obtain n where "q = Some n" using not_None_in_set by blast
  with q \<open>q \<in> set ms\<close> u(3) show "\<exists>n. snd (ch_Pick h opts ns p) = Ok (Some n) \<and> Address n \<in> set (addrs ns)"
    by (metis (no_types, lifting) image_eqI list.set_map option.sel pick snd_conv)
qed

lemma ch_Pick_owner:
  assumes ns: "None \<notin> set ns" "ns \<noteq> []" "Key opts \<noteq> []"
    and R: "R = eff_replicas (Replicas opts)" "length ns * R < 2 ^ 63"
    and pick: "snd (ch_Pick h opts ns ch_new) = Ok p"
  shows "(succ_key (fst ` set (ring_entries h R ns)) (h (Key opts)), p) \<in> set (ring_entries h R ns)"
proof -
  let ?es = "ring_entries h R ns"
  have "ch_inv h ch_new" by (simp add: ch_inv_def ch_new_def)
  then obtain ms R' p' where u: "ch_updateState h ns (Replicas opts) ch_new = (p', Ok (ring_of (ring_entries h R' ms)))"
    and eq: "ms = ns \<and> R' = eff_replicas (Replicas opts) \<or> ch_list ch_new = Some ms \<and> p' = ch_new"
    using ns(1,2) R(2) [unfolded R(1)] by (rule ch_updateState_spec)
  have ne: "?es \<noteq> []" using ns(2) R(1) by (simp add: ring_entries_ne)
  have "length ?es < 2 ^ 64" using R(2) by (simp add: length_ring_entries)
  from ch_choose_ring(2) [OF ne this, of h "Key opts"] obtain q where
    "(succ_key (fst ` set ?es) (h (Key opts)), q) \<in> set ?es" "ch_choose h (Key opts) (ring_of ?es) = Ok q"
    by force
  moreover have "snd (ch_Pick h opts ns ch_new) = ch_choose h (Key opts) (ring_of ?es)"
    using u eq ns R(1) by (simp add: ch_Pick_def ch_new_def)
  ultimately show ?thesis using pick by simp
qed

subsection \<open>Properties\<close>

text \<open>whatever hash function is used, a pick with a non-empty key on a list of non-nil nodes
  always succeeds, returns a node whose address is in the list passed, and keeps the picker's
  ring consistent with its cached node list, so this holds for every later pick too.\<close>

theorem ch_Pick_total:
  assumes "ch_inv h p" "None \<notin> set ns" "ns \<noteq> []" "Key opts \<noteq> []"
    "length ns * eff_replicas (Replicas opts) < 2 ^ 63"
  shows "ch_inv h (fst (ch_Pick h opts ns p)) \<and>
    (\<exists>n. snd (ch_Pick h opts ns p) = Ok (Some n) \<and> Address n \<in> set (addrs ns))"
  using ch_Pick_spec [OF assms] by simp

theorem ch_Pick_total_witness:
  "\<exists>n. snd (ch_Pick (\<lambda>s. word_of_nat (length s)) \<lparr>Key = ''k'', Replicas = 2\<rparr>
       [Some (sample_node ''a'' 1), Some (sample_node ''bcd'' 1)] ch_new) = Ok (Some n)
     \<and> Address n \<in> {''a'', ''bcd''}"
  using ch_Pick_total [of "\<lambda>s. word_of_nat (length s)" ch_new
      "[Some (sample_node ''a'' 1), Some (sample_node ''bcd'' 1)]" "\<lparr>Key = ''k'', Replicas = 2\<rparr>"]
  by (simp add: ch_inv_def ch_new_def sample_node_def eff_replicas_def)

text \<open>C23: minimal disruption, the point of consistent hashing. If no two virtual nodes of the
  larger list collide, then adding one node \<open>x\<close> anywhere to a node list changes the node picked
  for a key only if the key now goes to \<open>x\<close>; read backwards, removing a node only moves the
  keys that were on it.\<close>

theorem ch_minimal_disruption:
  assumes nn: "None \<notin> set (xs @ ys)" and ne: "xs @ ys \<noteq> []" and key: "Key opts \<noteq> []"
    and R: "R = eff_replicas (Replicas opts)" "length (xs @ Some x # ys) * R < 2 ^ 63"
    and dist: "distinct (map fst (ring_entries h R (xs @ Some x # ys)))"
    and before: "snd (ch_Pick h opts (xs @ ys) ch_new) = Ok p"
    and after: "snd (ch_Pick h opts (xs @ Some x # ys) ch_new) = Ok p'"
  shows "p' = p \<or> p' = Some x"
proof -
  let ?es' = "ring_entries h R (xs @ Some x # ys)" and ?es = "ring_entries h R (xs @ ys)"
  let ?ex = "node_entries h [0..<R] (Some x)"
  have set': "set ?es' = set ?es \<union> set ?ex" by (auto simp: ring_entries_def)
  have e: "(succ_key (fst ` set ?es) (h (Key opts)), p) \<in> set ?es"
    using ch_Pick_owner [OF nn ne key R(1) _ before] R(2) by (simp add: distrib_right)
  have e': "(succ_key (fst ` set ?es') (h (Key opts)), p') \<in> set ?es'"
    using ch_Pick_owner [OF _ _ key R(1,2) after] nn by simp
  show ?thesis
  proof (cases "(succ_key (fst ` set ?es') (h (Key opts)), p') \<in> set ?es")
    case True
    then have "succ_key (fst ` set ?es) (h (Key opts)) = succ_key (fst ` set ?es') (h (Key opts))"
      by (intro succ_key_subset) (auto simp: set' intro: image_eqI [rotated])
    with e set' have "(succ_key (fst ` set ?es') (h (Key opts)), p) \<in> set ?es'" by simp
    with e' have "p' = p" using dist by (meson eq_key_imp_eq_value)
    then show ?thesis ..
  next
    case False
    with e' set' have "(succ_key (fst ` set ?es') (h (Key opts)), p') \<in> set ?ex" by blast
    then show ?thesis by (auto simp: node_entries_def)
  qed
qed

theorem ch_minimal_disruption_witness:
  "\<exists>p p'. snd (ch_Pick (\<lambda>s. word_of_nat (length s)) \<lparr>Key = ''k'', Replicas = 1\<rparr>
        [Some (sample_node ''a'' 1), Some (sample_node ''bc'' 1)] ch_new) = Ok p
    \<and> snd (ch_Pick (\<lambda>s. word_of_nat (length s)) \<lparr>Key = ''k'', Replicas = 1\<rparr>
        [Some (sample_node ''a'' 1), Some (sample_node ''def'' 1), Some (sample_node ''bc'' 1)] ch_new) = Ok p'
    \<and> (p' = p \<or> p' = Some (sample_node ''def'' 1))"
proof -
  let ?h = "\<lambda>s. word_of_nat (length s) :: u64" and ?o = "\<lparr>Key = ''k'', Replicas = 1\<rparr>"
  let ?a = "Some (sample_node ''a'' 1)" and ?b = "Some (sample_node ''bc'' 1)"
  let ?d = "sample_node ''def'' 1"
  have inv: "ch_inv ?h ch_new" by (simp add: ch_inv_def ch_new_def)
  obtain p where p: "snd (ch_Pick ?h ?o ([?a] @ [?b]) ch_new) = Ok p"
    using ch_Pick_spec(2) [OF inv, of "[?a] @ [?b]" ?o] by (auto simp: eff_replicas_def)
  obtain p' where p': "snd (ch_Pick ?h ?o ([?a] @ Some ?d # [?b]) ch_new) = Ok p'"
    using ch_Pick_spec(2) [OF inv, of "[?a] @ Some ?d # [?b]" ?o] by (auto simp: eff_replicas_def)
  have "p' = p \<or> p' = Some ?d"
    by (rule ch_minimal_disruption [OF _ _ _ refl _ _ p p'])
      (simp_all add: eff_replicas_def ring_entries_def node_entries_def sample_node_def Itoa_def decimal.simps)
  with p p' show ?thesis by auto
qed

text \<open>a nil node in the list makes the second pick panic. The first pick reports the nil
  node as an error but has already cached the list; the next pick with the same list compares
  the two nil entries and dereferences them.\<close>

theorem ch_nil_node_panics:
  assumes "Key opts \<noteq> []"
  shows "let (p', r) = ch_Pick h opts (None # ns) ch_new
     in r = Err ErrNilNode \<and> snd (ch_Pick h opts (None # ns) p') = Panic"
  using assms
  by (simp add: ch_Pick_def ch_updateState_def ch_new_def isNodeSliceEqualBCE_def slice_len_def Let_def)

theorem ch_nil_node_panics_witness:
  "let (p', r) = ch_Pick (\<lambda>s. 0) \<lparr>Key = ''k'', Replicas = 0\<rparr> [None] ch_new
   in r = Err ErrNilNode \<and> snd (ch_Pick (\<lambda>s. 0) \<lparr>Key = ''k'', Replicas = 0\<rparr> [None] p') = Panic"
  using ch_nil_node_panics [of "\<lparr>Key = ''k'', Replicas = 0\<rparr>" "\<lambda>s. 0" "[]"] by simp

end
