(* ===== verification/Go_Stack.thy ===== *)
theory Go_Stack
  imports Go_Prelude
begin

text \<open>
  The linked stack of \<open>internal/stack\<close>, as the code has it: a pointer to the top node, each node
  pointing to the previous one, and a separate \<open>size\<close> field. The locale \<open>stack\<close> states the
  contract that the path matcher of \<open>internal/httprule\<close> relies on; the interpretation shows that
  the linked representation meets it while the size field agrees with the chain.
\<close>

subsection \<open>The contract\<close>

locale stack =
  fixes abs :: "'s \<Rightarrow> 'a list"
    and inv :: "'s \<Rightarrow> bool"
    and new :: 's
    and push :: "'s \<Rightarrow> 'a \<Rightarrow> 's"
    and pop :: "'s \<Rightarrow> ('e, 's \<times> 'a option) res"
  assumes new_spec: "inv new" "abs new = []"
    and push_spec: "inv s \<Longrightarrow> inv (push s x)" "inv s \<Longrightarrow> abs (push s x) = x # abs s"
    and pop_Nil: "inv s \<Longrightarrow> abs s = [] \<Longrightarrow> pop s = Ok (s, None)"
    and pop_Cons: "inv s \<Longrightarrow> abs s = x # xs \<Longrightarrow>
      \<exists>s'. pop s = Ok (s', Some x) \<and> inv s' \<and> abs s' = xs"
begin

fun push_all :: "'s \<Rightarrow> 'a list \<Rightarrow> 's" where
  "push_all s [] = s"
| "push_all s (x # xs) = push_all (push s x) xs"

fun pop_n :: "nat \<Rightarrow> 's \<Rightarrow> ('e, 's \<times> 'a option list) res" where
  "pop_n 0 s = Ok (s, [])"
| "pop_n (Suc n) s =
     bind_res (pop s) (\<lambda>(s', x). bind_res (pop_n n s') (\<lambda>(s'', xs). Ok (s'', x # xs)))"

lemma push_all_spec: "inv s \<Longrightarrow> inv (push_all s xs) \<and> abs (push_all s xs) = rev xs @ abs s"
  by (induction xs arbitrary: s) (auto simp: push_spec)

lemma pop_n_spec:
  "inv s \<Longrightarrow> abs s = xs @ ys \<Longrightarrow>
     \<exists>s'. pop_n (length xs) s = Ok (s', map Some xs) \<and> inv s' \<and> abs s' = ys"
proof (induction xs arbitrary: s)
  case (Cons x xs)
  then obtain s1 where s1: "pop s = Ok (s1, Some x)" "inv s1" "abs s1 = xs @ ys"
    using pop_Cons [of s x "xs @ ys"] by auto
  with Cons.IH [of s1] show ?case by auto
qed simp

text \<open>Last in, first out: popping as many values as were pushed gives them back in reverse
  order and restores the stack below them.\<close>

lemma push_all_pop_n:
  assumes "inv s"
  shows "\<exists>s'. pop_n (length xs) (push_all s xs) = Ok (s', map Some (rev xs)) \<and> inv s' \<and> abs s' = abs s"
  using pop_n_spec [of "push_all s xs" "rev xs" "abs s"] push_all_spec [OF assms, of xs] by simp

end

subsection \<open>internal/stack\<close>

datatype 'a snode = SNode (snode_value: 'a) (snode_prev: "'a snode option")

record 'a Stack =
  top :: "'a snode option"
  size :: int

definition st_New :: "'a Stack" where
  "st_New = \<lparr>top = None, size = 0\<rparr>"

definition st_Size :: "'a Stack \<Rightarrow> int" where
  "st_Size st = size st"

definition st_Reset :: "'a Stack \<Rightarrow> 'a Stack" where
  "st_Reset st = st\<lparr>top := None, size := 0\<rparr>"

definition st_Push :: "'a Stack \<Rightarrow> 'a \<Rightarrow> 'a Stack" where
  "st_Push st x = st\<lparr>top := Some (SNode x (top st)), size := size st + 1\<rparr>"

text \<open>The second result is \<open>None\<close> for \<open>(zero, false)\<close>.\<close>

definition st_Pop :: "'a Stack \<Rightarrow> ('e, 'a Stack \<times> 'a option) res" where
  "st_Pop st =
     (if size st = 0 then Ok (st, None)
      else (case top st of
              None \<Rightarrow> Panic
            | Some topNode \<Rightarrow>
                Ok (st\<lparr>top := snode_prev topNode, size := size st - 1\<rparr>, Some (snode_value topNode))))"

definition st_Peek :: "'a Stack \<Rightarrow> ('e, 'a option) res" where
  "st_Peek st =
     (if size st = 0 then Ok None
      else (case top st of None \<Rightarrow> Panic | Some topNode \<Rightarrow> Ok (Some (snode_value topNode))))"

fun snode_list :: "'a snode \<Rightarrow> 'a list" where
  "snode_list (SNode x None) = [x]"
| "snode_list (SNode x (Some n)) = x # snode_list n"

definition st_abs :: "'a Stack \<Rightarrow> 'a list" where
  "st_abs st = (case top st of None \<Rightarrow> [] | Some n \<Rightarrow> snode_list n)"

definition st_inv :: "'a Stack \<Rightarrow> bool" where
  "st_inv st \<longleftrightarrow> size st = int (length (st_abs st))"

lemma snode_list_Cons: "snode_list n = snode_value n # (case snode_prev n of None \<Rightarrow> [] | Some m \<Rightarrow> snode_list m)"
  by (cases n rule: snode_list.cases) auto

interpretation st: stack st_abs st_inv st_New st_Push st_Pop
proof
  show "st_inv st_New" "st_abs st_New = []" by (simp_all add: st_inv_def st_New_def st_abs_def)
next
  fix s :: "'a Stack" and x :: 'a assume "st_inv s"
  then show "st_inv (st_Push s x)" "st_abs (st_Push s x) = x # st_abs s"
    by (simp_all add: st_inv_def st_Push_def st_abs_def snode_list_Cons)
next
  fix s :: "'a Stack" assume "st_inv s" "st_abs s = []"
  then show "st_Pop s = Ok (s, None)" by (simp add: st_inv_def st_Pop_def)
next
  fix s :: "'a Stack" and x xs assume inv: "st_inv s" and abs: "st_abs s = x # xs"
  then obtain n where "top s = Some n" by (cases "top s") (auto simp: st_abs_def)
  with inv abs show "\<exists>s'. st_Pop s = Ok (s', Some x) \<and> st_inv s' \<and> st_abs s' = xs"
    by (simp add: st_inv_def st_Pop_def st_abs_def snode_list_Cons [of n])
qed

lemma st_Peek_Pop:
  "st_Peek st = (bind_res (st_Pop st) (\<lambda>(_, x). Ok x) :: ('e, 'a option) res)"
  by (simp add: st_Peek_def st_Pop_def split: option.splits)

lemma st_Reset_spec: "st_inv (st_Reset st)" "st_abs (st_Reset st) = []"
  by (simp_all add: st_inv_def st_abs_def st_Reset_def)

end
