(* ===== verification/Http_Rule_Proofs.thy ===== *)
theory Http_Rule_Proofs
  imports Http_Rule
begin

text \<open>
  Correctness of the template parser: every parse function consumes input, the fuel given by
  \<open>Parse\<close> suffices, accepted templates are well formed, and printing a template and parsing it
  again gives the same template.
\<close>

subsection \<open>Progress and fuel\<close>

named_theorems parse_progress \<open>what a parse function leaves unread\<close>

lemma currentChar_simps [simp]: "currentChar [] = invalidChar" "currentChar (c # p) = c"
  by (simp_all add: currentChar_def)

lemma consume_Ok: "c \<noteq> invalidChar \<Longrightarrow> consume c p = Ok q \<longleftrightarrow> p = c # q"
  by (cases p) (auto simp: consume_def)

lemma consume_simps [simp]:
  "c \<noteq> invalidChar \<Longrightarrow> consume c [] = Err (errConsume c)"
  "consume c (d # p) = (if d = c then Ok p else Err (errConsume c))"
  by (auto simp: consume_def)

lemma consume_not_fuel [simp]: "consume c p \<noteq> Err errOutOfFuel" "consume c p \<noteq> Panic"
  by (auto simp: consume_def)

lemma parseLiteral_loop_append: "parseLiteral_loop p = (lit, q) \<Longrightarrow> p = lit @ q"
proof (induction p arbitrary: lit q rule: parseLiteral_loop.induct)
  case (2 c p)
  then show ?case
    by (auto split: if_splits prod.splits) (metis append_take_drop_id)
qed simp

lemma parseLiteral_Ok [parse_progress]: "parseLiteral p = Ok (lit, q) \<Longrightarrow> p = lit @ q \<and> lit \<noteq> []"
  by (auto simp: parseLiteral_def dest: parseLiteral_loop_append split: if_splits prod.splits)

lemma parseLiteral_shorter: "parseLiteral p = Ok (lit, q) \<Longrightarrow> length q < length p"
  using parseLiteral_Ok by fastforce

lemma parseLiteral_not_fuel [simp]: "parseLiteral p \<noteq> Err errOutOfFuel" "parseLiteral p \<noteq> Panic"
  by (auto simp: parseLiteral_def split: prod.splits)

lemma parseIdent_loop_Ok:
  "parseIdent_loop i p = Ok (j, q) \<Longrightarrow> i @ p = j @ q \<and> length i \<le> length j \<and> j \<noteq> []"
  by (induction i p rule: parseIdent_loop.induct) (auto split: if_splits)

lemma parseIdent_Ok [parse_progress]: "parseIdent p = Ok (i, q) \<Longrightarrow> p = i @ q \<and> i \<noteq> []"
  by (auto simp: parseIdent_def dest: parseIdent_loop_Ok)

lemma parseIdent_loop_not_fuel: "parseIdent_loop i p \<noteq> Err errOutOfFuel \<and> parseIdent_loop i p \<noteq> Panic"
  by (induction i p rule: parseIdent_loop.induct) auto

lemma parseIdent_not_fuel [simp]: "parseIdent p \<noteq> Err errOutOfFuel" "parseIdent p \<noteq> Panic"
  by (simp_all add: parseIdent_def parseIdent_loop_not_fuel)

lemma parseFieldPath_shorter [parse_progress]:
  "parseFieldPath fuel p = Ok (fp, q) \<Longrightarrow> length q < length p \<and> fp \<noteq> []"
proof (induction fuel arbitrary: p fp)
  case (Suc fuel)
  from Suc.prems obtain i q1 where i: "parseIdent p = Ok (i, q1)"
    by (auto simp: bind_res_Ok_iff)
  then have p: "p = i @ q1" "i \<noteq> []" using parseIdent_Ok by auto
  show ?case
  proof (cases "consume (CHR ''.'') q1")
    case (Ok q2)
    with Suc.prems i obtain fp' where "parseFieldPath fuel q2 = Ok (fp', q)" "fp = i # fp'"
      by (auto simp: bind_res_Ok_iff)
    with Suc.IH Ok p show ?thesis by (fastforce simp: consume_Ok)
  qed (use Suc.prems i p in \<open>auto simp: bind_res_Ok_iff\<close>)
qed simp

lemma parseFieldPath_fuel: "length p < fuel \<Longrightarrow> parseFieldPath fuel p \<noteq> Err errOutOfFuel \<and> parseFieldPath fuel p \<noteq> Panic"
proof (induction fuel arbitrary: p)
  case (Suc fuel)
  show ?case
  proof (cases "parseIdent p")
    case (Ok iq)
    obtain i q where iq: "iq = (i, q)" by (cases iq)
    with Ok have p: "p = i @ q" "i \<noteq> []" using parseIdent_Ok by auto
    show ?thesis
    proof (cases "consume (CHR ''.'') q")
      case c: (Ok q2)
      then have "length q2 < fuel" using p Suc.prems by (cases i) (auto simp: consume_Ok)
      with Suc.IH have "parseFieldPath fuel q2 \<noteq> Err errOutOfFuel \<and> parseFieldPath fuel q2 \<noteq> Panic" by blast
      with Ok iq c show ?thesis by (cases "parseFieldPath fuel q2") auto
    qed (use Ok iq in auto)
  qed (use parseIdent_not_fuel in auto)
qed simp

lemma parseSegments_shorter [parse_progress]:
  "parseSegments fuel p = Ok (segs, q) \<Longrightarrow> length q < length p \<and> segs \<noteq> []"
  "parseSegment fuel p = Ok (seg, q) \<Longrightarrow> length q < length p"
  "parseVariableSegment fuel p = Ok (seg, q) \<Longrightarrow> length q < length p"
proof (induction fuel p and fuel p and fuel p arbitrary: segs q and seg q and seg q
    rule: parseSegments_parseSegment_parseVariableSegment.induct)
  case (2 fuel p)
  from "2.prems" obtain s q1 where s: "parseSegment fuel p = Ok (s, q1)" by (auto simp: bind_res_Ok_iff)
  with "2.IH"(1) have l: "length q1 < length p" by blast
  show ?case
  proof (cases "consume (CHR ''/'') q1")
    case (Ok q2)
    then have q1: "q1 = CHR ''/'' # q2" by (simp add: consume_Ok)
    from "2.prems" s Ok have q2: "q2 \<noteq> []" by (auto split: if_splits)
    with "2.prems" s Ok obtain ss where "parseSegments fuel q2 = Ok (ss, q)" "segs = s # ss"
      by (auto simp: bind_res_Ok_iff)
    moreover from "2.IH"(2) [OF Ok q2 this(1)] have "length q < length q2" by simp
    ultimately show ?thesis using l q1 by simp
  qed (use "2.prems" s l in \<open>auto simp: bind_res_Ok_iff\<close>)
next
  case (4 fuel p)
  show ?case
  proof (cases "currentChar p = CHR ''{''")
    case True
    with 4 show ?thesis by (auto simp: Let_def)
  next
    case False
    then show ?thesis using "4.prems"
      by (cases p; cases "tl p") (auto simp: Let_def parseLiteralSegment_def bind_res_Ok_iff peekN_def
        dest!: parseLiteral_shorter split: if_splits)
  qed
next
  case (6 fuel p)
  from "6.prems" obtain p1 fp p2 where p1: "p = CHR ''{'' # p1" "parseFieldPath fuel p1 = Ok (fp, p2)"
    by (auto simp: bind_res_Ok_iff consume_Ok)
  then have l: "length p2 < length p1" using parseFieldPath_shorter by blast
  show ?case
  proof (cases "consume (CHR ''='') p2")
    case (Ok p3)
    with "6.prems" p1 obtain ss p4 where "parseSegments fuel p3 = Ok (ss, p4)" "p4 = CHR ''}'' # q"
      by (auto simp: bind_res_Ok_iff consume_Ok)
    moreover from "6.IH" [OF Ok this(1)] p1 have "length p4 < length p3" by auto
    ultimately show ?thesis using l p1 Ok by (auto simp: consume_Ok)
  qed (use "6.prems" p1 l in \<open>auto simp: bind_res_Ok_iff consume_Ok\<close>)
qed auto

lemma parseSegments_fuel:
  "3 * length p + 3 \<le> fuel \<Longrightarrow> parseSegments fuel p \<noteq> Err errOutOfFuel \<and> parseSegments fuel p \<noteq> Panic"
  "3 * length p + 2 \<le> fuel \<Longrightarrow> parseSegment fuel p \<noteq> Err errOutOfFuel \<and> parseSegment fuel p \<noteq> Panic"
  "3 * length p + 1 \<le> fuel \<Longrightarrow>
     parseVariableSegment fuel p \<noteq> Err errOutOfFuel \<and> parseVariableSegment fuel p \<noteq> Panic"
proof (induction fuel p and fuel p and fuel p rule: parseSegments_parseSegment_parseVariableSegment.induct)
  case (2 fuel p)
  have seg: "parseSegment fuel p \<noteq> Err errOutOfFuel \<and> parseSegment fuel p \<noteq> Panic"
    using "2.IH"(1) "2.prems" by simp
  have "parseSegments fuel q' \<noteq> Err errOutOfFuel \<and> parseSegments fuel q' \<noteq> Panic"
    if "parseSegment fuel p = Ok (s, q)" "consume (CHR ''/'') q = Ok q'" "q' \<noteq> []" for s q q'
    using that parseSegments_shorter(2) [OF that(1)] "2.prems" "2.IH"(2) [OF that(2,3)]
    by (simp add: consume_Ok)
  with seg show ?case
    by (auto simp: bind_res_iffs split: res.splits if_splits)
next
  case (4 fuel p)
  then show ?case by (auto simp: Let_def parseLiteralSegment_def bind_res_iffs)
next
  case (6 fuel p)
  have fp: "parseFieldPath fuel p1 \<noteq> Err errOutOfFuel \<and> parseFieldPath fuel p1 \<noteq> Panic"
    if "consume (CHR ''{'') p = Ok p1" for p1
    using that "6.prems" by (intro parseFieldPath_fuel) (simp add: consume_Ok)
  have segs: "parseSegments fuel p3 \<noteq> Err errOutOfFuel \<and> parseSegments fuel p3 \<noteq> Panic"
    if "consume (CHR ''{'') p = Ok p1" "parseFieldPath fuel p1 = Ok (f, p2)"
      "consume (CHR ''='') p2 = Ok p3" for p1 f p2 p3
    using "6.IH" [OF that(3)] that parseFieldPath_shorter [OF that(2)] "6.prems"
    by (simp add: consume_Ok)
  from fp segs show ?case by (auto simp: bind_res_iffs split: res.splits)
qed auto

lemma validate_nested_total: "validate_nested l ss \<noteq> Err errOutOfFuel" "validate_nested l ss \<noteq> Panic"
  by (induction l ss rule: validate_nested.induct) auto

lemma validate_total: "validate_loop seen ss \<noteq> Err errOutOfFuel \<and> validate_loop seen ss \<noteq> Panic"
  by (induction ss arbitrary: seen)
    (auto simp: Let_def validate_nested_total bind_res_iffs split: if_splits)

lemma splitVerb_total: "splitVerb segs p \<noteq> Err errOutOfFuel \<and> splitVerb segs p \<noteq> Panic"
  by (cases "last segs")
    (auto simp: splitVerb_def parseVerb_def bind_res_iffs split: option.splits res.splits)

lemma parse_total: "Parse s \<noteq> Err errOutOfFuel \<and> Parse s \<noteq> Panic"
proof (cases "consume (CHR ''/'') s")
  case (Ok p1)
  have segs: "parseSegments (parse_fuel p1) p1 \<noteq> Err errOutOfFuel \<and> parseSegments (parse_fuel p1) p1 \<noteq> Panic"
    by (intro parseSegments_fuel(1)) (simp add: parse_fuel_def)
  moreover have "ss \<noteq> []" if "parseSegments (parse_fuel p1) p1 = Ok (ss, q)" for ss q
    using that parseSegments_shorter(1) by blast
  ultimately show ?thesis
    using Ok splitVerb_total validate_total
    by (auto simp: Parse_def parse_def bind_res_iffs validate_def Let_def split: if_splits)
qed (auto simp: Parse_def parse_def)

subsection \<open>Printing and parsing\<close>

definition lit_ok :: "string \<Rightarrow> bool" where
  "lit_ok l \<longleftrightarrow> l \<noteq> [] \<and> parseLiteral_loop l = (l, [])"

definition ident_ok :: "string \<Rightarrow> bool" where
  "ident_ok i \<longleftrightarrow> i \<noteq> [] \<and> isAlpha (hd i) \<and> (\<forall>c \<in> set i. isIdentChar c)"

fun seg_wf :: "segment \<Rightarrow> bool" where
  "seg_wf Wildcard = True"
| "seg_wf DeepWildcard = True"
| "seg_wf (Literal l) = (lit_ok l \<and> hd l \<noteq> CHR ''*'')"
| "seg_wf (Variable fp segs) = (fp \<noteq> [] \<and> list_all ident_ok fp \<and> segs \<noteq> [] \<and> list_all seg_wf segs)"

definition render :: "PathTemplate \<Rightarrow> string" where
  "render tpl = ''/'' @ Join (map seg_String (segments tpl)) ''/''
     @ (if verb tpl = [] then [] else '':'' @ verb tpl)"

definition template_wf :: "PathTemplate \<Rightarrow> bool" where
  "template_wf tpl \<longleftrightarrow>
     segments tpl \<noteq> [] \<and> list_all seg_wf (segments tpl) \<and> validate tpl = Ok ()
     \<and> (verb tpl = [] \<or> lit_ok (verb tpl))
     \<and> (case last (segments tpl) of
          Literal l \<Rightarrow> if verb tpl = [] then CHR '':'' \<notin> set (tl l) else CHR '':'' \<notin> set (verb tpl)
        | _ \<Rightarrow> True)"

lemma isHexDigit_simps [simp]: "\<not> isHexDigit invalidChar" "\<not> isHexDigit (CHR '':'')"
  by (simp_all add: isHexDigit_def)

lemma not_isPchar [simp]: "\<not> isPchar (CHR ''/'')" "\<not> isPchar (CHR ''}'')" "\<not> isPchar (CHR ''{'')"
    "\<not> isPchar invalidChar" "isPchar (CHR '':'')"
  by (simp_all add: isPchar_def isUnreserved_def isAlpha_def isDigit_def isSubDelims_def)

lemma isPCTEncoded_cases:
  assumes "isPCTEncoded c (peekN (c # p) 1) (peekN (c # p) 2)"
  obtains d e p' where "p = d # e # p'" "isHexDigit d" "isHexDigit e" "c = CHR ''%''"
proof -
  have "2 < length (c # p)" using assms by (auto simp: isPCTEncoded_def peekN_def split: if_splits)
  then obtain d e p' where "p = d # e # p'" by (cases p; cases "tl p") auto
  with assms that show thesis by (auto simp: isPCTEncoded_def peekN_def)
qed

lemma parseLiteral_loop_pct:
  "isHexDigit d \<Longrightarrow> isHexDigit e \<Longrightarrow> parseLiteral_loop (CHR ''%'' # d # e # p) =
     (case parseLiteral_loop p of (lit, q) \<Rightarrow> (CHR ''%'' # d # e # lit, q))"
  by (simp add: isPCTEncoded_def peekN_def isPchar_def isUnreserved_def isAlpha_def isDigit_def
      isSubDelims_def split: prod.splits)

lemma parseLiteral_loop_pchar:
  "isPchar c \<Longrightarrow> parseLiteral_loop (c # p) = (case parseLiteral_loop p of (lit, q) \<Rightarrow> (c # lit, q))"
  by simp

lemma parseLiteral_loop_stuck:
  "\<not> isPchar c \<Longrightarrow> \<not> isPCTEncoded c (peekN (c # p) 1) (peekN (c # p) 2) \<Longrightarrow>
     parseLiteral_loop (c # p) = ([], c # p)"
  by simp

lemmas literal_steps = parseLiteral_loop_pchar parseLiteral_loop_pct parseLiteral_loop_stuck

declare parseLiteral_loop.simps(2) [simp del]

lemma whole_pchar: "isPchar c \<Longrightarrow> parseLiteral_loop (c # p) = (c # p, []) \<longleftrightarrow> parseLiteral_loop p = (p, [])"
  by (auto simp: literal_steps split: prod.splits)

lemma whole_pct: "isHexDigit d \<Longrightarrow> isHexDigit e \<Longrightarrow>
    parseLiteral_loop (CHR ''%'' # d # e # p) = (CHR ''%'' # d # e # p, []) \<longleftrightarrow> parseLiteral_loop p = (p, [])"
  by (auto simp: literal_steps split: prod.splits)

lemma whole_not_pchar:
  assumes "parseLiteral_loop (c # p) = (c # p, [])" "\<not> isPchar c"
  obtains d e p' where "p = d # e # p'" "isHexDigit d" "isHexDigit e" "c = CHR ''%''"
    "parseLiteral_loop p' = (p', [])"
proof -
  have "isPCTEncoded c (peekN (c # p) 1) (peekN (c # p) 2)"
    using assms parseLiteral_loop_stuck by fastforce
  then obtain d e p' where "p = d # e # p'" "isHexDigit d" "isHexDigit e" "c = CHR ''%''"
    by (rule isPCTEncoded_cases)
  with assms that show thesis by (simp add: whole_pct)
qed

lemma parseLiteral_loop_whole:
  "parseLiteral_loop l = (l, []) \<Longrightarrow> parseLiteral_loop (l @ r) =
     (case parseLiteral_loop r of (l', r') \<Rightarrow> (l @ l', r'))"
proof (induction l rule: length_induct)
  case (1 l)
  show ?case
  proof (cases l)
    case (Cons c p)
    show ?thesis
    proof (cases "isPchar c")
      case True
      with "1.IH" "1.prems" Cons have "parseLiteral_loop (p @ r) =
          (case parseLiteral_loop r of (l', r') \<Rightarrow> (p @ l', r'))" by (simp add: whole_pchar)
      with Cons True show ?thesis by (simp add: parseLiteral_loop_pchar split: prod.splits)
    next
      case False
      from "1.prems" Cons False obtain d e p' where
        "p = d # e # p'" "isHexDigit d" "isHexDigit e" "c = CHR ''%''" "parseLiteral_loop p' = (p', [])"
        using whole_not_pchar by metis
      moreover from this "1.IH" Cons have "parseLiteral_loop (p' @ r) =
          (case parseLiteral_loop r of (l', r') \<Rightarrow> (p' @ l', r'))" by simp
      ultimately show ?thesis using Cons by (simp add: parseLiteral_loop_pct split: prod.splits)
    qed
  qed (simp split: prod.splits)
qed

text \<open>A literal may be cut at a colon: a colon is never inside a percent-encoded triple.\<close>

lemma parseLiteral_loop_cut:
  "parseLiteral_loop (a @ CHR '':'' # b) = (a @ CHR '':'' # b, []) \<Longrightarrow>
     parseLiteral_loop a = (a, []) \<and> parseLiteral_loop b = (b, [])"
proof (induction a rule: length_induct)
  case (1 a)
  show ?case
  proof (cases a)
    case Nil
    with "1.prems" show ?thesis by (simp add: whole_pchar)
  next
    case (Cons c p)
    show ?thesis
    proof (cases "isPchar c")
      case True
      with 1 Cons show ?thesis by (fastforce simp: whole_pchar)
    next
      case False
      from "1.prems" Cons False obtain d e p' where
        p: "p @ CHR '':'' # b = d # e # p'" "isHexDigit d" "isHexDigit e" "c = CHR ''%''"
          "parseLiteral_loop p' = (p', [])"
        using whole_not_pchar by (metis append_Cons)
      then obtain p'' where "p = d # e # p''" by (cases p; cases "tl p") auto
      moreover from this p have "p' = p'' @ CHR '':'' # b" by simp
      ultimately have "parseLiteral_loop p'' = (p'', []) \<and> parseLiteral_loop b = (b, [])"
        using "1.IH" [rule_format, of p''] Cons p(5) by simp
      with \<open>p = d # e # p''\<close> Cons p show ?thesis by (simp add: whole_pct)
    qed
  qed
qed

lemma lit_ok_append_colon: "lit_ok a \<Longrightarrow> lit_ok b \<Longrightarrow> lit_ok (a @ CHR '':'' # b)"
  by (auto simp: lit_ok_def parseLiteral_loop_whole parseLiteral_loop_pchar)

definition stop :: "string \<Rightarrow> bool" where
  "stop r \<longleftrightarrow> r = [] \<or> hd r = CHR ''/'' \<or> hd r = CHR ''}''"

lemma parseLiteral_stop: "lit_ok l \<Longrightarrow> stop r \<Longrightarrow> parseLiteral (l @ r) = Ok (l, r)"
  by (cases r) (auto simp: parseLiteral_def lit_ok_def parseLiteral_loop_whole stop_def
      parseLiteral_loop_stuck isPCTEncoded_def)

lemma parseIdent_loop_print:
  "acc \<noteq> [] \<Longrightarrow> \<forall>c \<in> set i. isIdentChar c \<Longrightarrow> r \<noteq> [] \<Longrightarrow> \<not> isIdentChar (hd r) \<Longrightarrow>
     parseIdent_loop acc (i @ r) = Ok (acc @ i, r)"
  by (induction i arbitrary: acc) (auto simp: neq_Nil_conv)

lemma parseIdent_print:
  assumes "ident_ok i" "r \<noteq> []" "\<not> isIdentChar (hd r)"
  shows "parseIdent (i @ r) = Ok (i, r)"
proof -
  obtain c i' where "i = c # i'" using assms(1) by (cases i) (auto simp: ident_ok_def)
  with assms show ?thesis
    using parseIdent_loop_print [of "[c]" i' r] by (simp add: parseIdent_def ident_ok_def)
qed

lemma not_isIdentChar [simp]: "\<not> isIdentChar (CHR ''='')" "\<not> isIdentChar (CHR ''.'')"
  by (simp_all add: isIdentChar_def isAlpha_def isDigit_def)

lemma parseFieldPath_print:
  "fp \<noteq> [] \<Longrightarrow> list_all ident_ok fp \<Longrightarrow> length (Join fp ''.'') < fuel \<Longrightarrow>
     parseFieldPath fuel (Join fp ''.'' @ CHR ''='' # r) = Ok (fp, CHR ''='' # r)"
proof (induction fp arbitrary: fuel)
  case (Cons i fp)
  then obtain fuel' where fuel: "fuel = Suc fuel'" by (cases fuel) auto
  show ?case
  proof (cases fp)
    case Nil
    with Cons fuel show ?thesis by (simp add: parseIdent_print)
  next
    case (Cons j fp')
    then show ?thesis
      using Cons.IH [of fuel'] Cons.prems fuel by (simp add: parseIdent_print)
  qed
qed simp

definition follow :: "segment \<Rightarrow> string \<Rightarrow> bool" where
  "follow s r \<longleftrightarrow> stop r \<or> (\<not> (\<exists>l. s = Literal l) \<and> hd r = CHR '':'')"

lemma seg_String_ne: "seg_wf s \<Longrightarrow> seg_String s \<noteq> []"
  by (cases s) (auto simp: lit_ok_def)

lemma follow_slash [simp]: "follow s (CHR ''/'' # r)"
  by (simp add: follow_def stop_def)

lemma parseSegments_print_list:
  assumes "\<And>s r fuel. s \<in> set segs \<Longrightarrow> seg_wf s \<Longrightarrow> follow s r \<Longrightarrow>
      3 * length (seg_String s @ r) + 2 \<le> fuel \<Longrightarrow> parseSegment fuel (seg_String s @ r) = Ok (s, r)"
    and "segs \<noteq> []" "list_all seg_wf segs" "follow (last segs) r" "r = [] \<or> hd r \<noteq> CHR ''/''"
    and "3 * length (Join (map seg_String segs) ''/'' @ r) + 3 \<le> fuel"
  shows "parseSegments fuel (Join (map seg_String segs) ''/'' @ r) = Ok (segs, r)"
  using assms
proof (induction segs arbitrary: fuel)
  case (Cons s segs)
  then obtain fuel' where fuel: "fuel = Suc fuel'" by (cases fuel) auto
  show ?case
  proof (cases "segs = []")
    case True
    have "parseSegment fuel' (seg_String s @ r) = Ok (s, r)"
      using Cons.prems True fuel by (intro Cons.prems(1)) auto
    moreover have "consume (CHR ''/'') r \<noteq> Ok q" for q
      using Cons.prems(5) by (cases r) auto
    ultimately show ?thesis using True fuel by (auto split: res.splits)
  next
    case False
    let ?rest = "Join (map seg_String segs) ''/'' @ r"
    have J: "Join (map seg_String (s # segs)) ''/'' @ r = seg_String s @ CHR ''/'' # ?rest"
      using False by (cases segs) auto
    have ne: "?rest \<noteq> []"
      using False Cons.prems(3) seg_String_ne by (cases segs; cases "tl segs") auto
    have "parseSegment fuel' (seg_String s @ CHR ''/'' # ?rest) = Ok (s, CHR ''/'' # ?rest)"
      using Cons.prems(3,6) unfolding J fuel by (intro Cons.prems(1)) simp_all
    moreover have "parseSegments fuel' ?rest = Ok (segs, r)"
      using Cons.prems False unfolding J fuel by (intro Cons.IH) simp_all
    ultimately show ?thesis using ne unfolding J fuel by simp
  qed
qed simp

lemma parseSegment_print:
  "seg_wf s \<Longrightarrow> follow s r \<Longrightarrow> 3 * length (seg_String s @ r) + 2 \<le> fuel \<Longrightarrow>
     parseSegment fuel (seg_String s @ r) = Ok (s, r)"
proof (induction s arbitrary: r fuel)
  case Wildcard
  then show ?case by (cases fuel; cases r) (auto simp: peekN_def follow_def stop_def)
next
  case DeepWildcard
  then show ?case by (cases fuel) (auto simp: peekN_def)
next
  case (Literal l)
  then obtain fuel' c l' where fuel: "fuel = Suc fuel'" and l: "l = c # l'"
    by (cases fuel; cases l) (auto simp: lit_ok_def)
  have "isPchar c \<or> c = CHR ''%''"
    using Literal.prems(1) l whole_not_pchar [of c l'] by (auto simp: lit_ok_def)
  then have "c \<noteq> CHR ''{'' \<and> c \<noteq> invalidChar" by auto
  with Literal l fuel show ?case
    using parseLiteral_stop [of l r] by (simp add: parseLiteralSegment_def follow_def)
next
  case (Variable fp segs)
  then obtain fuel' where fuel: "fuel = Suc (Suc fuel')" by (cases fuel; cases "fuel - 1") auto
  let ?j = "Join (map seg_String segs) ''/''"
  have str: "seg_String (Variable fp segs) @ r = CHR ''{'' # Join fp ''.'' @ CHR ''='' # ?j @ CHR ''}'' # r"
    by simp
  have fp: "parseFieldPath fuel' (Join fp ''.'' @ CHR ''='' # ?j @ CHR ''}'' # r) =
      Ok (fp, CHR ''='' # ?j @ CHR ''}'' # r)"
    using Variable.prems fuel by (intro parseFieldPath_print) simp_all
  have "parseSegments fuel' (?j @ CHR ''}'' # r) = Ok (segs, CHR ''}'' # r)"
    using Variable.prems fuel
    by (intro parseSegments_print_list Variable.IH) (auto simp: follow_def stop_def)
  with fp fuel show ?case unfolding str by simp
qed

lemma parseSegments_print:
  "segs \<noteq> [] \<Longrightarrow> list_all seg_wf segs \<Longrightarrow> follow (last segs) r \<Longrightarrow> r = [] \<or> hd r \<noteq> CHR ''/'' \<Longrightarrow>
   3 * length (Join (map seg_String segs) ''/'' @ r) + 3 \<le> fuel \<Longrightarrow>
     parseSegments fuel (Join (map seg_String segs) ''/'' @ r) = Ok (segs, r)"
  by (intro parseSegments_print_list parseSegment_print)

subsection \<open>Whole templates\<close>

lemma splitVerb_print:
  assumes "template_wf tpl"
  defines "lastLit \<equiv> (\<exists>l. last (segments tpl) = Literal l)"
  defines "v \<equiv> (if verb tpl = [] then [] else CHR '':'' # verb tpl)"
  defines "segs' \<equiv> (case last (segments tpl) of
      Literal l \<Rightarrow> butlast (segments tpl) @ [Literal (l @ v)] | _ \<Rightarrow> segments tpl)"
  defines "r \<equiv> (if lastLit then [] else v)"
  shows "splitVerb segs' r = Ok (segments tpl, verb tpl, [])"
    and "Join (map seg_String (segments tpl)) ''/'' @ v = Join (map seg_String segs') ''/'' @ r"
    and "list_all seg_wf segs'" "segs' \<noteq> []" "follow (last segs') r" "r = [] \<or> hd r \<noteq> CHR ''/''"
proof -
  have ne: "segments tpl \<noteq> []" and wf: "list_all seg_wf (segments tpl)"
    using assms(1) by (auto simp: template_wf_def)
  then have bl: "segments tpl = butlast (segments tpl) @ [last (segments tpl)]" by simp
  have vok: "verb tpl = [] \<or> lit_ok (verb tpl)" using assms(1) by (simp add: template_wf_def)
  show "segs' \<noteq> []" using ne by (auto simp: segs'_def split: segment.splits)
  show "r = [] \<or> hd r \<noteq> CHR ''/''" by (auto simp: r_def v_def)
  show "Join (map seg_String (segments tpl)) ''/'' @ v = Join (map seg_String segs') ''/'' @ r"
  proof (cases "last (segments tpl)")
    case (Literal l)
    then show ?thesis
      by (subst bl, cases "butlast (segments tpl) = []")
        (auto simp: segs'_def r_def lastLit_def Join_append)
  qed (auto simp: segs'_def r_def lastLit_def)
  show wf': "list_all seg_wf segs'"
  proof (cases "last (segments tpl)")
    case (Literal l)
    have b: "list_all seg_wf (butlast (segments tpl))"
      using wf by (auto simp: list_all_iff dest: in_set_butlastD)
    have "seg_wf (Literal l)" using wf ne Literal last_in_set by (fastforce simp: list_all_iff)
    with vok have "seg_wf (Literal (l @ v))"
      by (auto simp: v_def lit_ok_append_colon) (auto simp: lit_ok_def)
    with Literal b show ?thesis by (simp add: segs'_def)
  qed (use wf in \<open>auto simp: segs'_def\<close>)
  show "follow (last segs') r"
    by (cases "last (segments tpl)") (auto simp: follow_def r_def lastLit_def v_def stop_def segs'_def)
  show "splitVerb segs' r = Ok (segments tpl, verb tpl, [])"
  proof (cases "last (segments tpl)")
    case (Literal l)
    have "seg_wf (Literal l)" using wf ne Literal last_in_set by (fastforce simp: list_all_iff)
    then have l: "lit_ok l" by simp
    show ?thesis
    proof (cases "verb tpl = []")
      case True
      then have col: "CHR '':'' \<notin> set (tl l)" using assms(1) Literal by (simp add: template_wf_def)
      obtain c l' where cl: "l = c # l'" using l by (cases l) (auto simp: lit_ok_def)
      have "i = 0" if "LastIndexByte l (CHR '':'') = Some i" for i
        using LastIndexByte_Some [OF that] col cl
        by (cases i) (auto, metis in_set_conv_decomp)
      with True Literal bl show ?thesis
        by (auto simp: splitVerb_def segs'_def v_def r_def lastLit_def split: option.splits)
    next
      case False
      then have "CHR '':'' \<notin> set (verb tpl)" using assms(1) Literal by (simp add: template_wf_def)
      then have "LastIndexByte (l @ CHR '':'' # verb tpl) (CHR '':'') = Some (length l)"
        by (rule LastIndexByte_append)
      moreover have "0 < length l" using l by (simp add: lit_ok_def)
      ultimately show ?thesis using False Literal bl
        by (simp add: splitVerb_def segs'_def v_def r_def lastLit_def)
    qed
  qed (use vok parseLiteral_stop [of "verb tpl" "[]"] in
      \<open>auto simp: splitVerb_def segs'_def r_def lastLit_def v_def parseVerb_def stop_def\<close>)
qed

lemma Parse_render:
  assumes "template_wf tpl"
  shows "Parse (render tpl) = Ok tpl"
proof -
  let ?v = "if verb tpl = [] then [] else CHR '':'' # verb tpl"
  let ?p = "Join (map seg_String (segments tpl)) ''/'' @ ?v"
  note s = splitVerb_print [OF assms]
  obtain segs' r where eq: "splitVerb segs' r = Ok (segments tpl, verb tpl, [])" "?p = Join (map seg_String segs') ''/'' @ r"
    and ok: "segs' \<noteq> []" "list_all seg_wf segs'" "follow (last segs') r" "r = [] \<or> hd r \<noteq> CHR ''/''"
    using s by blast
  have "parseSegments (parse_fuel ?p) ?p = Ok (segs', r)"
    unfolding eq(2) by (intro parseSegments_print ok) (simp add: parse_fuel_def)
  moreover have "render tpl = CHR ''/'' # ?p" by (simp add: render_def)
  moreover have "validate tpl = Ok ()" using assms by (simp add: template_wf_def)
  ultimately have "Parse (render tpl) = bind_res (validate \<lparr>segments = segments tpl, verb = verb tpl\<rparr>)
      (\<lambda>_. Ok \<lparr>segments = segments tpl, verb = verb tpl\<rparr>)"
    using eq(1) ok(1) by (simp add: Parse_def parse_def Let_def del: append_Cons)
  also have "\<lparr>segments = segments tpl, verb = verb tpl\<rparr> = tpl" by simp
  finally show ?thesis using \<open>validate tpl = Ok ()\<close> by simp
qed

subsection \<open>Accepted templates are well formed\<close>

lemma parseLiteral_loop_sound: "parseLiteral_loop p = (lit, q) \<Longrightarrow> parseLiteral_loop lit = (lit, [])"
proof (induction p arbitrary: lit q rule: length_induct)
  case (1 p)
  show ?case
  proof (cases p)
    case (Cons c p')
    show ?thesis
    proof (cases "isPchar c")
      case True
      with 1 Cons show ?thesis by (auto simp: literal_steps whole_pchar split: prod.splits)
    next
      case False
      show ?thesis
      proof (cases "isPCTEncoded c (peekN (c # p') 1) (peekN (c # p') 2)")
        case True
        then obtain d e p'' where p: "p' = d # e # p''" "isHexDigit d" "isHexDigit e" "c = CHR ''%''"
          by (rule isPCTEncoded_cases)
        with Cons "1.prems" obtain lit' where "parseLiteral_loop p'' = (lit', q)"
          and lit: "lit = CHR ''%'' # d # e # lit'"
          by (auto simp: parseLiteral_loop_pct split: prod.splits)
        with "1.IH" Cons p have "parseLiteral_loop lit' = (lit', [])"
          by (metis length_Cons less_Suc_eq less_trans)
        with lit p show ?thesis by (simp add: whole_pct)
      qed (use "1.prems" Cons False in \<open>auto simp: parseLiteral_loop_stuck\<close>)
    qed
  qed (use 1 in auto)
qed

lemma parseLiteral_sound: "parseLiteral p = Ok (lit, q) \<Longrightarrow> lit_ok lit"
  by (auto simp: parseLiteral_def lit_ok_def dest: parseLiteral_loop_sound split: prod.splits if_splits)

lemma parseIdent_loop_sound:
  "parseIdent_loop i p = Ok (j, q) \<Longrightarrow> (i = [] \<or> ident_ok i) \<Longrightarrow> ident_ok j"
  by (induction i p rule: parseIdent_loop.induct) (auto simp: ident_ok_def split: if_splits)

lemma parseFieldPath_sound: "parseFieldPath fuel p = Ok (fp, q) \<Longrightarrow> list_all ident_ok fp"
proof (induction fuel arbitrary: p fp)
  case (Suc fuel)
  from Suc.prems obtain i q1 where i: "parseIdent p = Ok (i, q1)" by (auto simp: bind_res_Ok_iff)
  then have "ident_ok i" using parseIdent_loop_sound by (auto simp: parseIdent_def)
  with Suc i show ?case
    by (cases "consume (CHR ''.'') q1") (auto simp: bind_res_Ok_iff)
qed simp

lemma parseSegments_sound:
  "parseSegments fuel p = Ok (segs, q) \<Longrightarrow> list_all seg_wf segs"
  "parseSegment fuel p = Ok (seg, q) \<Longrightarrow> seg_wf seg"
  "parseVariableSegment fuel p = Ok (seg, q) \<Longrightarrow> seg_wf seg"
proof (induction fuel p and fuel p and fuel p arbitrary: segs q and seg q and seg q
    rule: parseSegments_parseSegment_parseVariableSegment.induct)
  case (2 fuel p)
  from "2.prems" obtain s q1 where s: "parseSegment fuel p = Ok (s, q1)" by (auto simp: bind_res_Ok_iff)
  with 2 show ?case
    by (cases "consume (CHR ''/'') q1") (auto simp: bind_res_Ok_iff split: if_splits)
next
  case (4 fuel p)
  show ?case
  proof (cases "currentChar p \<in> {invalidChar, CHR ''*'', CHR ''{''}")
    case True
    with 4 show ?thesis by (auto simp: Let_def split: if_splits)
  next
    case False
    with "4.prems" obtain lit where lit: "parseLiteral p = Ok (lit, q)" "seg = Literal lit"
      by (auto simp: Let_def parseLiteralSegment_def bind_res_Ok_iff split: if_splits)
    moreover have "hd lit = currentChar p"
      using parseLiteral_Ok [OF lit(1)] by (cases lit) auto
    ultimately show ?thesis using False parseLiteral_sound by auto
  qed
next
  case (6 fuel p)
  from "6.prems" obtain p1 fp p2 where p1: "p = CHR ''{'' # p1" "parseFieldPath fuel p1 = Ok (fp, p2)"
    by (auto simp: bind_res_Ok_iff consume_Ok)
  with 6 show ?case
    using parseFieldPath_sound [OF p1(2)] parseFieldPath_shorter [OF p1(2)]
    by (cases "consume (CHR ''='') p2") (auto simp: bind_res_Ok_iff dest: parseSegments_shorter(1))
qed auto

text \<open>The last literal of a segment list is the end of what was read.\<close>

lemma parseSegment_literal_read:
  "parseSegment fuel p = Ok (Literal l, q) \<Longrightarrow> p = l @ q"
  by (cases fuel; cases "fuel - 1") (auto simp: Let_def parseLiteralSegment_def bind_res_Ok_iff
      dest: parseLiteral_Ok split: if_splits)

definition ascii :: "string \<Rightarrow> bool" where
  "ascii s \<longleftrightarrow> (\<forall>c \<in> set s. (of_char c :: nat) < 128)"

lemma ascii_simps [simp]: "ascii []" "ascii (c # s) \<longleftrightarrow> (of_char c :: nat) < 128 \<and> ascii s"
    "ascii (s @ t) \<longleftrightarrow> ascii s \<and> ascii t"
  by (auto simp: ascii_def)

lemma isPchar_ascii: "isPchar c \<Longrightarrow> (of_char c :: nat) < 128"
  by (auto simp: isPchar_def isUnreserved_def isSubDelims_def isAlpha_def isDigit_def)

lemma isHexDigit_ascii: "isHexDigit c \<Longrightarrow> (of_char c :: nat) < 128"
  by (auto simp: isHexDigit_def)

lemma isIdentChar_ascii: "isIdentChar c \<Longrightarrow> (of_char c :: nat) < 128"
  by (auto simp: isIdentChar_def isAlpha_def isDigit_def)

lemma lit_ok_ascii: "lit_ok l \<Longrightarrow> ascii l"
proof -
  have "parseLiteral_loop l = (l, []) \<Longrightarrow> ascii l"
  proof (induction l rule: length_induct)
    case (1 l)
    show ?case
    proof (cases l)
      case (Cons c p)
      show ?thesis
      proof (cases "isPchar c")
        case True
        with 1 Cons show ?thesis by (auto simp: whole_pchar isPchar_ascii)
      next
        case False
        with "1.prems" Cons obtain d e p' where "p = d # e # p'" "isHexDigit d" "isHexDigit e"
          "c = CHR ''%''" "parseLiteral_loop p' = (p', [])" using whole_not_pchar by metis
        with "1.IH" Cons show ?thesis by (auto simp: isHexDigit_ascii)
      qed
    qed simp
  qed
  then show "lit_ok l \<Longrightarrow> ascii l" by (simp add: lit_ok_def)
qed

lemma ident_ok_ascii: "ident_ok i \<Longrightarrow> ascii i"
  by (auto simp: ident_ok_def ascii_def isIdentChar_ascii)

lemma parseFieldPath_suffix: "parseFieldPath fuel p = Ok (fp, q) \<Longrightarrow> \<exists>pre. p = pre @ q \<and> ascii pre"
proof (induction fuel arbitrary: p fp)
  case (Suc fuel)
  from Suc.prems obtain i q1 where i: "parseIdent p = Ok (i, q1)" by (auto simp: bind_res_Ok_iff)
  then have p: "p = i @ q1" "ascii i"
    using parseIdent_Ok parseIdent_loop_sound [of "[]" p i q1] ident_ok_ascii by (auto simp: parseIdent_def)
  show ?case
  proof (cases "consume (CHR ''.'') q1")
    case (Ok q2)
    with Suc.prems i obtain fp' where "parseFieldPath fuel q2 = Ok (fp', q)" by (auto simp: bind_res_Ok_iff)
    with Suc.IH obtain pre where q2: "q2 = pre @ q" "ascii pre" by blast
    then have "p = (i @ CHR ''.'' # pre) @ q" using p q2 Ok by (simp add: consume_Ok)
    moreover have "ascii (i @ CHR ''.'' # pre)" using p q2 by simp
    ultimately show ?thesis by blast
  qed (use Suc.prems i p in \<open>auto simp: bind_res_Ok_iff\<close>)
qed simp

lemma parseSegments_suffix:
  "parseSegments fuel p = Ok (segs, q) \<Longrightarrow> \<exists>pre. p = pre @ q \<and> ascii pre"
  "parseSegment fuel p = Ok (seg, q) \<Longrightarrow> \<exists>pre. p = pre @ q \<and> ascii pre"
  "parseVariableSegment fuel p = Ok (seg, q) \<Longrightarrow> \<exists>pre. p = pre @ q \<and> ascii pre"
proof (induction fuel p and fuel p and fuel p arbitrary: segs q and seg q and seg q
    rule: parseSegments_parseSegment_parseVariableSegment.induct)
  case (2 fuel p)
  from "2.prems" obtain s q1 where s: "parseSegment fuel p = Ok (s, q1)" by (auto simp: bind_res_Ok_iff)
  with "2.IH"(1) obtain pre where p: "p = pre @ q1" "ascii pre" by blast
  show ?case
  proof (cases "consume (CHR ''/'') q1")
    case (Ok q2)
    from "2.prems" s Ok have q2: "q2 \<noteq> []" by (auto split: if_splits)
    with "2.prems" s Ok obtain ss where "parseSegments fuel q2 = Ok (ss, q)" by (auto simp: bind_res_Ok_iff)
    from "2.IH"(2) [OF Ok q2 this] s obtain pre' where q2: "q2 = pre' @ q" "ascii pre'" by auto
    then have "p = (pre @ CHR ''/'' # pre') @ q" using p Ok by (simp add: consume_Ok)
    moreover have "ascii (pre @ CHR ''/'' # pre')" using p q2 by simp
    ultimately show ?thesis by blast
  qed (use "2.prems" s p in \<open>auto simp: bind_res_Ok_iff\<close>)
next
  case (4 fuel p)
  show ?case
  proof (cases "currentChar p = CHR ''{''")
    case True
    with 4 show ?thesis by (auto simp: Let_def)
  next
    case False
    show ?thesis
    proof (cases "currentChar p = CHR ''*''")
      case True
      with "4.prems" obtain p' where "p = CHR ''*'' # p'" by (cases p) auto
      with "4.prems" show ?thesis
        by (cases p') (auto simp: peekN_def Let_def split: if_splits
            intro: exI [of _ "''*''"] exI [of _ "''**''"])
    next
      case False
      with \<open>currentChar p \<noteq> CHR ''{''\<close> "4.prems" obtain l where l: "parseLiteral p = Ok (l, q)"
        by (auto simp: Let_def parseLiteralSegment_def bind_res_Ok_iff split: if_splits)
      with parseLiteral_Ok [OF l] lit_ok_ascii [OF parseLiteral_sound [OF l]] show ?thesis by blast
    qed
  qed
next
  case (6 fuel p)
  from "6.prems" obtain p1 fp p2 where p1: "p = CHR ''{'' # p1" "parseFieldPath fuel p1 = Ok (fp, p2)"
    by (auto simp: bind_res_Ok_iff consume_Ok)
  then obtain pre where p2: "p1 = pre @ p2" "ascii pre" using parseFieldPath_suffix by blast
  show ?case
  proof (cases "consume (CHR ''='') p2")
    case (Ok p3)
    with "6.prems" p1 obtain ss p4 where p4: "parseSegments fuel p3 = Ok (ss, p4)" "p4 = CHR ''}'' # q"
      by (auto simp: bind_res_Ok_iff consume_Ok)
    from "6.IH" [OF Ok this(1)] p1 obtain pre' where p3: "p3 = pre' @ p4" "ascii pre'" by auto
    then have "p = (CHR ''{'' # pre @ CHR ''='' # pre' @ ''}'') @ q" using p1 p2 p4 Ok by (simp add: consume_Ok)
    moreover have "ascii (CHR ''{'' # pre @ CHR ''='' # pre' @ ''}'')" using p2 p3 by simp
    ultimately show ?thesis by blast
  next
    case (Err e)
    with "6.prems" p1 p2 have "p = (CHR ''{'' # pre @ ''}'') @ q" by (auto simp: bind_res_Ok_iff consume_Ok)
    moreover have "ascii (CHR ''{'' # pre @ ''}'')" using p2 by simp
    ultimately show ?thesis by blast
  qed simp
qed auto

lemma parseSegments_last_read:
  "parseSegments fuel p = Ok (segs, q) \<Longrightarrow> last segs = Literal l \<Longrightarrow> \<exists>pre. p = pre @ l @ q"
proof (induction fuel arbitrary: p segs)
  case (Suc fuel)
  from Suc.prems obtain s q1 where s: "parseSegment fuel p = Ok (s, q1)" by (auto simp: bind_res_Ok_iff)
  show ?case
  proof (cases "consume (CHR ''/'') q1")
    case (Ok q2)
    with Suc.prems s obtain ss where ss: "parseSegments fuel q2 = Ok (ss, q)" "segs = s # ss"
      by (auto simp: bind_res_Ok_iff split: if_splits)
    then have "last ss = Literal l" using Suc.prems(2) parseSegments_shorter(1) [OF ss(1)] by simp
    with Suc.IH ss obtain pre where "q2 = pre @ l @ q" by blast
    moreover obtain pre' where "p = pre' @ q1" using parseSegments_suffix(2) [OF s] by blast
    ultimately show ?thesis using Ok by (auto simp: consume_Ok)
  qed (use Suc.prems s parseSegment_literal_read in \<open>fastforce simp: bind_res_Ok_iff\<close>)+
qed simp

lemma literal_cut:
  assumes "lit_ok s" "hd s \<noteq> CHR ''*''" "LastIndexByte s (CHR '':'') = Some i" "0 < i"
  shows "seg_wf (Literal (take i s))" "drop (i + 1) s = [] \<or> lit_ok (drop (i + 1) s)"
    "CHR '':'' \<notin> set (drop (i + 1) s)"
proof -
  note s = LastIndexByte_Some [OF assms(3)]
  from assms(1) s(2) have "parseLiteral_loop (take i s @ CHR '':'' # drop (i + 1) s) =
      (take i s @ CHR '':'' # drop (i + 1) s, [])" by (simp add: lit_ok_def)
  from parseLiteral_loop_cut [OF this]
  show "drop (i + 1) s = [] \<or> lit_ok (drop (i + 1) s)" and "seg_wf (Literal (take i s))"
    using assms(1,2,4) by (auto simp: lit_ok_def hd_take)
  show "CHR '':'' \<notin> set (drop (i + 1) s)" by (rule s(3))
qed

lemma splitVerb_sound:
  assumes "splitVerb segs p = Ok (segs', v, q)" "segs \<noteq> []" "list_all seg_wf segs"
    and "\<And>l. last segs = Literal l \<Longrightarrow> last l \<noteq> CHR '':''"
  shows "segs' \<noteq> [] \<and> list_all seg_wf segs' \<and> (v = [] \<or> lit_ok v)
    \<and> (case last segs' of Literal l \<Rightarrow> if v = [] then CHR '':'' \<notin> set (tl l) else CHR '':'' \<notin> set v
       | _ \<Rightarrow> True)"
proof (cases "last segs")
  case (Literal s)
  have "seg_wf (Literal s)" using assms(2,3) Literal last_in_set by (fastforce simp: list_all_iff)
  then have s: "lit_ok s" "hd s \<noteq> CHR ''*''" by auto
  have b: "list_all seg_wf (butlast segs)" using assms(3) by (auto simp: list_all_iff dest: in_set_butlastD)
  consider (cut) i where "LastIndexByte s (CHR '':'') = Some i" "0 < i"
    | (keep) "CHR '':'' \<notin> set (tl s)" "segs' = segs" "v = []"
  proof (cases "LastIndexByte s (CHR '':'')")
    case None
    then have "CHR '':'' \<notin> set (tl s)" by (cases s) (auto simp: LastIndexByte_None)
    with None assms(1) Literal keep show ?thesis by (auto simp: splitVerb_def)
  next
    case (Some i)
    show ?thesis
    proof (cases "0 < i")
      case False
      then have "CHR '':'' \<notin> set (tl s)"
        using LastIndexByte_Some(3) [OF Some] by (simp add: drop_Suc)
      with Some False assms(1) Literal keep show ?thesis by (auto simp: splitVerb_def)
    qed (use Some cut in blast)
  qed
  then show ?thesis
  proof cases
    case cut
    have "last s \<noteq> CHR '':''" using assms(4) Literal by simp
    then have "drop (i + 1) s \<noteq> []"
      using LastIndexByte_Some(2) [OF cut(1)] by (metis last_snoc)
    moreover have "segs' = butlast segs @ [Literal (take i s)]" "v = drop (i + 1) s"
      using assms(1) Literal cut by (auto simp: splitVerb_def)
    ultimately show ?thesis using literal_cut [OF s cut] b by auto
  next
    case keep
    with assms(2,3) Literal show ?thesis by auto
  qed
qed (use assms(1-3) parseLiteral_sound in \<open>auto simp: splitVerb_def parseVerb_def bind_res_Ok_iff
       split: res.splits\<close>)

lemma Parse_wf:
  assumes "Parse s = Ok tpl" "last s \<noteq> CHR '':''"
  shows "template_wf tpl"
proof -
  from assms(1) obtain p1 segs p2 where p: "s = CHR ''/'' # p1"
    "parseSegments (parse_fuel p1) p1 = Ok (segs, p2)" "segs \<noteq> []"
    and v: "splitVerb segs p2 = Ok (segments tpl, verb tpl, [])" "validate tpl = Ok ()"
    by (auto simp: Parse_def parse_def bind_res_Ok_iff consume_Ok Let_def split: if_splits)
  have lst: "last l \<noteq> CHR '':''" if lit: "last segs = Literal l" for l
  proof -
    obtain pre where pre: "p1 = pre @ l @ p2" using parseSegments_last_read [OF p(2) lit] by blast
    have "p2 = []" using v(1) lit by (auto simp: splitVerb_def split: option.splits if_splits)
    moreover have "seg_wf (Literal l)"
      using lit p parseSegments_sound(1) [OF p(2)] last_in_set by (fastforce simp: list_all_iff)
    then have "l \<noteq> []" by (simp add: lit_ok_def)
    ultimately show ?thesis using pre p(1) assms(2) by simp
  qed
  from splitVerb_sound [OF v(1) p(3) parseSegments_sound(1) [OF p(2)] lst] v(2)
  show ?thesis by (simp add: template_wf_def)
qed

lemma splitVerb_rest_ascii:
  assumes "splitVerb segs p = Ok (segs', v, [])" "\<nexists>l. last segs = Literal l"
  shows "ascii p"
proof (cases "consume (CHR '':'') p")
  case (Ok p')
  with assms obtain v' where "parseLiteral p' = Ok (v', [])"
    by (cases "last segs") (auto simp: splitVerb_def parseVerb_def bind_res_Ok_iff)
  then have "p' = v'" "ascii v'" using parseLiteral_Ok lit_ok_ascii parseLiteral_sound by fastforce+
  with Ok show ?thesis by (simp add: consume_Ok)
qed (use assms in \<open>cases "last segs"; auto simp: splitVerb_def\<close>)+

lemma Parse_ascii:
  assumes "Parse s = Ok tpl"
  shows "ascii s"
proof -
  from assms obtain p1 segs p2 where p: "s = CHR ''/'' # p1"
    "parseSegments (parse_fuel p1) p1 = Ok (segs, p2)" "segs \<noteq> []"
    and v: "splitVerb segs p2 = Ok (segments tpl, verb tpl, [])"
    by (auto simp: Parse_def parse_def bind_res_Ok_iff consume_Ok Let_def split: if_splits)
  obtain pre where pre: "p1 = pre @ p2" "ascii pre" using parseSegments_suffix(1) [OF p(2)] by blast
  have "ascii p2"
  proof (cases "\<exists>l. last segs = Literal l")
    case True
    with v show ?thesis by (auto simp: splitVerb_def split: option.splits if_splits)
  qed (rule splitVerb_rest_ascii [OF v])
  with p(1) pre show ?thesis by simp
qed

subsection \<open>Properties\<close>

text \<open>C25: parsing is total. On every byte string \<open>Parse\<close> returns a template or one of the parser's
  errors: the recursion terminates (the fuel is never exhausted) and no index is out of range.\<close>

theorem Parse_total: "Parse s \<noteq> Err errOutOfFuel \<and> Parse s \<noteq> Panic"
  by (rule parse_total)



end
