(* ===== verification/Http_Match.thy ===== *)
theory Http_Match
  imports Http_Rule_Proofs Go_Stack
begin

text \<open>
  Matching a URL path against a template (\<open>internal/httprule/match.go\<close>). The matcher walks over
  the path components; every segment other than a variable pushes what it matched onto the stack
  of \<open>internal/stack\<close>, and a variable pops the values of its nested segments and captures their
  concatenation. \<open>Match_decl\<close> characterises the result without positions and stack: the template
  matches iff the path components can be distributed over its segments.
\<close>

subsection \<open>match.go\<close>

datatype match_error = errNotMatch | errVerbMismatched

record matcher =
  components :: "string list"
  pos :: nat
  captured :: "string \<rightharpoonup> string"
  st :: "string Stack"

text \<open>A matcher as the pool hands it out: new, or put back. The map and the stack are made or
  fetched anew by every \<open>Match\<close>.\<close>

definition putBackMatcher :: "matcher \<Rightarrow> matcher" where
  "putBackMatcher m = m\<lparr>components := [], pos := 0, captured := Map.empty, st := st_Reset (st m)\<rparr>"

text \<open>The loop of \<open>deepWildcard.handle\<close> writes a slash before every component; \<open>[1:]\<close> then drops
  the first one.\<close>

fun deep_sb :: "string list \<Rightarrow> string" where
  "deep_sb [] = []"
| "deep_sb (c # cs) = ''/'' @ c @ deep_sb cs"

text \<open>Popping into \<open>concat[i]\<close> for \<open>i\<close> from the last index down.\<close>

fun pop_concat :: "nat \<Rightarrow> string Stack \<Rightarrow> string list \<Rightarrow> (match_error, string Stack \<times> string list) res" where
  "pop_concat 0 stk acc = Ok (stk, acc)"
| "pop_concat (Suc i) stk acc =
     bind_res (st_Pop stk) (\<lambda>(stk', x).
       case x of None \<Rightarrow> Err errNotMatch | Some s \<Rightarrow> pop_concat i stk' (s # acc))"

fun handle :: "segment \<Rightarrow> matcher \<Rightarrow> (match_error, matcher) res"
and handle_all :: "segment list \<Rightarrow> matcher \<Rightarrow> (match_error, matcher) res" where
  "handle Wildcard m =
     (if pos m \<ge> length (components m) then Err errNotMatch
      else Ok (m\<lparr>st := st_Push (st m) (components m ! pos m), pos := pos m + 1\<rparr>))"
| "handle DeepWildcard m =
     (if pos m > length (components m) then Err errNotMatch
      else if pos m = length (components m) then Ok (m\<lparr>st := st_Push (st m) []\<rparr>)
      else Ok (m\<lparr>pos := length (components m),
                 st := st_Push (st m) (drop 1 (deep_sb (drop (pos m) (components m))))\<rparr>))"
| "handle (Literal l) m =
     (if pos m \<ge> length (components m) then Err errNotMatch
      else if components m ! pos m \<noteq> l then Err errNotMatch
      else Ok (m\<lparr>st := st_Push (st m) (components m ! pos m), pos := pos m + 1\<rparr>))"
| "handle (Variable fp segs) m =
     bind_res (handle_all segs m) (\<lambda>m1.
     bind_res (pop_concat (length segs) (st m1) []) (\<lambda>(stk, concat).
     Ok (m1\<lparr>st := stk, captured := (captured m1)(Join fp ''.'' \<mapsto> Join concat ''/'')\<rparr>)))"
| "handle_all [] m = Ok m"
| "handle_all (s # ss) m = bind_res (handle s m) (handle_all ss)"

definition verbMatch :: "string \<Rightarrow> string list \<Rightarrow> (match_error, string list) res" where
  "verbMatch v comps =
     (if v = [] then Ok comps
      else if \<not> HasSuffix (last comps) ('':'' @ v) then Err errVerbMismatched
      else let idx = int (length (last comps)) - int (length v) - 1
           in if idx \<le> 0 then Err errVerbMismatched
              else Ok (butlast comps @ [take (nat idx) (last comps)]))"

definition Match :: "PathTemplate \<Rightarrow> string \<Rightarrow> (match_error, string \<rightharpoonup> string) res" where
  "Match tpl urlPath =
     (if \<not> HasPrefix urlPath ''/'' then Err errNotMatch
      else bind_res (verbMatch (verb tpl) (Split (CHR ''/'') (drop 1 urlPath))) (\<lambda>comps.
           let m = \<lparr>components = comps, pos = 0, captured = Map.empty, st = st_New\<rparr>
           in bind_res (handle_all (segments tpl) m) (\<lambda>m'.
              if pos m' \<noteq> length (components m') then Err errNotMatch else Ok (captured m'))))"

subsection \<open>What each segment eats\<close>

fun eat :: "segment \<Rightarrow> string list \<Rightarrow> string list option"
and eat_all :: "segment list \<Rightarrow> string list \<Rightarrow> string list list option" where
  "eat Wildcard cs = (case cs of [] \<Rightarrow> None | c # _ \<Rightarrow> Some [c])"
| "eat DeepWildcard cs = Some cs"
| "eat (Literal l) cs = (case cs of [] \<Rightarrow> None | c # _ \<Rightarrow> if c = l then Some [c] else None)"
| "eat (Variable fp segs) cs = map_option concat (eat_all segs cs)"
| "eat_all [] cs = Some []"
| "eat_all (s # ss) cs =
     Option.bind (eat s cs) (\<lambda>c. map_option ((#) c) (eat_all ss (drop (length c) cs)))"

definition isVar :: "segment \<Rightarrow> bool" where
  "isVar s \<longleftrightarrow> kind s = kindVariable"

definition var_value :: "segment list \<Rightarrow> string list \<Rightarrow> string" where
  "var_value segs cs = Join (if length cs < length segs then cs @ [[]] else cs) ''/''"

fun capture :: "segment \<Rightarrow> string list \<Rightarrow> (string \<rightharpoonup> string) \<Rightarrow> (string \<rightharpoonup> string)" where
  "capture (Variable fp segs) cs caps = caps(Join fp ''.'' \<mapsto> var_value segs cs)"
| "capture _ cs caps = caps"

fun captures :: "segment list \<Rightarrow> string list list \<Rightarrow> (string \<rightharpoonup> string) \<Rightarrow> (string \<rightharpoonup> string)" where
  "captures (s # ss) (cs # css) caps = captures ss css (capture s cs caps)"
| "captures _ _ caps = caps"

lemma isVar_simps [simp]: "\<not> isVar Wildcard" "\<not> isVar DeepWildcard" "\<not> isVar (Literal l)" "isVar (Variable fp ss)"
  by (simp_all add: isVar_def)

lemma deep_sb_Join: "cs \<noteq> [] \<Longrightarrow> drop (Suc 0) (deep_sb cs) = Join cs ''/''"
  by (induction cs rule: induct_list012) auto

lemma eat_prefix:
  "eat s cs = Some c \<Longrightarrow> \<exists>r. cs = c @ r"
  "eat_all ss cs = Some css \<Longrightarrow> \<exists>r. cs = concat css @ r"
proof (induction s cs and ss cs arbitrary: c and css rule: eat_eat_all.induct)
  case (6 s ss cs)
  then obtain c css' where c: "eat s cs = Some c" "eat_all ss (drop (length c) cs) = Some css'" "css = c # css'"
    by (auto simp: bind_eq_Some_conv)
  with "6.IH"(1) obtain r where "cs = c @ r" by blast
  moreover from c "6.IH"(2) obtain r' where "drop (length c) cs = concat css' @ r'" by blast
  ultimately show ?case using c by auto
qed (auto split: list.splits if_splits)

lemma handle_atom:
  assumes "\<not> isVar s" "pos m \<le> length (components m)"
  shows "handle s m = (case eat s (drop (pos m) (components m)) of
      None \<Rightarrow> Err errNotMatch
    | Some c \<Rightarrow> Ok (m\<lparr>st := st_Push (st m) (Join c ''/''), pos := pos m + length c\<rparr>))"
proof (cases s)
  case DeepWildcard
  with assms show ?thesis by (cases m) (auto simp: deep_sb_Join)
qed (use assms in \<open>auto simp: Cons_nth_drop_Suc [symmetric]\<close>)

lemma handle_atoms:
  "\<forall>s \<in> set ss. \<not> isVar s \<Longrightarrow> pos m \<le> length (components m) \<Longrightarrow>
   handle_all ss m = (case eat_all ss (drop (pos m) (components m)) of
      None \<Rightarrow> Err errNotMatch
    | Some css \<Rightarrow> Ok (m\<lparr>st := st.push_all (st m) (map (\<lambda>c. Join c ''/'') css),
                       pos := pos m + length (concat css)\<rparr>))"
proof (induction ss arbitrary: m)
  case (Cons s ss)
  show ?case
  proof (cases "eat s (drop (pos m) (components m))")
    case None
    with Cons show ?thesis by (simp add: handle_atom)
  next
    case (Some c)
    let ?m = "m\<lparr>st := st_Push (st m) (Join c ''/''), pos := pos m + length c\<rparr>"
    have le: "pos ?m \<le> length (components ?m)"
      using eat_prefix(1) [OF Some] Cons.prems(2)
      by simp (metis diff_le_mono2 le_add1 le_add_diff_inverse length_append length_drop add_le_cancel_left)
    have h: "handle s m = Ok ?m" using Cons.prems Some by (simp add: handle_atom)
    show ?thesis
    proof (cases "eat_all ss (drop (length c + pos m) (components m))")
      case None
      with h Some le Cons show ?thesis by (simp add: add.commute)
    next
      case (Some css)
      with h \<open>eat s _ = Some c\<close> le Cons show ?thesis by (simp add: add.commute add.left_commute)
    qed
  qed
qed simp
subsection \<open>Popping what was pushed\<close>

lemma pop_concat_abs:
  "st_inv s \<Longrightarrow> st_abs s = xs @ ys \<Longrightarrow>
     \<exists>s'. pop_concat (length xs) s acc = Ok (s', rev xs @ acc) \<and> st_inv s'"
proof (induction xs arbitrary: s acc)
  case (Cons x xs)
  then obtain s1 where "st_Pop s = (Ok (s1, Some x) :: (match_error, _) res)" "st_inv s1" "st_abs s1 = xs @ ys"
    using st.pop_Cons [of s x "xs @ ys"] by auto
  with Cons.IH [of s1 "x # acc"] show ?case by auto
qed simp

lemma pop_concat_push_all:
  assumes "st_inv s"
  shows "\<exists>s'. pop_concat (length xs) (st.push_all s xs) [] = Ok (s', xs) \<and> st_inv s'"
  using pop_concat_abs [of "st.push_all s xs" "rev xs" "st_abs s" "[]"] st.push_all_spec [OF assms, of xs]
  by simp

lemma length_eat_all: "eat_all ss cs = Some css \<Longrightarrow> length css = length ss"
  by (induction ss arbitrary: cs css) (auto simp: bind_eq_Some_conv)

text \<open>\<open>**\<close> may only stand at the end: that is what \<open>validate\<close> checks.\<close>

fun deep_last :: "segment list \<Rightarrow> bool" where
  "deep_last [] = True"
| "deep_last (s # ss) = ((s = DeepWildcard \<longrightarrow> ss = []) \<and> deep_last ss)"

definition flat :: "segment list \<Rightarrow> bool" where
  "flat ss \<longleftrightarrow> (\<forall>s \<in> set ss. \<not> isVar s) \<and> deep_last ss"

fun simple :: "segment \<Rightarrow> bool" where
  "simple (Variable fp ss) = flat ss"
| "simple s = True"

lemma eat_atom_length: "\<not> isVar s \<Longrightarrow> s \<noteq> DeepWildcard \<Longrightarrow> eat s cs = Some c \<Longrightarrow> \<exists>x. c = [x]"
  by (cases s) (auto split: list.splits if_splits)

lemma eat_flat_Join:
  "flat ss \<Longrightarrow> eat_all ss cs = Some css \<Longrightarrow>
     Join (map (\<lambda>c. Join c ''/'') css) ''/'' = var_value ss (concat css)
     \<and> (length (concat css) < length ss \<longrightarrow> Suc (length (concat css)) = length ss)"
proof (induction ss arbitrary: cs css)
  case (Cons s ss)
  then obtain c css' where c: "eat s cs = Some c" "eat_all ss (drop (length c) cs) = Some css'" "css = c # css'"
    by (auto simp: bind_eq_Some_conv)
  have f: "flat ss" using Cons.prems(1) by (auto simp: flat_def)
  note IH = Cons.IH [OF f c(2)]
  show ?case
  proof (cases "s = DeepWildcard")
    case True
    then have "ss = []" using Cons.prems(1) by (simp add: flat_def)
    with c True show ?thesis by (auto simp: var_value_def)
  next
    case False
    then obtain x where x: "c = [x]"
      using c(1) Cons.prems(1) eat_atom_length [of s cs c] by (auto simp: flat_def)
    show ?thesis
    proof (cases css')
      case Nil
      then have "ss = []" using length_eat_all [OF c(2)] by simp
      with Nil c x show ?thesis by (simp add: var_value_def)
    next
      case (Cons c2 css2)
      then have "ss \<noteq> []" using length_eat_all [OF c(2)] by auto
      then have ne: "(if length (concat css') < length ss then concat css' @ [[]] else concat css') \<noteq> []"
        by (cases "concat css' = []") (auto simp del: concat_eq_Nil_conv)
      then have "var_value (s # ss) (concat css) = x @ ''/'' @ var_value ss (concat css')"
        using c(3) x unfolding var_value_def
        by (cases "if length (concat css') < length ss then concat css' @ [[]] else concat css'")
          (auto split: if_splits)
      with IH c(3) x Cons show ?thesis by auto
    qed
  qed
qed (simp add: var_value_def)

lemma handle_top:
  assumes "simple s" "pos m \<le> length (components m)" "st_inv (st m)"
  shows "case eat s (drop (pos m) (components m)) of
      None \<Rightarrow> handle s m = Err errNotMatch
    | Some c \<Rightarrow> \<exists>stk. st_inv stk \<and>
        handle s m = Ok (m\<lparr>st := stk, pos := pos m + length c, captured := capture s c (captured m)\<rparr>)"
proof (cases "isVar s")
  case False
  then have "capture s c caps = caps" for c caps by (cases s) auto
  with handle_atom [OF False assms(2)] st.push_spec(1) [OF assms(3)] show ?thesis
    by (auto split: option.splits intro!: exI [where x = "st_Push (st m) _"])
next
  case True
  then obtain fp ss where s: "s = Variable fp ss" by (cases s) auto
  then have f: "flat ss" "\<forall>s \<in> set ss. \<not> isVar s" using assms(1) by (auto simp: flat_def)
  note h = handle_atoms [OF f(2) assms(2)]
  show ?thesis
  proof (cases "eat_all ss (drop (pos m) (components m))")
    case None
    with h s show ?thesis by simp
  next
    case (Some css)
    let ?vs = "map (\<lambda>c. Join c ''/'') css"
    obtain stk where "pop_concat (length ?vs) (st.push_all (st m) ?vs) [] = Ok (stk, ?vs)" "st_inv stk"
      using pop_concat_push_all [OF assms(3)] by blast
    with h s Some length_eat_all [OF Some] eat_flat_Join [OF f(1) Some] show ?thesis by auto
  qed
qed

lemma handle_tops:
  "list_all simple ss \<Longrightarrow> pos m \<le> length (components m) \<Longrightarrow> st_inv (st m) \<Longrightarrow>
   case eat_all ss (drop (pos m) (components m)) of
      None \<Rightarrow> handle_all ss m = Err errNotMatch
    | Some css \<Rightarrow> \<exists>stk. st_inv stk \<and> handle_all ss m =
        Ok (m\<lparr>st := stk, pos := pos m + length (concat css), captured := captures ss css (captured m)\<rparr>)"
proof (induction ss arbitrary: m)
  case (Cons s ss)
  show ?case
  proof (cases "eat s (drop (pos m) (components m))")
    case None
    with Cons.prems handle_top [of s m] show ?thesis by simp
  next
    case (Some c)
    from Cons.prems handle_top [of s m] Some obtain stk where stk: "st_inv stk"
      "handle s m = Ok (m\<lparr>st := stk, pos := pos m + length c, captured := capture s c (captured m)\<rparr>)"
      by auto
    let ?m = "m\<lparr>st := stk, pos := pos m + length c, captured := capture s c (captured m)\<rparr>"
    have le: "pos ?m \<le> length (components ?m)"
      using eat_prefix(1) [OF Some] Cons.prems(2)
      by simp (metis diff_le_mono2 le_add1 le_add_diff_inverse length_append length_drop add_le_cancel_left)
    from Cons.IH [of ?m] Cons.prems(1) le stk(1)
    have "case eat_all ss (drop (length c + pos m) (components m)) of
        None \<Rightarrow> handle_all ss ?m = Err errNotMatch
      | Some css \<Rightarrow> \<exists>stk. st_inv stk \<and> handle_all ss ?m =
          Ok (?m\<lparr>st := stk, pos := pos ?m + length (concat css), captured := captures ss css (captured ?m)\<rparr>)"
      by (simp add: add.commute)
    with stk Some show ?thesis
      by (cases "eat_all ss (drop (length c + pos m) (components m))")
        (auto simp: add.commute add.left_commute)
  qed
qed auto

subsection \<open>The declarative reading\<close>

text \<open>Which lists of components a segment stands for.\<close>

fun covers :: "segment \<Rightarrow> string list \<Rightarrow> bool" where
  "covers Wildcard cs = (length cs = 1)"
| "covers DeepWildcard cs = True"
| "covers (Literal l) cs = (cs = [l])"
| "covers (Variable fp ss) cs = (\<exists>css. concat css = cs \<and> list_all2 covers ss css)"

definition fixed :: "segment \<Rightarrow> bool" where
  "fixed s \<longleftrightarrow> (case s of DeepWildcard \<Rightarrow> False | Variable fp ss \<Rightarrow> DeepWildcard \<notin> set ss | _ \<Rightarrow> True)"

lemma eat_atom_covers: "\<not> isVar s \<Longrightarrow> s \<noteq> DeepWildcard \<Longrightarrow> eat s (c @ r) = Some c \<longleftrightarrow> covers s c"
  by (cases s; cases c) (auto split: list.splits)

lemma eat_sound: "eat s cs = Some c \<Longrightarrow> covers s c"
  "eat_all ss cs = Some css \<Longrightarrow> list_all2 covers ss css"
  by (induction s cs and ss cs arbitrary: c and css rule: eat_eat_all.induct)
    (auto simp: bind_eq_Some_conv split: list.splits if_splits)

lemma eat_atoms_covers:
  "(\<forall>s \<in> set ss. \<not> isVar s) \<Longrightarrow> DeepWildcard \<notin> set ss \<Longrightarrow>
     list_all2 covers ss css \<Longrightarrow> eat_all ss (concat css @ r) = Some css"
proof (induction ss arbitrary: css)
  case (Cons s ss)
  then obtain c css' where css: "css = c # css'" "covers s c" "list_all2 covers ss css'"
    by (auto simp: list_all2_Cons1)
  with Cons.prems have "eat s (c @ concat css' @ r) = Some c" by (subst eat_atom_covers) auto
  with Cons css show ?case by simp
qed simp

lemma eat_fixed_covers:
  assumes "fixed s" "simple s" "covers s c"
  shows "eat s (c @ r) = Some c"
proof (cases "isVar s")
  case False
  with assms show ?thesis by (subst eat_atom_covers) (auto simp: fixed_def)
next
  case True
  then obtain fp ss where s: "s = Variable fp ss" by (cases s) auto
  with assms obtain css where "concat css = c" "list_all2 covers ss css" by auto
  with s assms eat_atoms_covers [of ss css r] show ?thesis by (auto simp: flat_def fixed_def)
qed

lemma eat_flat_covers:
  "flat ss \<Longrightarrow> list_all2 covers ss css \<Longrightarrow> eat_all ss (concat css) = Some css"
proof (induction ss arbitrary: css)
  case (Cons s ss)
  then obtain c css' where css: "css = c # css'" "covers s c" "list_all2 covers ss css'"
    by (auto simp: list_all2_Cons1)
  have f: "flat ss" "\<not> isVar s" "s = DeepWildcard \<Longrightarrow> ss = []" using Cons.prems(1) by (auto simp: flat_def)
  show ?case
  proof (cases "s = DeepWildcard")
    case True
    with f css show ?thesis by simp
  next
    case False
    with css f have "eat s (c @ concat css') = Some c" by (subst eat_atom_covers) auto
    with Cons.IH [OF f(1) css(3)] css show ?thesis by simp
  qed
qed simp

lemma eat_last_covers: "simple s \<Longrightarrow> covers s c \<Longrightarrow> eat s c = Some c"
proof (cases s)
  case (Variable fp ss)
  assume "simple s" "covers s c"
  with Variable obtain css where "concat css = c" "list_all2 covers ss css" "flat ss" by auto
  with Variable eat_flat_covers [of ss css] show ?thesis by auto
qed (auto split: list.splits simp: length_Suc_conv)

lemma eat_all_covers:
  "list_all simple ss \<Longrightarrow> list_all fixed (butlast ss) \<Longrightarrow> list_all2 covers ss css \<Longrightarrow>
     eat_all ss (concat css) = Some css"
proof (induction ss arbitrary: css)
  case (Cons s ss)
  then obtain c css' where css: "css = c # css'" "covers s c" "list_all2 covers ss css'"
    by (auto simp: list_all2_Cons1)
  show ?case
  proof (cases "ss = []")
    case True
    with css Cons.prems(1) show ?thesis using eat_last_covers [of s c] by simp
  next
    case False
    with Cons.prems css have "eat s (c @ concat css') = Some c" by (intro eat_fixed_covers) auto
    moreover have "eat_all ss (concat css') = Some css'"
      using Cons css False by (intro Cons.IH) auto
    ultimately show ?thesis using css by simp
  qed
qed simp

lemma validate_nested_flat: "validate_nested l ss = Ok () \<Longrightarrow> flat ss \<and> (\<not> l \<longrightarrow> DeepWildcard \<notin> set ss)"
proof (induction l ss rule: validate_nested.induct)
  case (2 l s ss)
  then show ?case by (cases s) (auto simp: flat_def isVar_def split: if_splits)
qed (simp add: flat_def)

lemma fixed_simps: "fixed Wildcard" "fixed (Literal l)" "\<not> fixed DeepWildcard"
  by (simp_all add: fixed_def)

lemma validate_shape:
  "validate_loop seen ss = Ok () \<Longrightarrow> list_all simple ss \<and> list_all fixed (butlast ss)"
proof (induction ss arbitrary: seen)
  case (Cons s ss)
  then have IH: "list_all simple ss \<and> list_all fixed (butlast ss)"
    by (auto simp: Let_def bind_res_Ok_iff split: if_splits)
  show ?case
  proof (cases s)
    case (Variable fp ns)
    with Cons.prems have "validate_nested (ss = []) ns = Ok ()"
      by (auto simp: Let_def bind_res_Ok_iff split: if_splits)
    then have "simple s \<and> (ss \<noteq> [] \<longrightarrow> fixed s)"
      using validate_nested_flat Variable by (auto simp: fixed_def)
    with IH show ?thesis by auto
  qed (use Cons.prems IH in \<open>auto simp: fixed_simps Let_def split: if_splits\<close>)
qed simp

subsection \<open>Verbs\<close>

lemma literal_no_slash: "parseLiteral_loop l = (l, []) \<Longrightarrow> CHR ''/'' \<notin> set l"
proof (induction l rule: length_induct)
  case (1 l)
  show ?case
  proof (cases l)
    case (Cons c p)
    show ?thesis
    proof (cases "isPchar c")
      case True
      with 1 Cons show ?thesis by (auto simp: whole_pchar)
    next
      case False
      with "1.prems" Cons obtain d e p' where "p = d # e # p'" "isHexDigit d" "isHexDigit e"
        "c = CHR ''%''" "parseLiteral_loop p' = (p', [])" using whole_not_pchar by metis
      moreover have "\<not> isHexDigit (CHR ''/'')" by (simp add: isHexDigit_def)
      ultimately show ?thesis using "1.IH" Cons by auto
    qed
  qed simp
qed

lemma Parse_facts:
  assumes "Parse s = Ok tpl"
  shows "validate tpl = Ok ()" "CHR ''/'' \<notin> set (verb tpl)"
proof -
  from assms obtain p1 segs p2 where p: "s = CHR ''/'' # p1"
    "parseSegments (parse_fuel p1) p1 = Ok (segs, p2)" "segs \<noteq> []"
    and v: "splitVerb segs p2 = Ok (segments tpl, verb tpl, [])" and val: "validate tpl = Ok ()"
    by (auto simp: Parse_def parse_def bind_res_Ok_iff consume_Ok Let_def split: if_splits)
  show "validate tpl = Ok ()" by (rule val)
  show "CHR ''/'' \<notin> set (verb tpl)"
  proof (cases "last segs")
    case (Literal l)
    then have "seg_wf (Literal l)"
      using parseSegments_sound(1) [OF p(2)] p(3) last_in_set by (fastforce simp: list_all_iff)
    then have "CHR ''/'' \<notin> set l" using literal_no_slash by (simp add: lit_ok_def)
    moreover have "verb tpl = [] \<or> (\<exists>i. verb tpl = drop i l)"
      using v Literal by (auto simp: splitVerb_def split: option.splits if_splits) (metis)+
    ultimately show ?thesis by (auto dest: in_set_dropD)
  qed (use v literal_no_slash parseLiteral_sound in
      \<open>auto simp: splitVerb_def parseVerb_def bind_res_Ok_iff lit_ok_def split: res.splits\<close>)
qed

definition verb_suffix :: "PathTemplate \<Rightarrow> string" where
  "verb_suffix tpl = (if verb tpl = [] then [] else '':'' @ verb tpl)"

lemma verbMatch_Ok:
  assumes "v \<noteq> []" "comps \<noteq> []"
  shows "verbMatch v comps = Ok comps' \<longleftrightarrow>
    (\<exists>x. x \<noteq> [] \<and> last comps = x @ '':'' @ v \<and> comps' = butlast comps @ [x])"
proof
  assume h: "verbMatch v comps = Ok comps'"
  let ?l = "last comps" and ?i = "length (last comps) - length ('':'' @ v)"
  from h assms(1) have "HasSuffix ?l ('':'' @ v)" and i: "0 < int (length ?l) - int (length v) - 1"
    and c: "comps' = butlast comps @ [take (nat (int (length ?l) - int (length v) - 1)) ?l]"
    by (auto simp: verbMatch_def Let_def split: if_splits)
  then have "?l = take ?i ?l @ '':'' @ v" by (metis HasSuffix_def append_take_drop_id)
  moreover have "nat (int (length ?l) - int (length v) - 1) = ?i" by simp
  ultimately show "\<exists>x. x \<noteq> [] \<and> ?l = x @ '':'' @ v \<and> comps' = butlast comps @ [x]"
    using i c by (intro exI [of _ "take ?i ?l"]) auto
next
  assume "\<exists>x. x \<noteq> [] \<and> last comps = x @ '':'' @ v \<and> comps' = butlast comps @ [x]"
  then obtain x where x: "x \<noteq> []" "last comps = x @ CHR '':'' # v" "comps' = butlast comps @ [x]" by auto
  then have "int (length (last comps)) - int (length v) - 1 = int (length x)" by simp
  with x assms(1) show "verbMatch v comps = Ok comps'"
    by (simp add: verbMatch_def HasSuffix_def Let_def)
qed

lemma Join_suffix: "xs \<noteq> [] \<Longrightarrow> Join xs sep @ t = Join (butlast xs @ [last xs @ t]) sep"
  by (cases "butlast xs = []"; subst (1) append_butlast_last_id [symmetric, of xs])
    (auto simp: Join_append simp del: append_butlast_last_id)

lemma components_of_url:
  assumes "CHR ''/'' \<notin> set (verb tpl)"
  shows "HasPrefix url ''/'' \<and> verbMatch (verb tpl) (Split (CHR ''/'') (drop 1 url)) = Ok comps \<longleftrightarrow>
    comps \<noteq> [] \<and> (\<forall>c \<in> set comps. CHR ''/'' \<notin> set c) \<and> (verb tpl \<noteq> [] \<longrightarrow> last comps \<noteq> [])
    \<and> url = ''/'' @ Join comps ''/'' @ verb_suffix tpl"
  (is "?L \<longleftrightarrow> ?R")
proof
  assume L: ?L
  then obtain u where u: "url = CHR ''/'' # u" by (cases url) (auto simp: HasPrefix_def)
  show ?R
  proof (cases "verb tpl = []")
    case True
    with L u show ?thesis by (auto simp: verbMatch_def verb_suffix_def dest: Split_no_sep)
  next
    case False
    with L u obtain x where x: "x \<noteq> []" "last (Split (CHR ''/'') u) = x @ '':'' @ verb tpl"
      "comps = butlast (Split (CHR ''/'') u) @ [x]" by (auto simp: verbMatch_Ok)
    have "CHR ''/'' \<notin> set c" if "c \<in> set comps" for c
    proof -
      from that x(3) consider "c \<in> set (butlast (Split (CHR ''/'') u))" | "c = x" by auto
      then show ?thesis
      proof cases
        case 2
        have "CHR ''/'' \<notin> set (last (Split (CHR ''/'') u))" using Split_no_sep [of "last (Split (CHR ''/'') u)" "CHR ''/''" u] by simp
        with x(2) 2 show ?thesis by simp
      qed (auto dest: in_set_butlastD Split_no_sep)
    qed
    moreover have "Join comps ''/'' @ verb_suffix tpl = u"
      using x False Join_suffix [of comps "''/''" "verb_suffix tpl"]
      by (simp add: verb_suffix_def) (metis Join_Split Split_not_Nil append_butlast_last_id)
    ultimately show ?thesis using x u by auto
  qed
next
  assume R: ?R
  let ?c = "butlast comps @ [last comps @ verb_suffix tpl]"
  have "Split (CHR ''/'') (Join ?c ''/'') = ?c"
    using R assms by (intro Split_Join) (auto simp: verb_suffix_def dest: in_set_butlastD)
  moreover have "Join comps ''/'' @ verb_suffix tpl = Join ?c ''/''"
    using R by (intro Join_suffix) simp
  ultimately have "Split (CHR ''/'') (drop 1 url) = ?c" "HasPrefix url ''/''"
    using R by (auto simp: HasPrefix_def)
  with R show ?L
    by (cases "verb tpl = []") (auto simp: verb_suffix_def verbMatch_Ok, simp add: verbMatch_def)
qed

subsection \<open>Properties\<close>

lemma Match_run:
  assumes "validate tpl = Ok ()"
  shows "Match tpl url = Ok caps \<longleftrightarrow> HasPrefix url ''/'' \<and>
    (\<exists>comps css. verbMatch (verb tpl) (Split (CHR ''/'') (drop 1 url)) = Ok comps
       \<and> eat_all (segments tpl) comps = Some css \<and> concat css = comps
       \<and> caps = captures (segments tpl) css Map.empty)"
proof -
  have run: "bind_res (handle_all (segments tpl) \<lparr>components = comps, pos = 0, captured = Map.empty, st = st_New\<rparr>)
      (\<lambda>m'. if pos m' \<noteq> length (components m') then Err errNotMatch else Ok (captured m')) = Ok caps
    \<longleftrightarrow> (\<exists>css. eat_all (segments tpl) comps = Some css \<and> concat css = comps
           \<and> caps = captures (segments tpl) css Map.empty)" for comps
  proof -
    let ?m = "\<lparr>components = comps, pos = 0, captured = Map.empty, st = st_New\<rparr>"
    have "list_all simple (segments tpl)" using assms validate_shape by (simp add: validate_def)
    from handle_tops [OF this, of ?m]
    have h: "case eat_all (segments tpl) comps of
        None \<Rightarrow> handle_all (segments tpl) ?m = Err errNotMatch
      | Some css \<Rightarrow> \<exists>stk. st_inv stk \<and> handle_all (segments tpl) ?m =
          Ok (?m\<lparr>st := stk, pos := length (concat css), captured := captures (segments tpl) css Map.empty\<rparr>)"
      by (cases "eat_all (segments tpl) comps") (simp_all add: st.new_spec)
    have full: "length (concat css) = length comps \<longleftrightarrow> concat css = comps"
      if "eat_all (segments tpl) comps = Some css" for css
      using eat_prefix(2) [OF that] by auto
    show ?thesis
    proof (cases "eat_all (segments tpl) comps")
      case (Some css)
      with h obtain stk where "handle_all (segments tpl) ?m =
          Ok \<lparr>components = comps, pos = length (concat css), captured = captures (segments tpl) css Map.empty, st = stk\<rparr>"
        by auto
      with Some full show ?thesis by auto
    qed (use h in simp)
  qed
  show ?thesis
    unfolding Match_def Let_def bind_res_Ok_iff [of "verbMatch _ _"] run
    by (cases "HasPrefix url ''/''") (simp_all add: bind_res_Ok_iff [of "verbMatch _ _"] run)
qed

lemma Match_not_panic:
  assumes "validate tpl = Ok ()"
  shows "Match tpl url \<noteq> Panic"
proof -
  have "handle_all (segments tpl) \<lparr>components = comps, pos = 0, captured = Map.empty, st = st_New\<rparr> \<noteq> Panic" for comps
  proof -
    let ?m = "\<lparr>components = comps, pos = 0, captured = Map.empty, st = st_New\<rparr>"
    have "list_all simple (segments tpl)" using assms validate_shape by (simp add: validate_def)
    from handle_tops [OF this, of ?m] show ?thesis
      by (cases "eat_all (segments tpl) comps") (auto simp: st.new_spec)
  qed
  then show ?thesis
    by (auto simp: Match_def bind_res_Panic_iff Let_def verbMatch_def)
qed

text \<open>C10: matching is exactly the declarative reading of the template. For a parsed template,
  \<open>Match\<close> succeeds iff the URL is a slash followed by components that can be distributed over the
  template's segments (\<open>*\<close> one component, \<open>**\<close> any number, a literal itself, a variable what its
  nested segments cover) and by the verb, if the template has one; and then the captured values
  are those of the variables under that distribution.\<close>

theorem Match_decl:
  assumes "Parse s = Ok tpl"
  shows "Match tpl url = Ok caps \<longleftrightarrow>
    (\<exists>comps css. comps \<noteq> [] \<and> (\<forall>c \<in> set comps. CHR ''/'' \<notin> set c)
       \<and> (verb tpl \<noteq> [] \<longrightarrow> last comps \<noteq> [])
       \<and> url = ''/'' @ Join comps ''/'' @ verb_suffix tpl
       \<and> concat css = comps \<and> list_all2 covers (segments tpl) css
       \<and> caps = captures (segments tpl) css Map.empty)"
proof -
  have shape: "list_all simple (segments tpl)" "list_all fixed (butlast (segments tpl))"
    using Parse_facts(1) [OF assms] validate_shape by (auto simp: validate_def)
  have "eat_all (segments tpl) (concat css) = Some css \<longleftrightarrow> list_all2 covers (segments tpl) css" for css
    using eat_all_covers [OF shape] eat_sound(2) by blast
  then show ?thesis
    unfolding Match_run [OF Parse_facts(1) [OF assms]]
    using components_of_url [OF Parse_facts(2) [OF assms], of url] by blast
qed

theorem Match_decl_witness:
  "\<exists>caps. Match \<lparr>segments = [Literal ''v1'', Variable [''n''] [Literal ''a'', DeepWildcard]], verb = ''go''\<rparr>
      ''/v1/a/b/c:go'' = Ok caps \<and> caps ''n'' = Some ''a/b/c''"
proof -
  let ?t = "\<lparr>segments = [Literal ''v1'', Variable [''n''] [Literal ''a'', DeepWildcard]], verb = ''go''\<rparr>"
  have p: "Parse ''/v1/{n=a/**}:go'' = Ok ?t" by code_simp
  have "list_all2 covers (segments ?t) [[''v1''], [''a'', ''b'', ''c'']]"
    by (simp, rule exI [of _ "[[''a''], [''b'', ''c'']]"], simp)
  then have "Match ?t ''/v1/a/b/c:go'' = Ok (captures (segments ?t) [[''v1''], [''a'', ''b'', ''c'']] Map.empty)"
    unfolding Match_decl [OF p]
    by (intro exI [of _ "[''v1'', ''a'', ''b'', ''c'']"] exI [of _ "[[''v1''], [''a'', ''b'', ''c'']]"])
      (simp add: verb_suffix_def)
  then show ?thesis by (simp add: var_value_def)
qed

end
