(* ===== verification/Keyed_Table.thy ===== *)
theory Keyed_Table
  imports Go_Prelude
begin

text \<open>
  The contract of a table that components are registered in and looked up from: \<open>put\<close> may fail or
  panic outside its domain, keys are identified up to \<open>norm\<close>, and a lookup after an update sees
  the new value at the updated key and the old values elsewhere. The route tree of the RESTful
  router and the tables of open streams are instances. The lemmas proved here once concern sequences of
  registrations: the table then holds, for every key, the value registered last.
\<close>

locale keyed_table =
  fixes inv :: "'s \<Rightarrow> bool"
    and valid :: "'k \<Rightarrow> bool"
    and norm :: "'k \<Rightarrow> 'q"
    and get :: "'k \<Rightarrow> 's \<Rightarrow> 'v option"
    and put :: "'k \<Rightarrow> 'v \<Rightarrow> 's \<Rightarrow> ('e, 's) res"
  assumes put_get: "inv s \<Longrightarrow> valid k \<Longrightarrow>
    \<exists>s'. put k v s = Ok s' \<and> inv s' \<and> (\<forall>k'. get k' s' = (if norm k' = norm k then Some v else get k' s))"
begin

fun put_all :: "('k \<times> 'v) list \<Rightarrow> 's \<Rightarrow> ('e, 's) res" where
  "put_all [] s = Ok s"
| "put_all ((k, v) # kvs) s = bind_res (put k v s) (put_all kvs)"



lemma put_all_snoc: "put_all (a @ [(k, v)]) s = bind_res (put_all a s) (put k v)"
proof (induction a arbitrary: s)
  case Nil
  then show ?case by (cases "put k v s") auto
next
  case (Cons kv a)
  then show ?case by (cases kv; cases "put (fst kv) (snd kv) s") auto
qed

lemma put_all_get:
  assumes "inv s" "\<forall>(k, v) \<in> set kvs. valid k"
  shows "\<exists>s'. put_all kvs s = Ok s' \<and> inv s' \<and>
    (\<forall>k. get k s' = (case map_of (rev (map (\<lambda>(k, v). (norm k, v)) kvs)) (norm k) of
                        Some v \<Rightarrow> Some v | None \<Rightarrow> get k s))"
  using assms
proof (induction kvs arbitrary: s)
  case (Cons kv kvs)
  obtain k v where kv: "kv = (k, v)" by (cases kv)
  with Cons.prems obtain s1 where s1: "put k v s = Ok s1" "inv s1"
    "\<And>k'. get k' s1 = (if norm k' = norm k then Some v else get k' s)"
    using put_get [of s k v] by auto
  with Cons.IH [of s1] Cons.prems kv obtain s' where s': "put_all kvs s1 = Ok s'" "inv s'"
    "\<And>k. get k s' = (case map_of (rev (map (\<lambda>(k, v). (norm k, v)) kvs)) (norm k) of
                        Some v \<Rightarrow> Some v | None \<Rightarrow> get k s1)" by auto
  then show ?case using s1 kv
    by (auto simp: map_add_def split: option.splits)
qed simp

text \<open>Every value in the table was registered, or was there before.\<close>

lemma put_all_values:
  assumes "inv s" "\<forall>(k, v) \<in> set kvs. valid k" "put_all kvs s = Ok s'" "get k s' = Some v"
  shows "v \<in> snd ` set kvs \<or> get k s = Some v"
proof -
  from put_all_get [OF assms(1,2)] assms(3,4)
  have "(case map_of (rev (map (\<lambda>(k, v). (norm k, v)) kvs)) (norm k) of
           Some v \<Rightarrow> Some v | None \<Rightarrow> get k s) = Some v" by auto
  then show ?thesis
    by (auto split: option.splits dest!: map_of_SomeD) (metis image_eqI snd_conv)
qed

text \<open>The registration that is last for its key is the one found.\<close>

lemma put_all_last:
  assumes "inv s" "\<forall>(k, v) \<in> set (a @ (k0, v0) # b). valid k"
    and "\<forall>(k, v) \<in> set b. norm k \<noteq> norm k0"
  shows "\<exists>s'. put_all (a @ (k0, v0) # b) s = Ok s' \<and> inv s' \<and> get k0 s' = Some v0"
proof -
  have "map_of (rev (map (\<lambda>(k, v). (norm k, v)) b)) (norm k0) = None"
    using assms(3) by (fastforce simp: map_of_eq_None_iff)
  with put_all_get [OF assms(1,2)] show ?thesis by (auto simp: map_add_def)
qed

end

end
