(* ===== verification/Router_Trie.thy ===== *)
theory Router_Trie
  imports Http_Match Keyed_Table
begin

text \<open>
  The route table of the RESTful router: \<open>restful/router_trie.go\<close> (a prefix tree per HTTP method),
  \<open>restful/pattern.go\<close> and the registration and routing half of \<open>restful/router.go\<close>
  (\<open>AddImplBinding\<close>, \<open>newTranscoder\<close>, \<open>findTranscoder\<close>, \<open>matchesRESTfulRoute\<close>).

  A tree node owns its children, so the pointer structure is a datatype and the in-place updates
  of \<open>insert\<close> rebuild the path to the changed node. The double array trie that \<open>newTranscoder\<close>
  builds (\<open>internal/dat\<close>) only decides whether registration fails; it is the argument
  \<open>datBuild\<close>. The back pointer from a transcoder to its router is left out.
\<close>

subsection \<open>pattern.go\<close>

record Pattern =
  pathTemplate :: PathTemplate
  rawURLPath :: string

definition RawURLPath :: "Pattern option \<Rightarrow> string" where
  "RawURLPath p = (case p of None \<Rightarrow> [] | Some p \<Rightarrow> rawURLPath p)"

definition pat_Parse :: "string \<Rightarrow> (rule_error, Pattern) res" where
  "pat_Parse urlPath =
     bind_res (Parse urlPath) (\<lambda>tpl. Ok \<lparr>pathTemplate = tpl, rawURLPath = urlPath\<rparr>)"

definition Enforce :: "string \<Rightarrow> (rule_error, Pattern) res" where
  "Enforce urlPath = (case pat_Parse urlPath of Ok p \<Rightarrow> Ok p | _ \<Rightarrow> Panic)"

subsection \<open>Splitting a pattern into trie segments\<close>

datatype segmentType = segmentTypeStatic | segmentTypeParam | segmentTypeWildcard

record pathSegment =
  seg_typ :: segmentType
  seg_val :: string

fun splitPatternParts_loop :: "int \<Rightarrow> string \<Rightarrow> string \<Rightarrow> string list" where
  "splitPatternParts_loop depth cur [] = (if cur \<noteq> [] then [cur] else [])"
| "splitPatternParts_loop depth cur (c # p) =
     (if c = CHR ''{'' then splitPatternParts_loop (depth + 1) (cur @ [c]) p
      else if c = CHR ''}'' then splitPatternParts_loop (depth - 1) (cur @ [c]) p
      else if c = CHR ''/'' then
        (if depth = 0 then
           (if cur \<noteq> [] then cur # splitPatternParts_loop depth [] p else splitPatternParts_loop depth cur p)
         else splitPatternParts_loop depth (cur @ [c]) p)
      else splitPatternParts_loop depth (cur @ [c]) p)"

definition splitPatternParts :: "string \<Rightarrow> string list" where
  "splitPatternParts pattern = splitPatternParts_loop 0 [] pattern"

definition prefixSegments :: "string \<Rightarrow> pathSegment list" where
  "prefixSegments prefixPattern =
     map (\<lambda>p. \<lparr>seg_typ = (if p = ''**'' \<or> p = ''*'' then segmentTypeWildcard else segmentTypeStatic), seg_val = p\<rparr>)
       (filter (\<lambda>p. p \<noteq> []) (Split (CHR ''/'') prefixPattern))"

text \<open>The slice \<open>part[1 : len(part)-1]\<close> is in range: one byte cannot be both braces.\<close>

definition partSegments :: "string \<Rightarrow> pathSegment list" where
  "partSegments part =
     (if part = [] then []
      else if part = ''**'' \<or> part = ''*'' then [\<lparr>seg_typ = segmentTypeWildcard, seg_val = part\<rparr>]
      else if HasPrefix part ''{'' \<and> HasSuffix part ''}'' then
        (let paramContent = slice 1 (length part - 1) part in
         if paramContent = [] then []
         else (case IndexByte paramContent (CHR ''='') of
             None \<Rightarrow> [\<lparr>seg_typ = segmentTypeParam, seg_val = paramContent\<rparr>]
           | Some eqIdx \<Rightarrow>
               if eqIdx > 0 then prefixSegments (drop (eqIdx + 1) paramContent)
               else [\<lparr>seg_typ = segmentTypeParam, seg_val = paramContent\<rparr>]))
      else [\<lparr>seg_typ = segmentTypeStatic, seg_val = part\<rparr>])"

definition parsePattern :: "string \<Rightarrow> pathSegment list" where
  "parsePattern pattern0 =
     (let pattern = TrimPrefix pattern0 ''/'' in
      if pattern = [] then [] else concat (map partSegments (splitPatternParts pattern)))"

subsection \<open>The tree\<close>

datatype 'tr trieNode = TrieNode
  (indices: string) (paths: "string list") (children: "'tr trieNode list")
  (paramChild: "'tr trieNode option") (wildcardChild: "'tr trieNode option")
  (node_transcoder: "'tr option") (isEnd: bool)

definition newTrieNode :: "'tr trieNode" where
  "newTrieNode = TrieNode [] [] [] None None None False"

record 'tr methodTree =
  mt_method :: string
  root :: "'tr trieNode"

text \<open>A Go conversion \<open>string(b)\<close> of a byte gives the UTF-8 encoding of that code point.\<close>

definition string_of_byte :: "char \<Rightarrow> string" where
  "string_of_byte c =
     (if (of_char c :: nat) < 128 then [c]
      else [char_of (192 + (of_char c :: nat) div 64), char_of (128 + (of_char c :: nat) mod 64)])"

fun getChild_loop :: "string \<Rightarrow> string \<Rightarrow> string list \<Rightarrow> nat \<Rightarrow> (unit, nat option) res" where
  "getChild_loop path [] ps i = Ok None"
| "getChild_loop path (c # cs) ps i =
     (if c = hd path then
        (case ps of [] \<Rightarrow> Panic
         | p # ps' \<Rightarrow> if p = path then Ok (Some i) else getChild_loop path cs ps' (i + 1))
      else getChild_loop path cs (tl ps) (i + 1))"

text \<open>The index of the child for \<open>path\<close>, and the child itself.\<close>

definition getChild :: "'tr trieNode \<Rightarrow> string \<Rightarrow> (unit, (nat \<times> 'tr trieNode) option) res" where
  "getChild nd path =
     (if path = [] then Ok None
      else bind_res (getChild_loop path (indices nd) (paths nd) 0) (\<lambda>r.
        case r of None \<Rightarrow> Ok None
        | Some i \<Rightarrow> if i < length (children nd) then Ok (Some (i, children nd ! i)) else Panic))"

text \<open>\<open>addChild\<close>, with the child as the rest of the insertion leaves it.\<close>

definition addChild :: "'tr trieNode \<Rightarrow> string \<Rightarrow> 'tr trieNode \<Rightarrow> (unit, 'tr trieNode) res" where
  "addChild nd path child =
     (if path = [] then Panic
      else Ok (TrieNode (indices nd @ string_of_byte (hd path)) (paths nd @ [path]) (children nd @ [child])
        (paramChild nd) (wildcardChild nd) (node_transcoder nd) (isEnd nd)))"

definition set_child :: "'tr trieNode \<Rightarrow> nat \<Rightarrow> 'tr trieNode \<Rightarrow> 'tr trieNode" where
  "set_child nd i child = TrieNode (indices nd) (paths nd) ((children nd)[i := child])
     (paramChild nd) (wildcardChild nd) (node_transcoder nd) (isEnd nd)"

definition mark_end :: "'tr \<Rightarrow> 'tr trieNode \<Rightarrow> 'tr trieNode" where
  "mark_end tr nd = TrieNode (indices nd) (paths nd) (children nd) (paramChild nd) (wildcardChild nd) (Some tr) True"

definition set_param :: "'tr trieNode \<Rightarrow> 'tr trieNode \<Rightarrow> 'tr trieNode" where
  "set_param nd child = TrieNode (indices nd) (paths nd) (children nd) (Some child) (wildcardChild nd)
     (node_transcoder nd) (isEnd nd)"

definition set_wildcard :: "'tr trieNode \<Rightarrow> 'tr trieNode \<Rightarrow> 'tr trieNode" where
  "set_wildcard nd child = TrieNode (indices nd) (paths nd) (children nd) (paramChild nd) (Some child)
     (node_transcoder nd) (isEnd nd)"

fun insert_loop :: "'tr \<Rightarrow> pathSegment list \<Rightarrow> 'tr trieNode \<Rightarrow> (unit, 'tr trieNode) res" where
  "insert_loop tr [] current = Ok current"
| "insert_loop tr (seg # segs) current =
     (let go = (\<lambda>child. insert_loop tr segs (if segs = [] then mark_end tr child else child)) in
      case seg_typ seg of
        segmentTypeStatic \<Rightarrow>
          bind_res (getChild current (seg_val seg)) (\<lambda>r.
            case r of
              Some (i, child) \<Rightarrow> bind_res (go child) (\<lambda>c. Ok (set_child current i c))
            | None \<Rightarrow> bind_res (go newTrieNode) (\<lambda>c. addChild current (seg_val seg) c))
      | segmentTypeParam \<Rightarrow>
          bind_res (go (case paramChild current of None \<Rightarrow> newTrieNode | Some c \<Rightarrow> c))
            (\<lambda>c. Ok (set_param current c))
      | segmentTypeWildcard \<Rightarrow>
          bind_res (go (case wildcardChild current of None \<Rightarrow> newTrieNode | Some c \<Rightarrow> c))
            (\<lambda>c. Ok (set_wildcard current c)))"

fun dfs :: "'tr trieNode \<Rightarrow> string list \<Rightarrow> (unit, 'tr option) res" where
  "dfs nd [] = Ok (if isEnd nd then node_transcoder nd else None)"
| "dfs nd (s # segs) =
     bind_res (bind_res (getChild nd s) (\<lambda>r.
         case r of None \<Rightarrow> Ok None | Some (i, child) \<Rightarrow> dfs child segs)) (\<lambda>r1.
     case r1 of Some tr \<Rightarrow> Ok (Some tr)
     | None \<Rightarrow> bind_res (case paramChild nd of None \<Rightarrow> Ok None | Some c \<Rightarrow> dfs c segs) (\<lambda>r2.
     case r2 of Some tr \<Rightarrow> Ok (Some tr)
     | None \<Rightarrow> (case wildcardChild nd of None \<Rightarrow> Ok None | Some c \<Rightarrow> dfs c [])))"

type_synonym 'tr RouterTrie = "'tr methodTree list"

definition newRouterTrie :: "'tr RouterTrie" where
  "newRouterTrie = []"

fun getRoot :: "'tr RouterTrie \<Rightarrow> string \<Rightarrow> 'tr trieNode option" where
  "getRoot [] method = None"
| "getRoot (t # ts) method = (if mt_method t = method then Some (root t) else getRoot ts method)"

text \<open>\<open>getOrCreateRoot\<close> followed by the update of the root's subtree.\<close>

fun update_root :: "'tr RouterTrie \<Rightarrow> string \<Rightarrow> ('tr trieNode \<Rightarrow> (unit, 'tr trieNode) res)
    \<Rightarrow> (unit, 'tr RouterTrie) res" where
  "update_root [] method f =
     bind_res (f newTrieNode) (\<lambda>r. Ok [\<lparr>mt_method = method, root = r\<rparr>])"
| "update_root (t # ts) method f =
     (if mt_method t = method then bind_res (f (root t)) (\<lambda>r. Ok (t\<lparr>root := r\<rparr> # ts))
      else bind_res (update_root ts method f) (\<lambda>ts'. Ok (t # ts')))"

definition rt_search :: "'tr RouterTrie \<Rightarrow> string \<Rightarrow> string \<Rightarrow> (unit, 'tr option) res" where
  "rt_search rt method path =
     (case getRoot rt method of
        None \<Rightarrow> Ok None
      | Some r \<Rightarrow>
          (let segs = Split (CHR ''/'') (TrimPrefix path ''/'')
           in dfs r (if length segs = 1 \<and> segs ! 0 = [] then [] else segs)))"
subsection \<open>The tree as a table\<close>

fun node_ok :: "'tr trieNode \<Rightarrow> bool" where
  "node_ok (TrieNode ix ps cs p w t e) \<longleftrightarrow>
     length ps = length cs \<and> ix = map hd ps \<and> distinct ps
     \<and> (\<forall>q \<in> set ps. q \<noteq> [] \<and> (of_char (hd q) :: nat) < 128)
     \<and> (\<forall>c \<in> set cs. node_ok c) \<and> (\<forall>c \<in> set_option p. node_ok c) \<and> (\<forall>c \<in> set_option w. node_ok c)"

fun trie_get :: "pathSegment list \<Rightarrow> 'tr trieNode \<Rightarrow> 'tr option" where
  "trie_get [] nd = (if isEnd nd then node_transcoder nd else None)"
| "trie_get (s # ss) nd =
     (case seg_typ s of
        segmentTypeStatic \<Rightarrow>
          (case getChild nd (seg_val s) of Ok (Some (i, c)) \<Rightarrow> trie_get ss c | _ \<Rightarrow> None)
      | segmentTypeParam \<Rightarrow> (case paramChild nd of None \<Rightarrow> None | Some c \<Rightarrow> trie_get ss c)
      | segmentTypeWildcard \<Rightarrow> (case wildcardChild nd of None \<Rightarrow> None | Some c \<Rightarrow> trie_get ss c))"

text \<open>Two keys lead to the same node when they agree up to the names of parameters and wildcards.\<close>

definition norm_seg :: "pathSegment \<Rightarrow> segmentType \<times> string" where
  "norm_seg s = (seg_typ s, if seg_typ s = segmentTypeStatic then seg_val s else [])"

definition key_ok :: "pathSegment list \<Rightarrow> bool" where
  "key_ok ks \<longleftrightarrow> ks \<noteq> [] \<and>
     (\<forall>s \<in> set ks. seg_typ s = segmentTypeStatic \<longrightarrow> seg_val s \<noteq> [] \<and> ascii (seg_val s))"

lemma node_ok_newTrieNode [simp]: "node_ok newTrieNode"
  by (simp add: newTrieNode_def)

lemma getChild_loop_map_hd:
  "path \<notin> set ps \<Longrightarrow> getChild_loop path (map hd ps) ps k = Ok None"
  "distinct ps \<Longrightarrow> i < length ps \<Longrightarrow> getChild_loop (ps ! i) (map hd ps) ps k = Ok (Some (k + i))"
proof -
  show "path \<notin> set ps \<Longrightarrow> getChild_loop path (map hd ps) ps k = Ok None"
    by (induction ps arbitrary: k) auto
  show "distinct ps \<Longrightarrow> i < length ps \<Longrightarrow> getChild_loop (ps ! i) (map hd ps) ps k = Ok (Some (k + i))"
    by (induction ps arbitrary: k i) (auto simp: nth_Cons' less_Suc_eq_0_disj)
qed

lemma getChild_ok:
  assumes "node_ok nd"
  shows "path \<notin> set (paths nd) \<Longrightarrow> getChild nd path = Ok None"
    and "i < length (paths nd) \<Longrightarrow> getChild nd (paths nd ! i) = Ok (Some (i, children nd ! i))"
proof -
  obtain ix ps cs p w t e where nd: "nd = TrieNode ix ps cs p w t e" by (cases nd)
  have ok: "ix = map hd ps" "distinct ps" "length ps = length cs" "\<forall>q \<in> set ps. q \<noteq> []"
    using assms nd by auto
  show "getChild nd path = Ok None" if "path \<notin> set (paths nd)"
    using that ok nd by (auto simp: getChild_def getChild_loop_map_hd(1))
  show "getChild nd (paths nd ! i) = Ok (Some (i, children nd ! i))" if i: "i < length (paths nd)"
    using i ok nd by (auto simp: getChild_def getChild_loop_map_hd(2))
qed

lemma getChild_cases [consumes 1, case_names None Some]:
  assumes "node_ok nd"
  obtains (None) "path \<notin> set (paths nd)" "getChild nd path = Ok None"
  | (Some) i where "i < length (paths nd)" "i < length (children nd)" "paths nd ! i = path"
      "getChild nd path = Ok (Some (i, children nd ! i))" "node_ok (children nd ! i)"
proof (cases "path \<in> set (paths nd)")
  case True
  then obtain i where i: "i < length (paths nd)" "paths nd ! i = path" by (auto simp: in_set_conv_nth)
  with assms Some getChild_ok(2) [OF assms i(1)] show thesis by (cases nd) auto
qed (use getChild_ok(1) [OF assms] None in blast)

lemma node_ok_updates:
  assumes "node_ok nd" "node_ok c"
  shows "node_ok (set_child nd i c)" "node_ok (set_param nd c)" "node_ok (set_wildcard nd c)"
    "node_ok (mark_end tr nd)"
  using assms by (cases nd; auto simp: set_child_def set_param_def set_wildcard_def mark_end_def
      dest: set_update_subset_insert [THEN subsetD])+

lemma addChild_ok:
  assumes "node_ok nd" "node_ok c" "path \<noteq> []" "ascii path" "path \<notin> set (paths nd)"
  shows "\<exists>nd'. addChild nd path c = Ok nd' \<and> node_ok nd' \<and> paths nd' = paths nd @ [path]
    \<and> children nd' = children nd @ [c] \<and> paramChild nd' = paramChild nd \<and> wildcardChild nd' = wildcardChild nd
    \<and> node_transcoder nd' = node_transcoder nd \<and> isEnd nd' = isEnd nd"
proof -
  have "(of_char (hd path) :: nat) < 128" using assms(3,4) by (cases path) auto
  with assms show ?thesis by (cases nd) (auto simp: addChild_def string_of_byte_def)
qed

lemma node_parts [simp]:
  "paramChild (set_child nd i c) = paramChild nd" "wildcardChild (set_child nd i c) = wildcardChild nd"
  "paths (set_child nd i c) = paths nd" "children (set_child nd i c) = (children nd)[i := c]"
  "isEnd (set_child nd i c) = isEnd nd" "node_transcoder (set_child nd i c) = node_transcoder nd"
  "paramChild (set_param nd c) = Some c" "wildcardChild (set_param nd c) = wildcardChild nd"
  "isEnd (set_param nd c) = isEnd nd" "node_transcoder (set_param nd c) = node_transcoder nd"
  "wildcardChild (set_wildcard nd c) = Some c" "paramChild (set_wildcard nd c) = paramChild nd"
  "isEnd (set_wildcard nd c) = isEnd nd" "node_transcoder (set_wildcard nd c) = node_transcoder nd"
  "getChild (set_param nd c) q = getChild nd q" "getChild (set_wildcard nd c) q = getChild nd q"
  "getChild (mark_end tr nd) q = getChild nd q" "isEnd (mark_end tr nd)" "node_transcoder (mark_end tr nd) = Some tr"
  "paramChild (mark_end tr nd) = paramChild nd" "wildcardChild (mark_end tr nd) = wildcardChild nd"
  by (simp_all add: set_child_def set_param_def set_wildcard_def mark_end_def getChild_def
      cong: option.case_cong if_cong)

lemma trie_get_mark_end: "trie_get ks (mark_end tr nd) = (if ks = [] then Some tr else trie_get ks nd)"
  by (cases ks) (auto split: segmentType.splits)

lemma trie_get_new [simp]: "trie_get ks newTrieNode = None"
  by (cases ks) (auto simp: newTrieNode_def getChild_def split: segmentType.splits)

lemma norm_seg_eq: "norm_seg s = norm_seg s' \<longleftrightarrow>
    seg_typ s = seg_typ s' \<and> (seg_typ s = segmentTypeStatic \<longrightarrow> seg_val s = seg_val s')"
  by (auto simp: norm_seg_def)

text \<open>Lookups in an updated node, for the three kinds of child.\<close>

lemma trie_get_set_child:
  assumes "node_ok nd" "node_ok c" "i < length (paths nd)" "paths nd ! i = path"
    and "\<And>ks. trie_get ks c = (if map norm_seg ks = key then Some tr else trie_get ks (children nd ! i))"
    and "seg_typ seg = segmentTypeStatic" "seg_val seg = path"
  shows "trie_get ks (set_child nd i c) = (if map norm_seg ks = norm_seg seg # key then Some tr else trie_get ks nd)"
proof (cases ks)
  case (Cons s ss)
  have ok': "node_ok (set_child nd i c)" using assms(1,2) by (rule node_ok_updates)
  have len: "length (paths nd) = length (children nd)" using assms(1) by (cases nd) auto
  show ?thesis
  proof (cases "seg_typ s = segmentTypeStatic")
    case True
    from assms(1) show ?thesis
    proof (cases rule: getChild_cases [where path = "seg_val s"])
      case None
      with getChild_ok(1) [OF ok', of "seg_val s"] Cons True assms(3,4,7) show ?thesis
        by (auto simp: norm_seg_eq)
    next
      case (Some j)
      have "seg_val s = path \<longleftrightarrow> j = i"
        using Some(1,3) assms(1,3,4) by (cases nd) (auto simp: nth_eq_iff_index_eq)
      with Some getChild_ok(2) [OF ok', of j] Cons True assms(3-7) len show ?thesis
        by (auto simp: norm_seg_eq nth_list_update)
    qed
  qed (use Cons assms(6) in \<open>auto simp: norm_seg_eq split: segmentType.splits\<close>)
qed simp

lemma trie_get_addChild:
  assumes "node_ok nd" "node_ok c" "path \<noteq> []" "ascii path" "path \<notin> set (paths nd)"
    and "\<And>ks. trie_get ks c = (if map norm_seg ks = key then Some tr else None)"
    and "seg_typ seg = segmentTypeStatic" "seg_val seg = path"
  shows "\<exists>nd'. addChild nd path c = Ok nd' \<and> node_ok nd' \<and>
    (\<forall>ks. trie_get ks nd' = (if map norm_seg ks = norm_seg seg # key then Some tr else trie_get ks nd))"
proof -
  obtain nd' where nd': "addChild nd path c = Ok nd'" "node_ok nd'" "paths nd' = paths nd @ [path]"
    "children nd' = children nd @ [c]" "paramChild nd' = paramChild nd" "wildcardChild nd' = wildcardChild nd"
    "node_transcoder nd' = node_transcoder nd" "isEnd nd' = isEnd nd"
    using addChild_ok [OF assms(1-5)] by blast
  have len: "length (paths nd) = length (children nd)" using assms(1) by (cases nd) auto
  have "trie_get ks nd' = (if map norm_seg ks = norm_seg seg # key then Some tr else trie_get ks nd)" for ks
  proof (cases ks)
    case (Cons s ss)
    show ?thesis
    proof (cases "seg_typ s = segmentTypeStatic")
      case True
      from nd'(2) show ?thesis
      proof (cases rule: getChild_cases [where path = "seg_val s"])
        case None
        with getChild_ok(1) [OF assms(1), of "seg_val s"] Cons True nd'(3) assms(8) show ?thesis
          by (auto simp: norm_seg_eq)
      next
        case (Some j)
        show ?thesis
        proof (cases "j < length (paths nd)")
          case j: True
          then have "seg_val s \<in> set (paths nd)" using Some(3) nd'(3) nth_mem [OF j] by (simp add: nth_append)
          with j getChild_ok(2) [OF assms(1) j] Some nd'(3,4) Cons True assms(5,8) len show ?thesis
            by (auto simp: norm_seg_eq nth_append)
        next
          case False
          with Some nd'(3,4) len have "j = length (paths nd)" "seg_val s = path" by (auto simp: nth_append)
          with Some nd'(4) Cons True assms(6-8) len getChild_ok(1) [OF assms(1,5)] show ?thesis
            by (auto simp: norm_seg_eq)
        qed
      qed
    qed (use Cons assms(7) nd' in \<open>auto simp: norm_seg_eq split: segmentType.splits\<close>)
  qed (use nd' in simp)
  with nd' show ?thesis by blast
qed

lemma trie_get_set_param:
  assumes "\<And>ks. trie_get ks c = (if map norm_seg ks = key then Some tr
      else trie_get ks (case paramChild nd of None \<Rightarrow> newTrieNode | Some c \<Rightarrow> c))"
    and "seg_typ seg = segmentTypeParam"
  shows "trie_get ks (set_param nd c) = (if map norm_seg ks = norm_seg seg # key then Some tr else trie_get ks nd)"
  using assms by (cases ks) (auto simp: norm_seg_eq split: segmentType.splits option.splits)

lemma trie_get_set_wildcard:
  assumes "\<And>ks. trie_get ks c = (if map norm_seg ks = key then Some tr
      else trie_get ks (case wildcardChild nd of None \<Rightarrow> newTrieNode | Some c \<Rightarrow> c))"
    and "seg_typ seg = segmentTypeWildcard"
  shows "trie_get ks (set_wildcard nd c) = (if map norm_seg ks = norm_seg seg # key then Some tr else trie_get ks nd)"
  using assms by (cases ks) (auto simp: norm_seg_eq split: segmentType.splits option.splits)

lemma insert_loop_get:
  "key_ok segs \<Longrightarrow> node_ok nd \<Longrightarrow> \<exists>nd'. insert_loop tr segs nd = Ok nd' \<and> node_ok nd' \<and>
     (\<forall>ks. trie_get ks nd' = (if map norm_seg ks = map norm_seg segs then Some tr else trie_get ks nd))"
proof (induction segs arbitrary: nd)
  case (Cons seg segs)
  have go: "\<exists>c'. insert_loop tr segs (if segs = [] then mark_end tr c else c) = Ok c' \<and> node_ok c' \<and>
      (\<forall>ks. trie_get ks c' = (if map norm_seg ks = map norm_seg segs then Some tr else trie_get ks c))"
    if "node_ok c" for c
  proof (cases "segs = []")
    case True
    with that show ?thesis by (auto simp: node_ok_updates trie_get_mark_end)
  next
    case False
    then have "key_ok segs" using Cons.prems(1) by (auto simp: key_ok_def)
    from Cons.IH [OF this that] False show ?thesis by simp
  qed
  show ?case
  proof (cases "seg_typ seg")
    case segmentTypeStatic
    from Cons.prems(2) show ?thesis
    proof (cases rule: getChild_cases [where path = "seg_val seg"])
      case None
      obtain c where c: "insert_loop tr segs (if segs = [] then mark_end tr newTrieNode else newTrieNode) = Ok c"
        "node_ok c" "\<forall>ks. trie_get ks c = (if map norm_seg ks = map norm_seg segs then Some tr else None)"
        using go [OF node_ok_newTrieNode] by auto
      have v: "seg_val seg \<noteq> []" "ascii (seg_val seg)" using Cons.prems(1) segmentTypeStatic by (auto simp: key_ok_def)
      from trie_get_addChild [OF Cons.prems(2) c(2) v None(1) c(3) [rule_format] segmentTypeStatic refl]
      show ?thesis using c(1) segmentTypeStatic None by (simp add: Let_def)
    next
      case (Some i)
      obtain c where c: "insert_loop tr segs (if segs = [] then mark_end tr (children nd ! i) else children nd ! i) = Ok c"
        "node_ok c" "\<forall>ks. trie_get ks c = (if map norm_seg ks = map norm_seg segs then Some tr else trie_get ks (children nd ! i))"
        using go [OF Some(5)] by auto
      from trie_get_set_child [OF Cons.prems(2) c(2) Some(1,3) c(3) [rule_format] segmentTypeStatic refl]
      show ?thesis using c(1,2) segmentTypeStatic Some Cons.prems(2) by (simp add: Let_def node_ok_updates)
    qed
  next
    case segmentTypeParam
    have "node_ok (case paramChild nd of None \<Rightarrow> newTrieNode | Some c \<Rightarrow> c)"
      using Cons.prems(2) by (cases nd) (auto split: option.splits)
    from go [OF this] trie_get_set_param [OF _ segmentTypeParam, of _ "map norm_seg segs" tr nd]
    show ?thesis using segmentTypeParam Cons.prems(2) by (fastforce simp: Let_def node_ok_updates)
  next
    case segmentTypeWildcard
    have "node_ok (case wildcardChild nd of None \<Rightarrow> newTrieNode | Some c \<Rightarrow> c)"
      using Cons.prems(2) by (cases nd) (auto split: option.splits)
    from go [OF this] trie_get_set_wildcard [OF _ segmentTypeWildcard, of _ "map norm_seg segs" tr nd]
    show ?thesis using segmentTypeWildcard Cons.prems(2) by (fastforce simp: Let_def node_ok_updates)
  qed
qed (simp add: key_ok_def)

interpretation tree: keyed_table node_ok key_ok "map norm_seg" trie_get "\<lambda>k tr. insert_loop tr k"
  by unfold_locales (rule insert_loop_get)

subsection \<open>Searching\<close>

lemma dfs_total: "node_ok nd \<Longrightarrow> \<exists>r. dfs nd segs = Ok r"
proof (induction segs arbitrary: nd)
  case (Cons s segs)
  have kids: "\<exists>r. dfs c segs = Ok r" if "paramChild nd = Some c" for c
    using Cons that by (cases nd) auto
  from Cons.prems have "\<exists>r. bind_res (getChild nd s) (\<lambda>r. case r of None \<Rightarrow> Ok None | Some (i, c) \<Rightarrow> dfs c segs) = Ok r"
  proof (cases rule: getChild_cases [where path = s])
    case (Some i)
    with Cons.IH show ?thesis by simp
  qed simp
  with kids show ?case
    by (fastforce split: option.splits)
qed simp

lemma dfs_sound: "node_ok nd \<Longrightarrow> dfs nd segs = Ok (Some tr) \<Longrightarrow> \<exists>ks. trie_get ks nd = Some tr"
proof (induction segs arbitrary: nd)
  case Nil
  then have "trie_get [] nd = Some tr" by simp
  then show ?case by blast
next
  case (Cons s segs)
  have static: "\<exists>ks. trie_get ks nd = Some tr"
    if "getChild nd s = Ok (Some (i, c))" "trie_get ks c = Some tr" for i c ks
    using that by (intro exI [of _ "\<lparr>seg_typ = segmentTypeStatic, seg_val = s\<rparr> # ks"]) simp
  have param: "\<exists>ks. trie_get ks nd = Some tr" if "paramChild nd = Some c" "trie_get ks c = Some tr" for c ks
    using that by (intro exI [of _ "\<lparr>seg_typ = segmentTypeParam, seg_val = []\<rparr> # ks"]) simp
  have wild: "\<exists>ks. trie_get ks nd = Some tr" if "wildcardChild nd = Some c" "trie_get [] c = Some tr" for c
    using that by (intro exI [of _ "[\<lparr>seg_typ = segmentTypeWildcard, seg_val = []\<rparr>]"]) simp
  have pok: "node_ok c" if "paramChild nd = Some c" for c using Cons.prems(1) that by (cases nd) auto
  have rest: "\<exists>ks. trie_get ks nd = Some tr"
    if "bind_res (case paramChild nd of None \<Rightarrow> Ok None | Some c \<Rightarrow> dfs c segs) (\<lambda>r2.
     case r2 of Some tr \<Rightarrow> Ok (Some tr)
     | None \<Rightarrow> (case wildcardChild nd of None \<Rightarrow> Ok None | Some c \<Rightarrow> dfs c [])) = Ok (Some tr)"
    using that Cons.IH pok param wild
    by (auto simp: bind_res_Ok_iff split: option.splits if_splits) blast+
  from Cons.prems(1) show ?case
  proof (cases rule: getChild_cases [where path = s])
    case None
    with Cons.prems(2) rest show ?thesis by simp
  next
    case (Some i)
    then obtain r where r: "dfs (children nd ! i) segs = Ok r" using dfs_total by blast
    show ?thesis
    proof (cases r)
      case None
      with Some r Cons.prems(2) rest show ?thesis by simp
    next
      case tr: (Some tr')
      with Some r Cons.prems(2) have "tr' = tr" by simp
      with tr r Cons.IH [OF Some(5)] obtain ks where "trie_get ks (children nd ! i) = Some tr" by blast
      with static Some(4) show ?thesis by blast
    qed
  qed
qed

text \<open>A static route is found whatever parameter and wildcard routes the tree also holds.\<close>

abbreviation static_key :: "string list \<Rightarrow> pathSegment list" where
  "static_key \<equiv> map (\<lambda>s. \<lparr>seg_typ = segmentTypeStatic, seg_val = s\<rparr>)"

lemma dfs_static:
  "node_ok nd \<Longrightarrow> trie_get (static_key segs) nd = Some tr \<Longrightarrow> dfs nd segs = Ok (Some tr)"
proof (induction segs arbitrary: nd)
  case (Cons s segs)
  from Cons.prems(1) show ?case
  proof (cases rule: getChild_cases [where path = s])
    case (Some i)
    with Cons show ?thesis by simp
  qed (use Cons.prems in simp)
qed simp

lemma update_root_getRoot:
  assumes "\<And>r. getRoot rt method = Some r \<Longrightarrow> f r = Ok r'" "getRoot rt method = None \<Longrightarrow> f newTrieNode = Ok r'"
  shows "\<exists>rt'. update_root rt method f = Ok rt' \<and>
    (\<forall>m. getRoot rt' m = (if m = method then Some r' else getRoot rt m))"
  using assms
proof (induction rt)
  case (Cons t ts)
  show ?case
  proof (cases "mt_method t = method")
    case True
    then show ?thesis using Cons.prems(1) [of "root t"] by auto
  next
    case False
    with Cons obtain rt' where "update_root ts method f = Ok rt'"
      "\<forall>m. getRoot rt' m = (if m = method then Some r' else getRoot ts m)" by auto
    with False show ?thesis by auto
  qed
qed simp

subsection \<open>router.go: registration and routing\<close>

record Binding =
  b_Name :: string
  b_Input :: go_any
  b_Output :: "go_any option"
  b_Filter :: go_any
  b_HTTPMethod :: string
  b_Pattern :: "Pattern option"
  b_Body :: "string option"
  b_ResponseBody :: "go_any option"

record 'd transcoder =
  tr_name :: string
  tr_input :: go_any
  tr_output :: go_any
  tr_handler :: go_any
  tr_httpMethod :: string
  pat :: "Pattern option"
  tr_body :: "string option"
  tr_respBody :: "go_any option"
  tr_dat :: "'d option"
  tr_discardUnknownParams :: bool
  tr_serviceImpl :: go_any

record 'd Router =
  DiscardUnknownParams :: bool
  transcoders :: "string \<Rightarrow> 'd transcoder list"
  routerTrie :: "'d transcoder RouterTrie option"

definition NewRouter :: "bool \<Rightarrow> 'd Router" where
  "NewRouter discard =
     \<lparr>DiscardUnknownParams = discard, transcoders = (\<lambda>_. []), routerTrie = Some newRouterTrie\<rparr>"

text \<open>The default output constructor (\<open>emptypb.Empty\<close>) is the handle \<open>emptyOutput\<close>.\<close>

definition emptyOutput :: go_any where
  "emptyOutput = 0"

definition field_paths :: "Binding \<Rightarrow> Pattern \<Rightarrow> string list list" where
  "field_paths b p = FieldPaths (pathTemplate p) @
     (case b_Body b of
        None \<Rightarrow> []
      | Some fromBody \<Rightarrow> if fromBody \<noteq> [] \<and> fromBody \<noteq> ''*'' then [Split (CHR ''.'') fromBody] else [])"

definition newTranscoder ::
    "(string list list \<Rightarrow> (unit, 'd) res) \<Rightarrow> 'd Router \<Rightarrow> Binding \<Rightarrow> go_any \<Rightarrow> (unit, 'd transcoder) res" where
  "newTranscoder datBuild r b impl =
     (case b_Pattern b of
        None \<Rightarrow> Panic
      | Some p \<Rightarrow>
          (let tr = \<lparr>tr_name = b_Name b, tr_input = b_Input b,
                     tr_output = (case b_Output b of None \<Rightarrow> emptyOutput | Some out \<Rightarrow> out),
                     tr_handler = b_Filter b, tr_httpMethod = b_HTTPMethod b, pat = Some p,
                     tr_body = b_Body b, tr_respBody = b_ResponseBody b, tr_dat = None,
                     tr_discardUnknownParams = DiscardUnknownParams r, tr_serviceImpl = impl\<rparr>;
               fps = field_paths b p
           in if fps \<noteq> [] then bind_res (datBuild fps) (\<lambda>d. Ok (tr\<lparr>tr_dat := Some d\<rparr>)) else Ok tr))"

definition rt_insert :: "'d transcoder RouterTrie \<Rightarrow> string \<Rightarrow> 'd transcoder \<Rightarrow> (unit, 'd transcoder RouterTrie) res" where
  "rt_insert rt method tr =
     update_root rt method (insert_loop tr (parsePattern (RawURLPath (pat tr))))"

definition AddImplBinding ::
    "(string list list \<Rightarrow> (unit, 'd) res) \<Rightarrow> Binding \<Rightarrow> go_any \<Rightarrow> 'd Router \<Rightarrow> (unit, 'd Router) res" where
  "AddImplBinding datBuild b impl r =
     bind_res (newTranscoder datBuild r b impl) (\<lambda>tr.
     let m = b_HTTPMethod b;
         r1 = r\<lparr>transcoders := (transcoders r)(m := transcoders r m @ [tr])\<rparr>
     in bind_res (rt_insert (case routerTrie r1 of None \<Rightarrow> newRouterTrie | Some rt \<Rightarrow> rt) m tr) (\<lambda>rt.
        Ok (r1\<lparr>routerTrie := Some rt\<rparr>)))"

text \<open>\<open>tr.pat.Match(path)\<close>; a nil pattern would be dereferenced.\<close>

definition pat_Match :: "'d transcoder \<Rightarrow> string \<Rightarrow> (match_error, string \<rightharpoonup> string) res" where
  "pat_Match tr path = (case pat tr of None \<Rightarrow> Panic | Some p \<Rightarrow> Match (pathTemplate p) path)"

fun scan :: "'d transcoder list \<Rightarrow> string \<Rightarrow> (unit, ('d transcoder \<times> (string \<rightharpoonup> string)) option) res" where
  "scan [] path = Ok None"
| "scan (tr # trs) path =
     (case pat_Match tr path of
        Ok fieldValues \<Rightarrow> Ok (Some (tr, fieldValues))
      | Err _ \<Rightarrow> scan trs path
      | Panic \<Rightarrow> Panic)"

definition findTranscoder ::
    "'d Router \<Rightarrow> string \<Rightarrow> string \<Rightarrow> (unit, ('d transcoder \<times> (string \<rightharpoonup> string)) option) res" where
  "findTranscoder r method path =
     bind_res (case routerTrie r of None \<Rightarrow> Ok None | Some rt \<Rightarrow> rt_search rt method path) (\<lambda>found.
     case found of
       None \<Rightarrow> scan (transcoders r method) path
     | Some tr \<Rightarrow>
         (case pat_Match tr path of
            Ok fieldValues \<Rightarrow> Ok (Some (tr, fieldValues))
          | Err _ \<Rightarrow> scan (transcoders r method) path
          | Panic \<Rightarrow> Panic))"

definition matchesRESTfulRoute :: "'d Router \<Rightarrow> string \<Rightarrow> string \<Rightarrow> (unit, bool) res" where
  "matchesRESTfulRoute r method path =
     bind_res (findTranscoder r method path) (\<lambda>f. Ok (f \<noteq> None))"

subsection \<open>Keys of parsed patterns\<close>

lemma splitPatternParts_loop_set:
  "q \<in> set (splitPatternParts_loop d cur p) \<Longrightarrow> q \<noteq> [] \<and> set q \<subseteq> set cur \<union> set p"
proof (induction d cur p rule: splitPatternParts_loop.induct)
  case (2 d cur c p)
  then show ?case by (simp split: if_splits) fastforce+
qed (auto split: if_splits)

lemma ascii_mono: "set a \<subseteq> set b \<Longrightarrow> ascii b \<Longrightarrow> ascii a"
  by (auto simp: ascii_def)

lemma set_slice_subset: "set (slice i j xs) \<subseteq> set xs"
  by (auto simp: slice_def dest: in_set_takeD in_set_dropD)

lemma set_Split: "x \<in> set (Split c s) \<Longrightarrow> set x \<subseteq> set s"
proof (induction s arbitrary: x)
  case (Cons y ys)
  then show ?case by (cases "Split c ys") (fastforce split: if_splits)+
qed simp

lemma partSegments_ok:
  assumes "ascii part" "s \<in> set (partSegments part)" "seg_typ s = segmentTypeStatic"
  shows "seg_val s \<noteq> [] \<and> ascii (seg_val s)"
proof -
  have sub: "ascii q" if "q \<in> set (Split (CHR ''/'') (drop k (slice i j part)))" for q i j k
  proof -
    have "set q \<subseteq> set part"
      using set_Split [OF that] set_slice_subset [of i j part] set_drop_subset [of k "slice i j part"] by blast
    with assms(1) ascii_mono show ?thesis by blast
  qed
  show ?thesis
    using assms sub
    by (auto simp: partSegments_def prefixSegments_def Let_def split: if_splits option.splits)
qed

lemma parsePattern_static:
  assumes "ascii raw" "s \<in> set (parsePattern raw)" "seg_typ s = segmentTypeStatic"
  shows "seg_val s \<noteq> [] \<and> ascii (seg_val s)"
proof -
  let ?p = "TrimPrefix raw ''/''"
  have p: "ascii ?p" using assms(1) by (auto simp: TrimPrefix_def ascii_def dest: in_set_dropD)
  from assms(2) obtain part where part: "part \<in> set (splitPatternParts ?p)" "s \<in> set (partSegments part)"
    by (auto simp: parsePattern_def Let_def split: if_splits)
  have "set part \<subseteq> set ?p" using part(1) splitPatternParts_loop_set [of part 0 "[]" ?p]
    by (auto simp: splitPatternParts_def)
  with p ascii_mono have "ascii part" by blast
  from partSegments_ok [OF this part(2) assms(3)] show ?thesis .
qed

subsection \<open>Reachable routers\<close>

inductive reach :: "(string list list \<Rightarrow> (unit, 'd) res) \<Rightarrow> 'd Router \<Rightarrow> bool" for datBuild where
  reach_new: "reach datBuild (NewRouter discard)"
| reach_add: "reach datBuild r \<Longrightarrow> pat_Parse url = Ok p \<Longrightarrow> b_Pattern b = Some p \<Longrightarrow>
    AddImplBinding datBuild b impl r = Ok r' \<Longrightarrow> reach datBuild r'"

abbreviation tr_key :: "'d transcoder \<Rightarrow> pathSegment list" where
  "tr_key tr \<equiv> parsePattern (RawURLPath (pat tr))"

definition tr_ok :: "'d transcoder \<Rightarrow> bool" where
  "tr_ok tr \<longleftrightarrow> (\<exists>p. pat tr = Some p \<and> pat_Parse (rawURLPath p) = Ok p)"

definition routed :: "'d transcoder list \<Rightarrow> (pathSegment list \<times> 'd transcoder) list" where
  "routed trs = map (\<lambda>tr. (tr_key tr, tr)) (filter (\<lambda>tr. tr_key tr \<noteq> []) trs)"

definition router_inv :: "'d Router \<Rightarrow> bool" where
  "router_inv r \<longleftrightarrow> (\<forall>m. \<forall>tr \<in> set (transcoders r m). tr_ok tr) \<and>
     (\<exists>rt. routerTrie r = Some rt \<and> (\<forall>m. case getRoot rt m of
        None \<Rightarrow> transcoders r m = []
      | Some rt \<Rightarrow> tree.put_all (routed (transcoders r m)) newTrieNode = Ok rt))"

lemma tr_ok_key: "tr_ok tr \<Longrightarrow> tr_key tr \<noteq> [] \<Longrightarrow> key_ok (tr_key tr)"
  using parsePattern_static Parse_ascii
  by (fastforce simp: tr_ok_def key_ok_def RawURLPath_def pat_Parse_def bind_res_Ok_iff)

lemma routed_valid: "\<forall>tr \<in> set trs. tr_ok tr \<Longrightarrow> \<forall>(k, v) \<in> set (routed trs). key_ok k"
  by (auto simp: routed_def tr_ok_key)

lemma newTranscoder_pat: "newTranscoder datBuild r b impl = Ok tr \<Longrightarrow> pat tr = b_Pattern b"
  by (auto simp: newTranscoder_def Let_def bind_res_Ok_iff split: option.splits if_splits)

lemma put_routed_snoc:
  assumes "\<forall>tr \<in> set trs. tr_ok tr" "tr_ok tr" "tree.put_all (routed trs) newTrieNode = Ok rt"
  shows "\<exists>rt'. insert_loop tr (tr_key tr) rt = Ok rt' \<and> tree.put_all (routed (trs @ [tr])) newTrieNode = Ok rt'"
proof (cases "tr_key tr = []")
  case True
  with assms(3) show ?thesis by (simp add: routed_def)
next
  case False
  have "node_ok rt"
    using tree.put_all_get [OF node_ok_newTrieNode routed_valid [OF assms(1)]] assms(3) by auto
  with tree.put_get [OF this tr_ok_key [OF assms(2) False], of tr] False assms(3) show ?thesis
    by (auto simp: routed_def tree.put_all_snoc)
qed

lemma AddImplBinding_inv:
  assumes "router_inv r" "pat_Parse url = Ok p" "b_Pattern b = Some p" "AddImplBinding datBuild b impl r = Ok r'"
  shows "router_inv r' \<and> (\<exists>tr. newTranscoder datBuild r b impl = Ok tr \<and>
    transcoders r' = (transcoders r)(b_HTTPMethod b := transcoders r (b_HTTPMethod b) @ [tr]))"
proof -
  let ?m = "b_HTTPMethod b"
  from assms(4) obtain tr where tr: "newTranscoder datBuild r b impl = Ok tr"
    by (auto simp: AddImplBinding_def bind_res_Ok_iff)
  then have trok: "tr_ok tr" using newTranscoder_pat [OF tr] assms(2,3)
    by (auto simp: tr_ok_def pat_Parse_def bind_res_Ok_iff)
  from assms(1) obtain rt where rt: "routerTrie r = Some rt"
    "\<And>m. case getRoot rt m of None \<Rightarrow> transcoders r m = []
        | Some nd \<Rightarrow> tree.put_all (routed (transcoders r m)) newTrieNode = Ok nd"
    and ok: "\<And>m. \<forall>tr \<in> set (transcoders r m). tr_ok tr" by (auto simp: router_inv_def)
  define nd where "nd = (case getRoot rt ?m of None \<Rightarrow> newTrieNode | Some nd \<Rightarrow> nd)"
  have nd: "tree.put_all (routed (transcoders r ?m)) newTrieNode = Ok nd"
    using rt(2) [of ?m] by (auto simp: nd_def routed_def split: option.splits)
  from put_routed_snoc [OF ok trok this] obtain nd' where nd': "insert_loop tr (tr_key tr) nd = Ok nd'"
    "tree.put_all (routed (transcoders r ?m @ [tr])) newTrieNode = Ok nd'" by blast
  have "\<exists>rt'. rt_insert rt ?m tr = Ok rt' \<and> (\<forall>m. getRoot rt' m = (if m = ?m then Some nd' else getRoot rt m))"
    unfolding rt_insert_def using nd'(1) by (intro update_root_getRoot) (auto simp: nd_def)
  then obtain rt' where rt': "rt_insert rt ?m tr = Ok rt'"
    "\<And>m. getRoot rt' m = (if m = ?m then Some nd' else getRoot rt m)" by blast
  have "r' = r\<lparr>transcoders := (transcoders r)(?m := transcoders r ?m @ [tr]), routerTrie := Some rt'\<rparr>"
    using assms(4) tr rt(1) rt'(1) by (auto simp: AddImplBinding_def Let_def)
  with tr trok ok rt(2) rt'(2) nd'(2) show ?thesis by (auto simp: router_inv_def cong: option.case_cong)
qed

lemma reach_inv: "reach datBuild r \<Longrightarrow> router_inv r"
proof (induction rule: reach.induct)
  case (reach_add r url p b impl r')
  then show ?case using AddImplBinding_inv by blast
qed (simp add: router_inv_def NewRouter_def newRouterTrie_def)

subsection \<open>Properties\<close>

lemma tr_ok_Match: "tr_ok tr \<Longrightarrow> pat_Match tr path \<noteq> Panic"
  using Match_not_panic Parse_facts(1)
  by (auto simp: tr_ok_def pat_Match_def pat_Parse_def bind_res_Ok_iff)
    (metis Pattern.select_convs(1))

lemma scan_spec:
  "\<forall>tr \<in> set trs. tr_ok tr \<Longrightarrow> \<exists>r. scan trs path = Ok r \<and>
     (case r of None \<Rightarrow> \<forall>tr \<in> set trs. \<forall>v. pat_Match tr path \<noteq> Ok v
      | Some (tr, v) \<Rightarrow> tr \<in> set trs \<and> pat_Match tr path = Ok v)"
proof (induction trs)
  case (Cons tr trs)
  show ?case
  proof (cases "pat_Match tr path")
    case (Err e)
    with Cons show ?thesis by (fastforce split: option.splits)
  qed (use Cons.prems tr_ok_Match [of tr path] in auto)
qed simp

lemma rt_search_registered:
  assumes "router_inv r" "routerTrie r = Some rt"
  shows "\<exists>found. rt_search rt method path = Ok found \<and> (\<forall>tr. found = Some tr \<longrightarrow> tr \<in> set (transcoders r method))"
proof (cases "getRoot rt method")
  case (Some nd)
  with assms have put: "tree.put_all (routed (transcoders r method)) newTrieNode = Ok nd"
    and ok: "\<forall>tr \<in> set (transcoders r method). tr_ok tr"
    by (auto simp: router_inv_def dest!: spec [of _ "method"])
  have nd: "node_ok nd"
    using tree.put_all_get [OF node_ok_newTrieNode routed_valid [OF ok]] put by auto
  have "tr \<in> set (transcoders r method)" if "trie_get ks nd = Some tr" for ks tr
    using tree.put_all_values [OF node_ok_newTrieNode routed_valid [OF ok] put that] by (auto simp: routed_def)
  with nd Some dfs_total [OF nd] dfs_sound [OF nd] show ?thesis
    unfolding rt_search_def Let_def by fastforce
qed (simp add: rt_search_def)

text \<open>C4: routing is sound and complete, and never panics. In a router built by any sequence of
  successful registrations of parsed patterns, \<open>findTranscoder\<close> returns a transcoder registered
  for the method whose template matches the path, with the values that match captures; it returns
  none only when no registered transcoder of the method matches. The tree is thus only an
  accelerator: routes it cannot find (a verb after a variable, a wildcard before other segments)
  are still served.\<close>

theorem findTranscoder_correct:
  assumes "reach datBuild r"
  shows "\<exists>res. findTranscoder r method path = Ok res \<and>
    (case res of
       None \<Rightarrow> \<forall>tr \<in> set (transcoders r method). \<forall>v. pat_Match tr path \<noteq> Ok v
     | Some (tr, v) \<Rightarrow> tr \<in> set (transcoders r method) \<and> pat_Match tr path = Ok v)"
proof -
  have inv: "router_inv r" using assms by (rule reach_inv)
  then obtain rt where rt: "routerTrie r = Some rt" and ok: "\<forall>tr \<in> set (transcoders r method). tr_ok tr"
    by (auto simp: router_inv_def)
  from rt_search_registered [OF inv rt] obtain found where found: "rt_search rt method path = Ok found"
    "\<forall>tr. found = Some tr \<longrightarrow> tr \<in> set (transcoders r method)" by blast
  show ?thesis
  proof (cases found)
    case None
    with found rt scan_spec [OF ok] show ?thesis by (simp add: findTranscoder_def)
  next
    case (Some tr)
    with found ok have "tr \<in> set (transcoders r method)" "pat_Match tr path \<noteq> Panic"
      using tr_ok_Match by auto
    with Some found rt scan_spec [OF ok, of path] show ?thesis
      by (cases "pat_Match tr path") (auto simp: findTranscoder_def)
  qed
qed

text \<open>a purely static route has precedence. If a transcoder's pattern is a list of literal
  segments, no transcoder registered later for the method has the same pattern, and its template
  matches the path made of exactly these segments, then that path is routed to it, whatever
  parameter, wildcard or other static routes are registered, before or after it.\<close>

theorem static_route_wins:
  assumes "reach datBuild r" and "transcoders r method = before @ tr # after"
    and "parsePattern (RawURLPath (pat tr)) = static_key segs" and "segs \<noteq> []" "segs \<noteq> [[]]"
    and "\<forall>s \<in> set segs. CHR ''/'' \<notin> set s"
    and "\<forall>tr' \<in> set after. map norm_seg (parsePattern (RawURLPath (pat tr'))) \<noteq> map norm_seg (static_key segs)"
    and "pat_Match tr (''/'' @ Join segs ''/'') = Ok v"
  shows "findTranscoder r method (''/'' @ Join segs ''/'') = Ok (Some (tr, v))"
proof -
  have inv: "router_inv r" using assms(1) by (rule reach_inv)
  then obtain rt where rt: "routerTrie r = Some rt" and ok: "\<forall>tr \<in> set (transcoders r method). tr_ok tr"
    by (auto simp: router_inv_def)
  obtain nd where nd: "getRoot rt method = Some nd"
    "tree.put_all (routed (transcoders r method)) newTrieNode = Ok nd"
    using inv rt assms(2) by (cases "getRoot rt method") (auto simp: router_inv_def dest!: spec [of _ "method"])
  have split: "routed (transcoders r method) = routed before @ (static_key segs, tr) # routed after"
    using assms(2-4) by (simp add: routed_def)
  have "\<forall>(k, v) \<in> set (routed after). map norm_seg k \<noteq> map norm_seg (static_key segs)"
    using assms(7) by (auto simp: routed_def)
  from tree.put_all_last [OF node_ok_newTrieNode routed_valid [OF ok, unfolded split] this] nd(2) split
  have "node_ok nd" "trie_get (static_key segs) nd = Some tr" by auto
  then have "dfs nd segs = Ok (Some tr)" by (rule dfs_static)
  moreover have "Split (CHR ''/'') (Join segs ''/'') = segs" using assms(4,6) by (intro Split_Join) auto
  ultimately have "rt_search rt method (''/'' @ Join segs ''/'') = Ok (Some tr)"
    using nd(1) assms(4,5) by (cases segs; cases "tl segs") (auto simp: rt_search_def TrimPrefix_def HasPrefix_def)
  with rt assms(8) show ?thesis by (simp add: findTranscoder_def)
qed

text \<open>A router with the routes \<open>/a/b\<close> and, registered later, \<open>/a/{n}\<close>.\<close>

definition sample_pat :: "segment \<Rightarrow> string \<Rightarrow> Pattern" where
  "sample_pat s raw = \<lparr>pathTemplate = \<lparr>segments = [Literal ''a'', s], verb = []\<rparr>, rawURLPath = raw\<rparr>"

definition sample_binding :: "Pattern \<Rightarrow> Binding" where
  "sample_binding p = \<lparr>b_Name = ''m'', b_Input = 3, b_Output = None, b_Filter = 2, b_HTTPMethod = ''GET'',
     b_Pattern = Some p, b_Body = None, b_ResponseBody = None\<rparr>"

definition sample_tr :: "Pattern \<Rightarrow> unit option \<Rightarrow> unit transcoder" where
  "sample_tr p d = \<lparr>tr_name = ''m'', tr_input = 3, tr_output = 0, tr_handler = 2, tr_httpMethod = ''GET'',
     pat = Some p, tr_body = None, tr_respBody = None, tr_dat = d, tr_discardUnknownParams = False, tr_serviceImpl = 7\<rparr>"

abbreviation "static_pat \<equiv> sample_pat (Literal ''b'') ''/a/b''"
abbreviation "param_pat \<equiv> sample_pat (Variable [''n''] [Wildcard]) ''/a/{n}''"

lemma sample_parse: "pat_Parse ''/a/b'' = Ok static_pat" "pat_Parse ''/a/{n}'' = Ok param_pat"
  by code_simp+

lemma sample_keys:
  "parsePattern ''/a/b'' = static_key [''a'', ''b'']"
  "parsePattern ''/a/{n}'' = [\<lparr>seg_typ = segmentTypeStatic, seg_val = ''a''\<rparr>, \<lparr>seg_typ = segmentTypeParam, seg_val = ''n''\<rparr>]"
  by code_simp+

lemma sample_router:
  "\<exists>r. reach (\<lambda>_. Ok ()) r \<and> transcoders r ''GET'' = [sample_tr static_pat None, sample_tr param_pat (Some ())]"
proof -
  obtain r1 where r1: "AddImplBinding (\<lambda>_. Ok ()) (sample_binding static_pat) 7 (NewRouter False) = Ok r1"
    "transcoders r1 ''GET'' = [sample_tr static_pat None]"  "\<not> DiscardUnknownParams r1"
    "routerTrie r1 = Some [\<lparr>mt_method = ''GET'', root = TrieNode ''a'' [''a''] [TrieNode ''b'' [''b'']
       [TrieNode [] [] [] None None (Some (sample_tr static_pat None)) True] None None None False] None None None False\<rparr>]"
    by (simp add: AddImplBinding_def newTranscoder_def sample_binding_def sample_pat_def field_paths_def
        FieldPaths_def NewRouter_def newRouterTrie_def rt_insert_def RawURLPath_def sample_keys Let_def
        getChild_def newTrieNode_def addChild_def string_of_byte_def mark_end_def emptyOutput_def
        sample_tr_def List.map_filter_simps)
  have reach1: "reach (\<lambda>_. Ok ()) r1"
    by (rule reach_add [OF reach_new sample_parse(1) _ r1(1)]) (simp add: sample_binding_def)
  obtain r2 where r2: "AddImplBinding (\<lambda>_. Ok ()) (sample_binding param_pat) 7 r1 = Ok r2"
    "transcoders r2 ''GET'' = [sample_tr static_pat None, sample_tr param_pat (Some ())]"
    using r1(2-4) by (simp add: AddImplBinding_def newTranscoder_def sample_binding_def sample_pat_def field_paths_def
        FieldPaths_def rt_insert_def RawURLPath_def sample_keys Let_def
        getChild_def newTrieNode_def set_child_def set_param_def mark_end_def emptyOutput_def
        sample_tr_def List.map_filter_simps)
  have "reach (\<lambda>_. Ok ()) r2"
    by (rule reach_add [OF reach1 sample_parse(2) _ r2(1)]) (simp add: sample_binding_def)
  with r2(2) show ?thesis by blast
qed

lemma sample_match: "pat_Match (sample_tr static_pat None) ''/a/b'' = Ok Map.empty"
  by (simp add: pat_Match_def sample_tr_def sample_pat_def Match_def HasPrefix_def verbMatch_def)

theorem findTranscoder_correct_witness:
  "\<exists>r res. reach (\<lambda>_. Ok ()) (r :: unit Router) \<and> findTranscoder r ''GET'' ''/a/b'' = Ok (Some res)"
proof -
  obtain r where r: "reach (\<lambda>_. Ok ()) r" "sample_tr static_pat None \<in> set (transcoders r ''GET'')"
    using sample_router by auto
  from findTranscoder_correct [OF r(1), of "''GET''" "''/a/b''"] r sample_match show ?thesis
    by (fastforce split: option.splits)
qed

theorem static_route_wins_witness:
  "\<exists>r v. reach (\<lambda>_. Ok ()) r \<and> findTranscoder r ''GET'' ''/a/b'' = Ok (Some (sample_tr static_pat None, v))"
proof -
  obtain r where r: "reach (\<lambda>_. Ok ()) r"
    "transcoders r ''GET'' = [] @ sample_tr static_pat None # [sample_tr param_pat (Some ())]"
    using sample_router by auto
  have "findTranscoder r ''GET'' (''/'' @ Join [''a'', ''b''] ''/'') = Ok (Some (sample_tr static_pat None, Map.empty))"
    by (rule static_route_wins [OF r])
      (simp_all add: sample_tr_def RawURLPath_def sample_pat_def sample_keys norm_seg_def
        sample_match [unfolded sample_tr_def sample_pat_def])
  with r(1) show ?thesis by auto
qed

end
