(* ===== verification/Errs.thy ===== *)
theory Errs
  imports Go_Prelude
begin

text \<open>
  The error values of \<open>errs/errs.go\<close>: an \<open>Error\<close> with type, code, message and cause, the
  constructors and wrappers, and \<open>Code\<close> / \<open>Msg\<close>, which search an error chain. Stack traces and
  the \<open>fmt.Formatter\<close> implementation are left out (printing only). The numeric values of the codes
  come from the generated protocol package; the code \<open>Code\<close> and \<open>Msg\<close> fall back to are the
  fields of \<open>ret_codes\<close>.
\<close>

record ret_codes =
  RetOK :: u32
  RetUnknown :: u32
  RetServerDecodeFail :: u32
  RetServerEncodeFail :: u32

text \<open>An error value: an \<open>*errs.Error\<close>, the typed nil pointer, or any other error with its
  \<open>Error()\<close> text and the error it wraps.\<close>

datatype go_error =
    TrpcError (e_Type: int) (e_Code: u32) (e_Msg: string) (e_Desc: string) (e_cause: "go_error option")
  | NilError
  | OtherError (o_text: string) (o_wraps: "go_error option")

definition ErrorTypeFramework :: int where
  "ErrorTypeFramework = 1"

definition ErrorTypeBusiness :: int where
  "ErrorTypeBusiness = 2"

definition ErrorTypeCalleeFramework :: int where
  "ErrorTypeCalleeFramework = 3"


definition typeDesc :: "int \<Rightarrow> string" where
  "typeDesc t =
     (if t = ErrorTypeFramework then ''framework''
      else if t = ErrorTypeCalleeFramework then ''callee framework''
      else ''business'')"

fun err_Error :: "go_error \<Rightarrow> string" where
  "err_Error NilError = ''success''"
| "err_Error (OtherError t w) = t"
| "err_Error (TrpcError t c m d None) =
     ''type:'' @ typeDesc t @ '', code:'' @ Itoa (sint c) @ '', msg:'' @ m"
| "err_Error (TrpcError t c m d (Some cause)) =
     ''type:'' @ typeDesc t @ '', code:'' @ Itoa (sint c) @ '', msg:'' @ m @ '', caused by '' @ err_Error cause"

definition err_New :: "u32 \<Rightarrow> string \<Rightarrow> go_error" where
  "err_New code m = TrpcError ErrorTypeBusiness code m [] None"

definition NewFrameError :: "u32 \<Rightarrow> string \<Rightarrow> go_error" where
  "NewFrameError code m = TrpcError ErrorTypeFramework code m ''trpc'' None"

definition Wrap :: "go_error option \<Rightarrow> u32 \<Rightarrow> string \<Rightarrow> go_error option" where
  "Wrap err code m =
     (case err of None \<Rightarrow> None | Some e \<Rightarrow> Some (TrpcError ErrorTypeBusiness code m [] (Some e)))"

definition WrapFrameError :: "go_error option \<Rightarrow> u32 \<Rightarrow> string \<Rightarrow> go_error option" where
  "WrapFrameError err code m =
     (case err of None \<Rightarrow> None | Some e \<Rightarrow> Some (TrpcError ErrorTypeFramework code m ''trpc'' (Some e)))"

text \<open>\<open>errors.As(e, &err)\<close> for \<open>err *Error\<close>: the first \<open>*Error\<close> of the chain.\<close>

fun errors_As :: "go_error \<Rightarrow> go_error option" where
  "errors_As (OtherError t None) = None"
| "errors_As (OtherError t (Some e)) = errors_As e"
| "errors_As e = Some e"

definition err_Code :: "ret_codes \<Rightarrow> go_error option \<Rightarrow> u32" where
  "err_Code rc e =
     (case e of None \<Rightarrow> RetOK rc
      | Some e \<Rightarrow> (case errors_As e of
          None \<Rightarrow> RetUnknown rc
        | Some NilError \<Rightarrow> RetOK rc
        | Some err \<Rightarrow> e_Code err))"

definition err_Msg :: "go_error option \<Rightarrow> string" where
  "err_Msg e =
     (case e of None \<Rightarrow> ''success''
      | Some e \<Rightarrow> (case errors_As e of
          None \<Rightarrow> err_Error e
        | Some NilError \<Rightarrow> ''success''
        | Some err \<Rightarrow> if e_cause err \<noteq> None then err_Error err else e_Msg err))"

lemma errors_As_shape: "errors_As e = Some e' \<Longrightarrow> e' = NilError \<or> (\<exists>t c m d w. e' = TrpcError t c m d w)"
  by (induction e rule: errors_As.induct) auto

lemma err_Code_simps [simp]:
  "err_Code rc None = RetOK rc"
  "err_Code rc (Some (TrpcError t c m d w)) = c"
  by (simp_all add: err_Code_def)

lemma err_Msg_simps [simp]:
  "err_Msg None = ''success''"
  "err_Msg (Some (TrpcError t c m d None)) = m"
  by (simp_all add: err_Msg_def)

end
