(* ===== verification/RPC_Name.thy ===== *)
theory RPC_Name
  imports Go_Prelude
begin

text \<open>
  Service and method names (end of \<open>codec/message_impl.go\<close>): taking a service name apart into app,
  server and service, the method of an RPC name, and the hand-written recogniser of tRPC RPC names.
\<close>

subsection \<open>message_impl.go\<close>

definition Index :: "string \<Rightarrow> char \<Rightarrow> int" where
  "Index s c = (case IndexByte s c of None \<Rightarrow> -1 | Some i \<Rightarrow> int i)"

abbreviation ServiceSectionLength :: nat where "ServiceSectionLength \<equiv> 4"

definition getAppServerService :: "string \<Rightarrow> string \<times> string \<times> string" where
  "getAppServerService s =
     (if count_list s (CHR ''.'') \<ge> ServiceSectionLength - 1 then
        (let i = Index s (CHR ''.'') + 1;
             j = Index (drop (nat i) s) (CHR ''.'') + i + 1;
             k = Index (drop (nat j) s) (CHR ''.'') + j + 1
         in (slice (nat i) (nat (j - 1)) s, slice (nat j) (nat (k - 1)) s, drop (nat k) s))
      else
        (let i = Index s (CHR ''.'') in
         if i = -1 then (s, [], [])
         else
           (let app = take (nat i) s; i = i + 1; j = Index (drop (nat i) s) (CHR ''.'') in
            if j = -1 then (app, drop (nat i) s, [])
            else (let j = j + i + 1 in (app, slice (nat i) (nat (j - 1)) s, drop (nat j) s)))))"

definition methodFromRPCName :: "string \<Rightarrow> string" where
  "methodFromRPCName s = (case LastIndexByte s (CHR ''/'') of None \<Rightarrow> s | Some i \<Rightarrow> drop (i + 1) s)"

definition rpcNameIsTRPCForm :: "string \<Rightarrow> bool" where
  "rpcNameIsTRPCForm s =
     (if length s = 0 then False
      else if s ! 0 \<noteq> CHR ''/'' then False
      else
        (let start = 1; firstDot = Index (drop start s) (CHR ''.'') in
         if firstDot = -1 \<or> firstDot = 0 then False
         else if CHR ''/'' \<in> set (slice start (start + nat firstDot) s) then False
         else
           (let secondSlash = Index (drop (start + nat firstDot) s) (CHR ''/'') in
            if secondSlash = -1 \<or> secondSlash = 1 then False
            else if int start + firstDot + secondSlash = int (length s) - 1 then False
            else \<not> (\<exists>c \<in> set (drop (start + nat firstDot + nat secondSlash + 1) s). c = CHR ''/'' \<or> c = CHR ''.''))))"

subsection \<open>Properties\<close>

lemma Index_append: "c \<notin> set a \<Longrightarrow> Index (a @ c # b) c = int (length a)"
  by (simp add: Index_def IndexByte_append)

lemma Index_None: "c \<notin> set a \<Longrightarrow> Index a c = -1"
  using IndexByte_None [of a c] by (simp add: Index_def)

lemma Index_ge: "Index s c \<noteq> -1 \<Longrightarrow> \<exists>a b. s = a @ c # b \<and> c \<notin> set a \<and> Index s c = int (length a)"
proof -
  assume "Index s c \<noteq> -1"
  then have "c \<in> set s" using Index_None by blast
  then obtain a b where "s = a @ c # b" "c \<notin> set a" by (meson split_list_first)
  then show ?thesis using Index_append by blast
qed

lemma form_split:
  assumes "CHR ''.'' \<notin> set a"
  shows "rpcNameIsTRPCForm (CHR ''/'' # a @ CHR ''.'' # v) \<longleftrightarrow> a \<noteq> [] \<and> CHR ''/'' \<notin> set a \<and>
    (let k = Index (CHR ''.'' # v) (CHR ''/'') in k \<noteq> -1 \<and> k \<noteq> 1 \<and> k \<noteq> int (length v)
       \<and> set (drop (nat k) v) \<inter> set ''/.'' = {})"
proof -
  let ?k = "Index (CHR ''.'' # v) (CHR ''/'')"
  have i: "Index (a @ CHR ''.'' # v) (CHR ''.'') = int (length a)" using assms by (rule Index_append)
  have d: "drop (Suc (length a)) (CHR ''/'' # a @ CHR ''.'' # v) = CHR ''.'' # v"
    "drop (Suc (length a + nat ?k)) (a @ CHR ''.'' # v) = drop (nat ?k) v"
    "slice 1 (1 + length a) (CHR ''/'' # a @ CHR ''.'' # v) = a"
    by (simp_all add: slice_def)
  have e: "1 + int (length a) + ?k = int (length (CHR ''/'' # a @ CHR ''.'' # v)) - 1 \<longleftrightarrow> ?k = int (length v)"
    by auto
  show ?thesis
    by (auto simp: rpcNameIsTRPCForm_def Let_def i d e [simplified] slice_def)
qed

text \<open>the hand-written test agrees with the regular expression its comment gives,
  \<open>^/[^/.]+\.[^/]+/[^/.]+$\<close>: an RPC name has the tRPC form iff it is a slash, a non-empty part
  without slash and dot, a dot, a non-empty part without slash, a slash, and a non-empty method
  name without slash and dot.\<close>

theorem rpcNameIsTRPCForm_regexp:
  "rpcNameIsTRPCForm s \<longleftrightarrow>
     (\<exists>a b m. s = ''/'' @ a @ ''.'' @ b @ ''/'' @ m \<and> a \<noteq> [] \<and> b \<noteq> [] \<and> m \<noteq> []
        \<and> set a \<inter> set ''/.'' = {} \<and> CHR ''/'' \<notin> set b \<and> set m \<inter> set ''/.'' = {})"
  (is "_ \<longleftrightarrow> ?R")
proof
  assume f: "rpcNameIsTRPCForm s"
  then obtain u where u: "s = CHR ''/'' # u" by (cases s) (auto simp: rpcNameIsTRPCForm_def split: if_splits)
  from f u have "Index u (CHR ''.'') \<noteq> -1" by (auto simp: rpcNameIsTRPCForm_def Let_def)
  then obtain a v where a: "u = a @ CHR ''.'' # v" "CHR ''.'' \<notin> set a" using Index_ge by blast
  let ?k = "Index (CHR ''.'' # v) (CHR ''/'')"
  from f [unfolded u a(1) form_split [OF a(2)]] have k: "a \<noteq> []" "CHR ''/'' \<notin> set a" "?k \<noteq> -1" "?k \<noteq> 1"
    "?k \<noteq> int (length v)" "set (drop (nat ?k) v) \<inter> set ''/.'' = {}"
    by (simp_all add: Let_def)
  from Index_ge [OF k(3)] obtain b' m where "CHR ''.'' # v = b' @ CHR ''/'' # m" "CHR ''/'' \<notin> set b'"
    "?k = int (length b')" by blast
  then obtain b where b: "v = b @ CHR ''/'' # m" "CHR ''/'' \<notin> set b" "?k = int (length b + 1)"
    by (cases b') auto
  with k have "b \<noteq> []" "m \<noteq> []" "set m \<inter> set ''/.'' = {}" by (auto simp: nat_add_distrib)
  with u a k b show ?R by (intro exI [of _ a] exI [of _ b] exI [of _ m]) auto
next
  assume ?R
  then obtain a b m where s: "s = CHR ''/'' # a @ CHR ''.'' # b @ CHR ''/'' # m"
    and ne: "a \<noteq> []" "b \<noteq> []" "m \<noteq> []"
    and no: "CHR ''/'' \<notin> set a" "CHR ''.'' \<notin> set a" "CHR ''/'' \<notin> set b" "CHR ''/'' \<notin> set m" "CHR ''.'' \<notin> set m"
    by auto
  have "Index (CHR ''.'' # b @ CHR ''/'' # m) (CHR ''/'') = int (length b + 1)"
    using Index_append [of "CHR ''/''" "CHR ''.'' # b" m] no by simp
  with ne no show "rpcNameIsTRPCForm s" unfolding s form_split [OF no(2)] by (simp add: Let_def nat_add_distrib)
qed

text \<open>service names are taken apart as documented. For a name of four or more sections
  \<open>trpc.app.server.service\<close> (the service part may contain further dots) the parser returns exactly
  the app, server and service sections; a name of three, two or one sections gives the sections it
  has, the rest empty.\<close>

theorem getAppServerService_sections:
  assumes "CHR ''.'' \<notin> set p" "CHR ''.'' \<notin> set app" "CHR ''.'' \<notin> set server"
  shows "getAppServerService (Join [p, app, server, service] ''.'') = (app, server, service)
    \<and> (CHR ''.'' \<notin> set service \<longrightarrow> getAppServerService (Join [app, server, service] ''.'') = (app, server, service))
    \<and> getAppServerService (Join [app, server] ''.'') = (app, server, [])
    \<and> getAppServerService app = (app, [], [])"
proof -
  have 0: "count_list x (CHR ''.'') = 0" if "CHR ''.'' \<notin> set x" for x using that by (induction x) auto
  let ?s = "p @ CHR ''.'' # app @ CHR ''.'' # server @ CHR ''.'' # service"
  have i: "Index ?s (CHR ''.'') = int (length p)"
    "Index (app @ CHR ''.'' # server @ CHR ''.'' # service) (CHR ''.'') = int (length app)"
    "Index (server @ CHR ''.'' # service) (CHR ''.'') = int (length server)"
    using assms by (simp_all add: Index_append)
  have d: "drop (nat (int (length p) + 1)) ?s = app @ CHR ''.'' # server @ CHR ''.'' # service"
    "drop (nat (int (length app) + (int (length p) + 1) + 1)) ?s = server @ CHR ''.'' # service"
    "drop (nat (int (length server) + (int (length app) + (int (length p) + 1) + 1) + 1)) ?s = service"
    by (simp_all add: nat_add_distrib drop_Cons')
  have "getAppServerService (Join [p, app, server, service] ''.'') = (app, server, service)"
    using d by (simp add: getAppServerService_def Let_def i 0 assms slice_def nat_add_distrib)
  moreover have "CHR ''.'' \<notin> set service \<longrightarrow> getAppServerService (Join [app, server, service] ''.'') = (app, server, service)"
    using assms by (simp add: getAppServerService_def Let_def Index_append 0 slice_def nat_add_distrib)
  moreover have "getAppServerService (Join [app, server] ''.'') = (app, server, [])"
    using assms by (simp add: getAppServerService_def Let_def Index_append Index_None 0 nat_add_distrib)
  moreover have "getAppServerService app = (app, [], [])"
    using assms by (simp add: getAppServerService_def Let_def Index_None 0)
  ultimately show ?thesis by blast
qed

theorem getAppServerService_sections_witness:
  "getAppServerService (Join [''trpc'', ''app'', ''srv'', ''S.v2''] ''.'') = (''app'', ''srv'', ''S.v2'')"
  using getAppServerService_sections [of "''trpc''" "''app''" "''srv''" "''S.v2''"] by simp

end
