(* ===== verification/Message.thy ===== *)
theory Message
  imports Errs RPC_Name "HOL-Library.AList"
begin

text \<open>
  The RPC message of \<open>codec/message_impl.go\<close>, the state that codecs, filters and transports
  share for one call: its fields, the setters with logic of their own (service names, RPC names,
  metadata), cloning for a downstream call, and the pool discipline. The protocol head structures
  that a message carries are those of the generated protocol package, with the fields the source
  uses. Maps are association lists (\<open>None\<close> for a nil map); a context is the opaque handle of the
  values it holds other than the message.
\<close>

type_synonym metadata = "(string \<times> bytes) list option"

definition md_list :: "metadata \<Rightarrow> (string \<times> bytes) list" where
  "md_list md = (case md of None \<Rightarrow> [] | Some l \<Rightarrow> l)"

definition md_get :: "metadata \<Rightarrow> string \<Rightarrow> bytes option" where
  "md_get md k = map_of (md_list md) k"

text \<open>\<open>for k, v := range src { dst[k] = v }\<close>.\<close>

definition md_merge :: "metadata \<Rightarrow> metadata \<Rightarrow> metadata" where
  "md_merge dst src = Some (AList.merge (md_list dst) (md_list src))"

lemma md_get_merge: "md_get (md_merge dst src) = md_get dst ++ md_get src"
  by (simp add: md_get_def [abs_def] md_merge_def md_list_def fun_eq_iff merge_conv')

definition md_Clone :: "metadata \<Rightarrow> metadata" where
  "md_Clone md = (case md of None \<Rightarrow> None | Some l \<Rightarrow> md_merge (Some []) (Some l))"

lemma md_get_Clone [simp]: "md_get (md_Clone md) = md_get md"
  by (cases md) (simp_all add: md_Clone_def md_get_merge, simp add: md_get_def [abs_def] md_list_def)

subsection \<open>Protocol structures\<close>

record FrameHead =
  FrameType :: u8
  StreamFrameType :: u8
  TotalLen :: u32
  HeaderLen :: u16
  StreamID :: u32
  ProtocolVersion :: u8
  FrameReserved :: u8

record RequestProtocol =
  rq_Version :: u32
  rq_CallType :: u32
  rq_RequestId :: u32
  rq_Timeout :: u32
  rq_Caller :: string
  rq_Callee :: string
  rq_Func :: string
  rq_MessageType :: u32
  rq_TransInfo :: metadata
  rq_ContentType :: u32
  rq_ContentEncoding :: u32
  rq_AttachmentSize :: u32

record ResponseProtocol =
  rs_Version :: u32
  rs_CallType :: u32
  rs_RequestId :: u32
  rs_Ret :: u32
  rs_FuncRet :: u32
  rs_ErrorMsg :: string
  rs_MessageType :: u32
  rs_TransInfo :: metadata
  rs_ContentType :: u32
  rs_ContentEncoding :: u32
  rs_AttachmentSize :: u32

record InitRequestMeta =
  irq_Caller :: string
  irq_Callee :: string
  irq_Func :: string
  irq_MessageType :: u32
  irq_TransInfo :: metadata

record InitResponseMeta =
  irs_Ret :: u32
  irs_ErrorMsg :: string

record InitMeta =
  im_RequestMeta :: "InitRequestMeta option"
  im_ResponseMeta :: "InitResponseMeta option"
  im_ContentType :: u32
  im_ContentEncoding :: u32
  im_InitWindowSize :: u32

record CloseMeta =
  cm_CloseType :: u32
  cm_Ret :: u32
  cm_FuncRet :: u32
  cm_Msg :: string
  cm_MessageType :: u32
  cm_TransInfo :: metadata

record FeedBackMeta =
  fb_WindowSizeIncrement :: u32

datatype head_any = HeadNil | HeadReq RequestProtocol | HeadRsp ResponseProtocol | HeadOther go_any
datatype frame_head_any = FrameHeadNil | TrpcFrameHead FrameHead | FrameHeadOther go_any
datatype stream_frame_any =
    StreamFrameNil | StreamInit InitMeta | StreamClose CloseMeta | StreamFeedBack FeedBackMeta
  | StreamFrameOther go_any

subsection \<open>Attachments (internal/attachment)\<close>

text \<open>An \<open>io.Reader\<close> as \<open>io.ReadAll\<close> sees it: nil, one that yields some bytes, one that fails.\<close>

datatype reader = ReaderNil | ReaderBytes bytes | ReaderFails

record Attachment =
  att_Request :: reader
  att_Response :: reader

definition NoopAttachment :: reader where
  "NoopAttachment = ReaderBytes []"

datatype meta_key = ClientAttachmentKey | ServerAttachmentKey | OtherKey nat
datatype meta_val = AttachmentVal Attachment | OtherVal go_any

subsection \<open>type msg\<close>

text \<open>A \<open>net.Addr\<close>: nil, or the results of \<open>Network()\<close> and \<open>String()\<close>.\<close>

type_synonym net_addr = "(string \<times> string) option"

record msg =
  frameHead :: frame_head_any
  requestTimeout :: int
  serializationType :: int
  compressType :: int
  streamID :: u32
  dyeing :: bool
  dyeingKey :: string
  serverRPCName :: string
  clientRPCName :: string
  serverMetaData :: metadata
  clientMetaData :: metadata
  callerServiceName :: string
  calleeServiceName :: string
  calleeContainerName :: string
  serverRspErr :: "go_error option"
  clientRspErr :: "go_error option"
  serverReqHead :: head_any
  serverRspHead :: head_any
  clientReqHead :: head_any
  clientRspHead :: head_any
  localAddr :: net_addr
  remoteAddr :: net_addr
  logger :: "go_any option"
  callerApp :: string
  callerServer :: string
  callerService :: string
  callerMethod :: string
  calleeApp :: string
  calleeServer :: string
  calleeService :: string
  calleeMethod :: string
  namespace :: string
  setName :: string
  envName :: string
  envTransfer :: string
  requestID :: u32
  calleeSetName :: string
  streamFrame :: stream_frame_any
  commonMeta :: "(meta_key \<times> meta_val) list option"
  callType :: int

definition resetDefault :: msg where
  "resetDefault = \<lparr>frameHead = FrameHeadNil, requestTimeout = 0, serializationType = 0, compressType = 0,
     streamID = 0, dyeing = False, dyeingKey = [], serverRPCName = [], clientRPCName = [],
     serverMetaData = None, clientMetaData = None, callerServiceName = [], calleeServiceName = [],
     calleeContainerName = [], serverRspErr = None, clientRspErr = None, serverReqHead = HeadNil,
     serverRspHead = HeadNil, clientReqHead = HeadNil, clientRspHead = HeadNil, localAddr = None,
     remoteAddr = None, logger = None, callerApp = [], callerServer = [], callerService = [],
     callerMethod = [], calleeApp = [], calleeServer = [], calleeService = [], calleeMethod = [],
     namespace = [], setName = [], envName = [], envTransfer = [], requestID = 0, calleeSetName = [],
     streamFrame = StreamFrameNil, commonMeta = None, callType = 0\<rparr>"
subsection \<open>Setters\<close>

definition updateMethodNameUsingRPCName :: "string \<Rightarrow> msg \<Rightarrow> msg" where
  "updateMethodNameUsingRPCName s m =
     (if rpcNameIsTRPCForm s then m\<lparr>calleeMethod := methodFromRPCName s\<rparr>
      else if calleeMethod m = [] then m\<lparr>calleeMethod := s\<rparr> else m)"

definition WithServerRPCName :: "string \<Rightarrow> msg \<Rightarrow> msg" where
  "WithServerRPCName s m =
     (if serverRPCName m = s then m else updateMethodNameUsingRPCName s (m\<lparr>serverRPCName := s\<rparr>))"

definition WithClientRPCName :: "string \<Rightarrow> msg \<Rightarrow> msg" where
  "WithClientRPCName s m =
     (if clientRPCName m = s then m else updateMethodNameUsingRPCName s (m\<lparr>clientRPCName := s\<rparr>))"

definition WithServerMetaData :: "metadata \<Rightarrow> msg \<Rightarrow> msg" where
  "WithServerMetaData d m = m\<lparr>serverMetaData := (if d = None then Some [] else d)\<rparr>"

definition WithClientMetaData :: "metadata \<Rightarrow> msg \<Rightarrow> msg" where
  "WithClientMetaData d m = m\<lparr>clientMetaData := (if d = None then Some [] else d)\<rparr>"

definition WithCalleeServiceName :: "string \<Rightarrow> msg \<Rightarrow> msg" where
  "WithCalleeServiceName s m =
     (if calleeServiceName m = s then m
      else if s = ''*'' then m\<lparr>calleeServiceName := s\<rparr>
      else (case getAppServerService s of (app, server, service) \<Rightarrow>
        m\<lparr>calleeServiceName := s, calleeApp := app, calleeServer := server, calleeService := service\<rparr>))"

definition WithCallerServiceName :: "string \<Rightarrow> msg \<Rightarrow> msg" where
  "WithCallerServiceName s m =
     (if callerServiceName m = s then m
      else if s = ''*'' then m\<lparr>callerServiceName := s\<rparr>
      else (case getAppServerService s of (app, server, service) \<Rightarrow>
        m\<lparr>callerServiceName := s, callerApp := app, callerServer := server, callerService := service\<rparr>))"

text \<open>The error a server handler returned, as an \<open>*errs.Error\<close>: any other error becomes a business
  error with the code for unknown errors, and a typed nil pointer is the nil result.\<close>

definition ServerRspErr :: "ret_codes \<Rightarrow> msg \<Rightarrow> go_error option" where
  "ServerRspErr rc m =
     (case serverRspErr m of
        None \<Rightarrow> None
      | Some NilError \<Rightarrow> None
      | Some (OtherError t w) \<Rightarrow> Some (TrpcError ErrorTypeBusiness (RetUnknown rc) t [] None)
      | Some e \<Rightarrow> Some e)"

subsection \<open>Cloning\<close>

definition cm_Clone :: "(meta_key \<times> meta_val) list option \<Rightarrow> (meta_key \<times> meta_val) list option" where
  "cm_Clone c = map_option (\<lambda>l. AList.merge [] l) c"

definition copyCommonMessage :: "msg \<Rightarrow> msg \<Rightarrow> msg" where
  "copyCommonMessage m newMsg = newMsg\<lparr>frameHead := frameHead m, requestTimeout := requestTimeout m,
     serializationType := serializationType m, serverRPCName := serverRPCName m,
     clientRPCName := clientRPCName m, serverReqHead := serverReqHead m, serverRspHead := serverRspHead m,
     dyeing := dyeing m, dyeingKey := dyeingKey m, serverMetaData := md_Clone (serverMetaData m),
     logger := logger m, namespace := namespace m, envName := envName m, setName := setName m,
     envTransfer := envTransfer m, commonMeta := cm_Clone (commonMeta m)\<rparr>"

definition copyServerToClientMessage :: "msg \<Rightarrow> msg \<Rightarrow> msg" where
  "copyServerToClientMessage m newMsg = newMsg\<lparr>clientMetaData := md_Clone (serverMetaData m),
     callerServiceName := calleeServiceName m, callerApp := calleeApp m, callerServer := calleeServer m,
     callerService := calleeService m, callerMethod := calleeMethod m\<rparr>"

definition copyServerToServerMessage :: "msg \<Rightarrow> msg \<Rightarrow> msg" where
  "copyServerToServerMessage m newMsg = newMsg\<lparr>callerServiceName := callerServiceName m,
     callerApp := callerApp m, callerServer := callerServer m, callerService := callerService m,
     callerMethod := callerMethod m, calleeServiceName := calleeServiceName m,
     calleeService := calleeService m, calleeApp := calleeApp m, calleeServer := calleeServer m,
     calleeMethod := calleeMethod m\<rparr>"

text \<open>A context is either without a message or with one; \<open>msgPool.Get\<close> gives a message as \<open>resetDefault\<close>
  leaves it.\<close>

definition WithCloneMessage :: "msg option \<Rightarrow> msg" where
  "WithCloneMessage ctx =
     (case ctx of
        None \<Rightarrow> resetDefault
      | Some m \<Rightarrow> copyServerToClientMessage m (copyCommonMessage m resetDefault))"

definition WithCloneContextAndMessage :: "msg option \<Rightarrow> msg" where
  "WithCloneContextAndMessage ctx =
     (case ctx of
        None \<Rightarrow> resetDefault
      | Some m \<Rightarrow> copyServerToServerMessage m (copyCommonMessage m resetDefault))"

text \<open>\<open>CopyMsg\<close>, setter by setter. \<open>ServerRspErr\<close> returns an \<open>*errs.Error\<close>, so a message without an error
  hands on a typed nil pointer.\<close>

definition CopyMsg :: "ret_codes \<Rightarrow> msg \<Rightarrow> msg \<Rightarrow> msg" where
  "CopyMsg rc dst src =
     (let d = dst\<lparr>frameHead := frameHead src, requestTimeout := requestTimeout src,
                  serializationType := serializationType src, compressType := compressType src,
                  streamID := streamID src, dyeing := dyeing src, dyeingKey := dyeingKey src\<rparr>;
          d = WithServerRPCName (serverRPCName src) d;
          d = WithClientRPCName (clientRPCName src) d;
          d = WithServerMetaData (md_Clone (serverMetaData src)) d;
          d = WithClientMetaData (md_Clone (clientMetaData src)) d;
          d = WithCallerServiceName (callerServiceName src) d;
          d = WithCalleeServiceName (calleeServiceName src) d
      in d\<lparr>calleeContainerName := calleeContainerName src,
           serverRspErr := (case ServerRspErr rc src of None \<Rightarrow> Some NilError | Some e \<Rightarrow> Some e),
           clientRspErr := clientRspErr src, serverReqHead := serverReqHead src,
           serverRspHead := serverRspHead src, clientReqHead := clientReqHead src,
           clientRspHead := clientRspHead src, localAddr := localAddr src, remoteAddr := remoteAddr src,
           logger := logger src, callerApp := callerApp src, callerServer := callerServer src,
           callerService := callerService src, callerMethod := callerMethod src, calleeApp := calleeApp src,
           calleeServer := calleeServer src, calleeService := calleeService src,
           calleeMethod := calleeMethod src, namespace := namespace src, setName := setName src,
           envName := envName src, envTransfer := envTransfer src, requestID := requestID src,
           streamFrame := streamFrame src, calleeSetName := calleeSetName src,
           commonMeta := cm_Clone (commonMeta src), callType := callType src\<rparr>)"

lemma CopyMsg_conn [simp]:
  "localAddr (CopyMsg rc d m) = localAddr m" "remoteAddr (CopyMsg rc d m) = remoteAddr m"
  "streamFrame (CopyMsg rc d m) = streamFrame m"
  by (simp_all add: CopyMsg_def Let_def)

lemma streamID_setters [simp]:
  "streamID (WithServerRPCName n d) = streamID d" "streamID (WithClientRPCName n d) = streamID d"
  "streamID (WithServerMetaData md d) = streamID d" "streamID (WithClientMetaData md d) = streamID d"
  "streamID (WithCallerServiceName n d) = streamID d" "streamID (WithCalleeServiceName n d) = streamID d"
  by (simp_all add: WithServerRPCName_def WithClientRPCName_def updateMethodNameUsingRPCName_def WithServerMetaData_def
      WithClientMetaData_def WithCallerServiceName_def WithCalleeServiceName_def split: prod.split)

lemma streamID_CopyMsg [simp]: "streamID (CopyMsg rc d m) = streamID m"
  by (simp add: CopyMsg_def Let_def)

subsection \<open>Attachment access\<close>

definition get_attachment :: "meta_key \<Rightarrow> msg \<Rightarrow> Attachment option" where
  "get_attachment k m =
     (case commonMeta m of None \<Rightarrow> None
      | Some c \<Rightarrow> (case map_of c k of Some (AttachmentVal a) \<Rightarrow> Some a | _ \<Rightarrow> None))"

definition ClientRequestAttachment :: "msg \<Rightarrow> reader option" where
  "ClientRequestAttachment m = map_option att_Request (get_attachment ClientAttachmentKey m)"

definition ServerResponseAttachment :: "msg \<Rightarrow> reader option" where
  "ServerResponseAttachment m = map_option att_Response (get_attachment ServerAttachmentKey m)"

definition put_meta :: "meta_key \<Rightarrow> meta_val \<Rightarrow> msg \<Rightarrow> msg" where
  "put_meta k v m = m\<lparr>commonMeta := Some (AList.update k v (case commonMeta m of None \<Rightarrow> [] | Some c \<Rightarrow> c))\<rparr>"

definition SetClientResponseAttachment :: "msg \<Rightarrow> bytes \<Rightarrow> msg" where
  "SetClientResponseAttachment m attachment =
     (case get_attachment ClientAttachmentKey m of
        None \<Rightarrow> m
      | Some a \<Rightarrow> put_meta ClientAttachmentKey (AttachmentVal (a\<lparr>att_Response := ReaderBytes attachment\<rparr>)) m)"

definition SetServerRequestAttachment :: "msg \<Rightarrow> bytes \<Rightarrow> msg" where
  "SetServerRequestAttachment m attachment =
     put_meta ServerAttachmentKey
       (AttachmentVal \<lparr>att_Request = ReaderBytes attachment, att_Response = NoopAttachment\<rparr>) m"

lemma get_attachment_put [simp]:
  "get_attachment k (put_meta k (AttachmentVal a) m) = Some a"
  by (simp add: get_attachment_def put_meta_def update_conv split: option.splits)

end
