(* ===== verification/Frame.thy ===== *)
theory Frame
  imports Message
begin

text \<open>
  Framing of the tRPC protocol (first half of \<open>codec.go\<close>): the 16-byte frame head, \<open>extract\<close>
  and \<open>construct\<close>, and the framer that cuts frames out of a byte stream. The reader of the framer is
  the list of bytes that are still to come before end of file; the numeric constants of the
  generated protocol package and the texts of the error values are the fields of \<open>pb_consts\<close>. \<open>DefaultMaxFrameSize\<close> is a Go variable
  and therefore an argument.
\<close>

datatype codec_error =
    errHeadOverflowsUint16 | errHeadOverflowsUint32 | errAttachmentOverflowsUint32 | errFrameTooLarge
  | errReadHeader | errMagicMismatch | errTotalLenTooSmall | errTotalLenTooLarge | errReadBody
  | errBufLenInvalid | errTotalLenMismatch | errHeadLenEmpty | errHeadLenInvalid | errUnmarshal | errMarshal
  | errAttachmentLen | errReadAttachment | errHeadType | errRequestIdMismatch
  | errUnknownFrameType | errEncodeCloseFrame | errEncodeFeedbackFrame | errUninitializedMeta
  | errStreamDecode go_error

record pb_consts =
  TRPC_MAGIC_VALUE :: u16
  TRPC_UNARY_FRAME :: u8
  TRPC_STREAM_FRAME :: u8
  TRPC_STREAM_FRAME_INIT :: u8
  TRPC_STREAM_FRAME_DATA :: u8
  TRPC_STREAM_FRAME_CLOSE :: u8
  TRPC_STREAM_FRAME_FEEDBACK :: u8
  TRPC_STREAM_RESET :: u32
  TRPC_PROTO_V1 :: u32
  TRPC_UNARY_CALL :: u32
  TRPC_DYEING_MESSAGE :: u32
  pb_codes :: ret_codes
  err_text :: "codec_error \<Rightarrow> string"

abbreviation frameHeadLen :: nat where "frameHeadLen \<equiv> 16"

definition curProtocolVersion :: u8 where
  "curProtocolVersion = 1"

definition newDefaultUnaryFrameHead :: "pb_consts \<Rightarrow> FrameHead" where
  "newDefaultUnaryFrameHead pb = \<lparr>FrameType = TRPC_UNARY_FRAME pb, StreamFrameType = 0, TotalLen = 0,
     HeaderLen = 0, StreamID = 0, ProtocolVersion = curProtocolVersion, FrameReserved = 0\<rparr>"

text \<open>\<open>extract\<close> indexes up to byte 15; a shorter buffer panics.\<close>

definition extract_head :: "FrameHead \<Rightarrow> bytes \<Rightarrow> (codec_error, FrameHead) res" where
  "extract_head h buf =
     (if length buf < 16 then Panic
      else Ok (h\<lparr>FrameType := buf ! 2, StreamFrameType := buf ! 3, TotalLen := Uint32 (slice 4 8 buf),
                 HeaderLen := Uint16 (slice 8 10 buf), StreamID := Uint32 (slice 10 14 buf),
                 ProtocolVersion := buf ! 14, FrameReserved := buf ! 15\<rparr>))"

definition construct ::
    "pb_consts \<Rightarrow> nat \<Rightarrow> FrameHead \<Rightarrow> bytes \<Rightarrow> bytes \<Rightarrow> bytes \<Rightarrow> (codec_error, bytes) res" where
  "construct pb maxFrameSize h header body attachment =
     (if length header > 2 ^ 16 - 1 then Err errHeadOverflowsUint16
      else if length attachment > 2 ^ 32 - 1 then Err errAttachmentOverflowsUint32
      else (let totalLen = frameHeadLen + length header + length body + length attachment in
        if totalLen > maxFrameSize then Err errFrameTooLarge
        else if totalLen > 2 ^ 32 - 1 then Err errHeadOverflowsUint32
        else Ok (PutUint16 (TRPC_MAGIC_VALUE pb) @ [FrameType h, StreamFrameType h]
               @ PutUint32 (word_of_nat totalLen) @ PutUint16 (word_of_nat (length header))
               @ PutUint32 (StreamID h) @ [ProtocolVersion h, FrameReserved h]
               @ header @ body @ attachment)))"

definition isStream :: "pb_consts \<Rightarrow> FrameHead \<Rightarrow> bool" where
  "isStream pb h \<longleftrightarrow> FrameType h = TRPC_STREAM_FRAME pb"

definition isUnary :: "pb_consts \<Rightarrow> FrameHead \<Rightarrow> bool" where
  "isUnary pb h \<longleftrightarrow> FrameType h = TRPC_UNARY_FRAME pb"

definition upgradeProtocol :: "u8 \<Rightarrow> u32 \<Rightarrow> FrameHead \<Rightarrow> FrameHead" where
  "upgradeProtocol v reqID h = h\<lparr>ProtocolVersion := v, StreamID := reqID\<rparr>"

text \<open>\<open>ReadFrame\<close> returns the frame and what is left in the reader; \<open>io.ReadFull\<close> fails when the
  reader ends early and otherwise returns the full count, so the checks of \<open>num\<close> never fail.\<close>

definition ReadFull :: "nat \<Rightarrow> bytes \<Rightarrow> (bytes \<times> bytes) option" where
  "ReadFull n reader = (if length reader < n then None else Some (take n reader, drop n reader))"

definition ReadFrame :: "pb_consts \<Rightarrow> nat \<Rightarrow> bytes \<Rightarrow> (codec_error, bytes \<times> bytes) res" where
  "ReadFrame pb maxFrameSize reader =
     (case ReadFull frameHeadLen reader of
        None \<Rightarrow> Err errReadHeader
      | Some (header, reader1) \<Rightarrow>
          if Uint16 (slice 0 2 header) \<noteq> TRPC_MAGIC_VALUE pb then Err errMagicMismatch
          else (let totalLen = Uint32 (slice 4 8 header) in
            if totalLen < word_of_nat frameHeadLen then Err errTotalLenTooSmall
            else if totalLen > word_of_nat maxFrameSize then Err errTotalLenTooLarge
            else (case ReadFull (unat totalLen - frameHeadLen) reader1 of
                    None \<Rightarrow> Err errReadBody
                  | Some (msg, reader2) \<Rightarrow> Ok (header @ msg, reader2))))"

definition fb_Parse :: "pb_consts \<Rightarrow> nat \<Rightarrow> bytes \<Rightarrow> (codec_error, u32 \<times> bytes \<times> bytes) res" where
  "fb_Parse pb maxFrameSize reader =
     bind_res (ReadFrame pb maxFrameSize reader) (\<lambda>(buf, rest).
       if length buf < 14 then Panic else Ok (Uint32 (slice 10 14 buf), buf, rest))"
subsection \<open>The head of a frame\<close>

definition head_bytes :: "pb_consts \<Rightarrow> FrameHead \<Rightarrow> u32 \<Rightarrow> u16 \<Rightarrow> bytes" where
  "head_bytes pb h tot hlen = PutUint16 (TRPC_MAGIC_VALUE pb) @ [FrameType h, StreamFrameType h]
     @ PutUint32 tot @ PutUint16 hlen @ PutUint32 (StreamID h) @ [ProtocolVersion h, FrameReserved h]"

lemma length_head_bytes [simp]: "length (head_bytes pb h tot hlen) = 16"
  by (simp add: head_bytes_def)

lemma slice_head_bytes [simp]:
  "slice 0 2 (head_bytes pb h tot hlen @ r) = PutUint16 (TRPC_MAGIC_VALUE pb)"
  "slice 4 8 (head_bytes pb h tot hlen @ r) = PutUint32 tot"
  "slice 8 10 (head_bytes pb h tot hlen @ r) = PutUint16 hlen"
  "slice 10 14 (head_bytes pb h tot hlen @ r) = PutUint32 (StreamID h)"
  "(head_bytes pb h tot hlen @ r) ! 2 = FrameType h" "(head_bytes pb h tot hlen @ r) ! 3 = StreamFrameType h"
  "(head_bytes pb h tot hlen @ r) ! 14 = ProtocolVersion h" "(head_bytes pb h tot hlen @ r) ! 15 = FrameReserved h"
  by (simp_all add: head_bytes_def slice_def PutUint16_def PutUint32_def)

lemma slice_head_bytes_Nil [simp]:
  "slice 0 2 (head_bytes pb h tot hlen) = PutUint16 (TRPC_MAGIC_VALUE pb)"
  "slice 4 8 (head_bytes pb h tot hlen) = PutUint32 tot"
  using slice_head_bytes(1,2) [of pb h tot hlen "[]"] by simp_all

lemma extract_head_bytes [simp]:
  "extract_head h0 (head_bytes pb h tot hlen @ r) =
     Ok (h0\<lparr>FrameType := FrameType h, StreamFrameType := StreamFrameType h, TotalLen := tot,
            HeaderLen := hlen, StreamID := StreamID h, ProtocolVersion := ProtocolVersion h,
            FrameReserved := FrameReserved h\<rparr>)"
  by (simp add: extract_head_def)

lemma construct_Ok:
  "construct pb maxSize h hdr body att = Ok buf \<longleftrightarrow>
     length hdr \<le> 2 ^ 16 - 1 \<and> length att \<le> 2 ^ 32 - 1
     \<and> 16 + length hdr + length body + length att \<le> maxSize
     \<and> 16 + length hdr + length body + length att \<le> 2 ^ 32 - 1
     \<and> buf = head_bytes pb h (word_of_nat (16 + length hdr + length body + length att)) (word_of_nat (length hdr))
              @ hdr @ body @ att"
  by (auto simp: construct_def head_bytes_def Let_def not_less)

lemma unat_word_of_nat32: "n \<le> 2 ^ 32 - 1 \<Longrightarrow> unat (word_of_nat n :: u32) = n"
  by (simp add: unat_of_nat)

lemma unat_word_of_nat16: "n \<le> 2 ^ 16 - 1 \<Longrightarrow> unat (word_of_nat n :: u16) = n"
  by (simp add: unat_of_nat)

lemma ReadFrame_head_bytes:
  assumes "n = 16 + length p" "n \<le> maxSize" "maxSize < 2 ^ 32"
  shows "ReadFrame pb maxSize (head_bytes pb h (word_of_nat n) hl @ p @ rest) =
    Ok (head_bytes pb h (word_of_nat n) hl @ p, rest)"
proof -
  have n: "unat (word_of_nat n :: u32) = n" "unat (word_of_nat maxSize :: u32) = maxSize"
    using assms(2,3) by (simp_all add: unat_word_of_nat32)
  then have "\<not> (word_of_nat n :: u32) < word_of_nat 16" "\<not> (word_of_nat n :: u32) > word_of_nat maxSize"
    using assms by (simp_all add: word_less_nat_alt)
  moreover have "n - 16 = length p" using assms(1) by simp
  ultimately show ?thesis by (simp add: ReadFrame_def ReadFull_def Let_def n(1))
qed

fun ReadFrames :: "pb_consts \<Rightarrow> nat \<Rightarrow> nat \<Rightarrow> bytes \<Rightarrow> (codec_error, bytes list \<times> bytes) res" where
  "ReadFrames pb maxSize 0 reader = Ok ([], reader)"
| "ReadFrames pb maxSize (Suc n) reader =
     bind_res (ReadFrame pb maxSize reader) (\<lambda>(f, r).
     bind_res (ReadFrames pb maxSize n r) (\<lambda>(fs, r'). Ok (f # fs, r')))"

definition is_frame :: "pb_consts \<Rightarrow> nat \<Rightarrow> bytes \<Rightarrow> bool" where
  "is_frame pb maxSize f \<longleftrightarrow> (\<exists>h hdr body att. construct pb maxSize h hdr body att = Ok f)"

lemma ReadFrame_construct:
  assumes "construct pb maxSize h hdr body att = Ok f" "maxSize < 2 ^ 32"
  shows "ReadFrame pb maxSize (f @ rest) = Ok (f, rest)"
proof -
  let ?n = "16 + length hdr + length body + length att"
  have f: "f = head_bytes pb h (word_of_nat ?n) (word_of_nat (length hdr)) @ hdr @ body @ att" "?n \<le> maxSize"
    using assms(1) by (auto simp: construct_Ok)
  from ReadFrame_head_bytes [of ?n "hdr @ body @ att" maxSize pb h "word_of_nat (length hdr)" rest] f assms(2)
  show ?thesis by (simp del: of_nat_add)
qed

text \<open>C21: frames are self-delimiting. Whatever frames senders construct and however they are
  concatenated in a byte stream, the framer cuts the stream back into exactly these frames, in order,
  and leaves the bytes that follow them untouched.\<close>

theorem ReadFrames_construct:
  assumes "\<forall>f \<in> set fs. is_frame pb maxSize f" and "maxSize < 2 ^ 32"
  shows "ReadFrames pb maxSize (length fs) (concat fs @ rest) = Ok (fs, rest)"
  using assms
proof (induction fs)
  case (Cons f fs)
  then obtain h hdr body att where "construct pb maxSize h hdr body att = Ok f" by (auto simp: is_frame_def)
  with Cons show ?case by (simp add: ReadFrame_construct)
qed simp

definition sample_pb :: pb_consts where
  "sample_pb = \<lparr>TRPC_MAGIC_VALUE = 2352, TRPC_UNARY_FRAME = 0, TRPC_STREAM_FRAME = 1, TRPC_STREAM_FRAME_INIT = 1,
     TRPC_STREAM_FRAME_DATA = 2, TRPC_STREAM_FRAME_CLOSE = 4, TRPC_STREAM_FRAME_FEEDBACK = 3, TRPC_STREAM_RESET = 1,
     TRPC_PROTO_V1 = 0, TRPC_UNARY_CALL = 0, TRPC_DYEING_MESSAGE = 1,
     pb_codes = \<lparr>RetOK = 0, RetUnknown = 999, RetServerDecodeFail = 1, RetServerEncodeFail = 2\<rparr>,
     err_text = (\<lambda>_. ''error'')\<rparr>"

theorem ReadFrames_construct_witness:
  "\<exists>f g. is_frame sample_pb 100 f \<and> is_frame sample_pb 100 g \<and>
     ReadFrames sample_pb 100 2 (concat [f, g] @ [7]) = Ok ([f, g], [7])"
proof -
  let ?h = "newDefaultUnaryFrameHead sample_pb"
  obtain f g where "construct sample_pb 100 ?h [1, 2] [3] [] = Ok f" "construct sample_pb 100 ?h [1] [] [4] = Ok g"
    by (auto simp: construct_Ok)
  then have "is_frame sample_pb 100 f" "is_frame sample_pb 100 g" by (auto simp: is_frame_def)
  moreover from this have "ReadFrames sample_pb 100 (length [f, g]) (concat [f, g] @ [7]) = Ok ([f, g], [7])"
    by (intro ReadFrames_construct) auto
  ultimately show ?thesis by (metis One_nat_def Suc_1 length_Cons list.size(3))
qed

text \<open>what the framer accepts is bounded and correctly delimited. A frame returned by
  \<open>ReadFrame\<close> is the exact prefix of the stream that its own length field announces, with the magic
  number, at least a head and at most \<open>DefaultMaxFrameSize\<close> bytes long; on every other input, of any
  length and content, the framer returns an error and never panics. Hence the stream id can be read
  from a parsed frame without a bounds check.\<close>

theorem ReadFrame_safe:
  assumes "maxSize < 2 ^ 32"
  shows "case ReadFrame pb maxSize reader of
      Ok (f, rest) \<Rightarrow> reader = f @ rest \<and> 16 \<le> length f \<and> length f \<le> maxSize
        \<and> Uint16 (slice 0 2 f) = TRPC_MAGIC_VALUE pb \<and> unat (Uint32 (slice 4 8 f)) = length f
        \<and> fb_Parse pb maxSize reader = Ok (Uint32 (slice 10 14 f), f, rest)
    | Err e \<Rightarrow> e \<in> {errReadHeader, errMagicMismatch, errTotalLenTooSmall, errTotalLenTooLarge, errReadBody}
    | Panic \<Rightarrow> False"
proof (cases "ReadFrame pb maxSize reader")
  case (Ok fr)
  let ?t = "Uint32 (slice 4 8 (take 16 reader))"
  from Ok have l: "16 \<le> length reader" and m: "Uint16 (slice 0 2 (take 16 reader)) = TRPC_MAGIC_VALUE pb"
    and t: "\<not> ?t < 16" "\<not> ?t > word_of_nat maxSize" "unat ?t - 16 \<le> length reader - 16"
    and fr: "fr = (take 16 reader @ take (unat ?t - 16) (drop 16 reader), drop (unat ?t - 16) (drop 16 reader))"
    by (auto simp: ReadFrame_def ReadFull_def Let_def split: if_splits)
  have t': "16 \<le> unat ?t" "unat ?t \<le> maxSize"
    using t assms by (simp_all add: word_less_nat_alt not_less unat_word_of_nat32)
  then have f: "fr = (take (unat ?t) reader, drop (unat ?t) reader)"
    using fr l t(3) by (simp add: take_add [symmetric])
  have s: "slice i j (take 16 reader) = slice i j (take (unat ?t) reader)" if "j \<le> 16" for i j
    using that t' l t(3) by (simp add: slice_def drop_take min_def)
  have len: "length (take (unat ?t) reader) = unat ?t" using t'(1) t(3) l by simp
  with Ok f m t' s [of 2 0] s [of 8 4] show ?thesis by (simp add: fb_Parse_def)
next
  case (Err e)
  then show ?thesis by (auto simp: ReadFrame_def Let_def split: option.splits if_splits)
next
  case Panic
  then show ?thesis by (auto simp: ReadFrame_def Let_def split: option.splits if_splits)
qed

theorem ReadFrame_safe_witness:
  "(100::nat) < 2 ^ 32 \<and> ReadFrame sample_pb 100 [9, 48, 0, 0] \<noteq> Panic"
  using ReadFrame_safe [where maxSize = 100 and pb = sample_pb and reader = "[9, 48, 0, 0]"]
  by (auto split: res.splits)

end
