(* ===== verification/Stream_Codec.thy ===== *)
theory Stream_Codec
  imports Frame Keyed_Table
begin

text \<open>
  The streaming codecs of \<open>codec_stream.go\<close>. The server codec keeps, per connection and stream, the
  metadata of the stream's init frame; data, feedback and close frames are only accepted for a
  stream whose init frame has been seen, and encoding the close frame forgets the stream.

  Every operation is a function from the codec state and the message to the new state, the new
  message and the result; changes made before an error return are kept. \<open>proto.Marshal\<close> and
  \<open>proto.Unmarshal\<close> are the fields of \<open>stream_pb\<close> (\<open>None\<close> for an error). The frame head that a
  function gets beside the message is the one the message holds, so an update of it is also an
  update of the message.
\<close>

record stream_pb =
  marshalInit :: "InitMeta \<Rightarrow> bytes option"
  unmarshalInit :: "bytes \<Rightarrow> InitMeta option"
  marshalClose :: "CloseMeta \<Rightarrow> bytes option"
  unmarshalClose :: "bytes \<Rightarrow> CloseMeta option"
  marshalFeedBack :: "FeedBackMeta \<Rightarrow> bytes option"
  unmarshalFeedBack :: "bytes \<Rightarrow> FeedBackMeta option"

type_synonym result = "(codec_error, bytes) res"

definition of_marshal :: "bytes option \<Rightarrow> (bytes \<Rightarrow> result) \<Rightarrow> result" where
  "of_marshal b f = (case b of None \<Rightarrow> Err errMarshal | Some buf \<Rightarrow> f buf)"

text \<open>\<open>internal/addrutil\<close>: the key of a connection. A nil address is dereferenced.\<close>

definition AddrToKey :: "net_addr \<Rightarrow> net_addr \<Rightarrow> ('e, string) res" where
  "AddrToKey local remote =
     (case (local, remote) of
        (Some (network, l), Some (_, r)) \<Rightarrow> Ok (Join [network, l, r] ''_'')
      | _ \<Rightarrow> Panic)"

definition frameWrite :: "pb_consts \<Rightarrow> nat \<Rightarrow> FrameHead \<Rightarrow> bytes \<Rightarrow> result" where
  "frameWrite pb maxSize h streamBuf = construct pb maxSize h [] streamBuf []"

abbreviation payload :: "bytes \<Rightarrow> bytes" where
  "payload buf \<equiv> drop frameHeadLen buf"

subsection \<open>setClientTransInfo (codec.go)\<close>

definition DyeingKey_key :: string where
  "DyeingKey_key = ''trpc-dyeing-key''"

definition EnvTransfer_key :: string where
  "EnvTransfer_key = ''trpc-env''"

definition bytes_of :: "string \<Rightarrow> bytes" where
  "bytes_of s = map (\<lambda>c. word_of_nat (of_char c)) s"

definition string_of :: "bytes \<Rightarrow> string" where
  "string_of b = map (\<lambda>w. char_of (unat w)) b"

lemma string_of_bytes_of [simp]: "string_of (bytes_of s) = s"
proof -
  have "char_of (unat (word_of_nat (of_char c) :: byte)) = c" for c
    by (simp add: unat_of_nat del: of_nat_of_char)
  then show ?thesis by (induction s) (simp_all add: string_of_def bytes_of_def del: of_nat_of_char)
qed

definition setClientTransInfo :: "msg \<Rightarrow> metadata \<Rightarrow> metadata" where
  "setClientTransInfo m trans0 =
     (let trans1 = (if md_list (clientMetaData m) \<noteq> [] then md_merge trans0 (clientMetaData m) else trans0);
          trans2 = (if dyeingKey m \<noteq> [] then Some (AList.update DyeingKey_key (bytes_of (dyeingKey m)) (md_list trans1))
                    else trans1)
      in if envTransfer m \<noteq> [] then Some (AList.update EnvTransfer_key (bytes_of (envTransfer m)) (md_list trans2))
         else if md_get trans2 EnvTransfer_key \<noteq> None
           then Some (AList.update EnvTransfer_key [] (md_list trans2))
         else trans2)"

subsection \<open>ServerStreamCodec\<close>

type_synonym init_metas = "(string \<times> (u32 \<times> InitMeta) list) list"

definition NewServerStreamCodec :: init_metas where
  "NewServerStreamCodec = []"

definition storeInitMeta_at :: "string \<Rightarrow> u32 \<Rightarrow> InitMeta \<Rightarrow> init_metas \<Rightarrow> init_metas" where
  "storeInitMeta_at addr sid im s =
     (case map_of s addr of
        Some t \<Rightarrow> AList.update addr (AList.update sid im t) s
      | None \<Rightarrow> AList.update addr [(sid, im)] s)"

definition storeInitMeta :: "msg \<Rightarrow> InitMeta \<Rightarrow> init_metas \<Rightarrow> (codec_error, init_metas) res" where
  "storeInitMeta m im s =
     bind_res (AddrToKey (localAddr m) (remoteAddr m)) (\<lambda>addr. Ok (storeInitMeta_at addr (streamID m) im s))"

definition findInitMeta :: "string \<Rightarrow> u32 \<Rightarrow> init_metas \<Rightarrow> InitMeta option" where
  "findInitMeta addr sid s = (case map_of s addr of None \<Rightarrow> None | Some t \<Rightarrow> map_of t sid)"

definition setInitMeta :: "init_metas \<Rightarrow> msg \<Rightarrow> (codec_error, msg) res" where
  "setInitMeta s m =
     bind_res (AddrToKey (localAddr m) (remoteAddr m)) (\<lambda>addr.
       case findInitMeta addr (streamID m) s of
         Some im \<Rightarrow> Ok (WithServerRPCName (case im_RequestMeta im of None \<Rightarrow> [] | Some r \<Rightarrow> irq_Func r) m)
       | None \<Rightarrow> Err errUninitializedMeta)"

definition deleteInitMeta_at :: "string \<Rightarrow> u32 \<Rightarrow> init_metas \<Rightarrow> init_metas" where
  "deleteInitMeta_at addr sid s =
     (let s1 = (case map_of s addr of None \<Rightarrow> s | Some t \<Rightarrow> AList.update addr (AList.delete sid t) s)
      in if (case map_of s1 addr of None \<Rightarrow> True | Some t \<Rightarrow> length t = 0) then AList.delete addr s1 else s1)"

definition deleteInitMeta :: "msg \<Rightarrow> init_metas \<Rightarrow> (codec_error, init_metas) res" where
  "deleteInitMeta m s =
     bind_res (AddrToKey (localAddr m) (remoteAddr m)) (\<lambda>addr. Ok (deleteInitMeta_at addr (streamID m) s))"

text \<open>\<open>updateMsg\<close>: the getters accept a nil request meta, the field access \<open>req.TransInfo\<close> does not.\<close>

definition stream_updateMsg :: "pb_consts \<Rightarrow> msg \<Rightarrow> InitMeta \<Rightarrow> (codec_error, msg) res" where
  "stream_updateMsg pb m im =
     (case im_RequestMeta im of
        None \<Rightarrow> Panic
      | Some req \<Rightarrow>
          (let m1 = WithServerRPCName (irq_Func req) (WithCalleeServiceName (irq_Callee req)
                      (WithCallerServiceName (irq_Caller req) m));
               m2 = m1\<lparr>serializationType := uint (im_ContentType im), compressType := uint (im_ContentEncoding im),
                       dyeing := (irq_MessageType req AND TRPC_DYEING_MESSAGE pb \<noteq> 0)\<rparr>
           in if md_list (irq_TransInfo req) = [] then Ok m2
              else (let m3 = WithServerMetaData (md_Clone (irq_TransInfo req)) m2;
                        m4 = (case md_get (irq_TransInfo req) DyeingKey_key of
                                None \<Rightarrow> m3 | Some bs \<Rightarrow> m3\<lparr>dyeingKey := string_of bs\<rparr>)
                    in Ok (case md_get (irq_TransInfo req) EnvTransfer_key of
                             None \<Rightarrow> m4 | Some envs \<Rightarrow> m4\<lparr>envTransfer := string_of envs\<rparr>))))"

definition buildResetFrame :: "pb_consts \<Rightarrow> msg \<Rightarrow> FrameHead \<Rightarrow> go_error \<Rightarrow> FrameHead \<times> msg" where
  "buildResetFrame pb m h err =
     (let h' = h\<lparr>StreamFrameType := TRPC_STREAM_FRAME_CLOSE pb\<rparr>;
          close = \<lparr>cm_CloseType = TRPC_STREAM_RESET pb, cm_Ret = err_Code (pb_codes pb) (Some err), cm_FuncRet = 0,
                   cm_Msg = err_Msg (Some err), cm_MessageType = 0, cm_TransInfo = None\<rparr>
      in (h', m\<lparr>frameHead := TrpcFrameHead h', streamFrame := StreamClose close\<rparr>))"

subsection \<open>ServerStreamCodec.Decode\<close>

type_synonym out = "init_metas \<times> msg \<times> result"

definition ss_decodeInitFrame :: "pb_consts \<Rightarrow> stream_pb \<Rightarrow> init_metas \<Rightarrow> msg \<Rightarrow> bytes \<Rightarrow> out" where
  "ss_decodeInitFrame pb sp s m reqBuf =
     (case unmarshalInit sp (payload reqBuf) of
        None \<Rightarrow> (s, m, Err errUnmarshal)
      | Some im \<Rightarrow>
          (case stream_updateMsg pb m im of
             Ok m1 \<Rightarrow> (case storeInitMeta m1 im s of
                 Ok s1 \<Rightarrow> (s1, m1\<lparr>streamFrame := StreamInit im\<rparr>, Ok [])
               | Err e \<Rightarrow> (s, m1, Err e)
               | Panic \<Rightarrow> (s, m1, Panic))
           | Err e \<Rightarrow> (s, m, Err e)
           | Panic \<Rightarrow> (s, m, Panic)))"

definition ss_decodeDataFrame :: "init_metas \<Rightarrow> msg \<Rightarrow> bytes \<Rightarrow> out" where
  "ss_decodeDataFrame s m reqBuf =
     (case setInitMeta s m of
        Ok m1 \<Rightarrow> (s, m1, Ok (payload reqBuf))
      | Err e \<Rightarrow> (s, m, Err e)
      | Panic \<Rightarrow> (s, m, Panic))"

definition ss_decodeFeedbackFrame :: "stream_pb \<Rightarrow> init_metas \<Rightarrow> msg \<Rightarrow> bytes \<Rightarrow> out" where
  "ss_decodeFeedbackFrame sp s m reqBuf =
     (case setInitMeta s m of
        Ok m1 \<Rightarrow> (case unmarshalFeedBack sp (payload reqBuf) of
            None \<Rightarrow> (s, m1, Err errUnmarshal)
          | Some fb \<Rightarrow> (s, m1\<lparr>streamFrame := StreamFeedBack fb\<rparr>, Ok []))
      | Err e \<Rightarrow> (s, m, Err e)
      | Panic \<Rightarrow> (s, m, Panic))"

definition close_err :: "CloseMeta \<Rightarrow> go_error" where
  "close_err close = TrpcError ErrorTypeCalleeFramework (cm_Ret close) (cm_Msg close) ''trpc'' None"

definition ss_decodeCloseFrame :: "pb_consts \<Rightarrow> stream_pb \<Rightarrow> init_metas \<Rightarrow> msg \<Rightarrow> bytes \<Rightarrow> out" where
  "ss_decodeCloseFrame pb sp s m rspBuf =
     (case setInitMeta s m of
        Ok m1 \<Rightarrow> (case unmarshalClose sp (payload rspBuf) of
            None \<Rightarrow> (s, m1, Err errUnmarshal)
          | Some close \<Rightarrow>
              (let m2 = (if cm_CloseType close = TRPC_STREAM_RESET pb \<or> cm_Ret close \<noteq> 0
                         then m1\<lparr>serverRspErr := Some (close_err close)\<rparr> else m1)
               in (s, m2\<lparr>streamFrame := StreamClose close\<rparr>, Ok [])))
      | Err e \<Rightarrow> (s, m, Err e)
      | Panic \<Rightarrow> (s, m, Panic))"

definition ss_Decode :: "pb_consts \<Rightarrow> stream_pb \<Rightarrow> init_metas \<Rightarrow> msg \<Rightarrow> bytes \<Rightarrow> out" where
  "ss_Decode pb sp s m reqBuf =
     (case frameHead m of
        TrpcFrameHead h \<Rightarrow>
          if \<not> isStream pb h then (s, m, Err errUnknownFrameType)
          else (let m = m\<lparr>streamID := StreamID h\<rparr>; t = StreamFrameType h in
            if t = TRPC_STREAM_FRAME_INIT pb then ss_decodeInitFrame pb sp s m reqBuf
            else if t = TRPC_STREAM_FRAME_DATA pb then ss_decodeDataFrame s m reqBuf
            else if t = TRPC_STREAM_FRAME_CLOSE pb then ss_decodeCloseFrame pb sp s m reqBuf
            else if t = TRPC_STREAM_FRAME_FEEDBACK pb then ss_decodeFeedbackFrame sp s m reqBuf
            else (s, m, Err errUnknownFrameType))
      | _ \<Rightarrow> (s, m, Err errUnknownFrameType))"

subsection \<open>ServerStreamCodec.Encode\<close>

definition setStreamCloseMetaData :: "msg \<Rightarrow> CloseMeta \<Rightarrow> CloseMeta" where
  "setStreamCloseMetaData m close =
     (if md_list (serverMetaData m) = [] then close
      else close\<lparr>cm_TransInfo := md_merge (cm_TransInfo close) (serverMetaData m)\<rparr>)"

text \<open>The deferred \<open>deleteInitMeta\<close> runs on every return, with the message as it is then.\<close>

definition ss_encodeCloseFrame ::
    "pb_consts \<Rightarrow> stream_pb \<Rightarrow> nat \<Rightarrow> FrameHead \<Rightarrow> init_metas \<Rightarrow> msg \<Rightarrow> out" where
  "ss_encodeCloseFrame pb sp maxSize h s m =
     (let (m1, r) = (case streamFrame m of
            StreamClose close \<Rightarrow>
              (let close' = setStreamCloseMetaData m close
               in (m\<lparr>streamFrame := StreamClose close', streamID := StreamID h\<rparr>,
                   of_marshal (marshalClose sp close') (frameWrite pb maxSize h)))
          | _ \<Rightarrow> (m, Err errEncodeCloseFrame))
      in case deleteInitMeta m1 s of Ok s1 \<Rightarrow> (s1, m1, r) | _ \<Rightarrow> (s, m1, Panic))"

definition ss_encodeDataFrame ::
    "pb_consts \<Rightarrow> stream_pb \<Rightarrow> nat \<Rightarrow> FrameHead \<Rightarrow> init_metas \<Rightarrow> msg \<Rightarrow> bytes \<Rightarrow> out" where
  "ss_encodeDataFrame pb sp maxSize h s m reqBuf =
     (case ServerRspErr (pb_codes pb) m of
        Some err \<Rightarrow> (let (h', m') = buildResetFrame pb m h err in ss_encodeCloseFrame pb sp maxSize h' s m')
      | None \<Rightarrow> (s, m, frameWrite pb maxSize h reqBuf))"

definition ss_encodeInitFrame ::
    "pb_consts \<Rightarrow> stream_pb \<Rightarrow> nat \<Rightarrow> FrameHead \<Rightarrow> init_metas \<Rightarrow> msg \<Rightarrow> out" where
  "ss_encodeInitFrame pb sp maxSize h s m =
     (let rsp0 = (case streamFrame m of
            StreamInit im \<Rightarrow> im
          | _ \<Rightarrow> \<lparr>im_RequestMeta = None, im_ResponseMeta = Some \<lparr>irs_Ret = 0, irs_ErrorMsg = []\<rparr>,
                  im_ContentType = 0, im_ContentEncoding = 0, im_InitWindowSize = 0\<rparr>);
          enc = (\<lambda>rspMeta.
            (let rsp = rsp0\<lparr>im_ContentType := word_of_int (serializationType m),
                            im_ContentEncoding := word_of_int (compressType m), im_ResponseMeta := Some rspMeta\<rparr>;
                 m' = (case streamFrame m of StreamInit im \<Rightarrow> m\<lparr>streamFrame := StreamInit rsp\<rparr> | _ \<Rightarrow> m)
             in (s, m', of_marshal (marshalInit sp rsp) (frameWrite pb maxSize h))))
      in case ServerRspErr (pb_codes pb) m of
           None \<Rightarrow> enc \<lparr>irs_Ret = 0, irs_ErrorMsg = []\<rparr>
         | Some e \<Rightarrow> enc \<lparr>irs_Ret = e_Code e, irs_ErrorMsg = e_Msg e\<rparr>)"

definition ss_encodeFeedbackFrame ::
    "pb_consts \<Rightarrow> stream_pb \<Rightarrow> nat \<Rightarrow> FrameHead \<Rightarrow> init_metas \<Rightarrow> msg \<Rightarrow> out" where
  "ss_encodeFeedbackFrame pb sp maxSize h s m =
     (case streamFrame m of
        StreamFeedBack fb \<Rightarrow> (s, m, of_marshal (marshalFeedBack sp fb) (frameWrite pb maxSize h))
      | _ \<Rightarrow> (s, m, Err errEncodeFeedbackFrame))"

definition ss_Encode ::
    "pb_consts \<Rightarrow> stream_pb \<Rightarrow> nat \<Rightarrow> init_metas \<Rightarrow> msg \<Rightarrow> bytes \<Rightarrow> out" where
  "ss_Encode pb sp maxSize s m reqBuf =
     (case frameHead m of
        TrpcFrameHead h \<Rightarrow>
          if \<not> isStream pb h then (s, m, Err errUnknownFrameType)
          else (let t = StreamFrameType h in
            if t = TRPC_STREAM_FRAME_INIT pb then ss_encodeInitFrame pb sp maxSize h s m
            else if t = TRPC_STREAM_FRAME_DATA pb then ss_encodeDataFrame pb sp maxSize h s m reqBuf
            else if t = TRPC_STREAM_FRAME_CLOSE pb then ss_encodeCloseFrame pb sp maxSize h s m
            else if t = TRPC_STREAM_FRAME_FEEDBACK pb then ss_encodeFeedbackFrame pb sp maxSize h s m
            else (s, m, Err errUnknownFrameType))
      | _ \<Rightarrow> (s, m, Err errUnknownFrameType))"
subsection \<open>ClientStreamCodec\<close>

definition updateClientStreamCloseMeta :: "msg \<Rightarrow> CloseMeta \<Rightarrow> msg" where
  "updateClientStreamCloseMeta m close =
     (let m1 = (case clientRspHead m of
            HeadRsp rsp \<Rightarrow> m\<lparr>clientRspHead := HeadRsp (rsp\<lparr>rs_Ret := cm_Ret close, rs_FuncRet := cm_FuncRet close,
              rs_ErrorMsg := cm_Msg close, rs_MessageType := cm_MessageType close, rs_TransInfo := cm_TransInfo close\<rparr>)\<rparr>
          | _ \<Rightarrow> m)
      in if md_list (cm_TransInfo close) = [] then m1
         else WithClientMetaData (md_merge (clientMetaData m1) (cm_TransInfo close)) m1)"

definition cs_decodeCloseFrame :: "pb_consts \<Rightarrow> stream_pb \<Rightarrow> msg \<Rightarrow> bytes \<Rightarrow> msg \<times> result" where
  "cs_decodeCloseFrame pb sp m rspBuf =
     (case unmarshalClose sp (payload rspBuf) of
        None \<Rightarrow> (m, Err errUnmarshal)
      | Some close \<Rightarrow>
          (let m1 = updateClientStreamCloseMeta m close;
               m2 = (if cm_CloseType close = TRPC_STREAM_RESET pb \<or> cm_Ret close \<noteq> 0
                       then m1\<lparr>clientRspErr := Some (close_err close)\<rparr>
                     else if cm_FuncRet close \<noteq> 0
                       then m1\<lparr>clientRspErr := Some (err_New (cm_FuncRet close) (cm_Msg close))\<rparr>
                     else m1)
           in (m2\<lparr>streamFrame := StreamClose close\<rparr>, Ok [])))"

definition cs_decodeFeedbackFrame :: "stream_pb \<Rightarrow> msg \<Rightarrow> bytes \<Rightarrow> msg \<times> result" where
  "cs_decodeFeedbackFrame sp m rspBuf =
     (case unmarshalFeedBack sp (payload rspBuf) of
        None \<Rightarrow> (m, Err errUnmarshal)
      | Some fb \<Rightarrow> (m\<lparr>streamFrame := StreamFeedBack fb\<rparr>, Ok []))"

definition cs_decodeInitFrame :: "stream_pb \<Rightarrow> msg \<Rightarrow> bytes \<Rightarrow> msg \<times> result" where
  "cs_decodeInitFrame sp m rspBuf =
     (case unmarshalInit sp (payload rspBuf) of
        None \<Rightarrow> (m, Err errUnmarshal)
      | Some im \<Rightarrow>
          (let m1 = m\<lparr>compressType := uint (im_ContentEncoding im), serializationType := uint (im_ContentType im)\<rparr>;
               ret = (case im_ResponseMeta im of None \<Rightarrow> 0 | Some r \<Rightarrow> irs_Ret r);
               em = (case im_ResponseMeta im of None \<Rightarrow> [] | Some r \<Rightarrow> irs_ErrorMsg r);
               m2 = (if ret \<noteq> 0 then m1\<lparr>clientRspErr := Some (TrpcError ErrorTypeCalleeFramework ret em ''trpc'' None)\<rparr>
                     else m1)
           in (m2\<lparr>streamFrame := StreamInit im\<rparr>, Ok [])))"

definition cs_decodeDataFrame :: "msg \<Rightarrow> bytes \<Rightarrow> msg \<times> result" where
  "cs_decodeDataFrame m rspBuf = (m, Ok (payload rspBuf))"

definition cs_Decode :: "pb_consts \<Rightarrow> stream_pb \<Rightarrow> msg \<Rightarrow> bytes \<Rightarrow> msg \<times> result" where
  "cs_Decode pb sp m rspBuf =
     (case frameHead m of
        TrpcFrameHead h \<Rightarrow>
          if \<not> isStream pb h then (m, Err errUnknownFrameType)
          else (let m = m\<lparr>streamID := StreamID h\<rparr>; t = StreamFrameType h in
            if t = TRPC_STREAM_FRAME_INIT pb then cs_decodeInitFrame sp m rspBuf
            else if t = TRPC_STREAM_FRAME_DATA pb then cs_decodeDataFrame m rspBuf
            else if t = TRPC_STREAM_FRAME_CLOSE pb then cs_decodeCloseFrame pb sp m rspBuf
            else if t = TRPC_STREAM_FRAME_FEEDBACK pb then cs_decodeFeedbackFrame sp m rspBuf
            else (m, Err errUnknownFrameType))
      | _ \<Rightarrow> (m, Err errUnknownFrameType))"

text \<open>\<open>processName\<close> is \<open>path.Base(os.Args[0])\<close>. The request meta of a prepared init frame may be nil;
  the assignment to its fields then panics.\<close>

definition cs_encodeInitFrame ::
    "pb_consts \<Rightarrow> stream_pb \<Rightarrow> nat \<Rightarrow> string \<Rightarrow> FrameHead \<Rightarrow> msg \<Rightarrow> msg \<times> result" where
  "cs_encodeInitFrame pb sp maxSize processName h m =
     (let im = (case streamFrame m of
            StreamInit im \<Rightarrow> im
          | _ \<Rightarrow> \<lparr>im_RequestMeta = Some \<lparr>irq_Caller = [], irq_Callee = [], irq_Func = [], irq_MessageType = 0,
                    irq_TransInfo = None\<rparr>, im_ResponseMeta = None, im_ContentType = 0, im_ContentEncoding = 0,
                  im_InitWindowSize = 0\<rparr>);
          m1 = (if callerServiceName m = [] then WithCallerServiceName (''trpc.app.'' @ processName @ ''.service'') m
                else m)
      in case im_RequestMeta im of
           None \<Rightarrow> (m1, Panic)
         | Some req \<Rightarrow>
             (let req' = \<lparr>irq_Caller = callerServiceName m1, irq_Callee = calleeServiceName m1,
                    irq_Func = clientRPCName m1,
                    irq_MessageType = (if dyeing m1 then irq_MessageType req OR TRPC_DYEING_MESSAGE pb
                                       else irq_MessageType req),
                    irq_TransInfo = setClientTransInfo m1 (irq_TransInfo req)\<rparr>;
                  im' = im\<lparr>im_RequestMeta := Some req', im_ContentType := word_of_int (serializationType m1),
                           im_ContentEncoding := word_of_int (compressType m1)\<rparr>;
                  m2 = (case streamFrame m1 of StreamInit _ \<Rightarrow> m1\<lparr>streamFrame := StreamInit im'\<rparr> | _ \<Rightarrow> m1)
              in (m2, of_marshal (marshalInit sp im') (frameWrite pb maxSize h))))"

definition cs_encodeDataFrame :: "pb_consts \<Rightarrow> nat \<Rightarrow> FrameHead \<Rightarrow> msg \<Rightarrow> bytes \<Rightarrow> msg \<times> result" where
  "cs_encodeDataFrame pb maxSize h m reqBuf = (m, frameWrite pb maxSize h reqBuf)"

definition cs_encodeCloseFrame :: "pb_consts \<Rightarrow> stream_pb \<Rightarrow> nat \<Rightarrow> FrameHead \<Rightarrow> msg \<Rightarrow> msg \<times> result" where
  "cs_encodeCloseFrame pb sp maxSize h m =
     (case streamFrame m of
        StreamClose close \<Rightarrow> (m, of_marshal (marshalClose sp close) (frameWrite pb maxSize h))
      | _ \<Rightarrow> (m, Err errEncodeCloseFrame))"

definition cs_encodeFeedbackFrame :: "pb_consts \<Rightarrow> stream_pb \<Rightarrow> nat \<Rightarrow> FrameHead \<Rightarrow> msg \<Rightarrow> msg \<times> result" where
  "cs_encodeFeedbackFrame pb sp maxSize h m =
     (case streamFrame m of
        StreamFeedBack fb \<Rightarrow> (m, of_marshal (marshalFeedBack sp fb) (frameWrite pb maxSize h))
      | _ \<Rightarrow> (m, Err errEncodeFeedbackFrame))"

definition cs_Encode :: "pb_consts \<Rightarrow> stream_pb \<Rightarrow> nat \<Rightarrow> string \<Rightarrow> msg \<Rightarrow> bytes \<Rightarrow> msg \<times> result" where
  "cs_Encode pb sp maxSize processName m reqBuf =
     (case frameHead m of
        TrpcFrameHead h \<Rightarrow>
          if \<not> isStream pb h then (m, Err errUnknownFrameType)
          else (let t = StreamFrameType h in
            if t = TRPC_STREAM_FRAME_INIT pb then cs_encodeInitFrame pb sp maxSize processName h m
            else if t = TRPC_STREAM_FRAME_DATA pb then cs_encodeDataFrame pb maxSize h m reqBuf
            else if t = TRPC_STREAM_FRAME_CLOSE pb then cs_encodeCloseFrame pb sp maxSize h m
            else if t = TRPC_STREAM_FRAME_FEEDBACK pb then cs_encodeFeedbackFrame pb sp maxSize h m
            else (m, Err errUnknownFrameType))
      | _ \<Rightarrow> (m, Err errUnknownFrameType))"

subsection \<open>The table of streams\<close>

definition metas_ok :: "init_metas \<Rightarrow> bool" where
  "metas_ok s \<longleftrightarrow> (\<forall>a t. map_of s a = Some t \<longrightarrow> t \<noteq> [])"

lemma AList_update_ne [simp]: "AList.update k v xs \<noteq> []"
  by (induction xs) auto

lemma AList_delete_Nil: "AList.delete k t = [] \<Longrightarrow> i \<noteq> k \<Longrightarrow> map_of t i = None"
  using delete_conv' [of k t] by (metis fun_upd_other map_of.simps(1))

lemma storeInitMeta_at_ok: "metas_ok s \<Longrightarrow> metas_ok (storeInitMeta_at addr sid im s)"
  by (auto simp: metas_ok_def storeInitMeta_at_def update_conv split: option.splits if_splits)

lemma deleteInitMeta_at_ok: "metas_ok s \<Longrightarrow> metas_ok (deleteInitMeta_at addr sid s)"
  by (auto simp: metas_ok_def deleteInitMeta_at_def Let_def update_conv delete_conv'
      split: option.splits if_splits)

lemma findInitMeta_store:
  "findInitMeta a i (storeInitMeta_at addr sid im s) = (if (a, i) = (addr, sid) then Some im else findInitMeta a i s)"
  by (auto simp: findInitMeta_def storeInitMeta_at_def update_conv split: option.splits)

lemma findInitMeta_delete:
  "findInitMeta a i (deleteInitMeta_at addr sid s) = (if (a, i) = (addr, sid) then None else findInitMeta a i s)"
  by (auto simp: findInitMeta_def deleteInitMeta_at_def Let_def update_conv delete_conv'
      dest: AList_delete_Nil split: option.splits if_splits)

interpretation metas: keyed_table metas_ok "\<lambda>_. True" "\<lambda>k. k" "\<lambda>(a, i). findInitMeta a i"
    "\<lambda>(a, i) im s. Ok (storeInitMeta_at a i im s)"
  by unfold_locales (auto simp: storeInitMeta_at_ok findInitMeta_store)

lemma metas_ok_empty: "metas_ok s \<Longrightarrow> (\<And>a i. findInitMeta a i s = None) \<Longrightarrow> s = []"
proof (rule ccontr)
  assume ok: "metas_ok s" and none: "\<And>a i. findInitMeta a i s = None" and ne: "s \<noteq> []"
  then obtain p s' where "s = p # s'" by (cases s) auto
  then have at: "map_of s (fst p) = Some (snd p)" by simp
  with ok obtain q t' where "snd p = q # t'" by (cases "snd p") (auto simp: metas_ok_def)
  then have "map_of (snd p) (fst q) = Some (snd q)" by simp
  with at none [of "fst p" "fst q"] show False by (simp add: findInitMeta_def)
qed

subsection \<open>The life of a stream\<close>

text \<open>The server codec as a machine that decodes and encodes messages of many connections and streams
  in any order, and what each operation means for the set of open streams.\<close>

datatype stream_op = OpDecode msg bytes | OpEncode msg bytes

fun stream_step :: "pb_consts \<Rightarrow> stream_pb \<Rightarrow> nat \<Rightarrow> init_metas \<Rightarrow> stream_op \<Rightarrow> init_metas" where
  "stream_step pb sp maxSize s (OpDecode m buf) = fst (ss_Decode pb sp s m buf)"
| "stream_step pb sp maxSize s (OpEncode m buf) = fst (ss_Encode pb sp maxSize s m buf)"

datatype stream_change = Opened string u32 InitMeta | Closed string u32 | NoEvent

definition open_event :: "stream_pb \<Rightarrow> FrameHead \<Rightarrow> msg \<Rightarrow> bytes \<Rightarrow> stream_change" where
  "open_event sp h m buf =
     (case (unmarshalInit sp (payload buf), AddrToKey (localAddr m) (remoteAddr m) :: (unit, string) res) of
        (Some im, Ok addr) \<Rightarrow> if im_RequestMeta im = None then NoEvent else Opened addr (StreamID h) im
      | _ \<Rightarrow> NoEvent)"

definition close_event :: "msg \<Rightarrow> u32 \<Rightarrow> stream_change" where
  "close_event m sid =
     (case AddrToKey (localAddr m) (remoteAddr m) :: (unit, string) res of Ok addr \<Rightarrow> Closed addr sid | _ \<Rightarrow> NoEvent)"

fun stream_event :: "pb_consts \<Rightarrow> stream_pb \<Rightarrow> stream_op \<Rightarrow> stream_change" where
  "stream_event pb sp (OpDecode m buf) =
     (case frameHead m of
        TrpcFrameHead h \<Rightarrow>
          if isStream pb h \<and> StreamFrameType h = TRPC_STREAM_FRAME_INIT pb then open_event sp h m buf else NoEvent
      | _ \<Rightarrow> NoEvent)"
| "stream_event pb sp (OpEncode m buf) =
     (case frameHead m of
        TrpcFrameHead h \<Rightarrow>
          if \<not> isStream pb h \<or> StreamFrameType h = TRPC_STREAM_FRAME_INIT pb then NoEvent
          else if StreamFrameType h = TRPC_STREAM_FRAME_DATA pb then
            (if ServerRspErr (pb_codes pb) m = None then NoEvent else close_event m (StreamID h))
          else if StreamFrameType h = TRPC_STREAM_FRAME_CLOSE pb then
            close_event m (case streamFrame m of StreamClose _ \<Rightarrow> StreamID h | _ \<Rightarrow> streamID m)
          else NoEvent
      | _ \<Rightarrow> NoEvent)"

fun apply_event :: "(string \<times> u32 \<rightharpoonup> InitMeta) \<Rightarrow> stream_change \<Rightarrow> (string \<times> u32 \<rightharpoonup> InitMeta)" where
  "apply_event streams (Opened addr sid im) = streams((addr, sid) \<mapsto> im)"
| "apply_event streams (Closed addr sid) = streams((addr, sid) := None)"
| "apply_event streams NoEvent = streams"

definition streams_of :: "init_metas \<Rightarrow> (string \<times> u32 \<rightharpoonup> InitMeta)" where
  "streams_of s = (\<lambda>(addr, sid). findInitMeta addr sid s)"

lemma streams_of_store: "streams_of (storeInitMeta_at addr sid im s) = (streams_of s)((addr, sid) \<mapsto> im)"
  by (auto simp: streams_of_def findInitMeta_store fun_eq_iff)

lemma streams_of_delete: "streams_of (deleteInitMeta_at addr sid s) = (streams_of s)((addr, sid) := None)"
  by (auto simp: streams_of_def findInitMeta_delete fun_eq_iff)

lemma setters_keep_conn [simp]:
  "localAddr (WithServerRPCName n m) = localAddr m" "remoteAddr (WithServerRPCName n m) = remoteAddr m"
  "streamID (WithServerRPCName n m) = streamID m"
  "localAddr (WithCalleeServiceName n m) = localAddr m" "remoteAddr (WithCalleeServiceName n m) = remoteAddr m"
  "streamID (WithCalleeServiceName n m) = streamID m"
  "localAddr (WithCallerServiceName n m) = localAddr m" "remoteAddr (WithCallerServiceName n m) = remoteAddr m"
  "streamID (WithCallerServiceName n m) = streamID m"
  "localAddr (WithServerMetaData d m) = localAddr m" "remoteAddr (WithServerMetaData d m) = remoteAddr m"
  "streamID (WithServerMetaData d m) = streamID m"
  by (simp_all add: WithServerRPCName_def updateMethodNameUsingRPCName_def WithCalleeServiceName_def
      WithCallerServiceName_def WithServerMetaData_def split: prod.splits)

lemma stream_updateMsg_conn:
  "stream_updateMsg pb m im = Ok m' \<Longrightarrow>
     localAddr m' = localAddr m \<and> remoteAddr m' = remoteAddr m \<and> streamID m' = streamID m"
  by (auto simp: stream_updateMsg_def Let_def split: option.splits if_splits)

lemma stream_updateMsg_total:
  "stream_updateMsg pb m im = (if im_RequestMeta im = None then Panic else Ok m') \<or>
   (\<exists>m'. stream_updateMsg pb m im = Ok m' \<and> im_RequestMeta im \<noteq> None)"
  by (auto simp: stream_updateMsg_def Let_def split: option.splits if_splits)

lemma AddrToKey_cases:
  "(AddrToKey l r :: (codec_error, string) res) = (case (AddrToKey l r :: (unit, string) res) of Ok a \<Rightarrow> Ok a | _ \<Rightarrow> Panic)"
  by (auto simp: AddrToKey_def split: option.splits prod.splits)

lemma decodeInit_refines:
  "streams_of (fst (ss_decodeInitFrame pb sp s (m\<lparr>streamID := StreamID h\<rparr>) buf)) =
     apply_event (streams_of s) (open_event sp h m buf)"
proof (cases "unmarshalInit sp (payload buf)")
  case (Some im)
  let ?m = "m\<lparr>streamID := StreamID h\<rparr>"
  show ?thesis
  proof (cases "im_RequestMeta im")
    case None
    with Some show ?thesis
      by (auto simp: ss_decodeInitFrame_def stream_updateMsg_def open_event_def split: res.splits)
  next
    case req: (Some req)
    then obtain m1 where m1: "stream_updateMsg pb ?m im = Ok m1"
      using stream_updateMsg_total [of pb ?m im ?m] by auto
    with stream_updateMsg_conn [OF m1] Some req show ?thesis
      by (cases "AddrToKey (localAddr m) (remoteAddr m) :: (unit, string) res")
        (simp_all add: ss_decodeInitFrame_def storeInitMeta_def open_event_def streams_of_store
          AddrToKey_cases)
  qed
qed (simp add: ss_decodeInitFrame_def open_event_def)

lemma encodeClose_refines:
  "streams_of (fst (ss_encodeCloseFrame pb sp maxSize h s m)) =
     apply_event (streams_of s) (close_event m (case streamFrame m of StreamClose _ \<Rightarrow> StreamID h | _ \<Rightarrow> streamID m))"
  by (cases "AddrToKey (localAddr m) (remoteAddr m) :: (unit, string) res"; cases "streamFrame m")
    (simp_all add: ss_encodeCloseFrame_def deleteInitMeta_def close_event_def streams_of_delete Let_def
      AddrToKey_cases)

lemma stream_step_refines:
  "streams_of (stream_step pb sp maxSize s op) = apply_event (streams_of s) (stream_event pb sp op)"
proof (cases op)
  case (OpDecode m buf)
  show ?thesis
  proof (cases "frameHead m")
    case (TrpcFrameHead h)
    have "fst (ss_decodeDataFrame s' m' b) = s'" "fst (ss_decodeCloseFrame pb sp s' m' b) = s'"
      "fst (ss_decodeFeedbackFrame sp s' m' b) = s'" for s' m' b
      by (auto simp: ss_decodeDataFrame_def ss_decodeCloseFrame_def ss_decodeFeedbackFrame_def Let_def
          split: res.splits option.splits)
    with OpDecode TrpcFrameHead show ?thesis
      by (simp add: ss_Decode_def Let_def decodeInit_refines)
  qed (use OpDecode in \<open>simp_all add: ss_Decode_def\<close>)
next
  case (OpEncode m buf)
  show ?thesis
  proof (cases "frameHead m")
    case (TrpcFrameHead h)
    have "fst (ss_encodeInitFrame pb sp maxSize h s m) = s" "fst (ss_encodeFeedbackFrame pb sp maxSize h s m) = s"
      by (auto simp: ss_encodeInitFrame_def ss_encodeFeedbackFrame_def Let_def split: option.splits stream_frame_any.splits)
    moreover have "streams_of (fst (ss_encodeDataFrame pb sp maxSize h s m buf)) = apply_event (streams_of s)
        (if ServerRspErr (pb_codes pb) m = None then NoEvent else close_event m (StreamID h))"
      by (cases "ServerRspErr (pb_codes pb) m")
        (simp_all add: ss_encodeDataFrame_def buildResetFrame_def Let_def encodeClose_refines close_event_def)
    ultimately show ?thesis using OpEncode TrpcFrameHead
      by (simp add: ss_Encode_def Let_def encodeClose_refines)
  qed (use OpEncode in \<open>simp_all add: ss_Encode_def\<close>)
qed

definition stream_run :: "pb_consts \<Rightarrow> stream_pb \<Rightarrow> nat \<Rightarrow> stream_op list \<Rightarrow> init_metas" where
  "stream_run pb sp maxSize ops = foldl (stream_step pb sp maxSize) NewServerStreamCodec ops"

definition open_streams :: "pb_consts \<Rightarrow> stream_pb \<Rightarrow> stream_op list \<Rightarrow> (string \<times> u32 \<rightharpoonup> InitMeta)" where
  "open_streams pb sp ops = foldl apply_event Map.empty (map (stream_event pb sp) ops)"

lemma run_refines: "streams_of (stream_run pb sp maxSize ops) = open_streams pb sp ops"
proof (induction ops rule: rev_induct)
  case (snoc op ops)
  then show ?case by (simp add: stream_run_def open_streams_def stream_step_refines)
qed (auto simp: stream_run_def open_streams_def streams_of_def NewServerStreamCodec_def findInitMeta_def)

lemma stream_step_ok: "metas_ok s \<Longrightarrow> metas_ok (stream_step pb sp maxSize s op)"
proof (cases op)
  case (OpDecode m buf)
  assume "metas_ok s"
  with OpDecode show ?thesis
    by (auto simp: ss_Decode_def ss_decodeInitFrame_def ss_decodeDataFrame_def ss_decodeCloseFrame_def
        ss_decodeFeedbackFrame_def storeInitMeta_def bind_res_Ok_iff storeInitMeta_at_ok Let_def
        split: frame_head_any.splits option.splits res.splits)
next
  case (OpEncode m buf)
  assume ok: "metas_ok s"
  have "metas_ok (fst (ss_encodeCloseFrame pb sp maxSize h s m))" for h m
    using ok by (auto simp: ss_encodeCloseFrame_def deleteInitMeta_def bind_res_Ok_iff deleteInitMeta_at_ok
        split: prod.splits res.splits)
  with ok OpEncode show ?thesis
    by (auto simp: ss_Encode_def ss_encodeInitFrame_def ss_encodeDataFrame_def ss_encodeFeedbackFrame_def Let_def
        split: frame_head_any.splits stream_frame_any.splits option.splits prod.splits)
qed

lemma stream_run_ok: "metas_ok (stream_run pb sp maxSize ops)"
proof (induction ops rule: rev_induct)
  case (snoc op ops)
  then show ?case by (simp add: stream_run_def stream_step_ok)
qed (simp add: stream_run_def NewServerStreamCodec_def metas_ok_def)

text \<open>C11: the server stream codec implements the set of open streams and leaks nothing. After any
  interleaving of decoded and encoded frames, of any connections and streams, the init metadata it
  holds is exactly that of the streams opened by an init frame and not yet closed (by an encoded
  close frame, or a data frame that carried a handler error), and once all streams are closed
  the two-level table is empty again, without empty per-connection tables.\<close>

theorem stream_codec_refines:
  "streams_of (stream_run pb sp maxSize ops) = open_streams pb sp ops
   \<and> (open_streams pb sp ops = Map.empty \<longrightarrow> stream_run pb sp maxSize ops = [])"
proof -
  have "stream_run pb sp maxSize ops = []" if "open_streams pb sp ops = Map.empty"
    using that run_refines [of pb sp maxSize ops] stream_run_ok [of pb sp maxSize ops]
    by (intro metas_ok_empty) (auto simp: streams_of_def fun_eq_iff)
  with run_refines show ?thesis by blast
qed

definition sample_init :: InitMeta where
  "sample_init = \<lparr>im_RequestMeta = Some \<lparr>irq_Caller = ''c'', irq_Callee = ''s'', irq_Func = ''/a.b/M'', irq_MessageType = 0,
     irq_TransInfo = None\<rparr>, im_ResponseMeta = None, im_ContentType = 0, im_ContentEncoding = 0, im_InitWindowSize = 0\<rparr>"

definition sample_close :: CloseMeta where
  "sample_close = \<lparr>cm_CloseType = 0, cm_Ret = 0, cm_FuncRet = 0, cm_Msg = [], cm_MessageType = 0, cm_TransInfo = None\<rparr>"

definition sample_sp :: stream_pb where
  "sample_sp = \<lparr>marshalInit = (\<lambda>im. if im = sample_init then Some [1] else None),
     unmarshalInit = (\<lambda>b. if b = [1] then Some sample_init
        else if b = [] then Some (sample_init\<lparr>im_RequestMeta := None\<rparr>) else None),
     marshalClose = (\<lambda>c. Some [2]), unmarshalClose = (\<lambda>b. if b = [2] then Some sample_close else None),
     marshalFeedBack = (\<lambda>_. None), unmarshalFeedBack = (\<lambda>_. None)\<rparr>"

definition sample_head :: "u8 \<Rightarrow> FrameHead" where
  "sample_head t = \<lparr>FrameType = 1, StreamFrameType = t, TotalLen = 17, HeaderLen = 0, StreamID = 5,
     ProtocolVersion = 1, FrameReserved = 0\<rparr>"

definition sample_msg :: "u8 \<Rightarrow> msg" where
  "sample_msg t = resetDefault\<lparr>frameHead := TrpcFrameHead (sample_head t), localAddr := Some (''tcp'', ''l''),
     remoteAddr := Some (''tcp'', ''r'')\<rparr>"

definition sample_buf :: "bytes \<Rightarrow> bytes" where
  "sample_buf p = replicate 16 0 @ p"

abbreviation sample_ops :: "stream_op list" where
  "sample_ops \<equiv> [OpDecode (sample_msg 1) (sample_buf [1]),
     OpEncode ((sample_msg 4)\<lparr>streamFrame := StreamClose sample_close\<rparr>) []]"

lemma sample_events:
  "map (stream_event sample_pb sample_sp) sample_ops = [Opened ''tcp_l_r'' 5 sample_init, Closed ''tcp_l_r'' 5]"
  by (simp add: sample_pb_def sample_sp_def sample_msg_def sample_head_def sample_buf_def sample_init_def isStream_def
      open_event_def close_event_def AddrToKey_def resetDefault_def)

theorem stream_codec_refines_witness:
  "stream_run sample_pb sample_sp 100 sample_ops = []
   \<and> streams_of (stream_run sample_pb sample_sp 100 [hd sample_ops]) = [(''tcp_l_r'', 5) \<mapsto> sample_init]"
proof -
  have "open_streams sample_pb sample_sp sample_ops = Map.empty"
    "open_streams sample_pb sample_sp [hd sample_ops] = [(''tcp_l_r'', 5) \<mapsto> sample_init]"
    using sample_events by (simp_all add: open_streams_def)
  with stream_codec_refines [of sample_pb sample_sp 100 sample_ops]
    stream_codec_refines [of sample_pb sample_sp 100 "[hd sample_ops]"] show ?thesis by simp
qed

text \<open>a data frame is delivered only within an open stream. After any history, decoding a data
  frame of stream \<open>sid\<close> on a connection returns exactly the bytes behind the frame head, and sets
  the RPC name of the stream's init frame, if that stream is open; otherwise it is refused as
  uninitialised. It never panics on a message with addresses.\<close>

theorem data_frame_needs_init:
  assumes "frameHead m = TrpcFrameHead h" "isStream pb h"
    and "StreamFrameType h = TRPC_STREAM_FRAME_DATA pb"
    and "TRPC_STREAM_FRAME_DATA pb \<noteq> TRPC_STREAM_FRAME_INIT pb"
    and "localAddr m = Some (network, l)" "remoteAddr m = Some (network', r)"
  shows "case open_streams pb sp ops (Join [network, l, r] ''_'', StreamID h) of
      Some im \<Rightarrow> \<exists>m'. ss_Decode pb sp (stream_run pb sp maxSize ops) m buf =
        (stream_run pb sp maxSize ops, m', Ok (drop 16 buf))
        \<and> serverRPCName m' = (case im_RequestMeta im of None \<Rightarrow> [] | Some q \<Rightarrow> irq_Func q)
    | None \<Rightarrow> snd (snd (ss_Decode pb sp (stream_run pb sp maxSize ops) m buf)) = Err errUninitializedMeta"
proof -
  let ?s = "stream_run pb sp maxSize ops" and ?k = "Join [network, l, r] ''_''"
  have f: "findInitMeta ?k (StreamID h) ?s = open_streams pb sp ops (?k, StreamID h)"
    using run_refines [of pb sp maxSize ops] by (auto simp: streams_of_def fun_eq_iff)
  have name: "serverRPCName (WithServerRPCName n m') = n" for n m'
    by (simp add: WithServerRPCName_def updateMethodNameUsingRPCName_def)
  have key: "AddrToKey (localAddr m) (remoteAddr m) = (Ok ?k :: (codec_error, string) res)" using assms(5,6) by (simp add: AddrToKey_def)
  have "ss_Decode pb sp ?s m buf = ss_decodeDataFrame ?s (m\<lparr>streamID := StreamID h\<rparr>) buf"
    using assms(1-4) by (simp add: ss_Decode_def Let_def)
  then show ?thesis using f key
    by (auto simp: ss_decodeDataFrame_def setInitMeta_def name split: option.splits)
qed

theorem data_frame_needs_init_witness:
  "snd (snd (ss_Decode sample_pb sample_sp (stream_run sample_pb sample_sp 100 sample_ops) (sample_msg 2) (sample_buf [9])))
     = Err errUninitializedMeta
   \<and> snd (snd (ss_Decode sample_pb sample_sp (stream_run sample_pb sample_sp 100 [hd sample_ops]) (sample_msg 2) (sample_buf [9])))
     = Ok [9]"
proof -
  have h: "frameHead (sample_msg 2) = TrpcFrameHead (sample_head 2)" "isStream sample_pb (sample_head 2)"
    "StreamFrameType (sample_head 2) = TRPC_STREAM_FRAME_DATA sample_pb"
    "TRPC_STREAM_FRAME_DATA sample_pb \<noteq> TRPC_STREAM_FRAME_INIT sample_pb"
    "localAddr (sample_msg 2) = Some (''tcp'', ''l'')" "remoteAddr (sample_msg 2) = Some (''tcp'', ''r'')"
    by (simp_all add: sample_msg_def isStream_def sample_head_def sample_pb_def resetDefault_def)
  have o: "open_streams sample_pb sample_sp sample_ops = Map.empty"
    "open_streams sample_pb sample_sp [hd sample_ops] = [(''tcp_l_r'', 5) \<mapsto> sample_init]"
    using sample_events by (simp_all add: open_streams_def)
  from data_frame_needs_init [OF h, where sp = sample_sp and ops = sample_ops and maxSize = 100 and buf = "sample_buf [9]"]
    data_frame_needs_init [OF h, where sp = sample_sp and ops = "[hd sample_ops]" and maxSize = 100 and buf = "sample_buf [9]"]
  show ?thesis unfolding o by (auto simp: sample_head_def sample_buf_def)
qed

text \<open>C26: an init frame without request metadata makes the server panic. Such a frame is a legal
  encoding of \<open>TrpcStreamInitMeta\<close> (the empty message already is one), so it can be sent by any
  client; \<open>updateMsg\<close> reads \<open>req.TransInfo\<close> of the nil request meta instead of using the nil-safe
  getter.\<close>

theorem init_frame_without_request_meta_panics:
  assumes "frameHead m = TrpcFrameHead h" "isStream pb h"
    and "StreamFrameType h = TRPC_STREAM_FRAME_INIT pb"
    and "unmarshalInit sp (drop 16 buf) = Some im" "im_RequestMeta im = None"
  shows "snd (snd (ss_Decode pb sp s m buf)) = Panic"
  using assms by (simp add: ss_Decode_def Let_def ss_decodeInitFrame_def stream_updateMsg_def)

theorem init_frame_without_request_meta_panics_witness:
  "snd (snd (ss_Decode sample_pb sample_sp [] (sample_msg 1) (sample_buf []))) = Panic"
  by (rule init_frame_without_request_meta_panics [where h = "sample_head 1" and im = "sample_init\<lparr>im_RequestMeta := None\<rparr>"])
    (simp_all add: sample_msg_def isStream_def sample_head_def sample_pb_def sample_sp_def sample_buf_def resetDefault_def)

end
