(* ===== verification/Trpc_Codec.thy ===== *)
theory Trpc_Codec
  imports Stream_Codec
begin

text \<open>
  The unary server and client codecs (second half of \<open>codec.go\<close>): encoding and decoding of request
  and response frames, the transfer between the protocol heads and the message, attachments, error
  codes and request ids. \<open>proto.Marshal\<close> and \<open>proto.Unmarshal\<close> of the two heads are the fields of
  \<open>unary_pb\<close>. Lengths and offsets are computed in 32 bits, as in the code. Reading an attachment
  leaves the reader in the message as it is: a message is encoded once.
\<close>

record unary_pb =
  marshalReq :: "RequestProtocol \<Rightarrow> bytes option"
  unmarshalReq :: "bytes \<Rightarrow> RequestProtocol option"
  marshalRsp :: "ResponseProtocol \<Rightarrow> bytes option"
  unmarshalRsp :: "bytes \<Rightarrow> ResponseProtocol option"

abbreviation Millisecond :: int where "Millisecond \<equiv> 1000000"

subsection \<open>Helpers\<close>

text \<open>Go's division truncates towards zero.\<close>

definition quot :: "int \<Rightarrow> int \<Rightarrow> int" where
  "quot a b = sgn a * (\<bar>a\<bar> div b)"

definition ReadAll :: "reader option \<Rightarrow> (codec_error, bytes) res" where
  "ReadAll r =
     (case r of None \<Rightarrow> Ok [] | Some ReaderNil \<Rightarrow> Panic | Some (ReaderBytes b) \<Rightarrow> Ok b
      | Some ReaderFails \<Rightarrow> Err errReadAttachment)"

definition loadOrStoreDefaultUnaryFrameHead :: "pb_consts \<Rightarrow> msg \<Rightarrow> FrameHead \<times> msg" where
  "loadOrStoreDefaultUnaryFrameHead pb m =
     (case frameHead m of
        TrpcFrameHead h \<Rightarrow> (h, m)
      | _ \<Rightarrow> (let h = newDefaultUnaryFrameHead pb in (h, m\<lparr>frameHead := TrpcFrameHead h\<rparr>)))"

definition newResponseProtocol :: "pb_consts \<Rightarrow> RequestProtocol \<Rightarrow> ResponseProtocol" where
  "newResponseProtocol pb req = \<lparr>rs_Version = TRPC_PROTO_V1 pb, rs_CallType = rq_CallType req,
     rs_RequestId = rq_RequestId req, rs_Ret = 0, rs_FuncRet = 0, rs_ErrorMsg = [],
     rs_MessageType = rq_MessageType req, rs_TransInfo = None, rs_ContentType = rq_ContentType req,
     rs_ContentEncoding = rq_ContentEncoding req, rs_AttachmentSize = 0\<rparr>"

definition emptyResponseProtocol :: ResponseProtocol where
  "emptyResponseProtocol = \<lparr>rs_Version = 0, rs_CallType = 0, rs_RequestId = 0, rs_Ret = 0, rs_FuncRet = 0,
     rs_ErrorMsg = [], rs_MessageType = 0, rs_TransInfo = None, rs_ContentType = 0, rs_ContentEncoding = 0,
     rs_AttachmentSize = 0\<rparr>"

definition newDefaultUnaryRequestProtocol :: "pb_consts \<Rightarrow> RequestProtocol" where
  "newDefaultUnaryRequestProtocol pb = \<lparr>rq_Version = TRPC_PROTO_V1 pb, rq_CallType = TRPC_UNARY_CALL pb,
     rq_RequestId = 0, rq_Timeout = 0, rq_Caller = [], rq_Callee = [], rq_Func = [], rq_MessageType = 0,
     rq_TransInfo = None, rq_ContentType = 0, rq_ContentEncoding = 0, rq_AttachmentSize = 0\<rparr>"

subsection \<open>ServerCodec.Decode\<close>

definition msgWithRequestProtocol :: "pb_consts \<Rightarrow> msg \<Rightarrow> RequestProtocol \<Rightarrow> bytes \<Rightarrow> msg" where
  "msgWithRequestProtocol pb m req attm =
     (let m1 = m\<lparr>serverReqHead := HeadReq req, serverRspHead := HeadRsp (newResponseProtocol pb req),
                 requestTimeout := Millisecond * uint (rq_Timeout req)\<rparr>;
          m2 = WithServerRPCName (rq_Func req) (WithCalleeServiceName (rq_Callee req)
                 (WithCallerServiceName (rq_Caller req) m1));
          m3 = m2\<lparr>serializationType := uint (rq_ContentType req), compressType := uint (rq_ContentEncoding req),
                  dyeing := (rq_MessageType req AND TRPC_DYEING_MESSAGE pb \<noteq> 0)\<rparr>;
          m4 = (if md_list (rq_TransInfo req) = [] then m3
                else (let a = WithServerMetaData (md_Clone (rq_TransInfo req)) m3;
                          b = (case md_get (rq_TransInfo req) DyeingKey_key of
                                 None \<Rightarrow> a | Some bs \<Rightarrow> a\<lparr>dyeingKey := string_of bs\<rparr>)
                      in case md_get (rq_TransInfo req) EnvTransfer_key of
                           None \<Rightarrow> b | Some envs \<Rightarrow> b\<lparr>envTransfer := string_of envs\<rparr>));
          m5 = m4\<lparr>callType := uint (rq_CallType req)\<rparr>
      in if attm \<noteq> [] then SetServerRequestAttachment m5 attm else m5)"

text \<open>The two slice expressions \<open>buf[attachmentBegin:]\<close> and \<open>buf[bodyBegin:bodyEnd]\<close>.\<close>

definition slice_from :: "bytes \<Rightarrow> u32 \<Rightarrow> (codec_error, bytes) res" where
  "slice_from buf i = (if unat i > length buf then Panic else Ok (drop (unat i) buf))"

definition slice_between :: "bytes \<Rightarrow> u32 \<Rightarrow> u32 \<Rightarrow> (codec_error, bytes) res" where
  "slice_between buf i j =
     (if unat j > length buf \<or> unat i > unat j then Panic else Ok (slice (unat i) (unat j) buf))"

definition sv_Decode ::
    "pb_consts \<Rightarrow> stream_pb \<Rightarrow> unary_pb \<Rightarrow> init_metas \<Rightarrow> msg \<Rightarrow> bytes \<Rightarrow> out" where
  "sv_Decode pb sp up s m reqBuf =
     (if length reqBuf < frameHeadLen then (s, m, Err errBufLenInvalid)
      else (case extract_head (newDefaultUnaryFrameHead pb) reqBuf of
        Ok h \<Rightarrow>
          (let m = m\<lparr>frameHead := TrpcFrameHead h\<rparr> in
           if TotalLen h \<noteq> word_of_nat (length reqBuf) then (s, m, Err errTotalLenMismatch)
           else if FrameType h \<noteq> TRPC_UNARY_FRAME pb then
             (case ss_Decode pb sp s m reqBuf of
                (s', m', Err e) \<Rightarrow>
                  (let err = NewFrameError (RetServerDecodeFail (pb_codes pb)) (err_text pb e)
                   in (s', snd (buildResetFrame pb m' h err), Err (errStreamDecode err)))
              | r \<Rightarrow> r)
           else if HeaderLen h = 0 then (s, m, Err errHeadLenEmpty)
           else
             (let protocolBegin = word_of_nat frameHeadLen :: u32;
                  protocolEnd = protocolBegin + ucast (HeaderLen h)
              in if protocolEnd > word_of_nat (length reqBuf) then (s, m, Err errHeadLenInvalid)
                 else (case unmarshalReq up (slice (unat protocolBegin) (unat protocolEnd) reqBuf) of
                    None \<Rightarrow> (s, m, Err errUnmarshal)
                  | Some req \<Rightarrow>
                      (let attachmentBegin = TotalLen h - rq_AttachmentSize req in
                       if word_of_nat (length reqBuf) - attachmentBegin \<noteq> rq_AttachmentSize req
                       then (s, m, Err errAttachmentLen)
                       else (case slice_from reqBuf attachmentBegin of
                               Ok attm \<Rightarrow> (s, msgWithRequestProtocol pb m req attm,
                                           slice_between reqBuf protocolEnd attachmentBegin)
                             | _ \<Rightarrow> (s, m, Panic))))))
      | _ \<Rightarrow> (s, m, Panic)))"

subsection \<open>ServerCodec.Encode\<close>

text \<open>The response head is the one the message holds, if it holds one: then the message sees the
  updates (\<open>store_rsp\<close>).\<close>

definition has_rsp :: "msg \<Rightarrow> bool" where
  "has_rsp m = (case serverRspHead m of HeadRsp _ \<Rightarrow> True | _ \<Rightarrow> False)"

definition store_rsp :: "ResponseProtocol \<Rightarrow> msg \<Rightarrow> msg" where
  "store_rsp rsp m = (if has_rsp m then m\<lparr>serverRspHead := HeadRsp rsp\<rparr> else m)"

definition getAndInitResponseProtocol :: "pb_consts \<Rightarrow> msg \<Rightarrow> ResponseProtocol" where
  "getAndInitResponseProtocol pb m =
     (let rsp0 = (case serverRspHead m of
            HeadRsp rsp \<Rightarrow> rsp
          | _ \<Rightarrow> (case serverReqHead m of HeadReq req \<Rightarrow> newResponseProtocol pb req | _ \<Rightarrow> emptyResponseProtocol));
          rsp1 = rsp0\<lparr>rs_ContentType := word_of_int (serializationType m),
                      rs_ContentEncoding := word_of_int (compressType m)\<rparr>;
          rsp2 = (case ServerRspErr (pb_codes pb) m of
              None \<Rightarrow> rsp1
            | Some err \<Rightarrow>
                if e_Type err = ErrorTypeFramework then rsp1\<lparr>rs_ErrorMsg := e_Msg err, rs_Ret := e_Code err\<rparr>
                else rsp1\<lparr>rs_ErrorMsg := e_Msg err, rs_FuncRet := e_Code err\<rparr>)
      in if md_list (serverMetaData m) \<noteq> []
         then rsp2\<lparr>rs_TransInfo := md_merge (rs_TransInfo rsp2) (serverMetaData m)\<rparr> else rsp2)"

definition handleEncodeErr ::
    "pb_consts \<Rightarrow> unary_pb \<Rightarrow> nat \<Rightarrow> ResponseProtocol \<Rightarrow> FrameHead \<Rightarrow> bytes \<Rightarrow> codec_error
      \<Rightarrow> ResponseProtocol \<times> result" where
  "handleEncodeErr pb up maxSize rsp h rspBody encodeErr =
     (let rsp' = rsp\<lparr>rs_TransInfo := None, rs_Ret := RetServerEncodeFail (pb_codes pb),
                     rs_ErrorMsg := err_text pb encodeErr\<rparr>
      in (rsp', of_marshal (marshalRsp up rsp') (\<lambda>rspHead. construct pb maxSize h rspHead rspBody [])))"

definition sv_Encode ::
    "pb_consts \<Rightarrow> stream_pb \<Rightarrow> unary_pb \<Rightarrow> nat \<Rightarrow> init_metas \<Rightarrow> msg \<Rightarrow> bytes \<Rightarrow> out" where
  "sv_Encode pb sp up maxSize s m0 rspBody =
     (let (h, m) = loadOrStoreDefaultUnaryFrameHead pb m0 in
      if isStream pb h then ss_Encode pb sp maxSize s m rspBody
      else if \<not> isUnary pb h then (s, m, Err errUnknownFrameType)
      else
        (let rsp = getAndInitResponseProtocol pb m in
         case ReadAll (ServerResponseAttachment m) of
           Err e \<Rightarrow> (s, store_rsp rsp m, Err e)
         | Panic \<Rightarrow> (s, m, Panic)
         | Ok attm \<Rightarrow>
             (let rsp = rsp\<lparr>rs_AttachmentSize := word_of_nat (length attm)\<rparr> in
              case marshalRsp up rsp of
                None \<Rightarrow> (s, store_rsp rsp m, Err errMarshal)
              | Some rspHead \<Rightarrow>
                  (case construct pb maxSize h rspHead rspBody attm of
                     Err e \<Rightarrow>
                       if e = errHeadOverflowsUint16 then
                         (let (rsp', r) = handleEncodeErr pb up maxSize rsp h rspBody e in (s, store_rsp rsp' m, r))
                       else if e = errFrameTooLarge \<or> e = errHeadOverflowsUint32 then
                         (let (rsp', r) = handleEncodeErr pb up maxSize rsp h [] e in (s, store_rsp rsp' m, r))
                       else (s, store_rsp rsp m, Err e)
                   | r \<Rightarrow> (s, store_rsp rsp m, r)))))"
subsection \<open>ClientCodec.Encode\<close>

definition loadOrStoreDefaultRequestProtocol :: "pb_consts \<Rightarrow> msg \<Rightarrow> (codec_error, RequestProtocol \<times> msg) res" where
  "loadOrStoreDefaultRequestProtocol pb m =
     (case clientReqHead m of
        HeadNil \<Rightarrow> (let req = newDefaultUnaryRequestProtocol pb in Ok (req, m\<lparr>clientReqHead := HeadReq req\<rparr>))
      | HeadReq req \<Rightarrow> Ok (req, m)
      | _ \<Rightarrow> Err errHeadType)"

definition updateCallerServiceName :: "msg \<Rightarrow> string \<Rightarrow> msg" where
  "updateCallerServiceName m name = (if callerServiceName m = [] then WithCallerServiceName name m else m)"

definition updateRequestProtocol :: "pb_consts \<Rightarrow> RequestProtocol \<Rightarrow> msg \<Rightarrow> RequestProtocol" where
  "updateRequestProtocol pb req m = req\<lparr>rq_RequestId := requestID m, rq_Caller := callerServiceName m,
     rq_Callee := calleeServiceName m, rq_Func := clientRPCName m,
     rq_ContentType := word_of_int (serializationType m), rq_ContentEncoding := word_of_int (compressType m),
     rq_Timeout := word_of_int (quot (requestTimeout m) Millisecond),
     rq_MessageType := (if dyeing m then rq_MessageType req OR TRPC_DYEING_MESSAGE pb else rq_MessageType req),
     rq_TransInfo := setClientTransInfo m (rq_TransInfo req), rq_CallType := word_of_int (callType m)\<rparr>"

record ClientCodec =
  defaultCaller :: string
  cc_requestID :: u32

definition cl_Encode ::
    "pb_consts \<Rightarrow> stream_pb \<Rightarrow> unary_pb \<Rightarrow> nat \<Rightarrow> string \<Rightarrow> ClientCodec \<Rightarrow> msg \<Rightarrow> bytes
      \<Rightarrow> ClientCodec \<times> msg \<times> result" where
  "cl_Encode pb sp up maxSize processName c m0 reqBody =
     (let (h0, m) = loadOrStoreDefaultUnaryFrameHead pb m0 in
      if isStream pb h0 then (c, cs_Encode pb sp maxSize processName m reqBody)
      else if \<not> isUnary pb h0 then (c, m, Err errUnknownFrameType)
      else
        (case loadOrStoreDefaultRequestProtocol pb m of
           Err e \<Rightarrow> (c, m, Err e)
         | Panic \<Rightarrow> (c, m, Panic)
         | Ok (req, m) \<Rightarrow>
             (let rid = cc_requestID c + 1;
                  c = c\<lparr>cc_requestID := rid\<rparr>;
                  h = upgradeProtocol curProtocolVersion rid (newDefaultUnaryFrameHead pb);
                  m = m\<lparr>requestID := rid\<rparr>
              in case ReadAll (ClientRequestAttachment m) of
                   Err e \<Rightarrow> (c, m, Err e)
                 | Panic \<Rightarrow> (c, m, Panic)
                 | Ok attm \<Rightarrow>
                     (let m = updateCallerServiceName m (defaultCaller c);
                          req = updateRequestProtocol pb (req\<lparr>rq_AttachmentSize := word_of_nat (length attm)\<rparr>) m;
                          m = m\<lparr>clientReqHead := HeadReq req\<rparr>
                      in (c, m, of_marshal (marshalReq up req) (\<lambda>reqHead. construct pb maxSize h reqHead reqBody attm))))))"

subsection \<open>ClientCodec.Decode\<close>

definition loadOrStoreResponseHead :: "msg \<Rightarrow> (codec_error, msg) res" where
  "loadOrStoreResponseHead m =
     (case clientRspHead m of
        HeadNil \<Rightarrow> Ok (m\<lparr>clientRspHead := HeadRsp emptyResponseProtocol\<rparr>)
      | HeadRsp _ \<Rightarrow> Ok m
      | _ \<Rightarrow> Err errHeadType)"

definition rsp_err :: "ResponseProtocol \<Rightarrow> go_error option \<Rightarrow> go_error option" where
  "rsp_err rsp old =
     (if rs_Ret rsp \<noteq> 0 then Some (TrpcError ErrorTypeCalleeFramework (rs_Ret rsp) (rs_ErrorMsg rsp) ''trpc'' None)
      else if rs_FuncRet rsp \<noteq> 0 then Some (err_New (rs_FuncRet rsp) (rs_ErrorMsg rsp))
      else old)"

definition cl_updateMsg ::
    "pb_consts \<Rightarrow> msg \<Rightarrow> FrameHead \<Rightarrow> ResponseProtocol \<Rightarrow> bytes \<Rightarrow> msg \<times> (codec_error, unit) res" where
  "cl_updateMsg pb m h rsp attm =
     (let m = m\<lparr>frameHead := TrpcFrameHead h, compressType := uint (rs_ContentEncoding rsp),
                serializationType := uint (rs_ContentType rsp)\<rparr>;
          m = (if md_list (rs_TransInfo rsp) = [] then m
               else WithClientMetaData (md_merge (clientMetaData m) (rs_TransInfo rsp)) m);
          m = m\<lparr>clientRspErr := rsp_err rsp (clientRspErr m)\<rparr>;
          (m, mismatch) = (case loadOrStoreDefaultRequestProtocol pb m of
              Ok (req, m') \<Rightarrow> (m', rs_RequestId rsp \<noteq> rq_RequestId req)
            | _ \<Rightarrow> (m, False))
      in if mismatch then (m, Err errRequestIdMismatch)
         else (let m = m\<lparr>frameHead := TrpcFrameHead (upgradeProtocol curProtocolVersion (rs_RequestId rsp) h),
                         requestID := rs_RequestId rsp\<rparr>
               in (if attm \<noteq> [] then SetClientResponseAttachment m attm else m, Ok ())))"

definition cl_Decode ::
    "pb_consts \<Rightarrow> stream_pb \<Rightarrow> unary_pb \<Rightarrow> msg \<Rightarrow> bytes \<Rightarrow> msg \<times> result" where
  "cl_Decode pb sp up m rspBuf =
     (if length rspBuf < frameHeadLen then (m, Err errBufLenInvalid)
      else (case extract_head (newDefaultUnaryFrameHead pb) rspBuf of
        Ok h \<Rightarrow>
          (let m = m\<lparr>frameHead := TrpcFrameHead h\<rparr> in
           if TotalLen h \<noteq> word_of_nat (length rspBuf) then (m, Err errTotalLenMismatch)
           else if FrameType h \<noteq> TRPC_UNARY_FRAME pb then cs_Decode pb sp m rspBuf
           else if HeaderLen h = 0 then (m, Err errHeadLenEmpty)
           else
             (let protocolBegin = word_of_nat frameHeadLen :: u32;
                  protocolEnd = protocolBegin + ucast (HeaderLen h)
              in if protocolEnd > word_of_nat (length rspBuf) then (m, Err errHeadLenInvalid)
                 else (case loadOrStoreResponseHead m of
                    Err e \<Rightarrow> (m, Err e)
                  | Panic \<Rightarrow> (m, Panic)
                  | Ok m \<Rightarrow>
                    (case unmarshalRsp up (slice (unat protocolBegin) (unat protocolEnd) rspBuf) of
                       None \<Rightarrow> (m, Err errUnmarshal)
                     | Some rsp \<Rightarrow>
                       (let m = m\<lparr>clientRspHead := HeadRsp rsp\<rparr>;
                            attachmentBegin = TotalLen h - rs_AttachmentSize rsp in
                        if word_of_nat (length rspBuf) - attachmentBegin \<noteq> rs_AttachmentSize rsp
                        then (m, Err errAttachmentLen)
                        else (case slice_from rspBuf attachmentBegin of
                                Ok attm \<Rightarrow>
                                  (case cl_updateMsg pb m h rsp attm of
                                     (m', Ok _) \<Rightarrow> (m', slice_between rspBuf protocolEnd attachmentBegin)
                                   | (m', Err e) \<Rightarrow> (m', Err e)
                                   | (m', Panic) \<Rightarrow> (m', Panic))
                              | _ \<Rightarrow> (m, Panic)))))))
      | _ \<Rightarrow> (m, Panic)))"

end
