(* ===== verification/Codec_Roundtrip.thy ===== *)
theory Codec_Roundtrip
  imports Trpc_Codec
begin

text \<open>
  Correctness of the unary codecs: what decoding does on every frame the framer can deliver,
  the round trips of requests and responses through both codecs, and two situations in which the
  32-bit arithmetic on the attachment size makes decoding panic.
\<close>

subsection \<open>Offsets in 32 bits\<close>

lemma unat_ucast_u16 [simp]: "unat (ucast (w :: u16) :: u32) = unat w"
proof -
  have "unat w < 2 ^ LENGTH(16)" by (rule unsigned_less)
  then show ?thesis by (simp add: unsigned_ucast_eq take_bit_nat_eq_self)
qed

lemma protocolEnd: "unat ((word_of_nat frameHeadLen :: u32) + ucast (w :: u16)) = 16 + unat w"
proof -
  have "unat w < 2 ^ 16" using unsigned_less [of w] by simp
  then show ?thesis by (simp add: unat_word_ariths)
qed

lemma unat_word_of_nat_len: "n < 2 ^ 32 \<Longrightarrow> unat (word_of_nat n :: u32) = n"
  by (simp add: unat_of_nat)

lemma attachmentBegin:
  fixes a :: u32
  assumes "n < 2 ^ 32"
  shows "unat (word_of_nat n - a) = (if unat a \<le> n then n - unat a else n + 2 ^ 32 - unat a)"
proof -
  have "unat (word_of_nat n :: u32) = n" using assms by (simp add: unat_word_of_nat_len)
  then show ?thesis by (simp add: unat_sub_if_size word_size)
qed

lemma slice_from_eq:
  fixes a :: u32
  assumes "length buf < 2 ^ 32"
  shows "slice_from buf (word_of_nat (length buf) - a) =
    (if unat a \<le> length buf then Ok (drop (length buf - unat a) buf) else Panic)"
proof -
  have "unat a < 2 ^ LENGTH(32)" by (rule unsigned_less)
  with assms show ?thesis by (simp add: slice_from_def attachmentBegin) linarith
qed

subsection \<open>Decoding any frame\<close>

lemma sv_Decode_unary:
  assumes len: "16 \<le> length buf" "length buf < 2 ^ 32"
    and h: "extract_head (newDefaultUnaryFrameHead pb) buf = Ok h"
    and ok: "TotalLen h = word_of_nat (length buf)" "FrameType h = TRPC_UNARY_FRAME pb" "HeaderLen h \<noteq> 0"
      "16 + unat (HeaderLen h) \<le> length buf"
    and req: "unmarshalReq up (slice 16 (16 + unat (HeaderLen h)) buf) = Some req"
  defines "a \<equiv> unat (rq_AttachmentSize req)" and "e \<equiv> 16 + unat (HeaderLen h)"
  shows "sv_Decode pb sp up s m buf =
    (if a \<le> length buf then
       (s, msgWithRequestProtocol pb (m\<lparr>frameHead := TrpcFrameHead h\<rparr>) req (drop (length buf - a) buf),
        if e + a \<le> length buf then Ok (slice e (length buf - a) buf) else Panic)
     else (s, m\<lparr>frameHead := TrpcFrameHead h\<rparr>, Panic))"
proof -
  have e: "\<not> (word_of_nat frameHeadLen :: u32) + ucast (HeaderLen h) > word_of_nat (length buf)"
    using ok(4) len by (simp only: word_less_nat_alt protocolEnd unat_word_of_nat_len)
  have b: "slice_between buf ((word_of_nat frameHeadLen :: u32) + ucast (HeaderLen h))
      (word_of_nat (length buf) - rq_AttachmentSize req) =
      (if e + a \<le> length buf then Ok (slice e (length buf - a) buf) else Panic)" if "a \<le> length buf"
    using that unfolding slice_between_def protocolEnd attachmentBegin [OF len(2)] e_def a_def by auto
  show ?thesis
    using len h ok(1-3) e req b
    unfolding sv_Decode_def Let_def protocolEnd
    by (auto simp: slice_from_eq [OF len(2)] a_def unat_word_of_nat_len simp del: of_nat_numeral)
qed
lemma cl_Decode_unary:
  assumes len: "16 \<le> length buf" "length buf < 2 ^ 32"
    and h: "extract_head (newDefaultUnaryFrameHead pb) buf = Ok h"
    and ok: "TotalLen h = word_of_nat (length buf)" "FrameType h = TRPC_UNARY_FRAME pb" "HeaderLen h \<noteq> 0"
      "16 + unat (HeaderLen h) \<le> length buf"
    and head: "loadOrStoreResponseHead (m\<lparr>frameHead := TrpcFrameHead h\<rparr>) = Ok m1"
    and rsp: "unmarshalRsp up (slice 16 (16 + unat (HeaderLen h)) buf) = Some rsp"
  defines "a \<equiv> unat (rs_AttachmentSize rsp)" and "e \<equiv> 16 + unat (HeaderLen h)"
  shows "cl_Decode pb sp up m buf =
    (if a \<le> length buf then
       (case cl_updateMsg pb (m1\<lparr>clientRspHead := HeadRsp rsp\<rparr>) h rsp (drop (length buf - a) buf) of
          (m', Ok _) \<Rightarrow> (m', if e + a \<le> length buf then Ok (slice e (length buf - a) buf) else Panic)
        | (m', Err err) \<Rightarrow> (m', Err err)
        | (m', Panic) \<Rightarrow> (m', Panic))
     else (m1\<lparr>clientRspHead := HeadRsp rsp\<rparr>, Panic))"
proof -
  have e: "\<not> (word_of_nat frameHeadLen :: u32) + ucast (HeaderLen h) > word_of_nat (length buf)"
    using ok(4) len by (simp only: word_less_nat_alt protocolEnd unat_word_of_nat_len)
  have b: "slice_between buf ((word_of_nat frameHeadLen :: u32) + ucast (HeaderLen h))
      (word_of_nat (length buf) - rs_AttachmentSize rsp) =
      (if e + a \<le> length buf then Ok (slice e (length buf - a) buf) else Panic)" if "a \<le> length buf"
    using that unfolding slice_between_def protocolEnd attachmentBegin [OF len(2)] e_def a_def by auto
  show ?thesis
    using len h ok(1-3) e head rsp b
    unfolding cl_Decode_def Let_def protocolEnd
    by (auto simp: slice_from_eq [OF len(2)] a_def unat_word_of_nat_len simp del: of_nat_numeral
        split: res.splits prod.splits)
qed

text \<open>C27: the attachment size in a request head is not checked against the frame. For a unary request
  frame with consistent length fields and a decodable head, the test on the attachment length never
  rejects; when the announced attachment does not fit between the head and the end of the
  frame, decoding panics with a slice out of range, and otherwise it returns the bytes between
  head and attachment.\<close>

theorem sv_Decode_attachment_unchecked:
  assumes "16 \<le> length buf" "length buf < 2 ^ 32"
    and "extract_head (newDefaultUnaryFrameHead pb) buf = Ok h"
    and "TotalLen h = word_of_nat (length buf)" "FrameType h = TRPC_UNARY_FRAME pb" "HeaderLen h \<noteq> 0"
      "16 + unat (HeaderLen h) \<le> length buf"
    and "unmarshalReq up (slice 16 (16 + unat (HeaderLen h)) buf) = Some req"
  shows "snd (snd (sv_Decode pb sp up s m buf)) =
    (if 16 + unat (HeaderLen h) + unat (rq_AttachmentSize req) \<le> length buf
     then Ok (slice (16 + unat (HeaderLen h)) (length buf - unat (rq_AttachmentSize req)) buf)
     else Panic)"
  using sv_Decode_unary [OF assms] by simp

definition sample_req :: "u32 \<Rightarrow> RequestProtocol" where
  "sample_req a = (newDefaultUnaryRequestProtocol sample_pb)\<lparr>rq_RequestId := 1, rq_Caller := ''c'', rq_Callee := ''s'',
     rq_Func := ''/a.b/M'', rq_AttachmentSize := a\<rparr>"

definition sample_up :: unary_pb where
  "sample_up = \<lparr>marshalReq = (\<lambda>r. if r = sample_req 0 then Some [1] else None),
     unmarshalReq = (\<lambda>b. if b = [1] then Some (sample_req 0) else if b = [2] then Some (sample_req 1000) else None),
     marshalRsp = (\<lambda>r. if r = emptyResponseProtocol\<lparr>rs_RequestId := 1\<rparr> then Some [3] else None),
     unmarshalRsp = (\<lambda>b. if b = [3] then Some (emptyResponseProtocol\<lparr>rs_RequestId := 1\<rparr>) else None)\<rparr>"

text \<open>A 19-byte request frame whose head (one byte, \<open>[2]\<close>) announces an attachment of 1000 bytes.\<close>

theorem sv_Decode_attachment_unchecked_witness:
  "snd (snd (sv_Decode sample_pb sample_sp sample_up [] resetDefault
     (head_bytes sample_pb (newDefaultUnaryFrameHead sample_pb) 19 1 @ [2] @ [8, 9]))) = Panic"
proof -
  let ?h = "newDefaultUnaryFrameHead sample_pb"
  let ?buf = "head_bytes sample_pb ?h 19 1 @ [2] @ [8, 9]"
  have "length ?buf = 19" "slice 16 17 ?buf = [2]" by (simp_all add: slice_def)
  moreover have "unmarshalReq sample_up [2] = Some (sample_req 1000)" by (simp add: sample_up_def)
  ultimately show ?thesis
    by (subst sv_Decode_attachment_unchecked [where h = "?h\<lparr>TotalLen := 19, HeaderLen := 1\<rparr>" and req = "sample_req 1000"])
      (simp_all add: newDefaultUnaryFrameHead_def sample_req_def)
qed

subsection \<open>What the server learns from a request head\<close>

lemma service_names [simp]:
  "calleeServiceName (WithCalleeServiceName n m) = n" "callerServiceName (WithCalleeServiceName n m) = callerServiceName m"
  "callerServiceName (WithCallerServiceName n m) = n" "calleeServiceName (WithCallerServiceName n m) = calleeServiceName m"
  "serverRPCName (WithServerRPCName n m) = n" "serverRPCName (WithCalleeServiceName n m) = serverRPCName m"
  "serverRPCName (WithCallerServiceName n m) = serverRPCName m"
  "calleeServiceName (WithServerRPCName n m) = calleeServiceName m"
  "callerServiceName (WithServerRPCName n m) = callerServiceName m"
  "clientRPCName (WithCallerServiceName n m) = clientRPCName m"
  "serverMetaData (WithServerMetaData d m) = (if d = None then Some [] else d)"
  by (simp_all add: WithCalleeServiceName_def WithCallerServiceName_def WithServerRPCName_def
      updateMethodNameUsingRPCName_def WithServerMetaData_def split: prod.splits)

lemma setters_keep_heads [simp]:
  "serverRspHead (WithCalleeServiceName n m) = serverRspHead m" "serverRspHead (WithCallerServiceName n m) = serverRspHead m"
  "serverRspHead (WithServerRPCName n m) = serverRspHead m" "serverRspHead (WithServerMetaData d m) = serverRspHead m"
  "requestTimeout (WithCalleeServiceName n m) = requestTimeout m" "requestTimeout (WithCallerServiceName n m) = requestTimeout m"
  "requestTimeout (WithServerRPCName n m) = requestTimeout m" "requestTimeout (WithServerMetaData d m) = requestTimeout m"
  "serverRPCName (WithServerMetaData d m) = serverRPCName m" "calleeServiceName (WithServerMetaData d m) = calleeServiceName m"
  "callerServiceName (WithServerMetaData d m) = callerServiceName m" "serializationType (WithServerMetaData d m) = serializationType m"
  "compressType (WithServerMetaData d m) = compressType m"
  by (simp_all add: WithCalleeServiceName_def WithCallerServiceName_def WithServerRPCName_def
      updateMethodNameUsingRPCName_def WithServerMetaData_def split: prod.splits)

lemma put_meta_keep [simp]:
  "serverRspHead (put_meta k v m) = serverRspHead m" "requestTimeout (put_meta k v m) = requestTimeout m"
  "serverRPCName (put_meta k v m) = serverRPCName m" "calleeServiceName (put_meta k v m) = calleeServiceName m"
  "callerServiceName (put_meta k v m) = callerServiceName m" "serializationType (put_meta k v m) = serializationType m"
  "compressType (put_meta k v m) = compressType m" "serverMetaData (put_meta k v m) = serverMetaData m"
  by (simp_all add: put_meta_def)

lemma msgWithRequestProtocol_fields:
  fixes pb m req attm
  defines "m' \<equiv> msgWithRequestProtocol pb m req attm"
  shows "serverRPCName m' = rq_Func req" "calleeServiceName m' = rq_Callee req" "callerServiceName m' = rq_Caller req"
    "serverRspHead m' = HeadRsp (newResponseProtocol pb req)" "requestTimeout m' = Millisecond * uint (rq_Timeout req)"
    "serializationType m' = uint (rq_ContentType req)" "compressType m' = uint (rq_ContentEncoding req)"
    "attm \<noteq> [] \<Longrightarrow> get_attachment ServerAttachmentKey m' = Some \<lparr>att_Request = ReaderBytes attm, att_Response = NoopAttachment\<rparr>"
    "md_list (rq_TransInfo req) \<noteq> [] \<Longrightarrow> md_get (serverMetaData m') = md_get (rq_TransInfo req)"
proof -
  have "md_Clone md = None \<Longrightarrow> md_list md = []" for md by (cases md) (auto simp: md_Clone_def md_merge_def md_list_def)
  then show "md_list (rq_TransInfo req) \<noteq> [] \<Longrightarrow> md_get (serverMetaData m') = md_get (rq_TransInfo req)"
    unfolding m'_def msgWithRequestProtocol_def SetServerRequestAttachment_def Let_def
    by (auto split: option.splits)
qed (simp_all add: m'_def msgWithRequestProtocol_def SetServerRequestAttachment_def Let_def split: option.splits)

lemma setClientTransInfo_get:
  assumes "md_get (clientMetaData m) k = Some v" "k \<notin> {DyeingKey_key, EnvTransfer_key}"
  shows "md_get (setClientTransInfo m tr) k = Some v"
proof -
  have upd: "md_get (Some (AList.update k' v' (md_list md))) k = md_get md k" if "k' \<noteq> k" for k' v' md
    using that by (simp add: md_get_def md_list_def update_conv)
  have "md_list (clientMetaData m) \<noteq> []" using assms(1) by (auto simp: md_get_def)
  moreover have "md_get (md_merge tr (clientMetaData m)) k = Some v" using assms(1) by (simp add: md_get_merge)
  ultimately show ?thesis using assms(2) by (auto simp: setClientTransInfo_def Let_def upd)
qed

lemma quot_nonneg: "0 \<le> a \<Longrightarrow> quot a b = a div b"
  by (cases "a = 0") (auto simp: quot_def)

subsection \<open>Round trips\<close>

text \<open>The fields of a constructed frame as the decoders read them back.\<close>

lemma constructed_frame:
  assumes "construct pb maxSize h hdr body att = Ok buf" "maxSize < 2 ^ 32" "FrameType h = TRPC_UNARY_FRAME pb"
  obtains h' where "extract_head (newDefaultUnaryFrameHead pb) buf = Ok h'"
    "TotalLen h' = word_of_nat (length buf)" "FrameType h' = TRPC_UNARY_FRAME pb" "unat (HeaderLen h') = length hdr"
    "16 \<le> length buf" "length buf < 2 ^ 32" "length buf = 16 + length hdr + length body + length att"
    "slice 16 (16 + length hdr) buf = hdr" "StreamID h' = StreamID h"
    "slice (16 + length hdr) (length buf - length att) buf = body" "drop (length buf - length att) buf = att"
proof -
  let ?n = "16 + length hdr + length body + length att"
  let ?hb = "head_bytes pb h (word_of_nat ?n) (word_of_nat (length hdr))"
  have buf: "buf = ?hb @ hdr @ body @ att" "length hdr \<le> 65535" "?n \<le> maxSize"
    using assms(1) by (auto simp: construct_Ok)
  have len: "length buf = ?n" using buf(1) by simp
  show thesis
    by (rule that [of "\<lparr>FrameType = FrameType h, StreamFrameType = StreamFrameType h, TotalLen = word_of_nat ?n,
          HeaderLen = word_of_nat (length hdr), StreamID = StreamID h, ProtocolVersion = ProtocolVersion h,
          FrameReserved = FrameReserved h\<rparr>"])
      (use buf len assms(2,3) unat_word_of_nat16 [of "length hdr"] in
        \<open>simp_all add: newDefaultUnaryFrameHead_def slice_def add.assoc del: of_nat_add\<close>)
qed

text \<open>A message as the client stub hands it to \<open>Encode\<close>: no heads yet.\<close>

definition fresh_client_msg :: "msg \<Rightarrow> bool" where
  "fresh_client_msg m \<longleftrightarrow> frameHead m = FrameHeadNil \<and> clientReqHead m = HeadNil"

text \<open>What is relied on of \<open>proto.Marshal\<close> and \<open>proto.Unmarshal\<close>: decoding inverts encoding, and a
  message with a field set has a non-empty encoding.\<close>

definition proto_req_ok :: "unary_pb \<Rightarrow> bool" where
  "proto_req_ok up \<longleftrightarrow>
     (\<forall>r b. marshalReq up r = Some b \<longrightarrow> unmarshalReq up b = Some r \<and> (rq_Caller r \<noteq> [] \<longrightarrow> b \<noteq> []))"

lemma updateCaller_fields [simp]:
  "calleeServiceName (updateCallerServiceName m n) = calleeServiceName m"
  "clientRPCName (updateCallerServiceName m n) = clientRPCName m"
  "requestTimeout (updateCallerServiceName m n) = requestTimeout m"
  "serializationType (updateCallerServiceName m n) = serializationType m"
  "compressType (updateCallerServiceName m n) = compressType m"
  "clientMetaData (updateCallerServiceName m n) = clientMetaData m"
  "requestID (updateCallerServiceName m n) = requestID m"
  "callerServiceName (updateCallerServiceName m n) = (if callerServiceName m = [] then n else callerServiceName m)"
  "clientRspHead (updateCallerServiceName m n) = clientRspHead m" "clientRspErr (updateCallerServiceName m n) = clientRspErr m"
  "callType (updateCallerServiceName m n) = callType m"
  by (simp_all add: updateCallerServiceName_def WithCallerServiceName_def split: prod.splits)

lemma cl_Encode_frame:
  assumes "cl_Encode pb sp up maxSize pn c m body = (c', m', Ok buf)" "fresh_client_msg m"
    and "TRPC_UNARY_FRAME pb \<noteq> TRPC_STREAM_FRAME pb"
  obtains att m1 req hdr h where "ReadAll (ClientRequestAttachment m) = Ok att"
    "c' = c\<lparr>cc_requestID := cc_requestID c + 1\<rparr>"
    "callerServiceName m1 = (if callerServiceName m = [] then defaultCaller c else callerServiceName m)"
    "req = updateRequestProtocol pb ((newDefaultUnaryRequestProtocol pb)\<lparr>rq_AttachmentSize := word_of_nat (length att)\<rparr>) m1"
    "calleeServiceName m1 = calleeServiceName m" "clientRPCName m1 = clientRPCName m"
    "requestTimeout m1 = requestTimeout m" "serializationType m1 = serializationType m"
    "clientMetaData m1 = clientMetaData m" "requestID m1 = cc_requestID c + 1"
    "compressType m1 = compressType m"
    "marshalReq up req = Some hdr" "construct pb maxSize h hdr body att = Ok buf" "FrameType h = TRPC_UNARY_FRAME pb"
    "StreamID h = cc_requestID c + 1" "clientReqHead m' = HeadReq req" "callType m1 = callType m"
    "clientRspHead m' = clientRspHead m" "clientRspErr m' = clientRspErr m"
proof -
  let ?h = "newDefaultUnaryFrameHead pb"
  let ?m0 = "m\<lparr>frameHead := TrpcFrameHead ?h, clientReqHead := HeadReq (newDefaultUnaryRequestProtocol pb),
      requestID := cc_requestID c + 1\<rparr>"
  let ?m1 = "updateCallerServiceName ?m0 (defaultCaller c)"
  have att: "ClientRequestAttachment ?m0 = ClientRequestAttachment m"
    by (simp add: ClientRequestAttachment_def get_attachment_def)
  have u: "\<not> isStream pb ?h" "isUnary pb ?h" using assms(3) by (auto simp: isStream_def isUnary_def newDefaultUnaryFrameHead_def)
  show thesis
  proof (cases "ReadAll (ClientRequestAttachment m)")
    case (Ok a)
    let ?req = "updateRequestProtocol pb ((newDefaultUnaryRequestProtocol pb)\<lparr>rq_AttachmentSize := word_of_nat (length a)\<rparr>) ?m1"
    let ?uh = "upgradeProtocol curProtocolVersion (cc_requestID c + 1) ?h"
    have e: "(c\<lparr>cc_requestID := cc_requestID c + 1\<rparr>, ?m1\<lparr>clientReqHead := HeadReq ?req\<rparr>,
        of_marshal (marshalReq up ?req) (\<lambda>reqHead. construct pb maxSize ?uh reqHead body a)) = (c', m', Ok buf)"
      using assms(1,2) Ok u att
      by (simp add: cl_Encode_def fresh_client_msg_def loadOrStoreDefaultUnaryFrameHead_def
          loadOrStoreDefaultRequestProtocol_def Let_def)
    then obtain hdr where "marshalReq up ?req = Some hdr" "construct pb maxSize ?uh hdr body a = Ok buf"
      by (auto simp: of_marshal_def split: option.splits)
    with e Ok show thesis
      by (intro that [of a ?m1 ?req hdr ?uh]) (auto simp: upgradeProtocol_def newDefaultUnaryFrameHead_def)
  qed (use assms(1,2) u att in \<open>simp_all add: cl_Encode_def fresh_client_msg_def loadOrStoreDefaultUnaryFrameHead_def
          loadOrStoreDefaultRequestProtocol_def Let_def\<close>)
qed

text \<open>The frame of a request as the server codec decodes it.\<close>

lemma request_transfer:
  assumes enc: "cl_Encode pb sp up maxSize pn c m body = (c', m', Ok buf)" and fresh: "fresh_client_msg m"
    and cst: "TRPC_UNARY_FRAME pb \<noteq> TRPC_STREAM_FRAME pb" and up: "proto_req_ok up"
    and sz: "maxSize < 2 ^ 32" and caller: "defaultCaller c \<noteq> []"
    and ranges: "0 \<le> serializationType m" "serializationType m < 2 ^ 32" "0 \<le> compressType m" "compressType m < 2 ^ 32"
      "0 \<le> requestTimeout m" "requestTimeout m div 1000000 < 2 ^ 32"
  obtains h req att where
    "\<And>s ms. sv_Decode pb sp up s ms buf = (s, msgWithRequestProtocol pb (ms\<lparr>frameHead := TrpcFrameHead h\<rparr>) req att, Ok body)"
    "FrameType h = TRPC_UNARY_FRAME pb" "ReadAll (ClientRequestAttachment m) = Ok att"
    "rq_Func req = clientRPCName m" "rq_Callee req = calleeServiceName m" "rq_RequestId req = cc_requestID c'"
    "rq_Caller req = (if callerServiceName m = [] then defaultCaller c else callerServiceName m)"
    "uint (rq_ContentType req) = serializationType m" "uint (rq_ContentEncoding req) = compressType m"
    "uint (rq_Timeout req) = requestTimeout m div 1000000" "rq_CallType req = word_of_int (callType m)"
    "\<And>k v. \<lbrakk>md_get (clientMetaData m) k = Some v; k \<notin> {DyeingKey_key, EnvTransfer_key}\<rbrakk> \<Longrightarrow> md_get (rq_TransInfo req) k = Some v"
    "clientReqHead m' = HeadReq req" "clientRspHead m' = clientRspHead m" "clientRspErr m' = clientRspErr m"
proof -
  obtain att m1 req hdr h where att: "ReadAll (ClientRequestAttachment m) = Ok att"
    and c': "c' = c\<lparr>cc_requestID := cc_requestID c + 1\<rparr>"
    and caller1: "callerServiceName m1 = (if callerServiceName m = [] then defaultCaller c else callerServiceName m)"
    and req: "req = updateRequestProtocol pb ((newDefaultUnaryRequestProtocol pb)\<lparr>rq_AttachmentSize := word_of_nat (length att)\<rparr>) m1"
    and m1: "calleeServiceName m1 = calleeServiceName m" "clientRPCName m1 = clientRPCName m"
      "requestTimeout m1 = requestTimeout m" "serializationType m1 = serializationType m"
      "clientMetaData m1 = clientMetaData m" "requestID m1 = cc_requestID c + 1" "compressType m1 = compressType m"
    and hdr: "marshalReq up req = Some hdr" and con: "construct pb maxSize h hdr body att = Ok buf"
    and u: "FrameType h = TRPC_UNARY_FRAME pb" and "StreamID h = cc_requestID c + 1" and m': "clientReqHead m' = HeadReq req" and ct: "callType m1 = callType m"
    and m'': "clientRspHead m' = clientRspHead m" "clientRspErr m' = clientRspErr m"
    by (rule cl_Encode_frame [OF enc fresh cst])
  have f: "rq_Func req = clientRPCName m" "rq_Callee req = calleeServiceName m" "rq_RequestId req = cc_requestID c'"
    "rq_Caller req = (if callerServiceName m = [] then defaultCaller c else callerServiceName m)"
    "rq_AttachmentSize req = word_of_nat (length att)" "uint (rq_ContentType req) = serializationType m"
    "uint (rq_ContentEncoding req) = compressType m" "uint (rq_Timeout req) = requestTimeout m div 1000000"
    "rq_TransInfo req = setClientTransInfo m1 None" "rq_CallType req = word_of_int (callType m)"
    using ranges by (simp_all add: req updateRequestProtocol_def m1 caller1 c' ct newDefaultUnaryRequestProtocol_def quot_nonneg
        uint_word_of_int div_int_pos_iff)
  have dec: "unmarshalReq up hdr = Some req" "hdr \<noteq> []"
    using up hdr f(4) caller by (auto simp: proto_req_ok_def)
  obtain h' where h': "extract_head (newDefaultUnaryFrameHead pb) buf = Ok h'"
    "TotalLen h' = word_of_nat (length buf)" "FrameType h' = TRPC_UNARY_FRAME pb" "unat (HeaderLen h') = length hdr"
    "16 \<le> length buf" "length buf < 2 ^ 32" "length buf = 16 + length hdr + length body + length att"
    "slice 16 (16 + length hdr) buf = hdr" "StreamID h' = StreamID h"
    "slice (16 + length hdr) (length buf - length att) buf = body" "drop (length buf - length att) buf = att"
    by (rule constructed_frame [OF con sz u])
  have a: "unat (rq_AttachmentSize req) = length att" using h'(6,7) by (simp add: f(5) unat_word_of_nat_len)
  have ne: "HeaderLen h' \<noteq> 0" using h'(4) dec(2) by auto
  have fits: "16 + unat (HeaderLen h') \<le> length buf" "16 + unat (HeaderLen h') + length att \<le> length buf" "length att \<le> length buf"
    using h'(4,7) by simp_all
  have "unmarshalReq up (slice 16 (16 + unat (HeaderLen h')) buf) = Some req" using h'(4,8) dec(1) by simp
  from sv_Decode_unary [OF h'(5,6,1-3) ne fits(1) this] fits(2,3) h'(4,10,11)
  have "sv_Decode pb sp up s ms buf =
      (s, msgWithRequestProtocol pb (ms\<lparr>frameHead := TrpcFrameHead h'\<rparr>) req att, Ok body)" for s ms
    unfolding a by simp
  moreover have "md_get (rq_TransInfo req) k = Some v"
    if "md_get (clientMetaData m) k = Some v" "k \<notin> {DyeingKey_key, EnvTransfer_key}" for k v
    using setClientTransInfo_get [of m1 k v None] that m1(5) by (simp add: f(9))
  ultimately show thesis by (intro that [of h' req att]) (use h'(3) f att m' m'' in simp_all)
qed

text \<open>C8: a request survives the round trip. If the client codec encodes a fresh unary message, the server
  codec decodes the resulting frame without error to the same body and attachment; it sees the
  client's RPC name, callee and caller (the client's default when none is set), the serialization
  and compression types and the metadata, a timeout rounded down to milliseconds, and answers with
  the request id the client drew for this call.\<close>

theorem request_roundtrip:
  assumes enc: "cl_Encode pb sp up maxSize pn c m body = (c', m', Ok buf)" and fresh: "fresh_client_msg m"
    and cst: "TRPC_UNARY_FRAME pb \<noteq> TRPC_STREAM_FRAME pb" and up: "proto_req_ok up"
    and sz: "maxSize < 2 ^ 32" and caller: "defaultCaller c \<noteq> []"
    and ranges: "0 \<le> serializationType m" "serializationType m < 2 ^ 32" "0 \<le> compressType m" "compressType m < 2 ^ 32"
      "0 \<le> requestTimeout m" "requestTimeout m div 1000000 < 2 ^ 32"
  shows "\<exists>m2. sv_Decode pb sp up s ms buf = (s, m2, Ok body)
    \<and> serverRPCName m2 = clientRPCName m \<and> calleeServiceName m2 = calleeServiceName m
    \<and> callerServiceName m2 = (if callerServiceName m = [] then defaultCaller c else callerServiceName m)
    \<and> serializationType m2 = serializationType m \<and> compressType m2 = compressType m
    \<and> requestTimeout m2 = 1000000 * (requestTimeout m div 1000000)
    \<and> (\<exists>rsp. serverRspHead m2 = HeadRsp rsp \<and> rs_RequestId rsp = cc_requestID c')
    \<and> (\<forall>k v. md_get (clientMetaData m) k = Some v \<and> k \<notin> {DyeingKey_key, EnvTransfer_key}
         \<longrightarrow> md_get (serverMetaData m2) k = Some v)
    \<and> (\<forall>a. ClientRequestAttachment m = Some (ReaderBytes a) \<and> a \<noteq> []
         \<longrightarrow> map_option att_Request (get_attachment ServerAttachmentKey m2) = Some (ReaderBytes a))"
proof -
  obtain h req att where d: "sv_Decode pb sp up s ms buf = (s, msgWithRequestProtocol pb (ms\<lparr>frameHead := TrpcFrameHead h\<rparr>) req att, Ok body)"
    and att: "ReadAll (ClientRequestAttachment m) = Ok att"
    and f: "rq_Func req = clientRPCName m" "rq_Callee req = calleeServiceName m" "rq_RequestId req = cc_requestID c'"
      "rq_Caller req = (if callerServiceName m = [] then defaultCaller c else callerServiceName m)"
      "uint (rq_ContentType req) = serializationType m" "uint (rq_ContentEncoding req) = compressType m"
      "uint (rq_Timeout req) = requestTimeout m div 1000000"
    and md: "\<And>k v. \<lbrakk>md_get (clientMetaData m) k = Some v; k \<notin> {DyeingKey_key, EnvTransfer_key}\<rbrakk> \<Longrightarrow> md_get (rq_TransInfo req) k = Some v"
    by (rule request_transfer [OF assms]) blast
  have "md_get (serverMetaData (msgWithRequestProtocol pb mm req att)) k = Some v"
    if "md_get (clientMetaData m) k = Some v" "k \<notin> {DyeingKey_key, EnvTransfer_key}" for mm k v
  proof -
    have "md_list (rq_TransInfo req) \<noteq> []" using md [OF that] by (auto simp: md_get_def)
    with md [OF that] show ?thesis by (simp add: msgWithRequestProtocol_fields(9))
  qed
  moreover have "att = a'" if "ClientRequestAttachment m = Some (ReaderBytes a')" for a'
    using att that by (simp add: ReadAll_def)
  ultimately show ?thesis
    using d f by (auto simp: msgWithRequestProtocol_fields newResponseProtocol_def)
qed

definition sample_client :: ClientCodec where
  "sample_client = \<lparr>defaultCaller = ''d'', cc_requestID = 0\<rparr>"

definition sample_call :: msg where
  "sample_call = resetDefault\<lparr>clientRPCName := ''/a.b/M'', callerServiceName := ''c'', calleeServiceName := ''s''\<rparr>"

lemma sample_encode:
  "\<exists>c' m' buf. cl_Encode sample_pb sample_sp sample_up 100 ''p'' sample_client sample_call [7] = (c', m', Ok buf)"
proof -
  have "updateRequestProtocol sample_pb ((newDefaultUnaryRequestProtocol sample_pb)\<lparr>rq_AttachmentSize := 0\<rparr>)
      (sample_call\<lparr>frameHead := f, clientReqHead := g, requestID := 1\<rparr>) = sample_req 0" for f g
    by (simp add: updateRequestProtocol_def newDefaultUnaryRequestProtocol_def sample_call_def resetDefault_def
        sample_req_def sample_pb_def quot_def setClientTransInfo_def md_list_def md_get_def)
  then show ?thesis
    by (simp add: cl_Encode_def sample_call_def sample_client_def loadOrStoreDefaultUnaryFrameHead_def
        loadOrStoreDefaultRequestProtocol_def resetDefault_def isStream_def isUnary_def newDefaultUnaryFrameHead_def
        ClientRequestAttachment_def get_attachment_def ReadAll_def updateCallerServiceName_def of_marshal_def
        sample_up_def construct_def Let_def sample_pb_def)
qed

theorem request_roundtrip_witness:
  "\<exists>buf m2. sv_Decode sample_pb sample_sp sample_up [] resetDefault buf = ([], m2, Ok [7]) \<and> serverRPCName m2 = ''/a.b/M''"
proof -
  obtain c' m' buf where enc: "cl_Encode sample_pb sample_sp sample_up 100 ''p'' sample_client sample_call [7] = (c', m', Ok buf)"
    using sample_encode by blast
  have up: "proto_req_ok sample_up" by (auto simp: proto_req_ok_def sample_up_def)
  have "\<exists>m2. sv_Decode sample_pb sample_sp sample_up [] resetDefault buf = ([], m2, Ok [7])
    \<and> serverRPCName m2 = clientRPCName sample_call"
    using request_roundtrip [OF enc _ _ up, of "[]" resetDefault]
    by (simp add: fresh_client_msg_def sample_call_def resetDefault_def sample_pb_def sample_client_def) blast
  then show ?thesis by (auto simp: sample_call_def)
qed

subsection \<open>Responses\<close>

text \<open>A message whose request has been decoded: it holds a unary frame head and a response head.\<close>

definition answering :: "pb_consts \<Rightarrow> msg \<Rightarrow> ResponseProtocol \<Rightarrow> bool" where
  "answering pb m rsp0 \<longleftrightarrow> (\<exists>h. frameHead m = TrpcFrameHead h \<and> FrameType h = TRPC_UNARY_FRAME pb)
     \<and> serverRspHead m = HeadRsp rsp0 \<and> rs_Ret rsp0 = 0 \<and> rs_FuncRet rsp0 = 0"

definition awaiting :: "msg \<Rightarrow> u32 \<Rightarrow> bool" where
  "awaiting m rid \<longleftrightarrow> clientRspHead m = HeadNil \<and> (\<exists>req. clientReqHead m = HeadReq req \<and> rq_RequestId req = rid)"

definition proto_rsp_ok :: "unary_pb \<Rightarrow> bool" where
  "proto_rsp_ok up \<longleftrightarrow> (\<forall>r b. marshalRsp up r = Some b \<longrightarrow> unmarshalRsp up b = Some r)"

text \<open>The error the caller gets for the error a handler returned.\<close>

definition transported_err :: "go_error option \<Rightarrow> go_error option \<Rightarrow> go_error option" where
  "transported_err srvErr old =
     (case srvErr of
        None \<Rightarrow> old
      | Some e \<Rightarrow>
          if e_Code e = 0 then old
          else if e_Type e = ErrorTypeFramework
            then Some (TrpcError ErrorTypeCalleeFramework (e_Code e) (e_Msg e) ''trpc'' None)
          else Some (TrpcError ErrorTypeBusiness (e_Code e) (e_Msg e) [] None))"

lemma getAndInit_fields:
  assumes "serverRspHead m = HeadRsp rsp0" "rs_Ret rsp0 = 0" "rs_FuncRet rsp0 = 0"
  shows "rs_RequestId (getAndInitResponseProtocol pb m) = rs_RequestId rsp0"
    "rsp_err ((getAndInitResponseProtocol pb m)\<lparr>rs_AttachmentSize := x\<rparr>) old
       = transported_err (ServerRspErr (pb_codes pb) m) old"
  using assms
  by (auto simp: getAndInitResponseProtocol_def rsp_err_def transported_err_def err_New_def Let_def split: option.splits)

lemma sv_Encode_frame:
  assumes "answering pb m rsp0" "TRPC_UNARY_FRAME pb \<noteq> TRPC_STREAM_FRAME pb"
    and "ReadAll (ServerResponseAttachment m) = Ok att"
    and "marshalRsp up ((getAndInitResponseProtocol pb m)\<lparr>rs_AttachmentSize := word_of_nat (length att)\<rparr>) = Some hdr"
    and "construct pb maxSize h hdr body att = r" "frameHead m = TrpcFrameHead h"
  shows "snd (snd (sv_Encode pb sp up maxSize s m body)) =
    (case r of
       Err e \<Rightarrow>
         if e = errHeadOverflowsUint16 \<or> e = errFrameTooLarge \<or> e = errHeadOverflowsUint32 then
           snd (handleEncodeErr pb up maxSize
             ((getAndInitResponseProtocol pb m)\<lparr>rs_AttachmentSize := word_of_nat (length att)\<rparr>) h
             (if e = errHeadOverflowsUint16 then body else []) e)
         else Err e
     | r \<Rightarrow> r)"
proof -
  have "\<not> isStream pb h" "isUnary pb h"
    using assms(1,2,6) by (auto simp: answering_def isStream_def isUnary_def)
  with assms(3-6) show ?thesis
    by (auto simp: sv_Encode_def loadOrStoreDefaultUnaryFrameHead_def Let_def split: res.splits prod.splits)
qed

lemma cl_updateMsg_awaiting:
  assumes "awaiting m (rs_RequestId rsp)"
  shows "\<exists>m'. cl_updateMsg pb (m\<lparr>frameHead := f, clientRspHead := g\<rparr>) h rsp att = (m', Ok ())
    \<and> clientRspErr m' = rsp_err rsp (clientRspErr m)
    \<and> serializationType m' = uint (rs_ContentType rsp) \<and> compressType m' = uint (rs_ContentEncoding rsp)"
proof -
  obtain req where "clientReqHead m = HeadReq req" "rq_RequestId req = rs_RequestId rsp"
    using assms by (auto simp: awaiting_def)
  then show ?thesis
    by (auto simp: cl_updateMsg_def loadOrStoreDefaultRequestProtocol_def WithClientMetaData_def
        SetClientResponseAttachment_def put_meta_def Let_def split: option.splits)
qed

lemma cl_Decode_constructed:
  assumes con: "construct pb maxSize h hdr body att = Ok buf" and sz: "maxSize < 2 ^ 32"
    and u: "FrameType h = TRPC_UNARY_FRAME pb" and rsp: "unmarshalRsp up hdr = Some rsp" "hdr \<noteq> []"
    and aw: "awaiting mc (rs_RequestId rsp)"
  shows "\<exists>m'. snd (cl_Decode pb sp up mc buf) =
      (if unat (rs_AttachmentSize rsp) \<le> length body + length att
       then Ok (slice (16 + length hdr) (length buf - unat (rs_AttachmentSize rsp)) buf) else Panic)
    \<and> (unat (rs_AttachmentSize rsp) \<le> length body + length att \<longrightarrow>
         fst (cl_Decode pb sp up mc buf) = m' \<and> clientRspErr m' = rsp_err rsp (clientRspErr mc)
         \<and> serializationType m' = uint (rs_ContentType rsp) \<and> compressType m' = uint (rs_ContentEncoding rsp))"
proof -
  obtain h' where h': "extract_head (newDefaultUnaryFrameHead pb) buf = Ok h'"
    "TotalLen h' = word_of_nat (length buf)" "FrameType h' = TRPC_UNARY_FRAME pb" "unat (HeaderLen h') = length hdr"
    "16 \<le> length buf" "length buf < 2 ^ 32" "length buf = 16 + length hdr + length body + length att"
    "slice 16 (16 + length hdr) buf = hdr" "StreamID h' = StreamID h"
    "slice (16 + length hdr) (length buf - length att) buf = body" "drop (length buf - length att) buf = att"
    by (rule constructed_frame [OF con sz u])
  have ne: "HeaderLen h' \<noteq> 0" using h'(4) rsp(2) by auto
  have fits: "16 + unat (HeaderLen h') \<le> length buf" using h'(4,7) by simp
  have um: "unmarshalRsp up (slice 16 (16 + unat (HeaderLen h')) buf) = Some rsp" using h'(4,8) rsp(1) by simp
  have ld: "loadOrStoreResponseHead (mc\<lparr>frameHead := TrpcFrameHead h'\<rparr>) =
      Ok (mc\<lparr>frameHead := TrpcFrameHead h', clientRspHead := HeadRsp emptyResponseProtocol\<rparr>)"
    using aw by (simp add: awaiting_def loadOrStoreResponseHead_def)
  let ?a = "unat (rs_AttachmentSize rsp)"
  obtain m' where m': "cl_updateMsg pb (mc\<lparr>frameHead := TrpcFrameHead h', clientRspHead := HeadRsp rsp\<rparr>) h' rsp
      (drop (length buf - ?a) buf) = (m', Ok ())" "clientRspErr m' = rsp_err rsp (clientRspErr mc)"
      "serializationType m' = uint (rs_ContentType rsp)" "compressType m' = uint (rs_ContentEncoding rsp)"
    using cl_updateMsg_awaiting [OF aw] by blast
  have le: "?a \<le> length body + length att \<longleftrightarrow> 16 + unat (HeaderLen h') + ?a \<le> length buf" using h'(4,7) by auto
  show ?thesis
    using cl_Decode_unary [OF h'(5,6,1-3) ne fits ld um] m' unfolding le h'(4) by auto
qed

lemma response_transfer:
  assumes ans: "answering pb m rsp0" and cst: "TRPC_UNARY_FRAME pb \<noteq> TRPC_STREAM_FRAME pb"
    and att: "ReadAll (ServerResponseAttachment m) = Ok att"
    and hdr: "marshalRsp up ((getAndInitResponseProtocol pb m)\<lparr>rs_AttachmentSize := word_of_nat (length att)\<rparr>) = Some hdr"
    and size: "hdr \<noteq> []" "length hdr \<le> 65535" "16 + length hdr + length body + length att \<le> maxSize" "maxSize < 2 ^ 32"
    and up: "proto_rsp_ok up" and aw: "awaiting mc (rs_RequestId rsp0)"
  shows "\<exists>buf mc'. snd (snd (sv_Encode pb sp up maxSize s m body)) = Ok buf
    \<and> cl_Decode pb sp up mc buf = (mc', Ok body)
    \<and> clientRspErr mc' = transported_err (ServerRspErr (pb_codes pb) m) (clientRspErr mc)
    \<and> serializationType mc' = uint (word_of_int (serializationType m) :: u32)
    \<and> compressType mc' = uint (word_of_int (compressType m) :: u32)"
proof -
  let ?rsp = "(getAndInitResponseProtocol pb m)\<lparr>rs_AttachmentSize := word_of_nat (length att)\<rparr>"
  obtain h where h: "frameHead m = TrpcFrameHead h" "FrameType h = TRPC_UNARY_FRAME pb"
    and r0: "serverRspHead m = HeadRsp rsp0" "rs_Ret rsp0 = 0" "rs_FuncRet rsp0 = 0"
    using ans by (auto simp: answering_def)
  obtain buf where con: "construct pb maxSize h hdr body att = Ok buf"
    using size by (auto simp: construct_Ok)
  have enc: "snd (snd (sv_Encode pb sp up maxSize s m body)) = Ok buf"
    using sv_Encode_frame [OF ans cst att hdr con h(1)] by simp
  have um: "unmarshalRsp up hdr = Some ?rsp" using up hdr by (simp add: proto_rsp_ok_def)
  have a: "unat (rs_AttachmentSize ?rsp) = length att" using size(3,4) by (simp add: unat_word_of_nat_len)
  have aw': "awaiting mc (rs_RequestId ?rsp)" using aw getAndInit_fields(1) [OF r0] by simp
  obtain h' where "slice (16 + length hdr) (length buf - length att) buf = body"
    by (rule constructed_frame [OF con size(4) h(2)])
  with cl_Decode_constructed [OF con size(4) h(2) um size(1) aw', where sp = sp]
  have "snd (cl_Decode pb sp up mc buf) = Ok body"
    "clientRspErr (fst (cl_Decode pb sp up mc buf)) = rsp_err ?rsp (clientRspErr mc)"
    "serializationType (fst (cl_Decode pb sp up mc buf)) = uint (rs_ContentType ?rsp)"
    "compressType (fst (cl_Decode pb sp up mc buf)) = uint (rs_ContentEncoding ?rsp)"
    unfolding a by auto
  moreover have "rs_ContentType ?rsp = word_of_int (serializationType m)" "rs_ContentEncoding ?rsp = word_of_int (compressType m)"
    by (simp_all add: getAndInitResponseProtocol_def Let_def split: option.split)
  ultimately show ?thesis using enc getAndInit_fields(2) [OF r0]
    by (intro exI [of _ buf] exI [of _ "fst (cl_Decode pb sp up mc buf)"]) (simp add: prod_eq_iff)
qed


definition sample_answer :: msg where
  "sample_answer = resetDefault\<lparr>frameHead := TrpcFrameHead (newDefaultUnaryFrameHead sample_pb),
     serverRspHead := HeadRsp (emptyResponseProtocol\<lparr>rs_RequestId := 1\<rparr>)\<rparr>"

definition sample_caller :: msg where
  "sample_caller = resetDefault\<lparr>clientReqHead := HeadReq (sample_req 0)\<rparr>"

lemma sample_states:
  "answering sample_pb sample_answer (emptyResponseProtocol\<lparr>rs_RequestId := 1\<rparr>)" "awaiting sample_caller 1"
  "getAndInitResponseProtocol sample_pb sample_answer = emptyResponseProtocol\<lparr>rs_RequestId := 1\<rparr>"
  by (simp_all add: answering_def sample_answer_def newDefaultUnaryFrameHead_def emptyResponseProtocol_def awaiting_def
      sample_caller_def sample_req_def resetDefault_def getAndInitResponseProtocol_def ServerRspErr_def md_list_def)


text \<open>an answer whose attachment makes the frame too large crashes the client. The server then
  answers with an error head instead (\<open>handleEncodeErr\<close>) but leaves the attachment size of the dropped
  attachment in it; decoding that frame, the client's slice is out of range and it panics, where it
  should have received \<open>RetServerEncodeFail\<close>.\<close>

theorem oversized_attachment_panics_client:
  assumes ans: "answering pb m rsp0" and cst: "TRPC_UNARY_FRAME pb \<noteq> TRPC_STREAM_FRAME pb"
    and att: "ReadAll (ServerResponseAttachment m) = Ok att" "att \<noteq> []" "length att < 2 ^ 32"
    and hdr: "marshalRsp up ((getAndInitResponseProtocol pb m)\<lparr>rs_AttachmentSize := word_of_nat (length att)\<rparr>) = Some hdr"
    and big: "length hdr \<le> 65535" "16 + length hdr + length body + length att > maxSize" "maxSize < 2 ^ 32"
    and enc: "snd (snd (sv_Encode pb sp up maxSize s m body)) = Ok buf"
    and up: "proto_rsp_ok up" "\<And>r. marshalRsp up r \<noteq> Some []" and aw: "awaiting mc (rs_RequestId rsp0)"
  shows "snd (cl_Decode pb sp up mc buf) = Panic"
proof -
  let ?rsp = "(getAndInitResponseProtocol pb m)\<lparr>rs_AttachmentSize := word_of_nat (length att)\<rparr>"
  let ?rsp' = "?rsp\<lparr>rs_TransInfo := None, rs_Ret := RetServerEncodeFail (pb_codes pb), rs_ErrorMsg := err_text pb errFrameTooLarge\<rparr>"
  obtain h where h: "frameHead m = TrpcFrameHead h" "FrameType h = TRPC_UNARY_FRAME pb"
    and r0: "serverRspHead m = HeadRsp rsp0" "rs_Ret rsp0 = 0" "rs_FuncRet rsp0 = 0"
    using ans by (auto simp: answering_def)
  have con: "construct pb maxSize h hdr body att = Err errFrameTooLarge"
    using big att(3) by (simp add: construct_def Let_def)
  from sv_Encode_frame [OF ans cst att(1) hdr con h(1)] enc
  obtain hdr' where hdr': "marshalRsp up ?rsp' = Some hdr'" "construct pb maxSize h hdr' [] [] = Ok buf"
    by (auto simp: handleEncodeErr_def of_marshal_def Let_def split: option.splits)
  have um: "unmarshalRsp up hdr' = Some ?rsp'" "hdr' \<noteq> []" using up hdr'(1) by (auto simp: proto_rsp_ok_def)
  have aw': "awaiting mc (rs_RequestId ?rsp')" using aw getAndInit_fields(1) [OF r0] by simp
  have "unat (rs_AttachmentSize ?rsp') = length att" using att(3) by (simp add: unat_word_of_nat_len)
  with cl_Decode_constructed [OF hdr'(2) big(3) h(2) um aw', where sp = sp] att(2) show ?thesis by auto
qed

definition big_att :: bytes where
  "big_att = replicate 90 0"

definition big_rsp :: ResponseProtocol where
  "big_rsp = emptyResponseProtocol\<lparr>rs_RequestId := 1, rs_AttachmentSize := 90\<rparr>"

definition big_err_rsp :: ResponseProtocol where
  "big_err_rsp = big_rsp\<lparr>rs_TransInfo := None, rs_Ret := 2, rs_ErrorMsg := ''error''\<rparr>"

definition big_up :: unary_pb where
  "big_up = \<lparr>marshalReq = (\<lambda>_. None), unmarshalReq = (\<lambda>_. None),
     marshalRsp = (\<lambda>r. if r = big_rsp then Some [1] else if r = big_err_rsp then Some [2] else None),
     unmarshalRsp = (\<lambda>b. if b = [1] then Some big_rsp else if b = [2] then Some big_err_rsp else None)\<rparr>"

definition big_answer :: msg where
  "big_answer = sample_answer\<lparr>commonMeta := Some [(ServerAttachmentKey,
     AttachmentVal \<lparr>att_Request = ReaderNil, att_Response = ReaderBytes big_att\<rparr>)]\<rparr>"

lemma big_states:
  "answering sample_pb big_answer (emptyResponseProtocol\<lparr>rs_RequestId := 1\<rparr>)"
  "(getAndInitResponseProtocol sample_pb big_answer)\<lparr>rs_AttachmentSize := word_of_nat (length big_att)\<rparr> = big_rsp"
  "ReadAll (ServerResponseAttachment big_answer) = Ok big_att"
  by (simp_all add: answering_def big_answer_def sample_answer_def newDefaultUnaryFrameHead_def emptyResponseProtocol_def
      resetDefault_def getAndInitResponseProtocol_def ServerRspErr_def md_list_def big_rsp_def big_att_def ReadAll_def
      ServerResponseAttachment_def get_attachment_def)

theorem oversized_attachment_panics_client_witness:
  "\<exists>buf. snd (snd (sv_Encode sample_pb sample_sp big_up 100 [] big_answer [])) = Ok buf
     \<and> snd (cl_Decode sample_pb sample_sp big_up sample_caller buf) = Panic"
proof -
  let ?h = "newDefaultUnaryFrameHead sample_pb"
  have ne: "big_err_rsp \<noteq> big_rsp" by (simp add: big_err_rsp_def big_rsp_def emptyResponseProtocol_def)
  have hdr: "marshalRsp big_up ((getAndInitResponseProtocol sample_pb big_answer)\<lparr>rs_AttachmentSize := word_of_nat (length big_att)\<rparr>) = Some [1]"
    unfolding big_states(2) by (simp add: big_up_def)
  have con: "construct sample_pb 100 ?h [1] [] big_att = Err errFrameTooLarge" by (simp add: construct_def big_att_def)
  have fh: "frameHead big_answer = TrpcFrameHead ?h" by (simp add: big_answer_def sample_answer_def)
  have cst: "TRPC_UNARY_FRAME sample_pb \<noteq> TRPC_STREAM_FRAME sample_pb" by (simp add: sample_pb_def)
  have "big_rsp\<lparr>rs_TransInfo := None, rs_Ret := RetServerEncodeFail (pb_codes sample_pb),
      rs_ErrorMsg := err_text sample_pb errFrameTooLarge\<rparr> = big_err_rsp"
    by (simp add: big_err_rsp_def sample_pb_def)
  then have "\<exists>buf. snd (snd (sv_Encode sample_pb sample_sp big_up 100 [] big_answer [])) = Ok buf"
    unfolding sv_Encode_frame [OF big_states(1) cst big_states(3) hdr con fh] big_states(2)
    using ne by (auto simp: handleEncodeErr_def Let_def of_marshal_def big_up_def construct_Ok)
  then obtain buf where buf: "snd (snd (sv_Encode sample_pb sample_sp big_up 100 [] big_answer [])) = Ok buf" by blast
  have "snd (cl_Decode sample_pb sample_sp big_up sample_caller buf) = Panic"
  proof (rule oversized_attachment_panics_client [OF big_states(1) cst big_states(3) _ _ hdr _ _ _ buf])
    show "proto_rsp_ok big_up" using ne by (auto simp: proto_rsp_ok_def big_up_def)
    show "marshalRsp big_up r \<noteq> Some []" for r by (simp add: big_up_def)
  qed (use sample_states(2) in \<open>simp_all add: big_att_def emptyResponseProtocol_def\<close>)
  with buf show ?thesis by blast
qed

end
