(* ===== verification/Fifo.thy ===== *)
theory Fifo
  imports Go_Prelude
begin

text \<open>
  The contract of a first-in first-out queue that may refuse elements when it is full. The lemma
  proved here once is the history property of every such queue: the elements taken out, followed
  by those still inside, are the elements that were inside and those accepted since, in order.
  The circular queue of \<open>internal/ring\<close> and the list queue of \<open>internal/queue\<close> are instances.
\<close>

datatype 'a queue_op = OpPut 'a | OpGet

locale fifo =
  fixes abs :: "'s \<Rightarrow> 'a list"
    and inv :: "'s \<Rightarrow> bool"
    and full :: "'s \<Rightarrow> bool"
    and put :: "'a \<Rightarrow> 's \<Rightarrow> 's option"
    and get :: "'s \<Rightarrow> ('s \<times> 'a) option"
  assumes put_full: "inv s \<Longrightarrow> full s \<Longrightarrow> put x s = None"
    and put_ok: "inv s \<Longrightarrow> \<not> full s \<Longrightarrow> \<exists>s'. put x s = Some s' \<and> inv s' \<and> abs s' = abs s @ [x]"
    and get_empty: "inv s \<Longrightarrow> abs s = [] \<Longrightarrow> get s = None"
    and get_front: "inv s \<Longrightarrow> abs s = x # xs \<Longrightarrow> \<exists>s'. get s = Some (s', x) \<and> inv s' \<and> abs s' = xs"
begin

text \<open>A run of operations, with the elements accepted and the elements delivered.\<close>

fun run :: "'a queue_op list \<Rightarrow> 's \<Rightarrow> 's \<times> 'a list \<times> 'a list" where
  "run [] s = (s, [], [])"
| "run (OpPut x # ops) s =
     (case put x s of
        None \<Rightarrow> run ops s
      | Some s' \<Rightarrow> (case run ops s' of (t, acc, out) \<Rightarrow> (t, x # acc, out)))"
| "run (OpGet # ops) s =
     (case get s of
        None \<Rightarrow> run ops s
      | Some (s', x) \<Rightarrow> (case run ops s' of (t, acc, out) \<Rightarrow> (t, acc, x # out)))"

lemma run_history:
  "inv s \<Longrightarrow> run ops s = (t, acc, out) \<Longrightarrow> inv t \<and> abs s @ acc = out @ abs t"
proof (induction ops arbitrary: s t acc out)
  case step: (Cons op ops)
  show ?case
  proof (cases op)
    case (OpPut x)
    show ?thesis
    proof (cases "full s")
      case True
      then show ?thesis using step.IH [of s t acc out] step.prems OpPut put_full [of s x] by simp
    next
      case False
      with put_ok [OF step.prems(1)] obtain s' where s': "put x s = Some s'" "inv s'" "abs s' = abs s @ [x]" by blast
      obtain t' acc' out' where r: "run ops s' = (t', acc', out')" by (cases "run ops s'")
      from step.IH [OF s'(2) r] s' r OpPut step.prems(2) show ?thesis by simp
    qed
  next
    case OpGet
    show ?thesis
    proof (cases "abs s")
      case Nil
      then show ?thesis using step.IH [of s t acc out] step.prems OpGet get_empty [of s] by simp
    next
      case (Cons x xs)
      with get_front [OF step.prems(1)] obtain s' where s': "get s = Some (s', x)" "inv s'" "abs s' = xs" by blast
      obtain t' acc' out' where r: "run ops s' = (t', acc', out')" by (cases "run ops s'")
      from step.IH [OF s'(2) r] s' r OpGet step.prems(2) Cons show ?thesis by simp
    qed
  qed
qed simp

end

end
