(* ===== verification/Ring_Buffer.thy ===== *)
theory Ring_Buffer
  imports Fifo
begin

text \<open>
  The circular queue of \<open>internal/ring/ring.go\<close>, with 32-bit sequence numbers that wrap around. The
  operations are modelled as they run without interference: the compare-and-swap loops succeed in
  their first round, and the waiting loops of \<open>commit\<close> and \<open>consume\<close> return \<open>None\<close> when their
  condition does not hold, as nobody else would make it true. The refinement shows that this
  never happens, and that the ring is a bounded queue of \<open>capacity - 1\<close> elements at every position
  of the counters, wrapped or not. Padding fields are left out; a slot holds \<open>None\<close> for the zero value.
\<close>

record 'a ringItem =
  putSeq :: u32
  getSeq :: u32
  rvalue :: "'a option"

record 'a Ring =
  capacity :: u32
  mask :: u32
  head :: u32
  tail :: u32
  data :: "'a ringItem list"

definition roundUpToPower2 :: "u32 \<Rightarrow> u32" where
  "roundUpToPower2 v0 =
     (let v = v0 - 1;
          v = v OR drop_bit 1 v;
          v = v OR drop_bit 2 v;
          v = v OR drop_bit 4 v;
          v = v OR drop_bit 8 v;
          v = v OR drop_bit 16 v
      in v + 1)"

definition ring_New :: "u32 \<Rightarrow> 'a Ring" where
  "ring_New cap0 =
     (let cap1 = roundUpToPower2 cap0;
          cap = (if cap1 < 2 then 2 else cap1);
          items = map (\<lambda>i. \<lparr>putSeq = word_of_nat i, getSeq = word_of_nat i, rvalue = None\<rparr>) [0..<unat cap];
          items = items[0 := (items ! 0)\<lparr>getSeq := cap, putSeq := cap\<rparr>]
      in \<lparr>capacity = cap, mask = cap - 1, head = 0, tail = 0, data = items\<rparr>)"

definition quantity :: "u32 \<Rightarrow> u32 \<Rightarrow> u32" where
  "quantity h t = t - h"

definition acquirePutSequence :: "'a Ring \<Rightarrow> ('a Ring \<times> u32) option" where
  "acquirePutSequence r =
     (let nxt = tail r + 1; left = quantity (head r) nxt in
      if left > mask r then None else Some (r\<lparr>tail := nxt\<rparr>, nxt))"

definition acquireGetSequence :: "u32 \<Rightarrow> 'a Ring \<Rightarrow> 'a Ring \<times> u32 \<times> u32 \<times> u32" where
  "acquireGetSequence ask r =
     (let left = quantity (head r) (tail r) in
      if left < 1 then (r, head r, 0, 0)
      else (let size = (if ask < left then ask else left)
            in (r\<lparr>head := head r + size\<rparr>, head r + 1, size, left - size)))"

definition slot :: "'a Ring \<Rightarrow> u32 \<Rightarrow> nat" where
  "slot r seq = unat (seq AND mask r)"

definition commit :: "u32 \<Rightarrow> 'a \<Rightarrow> 'a Ring \<Rightarrow> 'a Ring option" where
  "commit seq v r =
     (let i = slot r seq; item = data r ! i in
      if seq = putSeq item \<and> getSeq item = putSeq item
      then Some (r\<lparr>data := (data r)[i := item\<lparr>rvalue := Some v, putSeq := putSeq item + capacity r\<rparr>]\<rparr>)
      else None)"

definition ring_consume :: "u32 \<Rightarrow> 'a Ring \<Rightarrow> ('a Ring \<times> 'a option) option" where
  "ring_consume seq r =
     (let i = slot r seq; item = data r ! i in
      if seq = getSeq item \<and> getSeq item = putSeq item - capacity r
      then Some (r\<lparr>data := (data r)[i := item\<lparr>rvalue := None, getSeq := getSeq item + capacity r\<rparr>]\<rparr>, rvalue item)
      else None)"

datatype put_result = Queued | QueueFull | PutWaits

definition ring_Put :: "'a \<Rightarrow> 'a Ring \<Rightarrow> 'a Ring \<times> put_result" where
  "ring_Put v r =
     (case acquirePutSequence r of
        None \<Rightarrow> (r, QueueFull)
      | Some (r1, seq) \<Rightarrow> (case commit seq v r1 of None \<Rightarrow> (r1, PutWaits) | Some r2 \<Rightarrow> (r2, Queued)))"

text \<open>The first result of \<open>Get\<close> is \<open>None\<close> for the zero value, the outer \<open>None\<close> means waiting.\<close>

definition ring_Get :: "'a Ring \<Rightarrow> ('a Ring \<times> 'a option \<times> u32) option" where
  "ring_Get r =
     (let (r1, hd1, size, left) = acquireGetSequence 1 r in
      if size = 0 then Some (r1, None, 0)
      else (case ring_consume hd1 r1 of None \<Rightarrow> None | Some (r2, v) \<Rightarrow> Some (r2, v, left)))"

fun consume_loop :: "nat \<Rightarrow> u32 \<Rightarrow> 'a Ring \<Rightarrow> ('a Ring \<times> 'a option list) option" where
  "consume_loop 0 seq r = Some (r, [])"
| "consume_loop (Suc i) seq r =
     (case ring_consume seq r of
        None \<Rightarrow> None
      | Some (r1, v) \<Rightarrow> (case consume_loop i (seq + 1) r1 of None \<Rightarrow> None | Some (r2, vs) \<Rightarrow> Some (r2, v # vs)))"

text \<open>\<open>ask\<close> is the free capacity \<open>cap(*val) - len(*val)\<close> of the target slice.\<close>

definition ring_Gets :: "u32 \<Rightarrow> 'a Ring \<Rightarrow> ('a Ring \<times> 'a option list \<times> u32 \<times> u32) option" where
  "ring_Gets ask r =
     (let (r1, hd1, size, left) = acquireGetSequence ask r in
      if size = 0 then Some (r1, [], 0, 0)
      else (case consume_loop (unat size) hd1 r1 of None \<Rightarrow> None | Some (r2, vs) \<Rightarrow> Some (r2, vs, size, left)))"

definition ring_Cap :: "'a Ring \<Rightarrow> u32" where
  "ring_Cap r = mask r"

definition ring_Size :: "'a Ring \<Rightarrow> u32" where
  "ring_Size r = quantity (head r) (tail r)"

definition IsEmpty :: "'a Ring \<Rightarrow> bool" where
  "IsEmpty r = (head r = tail r)"

definition IsFull :: "'a Ring \<Rightarrow> bool" where
  "IsFull r = (let nxt = tail r + 1 in nxt - head r > mask r)"

subsection \<open>The invariant\<close>

text \<open>The \<open>i\<close>-th sequence number after the head.\<close>

definition seq_at :: "'a Ring \<Rightarrow> nat \<Rightarrow> u32" where
  "seq_at r i = head r + 1 + word_of_nat i"

definition ring_len :: "'a Ring \<Rightarrow> nat" where
  "ring_len r = unat (tail r - head r)"

definition item_at :: "'a Ring \<Rightarrow> nat \<Rightarrow> 'a ringItem" where
  "item_at r i = data r ! slot r (seq_at r i)"

definition ring_inv :: "'a Ring \<Rightarrow> bool" where
  "ring_inv r \<longleftrightarrow> (\<exists>k. 1 \<le> k \<and> k < 32 \<and> capacity r = 2 ^ k) \<and> mask r = capacity r - 1
     \<and> length (data r) = unat (capacity r) \<and> ring_len r < unat (capacity r)
     \<and> (\<forall>i < unat (capacity r). getSeq (item_at r i) = seq_at r i
          \<and> putSeq (item_at r i) = (if i < ring_len r then seq_at r i + capacity r else seq_at r i)
          \<and> (rvalue (item_at r i) \<noteq> None \<longleftrightarrow> i < ring_len r))"

definition ring_abs :: "'a Ring \<Rightarrow> 'a list" where
  "ring_abs r = map (\<lambda>i. the (rvalue (item_at r i))) [0..<ring_len r]"

lemma length_ring_abs [simp]: "length (ring_abs r) = ring_len r"
  by (simp add: ring_abs_def)

lemma seq_update [simp]:
  "seq_at (r\<lparr>tail := t\<rparr>) i = seq_at r i" "seq_at (r\<lparr>data := d\<rparr>) i = seq_at r i"
  "slot (r\<lparr>tail := t\<rparr>) q = slot r q" "slot (r\<lparr>data := d\<rparr>) q = slot r q" "slot (r\<lparr>head := h\<rparr>) q = slot r q"
  by (simp_all add: seq_at_def slot_def)

lemma slot_seq:
  assumes "capacity r = 2 ^ k" "k < 32" "mask r = capacity r - 1"
  shows "slot r q = unat q mod 2 ^ k"
proof -
  have "mask r = Bit_Operations.mask k" using assms by (simp add: mask_eq_decr_exp)
  then have "q AND mask r = take_bit k q" by (simp add: take_bit_eq_mask)
  then have "slot r q = take_bit k (unat q)" by (simp add: slot_def unsigned_take_bit_eq)
  then show ?thesis by (simp add: take_bit_eq_mod)
qed
lemma mod_add_cancel_nat:
  fixes n :: nat
  assumes "(a + i) mod n = (a + j) mod n" "i < n" "j < n"
  shows "i = j"
proof -
  have "i = j" if "(a + i) mod n = (a + j) mod n" "i \<le> j" "j < n" for i j :: nat
  proof -
    have "n dvd (a + j) - (a + i)" using that mod_eq_dvd_iff_nat [of "a + i" "a + j" n] by simp
    then have "n dvd j - i" by simp
    moreover have "j - i < n" using that by simp
    ultimately have "j - i = 0" using nat_dvd_not_less by blast
    with that show ?thesis by simp
  qed
  from this [of i j] this [of j i] assms show ?thesis by (cases "i \<le> j") auto
qed

lemma slot_seq_at:
  assumes "capacity r = 2 ^ k" "k < 32" "mask r = capacity r - 1"
  shows "slot r (seq_at r i) = (unat (head r) + 1 + i) mod 2 ^ k"
proof -
  have "(2 :: nat) ^ k dvd 2 ^ 32" using assms(2) by (intro le_imp_power_dvd) simp
  moreover have "unat (seq_at r i) = (unat (head r) + 1 + i) mod 2 ^ 32"
    by (simp add: seq_at_def unat_word_ariths unat_of_nat mod_simps)
  ultimately show ?thesis by (simp add: slot_seq [OF assms] mod_mod_cancel)
qed

text \<open>What the invariant gives: the capacity as a natural number and the layout of the slots.\<close>

lemma ring_layout:
  assumes "ring_inv r"
  obtains k where "1 \<le> k" "k < 32" "capacity r = 2 ^ k" "mask r = capacity r - 1" "unat (capacity r) = 2 ^ k"
    "unat (mask r) = 2 ^ k - 1" "length (data r) = 2 ^ k" "ring_len r < 2 ^ k"
proof -
  from assms obtain k where k: "1 \<le> k" "k < 32" "capacity r = 2 ^ k" "mask r = capacity r - 1"
    "length (data r) = unat (capacity r)" "ring_len r < unat (capacity r)"
    by (auto simp: ring_inv_def)
  have "(2 :: nat) ^ k < 2 ^ 32" using k(2) by (intro power_strict_increasing) auto
  then have c: "unat (2 ^ k :: u32) = 2 ^ k"
    using unat_of_nat [where 'a = 32, of "2 ^ k"] by simp
  have "(2 ^ k :: u32) \<noteq> 0" using c by (metis power_not_zero unsigned_0 zero_neq_numeral)
  then have "unat (mask r) = 2 ^ k - 1" using k(3,4) c by (simp add: unat_minus_one)
  with k c that show thesis by simp
qed

lemma slot_inj:
  assumes "ring_inv r" "i < unat (capacity r)" "j < unat (capacity r)" "slot r (seq_at r i) = slot r (seq_at r j)"
  shows "i = j"
proof -
  obtain k where k: "1 \<le> k" "k < 32" "capacity r = 2 ^ k" "mask r = capacity r - 1" "unat (capacity r) = 2 ^ k"
    "unat (mask r) = 2 ^ k - 1" "length (data r) = 2 ^ k" "ring_len r < 2 ^ k"
    by (rule ring_layout [OF assms(1)])
  from assms(2-4) show ?thesis
    unfolding k(5) slot_seq_at [OF k(3,2,4)] by (intro mod_add_cancel_nat [of "unat (head r) + 1" i "2 ^ k"]) auto
qed

lemma slot_range:
  assumes "ring_inv r"
  shows "slot r (seq_at r i) < length (data r)"
proof -
  obtain k where k: "1 \<le> k" "k < 32" "capacity r = 2 ^ k" "mask r = capacity r - 1" "unat (capacity r) = 2 ^ k"
    "unat (mask r) = 2 ^ k - 1" "length (data r) = 2 ^ k" "ring_len r < 2 ^ k"
    by (rule ring_layout [OF assms])
  show ?thesis unfolding slot_seq_at [OF k(3,2,4)] k(7) by simp
qed

subsection \<open>Put\<close>

lemma tail_seq: "tail r + 1 = seq_at r (ring_len r)"
  by (simp add: seq_at_def ring_len_def)

lemma seq_at_Suc: "seq_at r (Suc i) = seq_at r i + 1"
  by (simp add: seq_at_def)

lemma next_left:
  assumes "ring_inv r"
  shows "unat (tail r + 1 - head r) = ring_len r + 1" "tail r + 1 - head r > mask r \<longleftrightarrow> ring_len r + 1 = unat (capacity r)"
proof -
  obtain k where k: "1 \<le> k" "k < 32" "capacity r = 2 ^ k" "mask r = capacity r - 1" "unat (capacity r) = 2 ^ k"
    "unat (mask r) = 2 ^ k - 1" "length (data r) = 2 ^ k" "ring_len r < 2 ^ k"
    by (rule ring_layout [OF assms])
  have "(2 :: nat) ^ k \<le> 2 ^ 31" using k(2) by (intro power_increasing) auto
  with k(8) have lt: "ring_len r + 1 < 2 ^ 32" by simp
  have "tail r + 1 - head r = (tail r - head r) + 1" by simp
  then have "unat (tail r + 1 - head r) = (ring_len r + 1) mod 2 ^ 32"
    by (simp only: unat_word_ariths ring_len_def) simp
  with lt show l: "unat (tail r + 1 - head r) = ring_len r + 1" by simp
  show "tail r + 1 - head r > mask r \<longleftrightarrow> ring_len r + 1 = unat (capacity r)"
    unfolding word_less_nat_alt l k(5,6) using k(8) by auto
qed

lemma ring_Put_full: "ring_inv r \<Longrightarrow> ring_len r + 1 = unat (capacity r) \<Longrightarrow> ring_Put v r = (r, QueueFull)"
  using next_left(2) [of r] by (simp add: ring_Put_def acquirePutSequence_def quantity_def Let_def)

lemma ring_Put_ok:
  assumes inv: "ring_inv r" and room: "ring_len r + 1 \<noteq> unat (capacity r)"
  shows "\<exists>r'. ring_Put v r = (r', Queued) \<and> ring_inv r' \<and> ring_abs r' = ring_abs r @ [v]
    \<and> capacity r' = capacity r"
proof -
  let ?L = "ring_len r" and ?n = "unat (capacity r)"
  let ?q = "seq_at r ?L"
  let ?it = "item_at r ?L"
  let ?new = "?it\<lparr>rvalue := Some v, putSeq := putSeq ?it + capacity r\<rparr>"
  let ?r = "r\<lparr>tail := tail r + 1, data := (data r)[slot r ?q := ?new]\<rparr>"
  have L: "?L < ?n" using inv by (simp add: ring_inv_def)
  then have it: "getSeq ?it = ?q" "putSeq ?it = ?q" using inv by (auto simp: ring_inv_def)
  have "ring_Put v r = (?r, Queued)"
    using next_left(2) [OF inv] room it
    by (simp add: ring_Put_def acquirePutSequence_def quantity_def commit_def Let_def tail_seq slot_def
        item_at_def [unfolded slot_def])
  moreover have len: "ring_len ?r = Suc ?L"
  proof -
    have "tail ?r - head ?r = tail r + 1 - head r" by simp
    with next_left(1) [OF inv] show ?thesis by (simp add: ring_len_def)
  qed
  moreover have seq: "seq_at ?r i = seq_at r i" "slot ?r q = slot r q" for i q
    by (simp_all add: seq_at_def slot_def)
  moreover have item: "item_at ?r i = (if i = ?L then ?new else item_at r i)" if "i < ?n" for i
  proof (cases "i = ?L")
    case True
    then show ?thesis using slot_range [OF inv, of ?L] by (simp add: item_at_def)
  next
    case False
    then have "slot r ?q \<noteq> slot r (seq_at r i)" using slot_inj [OF inv that L] by metis
    with False show ?thesis by (simp add: item_at_def)
  qed
  moreover have "ring_inv ?r"
    using inv L room it item len seq unfolding ring_inv_def by (auto simp: less_Suc_eq)
  moreover have "ring_abs ?r = ring_abs r @ [v]"
  proof -
    have "ring_abs ?r = map (\<lambda>i. the (rvalue (item_at ?r i))) ([0..<?L] @ [?L])" by (simp add: ring_abs_def len)
    also have "\<dots> = ring_abs r @ [v]" using item L by (auto simp: ring_abs_def)
    finally show ?thesis .
  qed
  ultimately show ?thesis by auto
qed

subsection \<open>Get\<close>

text \<open>Taking the first element: the head moves on by one and its slot is handed to the writer that
  comes one round later.\<close>

definition take_front :: "'a Ring \<Rightarrow> 'a Ring" where
  "take_front r = (let q = seq_at r 0; it = item_at r 0 in
     r\<lparr>head := head r + 1, data := (data r)[slot r q := it\<lparr>rvalue := None, getSeq := getSeq it + capacity r\<rparr>]\<rparr>)"

lemma take_front_inv:
  assumes inv: "ring_inv r" and ne: "0 < ring_len r"
  shows "ring_inv (take_front r)" "ring_abs r = the (rvalue (item_at r 0)) # ring_abs (take_front r)"
    "ring_len (take_front r) = ring_len r - 1" "capacity (take_front r) = capacity r"
proof -
  obtain k where k: "1 \<le> k" "k < 32" "capacity r = 2 ^ k" "mask r = capacity r - 1" "unat (capacity r) = 2 ^ k"
    "unat (mask r) = 2 ^ k - 1" "length (data r) = 2 ^ k" "ring_len r < 2 ^ k"
    by (rule ring_layout [OF inv])
  let ?L = "ring_len r" and ?n = "(2 :: nat) ^ k" and ?r = "take_front r"
  let ?it = "item_at r 0"
  let ?new = "?it\<lparr>rvalue := None, getSeq := getSeq ?it + capacity r\<rparr>"
  have parts [simp]: "head ?r = head r + 1" "tail ?r = tail r" "capacity ?r = capacity r" "mask ?r = mask r"
    "data ?r = (data r)[slot r (seq_at r 0) := ?new]"
    by (simp_all add: take_front_def Let_def)
  show "capacity ?r = capacity r" by simp
  have "unat (tail r - head r - 1) = unat (tail r - head r) - 1"
    using ne by (intro unat_minus_one) (auto simp: ring_len_def)
  then show len: "ring_len ?r = ?L - 1" by (simp add: ring_len_def algebra_simps)
  have seq: "seq_at ?r i = seq_at r (Suc i)" "slot ?r q = slot r q" for i q
    by (simp_all add: seq_at_def slot_def)
  have it: "getSeq ?it = seq_at r 0" "putSeq ?it = seq_at r 0 + capacity r"
    using inv ne k(5) by (auto simp: ring_inv_def)
  have n: "0 < ?n" "Suc (?n - 1) = ?n" by simp_all
  have wrap: "slot r (seq_at r ?n) = slot r (seq_at r 0)" "seq_at r ?n = seq_at r 0 + capacity r"
    using mod_add_self2 [of "unat (head r) + 1" ?n]
    by (simp_all only: slot_seq_at [OF k(3,2,4)] add_0_right) (simp add: seq_at_def k(3))
  have item: "item_at ?r i = (if i = ?n - 1 then ?new else item_at r (Suc i))" if i: "i < ?n" for i
  proof (cases "i = ?n - 1")
    case True
    then have "seq_at ?r i = seq_at r ?n" using n(2) by (simp only: seq)
    then show ?thesis using True wrap(1) slot_range [OF inv, of 0] by (simp add: item_at_def seq(2))
  next
    case False
    with i have "Suc i < ?n" by simp
    then have "slot r (seq_at r 0) \<noteq> slot r (seq_at r (Suc i))"
      using slot_inj [OF inv, of 0 "Suc i"] k(5) by auto
    then show ?thesis using False by (simp add: item_at_def seq)
  qed
  show "ring_inv ?r"
  proof -
    have "getSeq (item_at ?r i) = seq_at ?r i \<and> putSeq (item_at ?r i) = (if i < ring_len ?r then seq_at ?r i + capacity r else seq_at ?r i)
        \<and> (rvalue (item_at ?r i) \<noteq> None \<longleftrightarrow> i < ring_len ?r)" if i: "i < ?n" for i
    proof (cases "i = ?n - 1")
      case True
      then have "seq_at ?r i = seq_at r 0 + capacity r" using n(2) wrap(2) by (simp only: seq)
      moreover have "\<not> i < ring_len ?r" using True len k(8) by simp
      ultimately show ?thesis using item [OF i] True it by simp
    next
      case False
      with i have "Suc i < ?n" by simp
      moreover have "i < ring_len ?r \<longleftrightarrow> Suc i < ?L" using len ne by auto
      ultimately show ?thesis using inv item [OF i] False k(5) seq by (simp add: ring_inv_def)
    qed
    then show ?thesis using k len by (auto simp: ring_inv_def)
  qed
  show "ring_abs r = the (rvalue ?it) # ring_abs ?r"
  proof -
    obtain L' where L': "?L = Suc L'" using ne gr0_implies_Suc by blast
    then have "[0..<?L] = 0 # map Suc [0..<?L - 1]" by (simp add: upt_conv_Cons map_Suc_upt del: upt_Suc)
    moreover have "item_at ?r i = item_at r (Suc i)" if "i < ?L - 1" for i
      using that k(8) item [of i] by auto
    ultimately show ?thesis by (simp add: ring_abs_def len)
  qed
qed

lemma consume_front:
  assumes inv: "ring_inv r" and ne: "0 < ring_len r"
  shows "ring_consume (head r + 1) (r\<lparr>head := h\<rparr>) = Some ((take_front r)\<lparr>head := h\<rparr>, rvalue (item_at r 0))"
proof -
  have q: "head r + 1 = seq_at r 0" by (simp add: seq_at_def)
  have "0 < unat (capacity r)" using inv ne by (auto simp: ring_inv_def)
  then have "getSeq (item_at r 0) = seq_at r 0" "putSeq (item_at r 0) = seq_at r 0 + capacity r"
    using inv ne by (auto simp: ring_inv_def)
  then show ?thesis unfolding q
    by (simp add: ring_consume_def take_front_def Let_def item_at_def slot_def)
qed

lemma word_of_unat: "unat w = n \<Longrightarrow> w = word_of_nat n"
  by auto

lemma left_zero: "quantity (head r) (tail r) < 1 \<longleftrightarrow> ring_len r = 0"
  by (simp add: quantity_def ring_len_def word_less_nat_alt)

lemma head_take_front [simp]: "head (take_front r) = head r + 1"
  by (simp add: take_front_def Let_def)

lemma front_value: "ring_inv r \<Longrightarrow> 0 < ring_len r \<Longrightarrow> \<exists>x. rvalue (item_at r 0) = Some x"
  by (auto simp: ring_inv_def)

lemma consume_loop_front:
  "ring_inv r \<Longrightarrow> n \<le> ring_len r \<Longrightarrow>
     \<exists>r'. consume_loop n (head r + 1) (r\<lparr>head := h\<rparr>) = Some (r'\<lparr>head := h\<rparr>, map Some (take n (ring_abs r)))
       \<and> ring_inv r' \<and> ring_abs r' = drop n (ring_abs r) \<and> head r' = head r + word_of_nat n
       \<and> capacity r' = capacity r"
proof (induction n arbitrary: r)
  case (Suc n)
  then have ne: "0 < ring_len r" by simp
  note tf = take_front_inv [OF Suc.prems(1) ne]
  obtain x where x: "rvalue (item_at r 0) = Some x" using front_value [OF Suc.prems(1) ne] by blast
  have "n \<le> ring_len (take_front r)" using Suc.prems(2) tf(3) by simp
  from Suc.IH [OF tf(1) this] obtain r' where r':
    "consume_loop n (head r + 1 + 1) ((take_front r)\<lparr>head := h\<rparr>) = Some (r'\<lparr>head := h\<rparr>, map Some (take n (ring_abs (take_front r))))"
    "ring_inv r'" "ring_abs r' = drop n (ring_abs (take_front r))" "head r' = head r + 1 + word_of_nat n"
    "capacity r' = capacity r"
    using tf(4) by auto
  then show ?case
    using consume_front [OF Suc.prems(1) ne, of h] x tf(2) by (intro exI [of _ r']) simp
qed auto

lemma ring_Get_empty: "ring_len r = 0 \<Longrightarrow> ring_Get r = Some (r, None, 0)"
  using left_zero [of r] by (simp add: ring_Get_def acquireGetSequence_def)

lemma ring_Gets_ok:
  assumes inv: "ring_inv r"
  shows "\<exists>r'. ring_Gets ask r = Some (r', map Some (take (unat ask) (ring_abs r)),
        word_of_nat (min (unat ask) (ring_len r)), if ask = 0 then 0 else word_of_nat (ring_len r - unat ask))
      \<and> ring_inv r' \<and> ring_abs r' = drop (unat ask) (ring_abs r) \<and> capacity r' = capacity r"
proof (cases "ring_len r = 0 \<or> ask = 0")
  case True
  then have "ring_Gets ask r = Some (r, [], 0, 0)"
    using left_zero [of r] by (auto simp: ring_Gets_def acquireGetSequence_def Let_def word_gt_0 word_less_nat_alt)
  moreover have "ring_len r = 0 \<Longrightarrow> ring_abs r = []" by (simp add: ring_abs_def)
  ultimately show ?thesis using True inv by auto
next
  case False
  define left where "left = tail r - head r"
  define size where "size = (if ask < left then ask else left)"
  have left: "unat left = ring_len r" by (simp add: left_def ring_len_def)
  then have size: "unat size = min (unat ask) (ring_len r)" by (auto simp: size_def word_less_nat_alt)
  then have "unat size \<noteq> 0" using False by (simp add: min_def unat_gt_0)
  then have size0: "size \<noteq> 0" by auto
  obtain r' where r': "consume_loop (unat size) (head r + 1) (r\<lparr>head := head r + size\<rparr>)
      = Some (r'\<lparr>head := head r + size\<rparr>, map Some (take (unat size) (ring_abs r)))"
    "ring_inv r'" "ring_abs r' = drop (unat size) (ring_abs r)" "head r' = head r + size" "capacity r' = capacity r"
  proof -
    have "unat size \<le> ring_len r" using size by simp
    moreover have "word_of_nat (unat size) = size" by simp
    ultimately show thesis using consume_loop_front [OF inv, of "unat size" "head r + size"] that by auto
  qed
  have "ring_Gets ask r = Some (r', map Some (take (unat size) (ring_abs r)), size, left - size)"
    using left_zero [of r] False size0 r'(1,4)
    by (simp add: ring_Gets_def acquireGetSequence_def Let_def quantity_def flip: left_def size_def)
  moreover have "left - size = word_of_nat (ring_len r - unat ask)"
  proof -
    have "unat (left - size) = unat left - unat size"
      by (intro unat_sub) (simp add: word_le_nat_alt left size)
    then show ?thesis by (intro word_of_unat) (simp add: left size)
  qed
  moreover have "size = word_of_nat (min (unat ask) (ring_len r))" using size by (rule word_of_unat)
  moreover have "take (unat size) (ring_abs r) = take (unat ask) (ring_abs r)"
    "drop (unat size) (ring_abs r) = drop (unat ask) (ring_abs r)"
    by (auto simp: size min_def)
  ultimately show ?thesis using r' False by auto
qed

lemma ring_Get_front:
  assumes inv: "ring_inv r" and ne: "ring_abs r = x # xs"
  shows "\<exists>r'. ring_Get r = Some (r', Some x, word_of_nat (length xs)) \<and> ring_inv r' \<and> ring_abs r' = xs
    \<and> capacity r' = capacity r"
proof -
  have len: "ring_len r = Suc (length xs)" using ne length_ring_abs [of r] by simp
  then have pos: "0 < ring_len r" by simp
  note tf = take_front_inv [OF inv pos]
  let ?left = "tail r - head r"
  have left: "unat ?left = Suc (length xs)" using len by (simp add: ring_len_def)
  then have size: "(if 1 < ?left then 1 else ?left) = 1"
    by (auto simp: word_less_nat_alt word_unat_eq_iff)
  have "unat (?left - 1) = length xs" using left by (subst unat_minus_one) auto
  then have "?left - 1 = word_of_nat (length xs)" by (rule word_of_unat)
  then have "ring_Get r = Some (take_front r, rvalue (item_at r 0), word_of_nat (length xs))"
    using left_zero [of r] pos consume_front [OF inv pos, of "head r + 1"] size
    by (simp add: ring_Get_def acquireGetSequence_def Let_def quantity_def)
  then show ?thesis using tf ne front_value [OF inv pos] by auto
qed

subsection \<open>New\<close>

text \<open>One smearing step doubles the distance over which a set bit is copied to the right.\<close>

lemma smear_step:
  fixes v w :: u32
  assumes "\<And>i. bit v i \<longleftrightarrow> (\<exists>j<d. bit w (i + j))"
  shows "bit (v OR drop_bit d v) i \<longleftrightarrow> (\<exists>j<d + d. bit w (i + j))"
proof -
  have "(\<exists>j<d + d. bit w (i + j)) \<longleftrightarrow> (\<exists>j<d. bit w (i + j)) \<or> (\<exists>j<d. bit w (d + i + j))"
  proof (intro iffI, elim exE conjE)
    fix j assume j: "j < d + d" "bit w (i + j)"
    then show "(\<exists>j<d. bit w (i + j)) \<or> (\<exists>j<d. bit w (d + i + j))"
      by (cases "j < d") (auto intro: exI [of _ "j - d"])
  next
    assume "(\<exists>j<d. bit w (i + j)) \<or> (\<exists>j<d. bit w (d + i + j))"
    then show "\<exists>j<d + d. bit w (i + j)"
    proof
      assume "\<exists>j<d. bit w (i + j)"
      then show ?thesis by (meson trans_less_add1)
    next
      assume "\<exists>j<d. bit w (d + i + j)"
      then obtain j where "j < d" "bit w (i + (d + j))" by (auto simp: ac_simps)
      then show ?thesis by (intro exI [of _ "d + j"]) simp
    qed
  qed
  then show ?thesis by (simp add: bit_or_iff bit_drop_bit_eq assms)
qed

lemma bit_length_exists: "\<exists>m. n < 2 ^ m \<and> (m = 0 \<or> 2 ^ (m - 1) \<le> n)" for n :: nat
proof (cases "n = 0")
  case False
  then obtain m where "2 ^ m \<le> n" "n < 2 ^ Suc m"
    using ex_power_ivl1 [of 2 n] by auto
  then show ?thesis by (intro exI [of _ "Suc m"]) simp
qed (auto intro: exI [of _ 0])

lemma roundUpToPower2_eq:
  assumes "unat (v0 - 1) < 2 ^ m" "m = 0 \<or> 2 ^ (m - 1) \<le> unat (v0 - 1)"
  shows "roundUpToPower2 v0 = 2 ^ m"
proof -
  define w where "w = v0 - 1"
  define v1 where "v1 = w OR drop_bit 1 w"
  define v2 where "v2 = v1 OR drop_bit 2 v1"
  define v3 where "v3 = v2 OR drop_bit 4 v2"
  define v4 where "v4 = v3 OR drop_bit 8 v3"
  define v5 where "v5 = v4 OR drop_bit 16 v4"
  have "bit v1 i \<longleftrightarrow> (\<exists>j<2. bit w (i + j))" for i
    using smear_step [of w 1 w i] by (simp add: v1_def numeral_2_eq_2)
  from smear_step [OF this] have "bit v2 i \<longleftrightarrow> (\<exists>j<4. bit w (i + j))" for i by (simp add: v2_def)
  from smear_step [OF this] have "bit v3 i \<longleftrightarrow> (\<exists>j<8. bit w (i + j))" for i by (simp add: v3_def)
  from smear_step [OF this] have "bit v4 i \<longleftrightarrow> (\<exists>j<16. bit w (i + j))" for i by (simp add: v4_def)
  from smear_step [OF this] have smeared: "bit v5 i \<longleftrightarrow> (\<exists>j<32. bit w (i + j))" for i by (simp add: v5_def)
  have bit_w: "bit w j \<longleftrightarrow> odd (unat w div 2 ^ j)" for j
    by (simp add: bit_unsigned_iff flip: bit_iff_odd)
  have above: "\<not> bit w j" if "m \<le> j" for j
  proof -
    have "(2 :: nat) ^ m \<le> 2 ^ j" using that by (intro power_increasing) auto
    then have "unat w < 2 ^ j" using assms(1) unfolding w_def by (rule less_le_trans [rotated])
    then show ?thesis by (simp add: bit_w)
  qed
  have top: "bit w (m - 1)" if "m \<noteq> 0"
  proof -
    have "unat w div 2 ^ (m - 1) = 1"
      using assms that by (cases m) (auto simp: w_def intro!: div_nat_eqI)
    then show ?thesis by (simp add: bit_w)
  qed
  have m32: "m \<le> 32"
  proof (cases "m = 0")
    case False
    from top [OF this] have "m - 1 < 32" using bit_imp_le_length by fastforce
    then show ?thesis by simp
  qed simp
  have "bit v5 i \<longleftrightarrow> i < m" for i
  proof
    assume "bit v5 i"
    then obtain j where "bit w (i + j)" using smeared by blast
    then show "i < m" using above [of "i + j"] by (meson le_add1 not_le order_trans)
  next
    assume "i < m"
    then show "bit v5 i" using top m32 unfolding smeared by (intro exI [of _ "m - 1 - i"]) auto
  qed
  then have "v5 = Bit_Operations.mask m"
    using m32 by (intro bit_word_eqI) (simp add: bit_mask_iff)
  moreover have "roundUpToPower2 v0 = v5 + 1"
    by (simp add: roundUpToPower2_def Let_def v5_def v4_def v3_def v2_def v1_def w_def)
  ultimately show ?thesis by (simp add: mask_eq_decr_exp)
qed

text \<open>The capacity of a new ring: the next power of two, at least 2, as long as there is one.\<close>

definition new_exp :: "u32 \<Rightarrow> nat" where
  "new_exp c = (LEAST k. unat c \<le> 2 ^ k \<and> 1 \<le> k)"

lemma new_exp: "unat c \<le> 2 ^ new_exp c" "1 \<le> new_exp c" "new_exp c = 1 \<or> 2 ^ (new_exp c - 1) < unat c"
proof -
  have "unat c \<le> 2 ^ 32 \<and> 1 \<le> (32 :: nat)" using unat_u32 [of c] by simp
  then have ex: "unat c \<le> 2 ^ new_exp c \<and> 1 \<le> new_exp c" unfolding new_exp_def by (rule LeastI)
  then show "unat c \<le> 2 ^ new_exp c" "1 \<le> new_exp c" by auto
  show "new_exp c = 1 \<or> 2 ^ (new_exp c - 1) < unat c"
  proof (rule ccontr)
    assume no: "\<not> ?thesis"
    then have "unat c \<le> 2 ^ (new_exp c - 1) \<and> 1 \<le> new_exp c - 1" using ex by auto
    then have "new_exp c \<le> new_exp c - 1" unfolding new_exp_def by (rule Least_le)
    with ex show False by linarith
  qed
qed

lemma new_capacity:
  "capacity (ring_New c) = (if unat c \<le> 2 ^ 31 then 2 ^ new_exp c else 2)"
  "unat c \<le> 2 ^ 31 \<Longrightarrow> new_exp c < 32"
proof -
  have cap: "capacity (ring_New c :: 'a Ring) = (if roundUpToPower2 c < 2 then 2 else roundUpToPower2 c)"
    by (simp add: ring_New_def Let_def)
  show lt: "new_exp c < 32" if "unat c \<le> 2 ^ 31"
  proof -
    have "new_exp c \<le> 31" unfolding new_exp_def using that by (intro Least_le) simp
    then show ?thesis by simp
  qed
  show "capacity (ring_New c :: 'a Ring) = (if unat c \<le> 2 ^ 31 then 2 ^ new_exp c else 2)"
  proof -
    consider "unat c = 0" | "unat c = 1" | "2 \<le> unat c" "unat c \<le> 2 ^ 31" | "2 ^ 31 < unat c" by linarith
    then show ?thesis
    proof cases
      case 1
      then have c: "c = 0" by (simp add: unat_eq_zero)
      have "new_exp c = 1" using new_exp(3) [of c] 1 by simp
      moreover have "unat (0 - 1 :: u32) = 4294967295" by (simp add: unsigned_minus_1_eq_mask mask_eq_exp_minus_1)
      then have "roundUpToPower2 c = 2 ^ 32" unfolding c by (intro roundUpToPower2_eq) simp_all
      ultimately show ?thesis using 1 by (simp add: cap)
    next
      case 2
      then have c: "c = 1" by (simp add: word_unat_eq_iff)
      have "new_exp c = 1" using new_exp(3) [of c] 2 by auto
      moreover have "roundUpToPower2 c = 2 ^ 0" unfolding c by (rule roundUpToPower2_eq) simp_all
      ultimately show ?thesis using 2 by (simp add: cap)
    next
      case 3
      have dec: "unat (c - 1) = unat c - 1" using 3 by (intro unat_minus_one) auto
      have r: "roundUpToPower2 c = 2 ^ new_exp c"
        using new_exp [of c] 3 by (intro roundUpToPower2_eq) (auto simp: dec)
      have "(2 :: nat) ^ new_exp c < 2 ^ 32" using lt [OF 3(2)] by (intro power_strict_increasing) auto
      then have "unat (2 ^ new_exp c :: u32) = 2 ^ new_exp c"
        using unat_of_nat [where 'a = 32, of "2 ^ new_exp c"] by simp
      moreover have "(2 :: nat) ^ 1 \<le> 2 ^ new_exp c" using new_exp(2) by (intro power_increasing) auto
      ultimately have "\<not> (2 ^ new_exp c :: u32) < 2" by (simp add: word_less_nat_alt)
      then show ?thesis using 3 by (simp add: cap r)
    next
      case 4
      have dec: "unat (c - 1) = unat c - 1" using 4 by (intro unat_minus_one) auto
      have "roundUpToPower2 c = 2 ^ 32"
        using 4 unat_u32 [of c] by (intro roundUpToPower2_eq) (auto simp: dec)
      then show ?thesis using 4 by (simp add: cap)
    qed
  qed
qed

lemma new_parts:
  assumes "capacity (ring_New c :: 'a Ring) = 2 ^ k" "k < 32"
  shows "unat (2 ^ k :: u32) = 2 ^ k" "length (data (ring_New c :: 'a Ring)) = 2 ^ k"
    "i < 2 ^ k \<Longrightarrow> data (ring_New c :: 'a Ring) ! i =
       (if i = 0 then \<lparr>putSeq = 2 ^ k, getSeq = 2 ^ k, rvalue = None\<rparr>
        else \<lparr>putSeq = word_of_nat i, getSeq = word_of_nat i, rvalue = None\<rparr>)"
proof -
  have "(2 :: nat) ^ k < 2 ^ 32" using assms(2) by (intro power_strict_increasing) auto
  then show c: "unat (2 ^ k :: u32) = 2 ^ k"
    using unat_of_nat [where 'a = 32, of "2 ^ k"] by simp
  show "length (data (ring_New c :: 'a Ring)) = 2 ^ k"
    using assms(1) c by (simp add: ring_New_def Let_def)
  show "data (ring_New c :: 'a Ring) ! i =
       (if i = 0 then \<lparr>putSeq = 2 ^ k, getSeq = 2 ^ k, rvalue = None\<rparr>
        else \<lparr>putSeq = word_of_nat i, getSeq = word_of_nat i, rvalue = None\<rparr>)" if "i < 2 ^ k"
    using assms(1) c that by (simp add: ring_New_def Let_def)
qed

lemma ring_New_inv: "ring_inv (ring_New c :: 'a Ring)" "ring_abs (ring_New c :: 'a Ring) = []"
proof -
  let ?r = "ring_New c :: 'a Ring"
  obtain k where k: "1 \<le> k" "k < 32" "capacity ?r = 2 ^ k"
  proof (cases "unat c \<le> 2 ^ 31")
    case True
    then show thesis using that new_capacity [of c] new_exp(2) [of c] by auto
  next
    case False
    then show thesis using that [of 1] new_capacity(1) [of c] by simp
  qed
  have parts: "head ?r = 0" "tail ?r = 0" "mask ?r = capacity ?r - 1" by (simp_all add: ring_New_def Let_def)
  note np = new_parts [OF k(3,2)]
  have len: "ring_len ?r = 0" using parts by (simp add: ring_len_def)
  then show "ring_abs ?r = []" by (simp add: ring_abs_def)
  have "getSeq (item_at ?r i) = seq_at ?r i \<and> putSeq (item_at ?r i) = seq_at ?r i \<and> rvalue (item_at ?r i) = None"
    if i: "i < 2 ^ k" for i
  proof -
    have s: "slot ?r (seq_at ?r i) = (1 + i) mod 2 ^ k"
      using slot_seq_at [OF k(3,2) parts(3)] parts(1) by simp
    show ?thesis
    proof (cases "Suc i = 2 ^ k")
      case True
      then have "word_of_nat (Suc i) = (2 ^ k :: u32)" by simp
      then have "seq_at ?r i = 2 ^ k" using parts(1) by (simp add: seq_at_def)
      with True s show ?thesis using np(3) [of 0] by (simp add: item_at_def)
    next
      case False
      with i have "Suc i < 2 ^ k" by simp
      with s show ?thesis using np(3) [of "Suc i"] parts(1) by (simp add: item_at_def seq_at_def)
    qed
  qed
  then show "ring_inv ?r" using k parts len np(1,2) by (auto simp: ring_inv_def)
qed

subsection \<open>The bounded queue\<close>

definition ring_put :: "'a \<Rightarrow> 'a Ring \<Rightarrow> 'a Ring option" where
  "ring_put x r = (case ring_Put x r of (r', Queued) \<Rightarrow> Some r' | _ \<Rightarrow> None)"

definition ring_get :: "'a Ring \<Rightarrow> ('a Ring \<times> 'a) option" where
  "ring_get r = (case ring_Get r of Some (r', Some x, left) \<Rightarrow> Some (r', x) | _ \<Rightarrow> None)"

lemma IsFull_len: "ring_inv r \<Longrightarrow> IsFull r \<longleftrightarrow> ring_len r + 1 = unat (capacity r)"
  using next_left(2) [of r] by (simp add: IsFull_def Let_def)

interpretation ring: fifo ring_abs ring_inv IsFull ring_put ring_get
proof
  fix r :: "'a Ring" and x
  assume inv: "ring_inv r"
  show "ring_put x r = None" if "IsFull r"
    using ring_Put_full [OF inv] that by (simp add: IsFull_len [OF inv] ring_put_def)
  show "\<exists>r'. ring_put x r = Some r' \<and> ring_inv r' \<and> ring_abs r' = ring_abs r @ [x]" if "\<not> IsFull r"
    using ring_Put_ok [OF inv, of x] that by (auto simp: IsFull_len [OF inv] ring_put_def)
  show "ring_get r = None" if "ring_abs r = []"
    using ring_Get_empty [of r] that length_ring_abs [of r] by (simp add: ring_get_def)
  show "\<exists>r'. ring_get r = Some (r', x) \<and> ring_inv r' \<and> ring_abs r' = xs" if "ring_abs r = x # xs" for xs
    using ring_Get_front [OF inv that] by (auto simp: ring_get_def)
qed

lemma ring_put_capacity: "ring_inv r \<Longrightarrow> ring_put x r = Some r' \<Longrightarrow> ring_inv r' \<and> capacity r' = capacity r"
  using ring_Put_full [of r x] ring_Put_ok [of r x]
  by (cases "ring_len r + 1 = unat (capacity r)") (auto simp: ring_put_def)

lemma ring_get_capacity: "ring_inv r \<Longrightarrow> ring_get r = Some (r', x) \<Longrightarrow> ring_inv r' \<and> capacity r' = capacity r"
  using ring_Get_empty [of r] ring_Get_front [of r] length_ring_abs [of r]
  by (cases "ring_abs r") (auto simp: ring_get_def)

lemma ring_run_capacity: "ring_inv r \<Longrightarrow> ring.run ops r = (t, acc, out) \<Longrightarrow> capacity t = capacity r"
proof (induction ops arbitrary: r t acc out)
  case step: (Cons op ops)
  show ?case
  proof (cases op)
    case (OpPut x)
    show ?thesis
    proof (cases "ring_put x r")
      case None
      then show ?thesis using step.IH [of r] step.prems OpPut by simp
    next
      case (Some r')
      then show ?thesis
        using step.IH [of r'] step.prems OpPut ring_put_capacity [OF step.prems(1) Some]
        by (cases "ring.run ops r'") simp
    qed
  next
    case OpGet
    show ?thesis
    proof (cases "ring_get r")
      case None
      then show ?thesis using step.IH [of r] step.prems OpGet by simp
    next
      case (Some p)
      obtain r' x where p: "p = (r', x)" by (cases p)
      then show ?thesis
        using step.IH [of r'] step.prems OpGet Some ring_get_capacity [OF step.prems(1) Some [unfolded p]]
        by (cases "ring.run ops r'") simp
    qed
  qed
qed simp

lemma mask_capacity: "ring_inv r \<Longrightarrow> unat (mask r) = unat (capacity r) - 1"
  by (erule ring_layout) simp



text \<open>a new ring is empty and its storage is the next power of two (at least two), of which one slot
  stays free, so \<open>New(c)\<close> holds at least \<open>c - 1\<close> elements; whatever sequence of \<open>Put\<close> and \<open>Get\<close> follows,
  the elements delivered, followed by those inside, are the accepted ones in their order, and no more
  than \<open>Cap\<close> are inside. A capacity over \<open>2 ^ 31\<close> overflows the rounding: such a ring holds one element.
\<close>

theorem ring_New_history:
  assumes "ring.run ops (ring_New c) = (r, accepted, delivered)"
  shows "accepted = delivered @ ring_abs r \<and> length (ring_abs r) \<le> unat (ring_Cap r)
    \<and> (if unat c \<le> 2 ^ 31
       then (\<exists>k\<ge>1. unat (ring_Cap r) = 2 ^ k - 1 \<and> unat c \<le> 2 ^ k \<and> (k = 1 \<or> 2 ^ (k - 1) < unat c))
       else unat (ring_Cap r) = 1)"
proof -
  note new = ring_New_inv [of c, where 'a = 'a]
  have r: "ring_inv r" "accepted = delivered @ ring_abs r"
    using ring.run_history [OF new(1) assms] new(2) by auto
  have cap: "capacity r = capacity (ring_New c :: 'a Ring)" by (rule ring_run_capacity [OF new(1) assms])
  obtain k where k: "1 \<le> k" "k < 32" "capacity r = 2 ^ k" "mask r = capacity r - 1" "unat (capacity r) = 2 ^ k"
    "unat (mask r) = 2 ^ k - 1" "length (data r) = 2 ^ k" "ring_len r < 2 ^ k"
    by (rule ring_layout [OF r(1)])
  have "if unat c \<le> 2 ^ 31 then (\<exists>k\<ge>1. unat (ring_Cap r) = 2 ^ k - 1 \<and> unat c \<le> 2 ^ k \<and> (k = 1 \<or> 2 ^ (k - 1) < unat c))
       else unat (ring_Cap r) = 1"
  proof (cases "unat c \<le> 2 ^ 31")
    case True
    have "(2 :: nat) ^ new_exp c < 2 ^ 32" using new_capacity(2) [OF True] by (intro power_strict_increasing) auto
    then have "unat (2 ^ new_exp c :: u32) = 2 ^ new_exp c"
      using unat_of_nat [where 'a = 32, of "2 ^ new_exp c"] by simp
    then have "unat (ring_Cap r) = 2 ^ new_exp c - 1"
      using True cap mask_capacity [OF r(1)] new_capacity(1) [of c, where 'a = 'a] by (simp add: ring_Cap_def)
    then show ?thesis using True new_exp [of c] by auto
  next
    case False
    then show ?thesis
      using cap mask_capacity [OF r(1)] new_capacity(1) [of c, where 'a = 'a] by (simp add: ring_Cap_def)
  qed
  moreover have "length (ring_abs r) \<le> unat (ring_Cap r)" using k(6,8) by (simp add: ring_Cap_def)
  ultimately show ?thesis using r(2) by blast
qed

theorem ring_New_history_witness:
  "\<exists>r. ring.run [OpPut (1 :: nat), OpPut 2, OpGet] (ring_New 2) = (r, [1], [1]) \<and> ring_abs r = []"
proof -
  let ?r1 = "fst (ring_Put (1 :: nat) (ring_New 2))"
  have "ring_put (1 :: nat) (ring_New 2) = Some ?r1" "ring_put 2 ?r1 = None" "map_option snd (ring_get ?r1) = Some 1"
    by code_simp+
  then have "\<exists>r. ring.run [OpPut (1 :: nat), OpPut 2, OpGet] (ring_New 2) = (r, [1], [1])" by auto
  then show ?thesis using ring_New_history [of "[OpPut (1 :: nat), OpPut 2, OpGet]" 2] by auto
qed

end
