(* ===== verification/Fifo_Queue.thy ===== *)
theory Fifo_Queue
  imports Fifo
begin

text \<open>
  The unbounded blocking queue of \<open>internal/queue/queue.go\<close>: many goroutines put, one gets. The state
  of the queue is a record; each critical section and each channel operation of \<open>Put\<close> and \<open>Get\<close> is one
  function, and an inductive relation interleaves them. The one-place channel \<open>notify\<close> is a flag, as
  its elements carry no data, and \<open>done\<close> is the flag of a closed channel. Of the goroutines inside
  \<open>Put\<close> only those that still have to send the wake-up matter: they are counted.
\<close>

record 'a Queue =
  items :: "'a list"
  notify :: bool
  waiting :: bool
  done_closed :: bool

definition queue_New :: "'a Queue" where
  "queue_New = \<lparr>items = [], notify = False, waiting = False, done_closed = False\<rparr>"

text \<open>\<open>Put\<close>: the critical section returns \<open>wakeUp\<close>; the send is dropped when the channel is full.\<close>

definition Put_locked :: "'a \<Rightarrow> 'a Queue \<Rightarrow> 'a Queue \<times> bool" where
  "Put_locked v q =
     (let wakeUp = waiting q;
          q = (if waiting q then q\<lparr>waiting := False\<rparr> else q)
      in (q\<lparr>items := items q @ [v]\<rparr>, wakeUp))"

definition Put_notify :: "'a Queue \<Rightarrow> 'a Queue" where
  "Put_notify q = (if notify q then q else q\<lparr>notify := True\<rparr>)"

definition queue_Put :: "'a \<Rightarrow> 'a Queue \<Rightarrow> 'a Queue" where
  "queue_Put v q = (let (q, wakeUp) = Put_locked v q in if wakeUp then Put_notify q else q)"

text \<open>\<open>Get\<close>: the critical section before the \<open>select\<close>, and the one after \<open>done\<close> was received.\<close>

definition Get_locked :: "'a Queue \<Rightarrow> 'a Queue \<times> 'a option" where
  "Get_locked q = (case items q of e # es \<Rightarrow> (q\<lparr>items := es\<rparr>, Some e) | [] \<Rightarrow> (q\<lparr>waiting := True\<rparr>, None))"

definition Get_done_locked :: "'a Queue \<Rightarrow> 'a Queue \<times> 'a option" where
  "Get_done_locked q = (case items q of e # es \<Rightarrow> (q\<lparr>items := es\<rparr>, Some e) | [] \<Rightarrow> (q\<lparr>waiting := False\<rparr>, None))"

text \<open>Where the goroutine that calls \<open>Get\<close> is: outside, at the head of the loop, at the \<open>select\<close>, or
  past the receive from \<open>done\<close>. A label tells what a step did.\<close>

datatype get_pc = Outside | LoopHead | Selecting | DoneReceived

datatype 'a label = LPut 'a | LGot 'a | LGotNothing | LDone | LTau

record 'a system =
  queue :: "'a Queue"
  wakers :: nat
  pc :: get_pc

inductive qstep :: "'a system \<Rightarrow> 'a label \<Rightarrow> 'a system \<Rightarrow> bool" where
  put: "Put_locked v (queue s) = (q, wakeUp) \<Longrightarrow>
     qstep s (LPut v) (s\<lparr>queue := q, wakers := wakers s + (if wakeUp then 1 else 0)\<rparr>)"
| wake: "wakers s = Suc n \<Longrightarrow> qstep s LTau (s\<lparr>queue := Put_notify (queue s), wakers := n\<rparr>)"
| call: "pc s = Outside \<Longrightarrow> qstep s LTau (s\<lparr>pc := LoopHead\<rparr>)"
| got: "pc s = LoopHead \<Longrightarrow> Get_locked (queue s) = (q, Some v) \<Longrightarrow> qstep s (LGot v) (s\<lparr>queue := q, pc := Outside\<rparr>)"
| wait: "pc s = LoopHead \<Longrightarrow> Get_locked (queue s) = (q, None) \<Longrightarrow> qstep s LTau (s\<lparr>queue := q, pc := Selecting\<rparr>)"
| woken: "pc s = Selecting \<Longrightarrow> notify (queue s) \<Longrightarrow>
     qstep s LTau (s\<lparr>queue := (queue s)\<lparr>notify := False\<rparr>, pc := LoopHead\<rparr>)"
| stopped: "pc s = Selecting \<Longrightarrow> done_closed (queue s) \<Longrightarrow> qstep s LTau (s\<lparr>pc := DoneReceived\<rparr>)"
| got_last: "pc s = DoneReceived \<Longrightarrow> Get_done_locked (queue s) = (q, Some v) \<Longrightarrow>
     qstep s (LGot v) (s\<lparr>queue := q, pc := Outside\<rparr>)"
| got_nothing: "pc s = DoneReceived \<Longrightarrow> Get_done_locked (queue s) = (q, None) \<Longrightarrow>
     qstep s LGotNothing (s\<lparr>queue := q, pc := Outside\<rparr>)"
| close_done: "qstep s LDone (s\<lparr>queue := (queue s)\<lparr>done_closed := True\<rparr>\<rparr>)"

inductive_cases qstep_put: "qstep s (LPut v) t"
inductive_cases qstep_got: "qstep s (LGot v) t"
inductive_cases qstep_nothing: "qstep s LGotNothing t"
inductive_cases qstep_tau: "qstep s LTau t"

inductive qsteps :: "'a system \<Rightarrow> 'a label list \<Rightarrow> 'a system \<Rightarrow> bool" where
  qsteps_none: "qsteps s [] s"
| qsteps_more: "qsteps s ls t \<Longrightarrow> qstep t l u \<Longrightarrow> qsteps s (ls @ [l]) u"

definition start :: "'a system" where
  "start = \<lparr>queue = queue_New, wakers = 0, pc = Outside\<rparr>"

definition puts :: "'a label list \<Rightarrow> 'a list" where
  "puts ls = List.map_filter (\<lambda>l. case l of LPut v \<Rightarrow> Some v | _ \<Rightarrow> None) ls"

definition gots :: "'a label list \<Rightarrow> 'a list" where
  "gots ls = List.map_filter (\<lambda>l. case l of LGot v \<Rightarrow> Some v | _ \<Rightarrow> None) ls"

lemma puts_gots [simp]:
  "puts [] = []" "gots [] = []"
  "puts (ls @ [l]) = puts ls @ (case l of LPut v \<Rightarrow> [v] | _ \<Rightarrow> [])"
  "gots (ls @ [l]) = gots ls @ (case l of LGot v \<Rightarrow> [v] | _ \<Rightarrow> [])"
  by (simp_all add: puts_def gots_def map_filter_def split: label.split)

lemmas queue_defs = Put_locked_def Put_notify_def Get_locked_def Get_done_locked_def queue_New_def

subsection \<open>The invariant\<close>

text \<open>A queue that remembers a waiting getter is empty, and a getter at the \<open>select\<close> that is no longer
  remembered has its wake-up in the channel or about to be sent.\<close>

definition qinv :: "'a system \<Rightarrow> bool" where
  "qinv s \<longleftrightarrow> (waiting (queue s) \<longrightarrow> items (queue s) = [])
     \<and> (pc s = Selecting \<and> \<not> waiting (queue s) \<longrightarrow> notify (queue s) \<or> 0 < wakers s)"

lemma qstep_inv: "qstep s l t \<Longrightarrow> qinv s \<Longrightarrow> qinv t"
  by (induction rule: qstep.induct)
    (auto simp: qinv_def queue_defs Let_def split: list.splits if_splits)

lemma qsteps_inv: "qsteps s ls t \<Longrightarrow> qinv s \<Longrightarrow> qinv t"
  by (induction rule: qsteps.induct) (auto intro: qstep_inv)

lemma start_inv: "qinv start"
  by (simp add: qinv_def start_def queue_New_def)

lemma qstep_history:
  "qstep s l t \<Longrightarrow>
     items (queue s) @ (case l of LPut v \<Rightarrow> [v] | _ \<Rightarrow> []) = (case l of LGot v \<Rightarrow> [v] | _ \<Rightarrow> []) @ items (queue t)"
  by (induction rule: qstep.induct) (auto simp: queue_defs Let_def split: list.splits if_splits)

lemma qsteps_history: "qsteps s ls t \<Longrightarrow> items (queue s) @ puts ls = gots ls @ items (queue t)"
proof (induction rule: qsteps.induct)
  case (qsteps_more s ls t l u)
  then show ?case using qstep_history [OF qsteps_more.hyps(2)] by (simp flip: append_assoc) simp
qed simp

text \<open>whatever the interleaving of the putting goroutines, the getter and the closing of \<open>done\<close>, the
  values \<open>Get\<close> has returned, followed by the values still queued, are the values put, in the order of
  the critical sections of \<open>Put\<close>: nothing is lost, duplicated or reordered.
\<close>

theorem queue_fifo: "qsteps start ls s \<Longrightarrow> puts ls = gots ls @ items (queue s)"
  using qsteps_history [of start ls s] by (simp add: start_def queue_New_def)

subsection \<open>Progress\<close>

text \<open>The steps that need no new \<open>Put\<close> and no new call: a pending wake-up, or \<open>Get\<close> itself going on.\<close>

lemma qsteps_append: "qsteps t ls' u \<Longrightarrow> qsteps s ls t \<Longrightarrow> qsteps s (ls @ ls') u"
proof (induction rule: qsteps.induct)
  case (qsteps_more s' ls' t l u)
  then show ?case using qsteps.qsteps_more [of s "ls @ ls'" t l u] by simp
qed simp

lemma qstep_qsteps: "qstep s l t \<Longrightarrow> qsteps s [l] t"
  using qsteps_more [OF qsteps_none, of s l t] by simp

lemmas qsteps2 = qsteps_append [OF qstep_qsteps qstep_qsteps]

lemma woken_gets:
  assumes "pc s = Selecting" "notify (queue s)" "items (queue s) = v # vs"
  shows "\<exists>t. qsteps s [LTau, LGot v] t \<and> items (queue t) = vs \<and> pc t = Outside"
proof -
  let ?t = "s\<lparr>queue := (queue s)\<lparr>notify := False\<rparr>, pc := LoopHead\<rparr>"
  let ?u = "?t\<lparr>queue := (queue ?t)\<lparr>items := vs\<rparr>, pc := Outside\<rparr>"
  have "qstep s LTau ?t" using assms by (intro qstep.woken)
  moreover have "qstep ?t (LGot v) ?u" using assms by (intro qstep.got) (simp_all add: Get_locked_def)
  ultimately have "qsteps s [LTau, LGot v] ?u" using qsteps2 [of ?t "LGot v" ?u s LTau] by simp
  then show ?thesis by (intro exI [of _ ?u]) simp
qed

text \<open>C24: no wake-up is lost. Whenever a getter is blocked at the \<open>select\<close> while the queue is not
  empty, at most three steps of goroutines that are already inside \<open>Put\<close> or \<open>Get\<close> let it return the
  first queued value: no further \<open>Put\<close> is needed. And when \<open>done\<close> is closed, a blocked getter returns
  in two steps, with the first queued value, or with nothing only when the queue is empty.\<close>

theorem queue_no_lost_wakeup:
  assumes "qsteps start ls s" "pc s = Selecting"
  shows "(\<forall>v vs. items (queue s) = v # vs \<longrightarrow>
            (\<exists>ts t. length ts \<le> 3 \<and> qsteps s ts t \<and> puts ts = [] \<and> gots ts = [v] \<and> items (queue t) = vs \<and> pc t = Outside))
    \<and> (done_closed (queue s) \<longrightarrow>
         (\<exists>t. if items (queue s) = [] then qsteps s [LTau, LGotNothing] t
              else qsteps s [LTau, LGot (hd (items (queue s)))] t))"
proof (intro conjI allI impI)
  fix v vs assume ne: "items (queue s) = v # vs"
  have "qinv s" using assms(1) start_inv by (rule qsteps_inv)
  then have "notify (queue s) \<or> 0 < wakers s" using ne assms(2) by (auto simp: qinv_def)
  then show "\<exists>ts t. length ts \<le> 3 \<and> qsteps s ts t \<and> puts ts = [] \<and> gots ts = [v] \<and> items (queue t) = vs \<and> pc t = Outside"
  proof
    assume "notify (queue s)"
    from woken_gets [OF assms(2) this ne] obtain t where "qsteps s [LTau, LGot v] t" "items (queue t) = vs" "pc t = Outside" by blast
    then show ?thesis by (intro exI [of _ "[LTau, LGot v]"] exI [of _ t]) (simp add: puts_def gots_def map_filter_def)
  next
    assume "0 < wakers s"
    then obtain n where n: "wakers s = Suc n" using gr0_implies_Suc by blast
    let ?s = "s\<lparr>queue := Put_notify (queue s), wakers := n\<rparr>"
    have w: "qstep s LTau ?s" using n by (rule qstep.wake)
    have "pc ?s = Selecting" "notify (queue ?s)" "items (queue ?s) = v # vs"
      using assms(2) ne by (simp_all add: Put_notify_def)
    from woken_gets [OF this] obtain t where t: "qsteps ?s [LTau, LGot v] t" "items (queue t) = vs" "pc t = Outside" by blast
    from qsteps_append [OF t(1) qstep_qsteps [OF w]] have "qsteps s [LTau, LTau, LGot v] t" by simp
    then show ?thesis using t(2,3)
      by (intro exI [of _ "[LTau, LTau, LGot v]"] exI [of _ t]) (simp add: puts_def gots_def map_filter_def)
  qed
next
  assume d: "done_closed (queue s)"
  let ?s = "s\<lparr>pc := DoneReceived\<rparr>"
  have st: "qstep s LTau ?s" using assms(2) d by (rule qstep.stopped)
  show "\<exists>t. if items (queue s) = [] then qsteps s [LTau, LGotNothing] t
            else qsteps s [LTau, LGot (hd (items (queue s)))] t"
  proof (cases "items (queue s)")
    case Nil
    then have "qstep ?s LGotNothing (?s\<lparr>queue := (queue s)\<lparr>waiting := False\<rparr>, pc := Outside\<rparr>)"
      by (intro qstep.got_nothing) (simp_all add: Get_done_locked_def)
    from qsteps2 [OF this st] Nil show ?thesis by auto
  next
    case (Cons v vs)
    then have "qstep ?s (LGot v) (?s\<lparr>queue := (queue s)\<lparr>items := vs\<rparr>, pc := Outside\<rparr>)"
      by (intro qstep.got_last) (simp_all add: Get_done_locked_def)
    from qsteps2 [OF this st] Cons show ?thesis by auto
  qed
qed

text \<open>A run: the getter blocks, a value is put but its wake-up is not sent yet.\<close>

definition blocked_with :: "'a \<Rightarrow> 'a system" where
  "blocked_with v = \<lparr>queue = \<lparr>items = [v], notify = False, waiting = False, done_closed = False\<rparr>, wakers = 1, pc = Selecting\<rparr>"

lemma blocked_with_reachable: "qsteps start [LTau, LTau, LPut v] (blocked_with v)"
proof -
  let ?s1 = "start\<lparr>pc := LoopHead\<rparr>"
  let ?s2 = "?s1\<lparr>queue := (queue_New)\<lparr>waiting := True\<rparr>, pc := Selecting\<rparr>"
  have s1: "qstep start LTau ?s1" by (rule qstep.call) (simp add: start_def)
  have s2: "qstep ?s1 LTau ?s2" by (rule qstep.wait) (simp_all add: start_def queue_defs)
  have "Put_locked v (queue ?s2) = (queue (blocked_with v), True)"
    by (simp add: queue_defs blocked_with_def Let_def)
  from qstep.put [OF this] have "qstep ?s2 (LPut v) (blocked_with v)"
    by (simp add: blocked_with_def start_def)
  from qsteps_more [OF qsteps2 [OF s2 s1] this] show ?thesis by simp
qed

theorem queue_no_lost_wakeup_witness:
  "\<exists>ts t. qsteps start [LTau, LTau, LPut (0 :: nat)] (blocked_with (0 :: nat)) \<and> qsteps (blocked_with (0 :: nat)) ts t
     \<and> puts ts = [] \<and> gots ts = [(0 :: nat)]"
  using queue_no_lost_wakeup [OF blocked_with_reachable [of "0 :: nat"]] blocked_with_reachable [of "0 :: nat"]
  by (auto simp: blocked_with_def)

theorem queue_fifo_witness:
  "qsteps start [LTau, LTau, LPut (0 :: nat)] (blocked_with (0 :: nat)) \<and> puts [LTau, LTau, LPut (0 :: nat)] = gots [LTau, LTau, LPut (0 :: nat)] @ [(0 :: nat)]"
  using queue_fifo [OF blocked_with_reachable [of "0 :: nat"]] blocked_with_reachable [of "0 :: nat"]
  by (simp add: blocked_with_def)

text \<open>Run alone, \<open>Put\<close> and the non-blocking part of \<open>Get\<close> are an unbounded queue.\<close>

definition queue_TryGet :: "'a Queue \<Rightarrow> ('a Queue \<times> 'a) option" where
  "queue_TryGet q = (case Get_locked q of (q', Some v) \<Rightarrow> Some (q', v) | _ \<Rightarrow> None)"

interpretation lq: fifo items "\<lambda>q. True" "\<lambda>q. False" "\<lambda>v q. Some (queue_Put v q)" queue_TryGet
  by unfold_locales
    (auto simp: queue_Put_def queue_TryGet_def queue_defs Let_def split: list.splits)

end
