(* ===== verification/Plugin_Setup.thy ===== *)
theory Plugin_Setup
  imports Go_Prelude "HOL-Library.Multiset"
begin

text \<open>
  Plugin registration and start-up: \<open>plugin/plugin.go\<close> and \<open>plugin/setup.go\<close>. A factory is code of a
  plugin and so a parameter: a record of the optional interfaces it implements, with what its
  methods return. The configuration is the list of its entries in the order in which Go happens to
  iterate over the maps; every theorem holds for all orders. The calls into plugins are recorded in
  a trace. Start-up is shown to be a topological sort: what is set up is set up after its
  dependencies, and if any admissible order exists, start-up finds one.
\<close>

subsection \<open>plugin.go\<close>

datatype setup_outcome = SetupDone | SetupFailed string | SetupTimesOut

record 'cfg Factory =
  Type_name :: string
  Setup :: "string \<Rightarrow> 'cfg \<Rightarrow> setup_outcome"
  DependsOn :: "string list option"
  FlexDependsOn :: "string list option"
  OnFinish :: "(string \<Rightarrow> string option) option"
  Close :: "string option option"

type_synonym 'cfg registry = "string \<rightharpoonup> (string \<rightharpoonup> 'cfg Factory)"

definition plugin_Register :: "string \<Rightarrow> 'cfg Factory \<Rightarrow> 'cfg registry \<Rightarrow> 'cfg registry" where
  "plugin_Register name f plugins =
     (let factories = (case plugins (Type_name f) of None \<Rightarrow> Map.empty | Some m \<Rightarrow> m)
      in plugins(Type_name f \<mapsto> factories(name \<mapsto> f)))"

definition plugin_Get :: "string \<Rightarrow> string \<Rightarrow> 'cfg registry \<Rightarrow> 'cfg Factory option" where
  "plugin_Get ty name plugins = (case plugins ty of None \<Rightarrow> None | Some m \<Rightarrow> m name)"

subsection \<open>setup.go\<close>

datatype plugin_error =
    NotRegistered string string
  | TooManyPlugins nat
  | DependsOnItself
  | DependencyMissing string
  | SetupTimeoutErr string
  | SetupErr string string
  | CycleDepends
  | PluginErr string
  | QueueBlocked

datatype event = EvSetup string | EvFinish string | EvClose string

record 'cfg pluginInfo =
  factory :: "'cfg Factory"
  p_typ :: string
  p_name :: string
  p_cfg :: 'cfg

definition key :: "'cfg pluginInfo \<Rightarrow> string" where
  "key p = p_typ p @ ''-'' @ p_name p"

text \<open>\<open>loadPlugins\<close>: the nested loop over the two levels of the configuration.\<close>

type_synonym 'cfg Config = "(string \<times> (string \<times> 'cfg) list) list"

definition entries :: "'cfg Config \<Rightarrow> (string \<times> string \<times> 'cfg) list" where
  "entries c = concat (map (\<lambda>(ty, fs). map (\<lambda>(n, cfg). (ty, n, cfg)) fs) c)"

fun load_loop ::
    "'cfg registry \<Rightarrow> nat \<Rightarrow> (string \<times> string \<times> 'cfg) list \<Rightarrow> 'cfg pluginInfo list \<Rightarrow> (string \<rightharpoonup> bool)
      \<Rightarrow> (plugin_error, 'cfg pluginInfo list \<times> (string \<rightharpoonup> bool)) res" where
  "load_loop reg maxSize [] plugins status = Ok (plugins, status)"
| "load_loop reg maxSize ((ty, n, cfg) # es) plugins status =
     (case plugin_Get ty n reg of
        None \<Rightarrow> Err (NotRegistered ty n)
      | Some f \<Rightarrow>
          (let p = \<lparr>factory = f, p_typ = ty, p_name = n, p_cfg = cfg\<rparr> in
           if length plugins < maxSize
           then load_loop reg maxSize es (plugins @ [p]) (status(key p \<mapsto> False))
           else Err (TooManyPlugins (length plugins))))"

definition loadPlugins :: "'cfg registry \<Rightarrow> nat \<Rightarrow> 'cfg Config \<Rightarrow> (plugin_error, 'cfg pluginInfo list \<times> (string \<rightharpoonup> bool)) res" where
  "loadPlugins reg maxSize c = load_loop reg maxSize (entries c) [] Map.empty"

fun checkDependence :: "'cfg pluginInfo \<Rightarrow> (string \<rightharpoonup> bool) \<Rightarrow> string list \<Rightarrow> bool \<Rightarrow> (plugin_error, bool) res" where
  "checkDependence p status [] flexible = Ok False"
| "checkDependence p status (name # deps) flexible =
     (if name = key p then Err DependsOnItself
      else case status name of
        None \<Rightarrow> if flexible then checkDependence p status deps flexible else Err (DependencyMissing name)
      | Some setup \<Rightarrow> if \<not> setup then Ok True else checkDependence p status deps flexible)"

definition hasDependence :: "'cfg pluginInfo \<Rightarrow> (string \<rightharpoonup> bool) \<Rightarrow> (plugin_error, bool) res" where
  "hasDependence p status =
     bind_res (case DependsOn (factory p) of None \<Rightarrow> Ok False | Some deps \<Rightarrow> checkDependence p status deps False) (\<lambda>hasDeps.
       if hasDeps then Ok True
       else case FlexDependsOn (factory p) of None \<Rightarrow> Ok False | Some deps \<Rightarrow> checkDependence p status deps True)"

definition p_setup :: "'cfg pluginInfo \<Rightarrow> plugin_error option" where
  "p_setup p =
     (case Setup (factory p) (p_name p) (p_cfg p) of
        SetupDone \<Rightarrow> None
      | SetupFailed e \<Rightarrow> Some (SetupErr (key p) e)
      | SetupTimesOut \<Rightarrow> Some (SetupTimeoutErr (key p)))"

record 'cfg setup_state =
  ss_queue :: "'cfg pluginInfo list"
  ss_status :: "string \<rightharpoonup> bool"
  ss_result :: "'cfg pluginInfo list"
  ss_closes :: "(string \<times> string option) list"
  ss_trace :: "event list"

text \<open>The inner loop: \<open>i\<close> rounds over the queue. A receive from an empty channel would block.\<close>

fun setup_pass :: "nat \<Rightarrow> 'cfg setup_state \<Rightarrow> 'cfg setup_state \<times> plugin_error option" where
  "setup_pass 0 s = (s, None)"
| "setup_pass (Suc i) s =
     (case ss_queue s of
        [] \<Rightarrow> (s, Some QueueBlocked)
      | p # ps \<Rightarrow>
          (case hasDependence p (ss_status s) of
             Err e \<Rightarrow> (s\<lparr>ss_queue := ps\<rparr>, Some e)
           | Panic \<Rightarrow> (s\<lparr>ss_queue := ps\<rparr>, Some QueueBlocked)
           | Ok True \<Rightarrow> setup_pass i (s\<lparr>ss_queue := ps @ [p]\<rparr>)
           | Ok False \<Rightarrow>
               (let s = s\<lparr>ss_queue := ps, ss_trace := ss_trace s @ [EvSetup (key p)]\<rparr> in
                case p_setup p of
                  Some e \<Rightarrow> (s, Some e)
                | None \<Rightarrow>
                    setup_pass i (s\<lparr>ss_closes := ss_closes s @ (case Close (factory p) of None \<Rightarrow> [] | Some cl \<Rightarrow> [(key p, cl)]),
                                   ss_status := (ss_status s)(key p \<mapsto> True),
                                   ss_result := ss_result s @ [p]\<rparr>))))"

lemma setup_pass_length: "setup_pass i s = (s', None) \<Longrightarrow> length (ss_queue s') \<le> length (ss_queue s)"
  by (induction i arbitrary: s)
    (force split: list.splits res.splits bool.splits option.splits simp: Let_def)+

text \<open>The outer loop; it ends because each round but the last shortens the queue.\<close>

function (sequential) setup_loop :: "'cfg setup_state \<Rightarrow> 'cfg setup_state \<times> plugin_error option" where
  "setup_loop s =
     (let num = length (ss_queue s) in
      if num = 0 then (s, None)
      else case setup_pass num s of
        (s', Some e) \<Rightarrow> (s', Some e)
      | (s', None) \<Rightarrow> if length (ss_queue s') = num then (s', Some CycleDepends) else setup_loop s')"
  by pat_completeness auto
termination
  by (relation "measure (\<lambda>s. length (ss_queue s))") (auto dest: setup_pass_length [OF sym] simp: le_neq_implies_less)

declare setup_loop.simps [simp del]

definition setupPlugins :: "'cfg pluginInfo list \<Rightarrow> (string \<rightharpoonup> bool) \<Rightarrow> 'cfg setup_state \<times> plugin_error option" where
  "setupPlugins plugins status =
     setup_loop \<lparr>ss_queue = plugins, ss_status = status, ss_result = [], ss_closes = [], ss_trace = []\<rparr>"

fun p_onFinish :: "'cfg pluginInfo list \<Rightarrow> event list \<Rightarrow> event list \<times> plugin_error option" where
  "p_onFinish [] tr = (tr, None)"
| "p_onFinish (p # ps) tr =
     (case OnFinish (factory p) of
        None \<Rightarrow> p_onFinish ps tr
      | Some f \<Rightarrow>
          (case f (p_name p) of
             Some e \<Rightarrow> (tr @ [EvFinish (key p)], Some (PluginErr e))
           | None \<Rightarrow> p_onFinish ps (tr @ [EvFinish (key p)])))"

text \<open>The close function runs the closers from the last to the first and stops at the first error.\<close>

fun close_loop :: "(string \<times> string option) list \<Rightarrow> event list \<Rightarrow> event list \<times> plugin_error option" where
  "close_loop [] tr = (tr, None)"
| "close_loop ((k, Some e) # cs) tr = (tr @ [EvClose k], Some (PluginErr e))"
| "close_loop ((k, None) # cs) tr = close_loop cs (tr @ [EvClose k])"

definition run_close :: "(string \<times> string option) list \<Rightarrow> event list \<Rightarrow> event list \<times> plugin_error option" where
  "run_close closes tr = close_loop (rev closes) tr"

text \<open>The result holds the closers that the returned function runs.\<close>

definition SetupClosables ::
    "'cfg registry \<Rightarrow> nat \<Rightarrow> 'cfg Config \<Rightarrow> event list \<times> (plugin_error, (string \<times> string option) list) res" where
  "SetupClosables reg maxSize c =
     (case loadPlugins reg maxSize c of
        Err e \<Rightarrow> ([], Err e)
      | Panic \<Rightarrow> ([], Panic)
      | Ok (plugins, status) \<Rightarrow>
          (case setupPlugins plugins status of
             (s, Some e) \<Rightarrow> (ss_trace s, Err e)
           | (s, None) \<Rightarrow>
               (case p_onFinish (ss_result s) (ss_trace s) of
                  (tr, Some e) \<Rightarrow> (tr, Err e)
                | (tr, None) \<Rightarrow> (tr, Ok (ss_closes s)))))"

subsection \<open>Admissible orders\<close>

definition strong :: "'cfg pluginInfo \<Rightarrow> string set" where
  "strong p = set (case DependsOn (factory p) of None \<Rightarrow> [] | Some ds \<Rightarrow> ds)"

definition flex :: "'cfg pluginInfo \<Rightarrow> string set" where
  "flex p = set (case FlexDependsOn (factory p) of None \<Rightarrow> [] | Some ds \<Rightarrow> ds)"

text \<open>An order of plugins is admissible if each comes after all its strong dependencies and after
  those weak ones that are configured at all (the keys \<open>K\<close>), and none depends on itself.\<close>

fun admissible :: "string set \<Rightarrow> string set \<Rightarrow> 'cfg pluginInfo list \<Rightarrow> bool" where
  "admissible K seen [] \<longleftrightarrow> True"
| "admissible K seen (p # ps) \<longleftrightarrow>
     strong p \<union> (flex p \<inter> K) \<subseteq> seen \<and> key p \<notin> strong p \<union> flex p \<and> admissible K (insert (key p) seen) ps"

lemma admissible_append:
  "admissible K seen (ps @ qs) \<longleftrightarrow> admissible K seen ps \<and> admissible K (seen \<union> key ` set ps) qs"
  by (induction ps arbitrary: seen) (auto simp: Un_commute)

lemma check_ready: "checkDependence p st ds fl = Ok False \<longleftrightarrow>
    (\<forall>n \<in> set ds. n \<noteq> key p \<and> (if fl then st n \<noteq> Some False else st n = Some True))"
  by (induction ds) (auto split: option.split)

lemma check_not_panic: "checkDependence p st ds fl \<noteq> Panic"
  by (induction ds) (auto split: option.split)

lemma check_error: "checkDependence p st ds fl \<noteq> Err QueueBlocked"
  by (induction ds) (auto split: option.split)

lemma check_no_error:
  "key p \<notin> set ds \<Longrightarrow> fl \<or> set ds \<subseteq> dom st \<Longrightarrow> \<exists>b. checkDependence p st ds fl = Ok b"
  by (induction ds) (auto split: option.split)

lemma ready_iff: "hasDependence p st = Ok False \<longleftrightarrow>
    (\<forall>n \<in> strong p. n \<noteq> key p \<and> st n = Some True) \<and> (\<forall>n \<in> flex p. n \<noteq> key p \<and> st n \<noteq> Some False)"
  by (auto simp: hasDependence_def strong_def flex_def bind_res_iffs check_ready split: option.splits)

lemma hasDependence_not_panic: "hasDependence p st \<noteq> Panic"
  by (auto simp: hasDependence_def bind_res_iffs check_not_panic split: option.splits if_splits)

lemma hasDependence_no_error:
  assumes "key p \<notin> strong p \<union> flex p" "strong p \<subseteq> dom st"
  shows "\<exists>b. hasDependence p st = Ok b"
proof -
  have "\<exists>b. (case DependsOn (factory p) of None \<Rightarrow> Ok False | Some deps \<Rightarrow> checkDependence p st deps False) = Ok b"
    using assms check_no_error [of p _ False st] by (auto simp: strong_def split: option.splits)
  moreover have "\<exists>b. (case FlexDependsOn (factory p) of None \<Rightarrow> Ok False | Some deps \<Rightarrow> checkDependence p st deps True) = Ok b"
    using assms check_no_error [of p _ True st] by (auto simp: flex_def split: option.splits)
  ultimately show ?thesis by (auto simp: hasDependence_def)
qed

subsection \<open>The invariant of the start-up loop\<close>

definition setups :: "'cfg pluginInfo list \<Rightarrow> event list" where
  "setups ps = map (\<lambda>p. EvSetup (key p)) ps"

definition closers :: "'cfg pluginInfo list \<Rightarrow> (string \<times> string option) list" where
  "closers ps = concat (map (\<lambda>p. case Close (factory p) of None \<Rightarrow> [] | Some cl \<Rightarrow> [(key p, cl)]) ps)"

definition setup_inv :: "'cfg pluginInfo list \<Rightarrow> 'cfg setup_state \<Rightarrow> bool" where
  "setup_inv P s \<longleftrightarrow> mset (ss_queue s) + mset (ss_result s) = mset P
     \<and> dom (ss_status s) = key ` set P
     \<and> (\<forall>k. ss_status s k = Some True \<longleftrightarrow> k \<in> key ` set (ss_result s))
     \<and> admissible (key ` set P) {} (ss_result s)
     \<and> ss_trace s = setups (ss_result s) \<and> ss_closes s = closers (ss_result s)
     \<and> (\<forall>p \<in> set (ss_result s). p_setup p = None)"

definition after_setup :: "'cfg pluginInfo \<Rightarrow> 'cfg pluginInfo list \<Rightarrow> 'cfg setup_state \<Rightarrow> 'cfg setup_state" where
  "after_setup p ps s = s\<lparr>ss_queue := ps, ss_trace := ss_trace s @ [EvSetup (key p)],
     ss_closes := ss_closes s @ (case Close (factory p) of None \<Rightarrow> [] | Some cl \<Rightarrow> [(key p, cl)]),
     ss_status := (ss_status s)(key p \<mapsto> True), ss_result := ss_result s @ [p]\<rparr>"

lemma setup_pass_Suc:
  assumes "ss_queue s = p # ps"
  shows "hasDependence p (ss_status s) = Ok True \<Longrightarrow> setup_pass (Suc i) s = setup_pass i (s\<lparr>ss_queue := ps @ [p]\<rparr>)"
    "hasDependence p (ss_status s) = Ok False \<Longrightarrow> p_setup p = None \<Longrightarrow> setup_pass (Suc i) s = setup_pass i (after_setup p ps s)"
    "hasDependence p (ss_status s) = Ok False \<Longrightarrow> p_setup p = Some e \<Longrightarrow>
       setup_pass (Suc i) s = (s\<lparr>ss_queue := ps, ss_trace := ss_trace s @ [EvSetup (key p)]\<rparr>, Some e)"
    "hasDependence p (ss_status s) = Err e \<Longrightarrow> setup_pass (Suc i) s = (s\<lparr>ss_queue := ps\<rparr>, Some e)"
  using assms by (simp_all add: after_setup_def Let_def)

lemma admissible_snoc_ready:
  assumes inv: "setup_inv P s" and ready: "hasDependence p (ss_status s) = Ok False"
  shows "admissible (key ` set P) {} (ss_result s @ [p])"
proof -
  have "n \<in> key ` set (ss_result s)" if "n \<in> flex p" "n \<in> key ` set P" for n
  proof -
    from that(2) inv obtain b where "ss_status s n = Some b" unfolding setup_inv_def by blast
    with that(1) ready have "ss_status s n = Some True" by (cases b) (auto simp: ready_iff)
    with inv show ?thesis by (simp add: setup_inv_def)
  qed
  with inv ready show ?thesis by (auto simp: admissible_append setup_inv_def ready_iff)
qed

lemma after_setup_inv:
  assumes inv: "setup_inv P s" and q: "ss_queue s = p # ps"
    and ready: "hasDependence p (ss_status s) = Ok False" and ok: "p_setup p = None"
  shows "setup_inv P (after_setup p ps s)"
proof -
  have "p \<in> set P" using inv q by (metis setup_inv_def list.set_intros(1) mset_eq_setD set_mset_mset set_mset_union UnI1)
  then show ?thesis
    using assms admissible_snoc_ready [OF inv ready]
    by (auto simp: setup_inv_def after_setup_def setups_def closers_def)
qed

lemma rotate_inv: "setup_inv P s \<Longrightarrow> ss_queue s = p # ps \<Longrightarrow> setup_inv P (s\<lparr>ss_queue := ps @ [p]\<rparr>)"
  by (simp add: setup_inv_def)

text \<open>What a trace of set-up calls must look like, whether or not the start-up succeeds.\<close>

definition good_trace :: "'cfg pluginInfo list \<Rightarrow> event list \<Rightarrow> bool" where
  "good_trace P tr \<longleftrightarrow> (\<exists>order. tr = setups order \<and> admissible (key ` set P) {} order \<and> mset order \<subseteq># mset P)"

lemma setup_inv_good: "setup_inv P s \<Longrightarrow> good_trace P (ss_trace s)"
  unfolding setup_inv_def good_trace_def by (metis mset_subset_eq_add_right)

lemma setup_pass_inv:
  "setup_inv P s \<Longrightarrow> i \<le> length (ss_queue s) \<Longrightarrow> setup_pass i s = (s', r) \<Longrightarrow>
     good_trace P (ss_trace s') \<and> r \<noteq> Some QueueBlocked \<and> (r = None \<longrightarrow> setup_inv P s')"
proof (induction i arbitrary: s)
  case 0
  then show ?case by (auto intro: setup_inv_good)
next
  case (Suc i)
  then obtain p ps where q: "ss_queue s = p # ps" by (cases "ss_queue s") auto
  have len: "i \<le> length ps" using Suc.prems(2) q by simp
  show ?case
  proof (cases "hasDependence p (ss_status s)")
    case (Ok b)
    show ?thesis
    proof (cases b)
      case True
      then show ?thesis
        using Suc.IH [OF rotate_inv [OF Suc.prems(1) q]] Suc.prems(3) len Ok setup_pass_Suc(1) [OF q] by simp
    next
      case False
      with Ok have ready: "hasDependence p (ss_status s) = Ok False" by simp
      show ?thesis
      proof (cases "p_setup p")
        case None
        then show ?thesis
          using Suc.IH [OF after_setup_inv [OF Suc.prems(1) q ready None]] Suc.prems(3) len setup_pass_Suc(2) [OF q ready]
          by (simp add: after_setup_def)
      next
        case (Some e)
        have "mset (ss_result s @ [p]) \<subseteq># mset P"
          using Suc.prems(1) q by (auto simp: setup_inv_def) (metis add_mset_add_single mset_subset_eq_add_right union_mset_add_mset_left union_mset_add_mset_right)
        then have "good_trace P (ss_trace s @ [EvSetup (key p)])"
          using admissible_snoc_ready [OF Suc.prems(1) ready] Suc.prems(1) unfolding good_trace_def
          by (intro exI [of _ "ss_result s @ [p]"]) (simp add: setup_inv_def setups_def)
        moreover have "e \<noteq> QueueBlocked" using Some by (auto simp: p_setup_def split: setup_outcome.splits)
        ultimately show ?thesis using setup_pass_Suc(3) [OF q ready Some] Suc.prems(3) by auto
      qed
    qed
  next
    case (Err e)
    then have "e \<noteq> QueueBlocked" 
      by (auto simp: hasDependence_def bind_res_iffs check_error split: option.splits if_splits)
    then show ?thesis using setup_pass_Suc(4) [OF q Err] Suc.prems setup_inv_good by auto
  qed (simp add: hasDependence_not_panic)
qed

lemma setup_loop_inv:
  "setup_inv P s \<Longrightarrow> setup_loop s = (s', r) \<Longrightarrow>
     good_trace P (ss_trace s') \<and> r \<noteq> Some QueueBlocked
     \<and> (r = None \<longrightarrow> setup_inv P s' \<and> ss_queue s' = [])"
proof (induction s rule: setup_loop.induct)
  case (1 s)
  obtain t e where pass: "setup_pass (length (ss_queue s)) s = (t, e)" by (cases "setup_pass (length (ss_queue s)) s")
  note inv = setup_pass_inv [OF 1(2) le_refl pass]
  show ?case
  proof (cases "ss_queue s = []")
    case True
    then have "s' = s" "r = None" using 1(3) by (simp_all add: setup_loop.simps)
    then show ?thesis using True 1(2) setup_inv_good by auto
  next
    case ne: False
    show ?thesis
    proof (cases "e = None \<and> length (ss_queue t) \<noteq> length (ss_queue s)")
      case True
      then have "setup_loop t = (s', r)" using 1(3) pass ne by (simp add: setup_loop.simps [of s])
      then show ?thesis using 1(1) [OF refl _ pass [symmetric]] True ne inv by simp
    next
      case False
      then have "s' = t" "r \<noteq> None" "r = e \<or> r = Some CycleDepends"
        using 1(3) pass ne by (auto simp: setup_loop.simps [of s] split: option.splits if_splits)
      then show ?thesis using inv by auto
    qed
  qed
qed

lemma load_loop_ok:
  "load_loop reg n es ps st = Ok (ps', st') \<Longrightarrow> dom st = key ` set ps \<Longrightarrow> (\<forall>k. st k \<noteq> Some True) \<Longrightarrow>
     dom st' = key ` set ps' \<and> (\<forall>k. st' k \<noteq> Some True)
     \<and> map (\<lambda>p. (p_typ p, p_name p, p_cfg p)) ps' = map (\<lambda>p. (p_typ p, p_name p, p_cfg p)) ps @ es"
proof (induction reg n es ps st rule: load_loop.induct)
  case (2 reg n ty nm cfg es ps st)
  then obtain f where f: "plugin_Get ty nm reg = Some f" "length ps < n" by (auto simp: Let_def split: option.splits if_splits)
  let ?p = "\<lparr>factory = f, p_typ = ty, p_name = nm, p_cfg = cfg\<rparr>"
  have l: "load_loop reg n es (ps @ [?p]) (st(key ?p \<mapsto> False)) = Ok (ps', st')"
    using 2(2) f by (simp add: Let_def)
  have d: "dom (st(key ?p \<mapsto> False)) = key ` set (ps @ [?p])" using 2(3) by auto
  have t: "\<forall>k. (st(key ?p \<mapsto> False)) k \<noteq> Some True" using 2(4) by simp
  show ?case using 2(1) [OF f(1) refl f(2) l d t] by simp
qed auto

lemma loadPlugins_inv:
  assumes "loadPlugins reg n c = Ok (plugins, status)"
  shows "setup_inv plugins \<lparr>ss_queue = plugins, ss_status = status, ss_result = [], ss_closes = [], ss_trace = []\<rparr>"
  using load_loop_ok [OF assms [unfolded loadPlugins_def]] by (simp add: setup_inv_def setups_def closers_def)

subsection \<open>Completeness\<close>

text \<open>A plugin that could start does so in the next pass, and then the queue is shorter.\<close>

lemma setup_pass_progress:
  assumes noerr: "\<forall>p \<in> set P. key p \<notin> strong p \<union> flex p \<and> strong p \<subseteq> key ` set P \<and> p_setup p = None"
  shows "setup_inv P s \<Longrightarrow> i \<le> length (ss_queue s) \<Longrightarrow>
     \<exists>s'. setup_pass i s = (s', None) \<and>
       ((\<exists>p \<in> set (take i (ss_queue s)). hasDependence p (ss_status s) = Ok False) \<longrightarrow>
          length (ss_queue s') < length (ss_queue s))"
proof (induction i arbitrary: s)
  case (Suc i)
  then obtain p ps where q: "ss_queue s = p # ps" by (cases "ss_queue s") auto
  have len: "i \<le> length ps" using Suc.prems(2) q by simp
  have "p \<in> set P"
    using Suc.prems(1) q by (metis setup_inv_def list.set_intros(1) set_mset_mset set_mset_union UnI1)
  then obtain b where b: "hasDependence p (ss_status s) = Ok b"
    using noerr Suc.prems(1) hasDependence_no_error [of p "ss_status s"] by (auto simp: setup_inv_def)
  have ok: "p_setup p = None" using noerr \<open>p \<in> set P\<close> by simp
  show ?case
  proof (cases b)
    case False
    with b have ready: "hasDependence p (ss_status s) = Ok False" by simp
    have "setup_inv P (after_setup p ps s)" by (rule after_setup_inv [OF Suc.prems(1) q ready ok])
    moreover have qlen: "ss_queue (after_setup p ps s) = ps" by (simp add: after_setup_def)
    ultimately obtain s' where s': "setup_pass i (after_setup p ps s) = (s', None)"
      using Suc.IH [of "after_setup p ps s"] len by auto
    from setup_pass_length [OF this] have "length (ss_queue s') \<le> length ps" by (simp add: qlen)
    then show ?thesis using s' setup_pass_Suc(2) [OF q ready ok] q by auto
  next
    case True
    with b have busy: "hasDependence p (ss_status s) = Ok True" by simp
    let ?s = "s\<lparr>ss_queue := ps @ [p]\<rparr>"
    obtain s' where s': "setup_pass i ?s = (s', None)"
      "(\<exists>p \<in> set (take i (ps @ [p])). hasDependence p (ss_status s) = Ok False) \<longrightarrow> length (ss_queue s') < length (ps @ [p])"
      using Suc.IH [OF rotate_inv [OF Suc.prems(1) q]] len by auto
    moreover have "set (take (Suc i) (ss_queue s)) = insert p (set (take i (ps @ [p])))" using q len by simp
    ultimately show ?thesis using setup_pass_Suc(1) [OF q busy] busy q by auto
  qed
qed simp

lemma ready_exists:
  assumes inv: "setup_inv P s" and ne: "ss_queue s \<noteq> []"
    and order: "mset order = mset P" "admissible (key ` set P) {} order"
  shows "\<exists>p \<in> set (ss_queue s). hasDependence p (ss_status s) = Ok False"
proof -
  have sets: "set order = set (ss_queue s) \<union> set (ss_result s)"
    using inv order(1) by (metis setup_inv_def set_mset_mset set_mset_union)
  then have "\<exists>x \<in> set order. x \<in> set (ss_queue s)" using ne by (cases "ss_queue s") auto
  from split_list_first_prop [OF this] obtain xs p ys where
    p: "order = xs @ p # ys" "p \<in> set (ss_queue s)" "\<forall>y \<in> set xs. y \<notin> set (ss_queue s)" by blast
  then have "set xs \<subseteq> set (ss_result s)" using sets by auto
  then have up: "ss_status s k = Some True" if "k \<in> key ` set xs" for k using inv that by (auto simp: setup_inv_def)
  have adm: "strong p \<union> (flex p \<inter> key ` set P) \<subseteq> key ` set xs" "key p \<notin> strong p \<union> flex p"
    using order(2) p(1) by (auto simp: admissible_append)
  have dom: "dom (ss_status s) = key ` set P" using inv by (simp add: setup_inv_def)
  have "ss_status s n \<noteq> Some False" if "n \<in> flex p" for n
  proof (cases "n \<in> key ` set P")
    case True
    then have "n \<in> key ` set xs" using that adm(1) by blast
    then show ?thesis using up by simp
  next
    case False
    then show ?thesis using dom by auto
  qed
  then have "hasDependence p (ss_status s) = Ok False" using adm up by (auto simp: ready_iff)
  with p(2) show ?thesis by blast
qed

lemma admissible_deps: "admissible K seen ps \<Longrightarrow> p \<in> set ps \<Longrightarrow> key p \<notin> strong p \<union> flex p \<and> strong p \<subseteq> seen \<union> key ` set ps"
  by (induction ps arbitrary: seen) auto

lemma setup_loop_complete:
  assumes order: "mset order = mset P" "admissible (key ` set P) {} order" "\<forall>p \<in> set order. p_setup p = None"
  shows "setup_inv P s \<Longrightarrow> \<exists>s'. setup_loop s = (s', None)"
proof (induction s rule: setup_loop.induct)
  case (1 s)
  have "set order = set P" using order(1) by (metis set_mset_mset)
  then have noerr: "\<forall>p \<in> set P. key p \<notin> strong p \<union> flex p \<and> strong p \<subseteq> key ` set P \<and> p_setup p = None"
    using admissible_deps [OF order(2)] order(3) by auto
  show ?case
  proof (cases "ss_queue s = []")
    case False
    obtain t where t: "setup_pass (length (ss_queue s)) s = (t, None)" "length (ss_queue t) < length (ss_queue s)"
      using setup_pass_progress [OF noerr 1(2) le_refl] ready_exists [OF 1(2) False order(1,2)] by auto
    then have "setup_loop s = setup_loop t" using False by (simp add: setup_loop.simps [of s])
    then show ?thesis
      using 1(1) [OF refl _ t(1) [symmetric] refl] False t(2) setup_pass_inv [OF 1(2) le_refl t(1)] by simp
  qed (simp add: setup_loop.simps)
qed

lemma onFinish_trace:
  "p_onFinish ps tr = (tr', r) \<Longrightarrow> \<exists>fin. tr' = tr @ map EvFinish fin \<and> set fin \<subseteq> key ` set ps"
proof (induction ps arbitrary: tr)
  case (Cons p ps)
  have "\<exists>fin. tr' = tr @ map EvFinish fin \<and> set fin \<subseteq> insert (key p) (key ` set ps)"
    if rest: "p_onFinish ps (tr @ map EvFinish pre) = (tr', r)" "pre \<in> {[], [key p]}" for pre
  proof -
    from Cons.IH [OF rest(1)] obtain fin where "tr' = tr @ map EvFinish (pre @ fin)" "set fin \<subseteq> key ` set ps" by auto
    then show ?thesis using rest(2) by (intro exI [of _ "pre @ fin"]) auto
  qed
  from this [of "[]"] this [of "[key p]"] Cons.prems show ?case
    by (auto split: option.splits intro: exI [of _ "[key p]"])
qed (auto intro: exI [of _ "[]"])

lemma onFinish_error: "p_onFinish ps tr \<noteq> (tr', Some QueueBlocked)"
  by (induction ps arbitrary: tr) (auto split: option.splits)

lemma onFinish_ok:
  "\<forall>p \<in> set ps. case OnFinish (factory p) of None \<Rightarrow> True | Some f \<Rightarrow> f (p_name p) = None \<Longrightarrow>
     \<exists>tr'. p_onFinish ps tr = (tr', None)"
  by (induction ps arbitrary: tr) (auto split: option.splits)

lemma close_loop_ok: "\<forall>c \<in> set cs. snd c = None \<Longrightarrow> close_loop cs tr = (tr @ map (\<lambda>c. EvClose (fst c)) cs, None)"
  by (induction cs tr rule: close_loop.induct) auto

text \<open>C28: plugins start in an order that respects their dependencies, also when the start-up fails. For
  every configuration and every iteration order of its maps, the calls made are set-up calls of
  configured plugins, each at most as often as it is configured and after all its strong
  dependencies and all its configured weak ones, followed by notifications. On success every
  configured plugin was set up, and the returned function closes the closable ones in the reverse
  order of their set-up. The start-up never blocks on its own queue.\<close>

theorem plugin_setup_order:
  assumes "loadPlugins reg n c = Ok (P, status)" "SetupClosables reg n c = (tr, r)"
  shows "\<exists>order fin. tr = setups order @ map EvFinish fin \<and> admissible (key ` set P) {} order \<and> mset order \<subseteq># mset P
    \<and> r \<noteq> Err QueueBlocked \<and> r \<noteq> Panic
    \<and> (\<forall>closes. r = Ok closes \<longrightarrow> mset order = mset P \<and> closes = closers order
         \<and> ((\<forall>cl \<in> set closes. snd cl = None) \<longrightarrow>
              run_close closes tr = (tr @ map (\<lambda>cl. EvClose (fst cl)) (rev (closers order)), None)))"
proof -
  obtain s e where s: "setupPlugins P status = (s, e)" by (cases "setupPlugins P status")
  note inv = setup_loop_inv [OF loadPlugins_inv [OF assms(1)] s [unfolded setupPlugins_def]]
  show ?thesis
  proof (cases e)
    case (Some x)
    with assms s have "tr = ss_trace s" "r = Err x" by (auto simp: SetupClosables_def)
    moreover obtain order where "ss_trace s = setups order" "admissible (key ` set P) {} order" "mset order \<subseteq># mset P"
      using inv unfolding good_trace_def by blast
    ultimately show ?thesis using inv Some by (intro exI [of _ order] exI [of _ "[]"]) auto
  next
    case None
    obtain tr' f where f: "p_onFinish (ss_result s) (ss_trace s) = (tr', f)" by (cases "p_onFinish (ss_result s) (ss_trace s)")
    from onFinish_trace [OF f] obtain fin where fin: "tr' = ss_trace s @ map EvFinish fin" by blast
    have all: "setup_inv P s" "ss_queue s = []" using inv None by auto
    then have m: "mset (ss_result s) = mset P" "ss_trace s = setups (ss_result s)" "ss_closes s = closers (ss_result s)"
      "admissible (key ` set P) {} (ss_result s)" by (auto simp: setup_inv_def)
    have r: "tr = tr'" "r = (case f of None \<Rightarrow> Ok (closers (ss_result s)) | Some e \<Rightarrow> Err e)"
      using assms s None f m(3) by (auto simp: SetupClosables_def split: option.splits)
    have "f \<noteq> Some QueueBlocked" using f onFinish_error by blast
    then show ?thesis
      using r fin m close_loop_ok [of "rev (closers (ss_result s))" tr]
      by (intro exI [of _ "ss_result s"] exI [of _ fin]) (auto simp: run_close_def split: option.splits)
  qed
qed

text \<open>the start-up succeeds whenever it can. If some order of the configured plugins is admissible,
  and every set-up and notification call succeeds, then \<open>SetupClosables\<close> succeeds, whatever the order
  in which Go iterates over the configuration: a report of a dependency cycle, of a self-dependency
  or of a missing dependency is never a false alarm.\<close>

theorem plugin_setup_complete:
  assumes "loadPlugins reg n c = Ok (P, status)"
    and "mset order = mset P" "admissible (key ` set P) {} order" "\<forall>p \<in> set order. p_setup p = None"
    and "\<forall>p \<in> set order. case OnFinish (factory p) of None \<Rightarrow> True | Some f \<Rightarrow> f (p_name p) = None"
  shows "\<exists>tr closes. SetupClosables reg n c = (tr, Ok closes)"
proof -
  obtain s where s: "setupPlugins P status = (s, None)"
    using setup_loop_complete [OF assms(2-4) loadPlugins_inv [OF assms(1)]] by (auto simp: setupPlugins_def)
  note inv = setup_loop_inv [OF loadPlugins_inv [OF assms(1)] s [unfolded setupPlugins_def]]
  then have "mset (ss_result s) = mset order" using assms(2) by (auto simp: setup_inv_def)
  then have "set (ss_result s) = set order" by (metis set_mset_mset)
  then obtain tr where "p_onFinish (ss_result s) (ss_trace s) = (tr, None)"
    using onFinish_ok [of "ss_result s" "ss_trace s"] assms(5) by auto
  then show ?thesis using assms(1) s by (simp add: SetupClosables_def)
qed

text \<open>Two plugins configured in the wrong order: \<open>log\<close> needs \<open>config\<close>.\<close>

definition sample_factory :: "string \<Rightarrow> string list option \<Rightarrow> nat Factory" where
  "sample_factory ty ds = \<lparr>Type_name = ty, Setup = (\<lambda>n c. SetupDone), DependsOn = ds, FlexDependsOn = Some [''absent-x''],
     OnFinish = None, Close = Some None\<rparr>"

definition sample_registry :: "nat registry" where
  "sample_registry = plugin_Register ''zap'' (sample_factory ''log'' (Some [''config-yaml'']))
     (plugin_Register ''yaml'' (sample_factory ''config'' None) Map.empty)"

definition sample_config :: "nat Config" where
  "sample_config = [(''log'', [(''zap'', 1)]), (''config'', [(''yaml'', 2)])]"

definition sample_infos :: "nat pluginInfo list" where
  "sample_infos = [\<lparr>factory = sample_factory ''log'' (Some [''config-yaml'']), p_typ = ''log'', p_name = ''zap'', p_cfg = 1\<rparr>,
     \<lparr>factory = sample_factory ''config'' None, p_typ = ''config'', p_name = ''yaml'', p_cfg = 2\<rparr>]"

lemma sample_load: "\<exists>st. loadPlugins sample_registry 1000 sample_config = Ok (sample_infos, st)"
  by (simp add: loadPlugins_def sample_config_def entries_def sample_registry_def plugin_Register_def plugin_Get_def
      sample_infos_def sample_factory_def Let_def)

theorem plugin_setup_complete_witness:
  "\<exists>tr closes. SetupClosables sample_registry 1000 sample_config = (tr, Ok closes)"
proof -
  obtain st where st: "loadPlugins sample_registry 1000 sample_config = Ok (sample_infos, st)" using sample_load by blast
  show ?thesis
    by (rule plugin_setup_complete [OF st, of "rev sample_infos"])
      (simp_all add: sample_infos_def sample_factory_def strong_def flex_def key_def p_setup_def)
qed

theorem plugin_setup_order_witness:
  "\<exists>order fin. fst (SetupClosables sample_registry 1000 sample_config) = setups order @ map EvFinish fin
     \<and> admissible {''log-zap'', ''config-yaml''} {} order \<and> mset order \<subseteq># mset sample_infos"
proof -
  obtain st where st: "loadPlugins sample_registry 1000 sample_config = Ok (sample_infos, st)" using sample_load by blast
  have "key ` set sample_infos = {''log-zap'', ''config-yaml''}" by (simp add: sample_infos_def key_def)
  then show ?thesis using plugin_setup_order [OF st surjective_pairing] by auto
qed

end
