(* ===== verification/Flow_Control.thy ===== *)
theory Flow_Control
  imports Go_Prelude
begin

text \<open>
  Flow control of a stream, \<open>stream/flow_control.go\<close>, with the window sizes of \<open>stream/config.go\<close>. The
  send window is a signed counter that may go below zero by one message; the receiver gives back
  what it has consumed in portions of at least a quarter of its buffer. The two halves are composed
  with the network between them into one transition system for one direction of a stream: one
  sender (\<open>SendMsg\<close> is documented not to be called concurrently), one consumer, one goroutine that
  handles feedback frames. The composition is shown to conserve the window, to bound the data in
  flight and never to block the sender for good.
\<close>

subsection \<open>config.go\<close>

definition defaultInitWindowSize :: u32 where
  "defaultInitWindowSize = 65535"

definition maxInitWindowSize :: u32 where
  "maxInitWindowSize = 4294967295"

definition getWindowSize :: "u32 \<Rightarrow> u32" where
  "getWindowSize s =
     (if s \<le> defaultInitWindowSize then defaultInitWindowSize
      else if s \<ge> maxInitWindowSize then maxInitWindowSize
      else s)"

subsection \<open>flow\_control.go\<close>

text \<open>The channel \<open>ch\<close> holds at most one token without data.\<close>

record sendControl =
  sc_window :: int
  sc_ch :: bool

definition newSendControl :: "u32 \<Rightarrow> sendControl" where
  "newSendControl w = \<lparr>sc_window = uint w, sc_ch = False\<rparr>"

definition checkUpdate :: "int \<Rightarrow> int \<Rightarrow> bool" where
  "checkUpdate updatedWindow increment \<longleftrightarrow> updatedWindow - increment \<le> 0 \<and> updatedWindow > 0"

text \<open>\<open>UpdateWindow\<close>: the atomic addition, which tells whether to signal, and the non-blocking send.\<close>

definition UpdateWindow_add :: "u32 \<Rightarrow> sendControl \<Rightarrow> sendControl \<times> bool" where
  "UpdateWindow_add increment s =
     (let updatedWindow = sc_window s + uint increment
      in (s\<lparr>sc_window := updatedWindow\<rparr>, checkUpdate updatedWindow (uint increment)))"

definition UpdateWindow_signal :: "sendControl \<Rightarrow> sendControl" where
  "UpdateWindow_signal s = (if sc_ch s then s else s\<lparr>sc_ch := True\<rparr>)"

text \<open>\<open>GetWindow\<close>: the test of the window and the atomic subtraction.\<close>

definition GetWindow_test :: "sendControl \<Rightarrow> bool" where
  "GetWindow_test s \<longleftrightarrow> sc_window s > 0"

definition GetWindow_take :: "u32 \<Rightarrow> sendControl \<Rightarrow> sendControl" where
  "GetWindow_take w s = s\<lparr>sc_window := sc_window s - uint w\<rparr>"

record receiveControl =
  rc_buffer :: u32
  rc_unUpdated :: u32
  rc_fb :: bool

definition newReceiveControl :: "u32 \<Rightarrow> bool \<Rightarrow> receiveControl" where
  "newReceiveControl buffer fb = \<lparr>rc_buffer = buffer, rc_unUpdated = 0, rc_fb = fb\<rparr>"

text \<open>\<open>OnRecv\<close> returns the increment it passes to the feedback function, if it calls it.\<close>

definition OnRecv :: "u32 \<Rightarrow> receiveControl \<Rightarrow> receiveControl \<times> u32 option" where
  "OnRecv n r =
     (let r = r\<lparr>rc_unUpdated := rc_unUpdated r + n\<rparr> in
      if rc_unUpdated r \<ge> rc_buffer r div 4
      then (let increment = rc_unUpdated r; r = r\<lparr>rc_unUpdated := 0\<rparr>
            in (r, if rc_fb r then Some increment else None))
      else (r, None))"

subsection \<open>One direction of a stream\<close>

text \<open>The sender is outside \<open>GetWindow\<close>, at the test, between test and subtraction, or at the \<open>select\<close>.
  \<open>fc_pipe\<close> holds the sizes of the messages sent and not yet consumed (on the network or in the
  receive queue), \<open>fc_feedback\<close> the increments under way, \<open>fc_signals\<close> the signals about to be sent.\<close>

datatype send_pc = SIdle | STest u32 | STake u32 | SSelect u32

record flow =
  fc_send :: sendControl
  fc_recv :: receiveControl
  fc_pc :: send_pc
  fc_pipe :: "u32 list"
  fc_feedback :: "u32 list"
  fc_signals :: nat
  fc_closed :: bool

definition flow_start :: "u32 \<Rightarrow> flow" where
  "flow_start W = \<lparr>fc_send = newSendControl W, fc_recv = newReceiveControl W True, fc_pc = SIdle, fc_pipe = [],
     fc_feedback = [], fc_signals = 0, fc_closed = False\<rparr>"

text \<open>Steps that move a message under way on; no new message is sent by them.\<close>

inductive deliver :: "flow \<Rightarrow> flow \<Rightarrow> bool" where
  test_ok: "fc_pc f = STest w \<Longrightarrow> GetWindow_test (fc_send f) \<Longrightarrow> deliver f (f\<lparr>fc_pc := STake w\<rparr>)"
| test_wait: "fc_pc f = STest w \<Longrightarrow> \<not> GetWindow_test (fc_send f) \<Longrightarrow> deliver f (f\<lparr>fc_pc := SSelect w\<rparr>)"
| take_w: "fc_pc f = STake w \<Longrightarrow>
     deliver f (f\<lparr>fc_pc := SIdle, fc_send := GetWindow_take w (fc_send f), fc_pipe := fc_pipe f @ [w]\<rparr>)"
| token: "fc_pc f = SSelect w \<Longrightarrow> sc_ch (fc_send f) \<Longrightarrow>
     deliver f (f\<lparr>fc_pc := STest w, fc_send := (fc_send f)\<lparr>sc_ch := False\<rparr>\<rparr>)"
| consume_msg: "fc_pipe f = n # ns \<Longrightarrow> OnRecv n (fc_recv f) = (r, fb) \<Longrightarrow>
     deliver f (f\<lparr>fc_pipe := ns, fc_recv := r,
                  fc_feedback := fc_feedback f @ (case fb of None \<Rightarrow> [] | Some i \<Rightarrow> [i])\<rparr>)"
| update: "fc_feedback f = i # is \<Longrightarrow> UpdateWindow_add i (fc_send f) = (s, sig) \<Longrightarrow>
     deliver f (f\<lparr>fc_feedback := is, fc_send := s, fc_signals := fc_signals f + (if sig then 1 else 0)\<rparr>)"
| signal: "fc_signals f = Suc n \<Longrightarrow>
     deliver f (f\<lparr>fc_signals := n, fc_send := UpdateWindow_signal (fc_send f)\<rparr>)"

inductive fstep :: "nat \<Rightarrow> flow \<Rightarrow> flow \<Rightarrow> bool" for M where
  deliver: "deliver f g \<Longrightarrow> fstep M f g"
| send: "fc_pc f = SIdle \<Longrightarrow> unat w \<le> M \<Longrightarrow> fstep M f (f\<lparr>fc_pc := STest w\<rparr>)"
| close: "fstep M f (f\<lparr>fc_closed := True\<rparr>)"
| stopped: "fc_pc f = SSelect w \<Longrightarrow> fc_closed f \<Longrightarrow> fstep M f (f\<lparr>fc_pc := SIdle\<rparr>)"

inductive_cases deliver_elim: "deliver f g"
inductive_cases fstep_elim: "fstep M f g"

definition flow_reach :: "nat \<Rightarrow> u32 \<Rightarrow> flow \<Rightarrow> bool" where
  "flow_reach M W f \<longleftrightarrow> (fstep M)\<^sup>*\<^sup>* (flow_start W) f"

subsection \<open>Invariants\<close>

text \<open>The window is conserved; it is below zero by at most one message; the receiver holds back less
  than a quarter of its buffer; and a sender that waits although there is window has its token.\<close>

definition flow_inv :: "nat \<Rightarrow> u32 \<Rightarrow> flow \<Rightarrow> bool" where
  "flow_inv M W f \<longleftrightarrow>
     sc_window (fc_send f) + (\<Sum>n\<leftarrow>fc_pipe f. uint n) + uint (rc_unUpdated (fc_recv f)) + (\<Sum>i\<leftarrow>fc_feedback f. uint i) = uint W
   \<and> sc_window (fc_send f) > - int M
   \<and> (\<forall>w. fc_pc f = STake w \<longrightarrow> sc_window (fc_send f) > 0)
   \<and> (\<forall>w. fc_pc f \<in> {STest w, STake w, SSelect w} \<longrightarrow> unat w \<le> M)
   \<and> (\<forall>n \<in> set (fc_pipe f). unat n \<le> M)
   \<and> rc_buffer (fc_recv f) = W \<and> rc_fb (fc_recv f)
   \<and> (rc_unUpdated (fc_recv f) = 0 \<or> rc_unUpdated (fc_recv f) < W div 4)
   \<and> (\<forall>w. fc_pc f = SSelect w \<longrightarrow> sc_window (fc_send f) > 0 \<longrightarrow> sc_ch (fc_send f) \<or> fc_signals f > 0)"

text \<open>No wrap-around when a message of at most three quarters of the 32-bit range is added to less than
  a quarter of a buffer.\<close>

lemma unUpdated_add:
  fixes r W n :: u32
  assumes "r = 0 \<or> r < W div 4" "unat n \<le> 3 * 2 ^ 30"
  shows "uint (r + n) = uint r + uint n"
proof -
  have "unat (W div 4) \<le> 2 ^ 30" using unat_u32 [of W] by (simp add: unat_div)
  then have "unat r < 2 ^ 30" using assms(1) by (auto simp: word_less_nat_alt)
  then have "unat r + unat n < 2 ^ 32" using assms(2) by simp
  then have "unat (r + n) = unat r + unat n" by (simp add: unat_word_ariths)
  then show ?thesis by (simp only: uint_nat of_nat_add)
qed

lemma OnRecv_conserves:
  assumes "rc_unUpdated r = 0 \<or> rc_unUpdated r < rc_buffer r div 4" "unat n \<le> 3 * 2 ^ 30" "rc_fb r"
    "OnRecv n r = (r', fb)"
  shows "uint (rc_unUpdated r') + (case fb of None \<Rightarrow> 0 | Some i \<Rightarrow> uint i) = uint (rc_unUpdated r) + uint n
    \<and> rc_buffer r' = rc_buffer r \<and> rc_fb r' \<and> (rc_unUpdated r' = 0 \<or> rc_unUpdated r' < rc_buffer r' div 4)"
  using unUpdated_add [OF assms(1,2)] assms(3,4) by (auto simp: OnRecv_def Let_def split: if_splits)

lemma consume_inv:
  assumes "fc_pipe f = n # ns" "OnRecv n (fc_recv f) = (r, fb)" "flow_inv M W f" "M \<le> 3 * 2 ^ 30"
  shows "flow_inv M W (f\<lparr>fc_pipe := ns, fc_recv := r, fc_feedback := fc_feedback f @ (case fb of None \<Rightarrow> [] | Some i \<Rightarrow> [i])\<rparr>)"
proof -
  have "unat n \<le> 3 * 2 ^ 30" using assms(1,3,4) by (auto simp: flow_inv_def)
  then have c: "uint (rc_unUpdated r) + (case fb of None \<Rightarrow> 0 | Some i \<Rightarrow> uint i) = uint (rc_unUpdated (fc_recv f)) + uint n"
    "rc_buffer r = W" "rc_fb r" "rc_unUpdated r = 0 \<or> rc_unUpdated r < W div 4"
    using OnRecv_conserves [of "fc_recv f" n r fb] assms(2,3) by (auto simp: flow_inv_def)
  have "(\<Sum>i\<leftarrow>fc_feedback f @ (case fb of None \<Rightarrow> [] | Some i \<Rightarrow> [i]). uint i)
      = (\<Sum>i\<leftarrow>fc_feedback f. uint i) + (case fb of None \<Rightarrow> 0 | Some i \<Rightarrow> uint i)" by (cases fb) auto
  then show ?thesis using assms(1,3) c unfolding flow_inv_def by (intro conjI) (simp_all split del: option.split)
qed

lemma update_inv:
  assumes "fc_feedback f = i # is" "UpdateWindow_add i (fc_send f) = (s, sig)" "flow_inv M W f"
  shows "flow_inv M W (f\<lparr>fc_feedback := is, fc_send := s, fc_signals := fc_signals f + (if sig then 1 else 0)\<rparr>)"
proof -
  have s: "s = (fc_send f)\<lparr>sc_window := sc_window (fc_send f) + uint i\<rparr>"
    "sig \<longleftrightarrow> sc_window (fc_send f) \<le> 0 \<and> sc_window (fc_send f) + uint i > 0"
    using assms(2) by (auto simp: UpdateWindow_add_def checkUpdate_def Let_def)
  have "uint i \<ge> 0" by simp
  then have "sc_window (fc_send f) > - int M \<Longrightarrow> sc_window (fc_send f) + uint i > - int M"
    "sc_window (fc_send f) > 0 \<Longrightarrow> sc_window (fc_send f) + uint i > 0" by linarith+
  then show ?thesis using assms(1,3) unfolding flow_inv_def by (intro conjI) (simp_all add: s algebra_simps)
qed

lemma take_inv:
  assumes "fc_pc f = STake w" "flow_inv M W f"
  shows "flow_inv M W (f\<lparr>fc_pc := SIdle, fc_send := GetWindow_take w (fc_send f), fc_pipe := fc_pipe f @ [w]\<rparr>)"
proof -
  from assms have w: "unat w \<le> M" "sc_window (fc_send f) > 0" by (simp_all add: flow_inv_def)
  then have "uint w \<le> int M" by (simp only: uint_nat of_nat_le_iff)
  then show ?thesis using assms w unfolding flow_inv_def by (intro conjI) (simp_all add: GetWindow_take_def)
qed

lemma deliver_inv: "deliver f g \<Longrightarrow> flow_inv M W f \<Longrightarrow> M \<le> 3 * 2 ^ 30 \<Longrightarrow> flow_inv M W g"
proof (erule deliver_elim)
  fix n ns r fb
  assume "fc_pipe f = n # ns" "OnRecv n (fc_recv f) = (r, fb)" "flow_inv M W f" "M \<le> 3 * 2 ^ 30"
    and g: "g = f\<lparr>fc_pipe := ns, fc_recv := r, fc_feedback := fc_feedback f @ (case fb of None \<Rightarrow> [] | Some i \<Rightarrow> [i])\<rparr>"
  then show ?thesis unfolding g by (intro consume_inv)
next
  fix i "is" s sig
  assume "fc_feedback f = i # is" "UpdateWindow_add i (fc_send f) = (s, sig)" "flow_inv M W f"
    and g: "g = f\<lparr>fc_feedback := is, fc_send := s, fc_signals := fc_signals f + (if sig then 1 else 0)\<rparr>"
  then show ?thesis unfolding g by (intro update_inv)
next
  fix w
  assume "fc_pc f = STake w" "flow_inv M W f"
    and g: "g = f\<lparr>fc_pc := SIdle, fc_send := GetWindow_take w (fc_send f), fc_pipe := fc_pipe f @ [w]\<rparr>"
  then show ?thesis unfolding g by (intro take_inv)
qed (simp_all add: flow_inv_def GetWindow_test_def UpdateWindow_signal_def)

lemma fstep_inv: "fstep M f g \<Longrightarrow> flow_inv M W f \<Longrightarrow> M \<le> 3 * 2 ^ 30 \<Longrightarrow> flow_inv M W g"
proof (erule fstep_elim)
  assume "deliver f g" "flow_inv M W f" "M \<le> 3 * 2 ^ 30"
  then show ?thesis by (rule deliver_inv)
qed (auto simp: flow_inv_def)

lemma flow_reach_inv: "flow_reach M W f \<Longrightarrow> 0 < W \<Longrightarrow> M \<le> 3 * 2 ^ 30 \<Longrightarrow> flow_inv M W f"
  unfolding flow_reach_def
proof (induction rule: rtranclp_induct)
  case base
  then have "0 < uint W" by (simp add: word_less_def)
  then show ?case by (simp add: flow_inv_def flow_start_def newSendControl_def newReceiveControl_def)
qed (auto intro: fstep_inv)

subsection \<open>The stream never blocks for good\<close>

definition in_flight :: "flow \<Rightarrow> nat" where
  "in_flight f = 3 * length (fc_pipe f) + 2 * length (fc_feedback f) + fc_signals f"

text \<open>While the sender waits, what is under way can be delivered completely.\<close>

lemma drain:
  assumes "fc_pc f = SSelect w"
  shows "\<exists>g. deliver\<^sup>*\<^sup>* f g \<and> fc_pc g = SSelect w \<and> in_flight g = 0"
  using assms
proof (induction "in_flight f" arbitrary: f rule: less_induct)
  case less
  have step: ?case if "deliver f g" "fc_pc g = SSelect w" "in_flight g < in_flight f" for g
    using less.hyps [OF that(3,2)] that(1) by (meson converse_rtranclp_into_rtranclp)
  show ?case
  proof (cases "fc_pipe f")
    case (Cons n ns)
    obtain r fb where r: "OnRecv n (fc_recv f) = (r, fb)" by (cases "OnRecv n (fc_recv f)")
    show ?thesis
      by (rule step [OF deliver.consume_msg [OF Cons r]])
        (use less.prems Cons in \<open>auto simp: in_flight_def split: option.split\<close>)
  next
    case no_data: Nil
    show ?thesis
    proof (cases "fc_feedback f")
      case (Cons i "is")
      obtain s sig where s: "UpdateWindow_add i (fc_send f) = (s, sig)" by (cases "UpdateWindow_add i (fc_send f)")
      show ?thesis
        by (rule step [OF deliver.update [OF Cons s]]) (use less.prems Cons in \<open>auto simp: in_flight_def\<close>)
    next
      case Nil
      show ?thesis
      proof (cases "fc_signals f")
        case 0
        with no_data Nil less.prems show ?thesis by (intro exI [of _ f]) (simp add: in_flight_def)
      next
        case (Suc n)
        show ?thesis
          by (rule step [OF deliver.signal [OF Suc]]) (use less.prems Suc in \<open>auto simp: in_flight_def\<close>)
      qed
    qed
  qed
qed

text \<open>With nothing under way the window is open: the receiver holds back less than a quarter of it.\<close>

lemma quiet_window:
  assumes "flow_inv M W f" "in_flight f = 0" "0 < W"
  shows "sc_window (fc_send f) > 0"
proof -
  have "uint (rc_unUpdated (fc_recv f)) < uint W"
  proof -
    have "unat (W div 4) \<le> unat W" by (simp add: unat_div)
    moreover have "0 < unat W" using assms(3) by (simp add: word_less_nat_alt)
    ultimately have "unat (rc_unUpdated (fc_recv f)) < unat W"
      using assms(1) by (auto simp: flow_inv_def word_less_nat_alt)
    then show ?thesis by (simp only: uint_nat of_nat_less_iff)
  qed
  moreover have "sc_window (fc_send f) + uint (rc_unUpdated (fc_recv f)) = uint W"
    using assms(1,2) unfolding flow_inv_def in_flight_def by simp
  ultimately show ?thesis by linarith
qed

lemma deliver_rtranclp_inv: "deliver\<^sup>*\<^sup>* f g \<Longrightarrow> flow_inv M W f \<Longrightarrow> M \<le> 3 * 2 ^ 30 \<Longrightarrow> flow_inv M W g"
  by (induction rule: rtranclp_induct) (auto intro: deliver_inv)

text \<open>C16: flow control never blocks a sender for good. In every reachable state of a stream with a
  positive window \<open>W\<close> at both ends, a sender waiting for window gets it, and its message is sent, by
  steps that only deliver what is already under way (the consumer reads, feedback arrives, the
  signal is sent): nothing else has to happen, in particular no further message.\<close>

theorem flow_control_live:
  assumes "flow_reach M W f" "0 < W" "M \<le> 3 * 2 ^ 30" "fc_pc f = SSelect w"
  shows "\<exists>g. deliver\<^sup>*\<^sup>* f g \<and> fc_pc g = SIdle \<and> fc_pipe g = [w]"
proof -
  from drain [OF assms(4)] obtain g where g: "deliver\<^sup>*\<^sup>* f g" "fc_pc g = SSelect w" "in_flight g = 0" by blast
  have inv: "flow_inv M W g" using deliver_rtranclp_inv [OF g(1) flow_reach_inv [OF assms(1-3)] assms(3)] .
  have pos: "sc_window (fc_send g) > 0" by (rule quiet_window [OF inv g(3) assms(2)])
  then have "sc_ch (fc_send g)" using inv g(2,3) by (auto simp: flow_inv_def in_flight_def)
  let ?h1 = "g\<lparr>fc_pc := STest w, fc_send := (fc_send g)\<lparr>sc_ch := False\<rparr>\<rparr>"
  let ?h2 = "?h1\<lparr>fc_pc := STake w\<rparr>"
  let ?h3 = "?h2\<lparr>fc_pc := SIdle, fc_send := GetWindow_take w (fc_send ?h2), fc_pipe := fc_pipe ?h2 @ [w]\<rparr>"
  have "deliver g ?h1" using g(2) \<open>sc_ch (fc_send g)\<close> by (rule deliver.token)
  moreover have "deliver ?h1 ?h2" using pos by (intro deliver.test_ok) (simp_all add: GetWindow_test_def)
  moreover have "deliver ?h2 ?h3" by (intro deliver.take_w) simp
  ultimately have "deliver\<^sup>*\<^sup>* f ?h3" using g(1) by (meson rtranclp.rtrancl_into_rtrancl)
  moreover have "fc_pipe ?h3 = [w]" using g(3) by (simp add: in_flight_def)
  ultimately show ?thesis by (intro exI [of _ ?h3]) simp
qed

text \<open>C29: flow control bounds what the receiver has to hold. In every reachable state the bytes sent and
  not yet consumed are fewer than the window plus the size \<open>M\<close> of one message, and what the sender
  may still send, what is under way, what was consumed but not yet given back and what is being
  given back always add up to the window.\<close>

theorem flow_control_bounded:
  assumes "flow_reach M W f" "0 < W" "M \<le> 3 * 2 ^ 30"
  shows "(\<Sum>n\<leftarrow>fc_pipe f. uint n) < uint W + int M
    \<and> sc_window (fc_send f) + (\<Sum>n\<leftarrow>fc_pipe f. uint n) + uint (rc_unUpdated (fc_recv f)) + (\<Sum>i\<leftarrow>fc_feedback f. uint i) = uint W"
proof -
  have inv: "flow_inv M W f" by (rule flow_reach_inv [OF assms])
  have "0 \<le> (\<Sum>i\<leftarrow>fc_feedback f. uint i)" by (rule sum_list_nonneg) auto
  moreover have "0 \<le> uint (rc_unUpdated (fc_recv f))" by simp
  ultimately show ?thesis using inv unfolding flow_inv_def by linarith
qed

text \<open>A stream whose single message exhausts the window, with a second sender call waiting.\<close>

definition blocked_flow :: flow where
  "blocked_flow = (flow_start 8)\<lparr>fc_send := \<lparr>sc_window = -2, sc_ch = False\<rparr>, fc_pipe := [10], fc_pc := SSelect 4\<rparr>"

lemma blocked_flow_reach: "flow_reach 10 8 blocked_flow"
proof -
  let ?f0 = "flow_start 8"
  let ?f1 = "?f0\<lparr>fc_pc := STest 10\<rparr>"
  let ?f2 = "?f1\<lparr>fc_pc := STake 10\<rparr>"
  let ?f3 = "?f2\<lparr>fc_pc := SIdle, fc_send := GetWindow_take 10 (fc_send ?f2), fc_pipe := fc_pipe ?f2 @ [10]\<rparr>"
  let ?f4 = "?f3\<lparr>fc_pc := STest 4\<rparr>"
  let ?f5 = "?f4\<lparr>fc_pc := SSelect 4\<rparr>"
  have "fstep 10 ?f0 ?f1" by (intro fstep.send) (simp_all add: flow_start_def)
  moreover have "fstep 10 ?f1 ?f2"
    by (intro fstep.deliver deliver.test_ok) (simp_all add: flow_start_def newSendControl_def GetWindow_test_def)
  moreover have "fstep 10 ?f2 ?f3" by (intro fstep.deliver deliver.take_w) simp
  moreover have "fstep 10 ?f3 ?f4" by (intro fstep.send) simp_all
  moreover have "fstep 10 ?f4 ?f5"
    by (intro fstep.deliver deliver.test_wait)
      (simp_all add: flow_start_def newSendControl_def GetWindow_test_def GetWindow_take_def)
  ultimately have "flow_reach 10 8 ?f5"
    unfolding flow_reach_def by (meson rtranclp.rtrancl_into_rtrancl rtranclp.rtrancl_refl)
  moreover have "?f5 = blocked_flow"
    by (simp add: blocked_flow_def flow_start_def newSendControl_def GetWindow_take_def)
  ultimately show ?thesis by simp
qed

theorem flow_control_live_witness:
  "\<exists>g. deliver\<^sup>*\<^sup>* blocked_flow g \<and> fc_pc g = SIdle \<and> fc_pipe g = [4]"
  by (rule flow_control_live [OF blocked_flow_reach]) (simp_all add: blocked_flow_def)

theorem flow_control_bounded_witness: "flow_reach 10 8 blocked_flow \<and> (10 :: int) < 8 + 10"
  using flow_control_bounded [OF blocked_flow_reach] blocked_flow_reach by (simp add: blocked_flow_def)

end
