(* ===== verification/Stream_Dispatcher.thy ===== *)
theory Stream_Dispatcher
  imports Stream_Codec Flow_Control Fifo_Queue
begin

text \<open>
  The server side of streaming, \<open>stream/server.go\<close>: the dispatcher that keeps the open streams of all
  connections and hands every frame to the stream it belongs to, and the operations of a server
  stream. A \<open>*serverStream\<close> is an index into the list of streams created so far, so that the table of
  the dispatcher and the goroutine that runs the handler share it. The codec, the transport and the
  deserialization that the server was configured with are the fields of \<open>stream_env\<close>. The locks
  make each operation on the table atomic; frames handed to the transport are recorded.
\<close>

record response =
  rsp_data :: bytes
  rsp_err :: "go_error option"

definition EOF :: go_error where
  "EOF = OtherError ''EOF'' None"

record stream_env =
  env_Encode :: "msg \<Rightarrow> bytes \<Rightarrow> (go_error, bytes) res"
  env_Send :: "bytes \<Rightarrow> go_error option"
  env_Decode :: "bytes \<Rightarrow> (go_error, go_any) res"
  env_MaxWindowSize :: u32
  env_pb :: pb_consts
  env_RetServerSystemErr :: u32
  env_STREAM_CLOSE :: u32

text \<open>The closed state of the channel \<open>done\<close> is kept in the receive queue that was created with it.\<close>

record serverStream =
  ss_ctx :: msg
  ss_streamID :: u32
  ss_recvQueue :: "response Queue"
  ss_err :: "go_error option"
  ss_rControl :: "receiveControl option"
  ss_sControl :: "sendControl option"

type_synonym stream_table = "(string \<times> (u32 \<times> nat) list) list"

record streamDispatcher =
  addrToServerStream :: stream_table
  sd_objs :: "serverStream list"
  sd_running :: "(string \<times> u32 \<times> nat) list"
  sd_sent :: "bytes list"

datatype handler_result = Returned go_error | Panicked

definition NewStreamDispatcher :: streamDispatcher where
  "NewStreamDispatcher = \<lparr>addrToServerStream = [], sd_objs = [], sd_running = [], sd_sent = []\<rparr>"

definition ErrServerNoResponse :: "stream_env \<Rightarrow> go_error" where
  "ErrServerNoResponse env = NewFrameError (RetOK (pb_codes (env_pb env))) ''server no response''"

definition sys_err :: "stream_env \<Rightarrow> string \<Rightarrow> go_error" where
  "sys_err env text = NewFrameError (env_RetServerSystemErr env) text"

definition newFrameHead :: "pb_consts \<Rightarrow> u8 \<Rightarrow> u32 \<Rightarrow> FrameHead" where
  "newFrameHead pb t i = \<lparr>FrameType = TRPC_STREAM_FRAME pb, StreamFrameType = t, TotalLen = 0, HeaderLen = 0,
     StreamID = i, ProtocolVersion = 0, FrameReserved = 0\<rparr>"

subsection \<open>The table\<close>

definition storeServerStream :: "string \<Rightarrow> u32 \<Rightarrow> nat \<Rightarrow> stream_table \<Rightarrow> stream_table" where
  "storeServerStream addr sid p t =
     (case map_of t addr of
        None \<Rightarrow> AList.update addr [(sid, p)] t
      | Some ids \<Rightarrow> AList.update addr (AList.update sid p ids) t)"

definition deleteServerStream :: "string \<Rightarrow> u32 \<Rightarrow> stream_table \<Rightarrow> stream_table" where
  "deleteServerStream addr sid t =
     (case map_of t addr of
        None \<Rightarrow> t
      | Some ids \<Rightarrow>
          (let ids' = (case map_of ids sid of None \<Rightarrow> ids | Some _ \<Rightarrow> AList.delete sid ids)
           in if length ids' = 0 then AList.delete addr t else AList.update addr ids' t))"

definition loadServerStream :: "stream_env \<Rightarrow> string \<Rightarrow> u32 \<Rightarrow> stream_table \<Rightarrow> (go_error, nat) res" where
  "loadServerStream env addr sid t =
     (case map_of t addr of
        None \<Rightarrow> Err (sys_err env ''no such addr'')
      | Some ids \<Rightarrow> (case map_of ids sid of None \<Rightarrow> Err (sys_err env ''no such stream ID'') | Some p \<Rightarrow> Ok p))"

subsection \<open>serverStream\<close>

definition newServerStream :: "msg \<Rightarrow> u32 \<Rightarrow> serverStream" where
  "newServerStream ctx sid = \<lparr>ss_ctx = ctx, ss_streamID = sid, ss_recvQueue = queue_New, ss_err = None,
     ss_rControl = None, ss_sControl = None\<rparr>"

text \<open>\<open>Encode\<close> and \<open>Send\<close> one after the other, as \<open>CloseSend\<close>, \<open>feedback\<close> and \<open>handleInit\<close> do: the frames sent
  and the error.\<close>

definition encode_send :: "stream_env \<Rightarrow> msg \<Rightarrow> bytes \<Rightarrow> bytes list \<times> (go_error, unit) res" where
  "encode_send env m body =
     (case env_Encode env m body of
        Err e \<Rightarrow> ([], Err e)
      | Panic \<Rightarrow> ([], Panic)
      | Ok buf \<Rightarrow> ([buf], case env_Send env buf of None \<Rightarrow> Ok () | Some e \<Rightarrow> Err e))"

definition reply_msg :: "serverStream \<Rightarrow> msg" where
  "reply_msg ss = (WithCloneContextAndMessage (Some (ss_ctx ss)))\<lparr>localAddr := localAddr (ss_ctx ss),
     remoteAddr := remoteAddr (ss_ctx ss)\<rparr>"

definition ss_CloseSend :: "stream_env \<Rightarrow> serverStream \<Rightarrow> u32 \<Rightarrow> u32 \<Rightarrow> string \<Rightarrow> bytes list \<times> (go_error, unit) res" where
  "ss_CloseSend env ss closeType ret message =
     encode_send env ((reply_msg ss)\<lparr>
       frameHead := TrpcFrameHead (newFrameHead (env_pb env) (TRPC_STREAM_FRAME_CLOSE (env_pb env)) (ss_streamID ss)),
       streamFrame := StreamClose \<lparr>cm_CloseType = closeType, cm_Ret = ret, cm_FuncRet = 0, cm_Msg = message,
                                   cm_MessageType = 0, cm_TransInfo = None\<rparr>\<rparr>) []"

definition ss_feedback :: "stream_env \<Rightarrow> serverStream \<Rightarrow> u32 \<Rightarrow> bytes list \<times> (go_error, unit) res" where
  "ss_feedback env ss w =
     encode_send env ((reply_msg ss)\<lparr>streamID := ss_streamID ss,
       frameHead := TrpcFrameHead (newFrameHead (env_pb env) (TRPC_STREAM_FRAME_FEEDBACK (env_pb env)) (ss_streamID ss)),
       streamFrame := StreamFeedBack \<lparr>fb_WindowSizeIncrement = w\<rparr>\<rparr>) []"

definition setSendControl :: "msg \<Rightarrow> serverStream \<Rightarrow> serverStream \<times> (go_error, u32) res" where
  "setSendControl m ss =
     (case streamFrame m of
        StreamInit im \<Rightarrow>
          if im_InitWindowSize im = 0 then (ss\<lparr>ss_rControl := None, ss_sControl := None\<rparr>, Ok 0)
          else (ss\<lparr>ss_sControl := Some (newSendControl (im_InitWindowSize im))\<rparr>, Ok (im_InitWindowSize im))
      | _ \<Rightarrow> (ss, Err (OtherError ''stream frame assert failed'' None)))"

text \<open>What \<open>RecvMsg\<close> does with the result of \<open>recvQueue.Get\<close>. The feedback function of the flow control
  is \<open>feedback\<close>.\<close>

definition ss_RecvMsg ::
    "stream_env \<Rightarrow> serverStream \<Rightarrow> response option \<Rightarrow> serverStream \<times> bytes list \<times> (go_error, go_any) res" where
  "ss_RecvMsg env ss got =
     (case got of
        None \<Rightarrow> (ss, [], Err (case ss_err ss of Some e \<Rightarrow> e | None \<Rightarrow> sys_err env ''stream is already closed''))
      | Some resp \<Rightarrow>
          (case rsp_err resp of
             Some e \<Rightarrow> (ss, [], Err e)
           | None \<Rightarrow>
               (case ss_rControl ss of
                  None \<Rightarrow> (ss, [], env_Decode env (rsp_data resp))
                | Some rc \<Rightarrow>
                    (let (rc', fb) = OnRecv (word_of_nat (length (rsp_data resp))) rc;
                         ss = ss\<lparr>ss_rControl := Some rc'\<rparr>
                     in case fb of
                          None \<Rightarrow> (ss, [], env_Decode env (rsp_data resp))
                        | Some w \<Rightarrow>
                            (case ss_feedback env ss w of
                               (out, Ok _) \<Rightarrow> (ss, out, env_Decode env (rsp_data resp))
                             | (out, Err e) \<Rightarrow> (ss, out, Err e)
                             | (out, Panic) \<Rightarrow> (ss, out, Panic))))))"

text \<open>\<open>SendMsg\<close> after serialization and compression; \<open>None\<close> while it waits for window.\<close>

definition ss_SendMsg :: "stream_env \<Rightarrow> serverStream \<Rightarrow> bytes \<Rightarrow> (serverStream \<times> bytes list \<times> (go_error, unit) res) option" where
  "ss_SendMsg env ss body =
     (case ss_err ss of
        Some e \<Rightarrow> Some (ss, [], Err (TrpcError ErrorTypeFramework (err_Code (pb_codes (env_pb env)) (Some e)) ''stream sending error'' ''trpc'' (Some e)))
      | None \<Rightarrow>
          if (case ss_sControl ss of None \<Rightarrow> False | Some sc \<Rightarrow> \<not> GetWindow_test sc) then None
          else Some (let m = (reply_msg ss)\<lparr>compressType := compressType (ss_ctx ss), streamID := ss_streamID ss,
                     frameHead := TrpcFrameHead (newFrameHead (env_pb env) (TRPC_STREAM_FRAME_DATA (env_pb env)) (ss_streamID ss))\<rparr>;
               ss = ss\<lparr>ss_sControl := map_option (GetWindow_take (word_of_nat (length body))) (ss_sControl ss)\<rparr>
           in case encode_send env m body of (out, r) \<Rightarrow> (ss, out, r)))"

subsection \<open>The handlers\<close>

definition update_obj :: "nat \<Rightarrow> (serverStream \<Rightarrow> serverStream) \<Rightarrow> streamDispatcher \<Rightarrow> streamDispatcher" where
  "update_obj p f sd = sd\<lparr>sd_objs := (sd_objs sd)[p := f (sd_objs sd ! p)]\<rparr>"

definition enqueue :: "response \<Rightarrow> serverStream \<Rightarrow> serverStream" where
  "enqueue r ss = ss\<lparr>ss_recvQueue := queue_Put r (ss_recvQueue ss)\<rparr>"

definition close_stream :: "serverStream \<Rightarrow> serverStream" where
  "close_stream ss = ss\<lparr>ss_recvQueue := (ss_recvQueue ss)\<lparr>done_closed := True\<rparr>\<rparr>"

definition init_response :: "stream_env \<Rightarrow> u32 \<Rightarrow> serverStream \<Rightarrow> u32 \<Rightarrow> msg" where
  "init_response env w ss cw = (reply_msg ss)\<lparr>streamID := ss_streamID ss,
     frameHead := TrpcFrameHead (newFrameHead (env_pb env) (TRPC_STREAM_FRAME_INIT (env_pb env)) (ss_streamID ss)),
     streamFrame := StreamInit \<lparr>im_RequestMeta = None, im_ResponseMeta = Some \<lparr>irs_Ret = 0, irs_ErrorMsg = []\<rparr>,
       im_ContentType = 0, im_ContentEncoding = 0, im_InitWindowSize = (if cw = 0 then 0 else w)\<rparr>\<rparr>"

definition handleInit :: "stream_env \<Rightarrow> msg \<Rightarrow> streamDispatcher \<Rightarrow> streamDispatcher \<times> handler_result" where
  "handleInit env oldMsg sd =
     (let m = CopyMsg (pb_codes (env_pb env)) resetDefault oldMsg;
          w = getWindowSize (env_MaxWindowSize env);
          ss = (newServerStream m (streamID m))\<lparr>ss_rControl := Some (newReceiveControl w True)\<rparr>
      in case AddrToKey (localAddr m) (remoteAddr m) :: (unit, string) res of
           Ok addr \<Rightarrow>
             (let p = length (sd_objs sd);
                  sd = sd\<lparr>addrToServerStream := storeServerStream addr (streamID m) p (addrToServerStream sd)\<rparr>;
                  (ss, r) = setSendControl m ss;
                  sd = sd\<lparr>sd_objs := sd_objs sd @ [ss]\<rparr>
              in case r of
                   Ok cw \<Rightarrow>
                     (case encode_send env (init_response env w ss cw) [] of
                        (out, Ok _) \<Rightarrow> (sd\<lparr>sd_sent := sd_sent sd @ out, sd_running := sd_running sd @ [(addr, streamID m, p)]\<rparr>,
                                        Returned (ErrServerNoResponse env))
                      | (out, Err e) \<Rightarrow> (sd\<lparr>sd_sent := sd_sent sd @ out\<rparr>, Returned e)
                      | (out, Panic) \<Rightarrow> (sd, Panicked))
                 | Err e \<Rightarrow> (sd, Returned e)
                 | Panic \<Rightarrow> (sd, Panicked))
         | _ \<Rightarrow> (sd, Panicked))"

definition with_stream ::
    "stream_env \<Rightarrow> msg \<Rightarrow> streamDispatcher \<Rightarrow> (go_error \<Rightarrow> handler_result) \<Rightarrow> (nat \<Rightarrow> streamDispatcher \<times> handler_result)
      \<Rightarrow> streamDispatcher \<times> handler_result" where
  "with_stream env m sd onErr f =
     (case AddrToKey (localAddr m) (remoteAddr m) :: (unit, string) res of
        Ok addr \<Rightarrow>
          (case loadServerStream env addr (streamID m) (addrToServerStream sd) of
             Ok p \<Rightarrow> f p
           | Err e \<Rightarrow> (sd, onErr e)
           | Panic \<Rightarrow> (sd, Panicked))
      | _ \<Rightarrow> (sd, Panicked))"

definition handleData :: "stream_env \<Rightarrow> msg \<Rightarrow> bytes \<Rightarrow> streamDispatcher \<Rightarrow> streamDispatcher \<times> handler_result" where
  "handleData env m req sd =
     with_stream env m sd Returned (\<lambda>p.
       (update_obj p (enqueue \<lparr>rsp_data = req, rsp_err = None\<rparr>) sd, Returned (ErrServerNoResponse env)))"

definition handleClose :: "stream_env \<Rightarrow> msg \<Rightarrow> streamDispatcher \<Rightarrow> streamDispatcher \<times> handler_result" where
  "handleClose env m sd =
     with_stream env m sd (\<lambda>e. Returned (ErrServerNoResponse env)) (\<lambda>p.
       (update_obj p (enqueue \<lparr>rsp_data = [], rsp_err = Some (case ServerRspErr (pb_codes (env_pb env)) m of Some e \<Rightarrow> e | None \<Rightarrow> EOF)\<rparr>) sd,
        Returned (ErrServerNoResponse env)))"

definition apply_feedback :: "u32 \<Rightarrow> serverStream \<Rightarrow> serverStream" where
  "apply_feedback increment ss = ss\<lparr>ss_sControl := map_option (\<lambda>sc.
     let (sc, sig) = UpdateWindow_add increment sc in if sig then UpdateWindow_signal sc else sc) (ss_sControl ss)\<rparr>"

definition handleFeedback :: "stream_env \<Rightarrow> msg \<Rightarrow> streamDispatcher \<Rightarrow> streamDispatcher \<times> handler_result" where
  "handleFeedback env m sd =
     with_stream env m sd Returned (\<lambda>p.
       case streamFrame m of
         StreamFeedBack fb \<Rightarrow>
           (update_obj p (apply_feedback (fb_WindowSizeIncrement fb)) sd, Returned (ErrServerNoResponse env))
       | _ \<Rightarrow> (sd, Returned (OtherError ''stream frame assert failed'' None)))"

text \<open>\<open>handleError\<close>: every stream of the connection gets the error and is closed, then forgotten.\<close>

fun fail_streams :: "go_error option \<Rightarrow> nat list \<Rightarrow> streamDispatcher \<Rightarrow> streamDispatcher" where
  "fail_streams e [] sd = sd"
| "fail_streams e (p # ps) sd = fail_streams e ps (update_obj p (\<lambda>ss. close_stream (ss\<lparr>ss_err := e\<rparr>)) sd)"

definition handleError :: "stream_env \<Rightarrow> msg \<Rightarrow> streamDispatcher \<Rightarrow> streamDispatcher \<times> handler_result" where
  "handleError env m sd =
     (case AddrToKey (localAddr m) (remoteAddr m) :: (unit, string) res of
        Ok addr \<Rightarrow>
          (case map_of (addrToServerStream sd) addr of
             None \<Rightarrow> (sd, Returned (sys_err env ''no such addr''))
           | Some ids \<Rightarrow>
               (let sd = fail_streams (Some (case ServerRspErr (pb_codes (env_pb env)) m of Some e \<Rightarrow> e | None \<Rightarrow> NilError)) (map snd ids) sd
                in (sd\<lparr>addrToServerStream := AList.delete addr (addrToServerStream sd)\<rparr>, Returned (ErrServerNoResponse env))))
      | _ \<Rightarrow> (sd, Panicked))"

definition handleByStreamFrameType ::
    "stream_env \<Rightarrow> msg \<Rightarrow> u8 \<Rightarrow> bytes \<Rightarrow> streamDispatcher \<Rightarrow> streamDispatcher \<times> handler_result" where
  "handleByStreamFrameType env m t req sd =
     (let pb = env_pb env in
      if t = TRPC_STREAM_FRAME_INIT pb then handleInit env m sd
      else if t = TRPC_STREAM_FRAME_DATA pb then handleData env m req sd
      else if t = TRPC_STREAM_FRAME_CLOSE pb then handleClose env m sd
      else if t = TRPC_STREAM_FRAME_FEEDBACK pb then handleFeedback env m sd
      else (sd, Returned (sys_err env ''unknown frame type'')))"

definition StreamHandleFunc :: "stream_env \<Rightarrow> msg \<Rightarrow> bytes \<Rightarrow> streamDispatcher \<Rightarrow> streamDispatcher \<times> handler_result" where
  "StreamHandleFunc env m req sd =
     (case frameHead m of
        TrpcFrameHead h \<Rightarrow> handleByStreamFrameType env (m\<lparr>frameHead := FrameHeadNil\<rparr>) (StreamFrameType h) req sd
      | _ \<Rightarrow>
          if ServerRspErr (pb_codes (env_pb env)) m \<noteq> None then handleError env m sd
          else (sd, Returned (sys_err env ''frameHead is not contained in msg'')))"

text \<open>\<open>startStreamHandler\<close> once the user's handler, with the configured filters, has returned \<open>herr\<close>: the
  close frame is sent, then the deferred clean-up runs, also when reading a typed nil error panics.\<close>

definition startStreamHandler ::
    "stream_env \<Rightarrow> string \<Rightarrow> u32 \<Rightarrow> nat \<Rightarrow> go_error option \<Rightarrow> streamDispatcher \<Rightarrow> streamDispatcher \<times> bool" where
  "startStreamHandler env addr sid p herr sd =
     (let pb = env_pb env; ss = sd_objs sd ! p;
          sent = (case herr of
                    None \<Rightarrow> ss_CloseSend env ss (env_STREAM_CLOSE env) 0 []
                  | Some e \<Rightarrow>
                      (case errors_As e of
                         None \<Rightarrow> ss_CloseSend env ss (TRPC_STREAM_RESET pb) 0 (err_Error e)
                       | Some NilError \<Rightarrow> ([], Panic)
                       | Some fe \<Rightarrow> ss_CloseSend env ss (TRPC_STREAM_RESET pb) (e_Code fe) (e_Msg fe)));
          sd = sd\<lparr>sd_sent := sd_sent sd @ fst sent\<rparr>;
          sd = (case snd sent of Err e \<Rightarrow> update_obj p (\<lambda>ss. ss\<lparr>ss_err := Some e\<rparr>) sd | _ \<Rightarrow> sd);
          sd = sd\<lparr>addrToServerStream := deleteServerStream addr sid (addrToServerStream sd)\<rparr>
      in (update_obj p close_stream sd, snd sent = Panic))"

subsection \<open>The table as a map\<close>

definition find_stream :: "string \<Rightarrow> u32 \<Rightarrow> stream_table \<Rightarrow> nat option" where
  "find_stream addr sid t = (case map_of t addr of None \<Rightarrow> None | Some ids \<Rightarrow> map_of ids sid)"

lemma find_store:
  "find_stream a i (storeServerStream addr sid p t) = (if (a, i) = (addr, sid) then Some p else find_stream a i t)"
  by (auto simp: find_stream_def storeServerStream_def update_conv split: option.splits)

lemma find_delete:
  "find_stream a i (deleteServerStream addr sid t) = (if (a, i) = (addr, sid) then None else find_stream a i t)"
  by (auto simp: find_stream_def deleteServerStream_def Let_def update_conv delete_conv'
      dest: AList_delete_Nil split: option.splits if_splits)

lemma find_delete_conn:
  "find_stream a i (AList.delete addr t) = (if a = addr then None else find_stream a i t)"
  by (auto simp: find_stream_def delete_conv' split: option.splits)

interpretation opened: keyed_table "\<lambda>_. True" "\<lambda>_. True" "\<lambda>k. k" "\<lambda>(a, i). find_stream a i"
    "\<lambda>(a, i) p t. Ok (storeServerStream a i p t)"
  by unfold_locales (auto simp: find_store)

lemma load_find: "loadServerStream env addr sid t = Ok p \<longleftrightarrow> find_stream addr sid t = Some p"
  "loadServerStream env addr sid t \<noteq> Panic"
  by (auto simp: loadServerStream_def find_stream_def split: option.splits)

subsection \<open>Runs of the dispatcher\<close>

text \<open>Frames arrive, handlers that were started return, and handlers that run receive messages: these
  are interleaved in any order. The log records what each stream's handler has received.\<close>

datatype sd_op = OpFrame msg bytes | OpReturn nat "go_error option" | OpRecv nat

fun sd_step :: "stream_env \<Rightarrow> streamDispatcher \<times> (nat \<times> response) list \<Rightarrow> sd_op \<Rightarrow> streamDispatcher \<times> (nat \<times> response) list" where
  "sd_step env (sd, lg) (OpFrame m req) = (fst (StreamHandleFunc env m req sd), lg)"
| "sd_step env (sd, lg) (OpReturn n herr) =
     (if n < length (sd_running sd)
      then case sd_running sd ! n of (addr, sid, p) \<Rightarrow>
        (fst (startStreamHandler env addr sid p herr (sd\<lparr>sd_running := take n (sd_running sd) @ drop (Suc n) (sd_running sd)\<rparr>)), lg)
      else (sd, lg))"
| "sd_step env (sd, lg) (OpRecv p) =
     (if p < length (sd_objs sd)
      then case queue_TryGet (ss_recvQueue (sd_objs sd ! p)) of
             None \<Rightarrow> (sd, lg)
           | Some (q, r) \<Rightarrow>
               (case ss_RecvMsg env ((sd_objs sd ! p)\<lparr>ss_recvQueue := q\<rparr>) (Some r) of (ss, out, res) \<Rightarrow>
                  (sd\<lparr>sd_objs := (sd_objs sd)[p := ss], sd_sent := sd_sent sd @ out\<rparr>, lg @ [(p, r)]))
      else (sd, lg))"

definition sd_run :: "stream_env \<Rightarrow> sd_op list \<Rightarrow> streamDispatcher \<times> (nat \<times> response) list" where
  "sd_run env ops = foldl (sd_step env) (NewStreamDispatcher, []) ops"

definition addressed :: "msg \<Rightarrow> string \<Rightarrow> u32 \<Rightarrow> bool" where
  "addressed m addr sid \<longleftrightarrow> (AddrToKey (localAddr m) (remoteAddr m) :: (unit, string) res) = Ok addr \<and> streamID m = sid"

text \<open>What a stream should receive, read off the frames alone: an init frame starts afresh, data and
  close frames of the same connection and stream are appended.\<close>

fun inbox_step :: "stream_env \<Rightarrow> string \<Rightarrow> u32 \<Rightarrow> response list \<Rightarrow> sd_op \<Rightarrow> response list" where
  "inbox_step env addr sid q (OpFrame m req) =
     (case frameHead m of
        TrpcFrameHead h \<Rightarrow>
          (let t = StreamFrameType h; pb = env_pb env in
           if \<not> addressed m addr sid then q
           else if t = TRPC_STREAM_FRAME_INIT pb then []
           else if t = TRPC_STREAM_FRAME_DATA pb then q @ [\<lparr>rsp_data = req, rsp_err = None\<rparr>]
           else if t = TRPC_STREAM_FRAME_CLOSE pb then
             q @ [\<lparr>rsp_data = [], rsp_err = Some (case ServerRspErr (pb_codes pb) m of Some e \<Rightarrow> e | None \<Rightarrow> EOF)\<rparr>]
           else q)
      | _ \<Rightarrow> q)"
| "inbox_step env addr sid q (OpReturn n e) = q"
| "inbox_step env addr sid q (OpRecv p) = q"

definition inbox :: "stream_env \<Rightarrow> string \<Rightarrow> u32 \<Rightarrow> sd_op list \<Rightarrow> response list" where
  "inbox env addr sid ops = foldl (inbox_step env addr sid) [] ops"

definition received :: "nat \<Rightarrow> (nat \<times> response) list \<Rightarrow> response list" where
  "received p lg = map snd (filter (\<lambda>x. fst x = p) lg)"

definition queued :: "streamDispatcher \<Rightarrow> nat \<Rightarrow> response list" where
  "queued sd p = items (ss_recvQueue (sd_objs sd ! p))"

text \<open>The invariant, relative to the frames \<open>box\<close> each stream should have got.\<close>

definition sd_inv :: "(string \<Rightarrow> u32 \<Rightarrow> response list) \<Rightarrow> streamDispatcher \<times> (nat \<times> response) list \<Rightarrow> bool" where
  "sd_inv box s \<longleftrightarrow> (case s of (sd, lg) \<Rightarrow>
     (\<forall>a i p. find_stream a i (addrToServerStream sd) = Some p \<longrightarrow>
        p < length (sd_objs sd) \<and> received p lg @ queued sd p = box a i)
   \<and> (\<forall>a i b j p. find_stream a i (addrToServerStream sd) = Some p \<longrightarrow> find_stream b j (addrToServerStream sd) = Some p \<longrightarrow> (a, i) = (b, j))
   \<and> (\<forall>x \<in> set lg. fst x < length (sd_objs sd)))"

lemma sd_invI:
  assumes "\<And>a i p. find_stream a i (addrToServerStream sd) = Some p \<Longrightarrow> p < length (sd_objs sd)"
    and "\<And>a i p. find_stream a i (addrToServerStream sd) = Some p \<Longrightarrow> received p lg @ queued sd p = box a i"
    and "\<And>a i b j p. find_stream a i (addrToServerStream sd) = Some p \<Longrightarrow> find_stream b j (addrToServerStream sd) = Some p \<Longrightarrow> a = b \<and> i = j"
    and "\<And>x. x \<in> set lg \<Longrightarrow> fst x < length (sd_objs sd)"
  shows "sd_inv box (sd, lg)"
  unfolding sd_inv_def using assms by simp

lemma sd_invD:
  assumes "sd_inv box (sd, lg)"
  shows "find_stream a i (addrToServerStream sd) = Some p \<Longrightarrow> p < length (sd_objs sd)"
    and "find_stream a i (addrToServerStream sd) = Some p \<Longrightarrow> received p lg @ queued sd p = box a i"
    and "find_stream a i (addrToServerStream sd) = Some p \<Longrightarrow> find_stream b j (addrToServerStream sd) = Some p \<Longrightarrow> a = b \<and> i = j"
    and "x \<in> set lg \<Longrightarrow> fst x < length (sd_objs sd)"
  using assms unfolding sd_inv_def by (simp, simp, blast, simp)

lemma items_simps [simp]: "items (queue_Put r q) = items q @ [r]"
  by (simp add: queue_Put_def Put_locked_def Put_notify_def Let_def)

lemma update_obj_simps [simp]:
  "addrToServerStream (update_obj p f sd) = addrToServerStream sd"
  "length (sd_objs (update_obj p f sd)) = length (sd_objs sd)"
  "sd_running (update_obj p f sd) = sd_running sd"
  "p' < length (sd_objs sd) \<Longrightarrow> sd_objs (update_obj p f sd) ! p' = (if p' = p then f (sd_objs sd ! p) else sd_objs sd ! p')"
  by (simp_all add: update_obj_def)

text \<open>Updates that leave the table alone and change no queue keep the invariant.\<close>

lemma sd_inv_quiet:
  assumes "sd_inv box (sd, lg)" "length (sd_objs sd') = length (sd_objs sd)"
    "\<And>a i. find_stream a i (addrToServerStream sd') = find_stream a i (addrToServerStream sd) \<or> find_stream a i (addrToServerStream sd') = None"
    "\<And>p. p < length (sd_objs sd) \<Longrightarrow> queued sd' p = queued sd p"
  shows "sd_inv box (sd', lg)"
proof -
  have "find_stream a i (addrToServerStream sd) = Some p" if "find_stream a i (addrToServerStream sd') = Some p" for a i p
    using assms(3) [of a i] that by auto
  note f = this and inv = sd_invD [OF assms(1)]
  show ?thesis
  proof (rule sd_invI)
    fix a i p assume p: "find_stream a i (addrToServerStream sd') = Some p"
    show "p < length (sd_objs sd')" using inv(1) [OF f [OF p]] assms(2) by simp
    show "received p lg @ queued sd' p = box a i" using inv(1,2) [OF f [OF p]] assms(4) by simp
    show "a = b \<and> i = j" if "find_stream b j (addrToServerStream sd') = Some p" for b j
      using inv(3) [OF f [OF p] f [OF that]] .
  qed (use inv(4) assms(2) in auto)
qed

lemma queued_update: "p < length (sd_objs sd) \<Longrightarrow> (\<And>ss. items (ss_recvQueue (f ss)) = items (ss_recvQueue ss)) \<Longrightarrow>
    queued (update_obj p' f sd) p = queued sd p"
  by (simp add: queued_def)

lemma queued_simps [simp]:
  "queued (sd\<lparr>addrToServerStream := t\<rparr>) p = queued sd p" "queued (sd\<lparr>sd_sent := x\<rparr>) p = queued sd p"
  "queued (sd\<lparr>sd_running := y\<rparr>) p = queued sd p"
  by (simp_all add: queued_def)

lemma fail_streams_simps [simp]:
  "addrToServerStream (fail_streams e ps sd) = addrToServerStream sd"
  "length (sd_objs (fail_streams e ps sd)) = length (sd_objs sd)"
  by (induction ps arbitrary: sd) simp_all

lemma fail_streams_queued: "p < length (sd_objs sd) \<Longrightarrow> queued (fail_streams e ps sd) p = queued sd p"
  by (induction ps arbitrary: sd) (simp_all add: queued_update close_stream_def)

text \<open>One stream gets one more response.\<close>

lemma sd_inv_enqueue:
  assumes inv: "sd_inv box (sd, lg)" and f: "find_stream addr sid (addrToServerStream sd) = Some p"
  shows "sd_inv (\<lambda>a i. if (a, i) = (addr, sid) then box a i @ [r] else box a i) (update_obj p (enqueue r) sd, lg)"
proof (rule sd_invI)
  note d = sd_invD [OF inv]
  fix a i p' assume "find_stream a i (addrToServerStream (update_obj p (enqueue r) sd)) = Some p'"
  then have p': "find_stream a i (addrToServerStream sd) = Some p'" by simp
  show "p' < length (sd_objs (update_obj p (enqueue r) sd))" using d(1) [OF p'] by simp
  show "a = b \<and> i = j" if "find_stream b j (addrToServerStream (update_obj p (enqueue r) sd)) = Some p'" for b j
    using that d(3) [OF p', of b j] by simp
  have iff: "p' = p \<longleftrightarrow> (a, i) = (addr, sid)"
  proof
    assume "p' = p"
    then show "(a, i) = (addr, sid)" using d(3) [OF p', of addr sid] f by simp
  next
    assume "(a, i) = (addr, sid)"
    then show "p' = p" using p' f by simp
  qed
  have "queued (update_obj p (enqueue r) sd) p' = (if p' = p then queued sd p' @ [r] else queued sd p')"
    using d(1) [OF p'] by (simp add: queued_def enqueue_def)
  then show "received p' lg @ queued (update_obj p (enqueue r) sd) p' = (if (a, i) = (addr, sid) then box a i @ [r] else box a i)"
    using iff d(2) [OF p', symmetric] by (cases "(a, i) = (addr, sid)") auto
qed (use sd_invD(4) [OF inv] in auto)

text \<open>A new stream starts with nothing.\<close>

lemma sd_inv_new:
  assumes inv: "sd_inv box (sd, lg)" and ss: "items (ss_recvQueue ss) = []"
    and sd': "sd_objs sd' = sd_objs sd @ [ss]"
      "addrToServerStream sd' = storeServerStream addr sid (length (sd_objs sd)) (addrToServerStream sd)"
  shows "sd_inv (\<lambda>a i. if (a, i) = (addr, sid) then [] else box a i) (sd', lg)"
proof (rule sd_invI)
  note d = sd_invD [OF inv]
  fix a i p assume p: "find_stream a i (addrToServerStream sd') = Some p"
  then have c: "(a, i) = (addr, sid) \<and> p = length (sd_objs sd) \<or> (a, i) \<noteq> (addr, sid) \<and> find_stream a i (addrToServerStream sd) = Some p"
    by (auto simp: sd'(2) find_store split: if_splits)
  then show "p < length (sd_objs sd')" using d(1) by (auto simp: sd'(1) less_Suc_eq)
  have "received (length (sd_objs sd)) lg = []" using d(4) by (fastforce simp: received_def filter_empty_conv)
  then show "received p lg @ queued sd' p = (if (a, i) = (addr, sid) then [] else box a i)"
    using c d(1,2) [of a i p] ss by (auto simp: queued_def sd'(1) nth_append)
  show "a = b \<and> i = j" if "find_stream b j (addrToServerStream sd') = Some p" for b j
    using that c d(1) [of a i p] d(1) [of b j p] d(3) [of a i p b j] by (auto simp: sd'(2) find_store split: if_splits)
qed (use sd_invD(4) [OF inv] sd'(1) in \<open>auto intro: less_SucI\<close>)

text \<open>A handler takes the first response of its queue.\<close>

lemma RecvMsg_queue [simp]: "ss_RecvMsg env ss got = (ss', out, res) \<Longrightarrow> ss_recvQueue ss' = ss_recvQueue ss"
  by (auto simp: ss_RecvMsg_def Let_def split: option.splits prod.splits res.splits)

lemma sd_inv_recv:
  assumes inv: "sd_inv box (sd, lg)" and p: "p < length (sd_objs sd)" "items (ss_recvQueue (sd_objs sd ! p)) = r # rs"
    and sd': "sd_objs sd' = (sd_objs sd)[p := ss]" "items (ss_recvQueue ss) = rs" "addrToServerStream sd' = addrToServerStream sd"
  shows "sd_inv box (sd', lg @ [(p, r)])"
proof (rule sd_invI)
  note d = sd_invD [OF inv]
  fix a i p' assume "find_stream a i (addrToServerStream sd') = Some p'"
  then have p': "find_stream a i (addrToServerStream sd) = Some p'" by (simp add: sd'(3))
  show "p' < length (sd_objs sd')" using d(1) [OF p'] by (simp add: sd'(1))
  show "a = b \<and> i = j" if "find_stream b j (addrToServerStream sd') = Some p'" for b j
    using that d(3) [OF p', of b j] by (simp add: sd'(3))
  show "received p' (lg @ [(p, r)]) @ queued sd' p' = box a i"
    using d(1,2) [OF p'] p sd'(1,2) by (auto simp: received_def queued_def nth_list_update)
qed (use sd_invD(4) [OF inv] sd'(1) p(1) in auto)

subsection \<open>Every step keeps the invariant\<close>

lemma handleInit_inv:
  assumes inv: "sd_inv box (sd, lg)"
    and addr: "(AddrToKey (localAddr m) (remoteAddr m) :: (unit, string) res) = Ok addr"
  shows "sd_inv (\<lambda>a i. if (a, i) = (addr, streamID m) then [] else box a i) (fst (handleInit env m sd), lg)"
proof -
  let ?m = "CopyMsg (pb_codes (env_pb env)) resetDefault m"
  let ?ss0 = "(newServerStream ?m (streamID m))\<lparr>ss_rControl := Some (newReceiveControl (getWindowSize (env_MaxWindowSize env)) True)\<rparr>"
  obtain ss r where ss: "setSendControl ?m ?ss0 = (ss, r)" by (cases "setSendControl ?m ?ss0")
  then have "ss_recvQueue ss = queue_New"
    by (auto simp: setSendControl_def newServerStream_def split: stream_frame_any.splits if_splits)
  then have q: "items (ss_recvQueue ss) = []" by (simp add: queue_New_def)
  show ?thesis
    by (rule sd_inv_new [OF inv q]) (auto simp: handleInit_def addr ss Let_def split: res.split prod.split)
qed

lemma with_stream_cases:
  "with_stream env m sd onErr f = r \<Longrightarrow>
     (fst r = sd \<and> (\<forall>addr. (AddrToKey (localAddr m) (remoteAddr m) :: (unit, string) res) = Ok addr \<longrightarrow>
                       find_stream addr (streamID m) (addrToServerStream sd) = None))
   \<or> (\<exists>addr p. (AddrToKey (localAddr m) (remoteAddr m) :: (unit, string) res) = Ok addr
        \<and> find_stream addr (streamID m) (addrToServerStream sd) = Some p \<and> r = f p)"
  using load_find [of env _ "streamID m" "addrToServerStream sd"]
  by (auto simp: with_stream_def split: res.splits) (metis option.exhaust res.distinct(1))+

lemma sd_inv_cong:
  assumes "sd_inv box (sd, lg)" "\<And>a i p. find_stream a i (addrToServerStream sd) = Some p \<Longrightarrow> box' a i = box a i"
  shows "sd_inv box' (sd, lg)"
proof (rule sd_invI)
  note d = sd_invD [OF assms(1)]
  fix a i p assume p: "find_stream a i (addrToServerStream sd) = Some p"
  show "p < length (sd_objs sd)" by (rule d(1) [OF p])
  show "received p lg @ queued sd p = box' a i" using d(2) [OF p] assms(2) [OF p] by simp
  show "a = b \<and> i = j" if "find_stream b j (addrToServerStream sd) = Some p" for b j by (rule d(3) [OF p that])
qed (rule sd_invD(4) [OF assms(1)])

text \<open>A frame for a stream that is not open changes nothing; otherwise its response is queued.\<close>

lemma with_stream_enqueue_inv:
  assumes inv: "sd_inv box (sd, lg)"
    and r: "with_stream env m sd onErr (\<lambda>p. (update_obj p (enqueue resp) sd, res)) = (sd', res')"
  shows "sd_inv (\<lambda>a i. if addressed m a i then box a i @ [resp] else box a i) (sd', lg)"
proof (cases "\<exists>addr p. addressed m addr (streamID m) \<and> find_stream addr (streamID m) (addrToServerStream sd) = Some p")
  case True
  then obtain addr p where a: "(AddrToKey (localAddr m) (remoteAddr m) :: (unit, string) res) = Ok addr"
    "find_stream addr (streamID m) (addrToServerStream sd) = Some p" by (auto simp: addressed_def)
  then have "sd' = update_obj p (enqueue resp) sd" using with_stream_cases [OF r] by auto
  moreover have "(\<lambda>a i. if addressed m a i then box a i @ [resp] else box a i)
      = (\<lambda>a i. if (a, i) = (addr, streamID m) then box a i @ [resp] else box a i)"
    using a(1) by (simp add: addressed_def fun_eq_iff)
  ultimately show ?thesis using sd_inv_enqueue [OF inv a(2)] by simp
next
  case False
  then have "sd' = sd" using with_stream_cases [OF r] by (auto simp: addressed_def)
  moreover have "\<not> addressed m a i" if "find_stream a i (addrToServerStream sd) = Some p" for a i p
    using False that by (auto simp: addressed_def)
  ultimately show ?thesis using sd_inv_cong [OF inv] by simp
qed

lemma handleFeedback_shape:
  "fst (handleFeedback env m sd) = sd \<or> (\<exists>p w. fst (handleFeedback env m sd) = update_obj p (apply_feedback w) sd)"
  by (auto simp: handleFeedback_def with_stream_def split: res.splits stream_frame_any.splits)

lemma handleFeedback_inv: "sd_inv box (sd, lg) \<Longrightarrow> sd_inv box (fst (handleFeedback env m sd), lg)"
  using handleFeedback_shape [of env m sd]
  by (elim disjE exE) (auto simp: queued_update apply_feedback_def intro: sd_inv_quiet)

lemma handleError_inv: "sd_inv box (sd, lg) \<Longrightarrow> sd_inv box (fst (handleError env m sd), lg)"
proof -
  assume inv: "sd_inv box (sd, lg)"
  have "fst (handleError env m sd) = sd \<or> (\<exists>e ps addr. fst (handleError env m sd)
      = (fail_streams e ps sd)\<lparr>addrToServerStream := AList.delete addr (addrToServerStream sd)\<rparr>)"
    by (auto simp: handleError_def Let_def split: res.splits option.splits)
  then show ?thesis
  proof (elim disjE exE)
    fix e ps addr assume h: "fst (handleError env m sd) = (fail_streams e ps sd)\<lparr>addrToServerStream := AList.delete addr (addrToServerStream sd)\<rparr>"
    have "queued (fst (handleError env m sd)) p = queued (fail_streams e ps sd) p" for p by (simp add: h queued_def)
    then show ?thesis by (intro sd_inv_quiet [OF inv]) (auto simp: h find_delete_conn fail_streams_queued)
  qed (simp add: inv)
qed

lemma startStreamHandler_effect:
  "length (sd_objs (fst (startStreamHandler env addr sid p herr sd))) = length (sd_objs sd)"
  "addrToServerStream (fst (startStreamHandler env addr sid p herr sd)) = deleteServerStream addr sid (addrToServerStream sd)"
  "p' < length (sd_objs sd) \<Longrightarrow> queued (fst (startStreamHandler env addr sid p herr sd)) p' = queued sd p'"
proof -
  obtain out r where sent: "(case herr of None \<Rightarrow> ss_CloseSend env (sd_objs sd ! p) (env_STREAM_CLOSE env) 0 []
      | Some e \<Rightarrow> (case errors_As e of
          None \<Rightarrow> ss_CloseSend env (sd_objs sd ! p) (TRPC_STREAM_RESET (env_pb env)) 0 (err_Error e)
        | Some NilError \<Rightarrow> ([], Panic)
        | Some fe \<Rightarrow> ss_CloseSend env (sd_objs sd ! p) (TRPC_STREAM_RESET (env_pb env)) (e_Code fe) (e_Msg fe))) = (out, r)"
    by (meson surj_pair)
  note h = startStreamHandler_def [of env addr sid p herr sd, unfolded Let_def sent]
  show "length (sd_objs (fst (startStreamHandler env addr sid p herr sd))) = length (sd_objs sd)"
    "addrToServerStream (fst (startStreamHandler env addr sid p herr sd)) = deleteServerStream addr sid (addrToServerStream sd)"
    "p' < length (sd_objs sd) \<Longrightarrow> queued (fst (startStreamHandler env addr sid p herr sd)) p' = queued sd p'"
    unfolding h by (cases r; simp add: queued_update close_stream_def)+
qed

lemma startStreamHandler_inv:
  "sd_inv box (sd, lg) \<Longrightarrow> sd_inv box (fst (startStreamHandler env addr sid p herr sd), lg)"
  by (erule sd_inv_quiet) (simp_all add: startStreamHandler_effect find_delete)

lemma addressed_frameHead [simp]: "addressed (m\<lparr>frameHead := h\<rparr>) a i = addressed m a i"
  by (simp add: addressed_def)

lemma ServerRspErr_frameHead [simp]: "ServerRspErr rc (m\<lparr>frameHead := h\<rparr>) = ServerRspErr rc m"
  by (simp add: ServerRspErr_def)

lemma handleInit_inv':
  assumes "sd_inv box (sd, lg)"
  shows "sd_inv (\<lambda>a i. if addressed m a i then [] else box a i) (fst (handleInit env m sd), lg)"
proof (cases "AddrToKey (localAddr m) (remoteAddr m) :: (unit, string) res")
  case (Ok addr)
  have "(\<lambda>a i. if addressed m a i then [] else box a i) = (\<lambda>a i. if (a, i) = (addr, streamID m) then [] else box a i)"
    by (auto simp: fun_eq_iff addressed_def Ok)
  then show ?thesis using handleInit_inv [OF assms Ok] by simp
qed (use assms in \<open>simp_all add: handleInit_def addressed_def Let_def\<close>)

lemma frame_inv:
  assumes inv: "sd_inv box (sd, lg)"
  shows "sd_inv (\<lambda>a i. inbox_step env a i (box a i) (OpFrame m req)) (fst (StreamHandleFunc env m req sd), lg)"
proof (cases "frameHead m")
  case (TrpcFrameHead h)
  let ?m = "m\<lparr>frameHead := FrameHeadNil\<rparr>"
  have data: "sd_inv (\<lambda>a i. if addressed m a i then box a i @ [\<lparr>rsp_data = req, rsp_err = None\<rparr>] else box a i) (fst (handleData env ?m req sd), lg)"
    using with_stream_enqueue_inv [OF inv surjective_pairing, where env = env and m = ?m] by (simp add: handleData_def)
  have close: "sd_inv (\<lambda>a i. if addressed m a i
      then box a i @ [\<lparr>rsp_data = [], rsp_err = Some (case ServerRspErr (pb_codes (env_pb env)) m of Some e \<Rightarrow> e | None \<Rightarrow> EOF)\<rparr>]
      else box a i) (fst (handleClose env ?m sd), lg)"
    using with_stream_enqueue_inv [OF inv surjective_pairing, where env = env and m = ?m] by (simp add: handleClose_def)
  have init: "sd_inv (\<lambda>a i. if addressed m a i then [] else box a i) (fst (handleInit env ?m sd), lg)"
    using handleInit_inv' [OF inv, of ?m env] by simp
  have box: "(\<lambda>a i. inbox_step env a i (box a i) (OpFrame m req)) =
      (if StreamFrameType h = TRPC_STREAM_FRAME_INIT (env_pb env) then (\<lambda>a i. if addressed m a i then [] else box a i)
       else if StreamFrameType h = TRPC_STREAM_FRAME_DATA (env_pb env)
         then (\<lambda>a i. if addressed m a i then box a i @ [\<lparr>rsp_data = req, rsp_err = None\<rparr>] else box a i)
       else if StreamFrameType h = TRPC_STREAM_FRAME_CLOSE (env_pb env)
         then (\<lambda>a i. if addressed m a i
           then box a i @ [\<lparr>rsp_data = [], rsp_err = Some (case ServerRspErr (pb_codes (env_pb env)) m of Some e \<Rightarrow> e | None \<Rightarrow> EOF)\<rparr>]
           else box a i)
       else box)"
    by (simp add: fun_eq_iff TrpcFrameHead Let_def)
  show ?thesis
    unfolding box
    using TrpcFrameHead data close init handleFeedback_inv [OF inv, of env ?m] inv
    by (simp add: StreamHandleFunc_def handleByStreamFrameType_def Let_def)
qed (use inv handleError_inv [OF inv] in \<open>auto simp: StreamHandleFunc_def\<close>)

lemma sd_step_inv:
  assumes inv: "sd_inv box s"
  shows "sd_inv (\<lambda>a i. inbox_step env a i (box a i) op) (sd_step env s op)"
proof -
  obtain sd lg where s: "s = (sd, lg)" by (cases s)
  show ?thesis
  proof (cases op)
    case (OpFrame m req)
    then show ?thesis using frame_inv [of box sd lg env m req] inv s by simp
  next
    case (OpReturn n herr)
    have "sd_inv box (sd\<lparr>sd_running := rs\<rparr>, lg)" for rs
      by (rule sd_inv_quiet [OF inv [unfolded s]]) simp_all
    then show ?thesis using OpReturn inv s by (auto simp: startStreamHandler_inv split: prod.split)
  next
    case (OpRecv p)
    show ?thesis
    proof (cases "p < length (sd_objs sd) \<and> items (ss_recvQueue (sd_objs sd ! p)) \<noteq> []")
      case True
      then obtain r rs where q: "items (ss_recvQueue (sd_objs sd ! p)) = r # rs" by (cases "items (ss_recvQueue (sd_objs sd ! p))") auto
      let ?q = "(ss_recvQueue (sd_objs sd ! p))\<lparr>items := rs\<rparr>"
      obtain ss out res where ss: "ss_RecvMsg env ((sd_objs sd ! p)\<lparr>ss_recvQueue := ?q\<rparr>) (Some r) = (ss, out, res)"
        by (cases "ss_RecvMsg env ((sd_objs sd ! p)\<lparr>ss_recvQueue := ?q\<rparr>) (Some r)")
      have "ss_recvQueue ss = ?q" using RecvMsg_queue [OF ss] by simp
      moreover have "queue_TryGet (ss_recvQueue (sd_objs sd ! p)) = Some (?q, r)" by (simp add: queue_TryGet_def Get_locked_def q)
      ultimately show ?thesis
        using sd_inv_recv [OF inv [unfolded s], of p r rs "sd\<lparr>sd_objs := (sd_objs sd)[p := ss], sd_sent := sd_sent sd @ out\<rparr>" ss]
          True q ss OpRecv s by simp
    next
      case False
      then have "sd_step env s op = s" using s OpRecv by (auto simp: queue_TryGet_def Get_locked_def)
      then show ?thesis using inv OpRecv by simp
    qed
  qed
qed

lemma sd_run_inv: "sd_inv (\<lambda>a i. inbox env a i ops) (sd_run env ops)"
proof (induction ops rule: rev_induct)
  case Nil
  show ?case by (simp add: sd_run_def NewStreamDispatcher_def sd_inv_def find_stream_def)
next
  case (snoc op ops)
  from sd_step_inv [OF this, of env op] show ?case by (simp add: sd_run_def inbox_def)
qed

text \<open>every stream gets exactly its own messages, in order. After any interleaving of frames of any
  connections and streams, of handlers that receive and of handlers that return, what the handler
  of an open stream has received, followed by what its queue still holds, is the sequence of data
  and close frames that arrived on its connection with its stream ID since its init frame.\<close>

theorem stream_delivery:
  assumes "sd_run env ops = (sd, lg)" "find_stream addr sid (addrToServerStream sd) = Some p"
  shows "p < length (sd_objs sd) \<and> received p lg @ queued sd p = inbox env addr sid ops"
  using sd_invD(1,2) [OF sd_run_inv [of env ops, unfolded assms(1)] assms(2)] by blast

subsection \<open>Connection errors\<close>

definition table_ok :: "stream_table \<Rightarrow> bool" where
  "table_ok t \<longleftrightarrow> (\<forall>addr ids. map_of t addr = Some ids \<longrightarrow> distinct (map fst ids))"

lemma table_ok_store: "table_ok t \<Longrightarrow> table_ok (storeServerStream addr sid p t)"
  by (auto simp: table_ok_def storeServerStream_def update_conv distinct_update split: option.splits if_splits)

lemma table_ok_delete: "table_ok t \<Longrightarrow> table_ok (deleteServerStream addr sid t)"
  by (auto simp: table_ok_def deleteServerStream_def Let_def update_conv delete_conv' distinct_delete
      split: option.splits if_splits)

lemma table_ok_forget: "table_ok t \<Longrightarrow> table_ok (AList.delete addr t)"
  by (auto simp: table_ok_def delete_conv' split: if_splits)

lemma handleInit_table:
  "addrToServerStream (fst (handleInit env m sd)) = addrToServerStream sd
   \<or> (\<exists>addr sid p. addrToServerStream (fst (handleInit env m sd)) = storeServerStream addr sid p (addrToServerStream sd))"
  by (auto simp: handleInit_def Let_def split: res.splits prod.splits)

lemma with_stream_table:
  "(\<And>p. addrToServerStream (fst (f p)) = addrToServerStream sd) \<Longrightarrow>
     addrToServerStream (fst (with_stream env m sd onErr f)) = addrToServerStream sd"
  by (simp add: with_stream_def split: res.split)

lemma handleError_table:
  "addrToServerStream (fst (handleError env m sd)) = addrToServerStream sd
   \<or> (\<exists>addr. addrToServerStream (fst (handleError env m sd)) = AList.delete addr (addrToServerStream sd))"
  by (auto simp: handleError_def Let_def split: res.splits option.splits)

lemma frame_table_ok:
  assumes "table_ok (addrToServerStream sd)"
  shows "table_ok (addrToServerStream (fst (StreamHandleFunc env m req sd)))"
proof -
  have i: "table_ok (addrToServerStream (fst (handleInit env m' sd)))" for m'
    using handleInit_table [of env m' sd] table_ok_store assms by auto
  have e: "table_ok (addrToServerStream (fst (handleError env m' sd)))" for m'
    using handleError_table [of env m' sd] table_ok_forget assms by auto
  have "addrToServerStream (fst (handleData env m' req sd)) = addrToServerStream sd"
    "addrToServerStream (fst (handleClose env m' sd)) = addrToServerStream sd"
    "addrToServerStream (fst (handleFeedback env m' sd)) = addrToServerStream sd" for m'
    by (auto simp: handleData_def handleClose_def handleFeedback_def split: stream_frame_any.split intro!: with_stream_table)
  with i e assms show ?thesis
    by (simp add: StreamHandleFunc_def handleByStreamFrameType_def Let_def split: frame_head_any.split)
qed

lemma sd_step_table_ok: "table_ok (addrToServerStream (fst s)) \<Longrightarrow> table_ok (addrToServerStream (fst (sd_step env s op)))"
proof -
  assume ok: "table_ok (addrToServerStream (fst s))"
  obtain sd lg where s: "s = (sd, lg)" by (cases s)
  show ?thesis
  proof (cases op)
    case (OpRecv p)
    then show ?thesis using ok s by (auto split: option.split prod.split)
  next
    case (OpReturn n herr)
    then show ?thesis using ok s by (auto simp: startStreamHandler_effect(2) table_ok_delete split: prod.split)
  qed (use ok s frame_table_ok in auto)
qed

lemma sd_run_table_ok: "table_ok (addrToServerStream (fst (sd_run env ops)))"
proof (induction ops rule: rev_induct)
  case Nil
  show ?case by (simp add: sd_run_def NewStreamDispatcher_def table_ok_def)
next
  case (snoc op ops)
  from sd_step_table_ok [OF this, of env op] show ?case by (simp add: sd_run_def)
qed

lemma fail_streams_objs:
  "p < length (sd_objs sd) \<Longrightarrow> sd_objs (fail_streams e ps sd) ! p =
     (if p \<in> set ps then close_stream ((sd_objs sd ! p)\<lparr>ss_err := e\<rparr>) else sd_objs sd ! p)"
  by (induction ps arbitrary: sd) (auto simp: close_stream_def)

text \<open>a broken connection ends exactly its own streams. When the transport reports an error of a
  connection with open streams, none of them stays in the table, each has the error stored and its
  \<open>done\<close> channel closed, so that its handler is released; the streams of all other connections are
  still there and unchanged.\<close>

theorem connection_error:
  assumes run: "sd_run env ops = (sd, lg)"
    and m: "\<forall>h. frameHead m \<noteq> TrpcFrameHead h" "ServerRspErr (pb_codes (env_pb env)) m = Some e"
      "(AddrToKey (localAddr m) (remoteAddr m) :: (unit, string) res) = Ok addr"
    and open_stream: "find_stream addr sid0 (addrToServerStream sd) = Some p0"
    and step: "StreamHandleFunc env m req sd = (sd', res)"
  shows "(\<forall>sid. find_stream addr sid (addrToServerStream sd') = None)
    \<and> (\<forall>sid p. find_stream addr sid (addrToServerStream sd) = Some p \<longrightarrow>
         ss_err (sd_objs sd' ! p) = Some e \<and> done_closed (ss_recvQueue (sd_objs sd' ! p)))
    \<and> (\<forall>a i. a \<noteq> addr \<longrightarrow> find_stream a i (addrToServerStream sd') = find_stream a i (addrToServerStream sd)
         \<and> (\<forall>p. find_stream a i (addrToServerStream sd) = Some p \<longrightarrow> sd_objs sd' ! p = sd_objs sd ! p))"
proof -
  note inv = sd_invD [OF sd_run_inv [of env ops, unfolded run]]
  obtain ids where ids: "map_of (addrToServerStream sd) addr = Some ids"
    using open_stream by (auto simp: find_stream_def split: option.splits)
  have sd': "sd' = (fail_streams (Some e) (map snd ids) sd)\<lparr>addrToServerStream := AList.delete addr (addrToServerStream sd)\<rparr>"
    using step m ids by (auto simp: StreamHandleFunc_def handleError_def Let_def split: frame_head_any.splits)
  have dist: "distinct (map fst ids)" using sd_run_table_ok [of env ops] ids run by (auto simp: table_ok_def)
  have mem: "p \<in> set (map snd ids) \<longleftrightarrow> (\<exists>sid. find_stream addr sid (addrToServerStream sd) = Some p)" for p
    using dist by (force simp: find_stream_def ids map_of_eq_Some_iff)
  have own: "ss_err (sd_objs sd' ! p) = Some e \<and> done_closed (ss_recvQueue (sd_objs sd' ! p))"
    if "find_stream addr sid (addrToServerStream sd) = Some p" for sid p
    using inv(1) [OF that] mem that by (auto simp: sd' fail_streams_objs close_stream_def)
  have other: "sd_objs sd' ! p = sd_objs sd ! p" if "a \<noteq> addr" "find_stream a i (addrToServerStream sd) = Some p" for a i p
  proof -
    have "p \<notin> set (map snd ids)" using mem inv(3) [OF that(2), of addr] that(1) by blast
    then show ?thesis using inv(1) [OF that(2)] by (simp add: sd' fail_streams_objs)
  qed
  show ?thesis using own other by (auto simp: sd' find_delete_conn)
qed

text \<open>an init frame whose answer cannot be sent leaves its stream behind. The handler reports the
  error and starts no goroutine for the stream, yet the stream stays in the table; only an error
  of the whole connection removes it.\<close>

theorem failed_init_keeps_stream:
  assumes "(AddrToKey (localAddr m) (remoteAddr m) :: (unit, string) res) = Ok addr" "streamFrame m = StreamInit im"
    and "\<And>m' b. env_Encode env m' b \<noteq> Panic"
    and "\<And>m' b buf. env_Encode env m' b = Ok buf \<Longrightarrow> env_Send env buf \<noteq> None"
  shows "\<exists>sd' e. handleInit env m sd = (sd', Returned e) \<and> sd_running sd' = sd_running sd
    \<and> find_stream addr (streamID m) (addrToServerStream sd') = Some (length (sd_objs sd))"
proof -
  let ?m = "CopyMsg (pb_codes (env_pb env)) resetDefault m" and ?w = "getWindowSize (env_MaxWindowSize env)"
  let ?ss0 = "(newServerStream ?m (streamID m))\<lparr>ss_rControl := Some (newReceiveControl ?w True)\<rparr>"
  obtain ss cw where ss: "setSendControl ?m ?ss0 = (ss, Ok cw)"
    using assms(2) by (cases "im_InitWindowSize im = 0") (simp_all add: setSendControl_def)
  obtain out e where "encode_send env (init_response env ?w ss cw) [] = (out, Err e)"
    using assms(3,4) by (fastforce simp: encode_send_def split: res.splits option.splits)
  then show ?thesis using assms(1) ss by (simp add: handleInit_def Let_def find_store)
qed

subsection \<open>A concrete server\<close>

definition demo_pb :: pb_consts where
  "demo_pb = \<lparr>TRPC_MAGIC_VALUE = 0x930, TRPC_UNARY_FRAME = 0, TRPC_STREAM_FRAME = 1, TRPC_STREAM_FRAME_INIT = 1,
     TRPC_STREAM_FRAME_DATA = 2, TRPC_STREAM_FRAME_CLOSE = 4, TRPC_STREAM_FRAME_FEEDBACK = 3, TRPC_STREAM_RESET = 1,
     TRPC_PROTO_V1 = 0, TRPC_UNARY_CALL = 0, TRPC_DYEING_MESSAGE = 1,
     pb_codes = \<lparr>RetOK = 0, RetUnknown = 999, RetServerDecodeFail = 1, RetServerEncodeFail = 2\<rparr>, err_text = (\<lambda>_. [])\<rparr>"

definition demo_env :: stream_env where
  "demo_env = \<lparr>env_Encode = (\<lambda>m b. Ok b), env_Send = (\<lambda>b. None), env_Decode = (\<lambda>b. Ok (length b)),
     env_MaxWindowSize = 0, env_pb = demo_pb, env_RetServerSystemErr = 31, env_STREAM_CLOSE = 0\<rparr>"

definition demo_msg :: "string \<Rightarrow> frame_head_any \<Rightarrow> msg" where
  "demo_msg peer h = resetDefault\<lparr>frameHead := h, streamID := 100, localAddr := Some (''tcp'', ''l''), remoteAddr := Some (''tcp'', peer),
     streamFrame := StreamInit \<lparr>im_RequestMeta = None, im_ResponseMeta = None, im_ContentType = 0, im_ContentEncoding = 0,
       im_InitWindowSize = 10\<rparr>\<rparr>"

definition demo_ops :: "sd_op list" where
  "demo_ops = [OpFrame (demo_msg ''p'' (TrpcFrameHead (newFrameHead demo_pb 1 100))) [],
     OpFrame (demo_msg ''q'' (TrpcFrameHead (newFrameHead demo_pb 1 100))) [],
     OpFrame (demo_msg ''q'' (TrpcFrameHead (newFrameHead demo_pb 2 100))) [7, 8],
     OpFrame (demo_msg ''p'' (TrpcFrameHead (newFrameHead demo_pb 2 100))) [9],
     OpRecv 1]"

lemma demo_run:
  "find_stream ''tcp_l_q'' 100 (addrToServerStream (fst (sd_run demo_env demo_ops))) = Some 1"
  "find_stream ''tcp_l_p'' 100 (addrToServerStream (fst (sd_run demo_env demo_ops))) = Some 0"
  "inbox demo_env ''tcp_l_q'' 100 demo_ops = [\<lparr>rsp_data = [7, 8], rsp_err = None\<rparr>]"
  by code_simp+

theorem stream_delivery_witness:
  "received 1 (snd (sd_run demo_env demo_ops)) @ queued (fst (sd_run demo_env demo_ops)) 1 = [\<lparr>rsp_data = [7, 8], rsp_err = None\<rparr>]"
  using stream_delivery [OF surjective_pairing demo_run(1)] demo_run(3) by simp

theorem connection_error_witness:
  "\<exists>sd'. fst (StreamHandleFunc demo_env ((demo_msg ''q'' FrameHeadNil)\<lparr>serverRspErr := Some (TrpcError 1 5 ''x'' [] None)\<rparr>) []
        (fst (sd_run demo_env demo_ops))) = sd'
     \<and> (\<forall>sid. find_stream ''tcp_l_q'' sid (addrToServerStream sd') = None)
     \<and> find_stream ''tcp_l_p'' 100 (addrToServerStream sd') = Some 0"
proof -
  let ?m = "(demo_msg ''q'' FrameHeadNil)\<lparr>serverRspErr := Some (TrpcError 1 5 ''x'' [] None)\<rparr>"
  have m: "\<forall>h. frameHead ?m \<noteq> TrpcFrameHead h"
    "ServerRspErr (pb_codes (env_pb demo_env)) ?m = Some (TrpcError 1 5 ''x'' [] None)"
    "(AddrToKey (localAddr ?m) (remoteAddr ?m) :: (unit, string) res) = Ok ''tcp_l_q''"
    by (simp_all add: demo_msg_def ServerRspErr_def AddrToKey_def)
  show ?thesis
    using connection_error [OF surjective_pairing m demo_run(1) surjective_pairing, of "[]"] demo_run(2) by auto
qed

theorem failed_init_keeps_stream_witness:
  "\<exists>sd' e. handleInit (demo_env\<lparr>env_Send := (\<lambda>b. Some EOF)\<rparr>) (demo_msg ''p'' FrameHeadNil) NewStreamDispatcher = (sd', Returned e)
     \<and> find_stream ''tcp_l_p'' 100 (addrToServerStream sd') = Some 0"
  using failed_init_keeps_stream [of "demo_msg ''p'' FrameHeadNil" "''tcp_l_p''"
      "\<lparr>im_RequestMeta = None, im_ResponseMeta = None, im_ContentType = 0, im_ContentEncoding = 0, im_InitWindowSize = 10\<rparr>"
      "demo_env\<lparr>env_Send := (\<lambda>b. Some EOF)\<rparr>" NewStreamDispatcher]
  by (auto simp: demo_msg_def demo_env_def AddrToKey_def NewStreamDispatcher_def)

end
