(* ===== verification/Conn_List.thy ===== *)
theory Conn_List
  imports Go_Prelude
begin

text \<open>
  The list of idle connections of \<open>pool/connpool\<close>: a doubly linked list threaded through the \<open>PoolConn\<close>
  structures, with head, tail and count kept beside it. Pointers are indices into a heap of
  connections; following a nil pointer panics. The four operations are shown to implement the
  operations of a plain list, and to leave every other field and every other connection alone.
\<close>

record PoolConn =
  pc_t :: int
  pc_created :: int
  pc_next :: "nat option"
  pc_prev :: "nat option"
  pc_closed :: bool
  pc_forceClose :: bool
  pc_inPool :: bool
  pc_open :: bool

type_synonym conn_heap = "nat \<Rightarrow> PoolConn"

record connList =
  cl_count :: int
  cl_head :: "nat option"
  cl_tail :: "nat option"

definition empty_connList :: connList where
  "empty_connList = \<lparr>cl_count = 0, cl_head = None, cl_tail = None\<rparr>"

definition pushHead :: "nat \<Rightarrow> connList \<Rightarrow> conn_heap \<Rightarrow> (unit, connList \<times> conn_heap) res" where
  "pushHead pc l h =
     (let h = h(pc := (h pc)\<lparr>pc_inPool := True, pc_next := cl_head l, pc_prev := None\<rparr>) in
      if cl_count l = 0 then Ok (l\<lparr>cl_tail := Some pc, cl_count := cl_count l + 1, cl_head := Some pc\<rparr>, h)
      else case cl_head l of
        None \<Rightarrow> Panic
      | Some hd0 \<Rightarrow> Ok (l\<lparr>cl_count := cl_count l + 1, cl_head := Some pc\<rparr>, h(hd0 := (h hd0)\<lparr>pc_prev := Some pc\<rparr>)))"

definition popHead :: "connList \<Rightarrow> conn_heap \<Rightarrow> (unit, connList \<times> conn_heap) res" where
  "popHead l h =
     (case cl_head l of
        None \<Rightarrow> Panic
      | Some pc \<Rightarrow>
          (let l = l\<lparr>cl_count := cl_count l - 1\<rparr>;
               fin = (\<lambda>h. h(pc := (h pc)\<lparr>pc_next := None, pc_prev := None, pc_inPool := False\<rparr>))
           in if cl_count l = 0 then Ok (l\<lparr>cl_head := None, cl_tail := None\<rparr>, fin h)
              else case pc_next (h pc) of
                None \<Rightarrow> Panic
              | Some n \<Rightarrow> Ok (l\<lparr>cl_head := Some n\<rparr>, fin (h(n := (h n)\<lparr>pc_prev := None\<rparr>)))))"

definition pushTail :: "nat \<Rightarrow> connList \<Rightarrow> conn_heap \<Rightarrow> (unit, connList \<times> conn_heap) res" where
  "pushTail pc l h =
     (let h = h(pc := (h pc)\<lparr>pc_inPool := True, pc_next := None, pc_prev := cl_tail l\<rparr>) in
      if cl_count l = 0 then Ok (l\<lparr>cl_head := Some pc, cl_count := cl_count l + 1, cl_tail := Some pc\<rparr>, h)
      else case cl_tail l of
        None \<Rightarrow> Panic
      | Some tl0 \<Rightarrow> Ok (l\<lparr>cl_count := cl_count l + 1, cl_tail := Some pc\<rparr>, h(tl0 := (h tl0)\<lparr>pc_next := Some pc\<rparr>)))"

definition popTail :: "connList \<Rightarrow> conn_heap \<Rightarrow> (unit, connList \<times> conn_heap) res" where
  "popTail l h =
     (case cl_tail l of
        None \<Rightarrow> Panic
      | Some pc \<Rightarrow>
          (let l = l\<lparr>cl_count := cl_count l - 1\<rparr>;
               fin = (\<lambda>h. h(pc := (h pc)\<lparr>pc_next := None, pc_prev := None, pc_inPool := False\<rparr>))
           in if cl_count l = 0 then Ok (l\<lparr>cl_head := None, cl_tail := None\<rparr>, fin h)
              else case pc_prev (h pc) of
                None \<Rightarrow> Panic
              | Some n \<Rightarrow> Ok (l\<lparr>cl_tail := Some n\<rparr>, fin (h(n := (h n)\<lparr>pc_next := None\<rparr>)))))"

subsection \<open>Lists in the heap\<close>

text \<open>The members are linked in order: \<open>p\<close> is what the first one's \<open>prev\<close> must be.\<close>

fun linked :: "nat option \<Rightarrow> conn_heap \<Rightarrow> nat list \<Rightarrow> bool" where
  "linked p h [] \<longleftrightarrow> True"
| "linked p h (x # xs) \<longleftrightarrow> pc_prev (h x) = p \<and> pc_inPool (h x)
     \<and> pc_next (h x) = (case xs of [] \<Rightarrow> None | y # ys \<Rightarrow> Some y) \<and> linked (Some x) h xs"

definition is_list :: "connList \<Rightarrow> conn_heap \<Rightarrow> nat list \<Rightarrow> bool" where
  "is_list l h xs \<longleftrightarrow> linked None h xs \<and> distinct xs \<and> cl_count l = int (length xs)
     \<and> cl_head l = (case xs of [] \<Rightarrow> None | x # _ \<Rightarrow> Some x)
     \<and> cl_tail l = (if xs = [] then None else Some (last xs))"

text \<open>What the operations may change of a connection: its links and its \<open>inPool\<close> flag.\<close>

definition same_conn :: "PoolConn \<Rightarrow> PoolConn \<Rightarrow> bool" where
  "same_conn a b \<longleftrightarrow> pc_t a = pc_t b \<and> pc_created a = pc_created b \<and> pc_closed a = pc_closed b
     \<and> pc_forceClose a = pc_forceClose b \<and> pc_open a = pc_open b"

definition frame_ok :: "conn_heap \<Rightarrow> conn_heap \<Rightarrow> nat set \<Rightarrow> bool" where
  "frame_ok h h' X \<longleftrightarrow> (\<forall>y. same_conn (h y) (h' y)) \<and> (\<forall>y. y \<notin> X \<longrightarrow> h' y = h y)"

lemma linked_cong:
  "linked p h xs \<Longrightarrow> (\<And>x. x \<in> set xs \<Longrightarrow> pc_prev (h' x) = pc_prev (h x) \<and> pc_next (h' x) = pc_next (h x) \<and> pc_inPool (h' x) = pc_inPool (h x))
     \<Longrightarrow> linked p h' xs"
  by (induction xs arbitrary: p) auto

lemma linked_last: "linked p h xs \<Longrightarrow> xs \<noteq> [] \<Longrightarrow> pc_next (h (last xs)) = None"
  by (induction xs arbitrary: p) (auto split: list.splits)

lemma linked_append:
  "linked p h (xs @ ys) \<longleftrightarrow> (if ys = [] then linked p h xs else if xs = [] then linked p h ys
     else linked p (h(last xs := (h (last xs))\<lparr>pc_next := None\<rparr>)) xs \<and> pc_next (h (last xs)) = Some (hd ys) \<and> linked (Some (last xs)) h ys)"
  if "distinct xs"
  using that
proof (induction xs arbitrary: p)
  case (Cons x xs)
  show ?case
  proof (cases "xs = []")
    case True
    then show ?thesis by (cases ys) auto
  next
    case False
    then have "last xs \<noteq> x" "last xs \<in> set xs" using Cons.prems by auto
    then show ?thesis using False Cons by (cases xs; cases ys) auto
  qed
qed auto

lemma linked_snoc:
  assumes "distinct xs" "xs \<noteq> []" "linked p (h(last xs := (h (last xs))\<lparr>pc_next := None\<rparr>)) xs" "pc_next (h (last xs)) = Some y"
    "pc_prev (h y) = Some (last xs)" "pc_inPool (h y)" "pc_next (h y) = None"
  shows "linked p h (xs @ [y])"
  using linked_append [OF assms(1), of p h "[y]"] assms(2-) by simp

lemma pushHead_list:
  assumes l: "is_list l h xs" and new: "pc \<notin> set xs"
  shows "\<exists>l' h'. pushHead pc l h = Ok (l', h') \<and> is_list l' h' (pc # xs) \<and> frame_ok h h' (insert pc (set xs))"
proof (cases xs)
  case Nil
  then show ?thesis using l by (auto simp: pushHead_def is_list_def Let_def frame_ok_def same_conn_def)
next
  case (Cons x ys)
  let ?h1 = "h(pc := (h pc)\<lparr>pc_inPool := True, pc_next := Some x, pc_prev := None\<rparr>)"
  let ?h' = "?h1(x := (?h1 x)\<lparr>pc_prev := Some pc\<rparr>)"
  have "pushHead pc l h = Ok (l\<lparr>cl_count := cl_count l + 1, cl_head := Some pc\<rparr>, ?h')"
    using l Cons by (simp add: pushHead_def is_list_def Let_def)
  moreover have "linked (Some x) ?h' ys"
    by (rule linked_cong [of "Some x" h]) (use l new Cons in \<open>auto simp: is_list_def\<close>)
  then have "is_list (l\<lparr>cl_count := cl_count l + 1, cl_head := Some pc\<rparr>) ?h' (pc # xs)"
    using l new Cons by (auto simp: is_list_def)
  moreover have "frame_ok h ?h' (insert pc (set xs))" using Cons by (auto simp: frame_ok_def same_conn_def)
  ultimately show ?thesis by blast
qed

lemma popHead_list:
  assumes l: "is_list l h (x # xs)"
  shows "\<exists>l' h'. popHead l h = Ok (l', h') \<and> is_list l' h' xs \<and> frame_ok h h' (insert x (set xs)) \<and> \<not> pc_inPool (h' x)"
proof (cases xs)
  case Nil
  then show ?thesis using l by (auto simp: popHead_def is_list_def Let_def frame_ok_def same_conn_def)
next
  case (Cons y ys)
  let ?h1 = "h(y := (h y)\<lparr>pc_prev := None\<rparr>)"
  let ?h' = "?h1(x := (?h1 x)\<lparr>pc_next := None, pc_prev := None, pc_inPool := False\<rparr>)"
  have "popHead l h = Ok (l\<lparr>cl_count := cl_count l - 1, cl_head := Some y\<rparr>, ?h')"
    using l Cons by (simp add: popHead_def is_list_def Let_def)
  moreover have "linked (Some y) ?h' ys"
    by (rule linked_cong [of "Some y" h]) (use l Cons in \<open>auto simp: is_list_def\<close>)
  then have "is_list (l\<lparr>cl_count := cl_count l - 1, cl_head := Some y\<rparr>) ?h' xs"
    using l Cons by (auto simp: is_list_def)
  moreover have "frame_ok h ?h' (insert x (set xs))" using Cons by (auto simp: frame_ok_def same_conn_def)
  moreover have "\<not> pc_inPool (?h' x)" by simp
  ultimately show ?thesis by blast
qed

lemma pushTail_list:
  assumes l: "is_list l h xs" and new: "pc \<notin> set xs"
  shows "\<exists>l' h'. pushTail pc l h = Ok (l', h') \<and> is_list l' h' (xs @ [pc]) \<and> frame_ok h h' (insert pc (set xs))"
proof (cases "xs = []")
  case True
  then show ?thesis using l by (auto simp: pushTail_def is_list_def Let_def frame_ok_def same_conn_def)
next
  case False
  let ?x = "last xs"
  let ?h1 = "h(pc := (h pc)\<lparr>pc_inPool := True, pc_next := None, pc_prev := Some ?x\<rparr>)"
  let ?h' = "?h1(?x := (?h1 ?x)\<lparr>pc_next := Some pc\<rparr>)"
  have x: "?x \<in> set xs" "?x \<noteq> pc" using False new by auto
  have "pushTail pc l h = Ok (l\<lparr>cl_count := cl_count l + 1, cl_tail := Some pc\<rparr>, ?h')"
    using l False by (simp add: pushTail_def is_list_def Let_def)
  note res = this
  have "linked None (?h'(?x := (?h' ?x)\<lparr>pc_next := None\<rparr>)) xs"
  proof -
    have "pc_next (h ?x) = None" using l False linked_last [of None h xs] by (simp add: is_list_def)
    moreover have "linked None h xs" using l by (simp add: is_list_def)
    moreover have "z \<noteq> pc" if "z \<in> set xs" for z using that new by blast
    ultimately show ?thesis by (elim linked_cong) (simp add: fun_upd_def)
  qed
  moreover have "distinct xs" using l by (simp add: is_list_def)
  ultimately have "linked None ?h' (xs @ [pc])" by (intro linked_snoc) (use False x(2) in simp_all)
  moreover have "cl_head l = Some (hd xs)" "cl_count l = int (length xs)"
    using l False by (simp_all add: is_list_def split: list.splits)
  ultimately have "is_list (l\<lparr>cl_count := cl_count l + 1, cl_tail := Some pc\<rparr>) ?h' (xs @ [pc])"
    using \<open>distinct xs\<close> new False by (cases xs) (simp_all add: is_list_def)
  moreover have "frame_ok h ?h' (insert pc (set xs))" using x by (auto simp: frame_ok_def same_conn_def)
  ultimately show ?thesis using res by blast
qed

lemma popTail_list:
  assumes l: "is_list l h (xs @ [x])"
  shows "\<exists>l' h'. popTail l h = Ok (l', h') \<and> is_list l' h' xs \<and> frame_ok h h' (insert x (set xs)) \<and> \<not> pc_inPool (h' x)"
proof (cases "xs = []")
  case True
  then show ?thesis using l by (auto simp: popTail_def is_list_def Let_def frame_ok_def same_conn_def)
next
  case False
  let ?y = "last xs"
  have y: "?y \<in> set xs" "?y \<noteq> x" using False l by (auto simp: is_list_def)
  let ?h1 = "h(?y := (h ?y)\<lparr>pc_next := None\<rparr>)"
  let ?h' = "?h1(x := (?h1 x)\<lparr>pc_next := None, pc_prev := None, pc_inPool := False\<rparr>)"
  have split: "linked None ?h1 xs" "pc_prev (h x) = Some ?y"
    using l False linked_append [of xs None h "[x]"] by (auto simp: is_list_def)
  then have "popTail l h = Ok (l\<lparr>cl_count := cl_count l - 1, cl_tail := Some ?y\<rparr>, ?h')"
    using l False by (simp add: popTail_def is_list_def Let_def)
  moreover have "linked None ?h' xs"
    by (rule linked_cong [OF split(1)]) (use l in \<open>auto simp: is_list_def\<close>)
  then have "is_list (l\<lparr>cl_count := cl_count l - 1, cl_tail := Some ?y\<rparr>) ?h' xs"
    using l False by (auto simp: is_list_def split: list.splits)
  moreover have "frame_ok h ?h' (insert x (set xs))" using y by (auto simp: frame_ok_def same_conn_def)
  moreover have "\<not> pc_inPool (?h' x)" by simp
  ultimately show ?thesis by blast
qed

end
