(* ===== verification/Conn_Pool.thy ===== *)
theory Conn_Pool
  imports Conn_List
begin

text \<open>
  The client connection pool, \<open>pool/connpool/connection_pool.go\<close> with the key and timeout logic of
  \<open>pool.go\<close>. A pool keeps idle connections in a \<open>connList\<close>, limits the active ones by a channel of
  tokens (its length is counted) and counts the ones in use. What the network decides is an
  argument: whether dialling succeeds, what the health check says of a connection, whether an
  operation on a connection fails; so is the current time. \<open>pc_open\<close> tells whether the underlying
  network connection is open. Operations return the new pool and a result; \<open>Blocked\<close> marks a
  receive from the empty token channel, which would never return.
\<close>

datatype pool_error =
    ErrPoolLimit | ErrPoolClosed | ErrConnClosed | ErrConnInPool | ErrCtxDone | ErrDial | ErrIO | Blocked | NoFuel

record pool_cfg =
  MinIdle :: int
  MaxIdle :: int
  MaxActive :: int
  IdleTimeout :: int
  MaxConnLifetime :: int
  poolIdleTimeout :: int
  Wait :: bool
  PushIdleConnToTail :: bool
  forceClosed :: bool
  has_onClose :: bool

record ConnectionPool =
  cp_closed :: bool
  cp_token :: nat
  cp_idleSize :: int
  cp_idle :: connList
  cp_used :: int
  cp_lastGetTime :: int
  cp_heap :: conn_heap
  cp_next :: nat

definition new_ConnectionPool :: ConnectionPool where
  "new_ConnectionPool = \<lparr>cp_closed = False, cp_token = 0, cp_idleSize = 0, cp_idle = empty_connList, cp_used = 0,
     cp_lastGetTime = 0, cp_heap = (\<lambda>_. \<lparr>pc_t = 0, pc_created = 0, pc_next = None, pc_prev = None,
       pc_closed = False, pc_forceClose = False, pc_inPool = False, pc_open = False\<rparr>), cp_next = 0\<rparr>"

definition upd_conn :: "nat \<Rightarrow> (PoolConn \<Rightarrow> PoolConn) \<Rightarrow> ConnectionPool \<Rightarrow> ConnectionPool" where
  "upd_conn pc f p = p\<lparr>cp_heap := (cp_heap p)(pc := f (cp_heap p pc))\<rparr>"

text \<open>\<open>pc.Conn.Close(); pc.closed = true\<close>.\<close>

definition close_conn :: "nat \<Rightarrow> ConnectionPool \<Rightarrow> ConnectionPool" where
  "close_conn pc p = upd_conn pc (\<lambda>c. c\<lparr>pc_open := False, pc_closed := True\<rparr>) p"

text \<open>An operation on the idle list, inside the pool.\<close>

definition on_idle :: "(connList \<Rightarrow> conn_heap \<Rightarrow> (unit, connList \<times> conn_heap) res) \<Rightarrow> ConnectionPool \<Rightarrow> (pool_error, ConnectionPool) res" where
  "on_idle f p =
     (case f (cp_idle p) (cp_heap p) of Ok (l, h) \<Rightarrow> Ok (p\<lparr>cp_idle := l, cp_heap := h\<rparr>) | _ \<Rightarrow> Panic)"

definition push_idle :: "pool_cfg \<Rightarrow> nat \<Rightarrow> ConnectionPool \<Rightarrow> (pool_error, ConnectionPool) res" where
  "push_idle cfg pc p = on_idle (if \<not> PushIdleConnToTail cfg then pushHead pc else pushTail pc) p"

subsection \<open>Get\<close>

text \<open>With \<open>Wait\<close> the send waits for a token until the context ends; nobody else runs.\<close>

definition getToken :: "pool_cfg \<Rightarrow> ConnectionPool \<Rightarrow> (pool_error, ConnectionPool) res" where
  "getToken cfg p =
     (if MaxActive cfg \<le> 0 then Ok p
      else if int (cp_token p) < MaxActive cfg then Ok (p\<lparr>cp_token := cp_token p + 1\<rparr>)
      else if Wait cfg then Err ErrCtxDone else Err ErrPoolLimit)"

definition freeToken :: "pool_cfg \<Rightarrow> ConnectionPool \<Rightarrow> (pool_error, ConnectionPool) res" where
  "freeToken cfg p =
     (if MaxActive cfg \<le> 0 then Ok p
      else case cp_token p of 0 \<Rightarrow> Err Blocked | Suc n \<Rightarrow> Ok (p\<lparr>cp_token := n\<rparr>))"

fun getIdleConn_loop :: "nat \<Rightarrow> (nat \<Rightarrow> bool) \<Rightarrow> ConnectionPool \<Rightarrow> (pool_error, ConnectionPool \<times> nat option) res" where
  "getIdleConn_loop 0 chk p = Err NoFuel"
| "getIdleConn_loop (Suc fuel) chk p =
     (case cl_head (cp_idle p) of
        None \<Rightarrow> Ok (p, None)
      | Some pc \<Rightarrow>
          bind_res (on_idle popHead p) (\<lambda>p.
            let p = p\<lparr>cp_idleSize := cp_idleSize p - 1\<rparr> in
            if chk pc then Ok (p, Some pc)
            else getIdleConn_loop fuel chk (close_conn pc p)))"

definition getIdleConn :: "(nat \<Rightarrow> bool) \<Rightarrow> ConnectionPool \<Rightarrow> (pool_error, ConnectionPool \<times> nat option) res" where
  "getIdleConn chk p = getIdleConn_loop (Suc (nat (cl_count (cp_idle p)))) chk p"

definition newPoolConn :: "pool_cfg \<Rightarrow> int \<Rightarrow> ConnectionPool \<Rightarrow> ConnectionPool \<times> nat" where
  "newPoolConn cfg now p =
     (p\<lparr>cp_next := cp_next p + 1,
        cp_heap := (cp_heap p)(cp_next p := \<lparr>pc_t = 0, pc_created = now, pc_next = None, pc_prev = None, pc_closed = False,
          pc_forceClose = forceClosed cfg, pc_inPool = False, pc_open = True\<rparr>)\<rparr>, cp_next p)"

definition getNewConn :: "pool_cfg \<Rightarrow> int \<Rightarrow> bool \<Rightarrow> ConnectionPool \<Rightarrow> ConnectionPool \<times> (pool_error, nat) res" where
  "getNewConn cfg now dialOk p =
     (if cp_closed p then (p, Err ErrPoolClosed)
      else if \<not> dialOk then (p, Err ErrDial)
      else case newPoolConn cfg now p of (p, pc) \<Rightarrow> (p, Ok pc))"

definition cp_get :: "pool_cfg \<Rightarrow> int \<Rightarrow> bool \<Rightarrow> (nat \<Rightarrow> bool) \<Rightarrow> ConnectionPool \<Rightarrow> ConnectionPool \<times> (pool_error, nat) res" where
  "cp_get cfg now dialOk chk p =
     (case getToken cfg p of
        Err e \<Rightarrow> (p, Err e)
      | Panic \<Rightarrow> (p, Panic)
      | Ok p \<Rightarrow>
          (let p = p\<lparr>cp_lastGetTime := now, cp_used := cp_used p + 1\<rparr> in
           case getIdleConn chk p of
             Err e \<Rightarrow> (p, Err e)
           | Panic \<Rightarrow> (p, Panic)
           | Ok (p, Some pc) \<Rightarrow> (p, Ok pc)
           | Ok (p, None) \<Rightarrow>
               (case getNewConn cfg now dialOk p of
                  (p, Ok pc) \<Rightarrow> (p, Ok pc)
                | (p, Panic) \<Rightarrow> (p, Panic)
                | (p, Err e) \<Rightarrow> (case freeToken cfg p of Ok p \<Rightarrow> (p, Err e) | Err e' \<Rightarrow> (p, Err e') | Panic \<Rightarrow> (p, Panic)))))"

subsection \<open>Returning a connection\<close>

text \<open>The first half of \<open>put\<close> gives the connection that has to be closed, if any.\<close>

definition put_idle :: "pool_cfg \<Rightarrow> int \<Rightarrow> nat \<Rightarrow> bool \<Rightarrow> ConnectionPool \<Rightarrow> (pool_error, ConnectionPool \<times> nat option) res" where
  "put_idle cfg now pc forceClose p =
     (if \<not> cp_closed p \<and> \<not> forceClose then
        bind_res (push_idle cfg pc (upd_conn pc (\<lambda>c. c\<lparr>pc_t := now\<rparr>) p)) (\<lambda>p.
          if cp_idleSize p \<ge> MaxIdle cfg then
            (let victim = cl_tail (cp_idle p) in bind_res (on_idle popTail p) (\<lambda>p. Ok (p, victim)))
          else Ok (p\<lparr>cp_idleSize := cp_idleSize p + 1\<rparr>, None))
      else Ok (p, Some pc))"

definition cp_put :: "pool_cfg \<Rightarrow> int \<Rightarrow> nat \<Rightarrow> bool \<Rightarrow> ConnectionPool \<Rightarrow> (pool_error, ConnectionPool) res" where
  "cp_put cfg now pc forceClose p =
     (if pc_closed (cp_heap p pc) then Ok p
      else bind_res (put_idle cfg now pc forceClose p) (\<lambda>(p, victim).
        let p = (case victim of None \<Rightarrow> p | Some v \<Rightarrow> close_conn v p) in
        bind_res (freeToken cfg p) (\<lambda>p. Ok (p\<lparr>cp_used := cp_used p - 1\<rparr>))))"

definition pc_Close :: "pool_cfg \<Rightarrow> int \<Rightarrow> nat \<Rightarrow> ConnectionPool \<Rightarrow> (pool_error, ConnectionPool) res" where
  "pc_Close cfg now pc p =
     (if pc_closed (cp_heap p pc) then Err ErrConnClosed
      else if pc_inPool (cp_heap p pc) then Err ErrConnInPool
      else cp_put cfg now pc (pc_forceClose (cp_heap p pc)) p)"

text \<open>\<open>Read\<close>, \<open>Write\<close> and \<open>ReadFrame\<close>: a failing operation gives the connection up. The flag tells whether
  the network operation succeeds.\<close>

definition pc_IO :: "pool_cfg \<Rightarrow> int \<Rightarrow> nat \<Rightarrow> bool \<Rightarrow> ConnectionPool \<Rightarrow> (pool_error, ConnectionPool) res \<times> pool_error option" where
  "pc_IO cfg now pc ok p =
     (if pc_closed (cp_heap p pc) then (Ok p, Some ErrConnClosed)
      else if ok then (Ok p, None)
      else (cp_put cfg now pc True p, Some ErrIO))"

subsection \<open>Background tasks\<close>

definition defaultChecker :: "pool_cfg \<Rightarrow> int \<Rightarrow> bool \<Rightarrow> bool \<Rightarrow> PoolConn \<Rightarrow> bool" where
  "defaultChecker cfg now remoteError isFast pc =
     (if remoteError then False
      else if isFast then True
      else if IdleTimeout cfg > 0 \<and> pc_t pc + IdleTimeout cfg < now then False
      else if MaxConnLifetime cfg > 0 \<and> pc_created pc + MaxConnLifetime cfg < now then False
      else True)"

text \<open>\<open>checkHealthOnce\<close> releases the lock around the check: taking a connection out and putting it back
  are two critical sections.\<close>

definition check_pop :: "ConnectionPool \<Rightarrow> (pool_error, ConnectionPool) res" where
  "check_pop p = bind_res (on_idle popHead p) (\<lambda>p. Ok (p\<lparr>cp_idleSize := cp_idleSize p - 1\<rparr>))"

definition check_push :: "bool \<Rightarrow> nat \<Rightarrow> ConnectionPool \<Rightarrow> (pool_error, ConnectionPool) res" where
  "check_push healthy pc p =
     (if healthy then on_idle (pushTail pc) (p\<lparr>cp_idleSize := cp_idleSize p + 1\<rparr>) else Ok (close_conn pc p))"

fun checkHealth_loop :: "nat \<Rightarrow> (nat \<Rightarrow> bool) \<Rightarrow> ConnectionPool \<Rightarrow> (pool_error, ConnectionPool) res" where
  "checkHealth_loop 0 chk p = Ok p"
| "checkHealth_loop (Suc n) chk p =
     (case cl_head (cp_idle p) of
        None \<Rightarrow> Ok p
      | Some pc \<Rightarrow> bind_res (check_pop p) (\<lambda>p. bind_res (check_push (chk pc) pc p) (checkHealth_loop n chk)))"

definition checkHealthOnce :: "(nat \<Rightarrow> bool) \<Rightarrow> ConnectionPool \<Rightarrow> (pool_error, ConnectionPool) res" where
  "checkHealthOnce chk p = checkHealth_loop (nat (cl_count (cp_idle p))) chk p"

definition addIdleConn :: "pool_cfg \<Rightarrow> int \<Rightarrow> bool \<Rightarrow> ConnectionPool \<Rightarrow> (pool_error, ConnectionPool \<times> pool_error option) res" where
  "addIdleConn cfg now dialOk p =
     (if cp_closed p then Ok (p, Some ErrPoolClosed)
      else if \<not> dialOk then Ok (p, Some ErrDial)
      else case newPoolConn cfg now p of (p, pc) \<Rightarrow>
        if cp_closed p then Ok (close_conn pc p, None)
        else bind_res (push_idle cfg pc (upd_conn pc (\<lambda>c. c\<lparr>pc_t := now\<rparr>) p)) (\<lambda>p. Ok (p, None)))"

text \<open>\<open>keepMinIdles\<close> reserves the missing places first; each dial that fails gives its place back. The
  dials run one after the other here, with the given outcomes.\<close>

fun addIdle_loop :: "pool_cfg \<Rightarrow> int \<Rightarrow> bool list \<Rightarrow> ConnectionPool \<Rightarrow> (pool_error, ConnectionPool) res" where
  "addIdle_loop cfg now [] p = Ok p"
| "addIdle_loop cfg now (ok # oks) p =
     bind_res (addIdleConn cfg now ok p) (\<lambda>(p, err).
       addIdle_loop cfg now oks (if err = None then p else p\<lparr>cp_idleSize := cp_idleSize p - 1\<rparr>))"

definition keepMinIdles :: "pool_cfg \<Rightarrow> int \<Rightarrow> (nat \<Rightarrow> bool) \<Rightarrow> ConnectionPool \<Rightarrow> (pool_error, ConnectionPool) res" where
  "keepMinIdles cfg now dials p =
     (let count = MinIdle cfg - cp_idleSize p;
          p = (if count > 0 then p\<lparr>cp_idleSize := cp_idleSize p + count\<rparr> else p)
      in addIdle_loop cfg now (map dials [0..<nat count]) p)"

definition checkMinIdle :: "pool_cfg \<Rightarrow> int \<Rightarrow> (nat \<Rightarrow> bool) \<Rightarrow> ConnectionPool \<Rightarrow> (pool_error, ConnectionPool) res" where
  "checkMinIdle cfg now dials p = (if MinIdle cfg \<le> 0 then Ok p else keepMinIdles cfg now dials p)"

subsection \<open>Closing the pool\<close>

fun close_chain :: "nat \<Rightarrow> nat option \<Rightarrow> ConnectionPool \<Rightarrow> (pool_error, ConnectionPool) res" where
  "close_chain fuel None p = Ok p"
| "close_chain 0 (Some pc) p = Err NoFuel"
| "close_chain (Suc fuel) (Some pc) p = close_chain fuel (pc_next (cp_heap p pc)) (close_conn pc p)"

definition cp_Close :: "ConnectionPool \<Rightarrow> (pool_error, ConnectionPool) res" where
  "cp_Close p =
     (if cp_closed p then Ok p
      else close_chain (nat (cl_count (cp_idle p))) (cl_head (cp_idle p))
             (p\<lparr>cp_closed := True, cp_idle := empty_connList, cp_idleSize := 0\<rparr>))"

definition checkPoolIdleTimeout :: "pool_cfg \<Rightarrow> int \<Rightarrow> ConnectionPool \<Rightarrow> (pool_error, ConnectionPool \<times> bool) res" where
  "checkPoolIdleTimeout cfg now p =
     (if cp_lastGetTime p = 0 \<or> poolIdleTimeout cfg = 0 then Ok (p, False)
      else if now - cp_lastGetTime p > poolIdleTimeout cfg \<and> has_onClose cfg \<and> cp_used p = 0
        then bind_res (cp_Close p) (\<lambda>p. Ok (p, True))
      else Ok (p, False))"

text \<open>One round of \<open>checkRoutine\<close>; the flag tells that the goroutine ends.\<close>

definition checkRoutine :: "pool_cfg \<Rightarrow> int \<Rightarrow> (nat \<Rightarrow> bool) \<Rightarrow> (nat \<Rightarrow> bool) \<Rightarrow> ConnectionPool \<Rightarrow> (pool_error, ConnectionPool \<times> bool) res" where
  "checkRoutine cfg now chk dials p =
     (if cp_closed p then Ok (p, True)
      else bind_res (checkHealthOnce chk p) (\<lambda>p.
        bind_res (checkPoolIdleTimeout cfg now p) (\<lambda>(p, stop).
          if stop then Ok (p, True) else bind_res (checkMinIdle cfg now dials p) (\<lambda>p. Ok (p, False)))))"

subsection \<open>The connections of a pool\<close>

text \<open>\<open>xs\<close> are the idle connections in order and \<open>X\<close> those in somebody's hands. Each is open and belongs to
  one side only, and every connection ever made is on one side or closed.\<close>

definition conns_ok :: "ConnectionPool \<Rightarrow> nat list \<Rightarrow> nat set \<Rightarrow> bool" where
  "conns_ok p xs X \<longleftrightarrow> is_list (cp_idle p) (cp_heap p) xs \<and> finite X \<and> set xs \<inter> X = {}
     \<and> (\<forall>x \<in> set xs \<union> X. x < cp_next p \<and> pc_open (cp_heap p x) \<and> \<not> pc_closed (cp_heap p x))
     \<and> (\<forall>x \<in> X. \<not> pc_inPool (cp_heap p x))
     \<and> (\<forall>x < cp_next p. x \<in> set xs \<union> X \<or> \<not> pc_open (cp_heap p x) \<and> pc_closed (cp_heap p x))"

lemma conns_ok_cong:
  "conns_ok p xs X \<Longrightarrow> cp_idle p' = cp_idle p \<Longrightarrow> cp_heap p' = cp_heap p \<Longrightarrow> cp_next p' = cp_next p \<Longrightarrow> conns_ok p' xs X"
  by (simp add: conns_ok_def)

lemma frame_okD: "frame_ok h h' Y \<Longrightarrow> pc_open (h' x) = pc_open (h x) \<and> pc_closed (h' x) = pc_closed (h x)"
  "frame_ok h h' Y \<Longrightarrow> x \<notin> Y \<Longrightarrow> h' x = h x"
  by (auto simp: frame_ok_def same_conn_def)

text \<open>Moving a connection between the two sides.\<close>

lemma conns_ok_move:
  assumes ok: "conns_ok p xs X" and l: "is_list l h ys" "frame_ok (cp_heap p) h (set xs \<union> set ys)"
    and sets: "set ys \<union> Y = set xs \<union> X" "set ys \<inter> Y = {}" "\<And>x. x \<in> Y \<Longrightarrow> x \<notin> X \<Longrightarrow> \<not> pc_inPool (h x)"
  shows "conns_ok (p\<lparr>cp_idle := l, cp_heap := h\<rparr>) ys Y"
proof -
  note f = frame_okD [OF l(2)]
  have "finite (set xs \<union> X)" using ok by (simp add: conns_ok_def)
  then have "finite Y" using sets(1) by (metis finite_Un)
  moreover have "\<not> pc_inPool (h x)" if "x \<in> Y" for x
  proof (cases "x \<in> X")
    case True
    then have "x \<notin> set xs \<union> set ys" using that sets(2) ok by (auto simp: conns_ok_def)
    then show ?thesis using f(2) True ok by (simp add: conns_ok_def)
  qed (use that sets(3) in auto)
  ultimately show ?thesis using ok l(1) sets(1,2) f(1) by (simp add: conns_ok_def)
qed

lemma pop_head_ok:
  assumes "conns_ok p (x # xs) X"
  shows "\<exists>l h. on_idle popHead p = Ok (p\<lparr>cp_idle := l, cp_heap := h\<rparr>) \<and> conns_ok (p\<lparr>cp_idle := l, cp_heap := h\<rparr>) xs (insert x X) \<and> x \<notin> X"
proof -
  have l: "is_list (cp_idle p) (cp_heap p) (x # xs)" using assms by (simp add: conns_ok_def)
  then obtain l h where lh: "popHead (cp_idle p) (cp_heap p) = Ok (l, h)" "is_list l h xs"
    "frame_ok (cp_heap p) h (insert x (set xs))" "\<not> pc_inPool (h x)" using popHead_list by blast
  have "x \<notin> set xs" using l by (simp add: is_list_def)
  then have "conns_ok (p\<lparr>cp_idle := l, cp_heap := h\<rparr>) xs (insert x X)"
    using lh assms by (intro conns_ok_move [OF assms]) (auto simp: conns_ok_def insert_absorb)
  moreover have "on_idle popHead p = Ok (p\<lparr>cp_idle := l, cp_heap := h\<rparr>)" using lh(1) by (simp add: on_idle_def)
  moreover have "x \<notin> X" using assms by (simp add: conns_ok_def)
  ultimately show ?thesis by blast
qed

lemma pop_tail_ok:
  assumes "conns_ok p (xs @ [x]) X"
  shows "\<exists>l h. on_idle popTail p = Ok (p\<lparr>cp_idle := l, cp_heap := h\<rparr>) \<and> conns_ok (p\<lparr>cp_idle := l, cp_heap := h\<rparr>) xs (insert x X)
    \<and> x \<notin> X \<and> cl_tail (cp_idle p) = Some x"
proof -
  have l: "is_list (cp_idle p) (cp_heap p) (xs @ [x])" using assms by (simp add: conns_ok_def)
  then obtain l h where lh: "popTail (cp_idle p) (cp_heap p) = Ok (l, h)" "is_list l h xs"
    "frame_ok (cp_heap p) h (insert x (set xs))" "\<not> pc_inPool (h x)" using popTail_list by blast
  have "x \<notin> set xs" using l by (simp add: is_list_def)
  then have "conns_ok (p\<lparr>cp_idle := l, cp_heap := h\<rparr>) xs (insert x X)"
    using lh assms by (intro conns_ok_move [OF assms]) (auto simp: conns_ok_def insert_absorb)
  moreover have "on_idle popTail p = Ok (p\<lparr>cp_idle := l, cp_heap := h\<rparr>)" using lh(1) by (simp add: on_idle_def)
  moreover have "x \<notin> X" using assms by (simp add: conns_ok_def)
  moreover have "cl_tail (cp_idle p) = Some x" using l by (simp add: is_list_def)
  ultimately show ?thesis by blast
qed

lemma push_head_ok:
  assumes "conns_ok p xs X" "x \<in> X"
  shows "\<exists>l h. on_idle (pushHead x) p = Ok (p\<lparr>cp_idle := l, cp_heap := h\<rparr>) \<and> conns_ok (p\<lparr>cp_idle := l, cp_heap := h\<rparr>) (x # xs) (X - {x})"
proof -
  have l: "is_list (cp_idle p) (cp_heap p) xs" "x \<notin> set xs" using assms by (auto simp: conns_ok_def)
  then obtain l h where lh: "pushHead x (cp_idle p) (cp_heap p) = Ok (l, h)" "is_list l h (x # xs)"
    "frame_ok (cp_heap p) h (insert x (set xs))" using pushHead_list by blast
  have "conns_ok (p\<lparr>cp_idle := l, cp_heap := h\<rparr>) (x # xs) (X - {x})"
    using lh assms by (intro conns_ok_move [OF assms(1)]) (auto simp: conns_ok_def insert_absorb Un_absorb1)
  moreover have "on_idle (pushHead x) p = Ok (p\<lparr>cp_idle := l, cp_heap := h\<rparr>)" using lh(1) by (simp add: on_idle_def)
  ultimately show ?thesis by blast
qed

lemma push_tail_ok:
  assumes "conns_ok p xs X" "x \<in> X"
  shows "\<exists>l h. on_idle (pushTail x) p = Ok (p\<lparr>cp_idle := l, cp_heap := h\<rparr>) \<and> conns_ok (p\<lparr>cp_idle := l, cp_heap := h\<rparr>) (xs @ [x]) (X - {x})"
proof -
  have l: "is_list (cp_idle p) (cp_heap p) xs" "x \<notin> set xs" using assms by (auto simp: conns_ok_def)
  then obtain l h where lh: "pushTail x (cp_idle p) (cp_heap p) = Ok (l, h)" "is_list l h (xs @ [x])"
    "frame_ok (cp_heap p) h (insert x (set xs))" using pushTail_list by blast
  have "conns_ok (p\<lparr>cp_idle := l, cp_heap := h\<rparr>) (xs @ [x]) (X - {x})"
    using lh assms by (intro conns_ok_move [OF assms(1)]) (auto simp: conns_ok_def insert_absorb Un_absorb1)
  moreover have "on_idle (pushTail x) p = Ok (p\<lparr>cp_idle := l, cp_heap := h\<rparr>)" using lh(1) by (simp add: on_idle_def)
  ultimately show ?thesis by blast
qed

lemma push_idle_ok:
  assumes "conns_ok p xs X" "x \<in> X"
  shows "\<exists>l h ys. push_idle cfg x p = Ok (p\<lparr>cp_idle := l, cp_heap := h\<rparr>) \<and> conns_ok (p\<lparr>cp_idle := l, cp_heap := h\<rparr>) ys (X - {x})
    \<and> length ys = Suc (length xs) \<and> set ys = insert x (set xs)"
  using push_head_ok [OF assms] push_tail_ok [OF assms] unfolding push_idle_def
  by (cases "PushIdleConnToTail cfg") (force+)

text \<open>A change of one connection in somebody's hands.\<close>

lemma is_list_heap:
  assumes "is_list l h xs" "x \<notin> set xs"
  shows "is_list l (h(x := c)) xs"
proof -
  have "linked None h xs" using assms(1) by (simp add: is_list_def)
  then have "linked None (h(x := c)) xs" by (rule linked_cong) (use assms(2) in auto)
  then show ?thesis using assms(1) by (simp add: is_list_def)
qed

lemma close_conn_ok:
  assumes "conns_ok p xs X" "x \<in> X"
  shows "conns_ok (close_conn x p) xs (X - {x})"
proof -
  have "x \<notin> set xs" using assms by (auto simp: conns_ok_def)
  then show ?thesis using assms is_list_heap by (auto simp: conns_ok_def close_conn_def upd_conn_def)
qed

lemma touch_ok:
  assumes "conns_ok p xs X" "x \<in> X"
  shows "conns_ok (upd_conn x (\<lambda>c. c\<lparr>pc_t := now\<rparr>) p) xs X"
proof -
  have "x \<notin> set xs" using assms by (auto simp: conns_ok_def)
  then show ?thesis using assms is_list_heap by (auto simp: conns_ok_def upd_conn_def)
qed

lemma newPoolConn_ok:
  assumes "conns_ok p xs X" "newPoolConn cfg now p = (p', x)"
  shows "conns_ok p' xs (insert x X)" "x \<notin> X" "x = cp_next p" "cp_idle p' = cp_idle p"
proof -
  have new: "cp_next p \<notin> set xs" "cp_next p \<notin> X" using assms(1) by (auto simp: conns_ok_def)
  show x: "x \<notin> X" "x = cp_next p" "cp_idle p' = cp_idle p" using assms(2) new by (auto simp: newPoolConn_def)
  have h: "cp_heap p' y = cp_heap p y" if "y \<noteq> x" for y using assms(2) that by (auto simp: newPoolConn_def)
  have hx: "pc_open (cp_heap p' x)" "\<not> pc_closed (cp_heap p' x)" "\<not> pc_inPool (cp_heap p' x)" "cp_next p' = Suc x"
    using assms(2) by (auto simp: newPoolConn_def)
  have "is_list (cp_idle p') (cp_heap p') xs"
    using assms is_list_heap [of "cp_idle p" "cp_heap p" xs] new(1) by (auto simp: newPoolConn_def conns_ok_def)
  moreover have "y < Suc x" "pc_open (cp_heap p' y)" "\<not> pc_closed (cp_heap p' y)" "y \<noteq> x" if "y \<in> set xs \<union> X" for y
  proof -
    have y: "y < cp_next p" "pc_open (cp_heap p y)" "\<not> pc_closed (cp_heap p y)"
      using that assms(1) unfolding conns_ok_def by blast+
    then show "y < Suc x" "pc_open (cp_heap p' y)" "\<not> pc_closed (cp_heap p' y)" "y \<noteq> x" using h [of y] x(2) by auto
  qed
  moreover have "\<not> pc_inPool (cp_heap p' y)" if "y \<in> X" for y
  proof -
    have "y \<noteq> x" using that x(1) by blast
    then show ?thesis using h [of y] that assms(1) by (simp add: conns_ok_def)
  qed
  moreover have "y \<in> set xs \<union> X \<or> \<not> pc_open (cp_heap p' y) \<and> pc_closed (cp_heap p' y)" if "y < x" for y
    using that assms(1) h [of y] x(2) by (auto simp: conns_ok_def)
  ultimately show "conns_ok p' xs (insert x X)"
    using assms(1) hx new x(2) unfolding conns_ok_def by (auto simp: less_Suc_eq)
qed

subsection \<open>The invariant of a pool\<close>

text \<open>\<open>n\<close> tokens are out, and \<open>X\<close> are the connections in users' hands.\<close>

definition sizes_ok :: "pool_cfg \<Rightarrow> ConnectionPool \<Rightarrow> nat list \<Rightarrow> nat \<Rightarrow> bool" where
  "sizes_ok cfg p xs n \<longleftrightarrow> cp_idleSize p = int (length xs) \<and> (cp_closed p \<longrightarrow> xs = [])
     \<and> int (length xs) \<le> max 0 (max (MaxIdle cfg) (MinIdle cfg))
     \<and> (0 < MaxActive cfg \<longrightarrow> cp_token p = n \<and> int n \<le> MaxActive cfg)"

definition pool_inv :: "pool_cfg \<Rightarrow> ConnectionPool \<Rightarrow> nat set \<Rightarrow> bool" where
  "pool_inv cfg p X \<longleftrightarrow> (\<exists>xs. conns_ok p xs X \<and> sizes_ok cfg p xs (card X))"

lemma new_pool_inv: "pool_inv cfg new_ConnectionPool {}"
  unfolding pool_inv_def
  by (rule exI [of _ "[]"])
    (simp add: conns_ok_def sizes_ok_def new_ConnectionPool_def empty_connList_def is_list_def)

lemma getIdleConn_ok:
  "conns_ok p xs X \<Longrightarrow> sizes_ok cfg p xs n \<Longrightarrow> length xs < fuel \<Longrightarrow>
     \<exists>p' r ys. getIdleConn_loop fuel chk p = Ok (p', r) \<and> cp_closed p' = cp_closed p \<and> cp_used p' = cp_used p \<and> cp_lastGetTime p' = cp_lastGetTime p
       \<and> cp_token p' = cp_token p \<and> sizes_ok cfg p' ys n
       \<and> cp_next p' = cp_next p
       \<and> (case r of None \<Rightarrow> ys = [] \<and> conns_ok p' ys X
          | Some x \<Rightarrow> x \<in> set xs \<and> x \<notin> X \<and> chk x \<and> conns_ok p' ys (insert x X))"
proof (induction fuel arbitrary: p xs)
  case (Suc fuel)
  have head: "cl_head (cp_idle p) = (case xs of [] \<Rightarrow> None | x # _ \<Rightarrow> Some x)"
    using Suc.prems(1) by (simp add: conns_ok_def is_list_def)
  show ?case
  proof (cases xs)
    case Nil
    then show ?thesis using Suc.prems head by auto
  next
    case (Cons x ys)
    from pop_head_ok [OF Suc.prems(1) [unfolded Cons]] obtain l h where
      pop: "on_idle popHead p = Ok (p\<lparr>cp_idle := l, cp_heap := h\<rparr>)" "conns_ok (p\<lparr>cp_idle := l, cp_heap := h\<rparr>) ys (insert x X)" "x \<notin> X"
      by blast
    let ?p = "p\<lparr>cp_idle := l, cp_heap := h, cp_idleSize := cp_idleSize p - 1\<rparr>"
    have c: "conns_ok ?p ys (insert x X)" using conns_ok_cong [OF pop(2), of ?p] by simp
    have s: "sizes_ok cfg ?p ys n" using Suc.prems(2) Cons by (auto simp: sizes_ok_def)
    show ?thesis
    proof (cases "chk x")
      case True
      then have "getIdleConn_loop (Suc fuel) chk p = Ok (?p, Some x)" using head Cons pop(1) by (simp add: Let_def)
      then show ?thesis using c s True pop(3) Cons by auto
    next
      case False
      have "conns_ok (close_conn x ?p) ys X" using close_conn_ok [OF c, of x] pop(3) by simp
      moreover have "sizes_ok cfg (close_conn x ?p) ys n" using s by (simp add: sizes_ok_def close_conn_def upd_conn_def)
      moreover have "getIdleConn_loop (Suc fuel) chk p = getIdleConn_loop fuel chk (close_conn x ?p)"
        using head Cons pop(1) False by (simp add: Let_def)
      ultimately show ?thesis
        using Suc.IH [of "close_conn x ?p" ys] Suc.prems(3) Cons
        by (fastforce simp: close_conn_def upd_conn_def split: option.splits)
    qed
  qed
qed simp

lemma list_count: "conns_ok p xs X \<Longrightarrow> cl_count (cp_idle p) = int (length xs)"
  by (simp add: conns_ok_def is_list_def)

text \<open>Why \<open>Get\<close> fails, with \<open>n\<close> connections in use.\<close>

definition get_error :: "pool_cfg \<Rightarrow> ConnectionPool \<Rightarrow> nat \<Rightarrow> bool \<Rightarrow> pool_error \<Rightarrow> bool" where
  "get_error cfg p n dialOk e \<longleftrightarrow>
     (if 0 < MaxActive cfg \<and> MaxActive cfg \<le> int n then e = (if Wait cfg then ErrCtxDone else ErrPoolLimit)
      else if cp_closed p then e = ErrPoolClosed
      else \<not> dialOk \<and> e = ErrDial)"

lemma get_error_cases [simp]: "\<not> get_error cfg p n dialOk Blocked" "\<not> get_error cfg p n dialOk NoFuel"
  by (auto simp: get_error_def)

text \<open>What \<open>Get\<close> does: it fails and nothing is handed out, or it hands out one connection that nobody had.\<close>

lemma cp_get_inv:
  assumes "pool_inv cfg p X" "cp_get cfg now dialOk chk p = (p', r)"
  shows "(case r of
           Ok x \<Rightarrow> x \<notin> X \<and> (chk x \<or> x = cp_next p) \<and> pool_inv cfg p' (insert x X) \<and> cp_used p' = cp_used p + 1
         | Err e \<Rightarrow> pool_inv cfg p' X \<and> get_error cfg p (card X) dialOk e
             \<and> cp_used p' = cp_used p + (if e = ErrDial \<or> e = ErrPoolClosed then 1 else 0)
         | Panic \<Rightarrow> False)"
proof -
  from assms(1) obtain xs where xs: "conns_ok p xs X" "sizes_ok cfg p xs (card X)" by (auto simp: pool_inv_def)
  have fin: "finite X" using xs(1) by (simp add: conns_ok_def)
  show ?thesis
  proof (cases "getToken cfg p")
    case (Ok p1)
    let ?p = "p1\<lparr>cp_lastGetTime := now, cp_used := cp_used p1 + 1\<rparr>"
    have eq: "cp_idle ?p = cp_idle p" "cp_heap ?p = cp_heap p" "cp_next ?p = cp_next p" "cp_used ?p = cp_used p + 1"
      "cp_closed ?p = cp_closed p" "cp_idleSize ?p = cp_idleSize p"
      using Ok by (auto simp: getToken_def split: if_splits)
    have free: "MaxActive cfg \<le> 0 \<or> int (card X) < MaxActive cfg"
      using xs(2) Ok by (auto simp: sizes_ok_def getToken_def split: if_splits)
    have c: "conns_ok ?p xs X" by (rule conns_ok_cong [OF xs(1) eq(1-3)])
    have s: "sizes_ok cfg ?p xs (Suc (card X))"
      using xs(2) Ok eq by (auto simp: sizes_ok_def getToken_def split: if_splits)
    obtain p2 r2 ys where idle: "getIdleConn chk ?p = Ok (p2, r2)" "cp_used p2 = cp_used ?p" "sizes_ok cfg p2 ys (Suc (card X))"
      "case r2 of None \<Rightarrow> ys = [] \<and> conns_ok p2 ys X | Some x \<Rightarrow> x \<in> set xs \<and> x \<notin> X \<and> chk x \<and> conns_ok p2 ys (insert x X)"
      "cp_closed p2 = cp_closed ?p" "cp_next p2 = cp_next ?p"
    proof -
      have "getIdleConn chk ?p = getIdleConn_loop (Suc (length xs)) chk ?p"
        unfolding getIdleConn_def list_count [OF c] by simp
      moreover obtain p2 r2 ys where "getIdleConn_loop (Suc (length xs)) chk ?p = res.Ok (p2, r2) \<and> cp_closed p2 = cp_closed ?p
          \<and> cp_used p2 = cp_used ?p \<and> cp_lastGetTime p2 = cp_lastGetTime ?p \<and> cp_token p2 = cp_token ?p
          \<and> sizes_ok cfg p2 ys (Suc (card X)) \<and> cp_next p2 = cp_next ?p
          \<and> (case r2 of None \<Rightarrow> ys = [] \<and> conns_ok p2 ys X | Some x \<Rightarrow> x \<in> set xs \<and> x \<notin> X \<and> chk x \<and> conns_ok p2 ys (insert x X))"
        using getIdleConn_ok [OF c s lessI, of chk] by (elim exE) (rule that)
      ultimately show thesis by (intro that [of p2 r2 ys]) simp_all
    qed
    show ?thesis
    proof (cases r2)
      case (Some x)
      then have "p' = p2" "r = res.Ok x" using assms(2) Ok idle(1) by (auto simp: cp_get_def Let_def)
      moreover have "pool_inv cfg p2 (insert x X)" using idle(3,4) Some fin by (auto simp: pool_inv_def)
      ultimately show ?thesis using idle(2,4) Some eq(4) by simp
    next
      case None
      show ?thesis
      proof (cases "cp_closed p2 \<or> \<not> dialOk")
        case True
        obtain p3 where p3: "freeToken cfg p2 = res.Ok p3" "cp_idle p3 = cp_idle p2" "cp_heap p3 = cp_heap p2" "cp_next p3 = cp_next p2"
          "sizes_ok cfg p3 ys (card X)" "cp_used p3 = cp_used p2"
          using idle(3) by (auto simp: freeToken_def sizes_ok_def split: nat.splits)
        then have "pool_inv cfg p3 X"
          using conns_ok_cong [of p2 ys X p3] idle(4) None by (auto simp: pool_inv_def)
        then show ?thesis
          using assms(2) Ok idle(1,2,5) None True p3(1,6) eq(4,5) free
          by (auto simp: cp_get_def Let_def getNewConn_def get_error_def split: if_splits)
      next
        case False
        obtain p3 x where new: "newPoolConn cfg now p2 = (p3, x)" by (cases "newPoolConn cfg now p2")
        have c2: "conns_ok p2 ys X" using idle(4) None by auto
        note n = newPoolConn_ok [OF c2 new]
        have "sizes_ok cfg p3 ys (card (insert x X))" using idle(3) new n(2) fin by (auto simp: sizes_ok_def newPoolConn_def)
        moreover have "cp_used p3 = cp_used p2" using new by (auto simp: newPoolConn_def)
        moreover have "p' = p3" "r = res.Ok x"
          using assms(2) Ok idle(1) None False new by (auto simp: cp_get_def Let_def getNewConn_def)
        ultimately show ?thesis using n(1-3) idle(2,6) eq(3,4) by (auto simp: pool_inv_def)
      qed
    qed
  next
    case (Err e)
    then have "p' = p" "r = res.Err e" "get_error cfg p (card X) dialOk e" "e \<noteq> ErrDial" "e \<noteq> ErrPoolClosed"
      using assms(2) xs(2) by (auto simp: cp_get_def getToken_def get_error_def sizes_ok_def split: if_splits)
    then show ?thesis using assms(1) by simp
  qed (simp add: getToken_def split: if_splits)
qed

lemma freeToken_ok:
  assumes "sizes_ok cfg p xs (card X)" "x \<in> X" "finite X"
  shows "\<exists>t. freeToken cfg p = Ok (p\<lparr>cp_token := t\<rparr>) \<and> sizes_ok cfg (p\<lparr>cp_token := t\<rparr>) xs (card (X - {x}))"
proof -
  have "card X = Suc (card (X - {x}))" using assms(2,3) by (metis card_Suc_Diff1)
  then show ?thesis
    using assms(1) by (auto simp: freeToken_def sizes_ok_def split: nat.splits intro: exI [of _ "cp_token p"])
qed

text \<open>Returning a connection: it becomes idle or is closed, or the oldest idle one is closed in its place.\<close>

lemma put_idle_ok:
  assumes c: "conns_ok p xs X" and s: "sizes_ok cfg p xs n" and x: "x \<in> X"
  shows "\<exists>p' v ys. put_idle cfg now x f p = Ok (p', v) \<and> cp_used p' = cp_used p
    \<and> conns_ok (case v of None \<Rightarrow> p' | Some v \<Rightarrow> close_conn v p') ys (X - {x})
    \<and> sizes_ok cfg (case v of None \<Rightarrow> p' | Some v \<Rightarrow> close_conn v p') ys n"
proof (cases "\<not> cp_closed p \<and> \<not> f")
  case False
  then have "put_idle cfg now x f p = Ok (p, Some x)" by (auto simp: put_idle_def)
  moreover have "sizes_ok cfg (close_conn x p) xs n" using s by (simp add: sizes_ok_def close_conn_def upd_conn_def)
  ultimately show ?thesis using close_conn_ok [OF c x] by auto
next
  case True
  let ?p0 = "upd_conn x (\<lambda>c. c\<lparr>pc_t := now\<rparr>) p"
  from push_idle_ok [OF touch_ok [OF c x] x] obtain l h ys where
    push: "push_idle cfg x ?p0 = Ok (?p0\<lparr>cp_idle := l, cp_heap := h\<rparr>)" "conns_ok (?p0\<lparr>cp_idle := l, cp_heap := h\<rparr>) ys (X - {x})"
    "length ys = Suc (length xs)" by metis
  let ?p1 = "?p0\<lparr>cp_idle := l, cp_heap := h\<rparr>"
  have f1: "cp_idleSize ?p1 = cp_idleSize p" "cp_closed ?p1 = cp_closed p" "cp_token ?p1 = cp_token p" "cp_used ?p1 = cp_used p"
    by (simp_all add: upd_conn_def)
  show ?thesis
  proof (cases "cp_idleSize p \<ge> MaxIdle cfg")
    case full: True
    obtain zs v where ys: "ys = zs @ [v]" using push(3) by (cases ys rule: rev_cases) auto
    from pop_tail_ok [OF push(2) [unfolded ys]] obtain l2 h2 where
      pop: "on_idle popTail ?p1 = Ok (?p1\<lparr>cp_idle := l2, cp_heap := h2\<rparr>)"
        "conns_ok (?p1\<lparr>cp_idle := l2, cp_heap := h2\<rparr>) zs (insert v (X - {x}))" "v \<notin> X - {x}" "cl_tail (cp_idle ?p1) = Some v"
      by blast
    let ?p2 = "?p1\<lparr>cp_idle := l2, cp_heap := h2\<rparr>"
    have "put_idle cfg now x f p = Ok (?p2, Some v)"
      using True full push(1) pop(1,4) f1 by (simp add: put_idle_def Let_def)
    moreover have "conns_ok (close_conn v ?p2) zs (X - {x})" using close_conn_ok [OF pop(2), of v] pop(3) by simp
    moreover have "sizes_ok cfg (close_conn v ?p2) zs n"
      using s True push(3) ys by (auto simp: sizes_ok_def close_conn_def upd_conn_def)
    moreover have "cp_used ?p2 = cp_used p" by (simp add: upd_conn_def)
    ultimately show ?thesis by (intro exI [of _ ?p2] exI [of _ "Some v"] exI [of _ zs]) simp
  next
    case False
    let ?p2 = "?p1\<lparr>cp_idleSize := cp_idleSize ?p1 + 1\<rparr>"
    have "put_idle cfg now x f p = Ok (?p2, None)"
      using True False push(1) f1 by (simp add: put_idle_def Let_def)
    moreover have "conns_ok ?p2 ys (X - {x})" using conns_ok_cong [OF push(2), of ?p2] by simp
    moreover have "sizes_ok cfg ?p2 ys n" using s True False push(3) by (auto simp: sizes_ok_def upd_conn_def)
    moreover have "cp_used ?p2 = cp_used p" by (simp add: upd_conn_def)
    ultimately show ?thesis by (intro exI [of _ ?p2] exI [of _ None] exI [of _ ys]) simp
  qed
qed

lemma cp_put_inv:
  assumes inv: "pool_inv cfg p X" and x: "x \<in> X"
  shows "\<exists>p'. cp_put cfg now x f p = Ok p' \<and> pool_inv cfg p' (X - {x}) \<and> cp_used p' = cp_used p - 1"
proof -
  from inv obtain xs where xs: "conns_ok p xs X" "sizes_ok cfg p xs (card X)" by (auto simp: pool_inv_def)
  have open_x: "\<not> pc_closed (cp_heap p x)" "finite X" using xs(1) x by (auto simp: conns_ok_def)
  obtain p1 v ys where p1: "put_idle cfg now x f p = Ok (p1, v)" "cp_used p1 = cp_used p"
    "conns_ok (case v of None \<Rightarrow> p1 | Some v \<Rightarrow> close_conn v p1) ys (X - {x})"
    "sizes_ok cfg (case v of None \<Rightarrow> p1 | Some v \<Rightarrow> close_conn v p1) ys (card X)"
    using put_idle_ok [OF xs x, of now f] by blast
  let ?p2 = "case v of None \<Rightarrow> p1 | Some v \<Rightarrow> close_conn v p1"
  from freeToken_ok [OF p1(4) x open_x(2)] obtain t where
    t: "freeToken cfg ?p2 = Ok (?p2\<lparr>cp_token := t\<rparr>)" "sizes_ok cfg (?p2\<lparr>cp_token := t\<rparr>) ys (card (X - {x}))" by blast
  let ?p3 = "?p2\<lparr>cp_token := t, cp_used := cp_used ?p2 - 1\<rparr>"
  have "cp_put cfg now x f p = Ok ?p3" using open_x p1(1) t(1) by (simp add: cp_put_def Let_def)
  moreover have "conns_ok ?p3 ys (X - {x})" using conns_ok_cong [OF p1(3), of ?p3] by simp
  moreover have "sizes_ok cfg ?p3 ys (card (X - {x}))" using t(2) by (simp add: sizes_ok_def)
  moreover have "cp_used ?p3 = cp_used p - 1"
    using p1(2) by (simp add: close_conn_def upd_conn_def split: option.split)
  ultimately show ?thesis by (auto simp: pool_inv_def)
qed

lemma checkHealth_ok:
  "conns_ok p xs X \<Longrightarrow> sizes_ok cfg p xs m \<Longrightarrow>
     \<exists>p' ys. checkHealth_loop n chk p = Ok p' \<and> conns_ok p' ys X \<and> sizes_ok cfg p' ys m
       \<and> cp_used p' = cp_used p \<and> cp_closed p' = cp_closed p"
proof (induction n arbitrary: p xs)
  case (Suc n)
  have head: "cl_head (cp_idle p) = (case xs of [] \<Rightarrow> None | x # _ \<Rightarrow> Some x)"
    using Suc.prems(1) by (simp add: conns_ok_def is_list_def)
  show ?case
  proof (cases xs)
    case Nil
    then show ?thesis using Suc.prems head by auto
  next
    case (Cons x ys)
    from pop_head_ok [OF Suc.prems(1) [unfolded Cons]] obtain l h where
      pop: "on_idle popHead p = Ok (p\<lparr>cp_idle := l, cp_heap := h\<rparr>)" "conns_ok (p\<lparr>cp_idle := l, cp_heap := h\<rparr>) ys (insert x X)" "x \<notin> X"
      by blast
    let ?p = "p\<lparr>cp_idle := l, cp_heap := h, cp_idleSize := cp_idleSize p - 1\<rparr>"
    have c: "conns_ok ?p ys (insert x X)" using conns_ok_cong [OF pop(2), of ?p] by simp
    have X: "insert x X - {x} = X" using pop(3) by simp
    have nc: "\<not> cp_closed p" using Suc.prems(2) Cons by (simp add: sizes_ok_def)
    show ?thesis
    proof (cases "chk x")
      case True
      let ?p' = "?p\<lparr>cp_idleSize := cp_idleSize ?p + 1\<rparr>"
      have "conns_ok ?p' ys (insert x X)" using conns_ok_cong [OF c, of ?p'] by simp
      from push_tail_ok [OF this insertI1, unfolded X] obtain l2 h2 where
        push: "on_idle (pushTail x) ?p' = Ok (?p'\<lparr>cp_idle := l2, cp_heap := h2\<rparr>)"
          "conns_ok (?p'\<lparr>cp_idle := l2, cp_heap := h2\<rparr>) (ys @ [x]) X" by blast
      have "sizes_ok cfg (?p'\<lparr>cp_idle := l2, cp_heap := h2\<rparr>) (ys @ [x]) m"
        using Suc.prems(2) Cons nc by (auto simp: sizes_ok_def)
      from Suc.IH [OF push(2) this] show ?thesis
        using True head Cons pop(1) push(1) by (simp add: check_pop_def check_push_def)
    next
      case False
      have "conns_ok (close_conn x ?p) ys X" using close_conn_ok [OF c insertI1] X by simp
      moreover have "sizes_ok cfg (close_conn x ?p) ys m"
        using Suc.prems(2) Cons nc by (auto simp: sizes_ok_def close_conn_def upd_conn_def)
      ultimately show ?thesis
        using Suc.IH [of "close_conn x ?p" ys] False head Cons pop(1)
        by (simp add: check_pop_def check_push_def) (simp add: close_conn_def upd_conn_def)
    qed
  qed
qed auto

lemma checkHealthOnce_inv:
  assumes "pool_inv cfg p X"
  shows "\<exists>p'. checkHealthOnce chk p = Ok p' \<and> pool_inv cfg p' X \<and> cp_used p' = cp_used p"
  using assms checkHealth_ok unfolding pool_inv_def checkHealthOnce_def by blast

text \<open>While \<open>keepMinIdles\<close> runs, the places of the dials still to come are reserved in \<open>idleSize\<close>.\<close>

definition reserved_ok :: "pool_cfg \<Rightarrow> ConnectionPool \<Rightarrow> nat list \<Rightarrow> nat \<Rightarrow> nat \<Rightarrow> bool" where
  "reserved_ok cfg p xs k n \<longleftrightarrow> cp_idleSize p = int (length xs + k) \<and> (cp_closed p \<longrightarrow> xs = [])
     \<and> int (length xs + k) \<le> max 0 (max (MaxIdle cfg) (MinIdle cfg))
     \<and> (0 < MaxActive cfg \<longrightarrow> cp_token p = n \<and> int n \<le> MaxActive cfg)"

lemma addIdleConn_ok:
  assumes c: "conns_ok p xs X" and s: "reserved_ok cfg p xs (Suc k) n"
  shows "\<exists>p' e ys. addIdleConn cfg now ok p = Ok (p', e) \<and> cp_used p' = cp_used p \<and> conns_ok p' ys X
    \<and> reserved_ok cfg (if e = None then p' else p'\<lparr>cp_idleSize := cp_idleSize p' - 1\<rparr>) ys k n"
proof (cases "cp_closed p \<or> \<not> ok")
  case True
  have "reserved_ok cfg (p\<lparr>cp_idleSize := cp_idleSize p - 1\<rparr>) xs k n" using s by (auto simp: reserved_ok_def)
  then show ?thesis using True c by (auto simp: addIdleConn_def)
next
  case False
  obtain p1 x where new: "newPoolConn cfg now p = (p1, x)" by (cases "newPoolConn cfg now p")
  note n = newPoolConn_ok [OF c new]
  have p1: "cp_closed p1 = cp_closed p" "cp_used p1 = cp_used p" "cp_idleSize p1 = cp_idleSize p" "cp_token p1 = cp_token p"
    using new by (auto simp: newPoolConn_def)
  let ?p0 = "upd_conn x (\<lambda>c. c\<lparr>pc_t := now\<rparr>) p1"
  have X: "insert x X - {x} = X" using n(2) by simp
  from push_idle_ok [OF touch_ok [OF n(1) insertI1] insertI1, unfolded X] obtain l h ys where
    push: "push_idle cfg x ?p0 = Ok (?p0\<lparr>cp_idle := l, cp_heap := h\<rparr>)" "conns_ok (?p0\<lparr>cp_idle := l, cp_heap := h\<rparr>) ys X"
    "length ys = Suc (length xs)" by metis
  let ?p2 = "?p0\<lparr>cp_idle := l, cp_heap := h\<rparr>"
  have "reserved_ok cfg ?p2 ys k n" using s p1 push(3) False by (auto simp: reserved_ok_def upd_conn_def)
  moreover have "addIdleConn cfg now ok p = Ok (?p2, None)" using False new push(1) p1 by (simp add: addIdleConn_def)
  moreover have "cp_used ?p2 = cp_used p" using p1 by (simp add: upd_conn_def)
  ultimately show ?thesis using push(2) by (intro exI [of _ ?p2] exI [of _ None] exI [of _ ys]) simp
qed

lemma addIdle_loop_ok:
  "conns_ok p xs X \<Longrightarrow> reserved_ok cfg p xs (length oks) n \<Longrightarrow>
     \<exists>p' ys. addIdle_loop cfg now oks p = Ok p' \<and> cp_used p' = cp_used p \<and> conns_ok p' ys X \<and> reserved_ok cfg p' ys 0 n"
proof (induction oks arbitrary: p xs)
  case (Cons ok oks)
  from addIdleConn_ok [OF Cons.prems(1), of cfg "length oks" n now ok] Cons.prems(2) obtain p1 e ys where
    p1: "addIdleConn cfg now ok p = Ok (p1, e)" "cp_used p1 = cp_used p" "conns_ok p1 ys X"
      "reserved_ok cfg (if e = None then p1 else p1\<lparr>cp_idleSize := cp_idleSize p1 - 1\<rparr>) ys (length oks) n" by auto
  let ?p = "if e = None then p1 else p1\<lparr>cp_idleSize := cp_idleSize p1 - 1\<rparr>"
  have "conns_ok ?p ys X" using conns_ok_cong [OF p1(3), of ?p] by simp
  from Cons.IH [OF this p1(4)] show ?case using p1(1,2) by (cases e) auto
qed auto

lemma keepMinIdles_inv:
  assumes "pool_inv cfg p X"
  shows "\<exists>p'. keepMinIdles cfg now dials p = Ok p' \<and> pool_inv cfg p' X \<and> cp_used p' = cp_used p"
proof -
  from assms obtain xs where xs: "conns_ok p xs X" "sizes_ok cfg p xs (card X)" by (auto simp: pool_inv_def)
  let ?count = "MinIdle cfg - cp_idleSize p"
  let ?p = "if ?count > 0 then p\<lparr>cp_idleSize := cp_idleSize p + ?count\<rparr> else p"
  have c: "conns_ok ?p xs X" using conns_ok_cong [OF xs(1), of ?p] by simp
  have "reserved_ok cfg ?p xs (length (map dials [0..<nat ?count])) (card X)"
    using xs(2) by (auto simp: reserved_ok_def sizes_ok_def)
  from addIdle_loop_ok [OF c this, of now] obtain p' ys where
    p': "addIdle_loop cfg now (map dials [0..<nat ?count]) ?p = Ok p'" "cp_used p' = cp_used ?p" "conns_ok p' ys X" "reserved_ok cfg p' ys 0 (card X)"
    by blast
  have "sizes_ok cfg p' ys (card X)" using p'(4) by (simp add: reserved_ok_def sizes_ok_def)
  then show ?thesis using p' by (auto simp: keepMinIdles_def Let_def pool_inv_def split: if_splits)
qed

text \<open>\<open>Close\<close> walks along the links of the detached list.\<close>

definition close_all :: "nat list \<Rightarrow> ConnectionPool \<Rightarrow> ConnectionPool" where
  "close_all xs p = foldl (\<lambda>p x. close_conn x p) p xs"

lemma close_chain_list:
  "linked q (cp_heap p) xs \<Longrightarrow> distinct xs \<Longrightarrow>
     close_chain (length xs) (case xs of [] \<Rightarrow> None | x # _ \<Rightarrow> Some x) p = Ok (close_all xs p)"
proof (induction xs arbitrary: q p)
  case (Cons x xs)
  have "linked (Some x) (cp_heap (close_conn x p)) xs"
    by (rule linked_cong [of _ "cp_heap p"]) (use Cons.prems in \<open>auto simp: close_conn_def upd_conn_def\<close>)
  moreover have "pc_next (cp_heap p x) = (case xs of [] \<Rightarrow> None | y # _ \<Rightarrow> Some y)" using Cons.prems(1) by simp
  ultimately show ?case using Cons by (simp add: close_all_def)
qed (simp add: close_all_def)

lemma close_all_fields:
  "cp_next (close_all xs p) = cp_next p" "cp_idle (close_all xs p) = cp_idle p" "cp_closed (close_all xs p) = cp_closed p"
  "cp_idleSize (close_all xs p) = cp_idleSize p" "cp_token (close_all xs p) = cp_token p" "cp_used (close_all xs p) = cp_used p"
  "cp_heap (close_all xs p) y = (if y \<in> set xs then (cp_heap p y)\<lparr>pc_open := False, pc_closed := True\<rparr> else cp_heap p y)"
  by (induction xs arbitrary: p) (auto simp: close_all_def close_conn_def upd_conn_def)

lemma cp_Close_inv:
  assumes "pool_inv cfg p X"
  shows "\<exists>p'. cp_Close p = Ok p' \<and> pool_inv cfg p' X \<and> cp_closed p' \<and> cp_used p' = cp_used p"
proof (cases "cp_closed p")
  case True
  then show ?thesis using assms by (simp add: cp_Close_def)
next
  case False
  from assms obtain xs where xs: "conns_ok p xs X" "sizes_ok cfg p xs (card X)" by (auto simp: pool_inv_def)
  let ?p = "p\<lparr>cp_closed := True, cp_idle := empty_connList, cp_idleSize := 0\<rparr>"
  have l: "linked None (cp_heap ?p) xs" "distinct xs" "cl_head (cp_idle p) = (case xs of [] \<Rightarrow> None | x # _ \<Rightarrow> Some x)"
    "nat (cl_count (cp_idle p)) = length xs" using xs(1) by (auto simp: conns_ok_def is_list_def)
  have "cp_Close p = Ok (close_all xs ?p)"
    using False close_chain_list [OF l(1,2)] l(3,4) by (simp add: cp_Close_def)
  moreover have "conns_ok (close_all xs ?p) [] X"
    using xs(1) unfolding conns_ok_def close_all_fields by (auto simp: empty_connList_def is_list_def)
  moreover have "sizes_ok cfg (close_all xs ?p) [] (card X)"
    using xs(2) by (simp add: sizes_ok_def close_all_fields)
  ultimately show ?thesis by (auto simp: pool_inv_def close_all_fields)
qed

lemma checkPoolIdleTimeout_inv:
  assumes "pool_inv cfg p X"
  shows "\<exists>p' b. checkPoolIdleTimeout cfg now p = Ok (p', b) \<and> pool_inv cfg p' X \<and> cp_used p' = cp_used p \<and> (b \<longrightarrow> cp_closed p' \<and> cp_used p = 0)"
proof -
  obtain p1 where p1: "cp_Close p = Ok p1" "pool_inv cfg p1 X" "cp_closed p1" "cp_used p1 = cp_used p"
    using cp_Close_inv [OF assms] by blast
  let ?due = "\<not> (cp_lastGetTime p = 0 \<or> poolIdleTimeout cfg = 0)
    \<and> now - cp_lastGetTime p > poolIdleTimeout cfg \<and> has_onClose cfg \<and> cp_used p = 0"
  have "checkPoolIdleTimeout cfg now p = Ok (if ?due then p1 else p, ?due)"
    using p1(1) by (auto simp: checkPoolIdleTimeout_def)
  then show ?thesis using p1 assms by (intro exI [of _ "if ?due then p1 else p"] exI [of _ ?due]) auto
qed

lemma checkRoutine_inv:
  assumes "pool_inv cfg p X"
  shows "\<exists>p' b. checkRoutine cfg now chk dials p = Ok (p', b) \<and> pool_inv cfg p' X \<and> cp_used p' = cp_used p"
proof (cases "cp_closed p")
  case True
  then show ?thesis using assms by (intro exI [of _ p] exI [of _ True]) (simp add: checkRoutine_def)
next
  case False
  obtain p1 where p1: "checkHealthOnce chk p = Ok p1" "pool_inv cfg p1 X" "cp_used p1 = cp_used p"
    using checkHealthOnce_inv [OF assms] by blast
  obtain p2 b where p2: "checkPoolIdleTimeout cfg now p1 = Ok (p2, b)" "pool_inv cfg p2 X" "cp_used p2 = cp_used p1"
    using checkPoolIdleTimeout_inv [OF p1(2)] by blast
  obtain p3 where p3: "checkMinIdle cfg now dials p2 = Ok p3" "pool_inv cfg p3 X" "cp_used p3 = cp_used p2"
    using keepMinIdles_inv [OF p2(2)] p2(2) by (cases "MinIdle cfg \<le> 0") (auto simp: checkMinIdle_def)
  have "checkRoutine cfg now chk dials p = Ok (if b then p2 else p3, b)"
    using False p1(1) p2(1) p3(1) by (cases b) (auto simp: checkRoutine_def)
  then show ?thesis using p1 p2 p3 by (cases b) auto
qed

subsection \<open>Runs\<close>

text \<open>What happens to a pool: its users get connections, use and return them, the check goroutine makes a
  round, and somebody closes the pool. \<open>Close\<close> may be called on any connection, in particular twice;
  only the holder of a connection reads and writes it. The second component of the state is the set
  of connections in users' hands.\<close>

datatype pool_op =
    DoGet int bool "nat \<Rightarrow> bool"
  | DoClose int nat
  | DoIO int nat bool
  | DoCheck int "nat \<Rightarrow> bool" "nat \<Rightarrow> bool"
  | DoClosePool

fun pool_step :: "pool_cfg \<Rightarrow> pool_op \<Rightarrow> ConnectionPool \<times> nat set \<Rightarrow> (pool_error, ConnectionPool \<times> nat set) res" where
  "pool_step cfg (DoGet now dialOk chk) (p, X) =
     (case cp_get cfg now dialOk chk p of
        (p', Ok x) \<Rightarrow> Ok (p', insert x X)
      | (p', Err e) \<Rightarrow> if e = Blocked \<or> e = NoFuel then Err e else Ok (p', X)
      | (p', Panic) \<Rightarrow> Panic)"
| "pool_step cfg (DoClose now x) (p, X) =
     (if cp_next p \<le> x then Ok (p, X)
      else case pc_Close cfg now x p of
        Ok p' \<Rightarrow> Ok (p', X - {x})
      | Err e \<Rightarrow> if e = ErrConnClosed \<or> e = ErrConnInPool then Ok (p, X) else Err e
      | Panic \<Rightarrow> Panic)"
| "pool_step cfg (DoIO now x ok) (p, X) =
     (if x \<notin> X then Ok (p, X)
      else case pc_IO cfg now x ok p of
        (Ok p', err) \<Rightarrow> Ok (p', if err = Some ErrIO then X - {x} else X)
      | (Err e, err) \<Rightarrow> Err e
      | (Panic, err) \<Rightarrow> Panic)"
| "pool_step cfg (DoCheck now chk dials) (p, X) =
     bind_res (checkRoutine cfg now chk dials p) (\<lambda>(p', stop). Ok (p', X))"
| "pool_step cfg DoClosePool (p, X) = bind_res (cp_Close p) (\<lambda>p'. Ok (p', X))"

fun pool_run :: "pool_cfg \<Rightarrow> pool_op list \<Rightarrow> ConnectionPool \<times> nat set \<Rightarrow> (pool_error, ConnectionPool \<times> nat set) res" where
  "pool_run cfg [] s = Ok s"
| "pool_run cfg (a # as) s = bind_res (pool_step cfg a s) (pool_run cfg as)"

text \<open>How much the counter \<open>used\<close> exceeds the number of connections in use.\<close>

definition used_excess :: "ConnectionPool \<times> nat set \<Rightarrow> int" where
  "used_excess s = cp_used (fst s) - int (card (snd s))"

lemma idle_inPool: "linked q h xs \<Longrightarrow> x \<in> set xs \<Longrightarrow> pc_inPool (h x)"
  by (induction xs arbitrary: q) auto

lemma pool_inv_sides:
  assumes "pool_inv cfg p X" "x < cp_next p"
  shows "x \<in> X \<or> pc_inPool (cp_heap p x) \<or> pc_closed (cp_heap p x)"
  using assms idle_inPool by (auto simp: pool_inv_def conns_ok_def is_list_def)

lemma pool_inv_finite: "pool_inv cfg p X \<Longrightarrow> finite X"
  by (auto simp: pool_inv_def conns_ok_def)

lemma pool_inv_held:
  assumes "pool_inv cfg p X" "x \<in> X"
  shows "\<not> pc_closed (cp_heap p x)" "\<not> pc_inPool (cp_heap p x)" "pc_open (cp_heap p x)" "x < cp_next p"
  using assms by (auto simp: pool_inv_def conns_ok_def)

lemma put_excess:
  assumes "pool_inv cfg p X" "x \<in> X" "cp_used p' = cp_used p - 1"
  shows "used_excess (p', X - {x}) = used_excess (p, X)"
proof -
  have "card X = Suc (card (X - {x}))" using assms(2) pool_inv_finite [OF assms(1)] by (metis card.remove)
  then show ?thesis using assms(3) by (simp add: used_excess_def)
qed

lemma close_step:
  assumes inv: "pool_inv cfg p X"
  shows "\<exists>p' X'. pool_step cfg (DoClose now x) (p, X) = Ok (p', X') \<and> pool_inv cfg p' X' \<and> used_excess (p', X') = used_excess (p, X)"
proof (cases "x \<in> X")
  case True
  then obtain p' where p': "cp_put cfg now x (pc_forceClose (cp_heap p x)) p = Ok p'" "pool_inv cfg p' (X - {x})" "cp_used p' = cp_used p - 1"
    using cp_put_inv [OF inv] by blast
  then show ?thesis
    using pool_inv_held [OF inv True] put_excess [OF inv True p'(3)] by (simp add: pc_Close_def)
next
  case False
  have "pool_step cfg (DoClose now x) (p, X) = Ok (p, X)"
    using pool_inv_sides [OF inv, of x] False by (auto simp: pc_Close_def)
  then show ?thesis using inv by simp
qed

lemma io_step:
  assumes inv: "pool_inv cfg p X"
  shows "\<exists>p' X'. pool_step cfg (DoIO now x ok) (p, X) = Ok (p', X') \<and> pool_inv cfg p' X' \<and> used_excess (p', X') = used_excess (p, X)"
proof (cases "x \<in> X \<and> \<not> ok")
  case True
  then obtain p' where p': "cp_put cfg now x True p = Ok p'" "pool_inv cfg p' (X - {x})" "cp_used p' = cp_used p - 1"
    using cp_put_inv [OF inv] by blast
  then show ?thesis
    using True pool_inv_held(1) [OF inv] put_excess [OF inv _ p'(3)] by (simp add: pc_IO_def)
next
  case False
  then show ?thesis using inv pool_inv_held(1) [OF inv] by (auto simp: pc_IO_def)
qed

lemma get_step:
  assumes inv: "pool_inv cfg p X"
  shows "\<exists>p' X'. pool_step cfg (DoGet now ok chk) (p, X) = Ok (p', X') \<and> pool_inv cfg p' X' \<and> used_excess (p, X) \<le> used_excess (p', X')"
proof -
  obtain p' r where r: "cp_get cfg now ok chk p = (p', r)" by (cases "cp_get cfg now ok chk p")
  show ?thesis using cp_get_inv [OF inv r] r pool_inv_finite [OF inv]
    by (cases r) (auto simp: used_excess_def)
qed

lemma pool_step_inv:
  assumes "pool_inv cfg p X"
  shows "\<exists>p' X'. pool_step cfg a (p, X) = Ok (p', X') \<and> pool_inv cfg p' X' \<and> used_excess (p, X) \<le> used_excess (p', X')"
proof (cases a)
  case (DoGet now ok chk)
  then show ?thesis using get_step [OF assms] by blast
next
  case (DoClose now x)
  then show ?thesis using close_step [OF assms, of now x] by (metis order_refl)
next
  case (DoIO now x ok)
  then show ?thesis using io_step [OF assms, of now x ok] by (metis order_refl)
next
  case (DoCheck now chk dials)
  then show ?thesis using checkRoutine_inv [OF assms, of now chk dials] by (auto simp: used_excess_def)
next
  case DoClosePool
  then show ?thesis using cp_Close_inv [OF assms] by (auto simp: used_excess_def)
qed

lemma pool_run_inv:
  "pool_inv cfg p X \<Longrightarrow>
     \<exists>p' X'. pool_run cfg as (p, X) = Ok (p', X') \<and> pool_inv cfg p' X' \<and> used_excess (p, X) \<le> used_excess (p', X')"
proof (induction as arbitrary: p X)
  case (Cons a as)
  obtain p1 X1 where s: "pool_step cfg a (p, X) = Ok (p1, X1)" "pool_inv cfg p1 X1" "used_excess (p, X) \<le> used_excess (p1, X1)"
    using pool_step_inv [OF Cons.prems] by blast
  then show ?case using Cons.IH [OF s(2)] by auto
qed simp

lemma pool_run_inv':
  assumes "pool_run cfg as (new_ConnectionPool, {}) = Ok (p, X)"
  shows "pool_inv cfg p X" "0 \<le> used_excess (p, X)"
  using pool_run_inv [OF new_pool_inv, of cfg as] assms by (auto simp: used_excess_def new_ConnectionPool_def)

subsection \<open>Properties\<close>

lemma idle_count:
  assumes "conns_ok p xs X"
  shows "{x. x < cp_next p \<and> pc_open (cp_heap p x) \<and> pc_inPool (cp_heap p x)} = set xs" "distinct xs"
  using assms idle_inPool by (auto simp: conns_ok_def is_list_def)


text \<open>A small configuration: one idle connection is kept, two may be in use.\<close>

definition demo_cfg :: pool_cfg where
  "demo_cfg = \<lparr>MinIdle = 0, MaxIdle = 1, MaxActive = 2, IdleTimeout = 0, MaxConnLifetime = 0, poolIdleTimeout = 100,
     Wait = False, PushIdleConnToTail = False, forceClosed = False, has_onClose = True\<rparr>"


text \<open>C30: \<open>Get\<close> on a pool in any state it can reach: it hands out an open connection that no other user
  holds, either a freshly dialled one or an idle one that passed the check, and counts it; or it
  fails with the limit error when \<open>MaxActive\<close> connections are in use, with the closed error when
  the pool is closed, and otherwise only when dialling fails.\<close>

theorem pool_get_correct:
  assumes "pool_run cfg as (new_ConnectionPool, {}) = Ok (p, X)" "cp_get cfg now dialOk chk p = (p', r)"
  shows "case r of
      Ok x \<Rightarrow> x \<notin> X \<and> (chk x \<or> x = cp_next p) \<and> pc_open (cp_heap p' x) \<and> \<not> pc_closed (cp_heap p' x)
        \<and> cp_used p' = cp_used p + 1 \<and> (0 < MaxActive cfg \<longrightarrow> cp_token p' = card X + 1)
    | Err e \<Rightarrow> get_error cfg p (card X) dialOk e \<and> (0 < MaxActive cfg \<longrightarrow> cp_token p' = card X)
    | Panic \<Rightarrow> False"
proof (cases r)
  case (Ok x)
  have inv: "pool_inv cfg p' (insert x X)" "x \<notin> X" "chk x \<or> x = cp_next p" "cp_used p' = cp_used p + 1"
    using cp_get_inv [OF pool_run_inv'(1) [OF assms(1)] assms(2)] Ok by auto
  moreover have "0 < MaxActive cfg \<longrightarrow> cp_token p' = card X + 1"
    using inv(1,2) pool_inv_finite [OF inv(1)] by (auto simp: pool_inv_def sizes_ok_def)
  ultimately show ?thesis using pool_inv_held [OF inv(1), of x] Ok by simp
next
  case (Err e)
  then show ?thesis using cp_get_inv [OF pool_run_inv'(1) [OF assms(1)] assms(2)]
    by (auto simp: pool_inv_def sizes_ok_def)
next
  case Panic
  then show ?thesis using cp_get_inv [OF pool_run_inv'(1) [OF assms(1)] assms(2)] by simp
qed

theorem pool_get_correct_witness:
  "case snd (cp_get demo_cfg 5 False (\<lambda>_. True) new_ConnectionPool) of
      Ok x \<Rightarrow> False | Err e \<Rightarrow> e = ErrDial | Panic \<Rightarrow> False"
  using pool_get_correct [of demo_cfg "[]" new_ConnectionPool "{}" 5 False "\<lambda>_. True", OF _ prod.collapse [symmetric]]
  by (simp add: get_error_def demo_cfg_def new_ConnectionPool_def cp_get_def getToken_def getIdleConn_def empty_connList_def
      getNewConn_def freeToken_def)

text \<open>A \<open>Get\<close> that fails after it got its token, because dialling fails or the pool is closed, has
  counted a connection in \<open>used\<close> and never takes it back: from then on \<open>used\<close> stays above the number
  of connections in use, so that the pool is never again found unused and is not reclaimed.\<close>

theorem failed_get_blocks_reclaim:
  assumes run: "pool_run cfg as (new_ConnectionPool, {}) = Ok (p, X)"
    and fail: "cp_get cfg now dialOk chk p = (p', Err e)" "e = ErrDial \<or> e = ErrPoolClosed"
    and later: "pool_run cfg bs (p', X) = Ok (p'', Y)"
  shows "cp_used p'' > int (card Y) \<and> checkPoolIdleTimeout cfg now' p'' = Ok (p'', False)"
proof -
  note inv = pool_run_inv' [OF run]
  have p': "pool_inv cfg p' X" "cp_used p' = cp_used p + 1" using cp_get_inv [OF inv(1) fail(1)] fail(2) by auto
  have "used_excess (p', X) \<ge> 1" using p'(2) inv(2) by (simp add: used_excess_def)
  moreover have "used_excess (p', X) \<le> used_excess (p'', Y)" using pool_run_inv [OF p'(1), of bs] later by auto
  ultimately show ?thesis by (simp add: used_excess_def checkPoolIdleTimeout_def)
qed

theorem failed_get_blocks_reclaim_witness:
  "\<exists>p'. cp_get demo_cfg 5 False (\<lambda>_. True) new_ConnectionPool = (p', Err ErrDial)
     \<and> checkPoolIdleTimeout demo_cfg 1000000 p' = Ok (p', False)"
proof -
  obtain p' where p': "cp_get demo_cfg 5 False (\<lambda>_. True) new_ConnectionPool = (p', Err ErrDial)"
    by (simp add: demo_cfg_def new_ConnectionPool_def cp_get_def getToken_def getIdleConn_def empty_connList_def
      getNewConn_def freeToken_def)
  then show ?thesis
    using failed_get_blocks_reclaim [of demo_cfg "[]" new_ConnectionPool "{}" 5 False "\<lambda>_. True" p' ErrDial "[]" p' "{}" 1000000]
    by simp
qed

text \<open>The check goroutine releases the lock between taking a connection out of the idle list and putting
  it back. When the pool is closed in between, the connection goes back into the list of the closed
  pool, where neither a second \<open>Close\<close> nor a further round of the goroutine closes it.\<close>

lemma close_during_check_leaks:
  assumes "pool_inv cfg p X" "\<not> cp_closed p" "cl_head (cp_idle p) = Some x"
  shows "\<exists>p1 p2 p3. check_pop p = Ok p1 \<and> cp_Close p1 = Ok p2 \<and> check_push True x p2 = Ok p3
    \<and> cp_closed p3 \<and> pc_open (cp_heap p3 x) \<and> pc_inPool (cp_heap p3 x) \<and> cp_Close p3 = Ok p3
    \<and> checkRoutine cfg now chk dials p3 = Ok (p3, True)"
proof -
  from assms(1) obtain xs where xs: "conns_ok p xs X" "sizes_ok cfg p xs (card X)" by (auto simp: pool_inv_def)
  obtain ys where ys: "xs = x # ys" using xs(1) assms(3) by (auto simp: conns_ok_def is_list_def split: list.splits)
  from pop_head_ok [OF xs(1) [unfolded ys]] obtain l h where
    pop: "on_idle popHead p = Ok (p\<lparr>cp_idle := l, cp_heap := h\<rparr>)" "conns_ok (p\<lparr>cp_idle := l, cp_heap := h\<rparr>) ys (insert x X)" "x \<notin> X"
    by blast
  let ?p1 = "p\<lparr>cp_idle := l, cp_heap := h, cp_idleSize := cp_idleSize p - 1\<rparr>"
  have c1: "conns_ok ?p1 ys (insert x X)" using conns_ok_cong [OF pop(2), of ?p1] by simp
  let ?cfg = "cfg\<lparr>MaxActive := 0\<rparr>"
  have "sizes_ok ?cfg ?p1 ys (card (insert x X))" using xs(2) ys by (auto simp: sizes_ok_def)
  then have "pool_inv ?cfg ?p1 (insert x X)" using c1 by (auto simp: pool_inv_def)
  from cp_Close_inv [OF this] obtain p2 where p2: "cp_Close ?p1 = Ok p2" "pool_inv ?cfg p2 (insert x X)" "cp_closed p2"
    by blast
  then obtain zs where zs: "conns_ok p2 zs (insert x X)" by (auto simp: pool_inv_def)
  let ?q = "p2\<lparr>cp_idleSize := cp_idleSize p2 + 1\<rparr>"
  have "conns_ok ?q zs (insert x X)" using conns_ok_cong [OF zs, of ?q] by simp
  from push_tail_ok [OF this insertI1] obtain l' h' where
    push: "on_idle (pushTail x) ?q = Ok (?q\<lparr>cp_idle := l', cp_heap := h'\<rparr>)"
    "conns_ok (?q\<lparr>cp_idle := l', cp_heap := h'\<rparr>) (zs @ [x]) (insert x X - {x})" by blast
  let ?p3 = "?q\<lparr>cp_idle := l', cp_heap := h'\<rparr>"
  have x: "pc_open (cp_heap ?p3 x)" "pc_inPool (cp_heap ?p3 x)"
    using idle_count(1) [OF push(2)] by auto
  have closed: "cp_closed ?p3" using p2(3) by simp
  have "check_pop p = Ok ?p1" using pop(1) by (simp add: check_pop_def)
  moreover have "check_push True x p2 = Ok ?p3" using push(1) by (simp add: check_push_def)
  moreover have "cp_Close ?p3 = Ok ?p3" "checkRoutine cfg now chk dials ?p3 = Ok (?p3, True)"
    using closed by (simp_all add: cp_Close_def checkRoutine_def)
  ultimately show ?thesis using p2(1) x closed by blast
qed

subsection \<open>The pool factory\<close>

text \<open>\<open>pool\<close> keeps one \<open>ConnectionPool\<close> per node. The heap of connections belongs to its pool here. A new
  pool is filled to \<open>MinIdle\<close> before its first \<open>Get\<close>; \<open>onCloseFunc\<close> takes a reclaimed pool out.\<close>

definition getNodeKey :: "string \<Rightarrow> string \<Rightarrow> string \<Rightarrow> string" where
  "getNodeKey network address protocol = network @ ''_'' @ address @ ''_'' @ protocol"

type_synonym pool_map = "string \<Rightarrow> ConnectionPool option"

definition factory_Get ::
  "pool_cfg \<Rightarrow> int \<Rightarrow> bool \<Rightarrow> (nat \<Rightarrow> bool) \<Rightarrow> (nat \<Rightarrow> bool) \<Rightarrow> string \<Rightarrow> string \<Rightarrow> string \<Rightarrow> pool_map \<Rightarrow> pool_map \<times> (pool_error, nat) res" where
  "factory_Get cfg now dialOk chk dials network address protocol pools =
     (let key = getNodeKey network address protocol in
      case pools key of
        Some p \<Rightarrow> (case cp_get cfg now dialOk chk p of (p, r) \<Rightarrow> (pools(key \<mapsto> p), r))
      | None \<Rightarrow>
          (case keepMinIdles cfg now dials new_ConnectionPool of
             Ok p \<Rightarrow> (case cp_get cfg now dialOk chk p of (p, r) \<Rightarrow> (pools(key \<mapsto> p), r))
           | Err e \<Rightarrow> (pools, Err e)
           | Panic \<Rightarrow> (pools, Panic)))"

definition factory_check :: "pool_cfg \<Rightarrow> int \<Rightarrow> (nat \<Rightarrow> bool) \<Rightarrow> (nat \<Rightarrow> bool) \<Rightarrow> string \<Rightarrow> pool_map \<Rightarrow> (pool_error, pool_map) res" where
  "factory_check cfg now chk dials key pools =
     (case pools key of
        None \<Rightarrow> Ok pools
      | Some p \<Rightarrow> bind_res (checkRoutine cfg now chk dials p) (\<lambda>(p', stop).
          Ok (if stop \<and> \<not> cp_closed p then pools(key := None) else pools(key \<mapsto> p'))))"

text \<open>The context the dialling gets: the caller's, or a new one with the given timeout. \<open>ctx\<close> is the
  caller's context, if any, with its deadline, if any.\<close>

datatype dial_ctx = CallerCtx | NewTimeout int

definition defaultDialTimeout :: int where
  "defaultDialTimeout = 200"

definition getDialCtx :: "int \<Rightarrow> int option option \<Rightarrow> int \<Rightarrow> int \<Rightarrow> dial_ctx" where
  "getDialCtx now ctx DialTimeout dialTimeout =
     (let fresh = (let t = (if DialTimeout > 0 then DialTimeout else dialTimeout) in
                   NewTimeout (if t = 0 then defaultDialTimeout else t))
      in case ctx of
           None \<Rightarrow> fresh
         | Some None \<Rightarrow> fresh
         | Some (Some deadline) \<Rightarrow>
             if DialTimeout > 0 \<and> DialTimeout < deadline - now then fresh else CallerCtx)"

text \<open>\<open>isRemoteError\<close> reads one byte without waiting. The arguments are what the system calls give: the
  error of \<open>SyscallConn\<close>, of the raw read, and the count and error of \<open>read(2)\<close>.\<close>

datatype sys_error = EAGAIN | EWOULDBLOCK | OtherErrno nat

datatype conn_error = NoConnErr | RawErr nat | IoEOF | UnexpectedRead | SysErr sys_error

definition checkConnErrUnblock :: "bool \<Rightarrow> nat option \<Rightarrow> nat option \<Rightarrow> int \<Rightarrow> sys_error option \<Rightarrow> conn_error" where
  "checkConnErrUnblock isSyscallConn scErr rdErr n sysErr =
     (if \<not> isSyscallConn then NoConnErr
      else case scErr of Some e \<Rightarrow> RawErr e | None \<Rightarrow>
        (case rdErr of Some e \<Rightarrow> RawErr e | None \<Rightarrow>
          (if n = 0 \<and> sysErr = None then IoEOF
           else if n > 0 then UnexpectedRead
           else case sysErr of
             None \<Rightarrow> NoConnErr
           | Some e \<Rightarrow> if e = EAGAIN \<or> e = EWOULDBLOCK then NoConnErr else SysErr e)))"

definition isRemoteError :: "bool \<Rightarrow> nat option \<Rightarrow> nat option \<Rightarrow> int \<Rightarrow> sys_error option \<Rightarrow> bool" where
  "isRemoteError isSyscallConn scErr rdErr n sysErr \<longleftrightarrow> checkConnErrUnblock isSyscallConn scErr rdErr n sysErr \<noteq> NoConnErr"

text \<open>A live idle connection, on which nothing has arrived, is the only one kept.\<close>

lemma isRemoteError_idle:
  "isRemoteError True None None n sysErr \<longleftrightarrow>
     \<not> (n \<le> 0 \<and> sysErr \<in> {Some EAGAIN, Some EWOULDBLOCK} \<or> n < 0 \<and> sysErr = None)"
  by (auto simp: isRemoteError_def checkConnErrUnblock_def split: option.splits)

text \<open>Dialling never takes longer than \<open>DialTimeout\<close> when that is set, nor longer than the caller's
  deadline unless \<open>DialTimeout\<close> is shorter.\<close>

lemma getDialCtx_bound:
  assumes "getDialCtx now ctx DialTimeout dialTimeout = c" "DialTimeout > 0"
  shows "case c of NewTimeout t \<Rightarrow> t = DialTimeout | CallerCtx \<Rightarrow> \<exists>d. ctx = Some (Some d) \<and> d - now \<le> DialTimeout"
  using assms by (auto simp: getDialCtx_def Let_def split: option.splits if_splits)

text \<open>The key tells nodes apart as long as network and protocol contain no underline.\<close>

lemma getNodeKey_inj:
  assumes key: "getNodeKey n a p = getNodeKey n' a' p'" and "CHR ''_'' \<notin> set n" "CHR ''_'' \<notin> set n'"
    and "CHR ''_'' \<notin> set p" "CHR ''_'' \<notin> set p'"
  shows "n = n'" "a = a'" "p = p'"
proof -
  have "takeWhile (\<lambda>c. c \<noteq> CHR ''_'') (getNodeKey m b q) = m" if "CHR ''_'' \<notin> set m" for m b q
    using that unfolding getNodeKey_def by (subst takeWhile_append2) auto
  then show n: "n = n'" using assms by metis
  have "takeWhile (\<lambda>c. c \<noteq> CHR ''_'') (rev (getNodeKey m b q)) = rev q" if "CHR ''_'' \<notin> set q" for m b q
    using that unfolding getNodeKey_def rev_append append_assoc by (subst takeWhile_append2) auto
  then have "rev p = rev p'" using assms by metis
  then show p: "p = p'" by simp
  show "a = a'" using key n p by (simp add: getNodeKey_def)
qed

text \<open>Every pool of the factory keeps the invariant, for some set of connections in use.\<close>

definition factory_inv :: "pool_cfg \<Rightarrow> pool_map \<Rightarrow> (string \<Rightarrow> nat set) \<Rightarrow> bool" where
  "factory_inv cfg pools X \<longleftrightarrow> (\<forall>key p. pools key = Some p \<longrightarrow> pool_inv cfg p (X key))"

lemma factory_Get_inv:
  assumes "factory_inv cfg pools X" "\<And>k. pools k = None \<Longrightarrow> X k = {}"
    and get: "factory_Get cfg now dialOk chk dials network address protocol pools = (pools', r)"
  defines "key \<equiv> getNodeKey network address protocol"
  shows "case r of Ok x \<Rightarrow> x \<notin> X key \<and> factory_inv cfg pools' (X(key := insert x (X key)))
    | Err e \<Rightarrow> factory_inv cfg pools' X | Panic \<Rightarrow> False"
proof -
  obtain p where p: "pool_inv cfg p (X key)"
    "factory_Get cfg now dialOk chk dials network address protocol pools
      = (case cp_get cfg now dialOk chk p of (p, r) \<Rightarrow> (pools(key \<mapsto> p), r))"
  proof (cases "pools key")
    case None
    then have "X key = {}" using assms(2) by simp
    moreover obtain p where "keepMinIdles cfg now dials new_ConnectionPool = Ok p" "pool_inv cfg p {}"
      using keepMinIdles_inv [OF new_pool_inv] by blast
    ultimately show thesis using None that [of p] by (simp add: factory_Get_def key_def)
  next
    case (Some p)
    then show thesis using assms(1) that [of p] by (simp add: factory_Get_def key_def factory_inv_def)
  qed
  obtain p' where p': "cp_get cfg now dialOk chk p = (p', r)" "pools' = pools(key \<mapsto> p')"
    using get p(2) by (auto split: prod.splits)
  show ?thesis using cp_get_inv [OF p(1) p'(1)] assms(1) p'(2)
    by (auto simp: factory_inv_def split: res.splits)
qed

end
