(* ===== verification/Double_Array.thy ===== *)
theory Double_Array
  imports Go_Prelude "HOL-Library.List_Lexorder" "HOL-Library.Char_ord" "HOL-Library.Sublist"
begin

text \<open>
  The double array trie of \<open>internal/dat\<close>, which tells whether a query parameter belongs to a field
  that the HTTP rule already binds. A node of the trie is the list of its children's codes; inserting
  it looks for a place \<open>begin\<close> at which the cells \<open>begin + code\<close> are all free, writes \<open>begin\<close> into their
  \<open>check\<close> and, for each child, the place of its own children into their \<open>base\<close>. Code 0 is the end of a
  path. Positions, codes and places are naturals: none is ever negative in the code, where a place
  is a position after the first child's code. The arrays grow on demand; an index beyond an array
  panics. The floating point growth factor is an exact fraction: \<open>int(float64(n) * 1.05)\<close> is
  \<open>n + n div 20\<close> for every array size that fits into memory, and the quotients the code converts to
  floating point are integer divisions.
\<close>

datatype dat_error = errByDictOrder | errEncoded | DatNoFuel

record dat_node =
  nd_code :: nat
  nd_depth :: nat
  nd_left :: nat
  nd_right :: nat

record DoubleArrayTrie =
  da_base :: "int list"
  da_check :: "nat list"
  da_used :: "bool list"
  da_size :: nat
  allocSize :: nat
  da_fps :: "string list list"
  da_dict :: "string \<Rightarrow> nat option"
  progress :: nat
  nextCheckPos :: nat

subsection \<open>Field paths and their codes\<close>

text \<open>\<open>Less\<close> of \<open>fieldPaths\<close>, on the two paths. Paths that are equal in this order are equal, so every
  sorting algorithm gives the same result.\<close>

fun path_Less :: "string list \<Rightarrow> string list \<Rightarrow> bool" where
  "path_Less (x # xs) (y # ys) = (if x < y then True else if x > y then False else path_Less xs ys)"
| "path_Less [] ys = (0 < length ys)"
| "path_Less (x # xs) [] = False"

lemma path_Less_less: "path_Less xs ys \<longleftrightarrow> xs < ys"
proof (induction xs ys rule: path_Less.induct)
  case (2 ys)
  then show ?case by (cases ys) auto
qed auto

definition newFieldDict :: "string list list \<Rightarrow> string \<Rightarrow> nat option" where
  "newFieldDict fps = (let fields = sort (remdups (concat fps)) in map_of (zip fields [0..<length fields]))"

subsection \<open>Building\<close>

definition resize_list :: "nat \<Rightarrow> 'a \<Rightarrow> 'a list \<Rightarrow> 'a list" where
  "resize_list n z xs = take n xs @ replicate (n - length xs) z"

definition dat_resize :: "nat \<Rightarrow> DoubleArrayTrie \<Rightarrow> DoubleArrayTrie" where
  "dat_resize n d = d\<lparr>da_base := resize_list n 0 (da_base d), da_check := resize_list n 0 (da_check d),
     da_used := resize_list n False (da_used d), allocSize := n\<rparr>"

definition set_right :: "nat \<Rightarrow> dat_node list \<Rightarrow> dat_node list" where
  "set_right i cs = (if cs = [] then [] else butlast cs @ [(last cs)\<lparr>nd_right := i\<rparr>])"

fun fetch_loop :: "DoubleArrayTrie \<Rightarrow> nat \<Rightarrow> nat list \<Rightarrow> dat_node list \<Rightarrow> nat \<Rightarrow> (dat_error, dat_node list) res" where
  "fetch_loop d depth [] children prev = Ok children"
| "fetch_loop d depth (i # is) children prev =
     (let fp = da_fps d ! i in
      if length fp < depth then fetch_loop d depth is children prev
      else bind_res
        (if length fp > depth then (case da_dict d (fp ! depth) of None \<Rightarrow> Err errEncoded | Some v \<Rightarrow> Ok (v + 1)) else Ok 0)
        (\<lambda>curr.
           if prev > curr then Err errByDictOrder
           else if curr \<noteq> prev \<or> length children = 0 then
             fetch_loop d depth is
               (set_right i children @ [\<lparr>nd_code = curr, nd_depth = depth + 1, nd_left = i, nd_right = 0\<rparr>]) curr
           else fetch_loop d depth is children curr))"

definition fetch :: "DoubleArrayTrie \<Rightarrow> dat_node \<Rightarrow> (dat_error, dat_node list) res" where
  "fetch d parent =
     bind_res (fetch_loop d (nd_depth parent) [nd_left parent..<nd_right parent] [] 0) (\<lambda>children.
       Ok (set_right (nd_right parent) children))"

fun conflict :: "DoubleArrayTrie \<Rightarrow> nat \<Rightarrow> dat_node list \<Rightarrow> (dat_error, bool) res" where
  "conflict d begin [] = Ok False"
| "conflict d begin (c # cs) =
     (if length (da_check d) \<le> begin + nd_code c then Panic
      else if da_check d ! (begin + nd_code c) \<noteq> 0 then Ok True
      else conflict d begin cs)"

definition expand_size :: "DoubleArrayTrie \<Rightarrow> nat" where
  "expand_size d =
     (let q = length (da_fps d) div (progress d + 1) in
      if 2 \<le> q then allocSize d * q else allocSize d + allocSize d div 20)"

text \<open>One round of the loop: \<open>Inl\<close> goes on with the next position, \<open>Inr\<close> has found the place.\<close>

definition begin_step :: "DoubleArrayTrie \<Rightarrow> dat_node list \<Rightarrow> nat \<Rightarrow> nat \<Rightarrow> bool
    \<Rightarrow> (dat_error, (DoubleArrayTrie \<times> nat \<times> bool) + (DoubleArrayTrie \<times> nat)) res" where
  "begin_step d cs pos numOfNonZero first =
     (let d = (if allocSize d \<le> pos then dat_resize (pos + 1) d else d) in
      if da_check d ! pos \<noteq> 0 then Ok (Inl (d, numOfNonZero + 1, first))
      else
        (let d = (if first then d\<lparr>nextCheckPos := pos\<rparr> else d);
             begin = pos - nd_code (hd cs);
             d = (if allocSize d \<le> begin + nd_code (last cs) then dat_resize (expand_size d) d else d)
         in if da_used d ! begin then Ok (Inl (d, numOfNonZero, False))
            else bind_res (conflict d begin (tl cs)) (\<lambda>c.
              Ok (if c then Inl (d, numOfNonZero, False) else Inr (d, begin)))))"

fun begin_loop :: "nat \<Rightarrow> DoubleArrayTrie \<Rightarrow> dat_node list \<Rightarrow> nat \<Rightarrow> nat \<Rightarrow> bool
    \<Rightarrow> (dat_error, DoubleArrayTrie \<times> nat \<times> nat \<times> nat) res" where
  "begin_loop 0 d cs pos numOfNonZero first = Err DatNoFuel"
| "begin_loop (Suc fuel) d cs pos numOfNonZero first =
     bind_res (begin_step d cs (pos + 1) numOfNonZero first) (\<lambda>r.
       case r of
         Inl (d, numOfNonZero, first) \<Rightarrow> begin_loop fuel d cs (pos + 1) numOfNonZero first
       | Inr (d, begin) \<Rightarrow> Ok (d, begin, pos + 1, numOfNonZero))"

definition loopForBegin :: "DoubleArrayTrie \<Rightarrow> dat_node list \<Rightarrow> (dat_error, DoubleArrayTrie \<times> nat) res" where
  "loopForBegin d cs =
     bind_res (begin_loop (Suc (allocSize d + nd_code (hd cs))) d cs (max (nd_code (hd cs)) (nextCheckPos d - 1)) 0 True)
       (\<lambda>(d, begin, pos, numOfNonZero).
          Ok (if numOfNonZero div (pos - nextCheckPos d + 1) \<ge> 1 then d\<lparr>nextCheckPos := pos\<rparr> else d, begin))"

definition occupy :: "nat \<Rightarrow> dat_node list \<Rightarrow> DoubleArrayTrie \<Rightarrow> DoubleArrayTrie" where
  "occupy begin cs d = d\<lparr>da_used := (da_used d)[begin := True],
     da_size := max (da_size d) (begin + nd_code (last cs) + 1),
     da_check := foldl (\<lambda>ck c. ck[begin + nd_code c := begin]) (da_check d) cs\<rparr>"

text \<open>The recursion goes one level deeper into the paths each time; \<open>fuel\<close> bounds the depth.\<close>

fun dat_insert :: "nat \<Rightarrow> DoubleArrayTrie \<Rightarrow> dat_node list \<Rightarrow> (dat_error, DoubleArrayTrie \<times> nat) res"
and insert_children :: "nat \<Rightarrow> nat \<Rightarrow> dat_node list \<Rightarrow> DoubleArrayTrie \<Rightarrow> (dat_error, DoubleArrayTrie) res" where
  "dat_insert 0 d cs = Err DatNoFuel"
| "dat_insert (Suc fuel) d cs =
     (if cs = [] then Panic
      else bind_res (loopForBegin d cs) (\<lambda>(d, begin).
        bind_res (insert_children fuel begin cs (occupy begin cs d)) (\<lambda>d. Ok (d, begin))))"
| "insert_children fuel begin [] d = Ok d"
| "insert_children fuel begin (c # cs) d =
     bind_res (fetch d c) (\<lambda>grandchildren.
       if length grandchildren = 0 then
         insert_children fuel begin cs
           (d\<lparr>da_base := (da_base d)[begin + nd_code c := - int (nd_left c) - 1], progress := progress d + 1\<rparr>)
       else bind_res (dat_insert fuel d grandchildren) (\<lambda>(d, t).
         insert_children fuel begin cs (d\<lparr>da_base := (da_base d)[begin + nd_code c := int t]\<rparr>)))"

definition defaultArraySize :: nat where
  "defaultArraySize = 64"

definition dat_init :: "string list list \<Rightarrow> DoubleArrayTrie" where
  "dat_init fps =
     (let d = dat_resize defaultArraySize \<lparr>da_base = [], da_check = [], da_used = [], da_size = 0, allocSize = 0,
        da_fps = fps, da_dict = newFieldDict fps, progress = 0, nextCheckPos = 0\<rparr>
      in d\<lparr>da_base := (da_base d)[0 := 1]\<rparr>)"

definition insert_fuel :: "string list list \<Rightarrow> nat" where
  "insert_fuel fps = length (concat fps) + 2"

definition Build :: "string list list \<Rightarrow> (dat_error, DoubleArrayTrie) res" where
  "Build fps0 =
     (let fps = sort fps0; d = dat_init fps in
      bind_res (fetch d \<lparr>nd_code = 0, nd_depth = 0, nd_left = 0, nd_right = length fps\<rparr>) (\<lambda>children.
        bind_res (dat_insert (insert_fuel fps) d children) (\<lambda>(d, _). Ok (dat_resize (da_size d) d))))"

subsection \<open>Searching\<close>

definition at_leaf :: "DoubleArrayTrie \<Rightarrow> int \<Rightarrow> (dat_error, bool) res" where
  "at_leaf d baseValue =
     (if baseValue < 0 \<or> int (length (da_check d)) \<le> baseValue then Panic
      else if baseValue \<noteq> int (da_check d ! nat baseValue) then Ok False
      else if length (da_base d) \<le> nat baseValue then Panic
      else Ok (da_base d ! nat baseValue < 0))"

fun search_from :: "DoubleArrayTrie \<Rightarrow> int \<Rightarrow> string list \<Rightarrow> (dat_error, bool) res" where
  "search_from d baseValue [] = at_leaf d baseValue"
| "search_from d baseValue (name # names) =
     (case da_dict d name of
        None \<Rightarrow> at_leaf d baseValue
      | Some v \<Rightarrow>
          bind_res (at_leaf d baseValue) (\<lambda>leaf.
            if leaf then Ok True
            else
              (let pos = baseValue + int (v + 1) in
               if int (length (da_check d)) \<le> pos then Ok False
               else if pos < 0 then Panic
               else if baseValue \<noteq> int (da_check d ! nat pos) then Ok False
               else if length (da_base d) \<le> nat pos then Panic
               else search_from d (da_base d ! nat pos) names)))"

definition CommonPrefixSearch :: "DoubleArrayTrie \<Rightarrow> string list \<Rightarrow> (dat_error, bool) res" where
  "CommonPrefixSearch d fieldPath =
     (if length (da_base d) = 0 then Panic else search_from d (da_base d ! 0) fieldPath)"

end
