(* ===== verification/Double_Array_Proofs.thy ===== *)
theory Double_Array_Proofs
  imports Double_Array
begin

text \<open>
  Correctness of the double array trie: whatever field paths it is built from, a search tells whether
  one of them is a prefix of the given path. The arrays are read as functions that are 0 outside, so
  that growing them changes nothing. A relation \<open>tree\<close> says that the children of the node for a set of
  remaining paths are stored at a place; it survives everything the construction does later.
\<close>

subsection \<open>Arrays as functions\<close>

definition cell :: "'a \<Rightarrow> 'a list \<Rightarrow> nat \<Rightarrow> 'a" where
  "cell z xs i = (if i < length xs then xs ! i else z)"

abbreviation bas :: "DoubleArrayTrie \<Rightarrow> nat \<Rightarrow> int" where
  "bas d \<equiv> cell 0 (da_base d)"

abbreviation chk :: "DoubleArrayTrie \<Rightarrow> nat \<Rightarrow> nat" where
  "chk d \<equiv> cell 0 (da_check d)"

abbreviation usd :: "DoubleArrayTrie \<Rightarrow> nat \<Rightarrow> bool" where
  "usd d \<equiv> cell False (da_used d)"

lemma length_resize_list [simp]: "length (resize_list n z xs) = n"
  by (simp add: resize_list_def)

lemma cell_resize_list [simp]: "cell z (resize_list n z xs) i = (if i < n then cell z xs i else z)"
  by (auto simp: cell_def resize_list_def nth_append)

lemma cell_resize_grow: "length xs \<le> n \<Longrightarrow> cell z (resize_list n z xs) = cell z xs"
  by (auto simp: fun_eq_iff) (simp add: cell_def)

lemma cell_update: "i < length xs \<Longrightarrow> cell z (xs[i := v]) = (cell z xs)(i := v)"
  by (auto simp: cell_def fun_eq_iff)

lemma nth_cell: "i < length xs \<Longrightarrow> xs ! i = cell z xs i"
  by (simp add: cell_def)

definition dat_lens :: "DoubleArrayTrie \<Rightarrow> bool" where
  "dat_lens d \<longleftrightarrow> length (da_base d) = allocSize d \<and> length (da_check d) = allocSize d \<and> length (da_used d) = allocSize d"

text \<open>The parts of the state that looking for a place leaves alone.\<close>

definition same_dat :: "DoubleArrayTrie \<Rightarrow> DoubleArrayTrie \<Rightarrow> bool" where
  "same_dat d d' \<longleftrightarrow> bas d' = bas d \<and> chk d' = chk d \<and> usd d' = usd d \<and> da_size d' = da_size d
     \<and> da_fps d' = da_fps d \<and> da_dict d' = da_dict d \<and> progress d' = progress d \<and> allocSize d \<le> allocSize d'"

lemma same_dat_refl [simp]: "same_dat d d"
  by (simp add: same_dat_def)

lemma same_dat_trans: "same_dat d d' \<Longrightarrow> same_dat d' d'' \<Longrightarrow> same_dat d d''"
  by (simp add: same_dat_def)

lemma resize_same:
  assumes "dat_lens d" "allocSize d \<le> n"
  shows "same_dat d (dat_resize n d)" "dat_lens (dat_resize n d)" "allocSize (dat_resize n d) = n"
  using assms by (auto simp: same_dat_def dat_lens_def dat_resize_def cell_resize_grow)

lemma nextCheckPos_same [simp]:
  "same_dat d (d\<lparr>nextCheckPos := x\<rparr>)" "dat_lens (d\<lparr>nextCheckPos := x\<rparr>) = dat_lens d"
  by (simp_all add: same_dat_def dat_lens_def)

lemma expand_size_ge: "allocSize d \<le> expand_size d"
  by (auto simp: expand_size_def Let_def)

subsection \<open>Looking for a place\<close>

lemma conflict_cases:
  "conflict d begin cs = Panic \<and> (\<exists>c \<in> set cs. length (da_check d) \<le> begin + nd_code c)
   \<or> conflict d begin cs = Ok True \<and> (\<exists>c \<in> set cs. chk d (begin + nd_code c) \<noteq> 0)
   \<or> conflict d begin cs = Ok False \<and> (\<forall>c \<in> set cs. begin + nd_code c < length (da_check d) \<and> chk d (begin + nd_code c) = 0)"
  by (induction cs) (auto simp: cell_def)

text \<open>A place where the children fit.\<close>

definition fits :: "DoubleArrayTrie \<Rightarrow> dat_node list \<Rightarrow> nat \<Rightarrow> bool" where
  "fits d cs b \<longleftrightarrow> 1 \<le> b \<and> b < allocSize d \<and> \<not> usd d b \<and> (\<forall>c \<in> set cs. b + nd_code c < allocSize d \<and> chk d (b + nd_code c) = 0)"

text \<open>A round keeps the state, and it finds a place once the position is beyond everything in use.\<close>

lemma begin_step_cases:
  assumes lens: "dat_lens d" and cs: "cs \<noteq> []" "nd_code (hd cs) < pos"
  shows "begin_step d cs pos nz first = Panic
    \<or> (\<exists>d' nz' first'. begin_step d cs pos nz first = Ok (Inl (d', nz', first')) \<and> same_dat d d' \<and> dat_lens d'
        \<and> (\<exists>c \<in> set cs. chk d (pos - nd_code (hd cs) + nd_code c) \<noteq> 0 \<or> usd d (pos - nd_code (hd cs))))
    \<or> (\<exists>d' b. begin_step d cs pos nz first = Ok (Inr (d', b)) \<and> same_dat d d' \<and> dat_lens d' \<and> fits d' cs b
        \<and> b = pos - nd_code (hd cs))"
proof -
  define d1 where "d1 = (if allocSize d \<le> pos then dat_resize (pos + 1) d else d)"
  define d2 where "d2 = (if first then d1\<lparr>nextCheckPos := pos\<rparr> else d1)"
  define b where "b = pos - nd_code (hd cs)"
  define d3 where "d3 = (if allocSize d2 \<le> b + nd_code (last cs) then dat_resize (expand_size d2) d2 else d2)"
  have d1: "same_dat d d1" "dat_lens d1" "pos < allocSize d1"
    using lens resize_same [OF lens, of "pos + 1"] by (auto simp: d1_def)
  have d2: "same_dat d d2" "dat_lens d2" "pos < allocSize d2" using d1 by (auto simp: d2_def same_dat_def)
  have d3: "same_dat d d3" "dat_lens d3" "pos < allocSize d3"
    using d2 resize_same [OF d2(2) expand_size_ge] same_dat_trans [OF d2(1)] expand_size_ge [of d2]
    by (auto simp: d3_def)
  have eq: "begin_step d cs pos nz first =
      (if da_check d1 ! pos \<noteq> 0 then Ok (Inl (d1, nz + 1, first))
       else if da_used d3 ! b then Ok (Inl (d3, nz, False))
       else bind_res (conflict d3 b (tl cs)) (\<lambda>c. Ok (if c then Inl (d3, nz, False) else Inr (d3, b))))"
    unfolding begin_step_def Let_def d1_def [symmetric] b_def [symmetric]
    unfolding d2_def [symmetric] unfolding d3_def [symmetric] by simp
  have pos: "b + nd_code (hd cs) = pos" "1 \<le> b" "b \<le> pos" using cs(2) by (auto simp: b_def)
  have c1: "da_check d1 ! pos = chk d pos" using d1 nth_cell [of pos "da_check d1" 0] by (auto simp: dat_lens_def same_dat_def)
  have u3: "da_used d3 ! b = usd d b" using d3 pos(3) nth_cell [of b "da_used d3" False] by (auto simp: dat_lens_def same_dat_def)
  have set_cs: "set cs = insert (hd cs) (set (tl cs))" using cs(1) by (cases cs) auto
  consider "chk d pos \<noteq> 0" | "chk d pos = 0" "usd d b" | "chk d pos = 0" "\<not> usd d b" by blast
  then show ?thesis
  proof cases
    case 1
    then show ?thesis using eq c1 d1 set_cs pos(1) by (auto simp: b_def)
  next
    case 2
    then show ?thesis using eq c1 u3 d3 set_cs by (auto simp: b_def)
  next
    case 3
    have ck: "chk d3 = chk d" "usd d3 = usd d" "length (da_check d3) = allocSize d3" using d3 by (auto simp: same_dat_def dat_lens_def)
    have "b < allocSize d3" "b + nd_code (hd cs) < allocSize d3" using d3(3) pos by linarith+
    then show ?thesis
      using 3 eq c1 u3 d3(1,2) conflict_cases [of d3 b "tl cs"] pos ck by (auto simp: set_cs fits_def b_def)
  qed
qed

lemma begin_loop_cases:
  assumes "dat_lens d" "cs \<noteq> []" "nd_code (hd cs) \<le> pos" "0 < fuel" "n + nd_code (hd cs) \<le> pos + fuel"
    and "\<And>t. n \<le> t \<Longrightarrow> chk d t = 0 \<and> \<not> usd d t"
  shows "begin_loop fuel d cs pos nz first = Panic
    \<or> (\<exists>d' b pos' nz'. begin_loop fuel d cs pos nz first = Ok (d', b, pos', nz') \<and> same_dat d d' \<and> dat_lens d' \<and> fits d' cs b)"
  using assms
proof (induction fuel arbitrary: d pos nz first)
  case (Suc fuel)
  have "nd_code (hd cs) < pos + 1" using Suc.prems(3) by simp
  from begin_step_cases [OF Suc.prems(1,2) this, of nz first]
  consider (p) "begin_step d cs (pos + 1) nz first = Panic"
    | (l) d' nz' first' where "begin_step d cs (pos + 1) nz first = Ok (Inl (d', nz', first'))" "same_dat d d'" "dat_lens d'"
        "\<exists>c \<in> set cs. chk d (pos + 1 - nd_code (hd cs) + nd_code c) \<noteq> 0 \<or> usd d (pos + 1 - nd_code (hd cs))"
    | (r) d' b where "begin_step d cs (pos + 1) nz first = Ok (Inr (d', b))" "same_dat d d'" "dat_lens d'" "fits d' cs b"
    by blast
  then show ?case
  proof cases
    case l
    have far: "\<not> n + nd_code (hd cs) \<le> pos + 1"
    proof
      assume "n + nd_code (hd cs) \<le> pos + 1"
      then have "n \<le> pos + 1 - nd_code (hd cs)" by simp
      then show False using l(4) Suc.prems(6) by (meson le_add1 le_trans)
    qed
    have pre: "nd_code (hd cs) \<le> pos + 1" "0 < fuel" "n + nd_code (hd cs) \<le> pos + 1 + fuel"
      using Suc.prems(3,5) far by auto
    have "chk d' t = 0 \<and> \<not> usd d' t" if "n \<le> t" for t using Suc.prems(6) that l(2) by (simp add: same_dat_def)
    from Suc.IH [OF l(3) Suc.prems(2) pre this, of nz' first'] show ?thesis
      using l(1) same_dat_trans [OF l(2)] by (fastforce)
  qed auto
qed simp

lemma loopForBegin_cases:
  assumes "dat_lens d" "cs \<noteq> []"
  shows "loopForBegin d cs = Panic
    \<or> (\<exists>d' b. loopForBegin d cs = Ok (d', b) \<and> same_dat d d' \<and> dat_lens d' \<and> fits d' cs b)"
proof -
  define f where "f = Suc (allocSize d + nd_code (hd cs))"
  define p where "p = max (nd_code (hd cs)) (nextCheckPos d - 1)"
  have "chk d t = 0 \<and> \<not> usd d t" if "allocSize d \<le> t" for t using assms(1) that by (simp add: cell_def dat_lens_def)
  moreover have "nd_code (hd cs) \<le> p" "0 < f" "allocSize d + nd_code (hd cs) \<le> p + f" by (auto simp: p_def f_def)
  ultimately consider (p) "begin_loop f d cs p 0 True = Panic"
    | (o) d' b pos' nz' where "begin_loop f d cs p 0 True = Ok (d', b, pos', nz')" "same_dat d d'" "dat_lens d'" "fits d' cs b"
    using begin_loop_cases [OF assms(1,2), where pos = p and fuel = f and nz = 0 and first = True and n = "allocSize d"] by blast
  then show ?thesis
  proof cases
    case o
    let ?d = "if nz' div (pos' - nextCheckPos d' + 1) \<ge> 1 then d'\<lparr>nextCheckPos := pos'\<rparr> else d'"
    have "loopForBegin d cs = Ok (?d, b)" using o(1) by (simp add: loopForBegin_def f_def p_def)
    moreover have "same_dat d ?d" "dat_lens ?d" "fits ?d cs b"
      using o same_dat_trans [OF o(2)] by (auto simp: fits_def)
    ultimately show ?thesis by blast
  qed (simp add: loopForBegin_def f_def p_def)
qed

subsection \<open>The children of a node\<close>

text \<open>The code of path \<open>i\<close> at depth \<open>k\<close>, for a path that is at least \<open>k\<close> long.\<close>

definition code_at :: "DoubleArrayTrie \<Rightarrow> nat \<Rightarrow> nat \<Rightarrow> nat" where
  "code_at d k i = (if length (da_fps d ! i) = k then 0 else Suc (the (da_dict d (da_fps d ! i ! k))))"

text \<open>The paths of a node agree up to its depth and are in order from there on.\<close>

definition node_ok :: "DoubleArrayTrie \<Rightarrow> nat \<Rightarrow> nat \<Rightarrow> nat \<Rightarrow> bool" where
  "node_ok d k l r \<longleftrightarrow> r \<le> length (da_fps d)
     \<and> (\<forall>i \<in> {l..<r}. k \<le> length (da_fps d ! i) \<and> (k < length (da_fps d ! i) \<longrightarrow> da_dict d (da_fps d ! i ! k) \<noteq> None))
     \<and> (\<forall>i \<in> {l..<r}. \<forall>j \<in> {l..<r}. i \<le> j \<longrightarrow> code_at d k i \<le> code_at d k j)"

definition children_ok :: "DoubleArrayTrie \<Rightarrow> nat \<Rightarrow> nat \<Rightarrow> nat \<Rightarrow> dat_node list \<Rightarrow> bool" where
  "children_ok d k l r cs \<longleftrightarrow> sorted_wrt (<) (map nd_code cs) \<and> nd_code ` set cs = code_at d k ` {l..<r}
     \<and> (\<forall>c \<in> set cs. nd_depth c = k + 1 \<and> l \<le> nd_left c \<and> nd_left c < nd_right c \<and> nd_right c \<le> r
          \<and> {i \<in> {l..<r}. code_at d k i = nd_code c} = {nd_left c..<nd_right c})"

text \<open>The loop after the paths up to \<open>m\<close>: the last child is still open on the right.\<close>

definition fetched :: "DoubleArrayTrie \<Rightarrow> nat \<Rightarrow> nat \<Rightarrow> nat \<Rightarrow> dat_node list \<Rightarrow> nat \<Rightarrow> bool" where
  "fetched d k l m cs prev \<longleftrightarrow> children_ok d k l m (set_right m cs) \<and> (cs = [] \<longrightarrow> m = l \<and> prev = 0)
     \<and> (cs \<noteq> [] \<longrightarrow> prev = nd_code (last cs))"

lemma set_right_Nil [simp]: "set_right m [] = []"
  by (simp add: set_right_def)

lemma set_right_append [simp]: "set_right m (cs @ [c]) = cs @ [c\<lparr>nd_right := m\<rparr>]"
  by (simp add: set_right_def)

lemma set_right_twice [simp]: "set_right m (set_right n cs) = set_right m cs"
  by (simp add: set_right_def)

lemma map_code_set_right [simp]: "map nd_code (set_right m cs) = map nd_code cs"
  by (cases cs rule: rev_cases) auto

text \<open>Each child keeps its paths when a path of another code comes in.\<close>

lemma range_other:
  assumes "children_ok d k l m cs" "l \<le> m" "x \<in> set cs" "code_at d k m \<noteq> nd_code x"
  shows "{i \<in> {l..<Suc m}. code_at d k i = nd_code x} = {nd_left x..<nd_right x}"
    "nd_depth x = k + 1 \<and> l \<le> nd_left x \<and> nd_left x < nd_right x \<and> nd_right x \<le> Suc m"
proof -
  have ok: "{i \<in> {l..<m}. code_at d k i = nd_code x} = {nd_left x..<nd_right x}"
    "nd_depth x = k + 1 \<and> l \<le> nd_left x \<and> nd_left x < nd_right x \<and> nd_right x \<le> m"
    using assms(1,3) unfolding children_ok_def by blast+
  have "{i \<in> {l..<Suc m}. code_at d k i = nd_code x} = {i \<in> {l..<m}. code_at d k i = nd_code x}"
    using assms(2,4) by (auto simp: less_Suc_eq)
  then show "{i \<in> {l..<Suc m}. code_at d k i = nd_code x} = {nd_left x..<nd_right x}" using ok(1) by simp
  show "nd_depth x = k + 1 \<and> l \<le> nd_left x \<and> nd_left x < nd_right x \<and> nd_right x \<le> Suc m" using ok(2) by simp
qed

lemma fetched_skip:
  assumes f: "fetched d k l m cs prev" "l \<le> m" and cs: "cs \<noteq> []" "code_at d k m = prev"
  shows "fetched d k l (Suc m) cs prev"
proof -
  obtain xs c where xs: "cs = xs @ [c]" using cs(1) by (cases cs rule: rev_cases) auto
  have ok: "children_ok d k l m (xs @ [c\<lparr>nd_right := m\<rparr>])" "prev = nd_code c" using f xs by (auto simp: fetched_def)
  have srt: "sorted_wrt (<) (map nd_code (xs @ [c]))" using ok(1) by (simp add: children_ok_def)
  have codes: "nd_code ` set (xs @ [c]) = code_at d k ` {l..<m}" using ok(1) by (simp add: children_ok_def)
  have last: "l \<le> nd_left c" "nd_left c < m" "nd_depth c = k + 1" "{i \<in> {l..<m}. code_at d k i = nd_code c} = {nd_left c..<m}"
    using ok(1) by (simp_all add: children_ok_def)
  have lm: "{l..<Suc m} = insert m {l..<m}" using f(2) by auto
  have "{i \<in> {l..<Suc m}. code_at d k i = nd_code c} = insert m {i \<in> {l..<m}. code_at d k i = nd_code c}"
    using cs(2) ok(2) unfolding lm by blast
  then have c: "{i \<in> {l..<Suc m}. code_at d k i = nd_code c} = {nd_left c..<Suc m}"
    unfolding last(4) using last(2) by (simp add: atLeastLessThanSuc)
  have "code_at d k m \<noteq> nd_code x" if "x \<in> set xs" for x
    using srt that unfolding cs(2) ok(2) map_append sorted_wrt_append by auto
  then have x: "{i \<in> {l..<Suc m}. code_at d k i = nd_code x} = {nd_left x..<nd_right x}
      \<and> nd_depth x = k + 1 \<and> l \<le> nd_left x \<and> nd_left x < nd_right x \<and> nd_right x \<le> Suc m" if "x \<in> set xs" for x
    using range_other [OF ok(1) f(2), of x] that by simp
  have "nd_code c \<in> nd_code ` set (xs @ [c])" by simp
  then have "code_at d k m \<in> code_at d k ` {l..<m}" unfolding codes cs(2) ok(2) .
  then have "nd_code ` set (xs @ [c]) = code_at d k ` {l..<Suc m}" unfolding lm image_insert codes by (simp add: insert_absorb)
  then have "children_ok d k l (Suc m) (xs @ [c\<lparr>nd_right := Suc m\<rparr>])"
    unfolding children_ok_def using srt last c x by simp
  then show ?thesis using ok(2) xs by (simp add: fetched_def)
qed

lemma fetched_new:
  assumes f: "fetched d k l m cs prev" "l \<le> m" and c: "cs = [] \<or> prev < code_at d k m"
  shows "fetched d k l (Suc m) (set_right m cs @ [\<lparr>nd_code = code_at d k m, nd_depth = k + 1, nd_left = m, nd_right = 0\<rparr>]) (code_at d k m)"
proof -
  let ?c = "\<lparr>nd_code = code_at d k m, nd_depth = k + 1, nd_left = m, nd_right = Suc m\<rparr>"
  have ok: "children_ok d k l m (set_right m cs)" using f by (simp add: fetched_def)
  have lm: "{l..<Suc m} = insert m {l..<m}" using f(2) by auto
  have less: "nd_code x < code_at d k m" if "x \<in> set (set_right m cs)" for x
  proof (cases cs rule: rev_cases)
    case (snoc xs y)
    then have "prev = nd_code y" using f by (simp add: fetched_def)
    then have "nd_code x \<le> prev" using that snoc ok by (auto simp: children_ok_def sorted_wrt_append)
    then show ?thesis using c snoc by auto
  qed (use that in \<open>simp add: set_right_def\<close>)
  have fresh: "code_at d k i \<noteq> code_at d k m" if "i \<in> {l..<m}" for i
  proof -
    have "code_at d k i \<in> nd_code ` set (set_right m cs)" using ok that by (auto simp: children_ok_def)
    then show ?thesis using less by (metis imageE less_irrefl)
  qed
  have "sorted_wrt (<) (map nd_code (set_right m cs))" using ok by (simp add: children_ok_def)
  then have srt: "sorted_wrt (<) (map nd_code (set_right m cs @ [?c]))"
    using less unfolding map_append sorted_wrt_append by (simp del: map_code_set_right)
  have "nd_code ` set (set_right m cs) = code_at d k ` {l..<m}" using ok by (simp add: children_ok_def)
  then have codes: "nd_code ` set (set_right m cs @ [?c]) = code_at d k ` {l..<Suc m}" unfolding lm by simp
  have c: "{i \<in> {l..<Suc m}. code_at d k i = nd_code ?c} = {m..<Suc m}" using fresh unfolding lm by auto
  have x: "{i \<in> {l..<Suc m}. code_at d k i = nd_code x} = {nd_left x..<nd_right x}
      \<and> nd_depth x = k + 1 \<and> l \<le> nd_left x \<and> nd_left x < nd_right x \<and> nd_right x \<le> Suc m" if "x \<in> set (set_right m cs)" for x
    using range_other [OF ok f(2) that] less [OF that] by simp
  have "children_ok d k l (Suc m) (set_right m cs @ [?c])"
    unfolding children_ok_def using srt codes c x f(2) by simp
  then show ?thesis by (simp add: fetched_def)
qed

lemma fetch_loop_ok:
  assumes "node_ok d k l r"
  shows "fetched d k l m cs prev \<Longrightarrow> l \<le> m \<Longrightarrow> m \<le> r \<Longrightarrow>
     \<exists>cs' prev'. fetch_loop d k [m..<r] cs prev = Ok cs' \<and> fetched d k l r cs' prev'"
proof (induction "r - m" arbitrary: m cs prev)
  case 0
  then show ?case by auto
next
  case (Suc n)
  then have m: "m < r" "[m..<r] = m # [Suc m..<r]" by (auto simp: upt_conv_Cons)
  let ?c = "code_at d k m"
  have fp: "k \<le> length (da_fps d ! m)" "k < length (da_fps d ! m) \<Longrightarrow> \<exists>v. da_dict d (da_fps d ! m ! k) = Some v"
    using assms m(1) Suc.prems(2) by (auto simp: node_ok_def)
  have code: "(if length (da_fps d ! m) > k then (case da_dict d (da_fps d ! m ! k) of None \<Rightarrow> Err errEncoded | Some v \<Rightarrow> Ok (v + 1)) else Ok 0)
    = (Ok ?c :: (dat_error, nat) res)" using fp by (auto simp: code_at_def)
  have mono: "prev \<le> ?c"
  proof (cases "cs = []")
    case True
    then show ?thesis using Suc.prems(1) by (simp add: fetched_def)
  next
    case False
    then have "prev \<in> nd_code ` set (set_right m cs)"
      using Suc.prems(1) by (cases cs rule: rev_cases) (auto simp: fetched_def)
    then obtain i where "i \<in> {l..<m}" "prev = code_at d k i"
      using Suc.prems(1) unfolding fetched_def children_ok_def by auto
    then show ?thesis using assms m(1) Suc.prems(2) by (auto simp: node_ok_def)
  qed
  define new where "new \<longleftrightarrow> ?c \<noteq> prev \<or> length cs = 0"
  define cs1 where "cs1 = (if new then set_right m cs @ [\<lparr>nd_code = ?c, nd_depth = k + 1, nd_left = m, nd_right = 0\<rparr>] else cs)"
  have step: "fetch_loop d k [m..<r] cs prev = fetch_loop d k [Suc m..<r] cs1 ?c"
    using m(2) fp(1) code mono by (simp add: Let_def new_def cs1_def)
  have "fetched d k l (Suc m) cs1 ?c"
  proof (cases new)
    case True
    then show ?thesis using fetched_new [OF Suc.prems(1,2)] mono by (auto simp: new_def cs1_def)
  next
    case False
    then show ?thesis using fetched_skip [OF Suc.prems(1,2)] by (auto simp: new_def cs1_def)
  qed
  then show ?case unfolding step using Suc.hyps m(1) Suc.prems(2) by auto
qed

lemma fetch_ok:
  assumes "node_ok d (nd_depth n) (nd_left n) (nd_right n)" "nd_left n \<le> nd_right n"
  shows "\<exists>cs. fetch d n = Ok cs \<and> children_ok d (nd_depth n) (nd_left n) (nd_right n) cs"
proof -
  have "fetched d (nd_depth n) (nd_left n) (nd_left n) [] 0" by (simp add: fetched_def children_ok_def set_right_def)
  from fetch_loop_ok [OF assms(1) this order_refl assms(2)] show ?thesis by (auto simp: fetch_def fetched_def)
qed

text \<open>A child for the end of paths has no children.\<close>

lemma fetch_end:
  assumes "\<And>i. i \<in> {nd_left n..<nd_right n} \<Longrightarrow> length (da_fps d ! i) < nd_depth n"
  shows "fetch d n = Ok []"
proof -
  have "fetch_loop d (nd_depth n) is [] 0 = Ok []" if "\<forall>i \<in> set is. length (da_fps d ! i) < nd_depth n" for "is"
    using that by (induction "is") auto
  then show ?thesis using assms by (simp add: fetch_def set_right_def)
qed

subsection \<open>Trees in the arrays\<close>

definition heads :: "string list set \<Rightarrow> string set" where
  "heads S = {n. \<exists>xs. n # xs \<in> S}"

definition tails :: "string \<Rightarrow> string list set \<Rightarrow> string list set" where
  "tails n S = {xs. n # xs \<in> S}"

definition codes :: "(string \<Rightarrow> nat option) \<Rightarrow> string list set \<Rightarrow> nat set" where
  "codes dict S = (if [] \<in> S then {0} else {}) \<union> (\<lambda>n. Suc (the (dict n))) ` heads S"

text \<open>The node for the remaining paths \<open>S\<close> has its children at \<open>b\<close>; the places it uses are in \<open>A\<close>.\<close>

inductive tree :: "DoubleArrayTrie \<Rightarrow> nat set \<Rightarrow> string list set \<Rightarrow> nat \<Rightarrow> bool" for d A where
  tree_node: "1 \<le> b \<Longrightarrow> b \<in> A \<Longrightarrow> usd d b \<Longrightarrow> (\<And>t. chk d t = b \<longleftrightarrow> (\<exists>c \<in> codes (da_dict d) S. t = b + c))
    \<Longrightarrow> ([] \<in> S \<Longrightarrow> bas d b < 0)
    \<Longrightarrow> (\<And>n. n \<in> heads S \<Longrightarrow> \<exists>b'. bas d (b + Suc (the (da_dict d n))) = int b' \<and> tree d A (tails n S) b')
    \<Longrightarrow> tree d A S b"

inductive_cases tree_nodeE: "tree d A S b"

text \<open>What later steps keep of the places in \<open>A\<close>.\<close>

definition keeps :: "nat set \<Rightarrow> DoubleArrayTrie \<Rightarrow> DoubleArrayTrie \<Rightarrow> bool" where
  "keeps A d d' \<longleftrightarrow> da_fps d' = da_fps d \<and> da_dict d' = da_dict d \<and> bas d' 0 = bas d 0
     \<and> (\<forall>b \<in> A. usd d b \<longrightarrow> usd d' b \<and> (\<forall>t. (chk d' t = b \<longleftrightarrow> chk d t = b) \<and> (chk d t = b \<longrightarrow> bas d' t = bas d t)))"

lemma keeps_refl [simp]: "keeps A d d"
  by (simp add: keeps_def)

lemma keeps_trans: "keeps A d d' \<Longrightarrow> keeps A d' d'' \<Longrightarrow> keeps A d d''"
  unfolding keeps_def by metis

lemma keeps_mono: "keeps A d d' \<Longrightarrow> B \<subseteq> A \<Longrightarrow> keeps B d d'"
  unfolding keeps_def by blast

lemma same_dat_keeps: "same_dat d d' \<Longrightarrow> keeps A d d'"
  by (simp add: same_dat_def keeps_def)

lemma tree_keeps: "tree d A S b \<Longrightarrow> keeps A d d' \<Longrightarrow> tree d' A S b"
proof (induction rule: tree.induct)
  case (tree_node b S)
  have dict: "da_dict d' = da_dict d" using tree_node.prems by (simp add: keeps_def)
  have k: "usd d' b" "\<And>t. chk d' t = b \<longleftrightarrow> chk d t = b" "\<And>t. chk d t = b \<Longrightarrow> bas d' t = bas d t"
    using tree_node.prems tree_node.hyps(2,3) by (auto simp: keeps_def)
  have c: "chk d' t = b \<longleftrightarrow> (\<exists>c \<in> codes (da_dict d') S. t = b + c)" for t using k(2) tree_node.hyps(4) dict by simp
  show ?case
  proof (rule tree.tree_node [OF tree_node.hyps(1,2) k(1) c])
    assume "[] \<in> S"
    then have "chk d b = b" using tree_node.hyps(4) [of b] by (force simp: codes_def)
    then show "bas d' b < 0" using k(3) tree_node.hyps(5) [OF \<open>[] \<in> S\<close>] by simp
  next
    fix n assume n: "n \<in> heads S"
    then have "chk d (b + Suc (the (da_dict d n))) = b" using tree_node.hyps(4) by (force simp: codes_def)
    then show "\<exists>b'. bas d' (b + Suc (the (da_dict d' n))) = int b' \<and> tree d' A (tails n S) b'"
      using k(3) tree_node.IH [OF n] tree_node.prems dict by auto
  qed
qed

lemma tree_mono: "tree d A S b \<Longrightarrow> A \<subseteq> B \<Longrightarrow> tree d B S b"
proof (induction rule: tree.induct)
  case (tree_node b S)
  show ?case
  proof (rule tree.tree_node)
    show "\<exists>b'. bas d (b + Suc (the (da_dict d n))) = int b' \<and> tree d B (tails n S) b'" if "n \<in> heads S" for n
      using tree_node.IH [OF that] tree_node.prems by blast
  qed (use tree_node in auto)
qed

text \<open>A search in a tree.\<close>

lemma at_leaf_tree:
  assumes "tree d A S b" "dat_lens d"
  shows "at_leaf d (int b) = Ok ([] \<in> S)"
proof -
  from assms(1) have b: "1 \<le> b" "usd d b" "chk d b = b \<longleftrightarrow> [] \<in> S" "[] \<in> S \<Longrightarrow> bas d b < 0"
    by (auto elim!: tree_nodeE simp: codes_def split: if_splits)
  have l: "b < length (da_used d)" using b(2) by (simp add: cell_def split: if_splits)
  then show ?thesis using b(3,4) assms(2) by (auto simp: at_leaf_def dat_lens_def cell_def)
qed

lemma heads_in: "\<forall>fp \<in> S. set fp \<subseteq> D \<Longrightarrow> n \<in> heads S \<Longrightarrow> n \<in> D"
  by (auto simp: heads_def)

lemma tails_in: "\<forall>fp \<in> S. set fp \<subseteq> D \<Longrightarrow> \<forall>fp \<in> tails n S. set fp \<subseteq> D"
  by (auto simp: tails_def) (meson list.set_intros(2) subsetD)

lemma prefix_tails: "(\<exists>fp \<in> S. prefix fp (n # ns)) \<longleftrightarrow> [] \<in> S \<or> (\<exists>fp \<in> tails n S. prefix fp ns)"
  unfolding tails_def by (metis mem_Collect_eq Nil_prefix Cons_prefix_Cons prefix_Cons)

lemma search_tree:
  assumes "dat_lens d" "inj_on (da_dict d) (dom (da_dict d))"
  shows "tree d A S b \<Longrightarrow> \<forall>fp \<in> S. set fp \<subseteq> dom (da_dict d) \<Longrightarrow> search_from d (int b) path = Ok (\<exists>fp \<in> S. prefix fp path)"
proof (induction path arbitrary: S b)
  case Nil
  then show ?case using at_leaf_tree [OF Nil.prems(1) assms(1)] by auto
next
  case (Cons name names)
  note leaf = at_leaf_tree [OF Cons.prems(1) assms(1)]
  note split = prefix_tails [of S name names] and head = heads_in [OF Cons.prems(2)]
  have tl: "name \<notin> heads S \<Longrightarrow> tails name S = {}" by (auto simp: heads_def tails_def)
  show ?case
  proof (cases "da_dict d name")
    case None
    then have "tails name S = {}" using head tl by auto
    then show ?thesis using None leaf split by simp
  next
    case (Some v)
    let ?pos = "b + Suc v"
    from Cons.prems(1) have t: "chk d ?pos = b \<longleftrightarrow> (\<exists>c \<in> codes (da_dict d) S. ?pos = b + c)" "1 \<le> b"
      "\<And>n. n \<in> heads S \<Longrightarrow> \<exists>b'. bas d (b + Suc (the (da_dict d n))) = int b' \<and> tree d A (tails n S) b'"
      by (auto elim!: tree_nodeE)
    have "Suc v \<in> codes (da_dict d) S \<longleftrightarrow> name \<in> heads S"
    proof
      assume "Suc v \<in> codes (da_dict d) S"
      then obtain n where n: "n \<in> heads S" "the (da_dict d n) = v" by (auto simp: codes_def split: if_splits)
      then have "n \<in> dom (da_dict d)" using head by blast
      then have "da_dict d n = da_dict d name" using n Some by auto
      then have "n = name" using \<open>n \<in> dom (da_dict d)\<close> Some inj_onD [OF assms(2)] by blast
      then show "name \<in> heads S" using n by simp
    qed (use Some in \<open>force simp: codes_def\<close>)
    then have here: "chk d ?pos = b \<longleftrightarrow> name \<in> heads S" using t(1) by auto
    have pos: "nat (int b + int (v + 1)) = ?pos" by simp
    consider "[] \<in> S" | "[] \<notin> S" "name \<notin> heads S" | "[] \<notin> S" "name \<in> heads S" by blast
    then show ?thesis
    proof cases
      case 1
      then show ?thesis using Some leaf split by simp
    next
      case 2
      then have "length (da_check d) \<le> ?pos \<or> b \<noteq> da_check d ! ?pos" using here by (auto simp: cell_def split: if_splits)
      then have "search_from d (int b) (name # names) = Ok False"
        using 2 Some leaf pos by (auto simp: Let_def)
      then show ?thesis using 2 split tl by simp
    next
      case 3
      then obtain b' where b': "bas d ?pos = int b'" "tree d A (tails name S) b'" using t(3) [OF 3(2)] Some by auto
      from Cons.IH [OF b'(2) tails_in [OF Cons.prems(2)]] have "search_from d (int b') names = Ok (\<exists>fp \<in> tails name S. prefix fp names)" .
      moreover have "?pos < length (da_check d)" "da_check d ! ?pos = b" "?pos < length (da_base d)"
        using here 3 t(2) assms(1) by (auto simp: cell_def dat_lens_def split: if_splits)
      moreover have "da_base d ! ?pos = int b'" using b'(1) calculation(4) by (simp add: cell_def)
      ultimately show ?thesis using Some leaf split 3 pos by (simp add: Let_def)
    qed
  qed
qed

subsection \<open>Nodes as sets of paths\<close>

definition fps_ok :: "DoubleArrayTrie \<Rightarrow> bool" where
  "fps_ok d \<longleftrightarrow> sorted (da_fps d) \<and> (\<forall>fp \<in> set (da_fps d). set fp \<subseteq> dom (da_dict d))
     \<and> (\<forall>m n v w. da_dict d m = Some v \<longrightarrow> da_dict d n = Some w \<longrightarrow> m < n \<longrightarrow> v < w)"

definition range_ok :: "DoubleArrayTrie \<Rightarrow> nat \<Rightarrow> nat \<Rightarrow> nat \<Rightarrow> bool" where
  "range_ok d k l r \<longleftrightarrow> l < r \<and> r \<le> length (da_fps d)
     \<and> (\<forall>i \<in> {l..<r}. k \<le> length (da_fps d ! i) \<and> take k (da_fps d ! i) = take k (da_fps d ! l))"

definition suf :: "DoubleArrayTrie \<Rightarrow> nat \<Rightarrow> nat \<Rightarrow> nat \<Rightarrow> string list set" where
  "suf d k l r = (\<lambda>i. drop k (da_fps d ! i)) ` {l..<r}"

lemma range_okD:
  assumes "range_ok d k l r" "i \<in> {l..<r}"
  shows "i < length (da_fps d)" "k \<le> length (da_fps d ! i)" "take k (da_fps d ! i) = take k (da_fps d ! l)"
  using assms unfolding range_ok_def by (auto simp only: atLeastLessThan_iff)

lemma fps_ok_dict: "fps_ok d \<Longrightarrow> i < length (da_fps d) \<Longrightarrow> k < length (da_fps d ! i) \<Longrightarrow> \<exists>v. da_dict d (da_fps d ! i ! k) = Some v"
  by (meson domD fps_ok_def nth_mem subsetD)

lemma fps_ok_inj: "fps_ok d \<Longrightarrow> inj_on (da_dict d) (dom (da_dict d))"
  unfolding fps_ok_def inj_on_def by (metis domD less_irrefl linorder_neqE)

lemma drop_mono_lex:
  fixes a b :: "string list"
  assumes "a \<le> b" "take k a = take k b" "k \<le> length a" "k \<le> length b"
  shows "drop k a \<le> drop k b"
  using assms by (induction k arbitrary: a b) (auto simp: Suc_le_length_iff)

lemma code_mono:
  assumes ok: "fps_ok d" "range_ok d k l r" and ij: "i \<in> {l..<r}" "j \<in> {l..<r}" "i \<le> j"
  shows "code_at d k i \<le> code_at d k j"
proof -
  let ?a = "da_fps d ! i" and ?b = "da_fps d ! j"
  have i: "k \<le> length ?a" "k \<le> length ?b" "take k ?a = take k ?b" "j < length (da_fps d)" "i < length (da_fps d)"
    using range_okD [OF ok(2) ij(1)] range_okD [OF ok(2) ij(2)] by simp_all
  have "?a \<le> ?b" using ok(1) ij(3) i(4) by (simp add: fps_ok_def sorted_nth_mono)
  then have le: "drop k ?a \<le> drop k ?b" using drop_mono_lex i by blast
  show ?thesis
  proof (cases "length ?a = k \<or> length ?b = k")
    case True
    moreover have "length ?a = k" if "length ?b = k" using le that i(1) by (cases "drop k ?a") auto
    ultimately show ?thesis by (auto simp: code_at_def)
  next
    case False
    then have "k < length ?a" "k < length ?b" using i by auto
    then have "?a ! k # drop (Suc k) ?a \<le> ?b ! k # drop (Suc k) ?b" using le by (simp add: Cons_nth_drop_Suc)
    then have "?a ! k \<le> ?b ! k" by auto
    obtain v where v: "da_dict d (?a ! k) = Some v" using fps_ok_dict [OF ok(1) i(5) \<open>k < length ?a\<close>] by blast
    obtain w where w: "da_dict d (?b ! k) = Some w" using fps_ok_dict [OF ok(1) i(4) \<open>k < length ?b\<close>] by blast
    have "v \<le> w"
    proof (cases "?a ! k = ?b ! k")
      case False
      then have "?a ! k < ?b ! k" using \<open>?a ! k \<le> ?b ! k\<close> by simp
      then show ?thesis using ok(1) v w unfolding fps_ok_def by (meson less_imp_le)
    qed (use v w in simp)
    then show ?thesis using False v w by (simp add: code_at_def)
  qed
qed

lemma range_node: "fps_ok d \<Longrightarrow> range_ok d k l r \<Longrightarrow> node_ok d k l r"
proof -
  assume ok: "fps_ok d" "range_ok d k l r"
  then have "r \<le> length (da_fps d)" unfolding range_ok_def by blast
  then show "node_ok d k l r"
    unfolding node_ok_def using code_mono [OF ok] range_okD [OF ok(2)] fps_ok_dict [OF ok(1)] by fastforce
qed

lemma code_at_0: "k \<le> length (da_fps d ! i) \<Longrightarrow> code_at d k i = 0 \<longleftrightarrow> length (da_fps d ! i) = k"
  by (simp add: code_at_def)

lemma code_at_head:
  assumes "fps_ok d" "i < length (da_fps d)" "k \<le> length (da_fps d ! i)" "n \<in> dom (da_dict d)"
  shows "code_at d k i = Suc (the (da_dict d n)) \<longleftrightarrow> (\<exists>xs. drop k (da_fps d ! i) = n # xs)"
proof (cases "length (da_fps d ! i) = k")
  case False
  then have k: "k < length (da_fps d ! i)" using assms(3) by simp
  obtain v where v: "da_dict d (da_fps d ! i ! k) = Some v" using fps_ok_dict [OF assms(1,2) k] by blast
  obtain w where w: "da_dict d n = Some w" using assms(4) by blast
  have "w = v \<longleftrightarrow> n = da_fps d ! i ! k"
    using v w inj_onD [OF fps_ok_inj [OF assms(1)], of n "da_fps d ! i ! k"] by auto
  moreover have "drop k (da_fps d ! i) = da_fps d ! i ! k # drop (Suc k) (da_fps d ! i)" using k by (simp add: Cons_nth_drop_Suc)
  ultimately show ?thesis using False v w by (auto simp: code_at_def)
qed (simp add: code_at_def)

lemma suf_dom: "fps_ok d \<Longrightarrow> range_ok d k l r \<Longrightarrow> \<forall>fp \<in> suf d k l r. set fp \<subseteq> dom (da_dict d)"
proof
  fix fp assume ok: "fps_ok d" "range_ok d k l r" and "fp \<in> suf d k l r"
  then obtain i where i: "i \<in> {l..<r}" "fp = drop k (da_fps d ! i)" by (auto simp: suf_def)
  have "da_fps d ! i \<in> set (da_fps d)" using range_okD(1) [OF ok(2) i(1)] by simp
  then have "set (da_fps d ! i) \<subseteq> dom (da_dict d)" using ok(1) unfolding fps_ok_def by blast
  moreover have "set fp \<subseteq> set (da_fps d ! i)" unfolding i(2) by (rule set_drop_subset)
  ultimately show "set fp \<subseteq> dom (da_dict d)" by blast
qed

lemma codes_suf:
  assumes "fps_ok d" "range_ok d k l r"
  shows "codes (da_dict d) (suf d k l r) = code_at d k ` {l..<r}"
proof -
  have i: "i < length (da_fps d)" "k \<le> length (da_fps d ! i)" if "i \<in> {l..<r}" for i using range_okD [OF assms(2) that] by auto
  have "0 \<in> code_at d k ` {l..<r} \<longleftrightarrow> [] \<in> suf d k l r"
    using i(2) code_at_0 by (force simp: suf_def image_iff)
  moreover have "Suc v \<in> code_at d k ` {l..<r} \<longleftrightarrow> (\<exists>n \<in> heads (suf d k l r). v = the (da_dict d n))" for v
  proof
    assume "Suc v \<in> code_at d k ` {l..<r}"
    then obtain j where j: "j \<in> {l..<r}" "code_at d k j = Suc v" by auto
    then have "k < length (da_fps d ! j)" using i(2) [OF j(1)] by (auto simp: code_at_def split: if_splits)
    then have "da_fps d ! j ! k # drop (Suc k) (da_fps d ! j) \<in> suf d k l r"
      using j(1) by (simp add: Cons_nth_drop_Suc suf_def)
    moreover have "v = the (da_dict d (da_fps d ! j ! k))" using j(2) by (simp add: code_at_def split: if_splits)
    ultimately have "da_fps d ! j ! k \<in> heads (suf d k l r)" "v = the (da_dict d (da_fps d ! j ! k))"
      unfolding heads_def by blast+
    then show "\<exists>n \<in> heads (suf d k l r). v = the (da_dict d n)" by blast
  next
    assume "\<exists>n \<in> heads (suf d k l r). v = the (da_dict d n)"
    then obtain n xs where n0: "n \<in> heads (suf d k l r)" "v = the (da_dict d n)" "n # xs \<in> suf d k l r" unfolding heads_def by blast
    then obtain j where n: "n \<in> heads (suf d k l r)" "v = the (da_dict d n)" "j \<in> {l..<r}" "drop k (da_fps d ! j) = n # xs"
      unfolding suf_def by auto
    then have "code_at d k j = Suc v" using code_at_head [OF assms(1) i [OF n(3)]] heads_in [OF suf_dom [OF assms]] by blast
    then show "Suc v \<in> code_at d k ` {l..<r}" using n(3) by force
  qed
  ultimately have "x \<in> codes (da_dict d) (suf d k l r) \<longleftrightarrow> x \<in> code_at d k ` {l..<r}" for x
    by (cases x) (auto simp: codes_def)
  then show ?thesis by blast
qed

lemma child_paths:
  assumes "fps_ok d" "range_ok d k l r" "children_ok d k l r cs" "c \<in> set cs"
  shows "nd_code c = 0 \<Longrightarrow> i \<in> {nd_left c..<nd_right c} \<Longrightarrow> length (da_fps d ! i) = k"
    and "nd_code c \<noteq> 0 \<Longrightarrow> range_ok d (k + 1) (nd_left c) (nd_right c)"
    and "n \<in> heads (suf d k l r) \<Longrightarrow> nd_code c = Suc (the (da_dict d n)) \<Longrightarrow>
      suf d (k + 1) (nd_left c) (nd_right c) = tails n (suf d k l r)"
proof -
  have c: "{i \<in> {l..<r}. code_at d k i = nd_code c} = {nd_left c..<nd_right c}" "nd_left c < nd_right c" "l \<le> nd_left c" "nd_right c \<le> r"
    using assms(3,4) unfolding children_ok_def by blast+
  have i: "i < length (da_fps d)" "k \<le> length (da_fps d ! i)" "take k (da_fps d ! i) = take k (da_fps d ! l)" if "i \<in> {l..<r}" for i
    by (rule range_okD [OF assms(2) that])+
  have in_c: "i \<in> {l..<r}" "code_at d k i = nd_code c" if "i \<in> {nd_left c..<nd_right c}" for i using c(1) that by blast+
  show "length (da_fps d ! i) = k" if "nd_code c = 0" "i \<in> {nd_left c..<nd_right c}"
    using in_c [OF that(2)] i(2) that(1) code_at_0 by simp
  show "range_ok d (k + 1) (nd_left c) (nd_right c)" if nz: "nd_code c \<noteq> 0"
  proof -
    have long: "k < length (da_fps d ! j)" if "j \<in> {nd_left c..<nd_right c}" for j
      using in_c [OF that] i(2) nz code_at_0 by (metis le_neq_implies_less)
    have eq: "da_fps d ! j ! k = da_fps d ! nd_left c ! k" if j: "j \<in> {nd_left c..<nd_right c}" for j
    proof -
      have L: "nd_left c \<in> {nd_left c..<nd_right c}" using c(2) by simp
      have "code_at d k j = Suc (the (da_dict d (da_fps d ! nd_left c ! k)))"
        using in_c [OF j] in_c [OF L] long [OF L] by (auto simp: code_at_def)
      moreover have "da_fps d ! nd_left c ! k \<in> dom (da_dict d)"
        using fps_ok_dict [OF assms(1) i(1) long [OF L]] in_c(1) [OF L] by blast
      ultimately obtain xs where "drop k (da_fps d ! j) = da_fps d ! nd_left c ! k # xs"
        using code_at_head [OF assms(1) i(1,2) [OF in_c(1) [OF j]]] by blast
      then show ?thesis using long [OF j] by (metis Cons_nth_drop_Suc list.inject)
    qed
    have "take (k + 1) (da_fps d ! j) = take (k + 1) (da_fps d ! nd_left c)" if "j \<in> {nd_left c..<nd_right c}" for j
    proof -
      have L: "nd_left c \<in> {nd_left c..<nd_right c}" using c(2) by simp
      show ?thesis using long [OF that] long [OF L] eq [OF that] i(3) [OF in_c(1) [OF that]] i(3) [OF in_c(1) [OF L]]
        by (simp add: take_Suc_conv_app_nth)
    qed
    moreover have "nd_right c \<le> length (da_fps d)" using c(4) assms(2) unfolding range_ok_def by linarith
    moreover have "k + 1 \<le> length (da_fps d ! j)" if "j \<in> {nd_left c..<nd_right c}" for j using long [OF that] by simp
    ultimately show ?thesis unfolding range_ok_def using c(2) by blast
  qed
  show "suf d (k + 1) (nd_left c) (nd_right c) = tails n (suf d k l r)"
    if n: "n \<in> heads (suf d k l r)" "nd_code c = Suc (the (da_dict d n))"
  proof -
    have dom: "n \<in> dom (da_dict d)" using heads_in [OF suf_dom [OF assms(1,2)] n(1)] .
    have mem: "j \<in> {nd_left c..<nd_right c} \<longleftrightarrow> j \<in> {l..<r} \<and> (\<exists>xs. drop k (da_fps d ! j) = n # xs)" for j
      unfolding c(1) [symmetric] n(2) using code_at_head [OF assms(1) i(1,2) dom] by blast
    have "xs \<in> suf d (k + 1) (nd_left c) (nd_right c) \<longleftrightarrow> n # xs \<in> suf d k l r" for xs
    proof
      assume "xs \<in> suf d (k + 1) (nd_left c) (nd_right c)"
      then obtain j where j: "j \<in> {nd_left c..<nd_right c}" "xs = drop (k + 1) (da_fps d ! j)" by (auto simp: suf_def)
      then obtain ys where "j \<in> {l..<r}" "drop k (da_fps d ! j) = n # ys" using mem by blast
      moreover from this have "ys = xs" using j(2) by (metis Suc_eq_plus1 drop_Suc list.sel(3) tl_drop)
      ultimately show "n # xs \<in> suf d k l r" unfolding suf_def by force
    next
      assume "n # xs \<in> suf d k l r"
      then obtain j where j: "j \<in> {l..<r}" "drop k (da_fps d ! j) = n # xs" by (auto simp: suf_def)
      then have "j \<in> {nd_left c..<nd_right c}" using mem by blast
      moreover have "xs = drop (k + 1) (da_fps d ! j)" using j(2) by (metis Suc_eq_plus1 drop_Suc list.sel(3) tl_drop)
      ultimately show "xs \<in> suf d (k + 1) (nd_left c) (nd_right c)" unfolding suf_def by blast
    qed
    then show ?thesis by (auto simp: tails_def)
  qed
qed

subsection \<open>Inserting nodes\<close>

definition dat_inv :: "DoubleArrayTrie \<Rightarrow> bool" where
  "dat_inv d \<longleftrightarrow> dat_lens d \<and> \<not> usd d 0 \<and> chk d 0 = 0 \<and> (\<forall>t. chk d t \<noteq> 0 \<longrightarrow> usd d (chk d t)) \<and> (\<forall>b. usd d b \<longrightarrow> b < da_size d)
     \<and> (\<forall>t. chk d t \<noteq> 0 \<longrightarrow> t < da_size d) \<and> da_size d \<le> allocSize d \<and> fps_ok d"

lemma same_dat_inv: "dat_inv d \<Longrightarrow> same_dat d d' \<Longrightarrow> dat_lens d' \<Longrightarrow> dat_inv d'"
  by (auto simp: dat_inv_def same_dat_def fps_ok_def)

lemma foldl_cells:
  assumes "\<And>c. c \<in> set cs \<Longrightarrow> b + nd_code c < length ck"
  shows "length (foldl (\<lambda>ck c. ck[b + nd_code c := b]) ck cs) = length ck"
    "cell 0 (foldl (\<lambda>ck c. ck[b + nd_code c := b]) ck cs) t = (if \<exists>c \<in> set cs. t = b + nd_code c then b else cell 0 ck t)"
  using assms by (induction cs arbitrary: ck) (auto simp: cell_update)

lemma occupy_ok:
  assumes inv: "dat_inv d" and fit: "fits d cs b" and srt: "sorted_wrt (<) (map nd_code cs)" "cs \<noteq> []"
  defines "d1 \<equiv> occupy b cs d"
  shows "dat_inv d1" "keeps UNIV d d1" "usd d1 x \<longleftrightarrow> x = b \<or> usd d x" "chk d1 t = b \<longleftrightarrow> (\<exists>c \<in> set cs. t = b + nd_code c)"
proof -
  have lens: "dat_lens d" "\<not> usd d 0" "fps_ok d" using inv by (auto simp: dat_inv_def)
  have b: "1 \<le> b" "b < length (da_used d)" "\<not> usd d b" using fit lens(1) by (auto simp: fits_def dat_lens_def)
  have in_ck: "b + nd_code c < length (da_check d)" "chk d (b + nd_code c) = 0" if "c \<in> set cs" for c
    using fit lens(1) that by (auto simp: fits_def dat_lens_def)
  note fc = foldl_cells [of cs b "da_check d", OF in_ck(1)]
  have u: "usd d1 = (usd d)(b := True)" using b(2) by (simp add: d1_def occupy_def cell_update)
  have ck: "chk d1 t = (if \<exists>c \<in> set cs. t = b + nd_code c then b else chk d t)" for t
    using fc(2) by (simp add: d1_def occupy_def)
  have not_b: "chk d t \<noteq> b" for t using inv b(1,3) by (auto simp: dat_inv_def)
  have d1: "dat_lens d1" "da_fps d1 = da_fps d" "da_dict d1 = da_dict d" "bas d1 = bas d" "allocSize d1 = allocSize d"
    using lens(1) fc(1) by (simp_all add: d1_def occupy_def dat_lens_def)
  have max: "nd_code c \<le> nd_code (last cs)" if "c \<in> set cs" for c
    using srt that by (cases cs rule: rev_cases) (auto simp: sorted_wrt_append)
  have size: "da_size d1 = max (da_size d) (b + nd_code (last cs) + 1)" by (simp add: d1_def occupy_def)
  have lst: "b + nd_code (last cs) + 1 \<le> allocSize d" using in_ck(1) [of "last cs"] srt(2) lens(1) by (auto simp: dat_lens_def)
  have old: "usd d (chk d t)" "t < da_size d" if "chk d t \<noteq> 0" for t using inv that unfolding dat_inv_def by blast+
  have old_u: "x < da_size d" if "usd d x" for x using inv that unfolding dat_inv_def by blast
  have "usd d1 (chk d1 t)" if "chk d1 t \<noteq> 0" for t
    using that old(1) [of t] unfolding u ck by (cases "\<exists>c \<in> set cs. t = b + nd_code c") simp_all
  moreover have "t < da_size d1" if "chk d1 t \<noteq> 0" for t
  proof (cases "\<exists>c \<in> set cs. t = b + nd_code c")
    case True
    then obtain c where "c \<in> set cs" "t = b + nd_code c" by blast
    then show ?thesis using max [of c] unfolding size by simp
  next
    case False
    then show ?thesis using that old(2) [of t] unfolding ck size by simp
  qed
  moreover have "x < da_size d1" if "usd d1 x" for x using that old_u [of x] unfolding u size by (cases "x = b") simp_all
  moreover have "\<not> usd d1 0" "chk d1 0 = 0" using u b(1) lens(2) ck inv by (auto simp: dat_inv_def)
  moreover have "da_size d1 \<le> allocSize d1" using size lst d1(5) inv by (simp add: dat_inv_def)
  moreover have "fps_ok d1" using lens(3) d1(2,3) by (simp add: fps_ok_def)
  ultimately show "dat_inv d1" unfolding dat_inv_def using d1(1) by blast
  show "usd d1 x \<longleftrightarrow> x = b \<or> usd d x" using u by auto
  show "chk d1 t = b \<longleftrightarrow> (\<exists>c \<in> set cs. t = b + nd_code c)" using ck not_b by auto
  have "chk d1 t = x \<longleftrightarrow> chk d t = x" if "usd d x" for x t
  proof -
    have "x \<noteq> b" "x \<noteq> 0" using that b(3) lens(2) by metis+
    then show ?thesis using ck [of t] in_ck(2) by auto
  qed
  then show "keeps UNIV d d1" using d1 u by (simp add: keeps_def)
qed

text \<open>Writing a base of a node at \<open>b\<close> touches no other place.\<close>

lemma set_base_ok:
  fixes v :: int
  assumes inv: "dat_inv d" and p: "chk d p = b" "1 \<le> b"
  defines "d1 \<equiv> d\<lparr>da_base := (da_base d)[p := v]\<rparr>"
  shows "dat_inv d1" "keeps (- {b}) d d1" "bas d1 = (bas d)(p := v)"
proof -
  have "p < length (da_base d)" using inv p by (auto simp: dat_inv_def dat_lens_def cell_def split: if_splits)
  then show b: "bas d1 = (bas d)(p := v)" by (simp add: d1_def cell_update)
  show "dat_inv d1" using inv by (simp add: d1_def dat_inv_def dat_lens_def fps_ok_def)
  have "p \<noteq> 0" using inv p by (metis dat_inv_def not_one_le_zero)
  then show "keeps (- {b}) d d1" using p b by (auto simp: d1_def keeps_def)
qed

text \<open>A child whose work is done.\<close>

definition child_done :: "DoubleArrayTrie \<Rightarrow> nat set \<Rightarrow> nat \<Rightarrow> nat \<Rightarrow> dat_node \<Rightarrow> bool" where
  "child_done d A k b c \<longleftrightarrow>
     (if nd_code c = 0 then bas d b < 0
      else \<exists>b'. bas d (b + nd_code c) = int b' \<and> tree d A (suf d (k + 1) (nd_left c) (nd_right c)) b')"

lemma suf_keeps: "keeps A d d' \<Longrightarrow> suf d' = suf d"
  by (simp add: keeps_def suf_def fun_eq_iff)

lemma child_done_keeps:
  assumes "child_done d A k b c" "keeps A d d'" "bas d' (b + nd_code c) = bas d (b + nd_code c)" "A \<subseteq> B"
  shows "child_done d' B k b c"
  using assms tree_mono [OF tree_keeps [OF _ assms(2)] assms(4)] suf_keeps [OF assms(2)]
  by (auto simp: child_done_def split: if_splits)

definition inserted :: "DoubleArrayTrie \<Rightarrow> nat \<Rightarrow> nat \<Rightarrow> nat \<Rightarrow> (dat_error, DoubleArrayTrie \<times> nat) res \<Rightarrow> bool" where
  "inserted d k l r res \<longleftrightarrow> res = Panic \<or> (\<exists>d' b. res = Ok (d', b) \<and> dat_inv d' \<and> keeps UNIV d d' \<and> \<not> usd d b
     \<and> tree d' {x. \<not> usd d x} (suf d k l r) b)"

definition children_inserted :: "DoubleArrayTrie \<Rightarrow> nat \<Rightarrow> nat \<Rightarrow> dat_node list \<Rightarrow> (dat_error, DoubleArrayTrie) res \<Rightarrow> bool" where
  "children_inserted d k b cs res \<longleftrightarrow> res = Panic \<or> (\<exists>d'. res = Ok d' \<and> dat_inv d' \<and> keeps (- {b}) d d' \<and> usd d' b
     \<and> (\<forall>t. chk d' t = b \<longleftrightarrow> chk d t = b) \<and> (\<forall>t. chk d t = b \<longrightarrow> t \<notin> (\<lambda>c. b + nd_code c) ` set cs \<longrightarrow> bas d' t = bas d t)
     \<and> (\<forall>c \<in> set cs. child_done d' {x. \<not> usd d x} k b c))"

text \<open>One child, whatever its kind: the state \<open>d1\<close> after it.\<close>

definition child_step :: "DoubleArrayTrie \<Rightarrow> nat \<Rightarrow> nat \<Rightarrow> dat_node \<Rightarrow> DoubleArrayTrie \<Rightarrow> bool" where
  "child_step d k b c d1 \<longleftrightarrow> dat_inv d1 \<and> keeps (- {b}) d d1 \<and> usd d1 b \<and> (\<forall>t. chk d1 t = b \<longleftrightarrow> chk d t = b)
     \<and> (\<forall>t. chk d t = b \<longrightarrow> t \<noteq> b + nd_code c \<longrightarrow> bas d1 t = bas d t) \<and> child_done d1 {x. \<not> usd d x} k b c"

lemma keeps_used: "keeps A d d' \<Longrightarrow> b \<in> A \<Longrightarrow> usd d b \<Longrightarrow> usd d' b"
  by (simp add: keeps_def)

lemma children_inserted_Cons:
  assumes step: "child_step d k b c d1" and rest: "children_inserted d1 k b cs res"
    and new: "nd_code c \<notin> nd_code ` set cs" and b: "usd d b" "chk d (b + nd_code c) = b"
  shows "children_inserted d k b (c # cs) res"
proof (cases "res = Panic")
  case True
  then show ?thesis by (simp add: children_inserted_def)
next
  case False
  with rest obtain d' where d': "res = Ok d'" "dat_inv d'" "keeps (- {b}) d1 d'" "usd d' b" "\<And>t. chk d' t = b \<longleftrightarrow> chk d1 t = b"
    "\<And>t. chk d1 t = b \<Longrightarrow> t \<notin> (\<lambda>c. b + nd_code c) ` set cs \<Longrightarrow> bas d' t = bas d1 t"
    "\<And>x. x \<in> set cs \<Longrightarrow> child_done d' {x. \<not> usd d1 x} k b x" by (auto simp: children_inserted_def)
  have d1: "keeps (- {b}) d d1" "\<And>t. chk d1 t = b \<longleftrightarrow> chk d t = b" "child_done d1 {x. \<not> usd d x} k b c"
    "\<And>t. chk d t = b \<Longrightarrow> t \<noteq> b + nd_code c \<Longrightarrow> bas d1 t = bas d t" using step by (auto simp: child_step_def)
  have "usd d1 x" if "usd d x" for x
    using that step keeps_used [OF d1(1), of x] by (cases "x = b") (auto simp: child_step_def)
  then have sub: "{x. \<not> usd d x} \<subseteq> - {b}" "{x. \<not> usd d1 x} \<subseteq> {x. \<not> usd d x}" using b(1) by auto
  have "b + nd_code c \<notin> (\<lambda>c. b + nd_code c) ` set cs" using new by auto
  then have "bas d' (b + nd_code c) = bas d1 (b + nd_code c)" using d'(6) d1(2) b(2) by blast
  from child_done_keeps [OF d1(3) keeps_mono [OF d'(3) sub(1)] this order_refl]
  have "child_done d' {x. \<not> usd d x} k b c" .
  moreover have "child_done d' {x. \<not> usd d x} k b x" if "x \<in> set cs" for x
    using child_done_keeps [OF d'(7) [OF that] keeps_refl refl sub(2)] .
  moreover have "bas d' t = bas d t" if "chk d t = b" "t \<notin> (\<lambda>c. b + nd_code c) ` set (c # cs)" for t
    using d'(6) [of t] d1(2,4) that by auto
  ultimately show ?thesis
    using d' d1(2) keeps_trans [OF d1(1) d'(3)] by (auto simp: children_inserted_def)
qed

lemma children_ok_keeps: "keeps A d d' \<Longrightarrow> children_ok d' k l r cs = children_ok d k l r cs"
  by (simp add: keeps_def children_ok_def code_at_def)

lemma range_ok_keeps: "keeps A d d' \<Longrightarrow> range_ok d' k l r = range_ok d k l r"
  by (simp add: keeps_def range_ok_def)

text \<open>The end of a path becomes a leaf.\<close>

lemma leaf_step:
  assumes inv: "dat_inv d" and b: "usd d b" "chk d (b + nd_code c) = b" and c: "nd_code c = 0"
  shows "child_step d k b c
    (d\<lparr>da_base := (da_base d)[b + nd_code c := - int (nd_left c) - 1], progress := progress d + 1\<rparr>)" (is "child_step d k b c ?d1")
proof -
  let ?d = "d\<lparr>da_base := (da_base d)[b + nd_code c := - int (nd_left c) - 1]\<rparr>"
  have b1: "1 \<le> b" using inv b(1) by (cases b) (auto simp: dat_inv_def)
  note s = set_base_ok [OF inv b(2) b1, of "- int (nd_left c) - 1"]
  have "dat_inv ?d1" using s(1) by (simp add: dat_inv_def dat_lens_def fps_ok_def)
  moreover have "keeps (- {b}) d ?d1" using s(2) by (simp add: keeps_def)
  moreover have "bas ?d1 = (bas d)(b + nd_code c := - int (nd_left c) - 1)" using s(3) by simp
  ultimately show ?thesis using b c by (auto simp: child_step_def child_done_def)
qed

lemma subtree_step:
  assumes inv: "dat_inv d" and b: "usd d b" "chk d (b + nd_code c) = b" and c: "nd_code c \<noteq> 0"
    and ins: "inserted d (k + 1) (nd_left c) (nd_right c) (Ok (d2, t))"
  shows "child_step d k b c (d2\<lparr>da_base := (da_base d2)[b + nd_code c := int t]\<rparr>)" (is "child_step d k b c ?d1")
proof -
  have d2: "dat_inv d2" "keeps UNIV d d2" "tree d2 {x. \<not> usd d x} (suf d (k + 1) (nd_left c) (nd_right c)) t"
    using ins by (auto simp: inserted_def)
  have b1: "1 \<le> b" using inv b(1) by (cases b) (auto simp: dat_inv_def)
  have k: "usd d2 b" "\<And>t. chk d2 t = b \<longleftrightarrow> chk d t = b" "\<And>t. chk d t = b \<Longrightarrow> bas d2 t = bas d t"
    using d2(2) b(1) by (auto simp: keeps_def)
  have p: "chk d2 (b + nd_code c) = b" using k(2) b(2) by simp
  note s = set_base_ok [OF d2(1) p b1, of "int t"]
  have sub: "{x. \<not> usd d x} \<subseteq> - {b}" using b(1) by auto
  have "suf ?d1 = suf d" using suf_keeps [OF s(2)] suf_keeps [OF d2(2)] by simp
  then have "child_done ?d1 {x. \<not> usd d x} k b c"
    using tree_keeps [OF d2(3) keeps_mono [OF s(2) sub]] s(3) c by (simp add: child_done_def)
  moreover have "keeps (- {b}) d ?d1" by (rule keeps_trans [OF keeps_mono [OF d2(2)] s(2)]) simp
  ultimately show ?thesis using s(1,3) k by (simp add: child_step_def)
qed

lemma node_tree:
  assumes ok: "fps_ok d" "range_ok d k l r" "children_ok d k l r cs" and d1: "keeps UNIV d d1" "\<not> usd d b" "1 \<le> b"
    "\<And>t. chk d1 t = b \<longleftrightarrow> (\<exists>c \<in> set cs. t = b + nd_code c)" "\<And>x. usd d1 x \<longleftrightarrow> x = b \<or> usd d x"
    and ins: "children_inserted d1 k b cs (Ok d')"
  shows "tree d' {x. \<not> usd d x} (suf d k l r) b" "keeps UNIV d d'" "dat_inv d'"
proof -
  let ?A = "{x. \<not> usd d x}"
  have d': "dat_inv d'" "keeps (- {b}) d1 d'" "usd d' b" "\<And>t. chk d' t = b \<longleftrightarrow> chk d1 t = b"
    "\<And>c. c \<in> set cs \<Longrightarrow> child_done d' {x. \<not> usd d1 x} k b c" using ins by (auto simp: children_inserted_def)
  have "keeps (- {b}) d d'" by (rule keeps_trans [OF keeps_mono [OF d1(1)] d'(2)]) simp
  then show k: "keeps UNIV d d'" using d1(2) unfolding keeps_def by (metis ComplI singletonD)
  show "dat_inv d'" by (rule d'(1))
  have same: "da_dict d' = da_dict d" "suf d' = suf d" using k suf_keeps [OF k] by (auto simp: keeps_def)
  have set_codes: "nd_code ` set cs = codes (da_dict d) (suf d k l r)"
    using ok(3) codes_suf [OF ok(1,2)] unfolding children_ok_def by simp
  have sub: "{x. \<not> usd d1 x} \<subseteq> ?A" using d1(5) by auto
  show "tree d' ?A (suf d k l r) b"
  proof (rule tree_node)
    show "1 \<le> b" "b \<in> ?A" "usd d' b" using d1(2,3) d'(3) by auto
    show "chk d' t = b \<longleftrightarrow> (\<exists>c \<in> codes (da_dict d') (suf d k l r). t = b + c)" for t
      unfolding d'(4) d1(4) same set_codes [symmetric] by auto
  next
    assume "[] \<in> suf d k l r"
    then have "0 \<in> nd_code ` set cs" unfolding set_codes by (simp add: codes_def)
    then obtain c where "c \<in> set cs" "nd_code c = 0" by force
    then show "bas d' b < 0" using d'(5) by (auto simp: child_done_def)
  next
    fix n assume n: "n \<in> heads (suf d k l r)"
    then have "Suc (the (da_dict d n)) \<in> nd_code ` set cs" unfolding set_codes codes_def by blast
    then obtain c where c: "c \<in> set cs" "nd_code c = Suc (the (da_dict d n))" by force
    note p = child_paths(3) [OF ok c(1) n c(2)]
    obtain b' where "bas d' (b + nd_code c) = int b'" "tree d' {x. \<not> usd d1 x} (suf d' (k + 1) (nd_left c) (nd_right c)) b'"
      using d'(5) [OF c(1)] c(2) by (auto simp: child_done_def)
    then show "\<exists>b'. bas d' (b + Suc (the (da_dict d' n))) = int b' \<and> tree d' ?A (tails n (suf d k l r)) b'"
      using tree_mono [OF _ sub] c(2) unfolding same p by auto
  qed
qed

lemma insert_ok:
  "dat_inv d \<Longrightarrow> range_ok d k l r \<Longrightarrow> children_ok d k l r cs \<Longrightarrow> \<forall>fp \<in> set (da_fps d). length fp < k + fuel \<Longrightarrow>
     inserted d k l r (dat_insert fuel d cs)"
  "dat_inv d \<Longrightarrow> range_ok d k l r \<Longrightarrow> children_ok d k l r cs0 \<Longrightarrow> \<forall>fp \<in> set (da_fps d). length fp < k + 1 + fuel \<Longrightarrow>
     set cs \<subseteq> set cs0 \<Longrightarrow> sorted_wrt (<) (map nd_code cs) \<Longrightarrow> usd d b \<Longrightarrow> \<forall>c \<in> set cs. chk d (b + nd_code c) = b \<Longrightarrow>
     children_inserted d k b cs (insert_children fuel b cs d)"
proof (induction fuel d cs and fuel b cs d arbitrary: k l r and k l r cs0 rule: dat_insert_insert_children.induct)
  case (1 d cs)
  have "da_fps d ! l \<in> set (da_fps d)" "k \<le> length (da_fps d ! l)"
    using range_okD [OF "1.prems"(2), of l] "1.prems"(2) by (auto simp: range_ok_def)
  then show ?case using "1.prems"(4) by auto
next
  case (2 fuel d cs)
  have fps: "fps_ok d" "dat_lens d" using "2.prems"(1) by (auto simp: dat_inv_def)
  have "nd_code ` set cs = code_at d k ` {l..<r}" "l < r" using "2.prems"(2,3) by (auto simp: children_ok_def range_ok_def)
  then have cs: "cs \<noteq> []" by auto
  have srt: "sorted_wrt (<) (map nd_code cs)" using "2.prems"(3) by (simp add: children_ok_def)
  from loopForBegin_cases [OF fps(2) cs] consider "loopForBegin d cs = Panic"
    | d0 b where "loopForBegin d cs = Ok (d0, b)" "same_dat d d0" "dat_lens d0" "fits d0 cs b" by blast
  then show ?case
  proof cases
    case 1
    then show ?thesis using cs by (simp add: inserted_def)
  next
    case 2
    have inv0: "dat_inv d0" using same_dat_inv [OF "2.prems"(1) 2(2,3)] .
    let ?d1 = "occupy b cs d0"
    note oc = occupy_ok [OF inv0 2(4) srt cs]
    have k1: "keeps UNIV d ?d1" using keeps_trans [OF same_dat_keeps [OF 2(2)] oc(2)] .
    have u: "usd d0 = usd d" "\<not> usd d b" "1 \<le> b" using 2(2,4) by (auto simp: same_dat_def fits_def)
    have fuel: "\<forall>fp \<in> set (da_fps ?d1). length fp < k + 1 + fuel" using "2.prems"(4) k1 by (simp add: keeps_def)
    have "children_inserted ?d1 k b cs (insert_children fuel b cs ?d1)"
      using "2.prems"(2,3) range_ok_keeps [OF k1] children_ok_keeps [OF k1] oc(1,3,4) srt fuel
      by (intro "2.IH" [OF cs]) auto
    then consider "insert_children fuel b cs ?d1 = Panic"
      | d' where "insert_children fuel b cs ?d1 = Ok d'" "children_inserted ?d1 k b cs (Ok d')"
      by (auto simp: children_inserted_def)
    then show ?thesis
    proof cases
      case 1
      then show ?thesis using cs 2(1) by (simp add: inserted_def)
    next
      case ins: 2
      note t = node_tree [OF fps(1) "2.prems"(2,3) k1 u(2,3) oc(4) _ ins(2)]
      have "usd ?d1 x \<longleftrightarrow> x = b \<or> usd d x" for x using oc(3) u(1) by simp
      then show ?thesis using t cs 2(1) ins(1) u(2) by (auto simp: inserted_def)
    qed
  qed
next
  case (3 fuel b d)
  then show ?case by (simp add: children_inserted_def)
next
  case (4 fuel b c cs d)
  have fps: "fps_ok d" using "4.prems"(1) by (simp add: dat_inv_def)
  have c: "c \<in> set cs0" "chk d (b + nd_code c) = b" "nd_code c \<notin> nd_code ` set cs" using "4.prems"(5,6,8) by auto
  have depth: "nd_depth c = k + 1" "nd_left c < nd_right c" using "4.prems"(3) c(1) by (auto simp: children_ok_def)
  have rest: "children_inserted d k b (c # cs) (insert_children fuel b cs d1)" if st: "child_step d k b c d1"
    and IH: "\<And>k l r cs0. dat_inv d1 \<Longrightarrow> range_ok d1 k l r \<Longrightarrow> children_ok d1 k l r cs0 \<Longrightarrow> \<forall>fp \<in> set (da_fps d1). length fp < k + 1 + fuel \<Longrightarrow>
      set cs \<subseteq> set cs0 \<Longrightarrow> sorted_wrt (<) (map nd_code cs) \<Longrightarrow> usd d1 b \<Longrightarrow> \<forall>c \<in> set cs. chk d1 (b + nd_code c) = b \<Longrightarrow>
      children_inserted d1 k b cs (insert_children fuel b cs d1)" for d1
  proof (rule children_inserted_Cons [OF st _ c(3) "4.prems"(7) c(2)], rule IH)
    have k1: "keeps (- {b}) d d1" using st by (simp add: child_step_def)
    show "range_ok d1 k l r" "children_ok d1 k l r cs0" "\<forall>fp \<in> set (da_fps d1). length fp < k + 1 + fuel"
      using "4.prems"(2-4) range_ok_keeps [OF k1] children_ok_keeps [OF k1] k1 by (auto simp: keeps_def)
  qed (use st "4.prems"(5,6,8) in \<open>auto simp: child_step_def\<close>)
  show ?case
  proof (cases "nd_code c = 0")
    case True
    have f: "fetch d c = Ok []"
      using child_paths(1) [OF fps "4.prems"(2,3) c(1) True] depth(1) by (intro fetch_end) auto
    show ?thesis using rest [OF leaf_step [OF "4.prems"(1,7) c(2) True]] "4.IH"(1) f by simp
  next
    case False
    note ro = child_paths(2) [OF fps "4.prems"(2,3) c(1) False]
    obtain g where g: "fetch d c = Ok g" "children_ok d (k + 1) (nd_left c) (nd_right c) g"
      using fetch_ok [of d c] range_node [OF fps ro] depth by auto
    have "nd_code ` set g = code_at d (k + 1) ` {nd_left c..<nd_right c}" using g(2) by (simp add: children_ok_def)
    then have gn: "length g \<noteq> 0" using depth(2) by auto
    have ins: "inserted d (k + 1) (nd_left c) (nd_right c) (dat_insert fuel d g)"
      using "4.IH"(2) [OF gn "4.prems"(1) ro g(2)] "4.prems"(4) by simp
    then consider "dat_insert fuel d g = Panic" | d2 t where "dat_insert fuel d g = Ok (d2, t)" by (auto simp: inserted_def)
    then show ?thesis
    proof cases
      case 1
      then show ?thesis using g(1) gn by (simp add: children_inserted_def)
    next
      case 2
      show ?thesis using rest [OF subtree_step [OF "4.prems"(1,7) c(2) False ins [unfolded 2]]] "4.IH"(3) [OF gn, of d2 t] 2 g(1) gn
        by simp
    qed
  qed
qed

subsection \<open>The whole construction\<close>

lemma newFieldDict_Some:
  fixes fps :: "string list list"
  defines "ns \<equiv> sort (remdups (concat fps))"
  shows "newFieldDict fps n = Some v \<longleftrightarrow> v < length ns \<and> ns ! v = n"
proof -
  have "distinct ns" by (simp add: ns_def)
  then have "distinct (map fst (zip ns [0..<length ns]))" by simp
  then show ?thesis
    unfolding newFieldDict_def Let_def ns_def [symmetric] by (auto simp: map_of_eq_Some_iff in_set_zip)
qed

lemma newFieldDict_mono:
  assumes "newFieldDict fps m = Some v" "newFieldDict fps n = Some w" "m < n"
  shows "v < w"
proof (rule ccontr)
  assume "\<not> v < w"
  then have "sort (remdups (concat fps)) ! w \<le> sort (remdups (concat fps)) ! v"
    using assms by (intro sorted_nth_mono) (auto simp: newFieldDict_Some)
  then show False using assms by (auto simp: newFieldDict_Some)
qed

lemma newFieldDict_dom: "dom (newFieldDict fps) = set (concat fps)"
proof -
  have "x \<in> dom (newFieldDict fps) \<longleftrightarrow> x \<in> set (sort (remdups (concat fps)))" for x
    unfolding in_set_conv_nth using newFieldDict_Some [of fps x] by blast
  then show ?thesis by auto
qed

lemma dat_init_fields:
  "da_fps (dat_init fps) = fps" "da_dict (dat_init fps) = newFieldDict fps" "nextCheckPos (dat_init fps) = 0"
  "chk (dat_init fps) t = 0" "\<not> usd (dat_init fps) t" "bas (dat_init fps) 0 = 1" "dat_lens (dat_init fps)"
  by (auto simp: dat_init_def dat_resize_def Let_def dat_lens_def cell_def resize_list_def defaultArraySize_def)

lemma dat_init_inv: "sorted fps \<Longrightarrow> dat_inv (dat_init fps)"
  using newFieldDict_mono [of fps] newFieldDict_dom [of fps]
  by (auto simp: dat_inv_def dat_init_fields fps_ok_def) (simp_all add: dat_init_def dat_resize_def Let_def)

text \<open>The children of the root are stored at place 1, which is what \<open>base[0]\<close> says.\<close>

lemma root_begin:
  assumes "cs \<noteq> []" "loopForBegin (dat_init fps) cs = Ok (d', b)"
  shows "b = 1"
proof -
  let ?d = "dat_init fps" and ?c = "nd_code (hd cs)"
  have "\<not> (\<exists>c \<in> set cs. chk ?d (?c + 1 - ?c + nd_code c) \<noteq> 0 \<or> usd ?d (?c + 1 - ?c))" by (simp add: dat_init_fields)
  then consider "begin_step ?d cs (?c + 1) 0 True = Panic"
    | d1 where "begin_step ?d cs (?c + 1) 0 True = Ok (Inr (d1, 1))"
    using begin_step_cases [OF dat_init_fields(7) assms(1), of "?c + 1" fps 0 True] by auto
  then show ?thesis using assms(2) by cases (auto simp: loopForBegin_def dat_init_fields)
qed

lemma shrink_ok:
  assumes inv: "dat_inv d" and used: "usd d 1"
  shows "keeps UNIV d (dat_resize (da_size d) d)" "dat_lens (dat_resize (da_size d) d)"
proof -
  let ?d = "dat_resize (da_size d) d"
  have i: "\<And>b. usd d b \<Longrightarrow> b < da_size d" "\<And>t. chk d t \<noteq> 0 \<Longrightarrow> t < da_size d" "\<not> usd d 0" using inv by (auto simp: dat_inv_def)
  have u: "usd ?d b = usd d b" for b using i(1) by (auto simp: dat_resize_def)
  have c: "chk ?d t = chk d t" for t using i(2) [of t] by (auto simp: dat_resize_def)
  have b: "bas ?d t = bas d t" if "t < da_size d" for t using that by (simp add: dat_resize_def)
  have "bas ?d t = bas d t" if "chk d t = x" "usd d x" for t x
    using that i(2,3) b by (metis (no_types, lifting))
  moreover have "bas ?d 0 = bas d 0" using b i(1) [OF used] by simp
  ultimately show "keeps UNIV d ?d" using u c by (simp add: keeps_def) (simp add: dat_resize_def)
  show "dat_lens ?d" by (simp add: dat_lens_def dat_resize_def)
qed

lemma insert_fuel_bound: "fp \<in> set fps \<Longrightarrow> length fp < insert_fuel fps"
  by (induction fps) (auto simp: insert_fuel_def)

text \<open>C14: Building a trie from a non-empty list of field paths ends, and never with one of its errors: it
  either panics on an index beyond the arrays, or gives a trie in which a search for any path tells
  exactly whether one of the field paths is a prefix of it, without panicking.\<close>

theorem dat_correct:
  assumes "fps \<noteq> []"
  shows "Build fps = Panic \<or>
    (\<exists>d. Build fps = Ok d \<and> (\<forall>path. CommonPrefixSearch d path = Ok (\<exists>fp \<in> set fps. prefix fp path)))"
proof -
  let ?fps = "sort fps" and ?root = "\<lparr>nd_code = 0, nd_depth = 0, nd_left = 0, nd_right = length (sort fps)\<rparr>"
  let ?d = "dat_init ?fps"
  have n: "0 < length ?fps" using assms by simp
  have inv: "dat_inv ?d" "fps_ok ?d" using dat_init_inv [of ?fps] by (auto simp: dat_inv_def)
  have ro: "range_ok ?d 0 0 (length ?fps)" using n by (auto simp: range_ok_def dat_init_fields)
  from fetch_ok [of ?d ?root] range_node [OF inv(2) ro] obtain cs where
    cs: "fetch ?d ?root = Ok cs" "children_ok ?d 0 0 (length ?fps) cs" by auto
  have "nd_code ` set cs = code_at ?d 0 ` {0..<length ?fps}" using cs(2) by (simp add: children_ok_def)
  then have ne: "cs \<noteq> []" using n by auto
  have "inserted ?d 0 0 (length ?fps) (dat_insert (insert_fuel ?fps) ?d cs)"
    using insert_ok(1) [OF inv(1) ro cs(2)] insert_fuel_bound [of _ ?fps] by (simp add: dat_init_fields)
  then consider "dat_insert (insert_fuel ?fps) ?d cs = Panic"
    | d b where "dat_insert (insert_fuel ?fps) ?d cs = Ok (d, b)" "dat_inv d" "keeps UNIV ?d d" "tree d UNIV (suf ?d 0 0 (length ?fps)) b"
    using tree_mono [OF _ subset_UNIV] unfolding inserted_def by blast
  then show ?thesis
  proof cases
    case 1
    then show ?thesis using cs(1) by (simp add: Build_def Let_def)
  next
    case 2
    obtain f where f: "insert_fuel ?fps = Suc f" by (auto simp: insert_fuel_def)
    have b: "b = 1" using 2(1) root_begin [OF ne] ne unfolding f by (auto simp: bind_res_Ok_iff)
    let ?e = "dat_resize (da_size d) d"
    have used: "usd d 1" using 2(4) b by (auto elim: tree_nodeE)
    note e = shrink_ok [OF 2(2) used]
    have "keeps UNIV ?d ?e" using keeps_trans [OF 2(3) e(1)] .
    then have k: "da_dict ?e = da_dict ?d" "bas ?e 0 = 1" by (auto simp: keeps_def dat_init_fields)
    have inj: "inj_on (da_dict ?e) (dom (da_dict ?e))" using fps_ok_inj [OF inv(2)] k by simp
    have S: "suf ?d 0 0 (length ?fps) = set fps"
    proof -
      have "suf ?d 0 0 (length ?fps) = (\<lambda>i. ?fps ! i) ` {0..<length ?fps}" by (simp add: suf_def dat_init_fields)
      also have "\<dots> = set ?fps" by (metis list.set_map map_nth set_upt)
      finally show ?thesis by simp
    qed
    have t: "tree ?e UNIV (set fps) 1" using tree_keeps [OF 2(4) e(1)] S b by simp
    have dom: "\<forall>fp \<in> set fps. set fp \<subseteq> dom (da_dict ?e)" using suf_dom [OF inv(2) ro] S k by simp
    have "CommonPrefixSearch ?e path = Ok (\<exists>fp \<in> set fps. prefix fp path)" for path
      using search_tree [OF e(2) inj t dom, of path] k(2) by (auto simp: CommonPrefixSearch_def cell_def split: if_splits)
    moreover have "Build fps = Ok ?e" using cs(1) 2(1) by (simp add: Build_def Let_def)
    ultimately show ?thesis by blast
  qed
qed

fun panics :: "('e, 'a) res \<Rightarrow> bool" where
  "panics Panic = True"
| "panics (Ok x) = False"
| "panics (Err e) = False"

lemma panics_iff: "panics r \<longleftrightarrow> r = Panic"
  by (cases r) auto

theorem dat_correct_witness:
  "\<exists>d. Build [[''a''], [''b'', ''c'']] = Ok d \<and> CommonPrefixSearch d [''b'', ''c'', ''x''] = Ok True
     \<and> CommonPrefixSearch d [''b''] = Ok False"
proof -
  have "\<not> panics (Build [[''a''], [''b'', ''c'']])" by code_simp
  then show ?thesis using dat_correct [of "[[''a''], [''b'', ''c'']]"] by (auto simp: panics_iff)
qed

text \<open>Twenty-four field paths over twenty-two names.\<close>

definition many_paths :: "string list list" where
  "many_paths = map (\<lambda>c. [[c]]) ''abcdefghijklmnopqrstuv'' @ [[''v'', ''a''], [''v'', ''v'']]"

text \<open>The arrays are enlarged once by five percent when the last child does not fit; when that is not
  enough the construction reads beyond the \<open>check\<close> array and panics. The paths \<open>a\<close> to \<open>v\<close> with \<open>v.a\<close> and
  \<open>v.v\<close> are such a case.\<close>

theorem dat_expansion_panics: "Build many_paths = Panic"
proof -
  have "panics (Build many_paths)" by code_simp
  then show ?thesis by (simp add: panics_iff)
qed

end
