(* ===== verification/Mux.thy ===== *)
theory Mux
  imports Go_Prelude "HOL-Library.AList"
begin

text \<open>
  The multiplexed connection pool, \<open>pool/multiplexed/multiplexed.go\<close>. Per node (network and address) the
  pool keeps a set \<open>Connections\<close> of concrete connections; many virtual connections, one per request,
  share a concrete one, which a reading goroutine serves by putting every frame into the queue of the
  virtual connection with the frame's ID. The state of a node is one record \<open>mux\<close>: pointers to virtual
  and concrete connections are indices into two stores, underlying network connections are numbered
  in the order they are dialled. A Go map is an association list without duplicate keys. What a lock
  protects is one step. The outcomes of dialling and the clock are arguments; a channel is closed at
  most once, or the code panics.
\<close>

datatype mux_error =
    NetErr nat
  | ErrDupRequestID | ErrSendQueueFull | ErrWriteNotFinished | ErrConnectionsHaveBeenExpelled
  | ErrFrameParserNil | ErrNetworkNotSupport | CtxErr | MuxBlocked

record PoolOptions =
  connectNumberPerHost :: nat
  sendQueueSize :: nat
  dropFull :: bool
  maxVirConnsPerConn :: nat
  maxIdleConnsPerHost :: int

record VirtualConnection =
  vc_id :: u32
  vc_conn :: nat
  vc_recv :: "bytes list"
  vc_done :: bool
  vc_closed :: bool
  vc_err :: "mux_error option"

record Connection =
  cn_err :: "mux_error option"
  cn_virConns :: "(u32 \<times> nat) list"
  cn_isIdle :: bool
  cn_closed :: bool
  cn_done :: bool
  cn_raw :: "nat option"
  cn_writeBuffer :: "bytes list"
  cn_reconnectCount :: nat
  cn_lastReconnectTime :: "int option"
  cn_isStream :: bool

record Connections =
  cs_conns :: "nat list"
  cs_currentIdle :: int
  cs_roundRobinIndex :: nat
  cs_expelled :: bool
  cs_err :: "mux_error list"

record mux =
  mx_vc :: "nat \<Rightarrow> VirtualConnection"
  mx_vcs :: nat
  mx_cn :: "nat \<Rightarrow> Connection"
  mx_cns :: nat
  mx_raws :: nat
  mx_open :: "nat list"
  mx_cs :: Connections

definition upd_vc :: "nat \<Rightarrow> (VirtualConnection \<Rightarrow> VirtualConnection) \<Rightarrow> mux \<Rightarrow> mux" where
  "upd_vc v f m = m\<lparr>mx_vc := (mx_vc m)(v := f (mx_vc m v))\<rparr>"

definition upd_cn :: "nat \<Rightarrow> (Connection \<Rightarrow> Connection) \<Rightarrow> mux \<Rightarrow> mux" where
  "upd_cn c f m = m\<lparr>mx_cn := (mx_cn m)(c := f (mx_cn m c))\<rparr>"

definition upd_cs :: "(Connections \<Rightarrow> Connections) \<Rightarrow> mux \<Rightarrow> mux" where
  "upd_cs f m = m\<lparr>mx_cs := f (mx_cs m)\<rparr>"

subsection \<open>Options\<close>

definition mux_New :: "PoolOptions \<Rightarrow> PoolOptions" where
  "mux_New opts =
     (if maxIdleConnsPerHost opts \<noteq> 0 \<and> maxIdleConnsPerHost opts < int (connectNumberPerHost opts)
      then opts\<lparr>maxIdleConnsPerHost := int (connectNumberPerHost opts)\<rparr> else opts)"

definition makeNodeKey :: "string \<Rightarrow> string \<Rightarrow> string" where
  "makeNodeKey network address = network @ ''_'' @ address"

definition isStream :: "string \<Rightarrow> (mux_error, bool) res" where
  "isStream network =
     (if network \<in> {''tcp'', ''tcp4'', ''tcp6'', ''unix''} then Ok True
      else if network \<in> {''udp'', ''udp4'', ''udp6''} then Ok False
      else Err ErrNetworkNotSupport)"

text \<open>\<open>GetOptions.update\<close>: whether the network is a stream, and the node key.\<close>

definition go_update :: "bool \<Rightarrow> string \<Rightarrow> string \<Rightarrow> (mux_error, bool \<times> string) res" where
  "go_update hasFP network address =
     (if \<not> hasFP then Err ErrFrameParserNil
      else bind_res (isStream network) (\<lambda>s. Ok (s, makeNodeKey network address)))"

subsection \<open>Idle connections\<close>

definition addIdle :: "PoolOptions \<Rightarrow> mux \<Rightarrow> mux" where
  "addIdle cfg m = (if maxIdleConnsPerHost cfg > 0 then upd_cs (\<lambda>cs. cs\<lparr>cs_currentIdle := cs_currentIdle cs + 1\<rparr>) m else m)"

definition subIdle :: "PoolOptions \<Rightarrow> mux \<Rightarrow> mux" where
  "subIdle cfg m = (if maxIdleConnsPerHost cfg > 0 then upd_cs (\<lambda>cs. cs\<lparr>cs_currentIdle := cs_currentIdle cs - 1\<rparr>) m else m)"

definition enableIdleRemove :: "PoolOptions \<Rightarrow> bool" where
  "enableIdleRemove cfg \<longleftrightarrow> maxIdleConnsPerHost cfg > 0 \<and> maxVirConnsPerConn cfg > 0"

definition filterOutConnection :: "nat list \<Rightarrow> nat \<Rightarrow> nat list" where
  "filterOutConnection cs c = filter (\<lambda>v. v \<noteq> c) cs"

text \<open>\<open>expel\<close>; when the last connection is gone, the destructor removes the node from the pool.\<close>

definition expel :: "PoolOptions \<Rightarrow> nat \<Rightarrow> mux \<Rightarrow> mux" where
  "expel cfg c m0 =
     (let m = subIdle cfg m0;
          err = (case cn_err (mx_cn m c) of None \<Rightarrow> [] | Some e \<Rightarrow> [e]);
          m = upd_cs (\<lambda>cs. cs\<lparr>cs_conns := filterOutConnection (cs_conns cs) c, cs_err := cs_err cs @ err\<rparr>) m
      in if cs_expelled (mx_cs m) \<or> length (cs_conns (mx_cs m)) > 0 then m
         else upd_cs (\<lambda>cs. cs\<lparr>cs_expelled := True\<rparr>) m)"

subsection \<open>Concrete and virtual connections\<close>

definition newConn :: "PoolOptions \<Rightarrow> bool \<Rightarrow> mux \<Rightarrow> mux \<times> nat" where
  "newConn cfg stream m =
     (let c = mx_cns m;
          cn = \<lparr>cn_err = None, cn_virConns = [], cn_isIdle = True, cn_closed = False, cn_done = False, cn_raw = None,
            cn_writeBuffer = [], cn_reconnectCount = 0, cn_lastReconnectTime = None, cn_isStream = stream\<rparr>;
          m = m\<lparr>mx_cns := c + 1, mx_cn := (mx_cn m)(c := cn)\<rparr>;
          m = upd_cs (\<lambda>cs. cs\<lparr>cs_conns := cs_conns cs @ [c]\<rparr>) m
      in (addIdle cfg m, c))"

definition canGetVirConn :: "PoolOptions \<Rightarrow> mux \<Rightarrow> nat \<Rightarrow> bool" where
  "canGetVirConn cfg m c \<longleftrightarrow> maxVirConnsPerConn cfg = 0 \<or> length (cn_virConns (mx_cn m c)) < maxVirConnsPerConn cfg"

definition pickSingleConcrete :: "PoolOptions \<Rightarrow> bool \<Rightarrow> mux \<Rightarrow> (mux_error, mux \<times> nat) res" where
  "pickSingleConcrete cfg stream m =
     (if cs_expelled (mx_cs m) then Err ErrConnectionsHaveBeenExpelled
      else if maxVirConnsPerConn cfg = 0 then
        (if connectNumberPerHost cfg = 0 then Panic
         else
           (let i = (cs_roundRobinIndex (mx_cs m) + 1) mod connectNumberPerHost cfg in
            if length (cs_conns (mx_cs m)) \<le> i
            then Ok (newConn cfg stream (upd_cs (\<lambda>cs. cs\<lparr>cs_roundRobinIndex := length (cs_conns cs)\<rparr>) m))
            else Ok (upd_cs (\<lambda>cs. cs\<lparr>cs_roundRobinIndex := i\<rparr>) m, cs_conns (mx_cs m) ! i)))
      else case find (canGetVirConn cfg m) (cs_conns (mx_cs m)) of
        Some c \<Rightarrow> Ok (m, c)
      | None \<Rightarrow> Ok (newConn cfg stream m))"

text \<open>\<open>storeErr\<close> keeps the first error; \<open>cancel\<close> stores the error and ends the context.\<close>

definition vc_cancel :: "mux_error option \<Rightarrow> nat \<Rightarrow> mux \<Rightarrow> mux" where
  "vc_cancel err v m =
     upd_vc v (\<lambda>vc. vc\<lparr>vc_err := (case vc_err vc of None \<Rightarrow> err | Some e \<Rightarrow> Some e), vc_done := True\<rparr>) m"

definition newVirConn :: "PoolOptions \<Rightarrow> nat \<Rightarrow> u32 \<Rightarrow> mux \<Rightarrow> mux \<times> nat" where
  "newVirConn cfg c virConnID m =
     (let v = mx_vcs m;
          vc = \<lparr>vc_id = virConnID, vc_conn = c, vc_recv = [], vc_done = False, vc_closed = False, vc_err = None\<rparr>;
          m = m\<lparr>mx_vcs := v + 1, mx_vc := (mx_vc m)(v := vc)\<rparr>;
          m = (if cn_closed (mx_cn m c) then vc_cancel (cn_err (mx_cn m c)) v m else m);
          m = (case map_of (cn_virConns (mx_cn m c)) virConnID of
                 Some prevConn \<Rightarrow> vc_cancel (Some ErrDupRequestID) prevConn m
               | None \<Rightarrow> m);
          idle = cn_isIdle (mx_cn m c);
          m = upd_cn c (\<lambda>cn. cn\<lparr>cn_virConns := AList.update virConnID v (cn_virConns cn), cn_isIdle := False\<rparr>) m
      in (if idle then subIdle cfg m else m, v))"

definition mux_get :: "PoolOptions \<Rightarrow> bool \<Rightarrow> u32 \<Rightarrow> mux \<Rightarrow> (mux_error, mux \<times> nat) res" where
  "mux_get cfg stream vid m =
     bind_res (pickSingleConcrete cfg stream m) (\<lambda>(m, c). Ok (newVirConn cfg c vid m))"

fun conns_initialize :: "PoolOptions \<Rightarrow> bool \<Rightarrow> nat \<Rightarrow> mux \<Rightarrow> mux" where
  "conns_initialize cfg stream 0 m = m"
| "conns_initialize cfg stream (Suc n) m = conns_initialize cfg stream n (fst (newConn cfg stream m))"

definition empty_mux :: mux where
  "empty_mux = \<lparr>mx_vc = (\<lambda>_. \<lparr>vc_id = 0, vc_conn = 0, vc_recv = [], vc_done = False, vc_closed = False, vc_err = None\<rparr>), mx_vcs = 0,
     mx_cn = (\<lambda>_. \<lparr>cn_err = None, cn_virConns = [], cn_isIdle = True, cn_closed = False, cn_done = False, cn_raw = None,
            cn_writeBuffer = [], cn_reconnectCount = 0, cn_lastReconnectTime = None, cn_isStream = True\<rparr>), mx_cns = 0,
     mx_raws = 0, mx_open = [], mx_cs = \<lparr>cs_conns = [], cs_currentIdle = 0, cs_roundRobinIndex = 0, cs_expelled = False, cs_err = []\<rparr>\<rparr>"

definition newConcreteConnections :: "PoolOptions \<Rightarrow> bool \<Rightarrow> mux" where
  "newConcreteConnections cfg stream = conns_initialize cfg stream (connectNumberPerHost cfg) empty_mux"

subsection \<open>Releasing a virtual connection\<close>

text \<open>\<open>close(c.done)\<close> panics when the channel is closed already.\<close>

definition close_done :: "nat \<Rightarrow> mux \<Rightarrow> (mux_error, mux) res" where
  "close_done c m = (if cn_done (mx_cn m c) then Panic else Ok (upd_cn c (\<lambda>cn. cn\<lparr>cn_done := True\<rparr>) m))"

definition close_raw :: "nat \<Rightarrow> mux \<Rightarrow> mux" where
  "close_raw c m = (case cn_raw (mx_cn m c) of None \<Rightarrow> m | Some r \<Rightarrow> m\<lparr>mx_open := removeAll r (mx_open m)\<rparr>)"

definition idleRemove :: "PoolOptions \<Rightarrow> nat \<Rightarrow> mux \<Rightarrow> (mux_error, mux \<times> bool) res" where
  "idleRemove cfg c m =
     (if length (cn_virConns (mx_cn m c)) \<noteq> 0 then Ok (m, False)
      else if cn_closed (mx_cn m c) then Ok (m, False)
      else
        (let m = (if \<not> cn_isIdle (mx_cn m c) then addIdle cfg (upd_cn c (\<lambda>cn. cn\<lparr>cn_isIdle := True\<rparr>) m) else m) in
         if \<not> cs_currentIdle (mx_cs m) > maxIdleConnsPerHost cfg then Ok (m, False)
         else bind_res (close_done c (upd_cn c (\<lambda>cn. cn\<lparr>cn_closed := True\<rparr>) m)) (\<lambda>m. Ok (close_raw c m, True))))"

definition doRemove :: "PoolOptions \<Rightarrow> nat \<Rightarrow> u32 \<Rightarrow> mux \<Rightarrow> (mux_error, mux \<times> bool) res" where
  "doRemove cfg c virConnID m =
     (let m = upd_cn c (\<lambda>cn. cn\<lparr>cn_virConns := AList.delete virConnID (cn_virConns cn)\<rparr>) m in
      if enableIdleRemove cfg then idleRemove cfg c m else Ok (m, False))"

definition cn_remove :: "PoolOptions \<Rightarrow> nat \<Rightarrow> u32 \<Rightarrow> mux \<Rightarrow> (mux_error, mux) res" where
  "cn_remove cfg c virConnID m =
     bind_res (doRemove cfg c virConnID m) (\<lambda>(m, needDestroy). Ok (if needDestroy then expel cfg c m else m))"

definition vc_Close :: "PoolOptions \<Rightarrow> nat \<Rightarrow> mux \<Rightarrow> (mux_error, mux) res" where
  "vc_Close cfg v m =
     (if vc_closed (mx_vc m v) then Ok m
      else cn_remove cfg (vc_conn (mx_vc m v)) (vc_id (mx_vc m v)) (upd_vc v (\<lambda>vc. vc\<lparr>vc_closed := True\<rparr>) m))"

subsection \<open>Sending and receiving\<close>

text \<open>When the write buffer has room and the connection is done, the \<open>select\<close> may take either: \<open>preferDone\<close>
  decides. The result carries the returned error, which may be nil.\<close>

definition cn_send :: "PoolOptions \<Rightarrow> bool \<Rightarrow> nat \<Rightarrow> bytes \<Rightarrow> mux \<Rightarrow> (mux_error, mux \<times> mux_error option) res" where
  "cn_send cfg preferDone c b m =
     (let room = length (cn_writeBuffer (mx_cn m c)) < sendQueueSize cfg;
          put = upd_cn c (\<lambda>cn. cn\<lparr>cn_writeBuffer := cn_writeBuffer cn @ [b]\<rparr>) m
      in if dropFull cfg then (if room then Ok (put, None) else Ok (m, Some ErrSendQueueFull))
         else if cn_done (mx_cn m c) \<and> (preferDone \<or> \<not> room) then Ok (m, cn_err (mx_cn m c))
         else if room then Ok (put, None)
         else Err MuxBlocked)"

definition vc_Write :: "PoolOptions \<Rightarrow> bool \<Rightarrow> nat \<Rightarrow> bytes \<Rightarrow> mux \<Rightarrow> (mux_error, mux \<times> mux_error option) res" where
  "vc_Write cfg preferDone v b m =
     (case vc_err (mx_vc m v) of
        Some e \<Rightarrow> Ok (m, Some e)
      | None \<Rightarrow>
          if vc_done (mx_vc m v) then bind_res (vc_Close cfg v m) (\<lambda>m. Ok (m, Some CtxErr))
          else bind_res (cn_send cfg preferDone (vc_conn (mx_vc m v)) b m) (\<lambda>(m, err).
            case err of
              None \<Rightarrow> Ok (m, None)
            | Some e \<Rightarrow> bind_res (vc_Close cfg v m) (\<lambda>m. Ok (m, Some e))))"

definition vc_Read :: "PoolOptions \<Rightarrow> nat \<Rightarrow> mux \<Rightarrow> (mux_error, mux \<times> (mux_error, bytes) res) res" where
  "vc_Read cfg v m =
     (case vc_recv (mx_vc m v) of
        b # bs \<Rightarrow> Ok (upd_vc v (\<lambda>vc. vc\<lparr>vc_recv := bs\<rparr>) m, Ok b)
      | [] \<Rightarrow>
          if vc_done (mx_vc m v) then
            bind_res (vc_Close cfg v m) (\<lambda>m.
              Ok (m, case vc_err (mx_vc m v) of Some e \<Rightarrow> Err e | None \<Rightarrow> Err CtxErr))
          else Err MuxBlocked)"

text \<open>The reading goroutine got a frame; frames of unknown IDs are dropped.\<close>

definition cn_deliver :: "nat \<Rightarrow> u32 \<Rightarrow> bytes \<Rightarrow> mux \<Rightarrow> mux" where
  "cn_deliver c vid buf m =
     (case map_of (cn_virConns (mx_cn m c)) vid of
        None \<Rightarrow> m
      | Some v \<Rightarrow> upd_vc v (\<lambda>vc. vc\<lparr>vc_recv := vc_recv vc @ [buf]\<rparr>) m)"

text \<open>\<open>writeTCP\<close>: each element of the second argument is the outcome of one \<open>Write\<close>.\<close>

fun writeTCP :: "bytes \<Rightarrow> (nat \<times> mux_error option) list \<Rightarrow> bytes \<Rightarrow> bytes \<times> (mux_error, unit) res" where
  "writeTCP [] outcomes wire = (wire, Ok ())"
| "writeTCP (x # xs) [] wire = (wire, Err MuxBlocked)"
| "writeTCP (x # xs) ((n, Some e) # outcomes) wire = (wire @ take n (x # xs), Err e)"
| "writeTCP (x # xs) ((n, None) # outcomes) wire = writeTCP (drop n (x # xs)) outcomes (wire @ take n (x # xs))"

definition writeUDP :: "bytes \<Rightarrow> nat \<times> mux_error option \<Rightarrow> (mux_error, unit) res" where
  "writeUDP b outcome =
     (case outcome of
        (_, Some e) \<Rightarrow> Err e
      | (num, None) \<Rightarrow> if num \<noteq> length b then Err ErrWriteNotFinished else Ok ())"

subsection \<open>Reconnecting\<close>

text \<open>Times are in milliseconds.\<close>

definition maxReconnectCount :: nat where
  "maxReconnectCount = 10"

definition reconnectCountResetInterval :: int where
  "reconnectCountResetInterval = 5 * (1 + 10) * 10"

definition doReconnectBackoff :: "int \<Rightarrow> Connection \<Rightarrow> Connection \<times> bool" where
  "doReconnectBackoff cur cn =
     (let count0 = (case cn_lastReconnectTime cn of
                      None \<Rightarrow> cn_reconnectCount cn
                    | Some t \<Rightarrow> if t + reconnectCountResetInterval < cur then 0 else cn_reconnectCount cn);
          count = count0 + 1
      in (cn\<lparr>cn_reconnectCount := count, cn_lastReconnectTime := Some cur\<rparr>, \<not> count > maxReconnectCount))"

text \<open>The loop of \<open>reconnect\<close>: each round dials; the flag tells whether that succeeds, the time is the clock
  when it fails. \<open>Trying\<close> is a loop that has used all the given rounds and goes on.\<close>

datatype reconnect_result = Reconnected Connection | GivenUp Connection | Trying Connection

fun reconnect_rounds :: "(bool \<times> int) list \<Rightarrow> Connection \<Rightarrow> reconnect_result" where
  "reconnect_rounds [] cn = Trying cn"
| "reconnect_rounds ((dialOk, now) # rounds) cn =
     (if dialOk then Reconnected cn
      else case doReconnectBackoff now cn of
        (cn, True) \<Rightarrow> reconnect_rounds rounds cn
      | (cn, False) \<Rightarrow> GivenUp cn)"

text \<open>A successful reconnection: the new network connection, a new \<open>done\<close> channel, and the connection counts as
  idle again.\<close>

definition reconnect_success :: "PoolOptions \<Rightarrow> nat \<Rightarrow> mux \<Rightarrow> mux" where
  "reconnect_success cfg c m =
     (let r = mx_raws m;
          m = m\<lparr>mx_raws := r + 1, mx_open := r # mx_open m\<rparr>;
          m = upd_cn c (\<lambda>cn. cn\<lparr>cn_raw := Some r, cn_done := False\<rparr>) m;
          m = (if \<not> cn_isIdle (mx_cn m c) then addIdle cfg (upd_cn c (\<lambda>cn. cn\<lparr>cn_isIdle := True\<rparr>) m) else m)
      in upd_cn c (\<lambda>cn. cn\<lparr>cn_err := None, cn_closed := False\<rparr>) m)"

definition cancel_all :: "mux_error option \<Rightarrow> nat list \<Rightarrow> mux \<Rightarrow> mux" where
  "cancel_all err vs m = foldl (\<lambda>m v. vc_cancel err v m) m vs"

text \<open>\<open>doClose\<close> holds the lock of the connection all the time, also while it reconnects. The result tells
  whether the connection has to be destroyed; a loop that goes on is \<open>Err MuxBlocked\<close>.\<close>

definition doClose :: "PoolOptions \<Rightarrow> mux_error \<Rightarrow> bool \<Rightarrow> int \<Rightarrow> (bool \<times> int) list \<Rightarrow> nat \<Rightarrow> mux \<Rightarrow> (mux_error, mux \<times> bool) res" where
  "doClose cfg lastErr reconnect now rounds c m =
     (if cn_closed (mx_cn m c) then Ok (m, False)
      else
        (let m = upd_cn c (\<lambda>cn. cn\<lparr>cn_closed := True, cn_err := Some lastErr\<rparr>) m;
             m = cancel_all (Some lastErr) (map snd (cn_virConns (mx_cn m c))) m;
             m = upd_cn c (\<lambda>cn. cn\<lparr>cn_virConns := []\<rparr>) m
         in bind_res (close_done c m) (\<lambda>m.
              let m = close_raw c m in
              if \<not> reconnect then Ok (m, True)
              else case doReconnectBackoff now (mx_cn m c) of
                (cn, False) \<Rightarrow> Ok (upd_cn c (\<lambda>_. cn) m, True)
              | (cn, True) \<Rightarrow>
                  (case reconnect_rounds rounds cn of
                     Reconnected cn \<Rightarrow> Ok (reconnect_success cfg c (upd_cn c (\<lambda>_. cn) m), False)
                   | GivenUp cn \<Rightarrow> Ok (upd_cn c (\<lambda>_. cn) m, True)
                   | Trying cn \<Rightarrow> Err MuxBlocked))))"

definition closeTCP :: "PoolOptions \<Rightarrow> mux_error option \<Rightarrow> bool \<Rightarrow> int \<Rightarrow> (bool \<times> int) list \<Rightarrow> nat \<Rightarrow> mux \<Rightarrow> (mux_error, mux) res" where
  "closeTCP cfg lastErr reconnect now rounds c m =
     (case lastErr of
        None \<Rightarrow> Ok m
      | Some e \<Rightarrow> bind_res (doClose cfg e reconnect now rounds c m) (\<lambda>(m, needDestroy).
          Ok (if needDestroy then expel cfg c m else m)))"

definition closeUDP :: "PoolOptions \<Rightarrow> mux_error option \<Rightarrow> nat \<Rightarrow> mux \<Rightarrow> (mux_error, mux) res" where
  "closeUDP cfg lastErr c m =
     bind_res (close_done c (upd_cn c (\<lambda>cn. cn\<lparr>cn_err := lastErr\<rparr>) (expel cfg c m))) (\<lambda>m.
       Ok (cancel_all lastErr (map snd (cn_virConns (mx_cn m c))) m))"

definition cn_close :: "PoolOptions \<Rightarrow> mux_error option \<Rightarrow> bool \<Rightarrow> int \<Rightarrow> (bool \<times> int) list \<Rightarrow> nat \<Rightarrow> mux \<Rightarrow> (mux_error, mux) res" where
  "cn_close cfg lastErr reconnect now rounds c m =
     (if cn_isStream (mx_cn m c) then closeTCP cfg lastErr reconnect now rounds c m else closeUDP cfg lastErr c m)"

text \<open>\<open>startConnect\<close>: \<open>dialErr\<close> is the error of the first dial, if it fails.\<close>

definition startConnect :: "PoolOptions \<Rightarrow> mux_error option \<Rightarrow> nat \<Rightarrow> mux \<Rightarrow> (mux_error, mux) res" where
  "startConnect cfg dialErr c m =
     (case dialErr of
        Some e \<Rightarrow> cn_close cfg (Some e) False 0 [] c m
      | None \<Rightarrow> Ok (let r = mx_raws m in
          upd_cn c (\<lambda>cn. cn\<lparr>cn_raw := Some r\<rparr>) (m\<lparr>mx_raws := r + 1, mx_open := r # mx_open m\<rparr>)))"

subsection \<open>The pool\<close>

type_synonym mux_pool = "string \<Rightarrow> mux option"

definition Multiplexed_get :: "PoolOptions \<Rightarrow> bool \<Rightarrow> string \<Rightarrow> u32 \<Rightarrow> mux_pool \<Rightarrow> (mux_error, mux_pool \<times> nat) res" where
  "Multiplexed_get cfg stream nodeKey vid p =
     (let m = (case p nodeKey of Some m \<Rightarrow> m | None \<Rightarrow> newConcreteConnections cfg stream) in
      bind_res (mux_get cfg stream vid m) (\<lambda>(m, v). Ok (p(nodeKey \<mapsto> m), v)))"

definition GetMuxConn :: "PoolOptions \<Rightarrow> bool \<Rightarrow> bool \<Rightarrow> string \<Rightarrow> string \<Rightarrow> u32 \<Rightarrow> mux_pool \<Rightarrow> (mux_error, mux_pool \<times> nat) res" where
  "GetMuxConn cfg ctxDone hasFP network address vid p =
     (if ctxDone then Err CtxErr
      else bind_res (go_update hasFP network address) (\<lambda>(stream, nodeKey). Multiplexed_get cfg stream nodeKey vid p))"

text \<open>The destructor, which \<open>expel\<close> runs once, after setting \<open>expelled\<close>.\<close>

definition mux_destructor :: "string \<Rightarrow> mux_pool \<Rightarrow> mux_pool" where
  "mux_destructor nodeKey p = p(nodeKey := None)"

end
