(* ===== verification/Mux_Proofs.thy ===== *)
theory Mux_Proofs
  imports Mux
begin

text \<open>
  What the multiplexed pool guarantees and where it does not. As long as request IDs are not reused, a
  virtual connection that is neither closed nor cancelled is registered with a working connection
  and gets exactly the frames of its ID. Reusing an ID breaks this for the newer connection. The
  reconnection loop ends when the failing dials are quick and runs for ever when they are slow; a
  reconnection after a failed write is undone by the reader of the old connection, again and again;
  and the counter of idle connections drifts when a busy connection is expelled.
\<close>

lemmas mux_upd_defs = upd_vc_def upd_cn_def upd_cs_def

subsection \<open>The registration invariant\<close>

text \<open>The part of the state it speaks of: the identity of virtual connections and whether they have ended,
  and the tables of the concrete ones.\<close>

definition vc_ended :: "VirtualConnection \<Rightarrow> bool" where
  "vc_ended vc \<longleftrightarrow> vc_done vc \<or> vc_closed vc"

definition mux_inv :: "mux \<Rightarrow> bool" where
  "mux_inv m \<longleftrightarrow>
     (\<forall>c < mx_cns m. \<forall>vid v. map_of (cn_virConns (mx_cn m c)) vid = Some v \<longrightarrow>
        v < mx_vcs m \<and> vc_conn (mx_vc m v) = c \<and> vc_id (mx_vc m v) = vid \<and> (cn_closed (mx_cn m c) \<longrightarrow> vc_done (mx_vc m v)))
     \<and> (\<forall>v < mx_vcs m. vc_conn (mx_vc m v) < mx_cns m)
     \<and> (\<forall>v < mx_vcs m. vc_ended (mx_vc m v) \<or> map_of (cn_virConns (mx_cn m (vc_conn (mx_vc m v)))) (vc_id (mx_vc m v)) = Some v)
     \<and> (\<forall>v < mx_vcs m. \<forall>w < mx_vcs m. vc_conn (mx_vc m v) = vc_conn (mx_vc m w) \<longrightarrow> vc_id (mx_vc m v) = vc_id (mx_vc m w) \<longrightarrow> v = w)
     \<and> set (cs_conns (mx_cs m)) \<subseteq> {..<mx_cns m}"

text \<open>A step that only ends virtual connections and leaves the tables alone.\<close>

definition only_ends :: "mux \<Rightarrow> mux \<Rightarrow> bool" where
  "only_ends m m' \<longleftrightarrow> mx_vcs m' = mx_vcs m \<and> mx_cns m' = mx_cns m \<and> set (cs_conns (mx_cs m')) \<subseteq> set (cs_conns (mx_cs m))
     \<and> (\<forall>v. vc_id (mx_vc m' v) = vc_id (mx_vc m v) \<and> vc_conn (mx_vc m' v) = vc_conn (mx_vc m v)
          \<and> (vc_done (mx_vc m v) \<longrightarrow> vc_done (mx_vc m' v)) \<and> (vc_closed (mx_vc m v) \<longrightarrow> vc_closed (mx_vc m' v)))
     \<and> (\<forall>c. cn_virConns (mx_cn m' c) = cn_virConns (mx_cn m c) \<and> (cn_closed (mx_cn m' c) \<longrightarrow> cn_closed (mx_cn m c)))"

lemma only_ends_refl [simp]: "only_ends m m"
  by (simp add: only_ends_def)

lemma only_ends_trans: "only_ends m m' \<Longrightarrow> only_ends m' m'' \<Longrightarrow> only_ends m m''"
  unfolding only_ends_def by (metis subset_trans)

lemma only_ends_inv:
  assumes "mux_inv m" "only_ends m m'"
  shows "mux_inv m'"
proof -
  note e = assms(2) [unfolded only_ends_def]
  show ?thesis unfolding mux_inv_def
  proof (intro conjI allI impI)
    fix c vid v assume "c < mx_cns m'" "map_of (cn_virConns (mx_cn m' c)) vid = Some v"
    then have r: "c < mx_cns m" "map_of (cn_virConns (mx_cn m c)) vid = Some v" using e by auto
    show "v < mx_vcs m'" "vc_conn (mx_vc m' v) = c" "vc_id (mx_vc m' v) = vid"
      using assms(1) e r unfolding mux_inv_def by metis+
    assume "cn_closed (mx_cn m' c)"
    then show "vc_done (mx_vc m' v)" using assms(1) e r unfolding mux_inv_def by metis
  next
    fix v assume v: "v < mx_vcs m'"
    show "vc_conn (mx_vc m' v) < mx_cns m'" using assms(1) e v unfolding mux_inv_def by metis
    show "vc_ended (mx_vc m' v) \<or> map_of (cn_virConns (mx_cn m' (vc_conn (mx_vc m' v)))) (vc_id (mx_vc m' v)) = Some v"
      using assms(1) e v unfolding mux_inv_def vc_ended_def by metis
  next
    fix v w assume "v < mx_vcs m'" "w < mx_vcs m'" "vc_conn (mx_vc m' v) = vc_conn (mx_vc m' w)" "vc_id (mx_vc m' v) = vc_id (mx_vc m' w)"
    then show "v = w" using assms(1) e unfolding mux_inv_def by metis
  next
    show "set (cs_conns (mx_cs m')) \<subseteq> {..<mx_cns m'}" using assms(1) e unfolding mux_inv_def by (metis subset_trans)
  qed
qed

lemma upd_cs_ends: "(\<And>cs. set (cs_conns (f cs)) \<subseteq> set (cs_conns cs)) \<Longrightarrow> only_ends m (upd_cs f m)"
  by (simp add: only_ends_def upd_cs_def)

lemma idle_ends [simp]: "only_ends m (addIdle cfg m)" "only_ends m (subIdle cfg m)"
  by (auto simp: addIdle_def subIdle_def intro!: upd_cs_ends)

lemma expel_ends [simp]: "only_ends m (expel cfg c m)"
proof -
  have f: "set (filterOutConnection cs c) \<subseteq> set cs" for cs by (auto simp: filterOutConnection_def)
  define m2 where "m2 = upd_cs (\<lambda>cs. cs\<lparr>cs_conns := filterOutConnection (cs_conns cs) c,
    cs_err := cs_err cs @ (case cn_err (mx_cn (subIdle cfg m) c) of None \<Rightarrow> [] | Some e \<Rightarrow> [e])\<rparr>) (subIdle cfg m)"
  have m2: "only_ends m m2"
    unfolding m2_def by (rule only_ends_trans [OF idle_ends(2)], rule upd_cs_ends) (simp add: f)
  have "expel cfg c m = (if cs_expelled (mx_cs m2) \<or> length (cs_conns (mx_cs m2)) > 0 then m2
      else upd_cs (\<lambda>cs. cs\<lparr>cs_expelled := True\<rparr>) m2)" by (simp only: expel_def Let_def m2_def)
  moreover have "only_ends m (upd_cs (\<lambda>cs. cs\<lparr>cs_expelled := True\<rparr>) m2)"
    by (rule only_ends_trans [OF m2], rule upd_cs_ends) simp
  ultimately show ?thesis using m2 by simp
qed

lemma upd_vc_ends:
  assumes "\<And>vc. vc_id (f vc) = vc_id vc \<and> vc_conn (f vc) = vc_conn vc \<and> (vc_done vc \<longrightarrow> vc_done (f vc)) \<and> (vc_closed vc \<longrightarrow> vc_closed (f vc))"
  shows "only_ends m (upd_vc v f m)"
  using assms by (simp add: only_ends_def upd_vc_def)

lemma upd_cn_ends:
  assumes "\<And>cn. cn_virConns (f cn) = cn_virConns cn \<and> (cn_closed (f cn) \<longrightarrow> cn_closed cn)"
  shows "only_ends m (upd_cn c f m)"
  using assms by (simp add: only_ends_def upd_cn_def)

lemma become_idle_ends: "only_ends m (addIdle cfg (upd_cn c (\<lambda>cn. cn\<lparr>cn_isIdle := True\<rparr>) m))"
  by (rule only_ends_trans [OF upd_cn_ends idle_ends(1)]) simp

lemma cancel_ends [simp]: "only_ends m (vc_cancel e v m)"
  unfolding vc_cancel_def by (rule upd_vc_ends) simp

lemma cancel_all_ends: "only_ends m (cancel_all e vs m)"
  by (induction vs arbitrary: m) (auto simp: cancel_all_def intro: only_ends_trans [OF cancel_ends])

lemma cancel_all_done:
  "v \<in> set vs \<Longrightarrow> vc_done (mx_vc (cancel_all e vs m) v)" "mx_cn (cancel_all e vs m) = mx_cn m"
  "vc_done (mx_vc m v) \<Longrightarrow> vc_done (mx_vc (cancel_all e vs m) v)"
  "mx_vcs (cancel_all e vs m) = mx_vcs m" "mx_cns (cancel_all e vs m) = mx_cns m" "mx_cs (cancel_all e vs m) = mx_cs m"
proof -
  have mono: "vc_done (mx_vc m v) \<Longrightarrow> vc_done (mx_vc (cancel_all e vs m) v)" for vs v m
    using cancel_all_ends [of m e vs] by (simp add: only_ends_def)
  show "vc_done (mx_vc m v) \<Longrightarrow> vc_done (mx_vc (cancel_all e vs m) v)" by (rule mono)
  show "v \<in> set vs \<Longrightarrow> vc_done (mx_vc (cancel_all e vs m) v)"
  proof (induction vs arbitrary: m)
    case (Cons w vs)
    show ?case
    proof (cases "v = w")
      case True
      have "vc_done (mx_vc (cancel_all e vs (vc_cancel e w m)) v)"
        by (rule mono) (simp add: True vc_cancel_def upd_vc_def)
      then show ?thesis by (simp add: cancel_all_def)
    next
      case False
      then show ?thesis using Cons by (simp add: cancel_all_def)
    qed
  qed simp
  show "mx_cn (cancel_all e vs m) = mx_cn m" "mx_vcs (cancel_all e vs m) = mx_vcs m" "mx_cns (cancel_all e vs m) = mx_cns m"
    "mx_cs (cancel_all e vs m) = mx_cs m"
    by (induction vs arbitrary: m) (auto simp: cancel_all_def vc_cancel_def upd_vc_def)
qed

text \<open>The table of one connection is emptied, or loses an entry whose virtual connection has ended.\<close>

lemma table_inv:
  assumes inv: "mux_inv m" and e: "mx_vcs m' = mx_vcs m" "mx_cns m' = mx_cns m" "set (cs_conns (mx_cs m')) \<subseteq> set (cs_conns (mx_cs m))"
    "\<And>v. vc_id (mx_vc m' v) = vc_id (mx_vc m v) \<and> vc_conn (mx_vc m' v) = vc_conn (mx_vc m v)
       \<and> (vc_done (mx_vc m v) \<longrightarrow> vc_done (mx_vc m' v)) \<and> (vc_closed (mx_vc m v) \<longrightarrow> vc_closed (mx_vc m' v))"
    and other: "\<And>x. x \<noteq> c \<Longrightarrow> mx_cn m' x = mx_cn m x"
    and sub: "\<And>vid v. map_of (cn_virConns (mx_cn m' c)) vid = Some v \<Longrightarrow> map_of (cn_virConns (mx_cn m c)) vid = Some v
       \<and> (cn_closed (mx_cn m' c) \<longrightarrow> vc_done (mx_vc m' v))"
    and gone: "\<And>vid v. map_of (cn_virConns (mx_cn m c)) vid = Some v \<Longrightarrow>
       vc_ended (mx_vc m' v) \<or> map_of (cn_virConns (mx_cn m' c)) vid = Some v"
  shows "mux_inv m'"
proof -
  have old: "\<And>x vid v. x < mx_cns m \<Longrightarrow> map_of (cn_virConns (mx_cn m x)) vid = Some v \<Longrightarrow>
      v < mx_vcs m \<and> vc_conn (mx_vc m v) = x \<and> vc_id (mx_vc m v) = vid \<and> (cn_closed (mx_cn m x) \<longrightarrow> vc_done (mx_vc m v))"
    and conn: "\<And>v. v < mx_vcs m \<Longrightarrow> vc_conn (mx_vc m v) < mx_cns m"
    and reg: "\<And>v. v < mx_vcs m \<Longrightarrow> vc_ended (mx_vc m v) \<or> map_of (cn_virConns (mx_cn m (vc_conn (mx_vc m v)))) (vc_id (mx_vc m v)) = Some v"
    and uniq: "\<And>v w. v < mx_vcs m \<Longrightarrow> w < mx_vcs m \<Longrightarrow> vc_conn (mx_vc m v) = vc_conn (mx_vc m w) \<Longrightarrow> vc_id (mx_vc m v) = vc_id (mx_vc m w) \<Longrightarrow> v = w"
    and cs: "set (cs_conns (mx_cs m)) \<subseteq> {..<mx_cns m}"
    using inv unfolding mux_inv_def by blast+
  show ?thesis unfolding mux_inv_def e(1,2)
  proof (intro conjI allI impI)
    fix x vid v assume x: "x < mx_cns m" and m': "map_of (cn_virConns (mx_cn m' x)) vid = Some v"
    have "map_of (cn_virConns (mx_cn m x)) vid = Some v \<and> (cn_closed (mx_cn m' x) \<longrightarrow> vc_done (mx_vc m' v))"
      using sub [of vid v] m' other [of x] old [OF x, of vid v] e(4) [of v] by (cases "x = c") auto
    then show "v < mx_vcs m" "vc_conn (mx_vc m' v) = x" "vc_id (mx_vc m' v) = vid" "cn_closed (mx_cn m' x) \<Longrightarrow> vc_done (mx_vc m' v)"
      using old [OF x, of vid v] e(4) [of v] by auto
  next
    fix v assume v: "v < mx_vcs m"
    show "vc_conn (mx_vc m' v) < mx_cns m" using conn [OF v] e(4) [of v] by simp
    show "vc_ended (mx_vc m' v) \<or> map_of (cn_virConns (mx_cn m' (vc_conn (mx_vc m' v)))) (vc_id (mx_vc m' v)) = Some v"
    proof (cases "vc_ended (mx_vc m v)")
      case True
      then show ?thesis using e(4) [of v] by (auto simp: vc_ended_def)
    next
      case False
      then show ?thesis using reg [OF v] gone other [of "vc_conn (mx_vc m v)"] e(4) [of v] by (cases "vc_conn (mx_vc m v) = c") auto
    qed
  next
    fix v w assume "v < mx_vcs m" "w < mx_vcs m" "vc_conn (mx_vc m' v) = vc_conn (mx_vc m' w)" "vc_id (mx_vc m' v) = vc_id (mx_vc m' w)"
    then show "v = w" using uniq e(4) by simp
  next
    show "set (cs_conns (mx_cs m')) \<subseteq> {..<mx_cns m}" using cs e(3) by blast
  qed
qed

lemma remove_inv:
  assumes inv: "mux_inv m" and v: "v < mx_vcs m" "vc_ended (mx_vc m v)"
  shows "mux_inv (upd_cn (vc_conn (mx_vc m v)) (\<lambda>cn. cn\<lparr>cn_virConns := AList.delete (vc_id (mx_vc m v)) (cn_virConns cn)\<rparr>) m)"
proof -
  let ?c = "vc_conn (mx_vc m v)"
  have c: "?c < mx_cns m" using inv v(1) by (simp add: mux_inv_def)
  have reg: "w = v" if "map_of (cn_virConns (mx_cn m ?c)) (vc_id (mx_vc m v)) = Some w" for w
    using inv c v(1) that unfolding mux_inv_def by metis
  have cl: "vc_done (mx_vc m w)" if "map_of (cn_virConns (mx_cn m ?c)) vid = Some w" "cn_closed (mx_cn m ?c)" for vid w
    using inv c that unfolding mux_inv_def by blast
  show ?thesis
    by (rule table_inv [OF inv, where c = ?c]) (use reg v(2) cl in \<open>auto simp: upd_cn_def AList.delete_conv' split: if_splits\<close>)
qed

lemma idleRemove_inv:
  assumes inv: "mux_inv m" and ok: "idleRemove cfg c m = Ok (m', b)"
  shows "mux_inv m'"
proof (cases "length (cn_virConns (mx_cn m c)) \<noteq> 0 \<or> cn_closed (mx_cn m c)")
  case True
  then have "m' = m" using ok by (auto simp: idleRemove_def split: if_splits)
  then show ?thesis using inv by simp
next
  case False
  define m1 where "m1 = (if \<not> cn_isIdle (mx_cn m c) then addIdle cfg (upd_cn c (\<lambda>cn. cn\<lparr>cn_isIdle := True\<rparr>) m) else m)"
  have "only_ends m m1" unfolding m1_def using become_idle_ends by simp
  then have i1: "mux_inv m1" "cn_virConns (mx_cn m1 c) = []" using only_ends_inv [OF inv] False by (auto simp: only_ends_def)
  have "idleRemove cfg c m = (if \<not> cs_currentIdle (mx_cs m1) > maxIdleConnsPerHost cfg then Ok (m1, False)
      else bind_res (close_done c (upd_cn c (\<lambda>cn. cn\<lparr>cn_closed := True\<rparr>) m1)) (\<lambda>m. Ok (close_raw c m, True)))"
    using False by (simp add: idleRemove_def m1_def Let_def)
  then consider "m' = m1" | "m' = close_raw c (upd_cn c (\<lambda>cn. cn\<lparr>cn_done := True\<rparr>) (upd_cn c (\<lambda>cn. cn\<lparr>cn_closed := True\<rparr>) m1))"
    using ok by (auto simp: close_done_def split: if_splits)
  then show ?thesis
  proof cases
    case 2
    show ?thesis unfolding 2
      by (rule table_inv [OF i1(1), where c = c]) (use i1(2) in \<open>auto simp: close_raw_def upd_cn_def split: option.splits\<close>)
  qed (use i1 in simp)
qed

lemma doRemove_inv:
  assumes inv: "mux_inv m" and v: "v < mx_vcs m" "vc_ended (mx_vc m v)"
    and ok: "cn_remove cfg (vc_conn (mx_vc m v)) (vc_id (mx_vc m v)) m = Ok m'"
  shows "mux_inv m'"
proof -
  note r = remove_inv [OF inv v]
  obtain m1 b where m1: "doRemove cfg (vc_conn (mx_vc m v)) (vc_id (mx_vc m v)) m = Ok (m1, b)" "m' = (if b then expel cfg (vc_conn (mx_vc m v)) m1 else m1)"
    using ok by (auto simp: cn_remove_def bind_res_Ok_iff)
  have "mux_inv m1" using m1(1) r idleRemove_inv [OF r] by (auto simp: doRemove_def Let_def split: if_splits)
  then show ?thesis using m1(2) only_ends_inv [OF _ expel_ends] by simp
qed

lemma vc_Close_inv:
  assumes inv: "mux_inv m" and v: "v < mx_vcs m" and ok: "vc_Close cfg v m = Ok m'"
  shows "mux_inv m'"
proof (cases "vc_closed (mx_vc m v)")
  case True
  then show ?thesis using inv ok by (simp add: vc_Close_def)
next
  case False
  let ?m = "upd_vc v (\<lambda>vc. vc\<lparr>vc_closed := True\<rparr>) m"
  have "only_ends m ?m" by (rule upd_vc_ends) simp
  then have i: "mux_inv ?m" using only_ends_inv [OF inv] by blast
  have e: "v < mx_vcs ?m" "vc_ended (mx_vc ?m v)" "vc_conn (mx_vc ?m v) = vc_conn (mx_vc m v)" "vc_id (mx_vc ?m v) = vc_id (mx_vc m v)"
    using v by (auto simp: upd_vc_def vc_ended_def)
  show ?thesis using doRemove_inv [OF i e(1,2)] ok False e(3,4) by (simp add: vc_Close_def)
qed

lemma send_ends: "cn_send cfg pd c b m = Ok (m', err) \<Longrightarrow> only_ends m m'"
  by (auto simp: cn_send_def Let_def split: if_splits intro!: upd_cn_ends)

lemma vc_Write_inv:
  assumes inv: "mux_inv m" and v: "v < mx_vcs m" and ok: "vc_Write cfg pd v b m = Ok (m', err)"
  shows "mux_inv m'"
proof (cases "vc_err (mx_vc m v) \<noteq> None \<or> vc_done (mx_vc m v)")
  case True
  then show ?thesis using inv ok vc_Close_inv [OF inv v] by (auto simp: vc_Write_def bind_res_Ok_iff split: option.splits)
next
  case False
  then obtain m1 e where s: "cn_send cfg pd (vc_conn (mx_vc m v)) b m = Ok (m1, e)"
    "(case e of None \<Rightarrow> Ok (m1, None) | Some e \<Rightarrow> bind_res (vc_Close cfg v m1) (\<lambda>m. Ok (m, Some e))) = Ok (m', err)"
    using ok by (auto simp: vc_Write_def bind_res_Ok_iff)
  have i: "mux_inv m1" "v < mx_vcs m1" using only_ends_inv [OF inv send_ends [OF s(1)]] send_ends [OF s(1)] v by (auto simp: only_ends_def)
  then show ?thesis using s(2) vc_Close_inv [OF i] by (auto simp: bind_res_Ok_iff split: option.splits)
qed

lemma vc_Read_inv:
  assumes inv: "mux_inv m" and v: "v < mx_vcs m" and ok: "vc_Read cfg v m = Ok (m', r)"
  shows "mux_inv m'"
proof (cases "vc_recv (mx_vc m v)")
  case Nil
  then show ?thesis using vc_Close_inv [OF inv v] ok by (auto simp: vc_Read_def bind_res_Ok_iff split: if_splits)
next
  case (Cons b bs)
  have "only_ends m (upd_vc v (\<lambda>vc. vc\<lparr>vc_recv := bs\<rparr>) m)" by (rule upd_vc_ends) simp
  then show ?thesis using Cons ok only_ends_inv [OF inv] by (auto simp: vc_Read_def)
qed

lemma deliver_ends: "only_ends m (cn_deliver c vid b m)"
  by (auto simp: cn_deliver_def split: option.splits intro!: upd_vc_ends)

text \<open>Closing a connection: whatever comes after, its virtual connections are cancelled first.\<close>

definition shut :: "mux_error \<Rightarrow> nat \<Rightarrow> mux \<Rightarrow> mux" where
  "shut lastErr c m =
     upd_cn c (\<lambda>cn. cn\<lparr>cn_virConns := []\<rparr>)
       (cancel_all (Some lastErr) (map snd (cn_virConns (mx_cn m c)))
         (upd_cn c (\<lambda>cn. cn\<lparr>cn_closed := True, cn_err := Some lastErr\<rparr>) m))"

lemma shut_inv:
  assumes inv: "mux_inv m"
  shows "mux_inv (shut e c m)" "cn_virConns (mx_cn (shut e c m) c) = []" "cn_closed (mx_cn (shut e c m) c)"
    "cn_isIdle (mx_cn (shut e c m) c) = cn_isIdle (mx_cn m c)" "cn_done (mx_cn (shut e c m) c) = cn_done (mx_cn m c)"
    "cn_reconnectCount (mx_cn (shut e c m) c) = cn_reconnectCount (mx_cn m c)"
    "cn_lastReconnectTime (mx_cn (shut e c m) c) = cn_lastReconnectTime (mx_cn m c)"
    "cn_raw (mx_cn (shut e c m) c) = cn_raw (mx_cn m c)"
    "x \<noteq> c \<Longrightarrow> mx_cn (shut e c m) x = mx_cn m x"
proof -
  let ?vs = "map snd (cn_virConns (mx_cn m c))"
  let ?m0 = "upd_cn c (\<lambda>cn. cn\<lparr>cn_closed := True, cn_err := Some e\<rparr>) m"
  have vc0: "mx_vc ?m0 = mx_vc m" "mx_vcs ?m0 = mx_vcs m" "mx_cns ?m0 = mx_cns m" "mx_cs ?m0 = mx_cs m" by (auto simp: upd_cn_def)
  have ce: "only_ends ?m0 (cancel_all (Some e) ?vs ?m0)" by (rule cancel_all_ends)
  have ended: "vc_done (mx_vc (shut e c m) v)" if "map_of (cn_virConns (mx_cn m c)) vid = Some v" for vid v
  proof -
    have "v \<in> set ?vs" using map_of_SomeD [OF that] by force
    then show ?thesis using cancel_all_done(1) by (simp add: shut_def upd_cn_def)
  qed
  show "mux_inv (shut e c m)"
  proof (rule table_inv [OF inv, where c = c])
    show "vc_id (mx_vc (shut e c m) v) = vc_id (mx_vc m v) \<and> vc_conn (mx_vc (shut e c m) v) = vc_conn (mx_vc m v)
       \<and> (vc_done (mx_vc m v) \<longrightarrow> vc_done (mx_vc (shut e c m) v)) \<and> (vc_closed (mx_vc m v) \<longrightarrow> vc_closed (mx_vc (shut e c m) v))" for v
      using ce vc0 by (simp add: only_ends_def shut_def) (simp add: upd_cn_def)
  qed (use ended in \<open>auto simp: shut_def upd_cn_def cancel_all_done(2-) vc_ended_def\<close>)
  show "cn_virConns (mx_cn (shut e c m) c) = []" "cn_closed (mx_cn (shut e c m) c)"
    "cn_isIdle (mx_cn (shut e c m) c) = cn_isIdle (mx_cn m c)" "cn_done (mx_cn (shut e c m) c) = cn_done (mx_cn m c)"
    "cn_reconnectCount (mx_cn (shut e c m) c) = cn_reconnectCount (mx_cn m c)"
    "cn_lastReconnectTime (mx_cn (shut e c m) c) = cn_lastReconnectTime (mx_cn m c)"
    "cn_raw (mx_cn (shut e c m) c) = cn_raw (mx_cn m c)"
    "x \<noteq> c \<Longrightarrow> mx_cn (shut e c m) x = mx_cn m x"
    by (auto simp: shut_def upd_cn_def cancel_all_done(2))
qed

lemma doClose_shut:
  "doClose cfg e reconnect now rounds c m =
     (if cn_closed (mx_cn m c) then Ok (m, False)
      else bind_res (close_done c (shut e c m)) (\<lambda>m.
              let m = close_raw c m in
              if \<not> reconnect then Ok (m, True)
              else case doReconnectBackoff now (mx_cn m c) of
                (cn, False) \<Rightarrow> Ok (upd_cn c (\<lambda>_. cn) m, True)
              | (cn, True) \<Rightarrow>
                  (case reconnect_rounds rounds cn of
                     Reconnected cn \<Rightarrow> Ok (reconnect_success cfg c (upd_cn c (\<lambda>_. cn) m), False)
                   | GivenUp cn \<Rightarrow> Ok (upd_cn c (\<lambda>_. cn) m, True)
                   | Trying cn \<Rightarrow> Err MuxBlocked)))"
proof -
  have "cn_virConns (mx_cn (upd_cn c (\<lambda>cn. cn\<lparr>cn_closed := True, cn_err := Some e\<rparr>) m) c) = cn_virConns (mx_cn m c)"
    by (simp add: upd_cn_def)
  then show ?thesis unfolding doClose_def shut_def Let_def by simp
qed

text \<open>Reconnecting changes nothing but the counters, or makes the connection usable.\<close>

lemma backoff_frame:
  "doReconnectBackoff now cn = (cn', b) \<Longrightarrow> cn_virConns cn' = cn_virConns cn \<and> cn_closed cn' = cn_closed cn \<and> cn_isIdle cn' = cn_isIdle cn
     \<and> cn_raw cn' = cn_raw cn \<and> cn_isStream cn' = cn_isStream cn \<and> cn_err cn' = cn_err cn"
  by (auto simp: doReconnectBackoff_def Let_def)

definition result_conn :: "reconnect_result \<Rightarrow> Connection" where
  "result_conn r = (case r of Reconnected cn \<Rightarrow> cn | GivenUp cn \<Rightarrow> cn | Trying cn \<Rightarrow> cn)"

lemma rounds_frame:
  "cn_virConns (result_conn (reconnect_rounds rounds cn)) = cn_virConns cn \<and> cn_closed (result_conn (reconnect_rounds rounds cn)) = cn_closed cn
     \<and> cn_isIdle (result_conn (reconnect_rounds rounds cn)) = cn_isIdle cn \<and> cn_raw (result_conn (reconnect_rounds rounds cn)) = cn_raw cn
     \<and> cn_isStream (result_conn (reconnect_rounds rounds cn)) = cn_isStream cn \<and> cn_err (result_conn (reconnect_rounds rounds cn)) = cn_err cn"
proof (induction rounds cn rule: reconnect_rounds.induct)
  case (2 dialOk now rounds cn)
  obtain cn' b where b: "doReconnectBackoff now cn = (cn', b)" by (cases "doReconnectBackoff now cn")
  show ?case using 2 b backoff_frame [OF b] by (cases b) (auto simp: result_conn_def)
qed (simp add: result_conn_def)

lemma replace_cn_ends:
  assumes "cn_virConns cn = cn_virConns (mx_cn m c)" "cn_closed cn = cn_closed (mx_cn m c)"
  shows "only_ends m (upd_cn c (\<lambda>_. cn) m)"
  using assms by (simp add: only_ends_def upd_cn_def)

lemma close_raw_ends: "only_ends m (close_raw c m)"
  by (auto simp: close_raw_def only_ends_def split: option.splits)

lemma reconnect_success_ends:
  shows "only_ends m (reconnect_success cfg c m)"
proof -
  define m1 where "m1 = upd_cn c (\<lambda>cn. cn\<lparr>cn_raw := Some (mx_raws m), cn_done := False\<rparr>) (m\<lparr>mx_raws := mx_raws m + 1, mx_open := mx_raws m # mx_open m\<rparr>)"
  define m2 where "m2 = (if \<not> cn_isIdle (mx_cn m1 c) then addIdle cfg (upd_cn c (\<lambda>cn. cn\<lparr>cn_isIdle := True\<rparr>) m1) else m1)"
  have "only_ends m m1" by (simp add: only_ends_def m1_def upd_cn_def)
  moreover have "only_ends m1 m2" unfolding m2_def using become_idle_ends by simp
  moreover have "only_ends m2 (upd_cn c (\<lambda>cn. cn\<lparr>cn_err := None, cn_closed := False\<rparr>) m2)" by (rule upd_cn_ends) simp
  moreover have "reconnect_success cfg c m = upd_cn c (\<lambda>cn. cn\<lparr>cn_err := None, cn_closed := False\<rparr>) m2"
    by (simp only: reconnect_success_def Let_def m1_def m2_def)
  ultimately show ?thesis using only_ends_trans by metis
qed

lemma doClose_inv:
  assumes inv: "mux_inv m" and ok: "doClose cfg e reconnect now rounds c m = Ok (m', b)"
  shows "mux_inv m'"
proof (cases "cn_closed (mx_cn m c)")
  case True
  then show ?thesis using inv ok by (simp add: doClose_def)
next
  case False
  define m1 where "m1 = close_raw c (upd_cn c (\<lambda>cn. cn\<lparr>cn_done := True\<rparr>) (shut e c m))"
  have "only_ends (shut e c m) m1"
    unfolding m1_def by (rule only_ends_trans [OF upd_cn_ends close_raw_ends]) simp
  then have i1: "mux_inv m1" using only_ends_inv [OF shut_inv(1) [OF inv]] by blast
  obtain cn1 b1 where bk: "doReconnectBackoff now (mx_cn m1 c) = (cn1, b1)" by (cases "doReconnectBackoff now (mx_cn m1 c)")
  let ?r = "reconnect_rounds rounds cn1"
  have f: "only_ends m1 (upd_cn c (\<lambda>_. cn1) m1)" "only_ends m1 (upd_cn c (\<lambda>_. result_conn ?r) m1)"
    using backoff_frame [OF bk] rounds_frame [of rounds cn1] by (auto intro!: replace_cn_ends)
  have "m' = m1 \<or> m' = upd_cn c (\<lambda>_. cn1) m1 \<or> m' = upd_cn c (\<lambda>_. result_conn ?r) m1
      \<or> m' = reconnect_success cfg c (upd_cn c (\<lambda>_. result_conn ?r) m1)"
    using ok False bk unfolding doClose_shut
    by (auto simp: close_done_def Let_def m1_def result_conn_def split: if_splits bool.splits reconnect_result.splits)
  then have "only_ends m1 m'" using f only_ends_trans [OF f(2) reconnect_success_ends] by auto
  then show ?thesis using only_ends_inv [OF i1] by blast
qed

lemma cn_close_inv:
  assumes inv: "mux_inv m" and ok: "cn_close cfg e reconnect now rounds c m = Ok m'"
  shows "mux_inv m'"
proof (cases "cn_isStream (mx_cn m c)")
  case True
  show ?thesis
  proof (cases e)
    case None
    then show ?thesis using True ok inv by (simp add: cn_close_def closeTCP_def)
  next
    case (Some x)
    then obtain m1 b where d: "doClose cfg x reconnect now rounds c m = Ok (m1, b)" "m' = (if b then expel cfg c m1 else m1)"
      using True ok by (auto simp: cn_close_def closeTCP_def bind_res_Ok_iff)
    then show ?thesis using doClose_inv [OF inv d(1)] only_ends_inv [OF _ expel_ends] by simp
  qed
next
  case False
  let ?m1 = "upd_cn c (\<lambda>cn. cn\<lparr>cn_err := e\<rparr>) (expel cfg c m)"
  have "only_ends m ?m1" by (rule only_ends_trans [OF expel_ends upd_cn_ends]) simp
  moreover have "only_ends ?m1 (upd_cn c (\<lambda>cn. cn\<lparr>cn_done := True\<rparr>) ?m1)" by (rule upd_cn_ends) simp
  moreover obtain vs where "m' = cancel_all e vs (upd_cn c (\<lambda>cn. cn\<lparr>cn_done := True\<rparr>) ?m1)"
    using False ok by (auto simp: cn_close_def closeUDP_def close_done_def split: if_splits)
  ultimately have "only_ends m m'" using cancel_all_ends only_ends_trans by metis
  then show ?thesis using only_ends_inv [OF inv] by blast
qed

lemma startConnect_inv:
  assumes "mux_inv m" "startConnect cfg e c m = Ok m'"
  shows "mux_inv m'"
proof (cases e)
  case None
  then have "only_ends m m'" using assms(2) by (auto simp: startConnect_def Let_def only_ends_def upd_cn_def split: if_splits)
  then show ?thesis using only_ends_inv [OF assms(1)] by blast
next
  case (Some x)
  then show ?thesis using assms cn_close_inv by (simp add: startConnect_def)
qed

lemma newConn_inv:
  assumes inv: "mux_inv m" and nc: "newConn cfg s m = (m', c)"
  shows "mux_inv m'"
proof -
  define m1 where "m1 = fst (newConn (cfg\<lparr>maxIdleConnsPerHost := 0\<rparr>) s m)"
  have f: "mx_vc m1 = mx_vc m" "mx_vcs m1 = mx_vcs m" "mx_cns m1 = Suc (mx_cns m)" "cs_conns (mx_cs m1) = cs_conns (mx_cs m) @ [mx_cns m]"
    "cn_virConns (mx_cn m1 (mx_cns m)) = []"
    by (simp_all add: m1_def newConn_def Let_def addIdle_def upd_cs_def)
  have cn: "mx_cn m1 x = mx_cn m x" if "x \<noteq> mx_cns m" for x
    using that by (simp add: m1_def newConn_def Let_def addIdle_def upd_cs_def)
  have conn: "vc_conn (mx_vc m v) < mx_cns m" if "v < mx_vcs m" for v using inv that by (simp add: mux_inv_def)
  have "mux_inv m1" unfolding mux_inv_def f(1,2,3)
  proof (intro conjI allI impI)
    fix x k w assume x: "x < Suc (mx_cns m)" and t: "map_of (cn_virConns (mx_cn m1 x)) k = Some w"
    have "x \<noteq> mx_cns m" using t f(5) by auto
    then have "x < mx_cns m" "mx_cn m1 x = mx_cn m x" using x cn by auto
    then show "w < mx_vcs m" "vc_conn (mx_vc m w) = x" "vc_id (mx_vc m w) = k" "cn_closed (mx_cn m1 x) \<Longrightarrow> vc_done (mx_vc m w)"
      using inv t unfolding mux_inv_def by auto
  next
    fix w assume w: "w < mx_vcs m"
    show "vc_conn (mx_vc m w) < Suc (mx_cns m)" using conn [OF w] by simp
    have "mx_cn m1 (vc_conn (mx_vc m w)) = mx_cn m (vc_conn (mx_vc m w))" using conn [OF w] cn by simp
    then show "vc_ended (mx_vc m w) \<or> map_of (cn_virConns (mx_cn m1 (vc_conn (mx_vc m w)))) (vc_id (mx_vc m w)) = Some w"
      using inv w unfolding mux_inv_def by simp
  next
    fix v w assume "v < mx_vcs m" "w < mx_vcs m" "vc_conn (mx_vc m v) = vc_conn (mx_vc m w)" "vc_id (mx_vc m v) = vc_id (mx_vc m w)"
    then show "v = w" using inv unfolding mux_inv_def by blast
  next
    show "set (cs_conns (mx_cs m1)) \<subseteq> {..<Suc (mx_cns m)}" using inv f(4) by (auto simp: mux_inv_def less_Suc_eq)
  qed
  moreover have "m' = addIdle cfg m1" using nc by (auto simp: m1_def newConn_def Let_def addIdle_def)
  ultimately show ?thesis using only_ends_inv [OF _ idle_ends(1)] by blast
qed

lemma initialize_inv: "mux_inv m \<Longrightarrow> mux_inv (conns_initialize cfg s n m)"
proof (induction n arbitrary: m)
  case (Suc n)
  then show ?case using newConn_inv [OF Suc.prems, of cfg s] by (cases "newConn cfg s m") simp
qed simp

lemma pick_inv:
  assumes inv: "mux_inv m" and ok: "pickSingleConcrete cfg s m = Ok (m', c)"
  shows "mux_inv m'"
proof -
  have rr: "mux_inv (upd_cs (\<lambda>cs. cs\<lparr>cs_roundRobinIndex := f cs\<rparr>) m)" for f
    by (rule only_ends_inv [OF inv], rule upd_cs_ends) simp
  show ?thesis using ok newConn_inv [OF rr] newConn_inv [OF inv] rr inv
    by (auto simp: pickSingleConcrete_def Let_def split: if_splits option.splits)
qed

definition fresh_id :: "mux \<Rightarrow> nat \<Rightarrow> u32 \<Rightarrow> bool" where
  "fresh_id m c vid \<longleftrightarrow> (\<forall>v < mx_vcs m. vc_conn (mx_vc m v) = c \<longrightarrow> vc_id (mx_vc m v) \<noteq> vid)"

lemma newVirConn_inv:
  assumes inv: "mux_inv m" and c: "c < mx_cns m" "fresh_id m c vid" and nv: "newVirConn cfg c vid m = (m', v)"
  shows "mux_inv m'" "v = mx_vcs m" "vc_conn (mx_vc m' v) = c" "vc_id (mx_vc m' v) = vid"
proof -
  let ?v = "mx_vcs m" and ?cn = "mx_cn m c"
  have none: "map_of (cn_virConns ?cn) vid = None"
  proof (rule ccontr)
    assume "map_of (cn_virConns ?cn) vid \<noteq> None"
    then obtain w where "map_of (cn_virConns ?cn) vid = Some w" by blast
    then show False using inv c unfolding mux_inv_def fresh_id_def by metis
  qed
  define vc where "vc = \<lparr>vc_id = vid, vc_conn = c, vc_recv = [], vc_done = cn_closed ?cn, vc_closed = False,
    vc_err = (if cn_closed ?cn then cn_err ?cn else None)\<rparr>"
  define m1 where "m1 = m\<lparr>mx_vcs := ?v + 1, mx_vc := (mx_vc m)(?v := vc),
    mx_cn := (mx_cn m)(c := ?cn\<lparr>cn_virConns := AList.update vid ?v (cn_virConns ?cn), cn_isIdle := False\<rparr>)\<rparr>"
  have eq: "m' = (if cn_isIdle ?cn then subIdle cfg m1 else m1)" "v = ?v"
    using nv none by (auto simp: newVirConn_def Let_def m1_def vc_def vc_cancel_def upd_vc_def upd_cn_def)
  have tbl: "map_of (cn_virConns (mx_cn m1 x)) k = (if x = c \<and> k = vid then Some ?v else map_of (cn_virConns (mx_cn m x)) k)" for x k
    by (simp add: m1_def AList.update_conv')
  have cl: "cn_closed (mx_cn m1 x) = cn_closed (mx_cn m x)" for x by (simp add: m1_def)
  have vcs: "mx_vc m1 w = (if w = ?v then vc else mx_vc m w)" "mx_vcs m1 = Suc ?v" "mx_cns m1 = mx_cns m" "mx_cs m1 = mx_cs m" for w
    by (simp_all add: m1_def)
  have "mux_inv m1" unfolding mux_inv_def
  proof (intro conjI allI impI)
    fix x k w assume x: "x < mx_cns m1" and t: "map_of (cn_virConns (mx_cn m1 x)) k = Some w"
    have "w < mx_vcs m1 \<and> vc_conn (mx_vc m1 w) = x \<and> vc_id (mx_vc m1 w) = k \<and> (cn_closed (mx_cn m1 x) \<longrightarrow> vc_done (mx_vc m1 w))"
    proof (cases "x = c \<and> k = vid")
      case True
      then show ?thesis using t tbl by (auto simp: vcs cl vc_def)
    next
      case False
      then have "map_of (cn_virConns (mx_cn m x)) k = Some w" using t tbl by auto
      then have "w < ?v \<and> vc_conn (mx_vc m w) = x \<and> vc_id (mx_vc m w) = k \<and> (cn_closed (mx_cn m x) \<longrightarrow> vc_done (mx_vc m w))"
        using inv x vcs(3) unfolding mux_inv_def by auto
      then show ?thesis by (simp add: vcs cl)
    qed
    then show "w < mx_vcs m1" "vc_conn (mx_vc m1 w) = x" "vc_id (mx_vc m1 w) = k" "cn_closed (mx_cn m1 x) \<Longrightarrow> vc_done (mx_vc m1 w)"
      by blast+
  next
    fix w assume w: "w < mx_vcs m1"
    show "vc_conn (mx_vc m1 w) < mx_cns m1" using inv c(1) w by (auto simp: vcs vc_def mux_inv_def less_Suc_eq)
    show "vc_ended (mx_vc m1 w) \<or> map_of (cn_virConns (mx_cn m1 (vc_conn (mx_vc m1 w)))) (vc_id (mx_vc m1 w)) = Some w"
    proof (cases "w = ?v")
      case True
      then show ?thesis by (simp add: vcs vc_def tbl)
    next
      case False
      then have lt: "w < ?v" using w vcs(2) by simp
      then have "\<not> (vc_conn (mx_vc m w) = c \<and> vc_id (mx_vc m w) = vid)" using c(2) by (auto simp: fresh_id_def)
      then show ?thesis using inv lt False unfolding tbl vcs mux_inv_def by auto
    qed
  next
    fix w w' assume "w < mx_vcs m1" "w' < mx_vcs m1" "vc_conn (mx_vc m1 w) = vc_conn (mx_vc m1 w')" "vc_id (mx_vc m1 w) = vc_id (mx_vc m1 w')"
    then show "w = w'" using inv c(2) unfolding vcs mux_inv_def fresh_id_def by (auto simp: less_Suc_eq vc_def split: if_splits)
  next
    show "set (cs_conns (mx_cs m1)) \<subseteq> {..<mx_cns m1}" using inv by (simp add: vcs mux_inv_def)
  qed
  then show "mux_inv m'" using eq(1) only_ends_inv [OF _ idle_ends(2)] by simp
  show "v = mx_vcs m" by (rule eq(2))
  have "mx_vc m' = mx_vc m1" using eq(1) by (simp add: subIdle_def upd_cs_def)
  then show "vc_conn (mx_vc m' v) = c" "vc_id (mx_vc m' v) = vid" using eq(2) by (simp_all add: vcs vc_def)
qed

subsection \<open>Reachable states\<close>

text \<open>Every operation of the users and of the goroutines, in any order. A new virtual connection may be put on
  any concrete connection, also one that was picked long ago; its request ID is new there.\<close>

inductive mux_reach :: "PoolOptions \<Rightarrow> mux \<Rightarrow> bool" for cfg where
  reach_init: "mux_reach cfg (newConcreteConnections cfg s)"
| reach_pick: "mux_reach cfg m \<Longrightarrow> pickSingleConcrete cfg s m = Ok (m', c) \<Longrightarrow> mux_reach cfg m'"
| reach_new: "mux_reach cfg m \<Longrightarrow> c < mx_cns m \<Longrightarrow> fresh_id m c vid \<Longrightarrow> newVirConn cfg c vid m = (m', v) \<Longrightarrow> mux_reach cfg m'"
| reach_connect: "mux_reach cfg m \<Longrightarrow> startConnect cfg e c m = Ok m' \<Longrightarrow> mux_reach cfg m'"
| reach_frame: "mux_reach cfg m \<Longrightarrow> mux_reach cfg (cn_deliver c vid b m)"
| reach_write: "mux_reach cfg m \<Longrightarrow> v < mx_vcs m \<Longrightarrow> vc_Write cfg pd v b m = Ok (m', err) \<Longrightarrow> mux_reach cfg m'"
| reach_read: "mux_reach cfg m \<Longrightarrow> v < mx_vcs m \<Longrightarrow> vc_Read cfg v m = Ok (m', r) \<Longrightarrow> mux_reach cfg m'"
| reach_close: "mux_reach cfg m \<Longrightarrow> v < mx_vcs m \<Longrightarrow> vc_Close cfg v m = Ok m' \<Longrightarrow> mux_reach cfg m'"
| reach_fail: "mux_reach cfg m \<Longrightarrow> cn_close cfg e r now rounds c m = Ok m' \<Longrightarrow> mux_reach cfg m'"
| reach_ctx: "mux_reach cfg m \<Longrightarrow> mux_reach cfg (upd_vc v (\<lambda>vc. vc\<lparr>vc_done := True\<rparr>) m)"

lemma empty_mux_inv: "mux_inv empty_mux"
  by (simp add: mux_inv_def empty_mux_def)

lemma mux_reach_inv: "mux_reach cfg m \<Longrightarrow> mux_inv m"
proof (induction rule: mux_reach.induct)
  case (reach_init s)
  then show ?case unfolding newConcreteConnections_def by (rule initialize_inv [OF empty_mux_inv])
next
  case (reach_frame m c vid b)
  then show ?case using only_ends_inv deliver_ends by blast
next
  case (reach_ctx m v)
  moreover have "only_ends m (upd_vc v (\<lambda>vc. vc\<lparr>vc_done := True\<rparr>) m)" by (rule upd_vc_ends) simp
  ultimately show ?case using only_ends_inv by blast
qed (auto intro: pick_inv newVirConn_inv(1) startConnect_inv vc_Write_inv vc_Read_inv vc_Close_inv cn_close_inv)

lemma live_registered:
  assumes "mux_reach cfg m" "v < mx_vcs m" "\<not> vc_ended (mx_vc m v)"
  shows "map_of (cn_virConns (mx_cn m (vc_conn (mx_vc m v)))) (vc_id (mx_vc m v)) = Some v"
    "\<not> cn_closed (mx_cn m (vc_conn (mx_vc m v)))"
proof -
  note inv = mux_reach_inv [OF assms(1)]
  show r: "map_of (cn_virConns (mx_cn m (vc_conn (mx_vc m v)))) (vc_id (mx_vc m v)) = Some v"
    using inv assms(2,3) unfolding mux_inv_def by blast
  have "vc_conn (mx_vc m v) < mx_cns m" using inv assms(2) by (simp add: mux_inv_def)
  then show "\<not> cn_closed (mx_cn m (vc_conn (mx_vc m v)))"
    using inv r assms(3) unfolding mux_inv_def vc_ended_def by blast
qed


definition mux_cfg :: PoolOptions where
  "mux_cfg = \<lparr>connectNumberPerHost = 1, sendQueueSize = 4, dropFull = False, maxVirConnsPerConn = 0, maxIdleConnsPerHost = 0\<rparr>"

definition one_request :: mux where
  "one_request = fst (newVirConn mux_cfg 0 7 (newConcreteConnections mux_cfg True))"

lemmas mux_eval = newVirConn_def newConcreteConnections_def mux_cfg_def empty_mux_def newConn_def addIdle_def subIdle_def
  upd_cs_def upd_cn_def upd_vc_def Let_def

lemma one_request_fields:
  "mx_vcs one_request = 1" "mx_cns one_request = 1" "cn_virConns (mx_cn one_request 0) = [(7, 0)]"
  "mx_vc one_request 0 = \<lparr>vc_id = 7, vc_conn = 0, vc_recv = [], vc_done = False, vc_closed = False, vc_err = None\<rparr>"
  "\<not> cn_closed (mx_cn one_request 0)"
  by (simp_all add: one_request_def mux_eval)

lemma one_request_reach: "mux_reach mux_cfg one_request"
proof (rule reach_new [OF reach_init [of mux_cfg True], of 0 7 one_request 0])
  show "0 < mx_cns (newConcreteConnections mux_cfg True)" by (simp add: mux_eval)
  show "fresh_id (newConcreteConnections mux_cfg True) 0 7" by (simp add: fresh_id_def mux_eval)
  show "newVirConn mux_cfg 0 7 (newConcreteConnections mux_cfg True) = (one_request, 0)"
    by (simp add: one_request_def) (simp add: mux_eval)
qed


text \<open>A packet that is written without an error is on the wire completely and in order.\<close>

lemma writeTCP_complete: "writeTCP b outcomes wire = (wire', Ok ()) \<Longrightarrow> wire' = wire @ b"
proof (induction b outcomes wire rule: writeTCP.induct)
  case (4 x xs n outcomes wire)
  then have "wire' = (wire @ take n (x # xs)) @ drop n (x # xs)" by simp
  then show ?case by (metis append.assoc append_take_drop_id)
qed auto

subsection \<open>A request ID used twice\<close>

text \<open>When a request ID is used again on a connection while the older virtual connection is still
  there, that one is cancelled, as intended. But when its user then releases it, the entry of the
  table is deleted by ID, which by now belongs to the newer virtual connection: that one is neither
  cancelled nor closed, and no reply reaches it any more.\<close>

theorem mux_duplicate_id_loses_reply:
  assumes reach: "mux_reach cfg m" and old: "v < mx_vcs m" "\<not> vc_closed (mx_vc m v)" "\<not> vc_done (mx_vc m v)"
    and new: "newVirConn cfg (vc_conn (mx_vc m v)) (vc_id (mx_vc m v)) m = (m1, w)" and cl: "vc_Close cfg v m1 = Ok m2"
    and cfg: "\<not> enableIdleRemove cfg"
  shows "vc_err (mx_vc m1 v) = (case vc_err (mx_vc m v) of None \<Rightarrow> Some ErrDupRequestID | Some e \<Rightarrow> Some e)
    \<and> \<not> vc_done (mx_vc m2 w) \<and> \<not> vc_closed (mx_vc m2 w)
    \<and> cn_deliver (vc_conn (mx_vc m v)) (vc_id (mx_vc m v)) buf m2 = m2"
proof -
  let ?c = "vc_conn (mx_vc m v)" and ?i = "vc_id (mx_vc m v)"
  note r = live_registered [OF reach old(1)] and w = old
  have reg: "map_of (cn_virConns (mx_cn m ?c)) ?i = Some v" "\<not> cn_closed (mx_cn m ?c)"
    using r old by (auto simp: vc_ended_def)
  have ne: "v \<noteq> mx_vcs m" using old(1) by simp
  define m0 where "m0 = m\<lparr>mx_vcs := mx_vcs m + 1, mx_vc := (mx_vc m)
    (mx_vcs m := \<lparr>vc_id = ?i, vc_conn = ?c, vc_recv = [], vc_done = False, vc_closed = False, vc_err = None\<rparr>,
     v := (mx_vc m v)\<lparr>vc_err := (case vc_err (mx_vc m v) of None \<Rightarrow> Some ErrDupRequestID | Some e \<Rightarrow> Some e), vc_done := True\<rparr>),
    mx_cn := (mx_cn m)(?c := (mx_cn m ?c)\<lparr>cn_virConns := AList.update ?i (mx_vcs m) (cn_virConns (mx_cn m ?c)), cn_isIdle := False\<rparr>)\<rparr>"
  have m1: "m1 = (if cn_isIdle (mx_cn m ?c) then subIdle cfg m0 else m0)" "w = mx_vcs m"
    using new reg ne by (auto simp: newVirConn_def Let_def m0_def vc_cancel_def upd_vc_def upd_cn_def)
  have f1: "mx_vc m1 = mx_vc m0" "mx_cn m1 = mx_cn m0" using m1(1) by (auto simp: subIdle_def upd_cs_def)
  have v1: "vc_conn (mx_vc m1 v) = ?c" "vc_id (mx_vc m1 v) = ?i" "\<not> vc_closed (mx_vc m1 v)"
    "vc_err (mx_vc m1 v) = (case vc_err (mx_vc m v) of None \<Rightarrow> Some ErrDupRequestID | Some e \<Rightarrow> Some e)"
    unfolding f1 using old ne by (simp_all add: m0_def)
  have w1: "\<not> vc_done (mx_vc m1 w)" "\<not> vc_closed (mx_vc m1 w)" unfolding f1 m1(2) using ne by (simp_all add: m0_def)
  have m2: "m2 = upd_cn ?c (\<lambda>cn. cn\<lparr>cn_virConns := AList.delete ?i (cn_virConns cn)\<rparr>) (upd_vc v (\<lambda>vc. vc\<lparr>vc_closed := True\<rparr>) m1)"
    using cl v1 cfg by (auto simp: vc_Close_def cn_remove_def doRemove_def Let_def)
  have "mx_vc m2 w = mx_vc m1 w" using ne m1(2) unfolding m2 by (simp add: upd_cn_def upd_vc_def)
  moreover have "map_of (cn_virConns (mx_cn m2 ?c)) ?i = None" unfolding m2 by (simp add: upd_cn_def AList.delete_conv')
  ultimately show ?thesis using v1(4) w1 by (simp add: cn_deliver_def)
qed

theorem mux_duplicate_id_loses_reply_witness:
  "\<exists>m1 m2. newVirConn mux_cfg 0 7 one_request = (m1, 1) \<and> vc_Close mux_cfg 0 m1 = Ok m2
     \<and> \<not> vc_done (mx_vc m2 1) \<and> cn_deliver 0 7 [1, 2] m2 = m2"
proof -
  define m1 where "m1 = fst (newVirConn mux_cfg 0 7 one_request)"
  have m1: "newVirConn mux_cfg 0 7 one_request = (m1, 1)"
    unfolding m1_def by (simp add: newVirConn_def Let_def one_request_fields)
  have "vc_conn (mx_vc m1 0) = 0" "vc_id (mx_vc m1 0) = 7" "\<not> vc_closed (mx_vc m1 0)"
    unfolding m1_def by (simp_all add: one_request_def mux_eval vc_cancel_def)
  then obtain m2 where m2: "vc_Close mux_cfg 0 m1 = Ok m2"
    by (auto simp: vc_Close_def cn_remove_def doRemove_def Let_def enableIdleRemove_def mux_cfg_def)
  show ?thesis
    using mux_duplicate_id_loses_reply [OF one_request_reach, of 0 m1 1 m2 "[1, 2]"] m1 m2
    by (simp add: one_request_fields enableIdleRemove_def mux_cfg_def)
qed

subsection \<open>The reconnection loop\<close>

text \<open>Dials that all fail, each within the reset interval after the one before, or each later than that.\<close>

fun quick_failures :: "int \<Rightarrow> (bool \<times> int) list \<Rightarrow> bool" where
  "quick_failures t [] \<longleftrightarrow> True"
| "quick_failures t ((ok, now) # rounds) \<longleftrightarrow> \<not> ok \<and> now \<le> t + reconnectCountResetInterval \<and> quick_failures now rounds"

fun slow_failures :: "int \<Rightarrow> (bool \<times> int) list \<Rightarrow> bool" where
  "slow_failures t [] \<longleftrightarrow> True"
| "slow_failures t ((ok, now) # rounds) \<longleftrightarrow> \<not> ok \<and> t + reconnectCountResetInterval < now \<and> slow_failures now rounds"

text \<open>When the dials fail quickly, the reconnection loop gives up: with \<open>k\<close> attempts counted before, after
  at most \<open>maxReconnectCount + 1 - k\<close> failing dials.\<close>

theorem reconnect_gives_up:
  assumes "cn_lastReconnectTime cn = Some t" "quick_failures t rounds" "cn_reconnectCount cn \<le> maxReconnectCount"
    "maxReconnectCount < cn_reconnectCount cn + length rounds"
  shows "\<exists>cn'. reconnect_rounds rounds cn = GivenUp cn' \<and> cn_closed cn' = cn_closed cn"
  using assms
proof (induction rounds arbitrary: cn t)
  case (Cons r rounds)
  obtain ok now where r: "r = (ok, now)" by (cases r)
  let ?cn = "cn\<lparr>cn_reconnectCount := cn_reconnectCount cn + 1, cn_lastReconnectTime := Some now\<rparr>"
  have b: "doReconnectBackoff now cn = (?cn, \<not> cn_reconnectCount cn + 1 > maxReconnectCount)"
    using Cons.prems(1,2) r by (auto simp: doReconnectBackoff_def Let_def)
  show ?case
  proof (cases "cn_reconnectCount cn + 1 > maxReconnectCount")
    case True
    then show ?thesis using b r Cons.prems(2) by auto
  next
    case False
    have "\<exists>cn'. reconnect_rounds rounds ?cn = GivenUp cn' \<and> cn_closed cn' = cn_closed ?cn"
      by (rule Cons.IH) (use Cons.prems r False in auto)
    then show ?thesis using b r Cons.prems(2) False by auto
  qed
qed simp

theorem reconnect_gives_up_witness:
  "\<exists>cn'. reconnect_rounds (map (\<lambda>i. (False, 50 * int i)) [1..<12]) ((mx_cn empty_mux 0)\<lparr>cn_lastReconnectTime := Some 0, cn_reconnectCount := 1\<rparr>) = GivenUp cn'"
  using reconnect_gives_up [of "(mx_cn empty_mux 0)\<lparr>cn_lastReconnectTime := Some 0, cn_reconnectCount := 1\<rparr>" 0 "map (\<lambda>i. (False, 50 * int i)) [1..<12]"]
  by (auto simp: maxReconnectCount_def reconnectCountResetInterval_def upt_rec)

lemma slow_rounds:
  "cn_lastReconnectTime cn = Some t \<Longrightarrow> slow_failures t rounds \<Longrightarrow> \<exists>cn'. reconnect_rounds rounds cn = Trying cn'"
proof (induction rounds arbitrary: cn t)
  case (Cons r rounds)
  obtain ok now where r: "r = (ok, now)" by (cases r)
  have "doReconnectBackoff now cn = (cn\<lparr>cn_reconnectCount := 1, cn_lastReconnectTime := Some now\<rparr>, True)"
    using Cons.prems r by (auto simp: doReconnectBackoff_def Let_def maxReconnectCount_def)
  then show ?case using Cons.IH [of "cn\<lparr>cn_reconnectCount := 1, cn_lastReconnectTime := Some now\<rparr>" now] Cons.prems r by auto
qed simp



subsection \<open>Readers of closed connections\<close>

text \<open>A stream connection with its goroutines: the network connection each reader is parsing from, and how
  many goroutines have failed and are about to close the connection. A reader fails when its network
  connection is closed; the network itself does not fail, and every dial succeeds.\<close>

record loops =
  lp_mux :: mux
  lp_readers :: "nat list"
  lp_closers :: nat

inductive loop_step :: "PoolOptions \<Rightarrow> nat \<Rightarrow> loops \<Rightarrow> loops \<Rightarrow> bool" for cfg c where
  read_fails: "lp_readers s = a @ r # b \<Longrightarrow> r \<notin> set (mx_open (lp_mux s)) \<Longrightarrow>
    loop_step cfg c s (s\<lparr>lp_readers := a @ b, lp_closers := lp_closers s + 1\<rparr>)"
| closes: "0 < lp_closers s \<Longrightarrow> cn_close cfg (Some e) True now [(True, now)] c (lp_mux s) = Ok m' \<Longrightarrow>
    loop_step cfg c s \<lparr>lp_mux = m',
      lp_readers = (if cn_raw (mx_cn m' c) = cn_raw (mx_cn (lp_mux s) c) then lp_readers s else lp_readers s @ [the (cn_raw (mx_cn m' c))]),
      lp_closers = lp_closers s - 1\<rparr>"

inductive loop_steps :: "PoolOptions \<Rightarrow> nat \<Rightarrow> loops \<Rightarrow> loops \<Rightarrow> bool" for cfg c where
  no_step: "loop_steps cfg c s s"
| more_steps: "loop_steps cfg c s s' \<Longrightarrow> loop_step cfg c s' s'' \<Longrightarrow> loop_steps cfg c s s''"

text \<open>A healthy connection after \<open>i\<close> reconnections, with one goroutine that wants to close it.\<close>

definition cascade :: "nat \<Rightarrow> nat \<Rightarrow> loops \<Rightarrow> bool" where
  "cascade c i s \<longleftrightarrow> mux_inv (lp_mux s) \<and> cn_isStream (mx_cn (lp_mux s) c) \<and> \<not> cn_closed (mx_cn (lp_mux s) c) \<and> \<not> cn_done (mx_cn (lp_mux s) c)
     \<and> cn_reconnectCount (mx_cn (lp_mux s) c) = i
     \<and> cn_lastReconnectTime (mx_cn (lp_mux s) c) = (if i = 0 then None else Some (50 * int i))
     \<and> lp_closers s = 1
     \<and> (\<exists>r. cn_raw (mx_cn (lp_mux s) c) = Some r \<and> lp_readers s = [r] \<and> r \<in> set (mx_open (lp_mux s)) \<and> r < mx_raws (lp_mux s))"

lemma cascade_backoff:
  assumes "cn_reconnectCount cn = i" "cn_lastReconnectTime cn = (if i = 0 then None else Some (50 * int i))"
  shows "doReconnectBackoff (50 * int (i + 1)) cn =
    (cn\<lparr>cn_reconnectCount := i + 1, cn_lastReconnectTime := Some (50 * int (i + 1))\<rparr>, i + 1 \<le> maxReconnectCount)"
  using assms by (auto simp: doReconnectBackoff_def Let_def reconnectCountResetInterval_def not_less)

lemma cancel_all_raws: "mx_raws (cancel_all e vs m) = mx_raws m" "mx_open (cancel_all e vs m) = mx_open m"
  by (induction vs arbitrary: m) (auto simp: cancel_all_def vc_cancel_def upd_vc_def)

lemma shut_raws:
  "mx_raws (shut e c m) = mx_raws m" "mx_open (shut e c m) = mx_open m" "cn_isStream (mx_cn (shut e c m) c) = cn_isStream (mx_cn m c)"
  "mx_cs (shut e c m) = mx_cs m"
  by (simp_all add: shut_def upd_cn_def cancel_all_raws cancel_all_done(2,6))

lemma reconnect_success_fields:
  "cn_raw (mx_cn (reconnect_success cfg c m) c) = Some (mx_raws m)" "\<not> cn_closed (mx_cn (reconnect_success cfg c m) c)"
  "\<not> cn_done (mx_cn (reconnect_success cfg c m) c)" "cn_reconnectCount (mx_cn (reconnect_success cfg c m) c) = cn_reconnectCount (mx_cn m c)"
  "cn_lastReconnectTime (mx_cn (reconnect_success cfg c m) c) = cn_lastReconnectTime (mx_cn m c)"
  "cn_isStream (mx_cn (reconnect_success cfg c m) c) = cn_isStream (mx_cn m c)"
  "mx_raws (reconnect_success cfg c m) = Suc (mx_raws m)" "mx_open (reconnect_success cfg c m) = mx_raws m # mx_open m"
  by (simp_all add: reconnect_success_def Let_def upd_cn_def addIdle_def upd_cs_def)

text \<open>What closing a healthy connection does, before reconnecting: the state \<open>broken\<close>.\<close>

definition broken :: "mux_error \<Rightarrow> nat \<Rightarrow> mux \<Rightarrow> mux" where
  "broken e c m = close_raw c (upd_cn c (\<lambda>cn. cn\<lparr>cn_done := True\<rparr>) (shut e c m))"

lemma broken_fields:
  assumes "mux_inv m" "cn_raw (mx_cn m c) = Some r"
  shows "cn_reconnectCount (mx_cn (broken e c m) c) = cn_reconnectCount (mx_cn m c)"
    "cn_lastReconnectTime (mx_cn (broken e c m) c) = cn_lastReconnectTime (mx_cn m c)"
    "cn_isStream (mx_cn (broken e c m) c) = cn_isStream (mx_cn m c)" "mx_raws (broken e c m) = mx_raws m"
    "mx_open (broken e c m) = removeAll r (mx_open m)" "mx_cs (broken e c m) = mx_cs m"
  using assms shut_inv(5-9) [OF assms(1), where e = e and c = c] shut_raws [of e c m]
  by (simp_all add: broken_def close_raw_def upd_cn_def)

lemma cascade_close:
  assumes s: "cascade c i s" "i < maxReconnectCount"
  shows "\<exists>s'. loop_steps cfg c s s' \<and> cascade c (i + 1) s'"
proof -
  let ?m = "lp_mux s" and ?now = "50 * int (i + 1)" and ?e = "NetErr 0"
  obtain r where r: "cn_raw (mx_cn ?m c) = Some r" "lp_readers s = [r]" "r < mx_raws ?m" and inv: "mux_inv ?m" and k: "lp_closers s = 1"
    and cn: "cn_isStream (mx_cn ?m c)" "\<not> cn_closed (mx_cn ?m c)" "\<not> cn_done (mx_cn ?m c)" "cn_reconnectCount (mx_cn ?m c) = i"
      "cn_lastReconnectTime (mx_cn ?m c) = (if i = 0 then None else Some (50 * int i))"
    using s(1) by (auto simp: cascade_def)
  note br = broken_fields [OF inv r(1), of ?e]
  let ?cn = "(mx_cn (broken ?e c ?m) c)\<lparr>cn_reconnectCount := i + 1, cn_lastReconnectTime := Some ?now\<rparr>"
  have bk: "doReconnectBackoff ?now (mx_cn (broken ?e c ?m) c) = (?cn, True)"
    using cascade_backoff [of "mx_cn (broken ?e c ?m) c" i] br cn(4,5) s(2) by simp
  let ?m' = "reconnect_success cfg c (upd_cn c (\<lambda>_. ?cn) (broken ?e c ?m))"
  have "doClose cfg ?e True ?now [(True, ?now)] c ?m = Ok (?m', False)"
    using cn(2,3) shut_inv(5) [OF inv, of ?e c] bk unfolding doClose_shut
    by (simp add: close_done_def Let_def broken_def)
  then have close: "cn_close cfg (Some ?e) True ?now [(True, ?now)] c ?m = Ok ?m'" using cn(1) by (simp add: cn_close_def closeTCP_def)
  note rs = reconnect_success_fields [of cfg c "upd_cn c (\<lambda>_. ?cn) (broken ?e c ?m)"]
  have f: "cn_raw (mx_cn ?m' c) = Some (mx_raws ?m)" "mx_raws ?m' = Suc (mx_raws ?m)" "mx_open ?m' = mx_raws ?m # removeAll r (mx_open ?m)"
    "cn_isStream (mx_cn ?m' c)" "cn_reconnectCount (mx_cn ?m' c) = i + 1" "cn_lastReconnectTime (mx_cn ?m' c) = Some ?now"
    using rs br cn(1) by (simp_all add: upd_cn_def)
  let ?s1 = "\<lparr>lp_mux = ?m', lp_readers = [r] @ [mx_raws ?m], lp_closers = 0\<rparr>"
  have "cn_raw (mx_cn ?m' c) \<noteq> cn_raw (mx_cn ?m c)" using f(1) r(1,3) by auto
  then have step1: "loop_step cfg c s ?s1" using closes [of s cfg ?e ?now c ?m'] close k r(2) f(1) by simp
  have "r \<notin> set (mx_open ?m')" using f(3) r(3) by simp
  then have step2: "loop_step cfg c ?s1 (?s1\<lparr>lp_readers := [] @ [mx_raws ?m], lp_closers := 1\<rparr>)"
    using read_fails [of ?s1 "[]" r "[mx_raws ?m]" cfg c] by simp
  have "loop_steps cfg c s (?s1\<lparr>lp_readers := [] @ [mx_raws ?m], lp_closers := 1\<rparr>)"
    by (rule more_steps [OF more_steps [OF no_step step1] step2])
  moreover have "mux_inv ?m'" using cn_close_inv [OF inv close] .
  then have "cascade c (i + 1) (?s1\<lparr>lp_readers := [] @ [mx_raws ?m], lp_closers := 1\<rparr>)"
    using f rs(2,3) by (simp add: cascade_def)
  ultimately show ?thesis by blast
qed

lemma loop_steps_trans: "loop_steps cfg c s' s'' \<Longrightarrow> loop_steps cfg c s s' \<Longrightarrow> loop_steps cfg c s s''"
  by (induction rule: loop_steps.induct) (auto intro: more_steps)

lemma cascade_reach:
  assumes "cascade c 0 s" "i \<le> maxReconnectCount"
  shows "\<exists>s'. loop_steps cfg c s s' \<and> cascade c i s'"
  using assms(2)
proof (induction i)
  case 0
  then show ?case using assms(1) no_step by blast
next
  case (Suc i)
  then obtain s1 where s1: "loop_steps cfg c s s1" "cascade c i s1" by auto
  then obtain s2 where "loop_steps cfg c s1 s2" "cascade c (Suc i) s2" using cascade_close [OF s1(2)] Suc.prems by auto
  then show ?case using loop_steps_trans s1(1) by blast
qed

text \<open>One failed write takes a healthy stream connection down for good, although the network does not fail
  again and every dial succeeds: the reconnection closes the old network connection, its reader fails
  and closes the new one, whose reader fails and closes the next, and so on, until the reconnections
  are used up and the connection is expelled.\<close>

theorem failed_write_cascade:
  assumes s: "mux_inv m" "cn_isStream (mx_cn m c)" "\<not> cn_closed (mx_cn m c)" "\<not> cn_done (mx_cn m c)" "cn_reconnectCount (mx_cn m c) = 0"
    "cn_lastReconnectTime (mx_cn m c) = None" "cn_raw (mx_cn m c) = Some r" "r \<in> set (mx_open m)" "r < mx_raws m"
  shows "\<exists>s'. loop_steps cfg c \<lparr>lp_mux = m, lp_readers = [r], lp_closers = 1\<rparr> s'
    \<and> c \<notin> set (cs_conns (mx_cs (lp_mux s'))) \<and> cn_closed (mx_cn (lp_mux s') c)"
proof -
  have "cascade c 0 \<lparr>lp_mux = m, lp_readers = [r], lp_closers = 1\<rparr>" using s by (simp add: cascade_def)
  from cascade_reach [OF this order_refl] obtain s1 where
    s1: "loop_steps cfg c \<lparr>lp_mux = m, lp_readers = [r], lp_closers = 1\<rparr> s1" "cascade c maxReconnectCount s1" by blast
  let ?m = "lp_mux s1" and ?i = maxReconnectCount and ?e = "NetErr 0"
  let ?now = "50 * int (?i + 1)"
  obtain r1 where r1: "cn_raw (mx_cn ?m c) = Some r1" and inv: "mux_inv ?m" and k: "lp_closers s1 = 1"
    and cn: "cn_isStream (mx_cn ?m c)" "\<not> cn_closed (mx_cn ?m c)" "\<not> cn_done (mx_cn ?m c)" "cn_reconnectCount (mx_cn ?m c) = ?i"
      "cn_lastReconnectTime (mx_cn ?m c) = (if ?i = 0 then None else Some (50 * int ?i))"
    using s1(2) by (auto simp: cascade_def)
  note br = broken_fields [OF inv r1, of ?e]
  let ?cn = "(mx_cn (broken ?e c ?m) c)\<lparr>cn_reconnectCount := ?i + 1, cn_lastReconnectTime := Some ?now\<rparr>"
  have bk: "doReconnectBackoff ?now (mx_cn (broken ?e c ?m) c) = (?cn, False)"
    using cascade_backoff [of "mx_cn (broken ?e c ?m) c" ?i] br cn(4,5) by simp
  let ?m1 = "upd_cn c (\<lambda>_. ?cn) (broken ?e c ?m)"
  have "doClose cfg ?e True ?now [(True, ?now)] c ?m = Ok (?m1, True)"
    using cn(2,3) shut_inv(5) [OF inv, of ?e c] bk unfolding doClose_shut by (simp add: close_done_def Let_def broken_def)
  then have close: "cn_close cfg (Some ?e) True ?now [(True, ?now)] c ?m = Ok (expel cfg c ?m1)"
    using cn(1) by (simp add: cn_close_def closeTCP_def)
  obtain s' where s': "loop_step cfg c s1 s'" "lp_mux s' = expel cfg c ?m1" using closes [OF _ close] k by fastforce
  have "cn_closed (mx_cn (broken ?e c ?m) c)"
    using shut_inv(3) [OF inv, of ?e c] by (simp add: broken_def close_raw_def upd_cn_def split: option.splits)
  then have "c \<notin> set (cs_conns (mx_cs (expel cfg c ?m1)))" "cn_closed (mx_cn (expel cfg c ?m1) c)"
    by (simp_all add: expel_def Let_def upd_cs_def subIdle_def filterOutConnection_def upd_cn_def)
  then show ?thesis using more_steps [OF s1(1) s'(1)] s'(2) by auto
qed

theorem failed_write_cascade_witness:
  "\<exists>m s'. startConnect mux_cfg None 0 one_request = Ok m \<and> loop_steps mux_cfg 0 \<lparr>lp_mux = m, lp_readers = [0], lp_closers = 1\<rparr> s'
    \<and> 0 \<notin> set (cs_conns (mx_cs (lp_mux s')))"
proof -
  obtain m where m: "startConnect mux_cfg None 0 one_request = Ok m" by (simp add: startConnect_def)
  have "mux_inv m" using startConnect_inv [OF mux_reach_inv [OF one_request_reach] m] .
  moreover have "cn_isStream (mx_cn m 0)" "\<not> cn_closed (mx_cn m 0)" "\<not> cn_done (mx_cn m 0)" "cn_reconnectCount (mx_cn m 0) = 0"
    "cn_lastReconnectTime (mx_cn m 0) = None" "cn_raw (mx_cn m 0) = Some 0" "0 \<in> set (mx_open m)" "0 < mx_raws m"
    using m by (auto simp: startConnect_def one_request_def mux_eval)
  ultimately show ?thesis using failed_write_cascade [of m 0 0 mux_cfg] m by blast
qed

subsection \<open>The counter of idle connections\<close>

definition idle_conns :: "mux \<Rightarrow> nat" where
  "idle_conns m = length (filter (\<lambda>c. cn_isIdle (mx_cn m c)) (cs_conns (mx_cs m)))"

text \<open>Expelling a connection always counts one idle connection less, also when the connection was busy.
  When the counter was right before and a busy connection fails for good, it is one too low
  afterwards, so that the limit on idle connections lets one more stay.\<close>

theorem busy_expel_miscounts:
  assumes inv: "mux_inv m" and c: "cn_isStream (mx_cn m c)" "\<not> cn_closed (mx_cn m c)" "\<not> cn_isIdle (mx_cn m c)"
    and cfg: "0 < maxIdleConnsPerHost cfg" and right: "cs_currentIdle (mx_cs m) = int (idle_conns m)"
    and fail: "cn_close cfg (Some e) False now rounds c m = Ok m'"
  shows "cs_currentIdle (mx_cs m') = int (idle_conns m') - 1"
proof -
  let ?b = "broken e c m"
  have closed: "cn_close cfg (Some e) False now rounds c m = Ok (expel cfg c ?b)"
    using fail c(1,2) by (auto simp: cn_close_def closeTCP_def doClose_shut close_done_def Let_def broken_def split: if_splits)
  have cr: "mx_cn (close_raw c x) = mx_cn x" "mx_cs (close_raw c x) = mx_cs x" for x by (auto simp: close_raw_def split: option.splits)
  have b: "mx_cs ?b = mx_cs m" "cn_isIdle (mx_cn ?b x) = cn_isIdle (mx_cn m x)" for x
    using shut_inv(4,9) [OF inv, where e = e and c = c] shut_raws(4) [of e c m] by (cases "x = c"; simp add: broken_def cr upd_cn_def)+
  have m': "m' = expel cfg c ?b" using closed fail by simp
  have "mx_cn m' = mx_cn ?b" "cs_conns (mx_cs m') = filter (\<lambda>x. x \<noteq> c) (cs_conns (mx_cs ?b))"
    "cs_currentIdle (mx_cs m') = cs_currentIdle (mx_cs ?b) - 1"
    using cfg unfolding m' by (simp_all add: expel_def Let_def upd_cs_def subIdle_def filterOutConnection_def)
  moreover have "filter (\<lambda>x. cn_isIdle (mx_cn m x)) (filter (\<lambda>x. x \<noteq> c) (cs_conns (mx_cs m))) = filter (\<lambda>x. cn_isIdle (mx_cn m x)) (cs_conns (mx_cs m))"
    using c(3) by (auto intro: filter_cong)
  ultimately show ?thesis using right b by (simp add: idle_conns_def)
qed

definition idle_cfg :: PoolOptions where
  "idle_cfg = mux_cfg\<lparr>maxVirConnsPerConn := 1, maxIdleConnsPerHost := 1\<rparr>"

definition busy_node :: mux where
  "busy_node = fst (newVirConn idle_cfg 0 7 (newConcreteConnections idle_cfg True))"

lemma busy_node_inv: "mux_inv busy_node"
proof -
  have i: "mux_inv (newConcreteConnections idle_cfg True)"
    unfolding newConcreteConnections_def by (rule initialize_inv [OF empty_mux_inv])
  show ?thesis unfolding busy_node_def
    by (rule newVirConn_inv(1) [OF i _ _ prod.collapse [symmetric]]) (simp_all add: fresh_id_def idle_cfg_def mux_eval)
qed

theorem busy_expel_miscounts_witness:
  "\<exists>m'. cn_close idle_cfg (Some (NetErr 1)) False 0 [] 0 busy_node = Ok m' \<and> cs_currentIdle (mx_cs m') = int (idle_conns m') - 1"
proof -
  have f: "cn_isStream (mx_cn busy_node 0)" "\<not> cn_closed (mx_cn busy_node 0)" "\<not> cn_isIdle (mx_cn busy_node 0)" "\<not> cn_done (mx_cn busy_node 0)"
    "cs_currentIdle (mx_cs busy_node) = int (idle_conns busy_node)"
    by (simp_all add: busy_node_def idle_conns_def idle_cfg_def mux_eval)
  have "\<not> cn_done (mx_cn (shut (NetErr 1) 0 busy_node) 0)" using shut_inv(5) [OF busy_node_inv] f(4) by simp
  then obtain m' where m': "cn_close idle_cfg (Some (NetErr 1)) False 0 [] 0 busy_node = Ok m'"
    using f(1,2) by (simp add: cn_close_def closeTCP_def doClose_shut close_done_def Let_def)
  show ?thesis using busy_expel_miscounts [OF busy_node_inv f(1-3) _ f(5) m'] m' by (simp add: idle_cfg_def)
qed

end
