(* ===== verification/Call_Errors.thy ===== *)
theory Call_Errors
  imports Errs
begin

text \<open>
  Errors as the call path of client and server handles them: an \<open>*errs.Error\<close> is a pointer, compared
  by identity (\<open>err == errs.ErrServerNoResponse\<close>) and changed in place by the timeout filters. A
  pointer is an index into the store of the errors allocated so far, whose first entries are the
  error variables of \<open>errs/errs.go\<close>. The numeric codes come from the generated protocol package and
  are the fields of \<open>call_codes\<close>, which complements \<open>ret_codes\<close>.
\<close>

record call_codes =
  RetServerNoService :: u32
  RetServerNoFunc :: u32
  RetServerTimeout :: u32
  RetServerOverload :: u32
  RetServerFullLinkTimeout :: u32
  RetServerSystemErr :: u32
  RetClientTimeout :: u32
  RetClientFullLinkTimeout :: u32
  RetClientConnectFail :: u32
  RetClientEncodeFail :: u32
  RetClientDecodeFail :: u32
  RetClientRouteErr :: u32
  RetClientNetErr :: u32
  RetClientCanceled :: u32

text \<open>A value of the interface type \<open>error\<close> that is not nil: a pointer to an \<open>errs.Error\<close>, the nil
  pointer of that type, or an error of another type with its text and what it wraps.\<close>

datatype err_val = EPtr nat | ENilPtr | EOther string "go_error option"

type_synonym err_store = "go_error list"

fun deref :: "err_store \<Rightarrow> err_val \<Rightarrow> go_error" where
  "deref h (EPtr a) = (if a < length h then h ! a else NilError)"
| "deref h ENilPtr = NilError"
| "deref h (EOther t w) = OtherError t w"

definition err_vars :: "ret_codes \<Rightarrow> call_codes \<Rightarrow> err_store" where
  "err_vars rc cc =
     [NewFrameError (RetServerNoService cc) ''server router no service'',
      NewFrameError (RetServerNoFunc cc) ''server router no rpc method'',
      NewFrameError (RetServerTimeout cc) ''server message handle timeout'',
      NewFrameError (RetServerOverload cc) ''server overload'',
      NewFrameError (RetServerOverload cc) ''server goroutine pool too small'',
      NewFrameError (RetServerSystemErr cc) ''server close'',
      NewFrameError (RetOK rc) ''server no response'',
      NewFrameError (RetOK rc) ''client no response'',
      NewFrameError (RetUnknown rc) ''unknown error'']"

definition ErrServerTimeout :: err_val where
  "ErrServerTimeout = EPtr 2"

definition ErrServerNoResponse :: err_val where
  "ErrServerNoResponse = EPtr 6"

definition ErrClientNoResponse :: err_val where
  "ErrClientNoResponse = EPtr 7"

definition alloc_err :: "go_error \<Rightarrow> err_store \<Rightarrow> err_store \<times> err_val" where
  "alloc_err e h = (h @ [e], EPtr (length h))"

text \<open>\<open>IsTimeout\<close>, and the assignment \<open>e.Code = code\<close> through a pointer.\<close>

definition IsTimeout :: "call_codes \<Rightarrow> int \<Rightarrow> go_error \<Rightarrow> bool" where
  "IsTimeout cc typ e \<longleftrightarrow> e_Type e = typ \<and>
     (e_Code e = RetClientTimeout cc \<or> e_Code e = RetClientFullLinkTimeout cc
      \<or> e_Code e = RetServerTimeout cc \<or> e_Code e = RetServerFullLinkTimeout cc)"

fun with_code :: "u32 \<Rightarrow> go_error \<Rightarrow> go_error" where
  "with_code c (TrpcError t _ m d w) = TrpcError t c m d w"
| "with_code c e = e"

definition set_code :: "u32 \<Rightarrow> nat \<Rightarrow> err_store \<Rightarrow> err_store" where
  "set_code c a h = h[a := with_code c (h ! a)]"

text \<open>A store in which every pointer leads to an \<open>errs.Error\<close>.\<close>

definition is_trpc :: "go_error \<Rightarrow> bool" where
  "is_trpc e = (case e of TrpcError _ _ _ _ _ \<Rightarrow> True | _ \<Rightarrow> False)"

fun ptr_ok :: "err_store \<Rightarrow> err_val \<Rightarrow> bool" where
  "ptr_ok h (EPtr a) = (a < length h)"
| "ptr_ok h _ = True"

lemma with_code_simps [simp]:
  "is_trpc (with_code c e) = is_trpc e"
  "is_trpc e \<Longrightarrow> e_Code (with_code c e) = c"
  "is_trpc e \<Longrightarrow> e_Type (with_code c e) = e_Type e"
  "is_trpc e \<Longrightarrow> e_Msg (with_code c e) = e_Msg e"
  by (cases e; simp add: is_trpc_def)+

lemma length_set_code [simp]: "length (set_code c a h) = length h"
  by (simp add: set_code_def)

lemma deref_alloc [simp]: "deref (h @ [e]) (EPtr (length h)) = e"
  by simp

text \<open>Codes for examples.\<close>

definition sample_codes :: call_codes where
  "sample_codes = \<lparr>RetServerNoService = 11, RetServerNoFunc = 12, RetServerTimeout = 21, RetServerOverload = 22,
     RetServerFullLinkTimeout = 24, RetServerSystemErr = 31, RetClientTimeout = 101, RetClientFullLinkTimeout = 102,
     RetClientConnectFail = 111, RetClientEncodeFail = 121, RetClientDecodeFail = 122, RetClientRouteErr = 131,
     RetClientNetErr = 141, RetClientCanceled = 161\<rparr>"

definition sample_ret :: ret_codes where
  "sample_ret = \<lparr>RetOK = 0, RetUnknown = 999, RetServerDecodeFail = 1, RetServerEncodeFail = 2\<rparr>"

end
