(* ===== verification/Body_Codec.thy ===== *)
theory Body_Codec
  imports Go_Prelude
begin

text \<open>
  Serialization and compression of message bodies: the registries and the dispatch of
  \<open>codec/serialization.go\<close> and \<open>codec/compress.go\<close>, the validity tests of \<open>internal/codec\<close>, and the
  no-op serializer and compressor. A body has the type \<open>'b\<close>, an interface value \<open>'b option\<close> (\<open>None\<close> for
  nil); unmarshalling returns the body as it leaves it. The other serializers and compressors wrap
  third-party packages and are entries of the registries.
\<close>

record 'b Serializer =
  ser_Unmarshal :: "bytes \<Rightarrow> 'b \<Rightarrow> string + 'b"
  ser_Marshal :: "'b \<Rightarrow> string + bytes"

record Compressor =
  cmp_Compress :: "bytes \<Rightarrow> string + bytes"
  cmp_Decompress :: "bytes \<Rightarrow> string + bytes"

type_synonym 'b serializers = "int \<Rightarrow> 'b Serializer option"
type_synonym compressors = "int \<Rightarrow> Compressor option"

definition SerializationTypePB :: int where "SerializationTypePB = 0"
definition SerializationTypeNoop :: int where "SerializationTypeNoop = 4"
definition SerializationTypeUnsupported :: int where "SerializationTypeUnsupported = 128"
definition CompressTypeNoop :: int where "CompressTypeNoop = 0"

definition RegisterSerializer :: "int \<Rightarrow> 'b Serializer \<Rightarrow> 'b serializers \<Rightarrow> 'b serializers" where
  "RegisterSerializer t s tbl = tbl(t \<mapsto> s)"

definition GetSerializer :: "'b serializers \<Rightarrow> int \<Rightarrow> 'b Serializer option" where
  "GetSerializer tbl t = tbl t"

definition codec_Unmarshal :: "'b serializers \<Rightarrow> int \<Rightarrow> bytes \<Rightarrow> 'b option \<Rightarrow> string + 'b option" where
  "codec_Unmarshal tbl t inp body =
     (case body of
        None \<Rightarrow> Inr None
      | Some b \<Rightarrow>
          if inp = [] then Inr body
          else if t = SerializationTypeUnsupported then Inr body
          else (case GetSerializer tbl t of
                  None \<Rightarrow> Inl ''serializer not registered''
                | Some s \<Rightarrow> map_sum id Some (ser_Unmarshal s inp b)))"

definition codec_Marshal :: "'b serializers \<Rightarrow> int \<Rightarrow> 'b option \<Rightarrow> string + bytes" where
  "codec_Marshal tbl t body =
     (case body of
        None \<Rightarrow> Inr []
      | Some b \<Rightarrow>
          if t = SerializationTypeUnsupported then Inr []
          else (case GetSerializer tbl t of
                  None \<Rightarrow> Inl ''serializer not registered''
                | Some s \<Rightarrow> ser_Marshal s b))"

definition RegisterCompressor :: "int \<Rightarrow> Compressor \<Rightarrow> compressors \<Rightarrow> compressors" where
  "RegisterCompressor t c tbl = tbl(t \<mapsto> c)"

definition GetCompressor :: "compressors \<Rightarrow> int \<Rightarrow> Compressor option" where
  "GetCompressor tbl t = tbl t"

definition codec_Compress :: "compressors \<Rightarrow> int \<Rightarrow> bytes \<Rightarrow> string + bytes" where
  "codec_Compress tbl t inp =
     (if t = CompressTypeNoop then Inr inp
      else if inp = [] then Inr []
      else (case GetCompressor tbl t of
              None \<Rightarrow> Inl ''compressor not registered''
            | Some c \<Rightarrow> cmp_Compress c inp))"

definition codec_Decompress :: "compressors \<Rightarrow> int \<Rightarrow> bytes \<Rightarrow> string + bytes" where
  "codec_Decompress tbl t inp =
     (if t = CompressTypeNoop then Inr inp
      else if inp = [] then Inr []
      else (case GetCompressor tbl t of
              None \<Rightarrow> Inl ''compressor not registered''
            | Some c \<Rightarrow> cmp_Decompress c inp))"

definition IsValidSerializationType :: "int \<Rightarrow> bool" where
  "IsValidSerializationType t \<longleftrightarrow> SerializationTypePB \<le> t"

definition IsValidCompressType :: "int \<Rightarrow> bool" where
  "IsValidCompressType t \<longleftrightarrow> CompressTypeNoop \<le> t"

subsection \<open>The no-op serializer and compressor\<close>

text \<open>What the no-op serializer may be given: a \<open>*Body\<close> with its data (\<open>None\<close> for the nil pointer), or
  a value with neither of the two interfaces.\<close>

datatype noop_body = BodyPtr "bytes option" | NoBytes

fun noop_Unmarshal :: "bytes \<Rightarrow> noop_body \<Rightarrow> string + noop_body" where
  "noop_Unmarshal inp (BodyPtr None) = Inl ''body nil''"
| "noop_Unmarshal inp (BodyPtr (Some _)) = Inr (BodyPtr (Some inp))"
| "noop_Unmarshal inp NoBytes = Inl ''body type invalid''"

fun noop_Marshal :: "noop_body \<Rightarrow> string + bytes" where
  "noop_Marshal (BodyPtr None) = Inl ''body nil''"
| "noop_Marshal (BodyPtr (Some d)) = Inr d"
| "noop_Marshal NoBytes = Inl ''body type invalid''"

definition NoopSerialization :: "noop_body Serializer" where
  "NoopSerialization = \<lparr>ser_Unmarshal = noop_Unmarshal, ser_Marshal = noop_Marshal\<rparr>"

definition NoopCompress :: Compressor where
  "NoopCompress = \<lparr>cmp_Compress = Inr, cmp_Decompress = Inr\<rparr>"

subsection \<open>Round trips\<close>

text \<open>The contract of a body format on the bodies of one type: marshalled bytes are unmarshalled into
  any body of that type, compressed bytes decompress. Sending a body and receiving it through both,
  as client and server do, gives the body back; a body without bytes leaves the receiver's as it is.\<close>

locale body_format =
  fixes marshal :: "'b \<Rightarrow> string + bytes" and unmarshal :: "bytes \<Rightarrow> 'b \<Rightarrow> string + 'b"
    and compress decompress :: "bytes \<Rightarrow> string + bytes" and typed :: "'b \<Rightarrow> bool"
  assumes unmarshal_marshal: "\<lbrakk>marshal b = Inr d; typed b; typed b'\<rbrakk> \<Longrightarrow> unmarshal d b' = Inr b"
    and decompress_compress: "compress d = Inr z \<Longrightarrow> decompress z = Inr d"
begin

lemma transfer: "\<lbrakk>marshal b = Inr d; compress d = Inr z; typed b; typed b'\<rbrakk>
    \<Longrightarrow> \<exists>d'. decompress z = Inr d' \<and> unmarshal d' b' = Inr b"
  using unmarshal_marshal decompress_compress by blast

end

interpretation noop: body_format noop_Marshal noop_Unmarshal Inr Inr "\<lambda>b. \<exists>d. b = BodyPtr (Some d)"
  by unfold_locales auto

text \<open>The formats that the registries hold under a serialization and a compression type are lossless
  on the bodies in \<open>typed\<close>; then so is sending a body through the dispatching functions.\<close>

definition body_ok :: "'b serializers \<Rightarrow> compressors \<Rightarrow> int \<Rightarrow> int \<Rightarrow> ('b \<Rightarrow> bool) \<Rightarrow> bool" where
  "body_ok sers cmps t z typed \<longleftrightarrow> t \<noteq> SerializationTypeUnsupported
     \<and> (\<exists>s. sers t = Some s
          \<and> body_format (ser_Marshal s) (ser_Unmarshal s) (codec_Compress cmps z) (codec_Decompress cmps z) typed)"

lemma codec_Compress_empty: "codec_Compress cmps z [] = Inr []" "codec_Decompress cmps z [] = Inr []"
  by (simp_all add: codec_Compress_def codec_Decompress_def)

lemma body_transfer:
  assumes "body_ok sers cmps t z typed" "codec_Marshal sers t (Some b) = Inr d" "codec_Compress cmps z d = Inr w"
    "typed b" "typed b'"
  shows "codec_Decompress cmps z w = Inr d"
    and "codec_Unmarshal sers t d (Some b') = Inr (Some (if w = [] then b' else b))"
proof -
  from assms(1) obtain s where s: "t \<noteq> SerializationTypeUnsupported" "sers t = Some s"
    and f: "body_format (ser_Marshal s) (ser_Unmarshal s) (codec_Compress cmps z) (codec_Decompress cmps z) typed"
    by (auto simp: body_ok_def)
  show dec: "codec_Decompress cmps z w = Inr d" by (rule body_format.decompress_compress [OF f assms(3)])
  have "w = [] \<longleftrightarrow> d = []" using dec assms(3) codec_Compress_empty [of cmps z] by auto
  moreover have "ser_Marshal s b = Inr d" using assms(2) s by (simp add: codec_Marshal_def GetSerializer_def)
  then have "ser_Unmarshal s d b' = Inr b" by (rule body_format.unmarshal_marshal [OF f _ assms(4,5)])
  ultimately show "codec_Unmarshal sers t d (Some b') = Inr (Some (if w = [] then b' else b))"
    using s by (simp add: codec_Unmarshal_def GetSerializer_def)
qed

lemma noop_body_ok:
  assumes "sers t = Some NoopSerialization" "t \<noteq> SerializationTypeUnsupported"
  shows "body_ok sers cmps t CompressTypeNoop (\<lambda>b. \<exists>d. b = BodyPtr (Some d))"
proof -
  have "codec_Compress cmps CompressTypeNoop = Inr" "codec_Decompress cmps CompressTypeNoop = Inr"
    by (simp_all add: fun_eq_iff codec_Compress_def codec_Decompress_def)
  then show ?thesis
    using noop.body_format_axioms assms by (simp add: body_ok_def NoopSerialization_def)
qed

end
