(* ===== verification/Filter_Chain.thy ===== *)
theory Filter_Chain
  imports Go_Prelude
begin

text \<open>
  Filter chains, \<open>filter/filter.go\<close>. A handler function takes its arguments and the state of the call
  and returns the new state and its results, or no results when it panics. A filter gets the rest of
  the chain as such a function. The spans that \<open>Filter\<close> opens with \<open>rpcz.NewSpanContext\<close> and ends are
  recorded as events in the state; the innermost span is ended by a plain call after the handler,
  those of the filters by deferred calls.
\<close>

datatype span_event = SpanStart string | SpanEnd string

record span_state =
  spans :: "span_event list"

type_synonym ('s, 'q, 'r) HandleFunc = "'q \<Rightarrow> 's \<Rightarrow> 's \<times> 'r option"
type_synonym ('s, 'q, 'r) Filter = "'q \<Rightarrow> ('s, 'q, 'r) HandleFunc \<Rightarrow> 's \<Rightarrow> 's \<times> 'r option"

definition span_start :: "string \<Rightarrow> 'z span_state_scheme \<Rightarrow> 'z span_state_scheme" where
  "span_start n s = s\<lparr>spans := spans s @ [SpanStart n]\<rparr>"

definition span_end :: "string \<Rightarrow> 'z span_state_scheme \<Rightarrow> 'z span_state_scheme" where
  "span_end n s = s\<lparr>spans := spans s @ [SpanEnd n]\<rparr>"

definition NoopFilter :: "('s, 'q, 'r) Filter" where
  "NoopFilter q next = next q"

text \<open>\<open>name\<close>, for the index of a filter.\<close>

definition filter_name :: "string list \<Rightarrow> nat \<Rightarrow> string" where
  "filter_name names i = (if i \<ge> length names then ''unknown'' else names ! i)"

definition base_func :: "string \<Rightarrow> ('z span_state_scheme, 'q, 'r) HandleFunc \<Rightarrow> ('z span_state_scheme, 'q, 'r) HandleFunc" where
  "base_func label next q s =
     (case next q (span_start label s) of
        (s', None) \<Rightarrow> (s', None)
      | (s', Some r) \<Rightarrow> (span_end label s', Some r))"

definition filter_func :: "string list option \<Rightarrow> nat \<Rightarrow> ('z span_state_scheme, 'q, 'r) Filter
    \<Rightarrow> ('z span_state_scheme, 'q, 'r) HandleFunc \<Rightarrow> ('z span_state_scheme, 'q, 'r) HandleFunc" where
  "filter_func names i curFilter curHandleFunc q s =
     (case names of
        None \<Rightarrow> curFilter q curHandleFunc s
      | Some ns \<Rightarrow>
          (let n = filter_name ns i; (s', r) = curFilter q curHandleFunc (span_start n s)
           in (span_end n s', r)))"

text \<open>The loop \<open>for i := len(c) - 1; i >= 0; i--\<close>.\<close>

fun wrap_loop :: "string list option \<Rightarrow> ('z span_state_scheme, 'q, 'r) Filter list \<Rightarrow> nat
    \<Rightarrow> ('z span_state_scheme, 'q, 'r) HandleFunc \<Rightarrow> ('z span_state_scheme, 'q, 'r) HandleFunc" where
  "wrap_loop names c 0 nextF = nextF"
| "wrap_loop names c (Suc i) nextF = wrap_loop names c i (filter_func names i (c ! i) nextF)"

definition chain_Filter :: "string \<Rightarrow> string list option \<Rightarrow> ('z span_state_scheme, 'q, 'r) Filter list
    \<Rightarrow> ('z span_state_scheme, 'q, 'r) HandleFunc \<Rightarrow> ('z span_state_scheme, 'q, 'r) HandleFunc" where
  "chain_Filter label names c next = wrap_loop names c (length c) (base_func label next)"

definition ClientChain_Filter :: "string list option \<Rightarrow> ('z span_state_scheme, 'q, 'r) Filter list
    \<Rightarrow> ('z span_state_scheme, 'q, 'r) HandleFunc \<Rightarrow> ('z span_state_scheme, 'q, 'r) HandleFunc" where
  "ClientChain_Filter = chain_Filter ''CallFunc''"

definition ServerChain_Filter :: "string list option \<Rightarrow> ('z span_state_scheme, 'q, 'r) Filter list
    \<Rightarrow> ('z span_state_scheme, 'q, 'r) HandleFunc \<Rightarrow> ('z span_state_scheme, 'q, 'r) HandleFunc" where
  "ServerChain_Filter = chain_Filter ''HandleFunc''"

subsection \<open>The registry\<close>

record ('f, 'g) filter_registry =
  serverFilters :: "string \<Rightarrow> 'f option"
  clientFilters :: "string \<Rightarrow> 'g option"

definition filter_Register :: "string \<Rightarrow> 'f option \<Rightarrow> 'g option \<Rightarrow> ('f, 'g) filter_registry \<Rightarrow> ('f, 'g) filter_registry" where
  "filter_Register name s c r = r\<lparr>serverFilters := (serverFilters r)(name := s), clientFilters := (clientFilters r)(name := c)\<rparr>"

definition filter_GetServer :: "('f, 'g) filter_registry \<Rightarrow> string \<Rightarrow> 'f option" where
  "filter_GetServer r name = serverFilters r name"

definition filter_GetClient :: "('f, 'g) filter_registry \<Rightarrow> string \<Rightarrow> 'g option" where
  "filter_GetClient r name = clientFilters r name"

subsection \<open>Order of the filters\<close>

text \<open>The chain read from its first filter: each filter gets the rest of the chain.\<close>

fun nested :: "string list option \<Rightarrow> nat \<Rightarrow> ('z span_state_scheme, 'q, 'r) Filter list
    \<Rightarrow> ('z span_state_scheme, 'q, 'r) HandleFunc \<Rightarrow> ('z span_state_scheme, 'q, 'r) HandleFunc" where
  "nested names i [] nextF = nextF"
| "nested names i (f # fs) nextF = filter_func names i f (nested names (Suc i) fs nextF)"

lemma nested_append: "nested names i (c @ d) nextF = nested names i c (nested names (i + length c) d nextF)"
  by (induction names i c nextF rule: nested.induct) simp_all

lemma wrap_loop_nested: "i \<le> length c \<Longrightarrow> wrap_loop names c i nextF = nested names 0 (take i c) nextF"
  by (induction names c i nextF rule: wrap_loop.induct) (simp_all add: take_Suc_conv_app_nth nested_append)

lemma chain_nested: "chain_Filter label names c next = nested names 0 c (base_func label next)"
  by (simp add: chain_Filter_def wrap_loop_nested)

text \<open>A filter that does something before the rest of the chain and something after it, and one that
  answers without calling the rest.\<close>

definition plain_filter :: "('s \<Rightarrow> 's) \<Rightarrow> ('s \<Rightarrow> 's) \<Rightarrow> ('s, 'q, 'r) Filter" where
  "plain_filter pre post q next s =
     (case next q (pre s) of (s', None) \<Rightarrow> (s', None) | (s', Some r) \<Rightarrow> (post s', Some r))"

definition answers_itself :: "('s, 'q, 'r) Filter \<Rightarrow> bool" where
  "answers_itself f \<longleftrightarrow> (\<forall>q next next'. f q next = f q next')"

fun starts :: "string list option \<Rightarrow> nat \<Rightarrow> 'z span_state_scheme \<Rightarrow> 'z span_state_scheme" where
  "starts None i s = s"
| "starts (Some ns) i s = span_start (filter_name ns i) s"

fun ends :: "string list option \<Rightarrow> nat \<Rightarrow> 'z span_state_scheme \<Rightarrow> 'z span_state_scheme" where
  "ends None i s = s"
| "ends (Some ns) i s = span_end (filter_name ns i) s"

text \<open>What a chain of plain filters does on the way in, on the way out, and on the way out of a panic.\<close>

fun on_enter :: "string list option \<Rightarrow> nat \<Rightarrow> (('z span_state_scheme \<Rightarrow> 'z span_state_scheme) \<times> 'p) list
    \<Rightarrow> 'z span_state_scheme \<Rightarrow> 'z span_state_scheme" where
  "on_enter names i [] s = s"
| "on_enter names i ((pre, _) # fs) s = on_enter names (Suc i) fs (pre (starts names i s))"

fun on_leave :: "string list option \<Rightarrow> nat \<Rightarrow> ('p \<times> ('z span_state_scheme \<Rightarrow> 'z span_state_scheme)) list
    \<Rightarrow> 'z span_state_scheme \<Rightarrow> 'z span_state_scheme" where
  "on_leave names i [] s = s"
| "on_leave names i ((_, post) # fs) s = ends names i (post (on_leave names (Suc i) fs s))"

fun on_panic :: "string list option \<Rightarrow> nat \<Rightarrow> 'p list \<Rightarrow> 'z span_state_scheme \<Rightarrow> 'z span_state_scheme" where
  "on_panic names i [] s = s"
| "on_panic names i (_ # fs) s = ends names i (on_panic names (Suc i) fs s)"

lemma filter_func_starts_ends:
  "filter_func names i f next q s = map_prod (ends names i) id (f q next (starts names i s))"
  by (cases names) (simp_all add: filter_func_def Let_def case_prod_beta map_prod_def prod.map_id0)

lemma nested_plain:
  "nested names i (map (\<lambda>(pre, post). plain_filter pre post) fs) nextF q s =
     (case nextF q (on_enter names i fs s) of
        (s', None) \<Rightarrow> (on_panic names i fs s', None)
      | (s', Some r) \<Rightarrow> (on_leave names i fs s', Some r))"
  by (induction fs arbitrary: i s)
     (auto simp: filter_func_starts_ends plain_filter_def split: prod.splits option.splits)

text \<open>C32: The filters of a chain run in their order before the handler and in reverse order after
  it, each inside the span that carries its name. When the handler panics no filter resumes after the
  call and the spans of the filters are ended, but not the span of the handler itself.\<close>

theorem filters_run_in_order:
  "ServerChain_Filter names (map (\<lambda>(pre, post). plain_filter pre post) fs) handler q s =
     (case handler q (span_start ''HandleFunc'' (on_enter names 0 fs s)) of
        (s', None) \<Rightarrow> (on_panic names 0 fs s', None)
      | (s', Some r) \<Rightarrow> (on_leave names 0 fs (span_end ''HandleFunc'' s'), Some r))"
  by (simp add: ServerChain_Filter_def chain_nested nested_plain base_func_def split: prod.splits option.splits)

text \<open>A filter that answers by itself cuts off the filters behind it and the handler.\<close>

lemma filter_cuts_off:
  assumes "answers_itself f"
  shows "chain_Filter label names (c @ f # d) next = chain_Filter label names (c @ [f]) next'"
proof -
  have "filter_func names i f g = filter_func names i f g'" for i g g'
  proof (intro ext)
    fix q s
    have "f q g = f q g'" using assms unfolding answers_itself_def by blast
    then show "filter_func names i f g q s = filter_func names i f g' q s" by (simp add: filter_func_starts_ends)
  qed
  then have "nested names i (f # d) g = nested names i [f] g'" for i g g' by (metis nested.simps)
  then show ?thesis by (metis chain_nested nested_append)
qed

lemma span_state_frame [simp]:
  "spans (span_start n s) = spans s @ [SpanStart n]" "spans (span_end n s) = spans s @ [SpanEnd n]"
  by (simp_all add: span_start_def span_end_def)

lemma empty_chain: "chain_Filter label names [] next = base_func label next"
  by (simp add: chain_nested)

end
