(* ===== verification/Server_Service.thy ===== *)
theory Server_Service
  imports Message Call_Errors Body_Codec Filter_Chain
begin

text \<open>
  Serving one request, \<open>server/service.go\<close> with the timeout filters of \<open>server/full_link_timeout.go\<close>:
  registration of methods, decoding, overload control, dispatch, the timeout of the call, filters and
  handler, encoding of the response or of the error, and the keep-order entry points \<open>PreDecode\<close> and
  \<open>PreUnmarshal\<close>. The state of a call holds its message, the store of errors, the state of the codec,
  the keep-order information of its context, the answers given to overload control, the number of
  active requests and the state \<open>'w\<close> of the user's code. A codec is an argument (the tRPC codec is put in
  later); handlers, filters and overload controllers are functions on the state of the call. A
  panic is the absence of a result.
\<close>

record svc_ctx =
  ctx_timeout :: "int option"

record ('b, 'c, 'w) call = span_state +
  cl_msg :: msg
  cl_errs :: err_store
  cl_codec :: 'c
  cl_preDecode :: "bytes option"
  cl_preUnmarshal :: "('b option \<times> bool) option"
  cl_tokens :: "err_val option list"
  cl_active :: int
  cl_user :: 'w

type_synonym 'b ret = "'b option \<times> err_val option"
type_synonym ('b, 'c, 'w) ServerHandleFunc = "(('b, 'c, 'w) call, svc_ctx \<times> 'b option, 'b ret) HandleFunc"
type_synonym ('b, 'c, 'w) ServerFilter = "(('b, 'c, 'w) call, svc_ctx \<times> 'b option, 'b ret) Filter"
type_synonym ('b, 'c, 'w) FilterFunc =
  "'b option \<Rightarrow> ('b, 'c, 'w) call \<Rightarrow> ('b, 'c, 'w) call \<times> 'b option \<times> (err_val + ('b, 'c, 'w) ServerFilter list)"
type_synonym ('b, 'c, 'w) Handler =
  "svc_ctx \<Rightarrow> ('b, 'c, 'w) FilterFunc \<Rightarrow> ('b, 'c, 'w) call \<Rightarrow> ('b, 'c, 'w) call \<times> 'b ret option"

text \<open>A codec (\<open>codec.Codec\<close>): both operations may change its state and the message, and fail with a
  text or panic.\<close>

record 'c Codec =
  cd_Encode :: "'c \<Rightarrow> msg \<Rightarrow> bytes \<Rightarrow> 'c \<times> msg \<times> (string, bytes) res"
  cd_Decode :: "'c \<Rightarrow> msg \<Rightarrow> bytes \<Rightarrow> 'c \<times> msg \<times> (string, bytes) res"

record StreamServerInfo =
  FullMethod :: string
  IsClientStream :: bool
  IsServerStream :: bool

record ('b, 'c, 'w) ServerOptions =
  so_Namespace :: string
  so_EnvName :: string
  so_SetName :: string
  so_ServiceName :: string
  so_Timeout :: int
  so_DisableRequestTimeout :: bool
  so_CurrentSerializationType :: int
  so_CurrentCompressType :: int
  so_Codec :: "'c Codec option"
  so_Filters :: "('b, 'c, 'w) ServerFilter list"
  so_FilterNames :: "string list"
  so_OverloadCtrl :: "(string \<Rightarrow> 'w \<Rightarrow> 'w \<times> string option) option"
  so_StreamHandle :: "(go_any option \<Rightarrow> StreamServerInfo option \<Rightarrow> bytes \<Rightarrow> ('b, 'c, 'w) call \<Rightarrow> ('b, 'c, 'w) call \<times> 'b ret) option"
  so_CloseWaitTime :: int
  so_MaxCloseWaitTime :: int

record ('b, 'c, 'w) service =
  opts :: "('b, 'c, 'w) ServerOptions"
  handlers :: "string \<Rightarrow> ('b, 'c, 'w) Handler option"
  streamHandlers :: "string \<Rightarrow> go_any option"
  streamInfo :: "string \<Rightarrow> StreamServerInfo option"

text \<open>What the service uses of its surroundings: return codes, body formats, whether \<open>rpcz\<close> records
  spans, the type of the value behind an interface, and the request type for calls without response.\<close>

record 'b env =
  env_rc :: ret_codes
  env_cc :: call_codes
  env_ser :: "'b serializers"
  env_cmp :: compressors
  env_rpcz :: bool
  env_typeOf :: "'b \<Rightarrow> nat"
  env_SendOnly :: int

definition newFrameErr :: "u32 \<Rightarrow> string \<Rightarrow> ('b, 'c, 'w) call \<Rightarrow> ('b, 'c, 'w) call \<times> err_val" where
  "newFrameErr code text s =
     (let (h, e) = alloc_err (NewFrameError code text) (cl_errs s) in (s\<lparr>cl_errs := h\<rparr>, e))"

subsection \<open>Timeout filters\<close>

definition convert_timeout :: "call_codes \<Rightarrow> u32 \<Rightarrow> ('b, 'c, 'w) ServerFilter" where
  "convert_timeout cc code q next s =
     (case next q s of
        (s', None) \<Rightarrow> (s', None)
      | (s', Some (rsp, err)) \<Rightarrow>
          (case err of
             Some ENilPtr \<Rightarrow> (s', None)
           | Some (EPtr a) \<Rightarrow>
               (let e = deref (cl_errs s') (EPtr a) in
                if IsTimeout cc ErrorTypeFramework e \<and> e_Code e \<noteq> RetClientTimeout cc
                then (s'\<lparr>cl_errs := set_code code a (cl_errs s')\<rparr>, Some (rsp, err))
                else (s', Some (rsp, err)))
           | _ \<Rightarrow> (s', Some (rsp, err))))"

definition mayConvert2FullLinkTimeout :: "call_codes \<Rightarrow> ('b, 'c, 'w) ServerFilter" where
  "mayConvert2FullLinkTimeout cc = convert_timeout cc (RetServerFullLinkTimeout cc)"

definition mayConvert2NormalTimeout :: "call_codes \<Rightarrow> ('b, 'c, 'w) ServerFilter" where
  "mayConvert2NormalTimeout cc = convert_timeout cc (RetServerTimeout cc)"

subsection \<open>Decoding and encoding\<close>

definition setOpt :: "('b, 'c, 'w) ServerOptions \<Rightarrow> msg \<Rightarrow> msg" where
  "setOpt opt m = WithCalleeServiceName (so_ServiceName opt)
     (m\<lparr>namespace := so_Namespace opt, envName := so_EnvName opt, setName := so_SetName opt\<rparr>)"

definition svc_decode :: "'b env \<Rightarrow> ('b, 'c, 'w) ServerOptions \<Rightarrow> 'c Codec \<Rightarrow> bytes \<Rightarrow> ('b, 'c, 'w) call
    \<Rightarrow> ('b, 'c, 'w) call \<times> (err_val, bytes) res" where
  "svc_decode env opt cd reqBuf s =
     (case cd_Decode cd (cl_codec s) (setOpt opt (cl_msg s)) reqBuf of
        (c, m, Ok body) \<Rightarrow> (s\<lparr>cl_codec := c, cl_msg := setOpt opt m\<rparr>, Ok body)
      | (c, m, Err t) \<Rightarrow>
          (let (s', e) = newFrameErr (RetServerDecodeFail (env_rc env)) (''service codec Decode: '' @ t)
             (s\<lparr>cl_codec := c, cl_msg := m\<rparr>) in (s', Err e))
      | (c, m, Panic) \<Rightarrow> (s\<lparr>cl_codec := c, cl_msg := m\<rparr>, Panic))"

text \<open>\<open>encode\<close> with the error it is given, which the message keeps.\<close>

definition svc_encode :: "'c Codec \<Rightarrow> go_error option \<Rightarrow> bytes \<Rightarrow> ('b, 'c, 'w) call
    \<Rightarrow> ('b, 'c, 'w) call \<times> (err_val, bytes) res" where
  "svc_encode cd e rspBodyBuf s =
     (let m = (case e of None \<Rightarrow> cl_msg s | Some _ \<Rightarrow> (cl_msg s)\<lparr>serverRspErr := e\<rparr>);
          (c', m', r) = cd_Encode cd (cl_codec s) m rspBodyBuf
      in (s\<lparr>cl_codec := c', cl_msg := m'\<rparr>,
          case r of Ok b \<Rightarrow> Ok b | Err t \<Rightarrow> Err (EOther t None) | Panic \<Rightarrow> Panic))"

definition decompressAndUnmarshal :: "'b env \<Rightarrow> ('b, 'c, 'w) ServerOptions \<Rightarrow> msg \<Rightarrow> bytes \<Rightarrow> 'b option \<Rightarrow> string + 'b option" where
  "decompressAndUnmarshal env opt m reqBodyBuf reqBody =
     (let ct = (if IsValidCompressType (so_CurrentCompressType opt) then so_CurrentCompressType opt else compressType m) in
      case codec_Decompress (env_cmp env) ct reqBodyBuf of
        Inl t \<Rightarrow> Inl (''service codec Decompress: '' @ t)
      | Inr buf \<Rightarrow>
          (let st = (if IsValidSerializationType (so_CurrentSerializationType opt) then so_CurrentSerializationType opt
                     else serializationType m) in
           case codec_Unmarshal (env_ser env) st buf reqBody of
             Inl t \<Rightarrow> Inl (''service codec Unmarshal: '' @ t)
           | Inr body \<Rightarrow> Inr body))"

definition handleResponse :: "'b env \<Rightarrow> ('b, 'c, 'w) ServerOptions \<Rightarrow> 'c Codec \<Rightarrow> 'b option \<Rightarrow> ('b, 'c, 'w) call
    \<Rightarrow> ('b, 'c, 'w) call \<times> (err_val, bytes) res" where
  "handleResponse env opt cd rspBody s =
     (let m = cl_msg s;
          st = (if IsValidSerializationType (so_CurrentSerializationType opt) then so_CurrentSerializationType opt
                else serializationType m) in
      case codec_Marshal (env_ser env) st rspBody of
        Inl t \<Rightarrow> svc_encode cd (Some (NewFrameError (RetServerEncodeFail (env_rc env)) (''service codec Marshal: '' @ t))) [] s
      | Inr buf \<Rightarrow>
          (let ct = (if IsValidCompressType (so_CurrentCompressType opt) then so_CurrentCompressType opt else compressType m) in
           case codec_Compress (env_cmp env) ct buf of
             Inl t \<Rightarrow> svc_encode cd (Some (NewFrameError (RetServerEncodeFail (env_rc env)) (''service codec Compress: '' @ t))) [] s
           | Inr z \<Rightarrow> svc_encode cd None z s))"

subsection \<open>The filter function\<close>

text \<open>\<open>assignPreUnmarshal\<close>: the destination afterwards, or the failure.\<close>

definition assignPreUnmarshal :: "'b env \<Rightarrow> 'b option \<Rightarrow> 'b option \<Rightarrow> string + 'b option" where
  "assignPreUnmarshal env dst src =
     (case src of
        None \<Rightarrow> Inr dst
      | Some v \<Rightarrow>
          (case dst of
             None \<Rightarrow> Inl ''destination must be a non-nil pointer''
           | Some d \<Rightarrow> if env_typeOf env v = env_typeOf env d then Inr (Some v) else Inl ''cannot assign''))"

text \<open>The chain that stops the first pass of \<open>PreUnmarshal\<close>.\<close>

definition stop_filter :: "('b, 'c, 'w) ServerFilter" where
  "stop_filter q next s = (s, Some (None, None))"

definition filterFunc :: "'b env \<Rightarrow> ('b, 'c, 'w) ServerOptions \<Rightarrow> bytes \<Rightarrow> ('b, 'c, 'w) ServerFilter option
    \<Rightarrow> ('b, 'c, 'w) FilterFunc" where
  "filterFunc env opt reqBodyBuf fixTimeout reqBody s =
     (let chain = (case fixTimeout of None \<Rightarrow> so_Filters opt | Some f \<Rightarrow> so_Filters opt @ [f]) in
      case cl_preUnmarshal s of
        Some (stored, True) \<Rightarrow>
          (case assignPreUnmarshal env reqBody stored of
             Inl t \<Rightarrow> (s, reqBody, Inl (EOther (''assigning pre-unmarshal value to stub error: '' @ t) None))
           | Inr body \<Rightarrow> (s\<lparr>cl_preUnmarshal := Some (None, True)\<rparr>, body, Inr chain))
      | info \<Rightarrow>
          (case decompressAndUnmarshal env opt (cl_msg s) reqBodyBuf reqBody of
             Inl t \<Rightarrow>
               (let (s', e) = newFrameErr (RetServerDecodeFail (env_rc env)) t s in (s', reqBody, Inl e))
           | Inr body \<Rightarrow>
               (case info of
                  Some _ \<Rightarrow> (s\<lparr>cl_preUnmarshal := Some (body, True)\<rparr>, body, Inr [stop_filter])
                | None \<Rightarrow> (s, body, Inr chain))))"

subsection \<open>Dispatch\<close>

definition handleStream :: "'b env \<Rightarrow> ('b, 'c, 'w) service \<Rightarrow> go_any \<Rightarrow> bytes \<Rightarrow> ('b, 'c, 'w) call
    \<Rightarrow> ('b, 'c, 'w) call \<times> 'b ret option" where
  "handleStream env svc sh reqBuf s =
     (case so_StreamHandle (opts svc) of
        Some f \<Rightarrow> (let (s', r) = f (Some sh) (streamInfo svc (serverRPCName (cl_msg s))) reqBuf s in (s', Some r))
      | None \<Rightarrow>
          (let (s', e) = newFrameErr (RetServerNoService (env_cc env)) ''Stream method no Handle'' s
           in (s', Some (None, Some e))))"

definition find_handler :: "('b, 'c, 'w) service \<Rightarrow> string \<Rightarrow> ('b, 'c, 'w) Handler option" where
  "find_handler svc rpcName =
     (case handlers svc rpcName of Some h \<Rightarrow> Some h | None \<Rightarrow> handlers svc ''*'')"

definition noFunc :: "'b env \<Rightarrow> ('b, 'c, 'w) call \<Rightarrow> ('b, 'c, 'w) call \<times> err_val" where
  "noFunc env s = newFrameErr (RetServerNoFunc (env_cc env))
     (''service handle: rpc name '' @ serverRPCName (cl_msg s) @ '' invalid, current service:'' @ calleeServiceName (cl_msg s)) s"

text \<open>The filter that fixes timeout errors and the timeout of the call: that of the service, or that of
  the request if it is shorter or the only one.\<close>

definition call_timeout :: "'b env \<Rightarrow> ('b, 'c, 'w) ServerOptions \<Rightarrow> msg \<Rightarrow> ('b, 'c, 'w) ServerFilter option \<times> int" where
  "call_timeout env opt m =
     (let fix = (if so_Timeout opt > 0 then Some (mayConvert2NormalTimeout (env_cc env)) else None) in
      if requestTimeout m > 0 \<and> \<not> so_DisableRequestTimeout opt \<and> (requestTimeout m < so_Timeout opt \<or> so_Timeout opt = 0)
      then (Some (mayConvert2FullLinkTimeout (env_cc env)), requestTimeout m)
      else (fix, so_Timeout opt))"

definition svc_handle :: "'b env \<Rightarrow> ('b, 'c, 'w) service \<Rightarrow> bytes \<Rightarrow> ('b, 'c, 'w) call
    \<Rightarrow> ('b, 'c, 'w) call \<times> 'b ret option" where
  "svc_handle env svc reqBodyBuf s =
     (case streamHandlers svc (serverRPCName (cl_msg s)) of
        Some sh \<Rightarrow> handleStream env svc sh reqBodyBuf s
      | None \<Rightarrow>
          (case find_handler svc (serverRPCName (cl_msg s)) of
             None \<Rightarrow> (let (s', e) = noFunc env s in (s', Some (None, Some e)))
           | Some handler \<Rightarrow>
               (let (fix, timeout) = call_timeout env (opts svc) (cl_msg s);
                    ctx = \<lparr>ctx_timeout = (if timeout > 0 then Some timeout else None)\<rparr>
                in case handler ctx (filterFunc env (opts svc) reqBodyBuf fix) s of
                     (s', None) \<Rightarrow> (s', None)
                   | (s', Some (rspBody, Some err)) \<Rightarrow>
                       (case err of
                          ENilPtr \<Rightarrow> (s', None)
                        | EPtr a \<Rightarrow>
                            (let e = deref (cl_errs s') err in
                             (s', Some (None, Some (if e_Type e = ErrorTypeFramework \<and> e_Code e = RetServerFullLinkTimeout (env_cc env)
                                                    then ErrServerNoResponse else err))))
                        | _ \<Rightarrow> (s', Some (None, Some err)))
                   | (s', Some (rspBody, None)) \<Rightarrow>
                       if callType (cl_msg s') = env_SendOnly env then (s', Some (None, Some ErrServerNoResponse))
                       else (s', Some (rspBody, None)))))"

subsection \<open>Handle\<close>

definition counts_requests :: "('b, 'c, 'w) ServerOptions \<Rightarrow> bool" where
  "counts_requests opt \<longleftrightarrow> so_MaxCloseWaitTime opt > so_CloseWaitTime opt \<or> so_MaxCloseWaitTime opt > 10000000000"

definition on_response :: "('b, 'c, 'w) ServerOptions \<Rightarrow> err_val option \<Rightarrow> ('b, 'c, 'w) call \<Rightarrow> ('b, 'c, 'w) call" where
  "on_response opt e s = (case so_OverloadCtrl opt of None \<Rightarrow> s | Some _ \<Rightarrow> s\<lparr>cl_tokens := cl_tokens s @ [e]\<rparr>)"

text \<open>The part after overload control: \<open>OnResponse\<close> is deferred until the response is encoded.\<close>

definition handle_and_encode :: "'b env \<Rightarrow> ('b, 'c, 'w) service \<Rightarrow> 'c Codec \<Rightarrow> bytes \<Rightarrow> ('b, 'c, 'w) call
    \<Rightarrow> ('b, 'c, 'w) call \<times> (err_val, bytes) res" where
  "handle_and_encode env svc cd reqBodyBuf s =
     (case svc_handle env svc reqBodyBuf s of
        (s', None) \<Rightarrow> (s', Panic)
      | (s', Some (rspbody, Some err)) \<Rightarrow>
          if err = ErrServerNoResponse then (on_response (opts svc) None s', Err err)
          else map_prod (on_response (opts svc) (Some err)) id (svc_encode cd (Some (deref (cl_errs s') err)) [] s')
      | (s', Some (rspbody, None)) \<Rightarrow>
          map_prod (on_response (opts svc) None) id (handleResponse env (opts svc) cd rspbody s'))"

definition handle_decoded :: "'b env \<Rightarrow> ('b, 'c, 'w) service \<Rightarrow> 'c Codec \<Rightarrow> bytes \<Rightarrow> ('b, 'c, 'w) call
    \<Rightarrow> ('b, 'c, 'w) call \<times> (err_val, bytes) res" where
  "handle_decoded env svc cd reqBodyBuf s =
     (case ServerRspErr (env_rc env) (cl_msg s) of
        Some e \<Rightarrow> svc_encode cd (Some e) [] s
      | None \<Rightarrow>
          (case so_OverloadCtrl (opts svc) of
             None \<Rightarrow> handle_and_encode env svc cd reqBodyBuf s
           | Some acquire \<Rightarrow>
               (case acquire (case remoteAddr (cl_msg s) of None \<Rightarrow> [] | Some (_, a) \<Rightarrow> a) (cl_user s) of
                  (w, Some t) \<Rightarrow> svc_encode cd (Some (NewFrameError (RetServerOverload (env_cc env)) t)) [] (s\<lparr>cl_user := w\<rparr>)
                | (w, None) \<Rightarrow> handle_and_encode env svc cd reqBodyBuf (s\<lparr>cl_user := w\<rparr>))))"

definition handle_request :: "'b env \<Rightarrow> ('b, 'c, 'w) service \<Rightarrow> bytes \<Rightarrow> ('b, 'c, 'w) call
    \<Rightarrow> ('b, 'c, 'w) call \<times> (err_val, bytes) res" where
  "handle_request env svc reqBuf s =
     (case so_Codec (opts svc) of
        None \<Rightarrow> (s, Err (EOther ''server codec empty'' None))
      | Some cd \<Rightarrow>
          (case cl_preDecode s of
             Some buf \<Rightarrow> handle_decoded env svc cd buf (s\<lparr>cl_preDecode := Some []\<rparr>)
           | None \<Rightarrow>
               (case svc_decode env (opts svc) cd reqBuf s of
                  (s', Ok buf) \<Rightarrow> handle_decoded env svc cd buf s'
                | (s', Err e) \<Rightarrow> svc_encode cd (Some (deref (cl_errs s') e)) [] s'
                | (s', Panic) \<Rightarrow> (s', Panic))))"

definition count_request :: "('b, 'c, 'w) ServerOptions \<Rightarrow> int \<Rightarrow> ('b, 'c, 'w) call \<Rightarrow> ('b, 'c, 'w) call" where
  "count_request opt k s = (if counts_requests opt then s\<lparr>cl_active := cl_active s + k\<rparr> else s)"

definition svc_Handle :: "'b env \<Rightarrow> ('b, 'c, 'w) service \<Rightarrow> bytes \<Rightarrow> ('b, 'c, 'w) call
    \<Rightarrow> ('b, 'c, 'w) call \<times> (err_val, bytes) res" where
  "svc_Handle env svc reqBuf s =
     map_prod (count_request (opts svc) (- 1)) id (handle_request env svc reqBuf (count_request (opts svc) 1 s))"

subsection \<open>Keep-order entry points\<close>

definition PreDecode :: "'b env \<Rightarrow> ('b, 'c, 'w) service \<Rightarrow> bytes \<Rightarrow> ('b, 'c, 'w) call
    \<Rightarrow> ('b, 'c, 'w) call \<times> (err_val, bytes) res" where
  "PreDecode env svc reqBuf s =
     (case so_Codec (opts svc) of
        None \<Rightarrow> (s, Err (EOther ''server codec empty'' None))
      | Some cd \<Rightarrow> svc_decode env (opts svc) cd reqBuf s)"

definition PreUnmarshal :: "'b env \<Rightarrow> ('b, 'c, 'w) service \<Rightarrow> bytes \<Rightarrow> ('b, 'c, 'w) call
    \<Rightarrow> ('b, 'c, 'w) call \<times> (err_val, 'b option) res" where
  "PreUnmarshal env svc reqBuf s =
     (case PreDecode env svc reqBuf s of
        (s, Err e) \<Rightarrow> (s, Err e)
      | (s, Panic) \<Rightarrow> (s, Panic)
      | (s, Ok buf) \<Rightarrow>
          (case find_handler svc (serverRPCName (cl_msg s)) of
             None \<Rightarrow> map_prod id Err (noFunc env s)
           | Some handler \<Rightarrow>
               (case cl_preUnmarshal s of
                  None \<Rightarrow> (s, Err (EOther ''failed to get keeporder pre-unmarshal info'' None))
                | Some _ \<Rightarrow>
                    (case handler \<lparr>ctx_timeout = None\<rparr> (filterFunc env (opts svc) buf None) s of
                       (s', None) \<Rightarrow> (s', Panic)
                     | (s', Some (_, Some e)) \<Rightarrow>
                         (s', Err (EOther (''do handler during pre-unmarshal error: '' @ err_Error (deref (cl_errs s') e))
                                          (Some (deref (cl_errs s') e))))
                     | (s', Some (_, None)) \<Rightarrow> (s', Ok (case cl_preUnmarshal s' of Some (b, _) \<Rightarrow> b | None \<Rightarrow> None))))))"

text \<open>\<open>HandleClose\<close>: when the connection failed, the stream handler is told.\<close>

definition HandleClose :: "'b env \<Rightarrow> ('b, 'c, 'w) service \<Rightarrow> ('b, 'c, 'w) call \<Rightarrow> ('b, 'c, 'w) call \<times> err_val option" where
  "HandleClose env svc s =
     (case (ServerRspErr (env_rc env) (cl_msg s), so_StreamHandle (opts svc)) of
        (Some _, Some f) \<Rightarrow> (let (s', r) = f None None [] s in (s', snd r))
      | _ \<Rightarrow> (s, None))"

subsection \<open>Generated handlers\<close>

text \<open>The function that the generated code registers for a method: it makes an empty request, lets the
  filter function fill it, and runs the filters around the implementation.\<close>

definition stub :: "string list option \<Rightarrow> 'b \<Rightarrow> ('b, 'c, 'w) ServerHandleFunc \<Rightarrow> ('b, 'c, 'w) Handler" where
  "stub names newReq impl ctx f s =
     (case f (Some newReq) s of
        (s', _, Inl e) \<Rightarrow> (s', Some (None, Some e))
      | (s', req, Inr filters) \<Rightarrow>
          (case ServerChain_Filter names filters impl (ctx, req) s' of
             (s'', None) \<Rightarrow> (s'', None)
           | (s'', Some (rsp, Some e)) \<Rightarrow> (s'', Some (None, Some e))
           | (s'', Some (rsp, None)) \<Rightarrow> (s'', Some (rsp, None))))"

definition span_names :: "'b env \<Rightarrow> ('b, 'c, 'w) ServerOptions \<Rightarrow> string list option" where
  "span_names env opt = (if env_rpcz env then Some (so_FilterNames opt) else None)"

subsection \<open>Registration\<close>

record ('b, 'c, 'w) Method =
  mt_Name :: string
  mt_Func :: "('b, 'c, 'w) Handler"
  mt_Bindings :: "go_any list"

record StreamDesc =
  sd_StreamName :: string
  sd_Handler :: go_any
  sd_ServerStreams :: bool
  sd_ClientStreams :: bool

text \<open>A service description; \<open>StreamHandle\<close> comes with the error of its \<open>Init\<close>.\<close>

record ('b, 'c, 'w) ServiceDesc =
  ds_Methods :: "('b, 'c, 'w) Method list"
  ds_Streams :: "StreamDesc list"
  ds_StreamHandle :: "((go_any option \<Rightarrow> StreamServerInfo option \<Rightarrow> bytes \<Rightarrow> ('b, 'c, 'w) call \<Rightarrow> ('b, 'c, 'w) call \<times> 'b ret) \<times> string option) option"

fun reg_methods :: "('b, 'c, 'w) Method list \<Rightarrow> go_any list \<Rightarrow> ('b, 'c, 'w) service
    \<Rightarrow> ('b, 'c, 'w) service \<times> (string + go_any list)" where
  "reg_methods [] bindings svc = (svc, Inr bindings)"
| "reg_methods (m # ms) bindings svc =
     (if handlers svc (mt_Name m) \<noteq> None then (svc, Inl (''duplicate method name: '' @ mt_Name m))
      else reg_methods ms (bindings @ mt_Bindings m) (svc\<lparr>handlers := (handlers svc)(mt_Name m \<mapsto> mt_Func m)\<rparr>))"

fun reg_streams :: "StreamDesc list \<Rightarrow> ('b, 'c, 'w) service \<Rightarrow> ('b, 'c, 'w) service \<times> string option" where
  "reg_streams [] svc = (svc, None)"
| "reg_streams (d # ds) svc =
     (if streamHandlers svc (sd_StreamName d) \<noteq> None then (svc, Some (''duplicate stream name: '' @ sd_StreamName d))
      else reg_streams ds (svc\<lparr>
        streamInfo := (streamInfo svc)(sd_StreamName d \<mapsto>
          \<lparr>FullMethod = sd_StreamName d, IsClientStream = sd_ClientStreams d, IsServerStream = sd_ServerStreams d\<rparr>),
        streamHandlers := (streamHandlers svc)(sd_StreamName d \<mapsto> sd_Handler d)\<rparr>))"

text \<open>\<open>Register\<close>: the service as it is left, also when registration fails half-way. Whether the
  implementation has the type of the description and what adding the RESTful bindings reports are
  arguments.\<close>

definition svc_Register :: "bool \<Rightarrow> (go_any list \<Rightarrow> string option) \<Rightarrow> ('b, 'c, 'w) ServiceDesc \<Rightarrow> ('b, 'c, 'w) service
    \<Rightarrow> ('b, 'c, 'w) service \<times> string option" where
  "svc_Register implements addBindings desc svc0 =
     (let (svc, initErr) =
            (case ds_StreamHandle desc of
               None \<Rightarrow> (svc0, None)
             | Some (f, e) \<Rightarrow> (svc0\<lparr>opts := (opts svc0)\<lparr>so_StreamHandle := Some f\<rparr>\<rparr>, e))
      in case initErr of
           Some t \<Rightarrow> (svc, Some t)
         | None \<Rightarrow>
             if \<not> implements then (svc, Some ''not implements interface'')
             else (case reg_methods (ds_Methods desc) [] svc of
                     (svc, Inl t) \<Rightarrow> (svc, Some t)
                   | (svc, Inr bindings) \<Rightarrow>
                       (case reg_streams (ds_Streams desc) svc of
                          (svc, Some t) \<Rightarrow> (svc, Some t)
                        | (svc, None) \<Rightarrow> (svc, if bindings = [] then None else addBindings bindings))))"

subsection \<open>Closing\<close>

text \<open>The polling loop of \<open>waitInactive\<close> over what it observes: the time since its start and the number
  of active requests at each check.\<close>

fun waitInactive :: "int \<Rightarrow> (int \<times> int) list \<Rightarrow> int option" where
  "waitInactive maxWaitTime [] = None"
| "waitInactive maxWaitTime ((since, active) # obs) =
     (if since < maxWaitTime then (if active \<le> 0 then Some 0 else waitInactive maxWaitTime obs) else Some active)"

abbreviation MaxCloseWaitTime :: int where "MaxCloseWaitTime \<equiv> 10000000000"

text \<open>How long \<open>Close\<close> sleeps and for how long it then waits for requests, before and after the context
  of the service is cancelled.\<close>

definition close_sleep :: "('b, 'c, 'w) ServerOptions \<Rightarrow> int" where
  "close_sleep opt = min (so_CloseWaitTime opt) MaxCloseWaitTime"

definition waitBeforeClose :: "('b, 'c, 'w) ServerOptions \<Rightarrow> (int \<times> int) list \<Rightarrow> int option" where
  "waitBeforeClose opt obs = waitInactive (so_MaxCloseWaitTime opt - close_sleep opt) obs"

definition wait_after_cancel :: "('b, 'c, 'w) ServerOptions \<Rightarrow> (int \<times> int) list \<Rightarrow> int option" where
  "wait_after_cancel opt obs = waitInactive (if so_Timeout opt > 300000000 then so_Timeout opt else 300000000) obs"

end
