(* ===== verification/Server_Proofs.thy ===== *)
theory Server_Proofs
  imports Server_Service
begin

text \<open>
  What serving a request guarantees and where it does not: the count of active requests is restored and
  an admitted request releases its overload-control token exactly once, unless the handler panics; a
  handler that returns a nil \<open>*errs.Error\<close> makes the service panic; and converting a timeout error
  changes the error variable that all requests share. Registration never replaces a handler.
\<close>

subsection \<open>Dispatch to a generated handler\<close>

text \<open>The filters of the service, with the one for timeouts, around an implementation.\<close>

definition run_app :: "'b env \<Rightarrow> ('b, 'c, 'w) service \<Rightarrow> ('b, 'c, 'w) ServerHandleFunc \<Rightarrow> 'b \<Rightarrow> ('b, 'c, 'w) call
    \<Rightarrow> ('b, 'c, 'w) call \<times> 'b ret option" where
  "run_app env svc impl req s =
     (let (fix, timeout) = call_timeout env (opts svc) (cl_msg s) in
      ServerChain_Filter (span_names env (opts svc)) (so_Filters (opts svc) @ (case fix of None \<Rightarrow> [] | Some f \<Rightarrow> [f])) impl
        (\<lparr>ctx_timeout = (if timeout > 0 then Some timeout else None)\<rparr>, Some req) s)"

lemma svc_handle_stub:
  assumes "streamHandlers svc (serverRPCName (cl_msg s)) = None"
    and "find_handler svc (serverRPCName (cl_msg s)) = Some (stub (span_names env (opts svc)) newReq impl)"
    and "cl_preUnmarshal s = None" "decompressAndUnmarshal env (opts svc) (cl_msg s) buf (Some newReq) = Inr (Some req)"
  shows "svc_handle env svc buf s =
    (case run_app env svc impl req s of
       (s', None) \<Rightarrow> (s', None)
     | (s', Some (_, Some ENilPtr)) \<Rightarrow> (s', None)
     | (s', Some (_, Some (EPtr a))) \<Rightarrow>
         (s', Some (None, Some (if e_Type (deref (cl_errs s') (EPtr a)) = ErrorTypeFramework
            \<and> e_Code (deref (cl_errs s') (EPtr a)) = RetServerFullLinkTimeout (env_cc env) then ErrServerNoResponse else EPtr a)))
     | (s', Some (_, Some e)) \<Rightarrow> (s', Some (None, Some e))
     | (s', Some (rsp, None)) \<Rightarrow>
         (s', Some (if callType (cl_msg s') = env_SendOnly env then (None, Some ErrServerNoResponse) else (rsp, None))))"
  using assms
  by (auto simp: svc_handle_def stub_def filterFunc_def run_app_def Let_def split: prod.splits option.splits err_val.splits)

subsection \<open>Tokens and the count of active requests\<close>

text \<open>The fields of the framework that user code has no access to.\<close>

definition fw :: "('b, 'c, 'w) call \<Rightarrow> err_val option list \<times> int" where
  "fw s = (cl_tokens s, cl_active s)"

definition user_keeps_fw :: "'b env \<Rightarrow> ('b, 'c, 'w) service \<Rightarrow> bool" where
  "user_keeps_fw env svc \<longleftrightarrow> (\<forall>buf s. fw (fst (svc_handle env svc buf s)) = fw s)"

lemma svc_encode_fw [simp]: "fw (fst (svc_encode cd e b s)) = fw s"
  by (simp add: svc_encode_def fw_def Let_def case_prod_beta)

lemma handleResponse_fw [simp]: "fw (fst (handleResponse env opt cd rsp s)) = fw s"
  by (simp add: handleResponse_def Let_def split: sum.split)

lemma svc_decode_fw [simp]: "fw (fst (svc_decode env opt cd buf s)) = fw s"
  by (auto simp: svc_decode_def fw_def newFrameErr_def alloc_err_def split: prod.split res.split)

text \<open>Filters and implementations that keep these fields, around which everything else keeps them too.\<close>

definition keeps_h :: "('b, 'c, 'w) ServerHandleFunc \<Rightarrow> bool" where
  "keeps_h h \<longleftrightarrow> (\<forall>q s. fw (fst (h q s)) = fw s)"

definition keeps_f :: "('b, 'c, 'w) ServerFilter \<Rightarrow> bool" where
  "keeps_f f \<longleftrightarrow> (\<forall>next. keeps_h next \<longrightarrow> keeps_h (\<lambda>q. f q next))"

lemma span_fw [simp]: "fw (span_start n s) = fw s" "fw (span_end n s) = fw s" "fw (starts ns i s) = fw s" "fw (ends ns i s) = fw s"
  by (cases ns; simp add: fw_def span_start_def span_end_def)+

lemma base_keeps: "keeps_h h \<Longrightarrow> keeps_h (base_func l h)"
  unfolding keeps_h_def base_func_def
  by (metis (mono_tags, lifting) case_prod_beta fst_conv option.case_eq_if span_fw(1,2))

lemma nested_keeps: "\<lbrakk>\<forall>f \<in> set c. keeps_f f; keeps_h nextF\<rbrakk> \<Longrightarrow> keeps_h (nested names i c nextF)"
proof (induction names i c nextF rule: nested.induct)
  case (2 names i f fs nextF)
  then have "keeps_h (\<lambda>q. f q (nested names (Suc i) fs nextF))" unfolding keeps_f_def by simp
  then show ?case unfolding keeps_h_def by (simp add: filter_func_starts_ends)
qed simp

lemma convert_timeout_fw:
  assumes "keeps_h h"
  shows "fw (fst (convert_timeout cc code q h s)) = fw s"
proof -
  obtain s' r where n: "h q s = (s', r)" by (rule prod.exhaust)
  with assms have "fw s' = fw s" unfolding keeps_h_def by (metis fst_conv)
  then show ?thesis
    using n by (auto simp: convert_timeout_def fw_def Let_def split: option.split err_val.split)
qed

lemma timeout_keeps: "keeps_f (convert_timeout cc code)" "keeps_f stop_filter"
  by (simp_all add: keeps_f_def keeps_h_def convert_timeout_fw stop_filter_def)

lemma filterFunc_keeps:
  assumes "filterFunc env opt buf fix b s = (s', b', r)"
  shows "fw s' = fw s" and "r = Inr c \<Longrightarrow> set c \<subseteq> set (so_Filters opt) \<union> set_option fix \<union> {stop_filter}"
  using assms
  by (auto simp: filterFunc_def fw_def newFrameErr_def alloc_err_def Let_def split: option.splits prod.splits sum.splits bool.splits)

lemma stub_keeps:
  assumes "keeps_h impl" "\<forall>f \<in> set (so_Filters opt) \<union> set_option fix. keeps_f f"
  shows "fw (fst (stub names newReq impl ctx (filterFunc env opt buf fix) s)) = fw s"
proof -
  obtain s1 b r where f: "filterFunc env opt buf fix (Some newReq) s = (s1, b, r)" by (rule prod_cases3)
  have "fw s1 = fw s" by (rule filterFunc_keeps(1) [OF f])
  moreover have "keeps_h (ServerChain_Filter names c impl)" if "r = Inr c" for c
    unfolding ServerChain_Filter_def chain_nested
    using filterFunc_keeps(2) [OF f that] assms timeout_keeps(2) by (intro nested_keeps base_keeps) auto
  then have "fw s2 = fw s1" if "r = Inr c" "ServerChain_Filter names c impl q s1 = (s2, x)" for c q s2 x
    using that unfolding keeps_h_def by (metis fst_conv)
  ultimately show ?thesis
    using f by (cases r) (auto simp: stub_def split: prod.split option.split)
qed

text \<open>For a service of generated handlers.\<close>

lemma generated_keeps_fw:
  assumes "streamHandlers svc = (\<lambda>_. None)" "\<forall>f \<in> set (so_Filters (opts svc)). keeps_f f"
    and "\<And>n h. handlers svc n = Some h \<Longrightarrow> \<exists>newReq impl names. h = stub names newReq impl \<and> keeps_h impl"
  shows "user_keeps_fw env svc"
  unfolding user_keeps_fw_def
proof (intro allI)
  fix buf s
  show "fw (fst (svc_handle env svc buf s)) = fw s"
  proof (cases "find_handler svc (serverRPCName (cl_msg s))")
    case None
    then show ?thesis using assms(1) by (simp add: svc_handle_def noFunc_def newFrameErr_def alloc_err_def fw_def)
  next
    case (Some h)
    then obtain n where "handlers svc n = Some h" by (auto simp: find_handler_def split: option.splits)
    then obtain newReq impl names where h: "h = stub names newReq impl" "keeps_h impl" using assms(3) by blast
    obtain fx timeout where ct: "call_timeout env (opts svc) (cl_msg s) = (fx, timeout)" by (rule prod.exhaust)
    then have "\<forall>f \<in> set_option fx. keeps_f f"
      using timeout_keeps(1) by (auto simp: call_timeout_def mayConvert2FullLinkTimeout_def mayConvert2NormalTimeout_def Let_def split: if_splits)
    then have "fw (fst (h ctx (filterFunc env (opts svc) buf fx) s)) = fw s" for ctx
      unfolding h(1) using h(2) assms(2) by (intro stub_keeps) blast+
    moreover obtain s1 r where "h \<lparr>ctx_timeout = (if timeout > 0 then Some timeout else None)\<rparr> (filterFunc env (opts svc) buf fx) s = (s1, r)"
      by (rule prod.exhaust)
    ultimately show ?thesis
      using Some ct assms(1) by (auto simp: svc_handle_def Let_def split: option.split err_val.split prod.split) (metis fst_conv)+
  qed
qed

text \<open>Whether overload control admits a request, and whether the handler then panics.\<close>

definition admitted :: "('b, 'c, 'w) service \<Rightarrow> ('b, 'c, 'w) call \<Rightarrow> bool" where
  "admitted svc s \<longleftrightarrow> (case so_OverloadCtrl (opts svc) of
     None \<Rightarrow> False
   | Some acquire \<Rightarrow> snd (acquire (case remoteAddr (cl_msg s) of None \<Rightarrow> [] | Some (_, a) \<Rightarrow> a) (cl_user s)) = None)"

definition after_acquire :: "('b, 'c, 'w) service \<Rightarrow> ('b, 'c, 'w) call \<Rightarrow> ('b, 'c, 'w) call" where
  "after_acquire svc s = (case so_OverloadCtrl (opts svc) of
     None \<Rightarrow> s
   | Some acquire \<Rightarrow> s\<lparr>cl_user := fst (acquire (case remoteAddr (cl_msg s) of None \<Rightarrow> [] | Some (_, a) \<Rightarrow> a) (cl_user s))\<rparr>)"

lemma on_response_fw: "fw (on_response opt e s) = (case so_OverloadCtrl opt of None \<Rightarrow> fw s | Some _ \<Rightarrow> (fst (fw s) @ [e], snd (fw s)))"
  by (simp add: on_response_def fw_def split: option.split)

lemma handle_and_encode_fw:
  assumes "user_keeps_fw env svc"
  shows "\<exists>e. fw (fst (handle_and_encode env svc cd buf s)) =
    (if so_OverloadCtrl (opts svc) \<noteq> None \<and> snd (svc_handle env svc buf s) \<noteq> None then (cl_tokens s @ [e], cl_active s) else fw s)"
proof -
  obtain s' r where h: "svc_handle env svc buf s = (s', r)" by (rule prod.exhaust)
  have "fw s' = fw s" using assms h unfolding user_keeps_fw_def by (metis fst_conv)
  then show ?thesis
    using h by (cases r; cases "so_OverloadCtrl (opts svc)")
      (auto simp: handle_and_encode_def on_response_fw fst_map_prod fw_def [of s] split: option.splits)
qed


subsection \<open>Errors of handlers\<close>


text \<open>A method that answers with the error variable \<open>errs.ErrServerTimeout\<close>.\<close>

definition answers_timeout :: "('b, 'c, 'w) ServerHandleFunc \<Rightarrow> bool" where
  "answers_timeout impl \<longleftrightarrow> (\<forall>q s. impl q s = (s, Some (None, Some ErrServerTimeout)))"

lemma run_app_timeout:
  assumes "answers_timeout impl" "so_Filters (opts svc) = []" "so_Timeout (opts svc) = 0" "\<not> so_DisableRequestTimeout (opts svc)"
    and "2 < length (cl_errs s)" "is_trpc (cl_errs s ! 2)"
  shows "requestTimeout (cl_msg s) \<le> 0 \<Longrightarrow> \<exists>s'. run_app env svc impl req s = (s', Some (None, Some ErrServerTimeout)) \<and> cl_errs s' = cl_errs s"
    and "\<lbrakk>requestTimeout (cl_msg s) > 0; e_Type (cl_errs s ! 2) = ErrorTypeFramework; e_Code (cl_errs s ! 2) = RetServerTimeout (env_cc env);
      RetServerTimeout (env_cc env) \<noteq> RetClientTimeout (env_cc env)\<rbrakk>
     \<Longrightarrow> \<exists>s'. run_app env svc impl req s = (s', Some (None, Some ErrServerTimeout))
        \<and> cl_errs s' = set_code (RetServerFullLinkTimeout (env_cc env)) 2 (cl_errs s) \<and> cl_preUnmarshal s' = cl_preUnmarshal s"
proof -
  have i: "impl q s = (s, Some (None, Some ErrServerTimeout))" for q s using assms(1) unfolding answers_timeout_def by blast
  have b: "base_func ''HandleFunc'' impl q s = (span_end ''HandleFunc'' (span_start ''HandleFunc'' s), Some (None, Some ErrServerTimeout))" for q s
    by (simp add: base_func_def i)
  have k: "cl_errs (span_start n s) = cl_errs s" "cl_errs (span_end n s) = cl_errs s" "cl_preUnmarshal (span_start n s) = cl_preUnmarshal s"
    "cl_preUnmarshal (span_end n s) = cl_preUnmarshal s" for n and s :: "('a, 'b, 'c) call"
    by (simp_all add: span_start_def span_end_def)
  have ke: "cl_errs (starts ns i s) = cl_errs s" "cl_errs (ends ns i s) = cl_errs s" "cl_preUnmarshal (starts ns i s) = cl_preUnmarshal s"
    "cl_preUnmarshal (ends ns i s) = cl_preUnmarshal s" for ns i and s :: "('a, 'b, 'c) call"
    by (cases ns; simp add: k)+
  show "requestTimeout (cl_msg s) \<le> 0 \<Longrightarrow> \<exists>s'. run_app env svc impl req s = (s', Some (None, Some ErrServerTimeout)) \<and> cl_errs s' = cl_errs s"
    using assms(2-4) by (simp add: run_app_def call_timeout_def ServerChain_Filter_def chain_nested b k)
  assume "requestTimeout (cl_msg s) > 0" "e_Type (cl_errs s ! 2) = ErrorTypeFramework" "e_Code (cl_errs s ! 2) = RetServerTimeout (env_cc env)"
    "RetServerTimeout (env_cc env) \<noteq> RetClientTimeout (env_cc env)"
  then show "\<exists>s'. run_app env svc impl req s = (s', Some (None, Some ErrServerTimeout))
        \<and> cl_errs s' = set_code (RetServerFullLinkTimeout (env_cc env)) 2 (cl_errs s) \<and> cl_preUnmarshal s' = cl_preUnmarshal s"
    using assms(2-5) by (simp add: run_app_def call_timeout_def ServerChain_Filter_def chain_nested b filter_func_starts_ends
        mayConvert2FullLinkTimeout_def convert_timeout_def ErrServerTimeout_def IsTimeout_def k ke Let_def)
qed

text \<open>C35: The conversion of a timeout error changes the shared error variable. A method that answers
  with \<open>errs.ErrServerTimeout\<close> is answered with that error; but once it has been called by a client whose
  request carries a timeout, the code of the variable is the one for full-link timeouts, and the same
  method sends no response any more, not even to requests without a timeout.\<close>

theorem timeout_error_shared:
  fixes env :: "'b env" and svc :: "('b, 'c, 'w) service"
  assumes svc: "streamHandlers svc rpc = None" "find_handler svc rpc = Some (stub (span_names env (opts svc)) newReq impl)"
      "so_Filters (opts svc) = []" "so_Timeout (opts svc) = 0" "\<not> so_DisableRequestTimeout (opts svc)" "answers_timeout impl"
    and cc: "RetServerTimeout (env_cc env) \<noteq> RetClientTimeout (env_cc env)" "RetServerTimeout (env_cc env) \<noteq> RetServerFullLinkTimeout (env_cc env)"
    and s: "cl_preUnmarshal s = None" "cl_errs s = err_vars (env_rc env) (env_cc env)"
    and m: "serverRPCName m1 = rpc" "requestTimeout m1 > 0" "serverRPCName m2 = rpc" "requestTimeout m2 = 0"
      "decompressAndUnmarshal env (opts svc) m1 buf1 (Some newReq) = Inr (Some req1)"
      "decompressAndUnmarshal env (opts svc) m2 buf2 (Some newReq) = Inr (Some req2)"
  shows "snd (svc_handle env svc buf2 (s\<lparr>cl_msg := m2\<rparr>)) = Some (None, Some ErrServerTimeout)
    \<and> snd (svc_handle env svc buf2 ((fst (svc_handle env svc buf1 (s\<lparr>cl_msg := m1\<rparr>)))\<lparr>cl_msg := m2\<rparr>)) = Some (None, Some ErrServerNoResponse)"
proof -
  let ?h = "err_vars (env_rc env) (env_cc env)"
  have g: "2 < length ?h" "is_trpc (?h ! 2)" "e_Type (?h ! 2) = ErrorTypeFramework" "e_Code (?h ! 2) = RetServerTimeout (env_cc env)"
    by (simp_all add: err_vars_def is_trpc_def NewFrameError_def)
  note app = svc(6,3,4,5)
  obtain s2 where r2: "run_app env svc impl req2 (s\<lparr>cl_msg := m2\<rparr>) = (s2, Some (None, Some ErrServerTimeout))" "cl_errs s2 = ?h"
    using run_app_timeout(1) [OF app, of "s\<lparr>cl_msg := m2\<rparr>"] g s(2) m(4) by auto
  obtain s1 where r1: "run_app env svc impl req1 (s\<lparr>cl_msg := m1\<rparr>) = (s1, Some (None, Some ErrServerTimeout))"
    "cl_errs s1 = set_code (RetServerFullLinkTimeout (env_cc env)) 2 ?h" "cl_preUnmarshal s1 = None"
    using run_app_timeout(2) [OF app, of "s\<lparr>cl_msg := m1\<rparr>" env] g s m(2) cc(1) by auto
  have g': "2 < length (cl_errs s1)" "is_trpc (cl_errs s1 ! 2)" "e_Type (cl_errs s1 ! 2) = ErrorTypeFramework"
    "e_Code (cl_errs s1 ! 2) = RetServerFullLinkTimeout (env_cc env)"
    using g r1(2) by (simp_all add: set_code_def)
  obtain s3 where r3: "run_app env svc impl req2 (s1\<lparr>cl_msg := m2\<rparr>) = (s3, Some (None, Some ErrServerTimeout))" "cl_errs s3 = cl_errs s1"
    using run_app_timeout(1) [OF app, of "s1\<lparr>cl_msg := m2\<rparr>"] g' m(4) by auto
  have f1: "fst (svc_handle env svc buf1 (s\<lparr>cl_msg := m1\<rparr>)) = s1"
    using svc_handle_stub [of svc "s\<lparr>cl_msg := m1\<rparr>" env newReq impl buf1 req1] svc(1,2) s(1) m r1(1) by (simp add: ErrServerTimeout_def)
  show ?thesis unfolding f1
    using svc_handle_stub [of svc "s\<lparr>cl_msg := m2\<rparr>" env newReq impl buf2 req2] svc_handle_stub [of svc "s1\<lparr>cl_msg := m2\<rparr>" env newReq impl buf2 req2]
      svc(1,2) s(1) m r2 r3 r1(3) g g' cc(2) by (simp add: ErrServerTimeout_def)
qed

subsection \<open>Registration\<close>

lemma reg_methods_ok:
  assumes "reg_methods ms bs svc = (svc', Inr bs')"
  shows "handlers svc' = handlers svc ++ map_of (map (\<lambda>m. (mt_Name m, mt_Func m)) ms) \<and> distinct (map mt_Name ms)
    \<and> (\<forall>m \<in> set ms. handlers svc (mt_Name m) = None) \<and> streamHandlers svc' = streamHandlers svc"
  using assms
proof (induction ms bs svc rule: reg_methods.induct)
  case (2 m ms bs svc)
  let ?svc = "svc\<lparr>handlers := (handlers svc)(mt_Name m \<mapsto> mt_Func m)\<rparr>"
  from 2(2) have n: "handlers svc (mt_Name m) = None" by (auto split: if_splits)
  with 2(2) have "reg_methods ms (bs @ mt_Bindings m) ?svc = (svc', Inr bs')" by simp
  with 2(1) n have ih: "handlers svc' = handlers ?svc ++ map_of (map (\<lambda>m. (mt_Name m, mt_Func m)) ms)" "distinct (map mt_Name ms)"
    "\<forall>m' \<in> set ms. handlers ?svc (mt_Name m') = None" "streamHandlers svc' = streamHandlers svc"
    by (simp_all del: fun_upd_apply)
  have notin: "mt_Name m \<notin> mt_Name ` set ms" using ih(3) by force
  then have "map_of (map (\<lambda>m. (mt_Name m, mt_Func m)) ms) (mt_Name m) = None" by (force simp: map_of_eq_None_iff)
  with ih n notin show ?case by (auto simp: map_add_def fun_eq_iff split: option.split) (metis fun_upd_other option.distinct(1) fun_upd_same)
qed simp

lemma reg_methods_keeps: "handlers svc n = Some h \<Longrightarrow> handlers (fst (reg_methods ms bs svc)) n = Some h"
proof (induction ms bs svc rule: reg_methods.induct)
  case (2 m ms bs svc)
  then show ?case by (cases "n = mt_Name m") auto
qed simp

lemma reg_streams_keeps: "handlers (fst (reg_streams ds svc)) = handlers svc"
  by (induction ds svc rule: reg_streams.induct) auto

text \<open>Registration never replaces a handler, and what it accepts is dispatched. Whatever
  \<open>Register\<close> returns, every method registered before keeps its handler; if it succeeds, its methods have
  different names, none was registered before, and each is now dispatched to its own function.\<close>

theorem register_dispatch:
  assumes "svc_Register implements addBindings desc svc = (svc', err)"
  shows "(\<forall>n h. handlers svc n = Some h \<longrightarrow> handlers svc' n = Some h)
    \<and> (err = None \<longrightarrow> distinct (map mt_Name (ds_Methods desc))
        \<and> (\<forall>m \<in> set (ds_Methods desc). handlers svc (mt_Name m) = None \<and> find_handler svc' (mt_Name m) = Some (mt_Func m)))"
proof -
  obtain svc1 e1 where i: "(case ds_StreamHandle desc of None \<Rightarrow> (svc, None)
      | Some (f, e) \<Rightarrow> (svc\<lparr>opts := (opts svc)\<lparr>so_StreamHandle := Some f\<rparr>\<rparr>, e)) = (svc1, e1)" by (rule prod.exhaust)
  then have h1: "handlers svc1 = handlers svc" by (auto split: option.splits)
  obtain svc2 r where m: "reg_methods (ds_Methods desc) [] svc1 = (svc2, r)" by (rule prod.exhaust)
  obtain svc3 t where st: "reg_streams (ds_Streams desc) svc2 = (svc3, t)" by (rule prod.exhaust)
  have h3: "handlers svc3 = handlers svc2" using reg_streams_keeps [of "ds_Streams desc" svc2] st by simp
  have keep: "handlers svc n = Some h \<Longrightarrow> handlers svc2 n = Some h" for n h
    using reg_methods_keeps [of svc1 n h "ds_Methods desc" "[]"] m h1 by simp
  have cases: "svc' \<in> {svc1, svc2, svc3} \<and> (err = None \<longrightarrow> svc' = svc3 \<and> (\<exists>bs. r = Inr bs))"
    using assms i m st by (auto simp: svc_Register_def split: option.splits sum.splits if_splits)
  have "distinct (map mt_Name (ds_Methods desc))"
    "\<forall>m \<in> set (ds_Methods desc). handlers svc (mt_Name m) = None \<and> find_handler svc3 (mt_Name m) = Some (mt_Func m)" if "r = Inr bs" for bs
  proof -
    have r: "handlers svc2 = handlers svc ++ map_of (map (\<lambda>m. (mt_Name m, mt_Func m)) (ds_Methods desc))"
      "distinct (map mt_Name (ds_Methods desc))" "\<forall>m \<in> set (ds_Methods desc). handlers svc (mt_Name m) = None"
      using reg_methods_ok [of "ds_Methods desc" "[]" svc1 svc2 bs] m that h1 by auto
    have "map_of (map (\<lambda>m. (mt_Name m, mt_Func m)) (ds_Methods desc)) (mt_Name m) = Some (mt_Func m)" if "m \<in> set (ds_Methods desc)" for m
      using r(2) that by (intro map_of_is_SomeI) (auto simp: comp_def)
    then show "distinct (map mt_Name (ds_Methods desc))"
      "\<forall>m \<in> set (ds_Methods desc). handlers svc (mt_Name m) = None \<and> find_handler svc3 (mt_Name m) = Some (mt_Func m)"
      using r h3 by (simp_all add: find_handler_def)
  qed
  with cases keep h1 h3 show ?thesis by auto
qed

subsection \<open>Examples\<close>

definition plain_codec :: "unit Codec" where
  "plain_codec = \<lparr>cd_Encode = (\<lambda>c m b. (c, m, Ok b)), cd_Decode = (\<lambda>c m b. (c, m, Ok b))\<rparr>"

definition tiny_env :: "noop_body env" where
  "tiny_env = \<lparr>env_rc = sample_ret, env_cc = sample_codes, env_ser = [0 \<mapsto> NoopSerialization], env_cmp = Map.empty,
     env_rpcz = False, env_typeOf = (\<lambda>_. 0), env_SendOnly = 1\<rparr>"

definition tiny_svc :: "(noop_body, unit, nat) ServerHandleFunc \<Rightarrow> (noop_body, unit, nat) service" where
  "tiny_svc impl = \<lparr>opts = \<lparr>so_Namespace = [], so_EnvName = [], so_SetName = [], so_ServiceName = ''s'', so_Timeout = 0,
       so_DisableRequestTimeout = False, so_CurrentSerializationType = - 1, so_CurrentCompressType = - 1,
       so_Codec = Some plain_codec, so_Filters = [], so_FilterNames = [],
       so_OverloadCtrl = Some (\<lambda>_ n. (n + 1, if n < 2 then None else Some ''busy'')), so_StreamHandle = None,
       so_CloseWaitTime = 0, so_MaxCloseWaitTime = 0\<rparr>,
     handlers = [''/a/b'' \<mapsto> stub None (BodyPtr (Some [])) impl], streamHandlers = Map.empty, streamInfo = Map.empty\<rparr>"

definition tiny_call :: "(noop_body, unit, nat) call" where
  "tiny_call = \<lparr>spans = [], cl_msg = resetDefault\<lparr>serverRPCName := ''/a/b''\<rparr>, cl_errs = err_vars sample_ret sample_codes, cl_codec = (),
     cl_preDecode = None, cl_preUnmarshal = None, cl_tokens = [], cl_active = 0, cl_user = 0\<rparr>"

lemma tiny_dispatch:
  "streamHandlers (tiny_svc impl) rpc = None" "so_Filters (opts (tiny_svc impl)) = []" "so_Timeout (opts (tiny_svc impl)) = 0"
  "\<not> so_DisableRequestTimeout (opts (tiny_svc impl))"
  "find_handler (tiny_svc impl) ''/a/b'' = Some (stub (span_names tiny_env (opts (tiny_svc impl))) (BodyPtr (Some [])) impl)"
  "serverRPCName (cl_msg tiny_call) = ''/a/b''"
  by (simp_all add: tiny_svc_def find_handler_def span_names_def tiny_env_def tiny_call_def)

lemma tiny_body:
  assumes "compressType m = 0" "serializationType m = 0"
  shows "decompressAndUnmarshal tiny_env (opts (tiny_svc impl)) m [7] (Some (BodyPtr (Some []))) = Inr (Some (BodyPtr (Some [7])))"
  using assms by (simp add: decompressAndUnmarshal_def tiny_env_def tiny_svc_def IsValidCompressType_def IsValidSerializationType_def
      SerializationTypePB_def CompressTypeNoop_def codec_Decompress_def codec_Unmarshal_def GetSerializer_def NoopSerialization_def
      SerializationTypeUnsupported_def Let_def)

definition echo :: "(noop_body, unit, nat) ServerHandleFunc" where
  "echo q s = (s, Some (snd q, None))"

lemma tiny_keeps: "user_keeps_fw tiny_env (tiny_svc echo)"
  by (rule generated_keeps_fw)
    (auto simp: tiny_svc_def echo_def keeps_h_def split: if_splits intro!: exI [of _ "BodyPtr (Some [])"] exI [of _ echo])



theorem timeout_error_shared_witness:
  "\<exists>m1 m2. snd (svc_handle tiny_env (tiny_svc (\<lambda>q s. (s, Some (None, Some ErrServerTimeout)))) [7]
     ((fst (svc_handle tiny_env (tiny_svc (\<lambda>q s. (s, Some (None, Some ErrServerTimeout)))) [7] (tiny_call\<lparr>cl_msg := m1\<rparr>)))\<lparr>cl_msg := m2\<rparr>))
     = Some (None, Some ErrServerNoResponse)"
proof -
  let ?m = "resetDefault\<lparr>serverRPCName := ''/a/b''\<rparr>" and ?impl = "\<lambda>q s. (s, Some (None, Some ErrServerTimeout))"
  have "snd (svc_handle tiny_env (tiny_svc ?impl) [7] (tiny_call\<lparr>cl_msg := ?m\<rparr>)) = Some (None, Some ErrServerTimeout)
    \<and> snd (svc_handle tiny_env (tiny_svc ?impl) [7]
     ((fst (svc_handle tiny_env (tiny_svc ?impl) [7] (tiny_call\<lparr>cl_msg := ?m\<lparr>requestTimeout := 5\<rparr>\<rparr>)))\<lparr>cl_msg := ?m\<rparr>))
     = Some (None, Some ErrServerNoResponse)"
  proof (rule timeout_error_shared [OF tiny_dispatch(1) tiny_dispatch(5) tiny_dispatch(2-4)])
    show "decompressAndUnmarshal tiny_env (opts (tiny_svc ?impl)) ?m [7] (Some (BodyPtr (Some []))) = Inr (Some (BodyPtr (Some [7])))"
      by (rule tiny_body) (simp_all add: resetDefault_def)
    show "decompressAndUnmarshal tiny_env (opts (tiny_svc ?impl)) (?m\<lparr>requestTimeout := 5\<rparr>) [7] (Some (BodyPtr (Some []))) = Inr (Some (BodyPtr (Some [7])))"
      by (rule tiny_body) (simp_all add: resetDefault_def)
  qed (simp_all add: answers_timeout_def tiny_env_def sample_codes_def tiny_call_def resetDefault_def)
  then show ?thesis by blast
qed

theorem register_dispatch_witness:
  "handlers (fst (svc_Register True (\<lambda>_. None) \<lparr>ds_Methods = [\<lparr>mt_Name = ''/a/c'', mt_Func = stub None (BodyPtr None) echo, mt_Bindings = []\<rparr>],
      ds_Streams = [], ds_StreamHandle = None\<rparr> (tiny_svc echo))) ''/a/b'' = Some (stub None (BodyPtr (Some [])) echo)"
  using register_dispatch [OF prod.collapse [symmetric], where implements = True and addBindings = "\<lambda>_. None" and svc = "tiny_svc echo"
      and desc = "\<lparr>ds_Methods = [\<lparr>mt_Name = ''/a/c'', mt_Func = stub None (BodyPtr None) echo, mt_Bindings = []\<rparr>], ds_Streams = [], ds_StreamHandle = None\<rparr>"]
  by (simp add: tiny_svc_def)

end
