(* ===== verification/Client_Call.thy ===== *)
theory Client_Call
  imports Naming Server_Service
begin

text \<open>
  A unary call on the client, \<open>client/client.go\<close> with the parts of \<open>client/options.go\<close> it works on:
  parsing the target, updating the message by the options, the deadline of the call, the filter chain
  with the selector filter, and \<open>callFunc\<close>, which serializes, compresses, encodes, hands the frame to
  the transport and undoes all of it for the response. The options of a call reach filters and
  \<open>callFunc\<close> through the context and are an argument here; the filters themselves are an argument of
  \<open>Invoke\<close>. Transport, selector, overload control and the address functions of \<open>net\<close> are functions on the
  state of the call or its surroundings \<open>'w\<close>. Time stands still while a message is prepared.
\<close>

record ('b, 'c, 'w) ccall = span_state +
  cc_msg :: msg
  cc_errs :: err_store
  cc_codec :: 'c
  cc_rsp :: "'b option"
  cc_tokens :: "err_val option list"
  cc_reports :: "(node \<times> err_val option) list"
  cc_user :: 'w

datatype ctx_err = CtxOk | CtxCanceled | CtxDeadlineExceeded

type_synonym ('b, 'c, 'w) transport = "bytes \<Rightarrow> ('b, 'c, 'w) ccall \<Rightarrow> ('b, 'c, 'w) ccall \<times> (err_val, bytes) res"
type_synonym 'w sel = "string \<Rightarrow> 'w \<Rightarrow> 'w \<times> (string + node)"

record ('b, 'c, 'w) CallOptions =
  co_ServiceName :: string
  co_CallerServiceName :: string
  co_CalleeMethod :: string
  co_Timeout :: int
  co_Target :: string
  co_endpoint :: string
  co_OverloadCtrl :: "(string \<Rightarrow> 'w \<Rightarrow> 'w \<times> err_val option) option"
  co_Network :: string
  co_CallType :: int
  co_Transport :: "('b, 'c, 'w) transport"
  co_Selector :: "'w sel option"
  co_DisableServiceRouter :: bool
  co_shouldErrReport :: "err_val option \<Rightarrow> bool"
  co_CurrentSerializationType :: int
  co_CurrentCompressType :: int
  co_SerializationType :: int
  co_CompressType :: int
  co_Codec :: "'c Codec option"
  co_MetaData :: metadata
  co_ReqHead :: head_any
  co_RspHead :: head_any
  co_fixTimeout :: bool
  co_attachment :: "Attachment option"
  co_DestinationSetName :: string
  co_FilterNames :: "string list"
  co_DisableFilter :: bool
  co_selectorFilterPosFixed :: bool

type_synonym ('b, 'c, 'w) ClientFilter =
  "(('b, 'c, 'w) ccall, ('b, 'c, 'w) CallOptions \<times> 'b option, err_val option) Filter"

text \<open>The surroundings of a client: body formats and codes, the registered codecs, transports and
  selectors, the state of the context, and what is used of the package \<open>net\<close>.\<close>

record ('b, 'c, 'w) cenv =
  ce_cc :: call_codes
  ce_ser :: "'b serializers"
  ce_cmp :: compressors
  ce_rpcz :: bool
  ce_codecs :: "string \<Rightarrow> 'c Codec option"
  ce_transports :: "string \<Rightarrow> ('b, 'c, 'w) transport option"
  ce_selectors :: "string \<Rightarrow> 'w sel option"
  ce_ctxErr :: "'w \<Rightarrow> ctx_err"
  ce_ctxErrText :: string
  ce_hasIP :: "string \<Rightarrow> bool"
  ce_resolve :: "string \<Rightarrow> string \<Rightarrow> net_addr"
  ce_parseAddr :: "go_any \<Rightarrow> string \<Rightarrow> string \<Rightarrow> net_addr"
  ce_cost :: string

definition cl_newFrameErr :: "u32 \<Rightarrow> string \<Rightarrow> ('b, 'c, 'w) ccall \<Rightarrow> ('b, 'c, 'w) ccall \<times> err_val" where
  "cl_newFrameErr code text s =
     (let (h, e) = alloc_err (NewFrameError code text) (cc_errs s) in (s\<lparr>cc_errs := h\<rparr>, e))"

definition cl_fail :: "u32 \<Rightarrow> string \<Rightarrow> ('b, 'c, 'w) ccall \<Rightarrow> ('b, 'c, 'w) ccall \<times> err_val option option" where
  "cl_fail code text s = map_prod id (\<lambda>e. Some (Some e)) (cl_newFrameErr code text s)"

text \<open>\<open>opts.fixTimeout\<close>: the identity, or \<open>mayConvert2FullLinkTimeout\<close> of the client.\<close>

definition fixTimeout :: "call_codes \<Rightarrow> bool \<Rightarrow> err_val option \<Rightarrow> ('b, 'c, 'w) ccall \<Rightarrow> ('b, 'c, 'w) ccall \<times> err_val option option" where
  "fixTimeout cc fullLink err s =
     (if \<not> fullLink then (s, Some err)
      else (case err of
              Some ENilPtr \<Rightarrow> (s, None)
            | Some (EPtr a) \<Rightarrow>
                (if IsTimeout cc ErrorTypeFramework (deref (cc_errs s) (EPtr a))
                 then (s\<lparr>cc_errs := set_code (RetClientFullLinkTimeout cc) a (cc_errs s)\<rparr>, Some err) else (s, Some err))
            | _ \<Rightarrow> (s, Some err)))"

subsection \<open>Request and response bodies\<close>

definition serializeAndCompress :: "('b, 'c, 'w) cenv \<Rightarrow> ('b, 'c, 'w) CallOptions \<Rightarrow> msg \<Rightarrow> 'b option \<Rightarrow> string + bytes" where
  "serializeAndCompress ce co m reqBody =
     (let st = (if IsValidSerializationType (co_CurrentSerializationType co) then co_CurrentSerializationType co
                else serializationType m) in
      case (if IsValidSerializationType st then codec_Marshal (ce_ser ce) st reqBody else Inr []) of
        Inl t \<Rightarrow> Inl (''client codec Marshal: '' @ t)
      | Inr buf \<Rightarrow>
          (let ct = (if IsValidCompressType (co_CurrentCompressType co) then co_CurrentCompressType co else compressType m) in
           case (if IsValidCompressType ct \<and> ct \<noteq> CompressTypeNoop then codec_Compress (ce_cmp ce) ct buf else Inr buf) of
             Inl t \<Rightarrow> Inl (''client codec Compress: '' @ t)
           | Inr z \<Rightarrow> Inr z))"

definition prepareRequestBuf :: "('b, 'c, 'w) cenv \<Rightarrow> ('b, 'c, 'w) CallOptions \<Rightarrow> 'c Codec \<Rightarrow> 'b option \<Rightarrow> ('b, 'c, 'w) ccall
    \<Rightarrow> ('b, 'c, 'w) ccall \<times> (err_val, bytes) res" where
  "prepareRequestBuf ce co cd reqBody s =
     (case serializeAndCompress ce co (cc_msg s) reqBody of
        Inl t \<Rightarrow> map_prod id Err (cl_newFrameErr (RetClientEncodeFail (ce_cc ce)) t s)
      | Inr body \<Rightarrow>
          (case cd_Encode cd (cc_codec s) (cc_msg s) body of
             (c, m, Ok buf) \<Rightarrow> (s\<lparr>cc_codec := c, cc_msg := m\<rparr>, Ok buf)
           | (c, m, Err t) \<Rightarrow> map_prod id Err
               (cl_newFrameErr (RetClientEncodeFail (ce_cc ce)) (''client codec Encode: '' @ t) (s\<lparr>cc_codec := c, cc_msg := m\<rparr>))
           | (c, m, Panic) \<Rightarrow> (s\<lparr>cc_codec := c, cc_msg := m\<rparr>, Panic)))"

text \<open>The error that the response carries, as a value of the store.\<close>

definition own_err :: "go_error \<Rightarrow> ('b, 'c, 'w) ccall \<Rightarrow> ('b, 'c, 'w) ccall \<times> err_val" where
  "own_err e s =
     (case e of
        NilError \<Rightarrow> (s, ENilPtr)
      | OtherError t w \<Rightarrow> (s, EOther t w)
      | _ \<Rightarrow> (let (h, v) = alloc_err e (cc_errs s) in (s\<lparr>cc_errs := h\<rparr>, v)))"

definition processResponseBuf :: "('b, 'c, 'w) cenv \<Rightarrow> ('b, 'c, 'w) CallOptions \<Rightarrow> bytes \<Rightarrow> ('b, 'c, 'w) ccall
    \<Rightarrow> ('b, 'c, 'w) ccall \<times> err_val option option" where
  "processResponseBuf ce co rspBodyBuf s =
     (let m = cc_msg s in
      case clientRspErr m of
        Some e \<Rightarrow> map_prod id (\<lambda>v. Some (Some v)) (own_err e s)
      | None \<Rightarrow>
          if rspBodyBuf = [] then (s, Some None)
          else
            (let ct = (if IsValidCompressType (co_CurrentCompressType co) then co_CurrentCompressType co else compressType m) in
             case (if IsValidCompressType ct \<and> ct \<noteq> CompressTypeNoop then codec_Decompress (ce_cmp ce) ct rspBodyBuf else Inr rspBodyBuf) of
               Inl t \<Rightarrow> cl_fail (RetClientDecodeFail (ce_cc ce)) (''client codec Decompress: '' @ t) s
             | Inr buf \<Rightarrow>
                 (let st = (if IsValidSerializationType (co_CurrentSerializationType co) then co_CurrentSerializationType co
                            else serializationType m) in
                  case (if IsValidSerializationType st then codec_Unmarshal (ce_ser ce) st buf (cc_rsp s) else Inr (cc_rsp s)) of
                    Inl t \<Rightarrow> cl_fail (RetClientDecodeFail (ce_cc ce)) (''client codec Unmarshal: '' @ t) s
                  | Inr body \<Rightarrow> (s\<lparr>cc_rsp := body\<rparr>, Some None))))"

subsection \<open>callFunc\<close>

definition callBackend :: "('b, 'c, 'w) cenv \<Rightarrow> ('b, 'c, 'w) CallOptions \<Rightarrow> 'b option \<Rightarrow> ('b, 'c, 'w) ccall
    \<Rightarrow> ('b, 'c, 'w) ccall \<times> err_val option option" where
  "callBackend ce co reqBody s =
     (case co_Codec co of
        None \<Rightarrow> cl_fail (RetClientEncodeFail (ce_cc ce)) ''client: codec empty'' s
      | Some cd \<Rightarrow>
          (case prepareRequestBuf ce co cd reqBody s of
             (s, Err e) \<Rightarrow> (s, Some (Some e))
           | (s, Panic) \<Rightarrow> (s, None)
           | (s, Ok reqBuf) \<Rightarrow>
               (case co_Transport co reqBuf s of
                  (s, Err e) \<Rightarrow> (s, Some (if e = ErrClientNoResponse then None else Some e))
                | (s, Panic) \<Rightarrow> (s, None)
                | (s, Ok rspBuf) \<Rightarrow>
                    (case cd_Decode cd (cc_codec s) (cc_msg s) rspBuf of
                       (c, m, Ok body) \<Rightarrow> processResponseBuf ce co body (s\<lparr>cc_codec := c, cc_msg := m\<rparr>)
                     | (c, m, Err t) \<Rightarrow>
                         cl_fail (RetClientDecodeFail (ce_cc ce)) (''client codec Decode: '' @ t) (s\<lparr>cc_codec := c, cc_msg := m\<rparr>)
                     | (c, m, Panic) \<Rightarrow> (s\<lparr>cc_codec := c, cc_msg := m\<rparr>, None)))))"

text \<open>\<open>callFunc\<close>. The variable \<open>err\<close> that the deferred \<open>token.OnResponse(ctx, err)\<close> reads is the one
  declared with the token, which stays nil.\<close>

definition callFunc :: "('b, 'c, 'w) cenv \<Rightarrow> (('b, 'c, 'w) ccall, ('b, 'c, 'w) CallOptions \<times> 'b option, err_val option) HandleFunc" where
  "callFunc ce q s =
     (let (co, reqBody) = q;
          body = (\<lambda>s. case callBackend ce co reqBody s of
                    (s', None) \<Rightarrow> (s', None)
                  | (s', Some err) \<Rightarrow> fixTimeout (ce_cc ce) (co_fixTimeout co) err s')
      in case (co_OverloadCtrl co, remoteAddr (cc_msg s)) of
           (Some acquire, Some (_, addr)) \<Rightarrow>
             (case acquire addr (cc_user s) of
                (w, Some e) \<Rightarrow> (s\<lparr>cc_user := w\<rparr>, Some (Some e))
              | (w, None) \<Rightarrow> map_prod (\<lambda>s'. s'\<lparr>cc_tokens := cc_tokens s' @ [None]\<rparr>) id (body (s\<lparr>cc_user := w\<rparr>)))
         | _ \<Rightarrow> body s)"

subsection \<open>The selector filter\<close>

definition findFirstNonEmpty :: "string list \<Rightarrow> string" where
  "findFirstNonEmpty ss = (case List.find (\<lambda>s. s \<noteq> []) ss of Some s \<Rightarrow> s | None \<Rightarrow> [])"

definition WithProtocol :: "('b, 'c, 'w) cenv \<Rightarrow> string \<Rightarrow> ('b, 'c, 'w) CallOptions \<Rightarrow> ('b, 'c, 'w) CallOptions" where
  "WithProtocol ce p co =
     (if p = [] then co
      else (case ce_transports ce p of
              None \<Rightarrow> co\<lparr>co_Codec := ce_codecs ce p\<rparr>
            | Some t \<Rightarrow> co\<lparr>co_Codec := ce_codecs ce p, co_Transport := t\<rparr>))"

definition LoadNodeConfig :: "('b, 'c, 'w) cenv \<Rightarrow> node \<Rightarrow> ('b, 'c, 'w) CallOptions \<Rightarrow> ('b, 'c, 'w) CallOptions" where
  "LoadNodeConfig ce n co =
     (let co = (if Network n \<noteq> [] then co\<lparr>co_Network := Network n\<rparr> else co)
      in if Protocol n \<noteq> [] then WithProtocol ce (Protocol n) co else co)"

text \<open>\<open>getNode\<close>; a missing selector is a nil interface, on which the call panics.\<close>

definition getNode :: "('b, 'c, 'w) cenv \<Rightarrow> ('b, 'c, 'w) CallOptions \<Rightarrow> ('b, 'c, 'w) ccall
    \<Rightarrow> ('b, 'c, 'w) ccall \<times> (err_val, node) res" where
  "getNode ce co s =
     (case co_Selector co of
        None \<Rightarrow> (s, Panic)
      | Some select \<Rightarrow>
          (case select (co_endpoint co) (cc_user s) of
             (w, Inl t) \<Rightarrow> map_prod id Err (cl_newFrameErr (RetClientRouteErr (ce_cc ce)) (''client Select: '' @ t) (s\<lparr>cc_user := w\<rparr>))
           | (w, Inr n) \<Rightarrow>
               if Address n = [] then map_prod id Err
                 (cl_newFrameErr (RetClientRouteErr (ce_cc ce)) ''client Select: node address empty'' (s\<lparr>cc_user := w\<rparr>))
               else (s\<lparr>cc_user := w\<rparr>, Ok n)))"

definition selectNode :: "('b, 'c, 'w) cenv \<Rightarrow> ('b, 'c, 'w) CallOptions \<Rightarrow> ('b, 'c, 'w) ccall
    \<Rightarrow> ('b, 'c, 'w) ccall \<times> (err_val, ('b, 'c, 'w) CallOptions \<times> node) res" where
  "selectNode ce co s =
     (case getNode ce co s of
        (s, Panic) \<Rightarrow> (s, Panic)
      | (s, Err e) \<Rightarrow>
          ((if co_DestinationSetName co \<noteq> [] then s\<lparr>cc_msg := (cc_msg s)\<lparr>calleeSetName := co_DestinationSetName co\<rparr>\<rparr> else s), Err e)
      | (s, Ok n) \<Rightarrow>
          (let co' = LoadNodeConfig ce n co;
               m = (cc_msg s)\<lparr>calleeContainerName := ContainerName n, calleeSetName := SetName n\<rparr>;
               m = (if envTransfer m = [] then m\<lparr>envTransfer := EnvKey n\<rparr> else m);
               m = (if co_DisableServiceRouter co then m\<lparr>envTransfer := []\<rparr> else m);
               s = s\<lparr>cc_msg := m\<rparr>
           in case ce_ctxErr ce (cc_user s) of
                CtxCanceled \<Rightarrow> map_prod id Err (cl_newFrameErr (RetClientCanceled (ce_cc ce))
                  (''selector canceled after Select: '' @ ce_ctxErrText ce) s)
              | CtxDeadlineExceeded \<Rightarrow> map_prod id Err (cl_newFrameErr (RetClientTimeout (ce_cc ce))
                  (''selector timeout after Select: '' @ ce_ctxErrText ce) s)
              | CtxOk \<Rightarrow> (s, Ok (co', n))))"

definition ensureMsgRemoteAddr :: "('b, 'c, 'w) cenv \<Rightarrow> string \<Rightarrow> string \<Rightarrow> go_any option \<Rightarrow> msg \<Rightarrow> msg" where
  "ensureMsgRemoteAddr ce network address parseAddr m =
     (if remoteAddr m \<noteq> None then m
      else (case parseAddr of
              Some f \<Rightarrow> m\<lparr>remoteAddr := ce_parseAddr ce f network address\<rparr>
            | None \<Rightarrow>
                if network \<in> {''tcp'', ''tcp4'', ''tcp6'', ''udp'', ''udp4'', ''udp6''} \<and> \<not> ce_hasIP ce address then m
                else m\<lparr>remoteAddr := ce_resolve ce network address\<rparr>))"

definition add_cost :: "string \<Rightarrow> nat \<Rightarrow> err_store \<Rightarrow> err_store" where
  "add_cost cost a h =
     h[a := (case h ! a of TrpcError t c m d w \<Rightarrow> TrpcError t c (m @ '', cost:'' @ cost) d w | e \<Rightarrow> e)]"

text \<open>What the selector is told of the call: connection failures always, other errors if asked to.\<close>

definition report_node :: "('b, 'c, 'w) cenv \<Rightarrow> ('b, 'c, 'w) CallOptions \<Rightarrow> node \<Rightarrow> err_val option \<Rightarrow> ('b, 'c, 'w) ccall
    \<Rightarrow> ('b, 'c, 'w) ccall \<times> err_val option option" where
  "report_node ce co n err s =
     (let other = (\<lambda>s. s\<lparr>cc_reports := cc_reports s @ [(n, if co_shouldErrReport co err then err else None)]\<rparr>) in
      case err of
        Some ENilPtr \<Rightarrow> (s, None)
      | Some (EPtr a) \<Rightarrow>
          (let e = deref (cc_errs s) (EPtr a) in
           if e_Type e = ErrorTypeFramework
              \<and> (e_Code e = RetClientConnectFail (ce_cc ce) \<or> e_Code e = RetClientTimeout (ce_cc ce) \<or> e_Code e = RetClientNetErr (ce_cc ce))
           then (s\<lparr>cc_errs := add_cost (ce_cost ce) a (cc_errs s), cc_reports := cc_reports s @ [(n, err)]\<rparr>, Some err)
           else (other s, Some err))
      | _ \<Rightarrow> (other s, Some err))"

definition selectorFilter :: "('b, 'c, 'w) cenv \<Rightarrow> ('b, 'c, 'w) ClientFilter" where
  "selectorFilter ce q next s =
     (let (co, req) = q in
      case selectNode ce co s of
        (s, Panic) \<Rightarrow> (s, None)
      | (s, Err e) \<Rightarrow> fixTimeout (ce_cc ce) (co_fixTimeout co) (Some e) s
      | (s, Ok (co', n)) \<Rightarrow>
          (let s = s\<lparr>cc_msg := ensureMsgRemoteAddr ce (findFirstNonEmpty [Network n, co_Network co']) (Address n) (ParseAddr n) (cc_msg s)\<rparr>
           in case next (co', req) s of
                (s, None) \<Rightarrow> (s, None)
              | (s, Some err) \<Rightarrow> report_node ce co' n err s))"

subsection \<open>Invoke\<close>

text \<open>\<open>strings.Index\<close>.\<close>

fun str_Index :: "string \<Rightarrow> string \<Rightarrow> nat option" where
  "str_Index s sub =
     (if HasPrefix s sub then Some 0
      else (case s of [] \<Rightarrow> None | _ # s' \<Rightarrow> map_option Suc (str_Index s' sub)))"

declare str_Index.simps [simp del]

definition parseTarget :: "('b, 'c, 'w) cenv \<Rightarrow> ('b, 'c, 'w) CallOptions \<Rightarrow> string + ('b, 'c, 'w) CallOptions" where
  "parseTarget ce co =
     (if co_Target co = [] then Inr co
      else (case str_Index (co_Target co) ''://'' of
              None \<Rightarrow> Inl (''client: target '' @ co_Target co @ '' scheme invalid, format must be selector://endpoint'')
            | Some i \<Rightarrow>
                (case ce_selectors ce (take i (co_Target co)) of
                   None \<Rightarrow> Inl (''client: selector '' @ take i (co_Target co) @ '' not exist'')
                 | Some sel \<Rightarrow>
                     (let ep = drop (i + 3) (co_Target co) in
                      if ep = [] then Inl (''client: target '' @ co_Target co @ '' endpoint empty, format must be selector://endpoint'')
                      else Inr (co\<lparr>co_Selector := Some sel, co_endpoint := ep\<rparr>)))))"

definition setAttachment :: "Attachment \<Rightarrow> msg \<Rightarrow> msg" where
  "setAttachment a m = put_meta ClientAttachmentKey (AttachmentVal a) m"

definition getMetaData :: "('b, 'c, 'w) CallOptions \<Rightarrow> msg \<Rightarrow> metadata" where
  "getMetaData co m = md_merge (clientMetaData m) (co_MetaData co)"

definition client_updateMsg :: "('b, 'c, 'w) CallOptions \<Rightarrow> msg \<Rightarrow> ('b, 'c, 'w) CallOptions \<times> msg" where
  "client_updateMsg co m =
     (let m = (if co_ServiceName co \<noteq> [] then WithCalleeServiceName (co_ServiceName co) m else m);
          co = (if co_endpoint co = [] then co\<lparr>co_endpoint := calleeServiceName m\<rparr> else co);
          m = (if co_CalleeMethod co \<noteq> [] then m\<lparr>calleeMethod := co_CalleeMethod co\<rparr> else m);
          m = (if md_list (co_MetaData co) \<noteq> [] then WithClientMetaData (getMetaData co m) m else m);
          m = (if co_CallerServiceName co \<noteq> [] then WithCallerServiceName (co_CallerServiceName co) m else m);
          m = (if IsValidSerializationType (co_SerializationType co) then m\<lparr>serializationType := co_SerializationType co\<rparr> else m);
          m = (if IsValidCompressType (co_CompressType co) \<and> co_CompressType co \<noteq> CompressTypeNoop
               then m\<lparr>compressType := co_CompressType co\<rparr> else m);
          m = (if co_ReqHead co \<noteq> HeadNil then m\<lparr>clientReqHead := co_ReqHead co\<rparr> else m);
          m = (if co_RspHead co \<noteq> HeadNil then m\<lparr>clientRspHead := co_RspHead co\<rparr> else m);
          m = m\<lparr>callType := co_CallType co\<rparr>;
          m = (case co_attachment co of None \<Rightarrow> m | Some a \<Rightarrow> setAttachment a m)
      in (co, m))"

text \<open>The timeout that the request carries and whether a timeout is that of the full link, from the time
  left in the caller's context.\<close>

definition set_deadline :: "int option \<Rightarrow> ('b, 'c, 'w) CallOptions \<Rightarrow> msg \<Rightarrow> ('b, 'c, 'w) CallOptions \<times> msg" where
  "set_deadline left co m =
     (let left' = (if co_Timeout co > 0 then Some (case left of None \<Rightarrow> co_Timeout co | Some l \<Rightarrow> min l (co_Timeout co)) else left);
          m = (case left' of None \<Rightarrow> m | Some l \<Rightarrow> m\<lparr>requestTimeout := l\<rparr>);
          co = (case left of
                  Some l \<Rightarrow> if co_Timeout co \<le> 0 \<or> l < co_Timeout co then co\<lparr>co_fixTimeout := True\<rparr> else co
                | None \<Rightarrow> co)
      in (co, m))"

definition fixFilters :: "('b, 'c, 'w) cenv \<Rightarrow> ('b, 'c, 'w) CallOptions \<Rightarrow> ('b, 'c, 'w) ClientFilter list
    \<Rightarrow> ('b, 'c, 'w) ClientFilter list \<times> string list" where
  "fixFilters ce co filters =
     (if co_DisableFilter co \<or> filters = [] then ([selectorFilter ce], co_FilterNames co @ [''selector''])
      else if \<not> co_selectorFilterPosFixed co then (filters @ [selectorFilter ce], co_FilterNames co @ [''selector''])
      else (filters, co_FilterNames co))"

definition Invoke :: "('b, 'c, 'w) cenv \<Rightarrow> ('b, 'c, 'w) CallOptions \<Rightarrow> ('b, 'c, 'w) ClientFilter list \<Rightarrow> int option \<Rightarrow> 'b option
    \<Rightarrow> ('b, 'c, 'w) ccall \<Rightarrow> ('b, 'c, 'w) ccall \<times> err_val option option" where
  "Invoke ce co0 filters left reqBody s =
     (case parseTarget ce co0 of
        Inl t \<Rightarrow> cl_fail (RetClientRouteErr (ce_cc ce)) t s
      | Inr co \<Rightarrow>
          (let (co, m) = client_updateMsg co (cc_msg s);
               (co, m) = set_deadline left co m;
               (fs, names) = fixFilters ce co filters
           in ClientChain_Filter (if ce_rpcz ce then Some names else None) fs (callFunc ce) (co, reqBody) (s\<lparr>cc_msg := m\<rparr>)))"

end
