(* ===== verification/Rpc_Call.thy ===== *)
theory Rpc_Call
  imports Client_Call Server_Proofs Codec_Roundtrip
begin

text \<open>
  Client and server together: a unary call through the tRPC codec. The two codecs are put into the
  interface that client and service use, \<open>serveFrame\<close> is what a server connection does with a frame it
  read (\<open>handleSyncWithErrAndContext\<close> of the TCP transport), and \<open>wire\<close> is a transport that hands every
  frame to such a connection. The theorems follow a request from the caller's body to the
  implementation, and the response or the error back.
\<close>

subsection \<open>The codecs as values of the interface\<close>

fun res_text :: "pb_consts \<Rightarrow> (codec_error, 'a) res \<Rightarrow> (string, 'a) res" where
  "res_text pb (Ok a) = Ok a"
| "res_text pb (Err e) = Err (err_text pb e)"
| "res_text pb Panic = Panic"

definition TrpcServerCodec :: "pb_consts \<Rightarrow> stream_pb \<Rightarrow> unary_pb \<Rightarrow> nat \<Rightarrow> init_metas Codec" where
  "TrpcServerCodec pb sp up maxSize = \<lparr>
     cd_Encode = (\<lambda>c m b. case sv_Encode pb sp up maxSize c m b of (c', m', r) \<Rightarrow> (c', m', res_text pb r)),
     cd_Decode = (\<lambda>c m b. case sv_Decode pb sp up c m b of (c', m', r) \<Rightarrow> (c', m', res_text pb r))\<rparr>"

definition TrpcClientCodec :: "pb_consts \<Rightarrow> stream_pb \<Rightarrow> unary_pb \<Rightarrow> nat \<Rightarrow> string \<Rightarrow> ClientCodec Codec" where
  "TrpcClientCodec pb sp up maxSize processName = \<lparr>
     cd_Encode = (\<lambda>c m b. case cl_Encode pb sp up maxSize processName c m b of (c', m', r) \<Rightarrow> (c', m', res_text pb r)),
     cd_Decode = (\<lambda>c m b. case cl_Decode pb sp up m b of (m', r) \<Rightarrow> (c, m', res_text pb r))\<rparr>"

subsection \<open>A connection\<close>

record 'v server_state =
  srv_errs :: err_store
  srv_metas :: init_metas
  srv_tokens :: "err_val option list"
  srv_active :: int
  srv_user :: 'v

datatype served = Respond bytes | NoReply | CloseConn | Crashed

definition new_call :: "net_addr \<Rightarrow> net_addr \<Rightarrow> 'v server_state \<Rightarrow> ('b, init_metas, 'v) call" where
  "new_call lo re w = \<lparr>spans = [], cl_msg = resetDefault\<lparr>localAddr := lo, remoteAddr := re\<rparr>, cl_errs = srv_errs w,
     cl_codec = srv_metas w, cl_preDecode = None, cl_preUnmarshal = None, cl_tokens = srv_tokens w,
     cl_active = srv_active w, cl_user = srv_user w\<rparr>"

definition after_call :: "('b, init_metas, 'v) call \<Rightarrow> 'v server_state" where
  "after_call s = \<lparr>srv_errs = cl_errs s, srv_metas = cl_codec s, srv_tokens = cl_tokens s, srv_active = cl_active s,
     srv_user = cl_user s\<rparr>"

definition serveFrame :: "'b env \<Rightarrow> ('b, init_metas, 'v) service \<Rightarrow> net_addr \<Rightarrow> net_addr \<Rightarrow> bytes \<Rightarrow> 'v server_state
    \<Rightarrow> 'v server_state \<times> served" where
  "serveFrame env svc lo re req w =
     (case svc_Handle env svc req (new_call lo re w) of
        (s, Ok rsp) \<Rightarrow> (after_call s, Respond rsp)
      | (s, Err e) \<Rightarrow> (after_call s, if e = ErrServerNoResponse then NoReply else CloseConn)
      | (s, Panic) \<Rightarrow> (after_call s, Crashed))"

definition wire :: "'b env \<Rightarrow> ('b, init_metas, 'v) service \<Rightarrow> net_addr \<Rightarrow> net_addr \<Rightarrow> err_val
    \<Rightarrow> ('b, ClientCodec, 'v server_state) transport" where
  "wire env svc lo re noAnswer req s =
     (case serveFrame env svc lo re req (cc_user s) of
        (w, Respond rsp) \<Rightarrow> (s\<lparr>cc_user := w\<rparr>, Ok rsp)
      | (w, _) \<Rightarrow> (s\<lparr>cc_user := w\<rparr>, Err noAnswer))"

subsection \<open>The message on the server\<close>

lemma setOpt_fields [simp]:
  "serverRPCName (setOpt opt m) = serverRPCName m" "serverRspHead (setOpt opt m) = serverRspHead m"
  "frameHead (setOpt opt m) = frameHead m" "serializationType (setOpt opt m) = serializationType m"
  "compressType (setOpt opt m) = compressType m" "callType (setOpt opt m) = callType m"
  "serverRspErr (setOpt opt m) = serverRspErr m" "commonMeta (setOpt opt m) = commonMeta m"
  "requestTimeout (setOpt opt m) = requestTimeout m" "serverMetaData (setOpt opt m) = serverMetaData m"
  by (simp_all add: setOpt_def WithCalleeServiceName_def split: prod.splits)

lemma setters_keep_more [simp]:
  "frameHead (WithCalleeServiceName n m) = frameHead m" "frameHead (WithCallerServiceName n m) = frameHead m"
  "frameHead (WithServerRPCName n m) = frameHead m" "frameHead (WithServerMetaData d m) = frameHead m"
  "serverRspErr (WithCalleeServiceName n m) = serverRspErr m" "serverRspErr (WithCallerServiceName n m) = serverRspErr m"
  "serverRspErr (WithServerRPCName n m) = serverRspErr m" "serverRspErr (WithServerMetaData d m) = serverRspErr m"
  "commonMeta (WithCalleeServiceName n m) = commonMeta m" "commonMeta (WithCallerServiceName n m) = commonMeta m"
  "commonMeta (WithServerRPCName n m) = commonMeta m" "commonMeta (WithServerMetaData d m) = commonMeta m"
  "serverMetaData (WithCalleeServiceName n m) = serverMetaData m" "serverMetaData (WithCallerServiceName n m) = serverMetaData m"
  "serverMetaData (WithServerRPCName n m) = serverMetaData m"
  by (simp_all add: WithCalleeServiceName_def WithCallerServiceName_def WithServerRPCName_def
      updateMethodNameUsingRPCName_def WithServerMetaData_def split: prod.splits)

lemma put_meta_keep_more [simp]:
  "frameHead (put_meta k v m) = frameHead m" "serverRspErr (put_meta k v m) = serverRspErr m"
  "callType (put_meta k v m) = callType m"
  by (simp_all add: put_meta_def)

lemma msgWithRequestProtocol_more:
  fixes pb m req attm
  defines "m' \<equiv> msgWithRequestProtocol pb m req attm"
  shows "frameHead m' = frameHead m" "serverRspErr m' = serverRspErr m" "callType m' = uint (rq_CallType req)"
    "commonMeta m = None \<Longrightarrow> ReadAll (ServerResponseAttachment m') = Ok []"
proof -
  show "ReadAll (ServerResponseAttachment m') = Ok []" if "commonMeta m = None"
  proof (cases "attm = []")
    case True
    with that have "commonMeta m' = None" by (simp add: m'_def msgWithRequestProtocol_def Let_def split: option.split)
    then show ?thesis by (simp add: ServerResponseAttachment_def get_attachment_def ReadAll_def)
  next
    case False
    then have "get_attachment ServerAttachmentKey m' = Some \<lparr>att_Request = ReaderBytes attm, att_Response = NoopAttachment\<rparr>"
      unfolding m'_def by (rule msgWithRequestProtocol_fields)
    then show ?thesis by (simp add: ServerResponseAttachment_def NoopAttachment_def ReadAll_def)
  qed
qed (simp_all add: m'_def msgWithRequestProtocol_def SetServerRequestAttachment_def Let_def split: option.split)

text \<open>The state of a call whose request has been decoded.\<close>

definition decoded_call :: "pb_consts \<Rightarrow> stream_pb \<Rightarrow> unary_pb \<Rightarrow> ('b, init_metas, 'v) ServerOptions \<Rightarrow> net_addr \<Rightarrow> net_addr
    \<Rightarrow> bytes \<Rightarrow> 'v server_state \<Rightarrow> ('b, init_metas, 'v) call" where
  "decoded_call pb sp up opt lo re buf w =
     (let s = count_request opt 1 (new_call lo re w);
          (c, m, _) = sv_Decode pb sp up (cl_codec s) (setOpt opt (cl_msg s)) buf
      in s\<lparr>cl_codec := c, cl_msg := setOpt opt m\<rparr>)"



lemma decoded_call_facts:
  fixes opt :: "('b, init_metas, 'v) ServerOptions" and lo re w
  assumes "\<And>s ms. sv_Decode pb sp up s ms buf = (s, msgWithRequestProtocol pb (ms\<lparr>frameHead := TrpcFrameHead h\<rparr>) req att, Ok body)"
    and "FrameType h = TRPC_UNARY_FRAME pb"
  defines "s \<equiv> decoded_call pb sp up opt lo re buf w"
  shows "serverRPCName (cl_msg s) = rq_Func req" "serializationType (cl_msg s) = uint (rq_ContentType req)"
    "compressType (cl_msg s) = uint (rq_ContentEncoding req)" "callType (cl_msg s) = uint (rq_CallType req)"
    "serverRspErr (cl_msg s) = None" "answering pb (cl_msg s) (newResponseProtocol pb req)"
    "ReadAll (ServerResponseAttachment (cl_msg s)) = Ok []"
    "cl_errs s = srv_errs w" "cl_preUnmarshal s = None" "cl_preDecode s = None" "cl_codec s = srv_metas w"
    "sv_Decode pb sp up (srv_metas w) (setOpt opt (cl_msg (new_call lo re w :: ('b, init_metas, 'v) call))) buf
       = (srv_metas w, msgWithRequestProtocol pb ((setOpt opt (cl_msg (new_call lo re w :: ('b, init_metas, 'v) call)))
            \<lparr>frameHead := TrpcFrameHead h\<rparr>) req att, Ok body)"
proof -
  let ?ms = "setOpt opt (cl_msg (new_call lo re w :: ('b, init_metas, 'v) call))"
  have att: "ServerResponseAttachment (setOpt opt m) = ServerResponseAttachment m" for m
    by (simp add: ServerResponseAttachment_def get_attachment_def)
  have ms: "commonMeta (cl_msg (new_call lo re w :: ('b, init_metas, 'v) call)) = None"
    by (simp add: new_call_def resetDefault_def)
  have s: "cl_msg s = setOpt opt (msgWithRequestProtocol pb (?ms\<lparr>frameHead := TrpcFrameHead h\<rparr>) req att)"
    by (simp add: s_def decoded_call_def count_request_def assms(1) Let_def)
  show "ReadAll (ServerResponseAttachment (cl_msg s)) = Ok []"
    by (simp add: s att msgWithRequestProtocol_more ms)
  show "answering pb (cl_msg s) (newResponseProtocol pb req)"
    by (simp add: s answering_def assms(2) msgWithRequestProtocol_fields msgWithRequestProtocol_more newResponseProtocol_def)
qed (simp_all add: msgWithRequestProtocol_fields msgWithRequestProtocol_more decoded_call_def s_def new_call_def assms(1)
    count_request_def resetDefault_def Let_def)

subsection \<open>Serving a decoded request\<close>

text \<open>A service that speaks tRPC with the body formats named in its messages, without overload control.\<close>

definition trpc_service :: "pb_consts \<Rightarrow> stream_pb \<Rightarrow> unary_pb \<Rightarrow> nat \<Rightarrow> 'b env \<Rightarrow> ('b, init_metas, 'v) service \<Rightarrow> bool" where
  "trpc_service pb sp up maxSize env svc \<longleftrightarrow> so_Codec (opts svc) = Some (TrpcServerCodec pb sp up maxSize)
     \<and> so_OverloadCtrl (opts svc) = None \<and> so_CurrentSerializationType (opts svc) < 0 \<and> so_CurrentCompressType (opts svc) < 0
     \<and> env_rc env = pb_codes pb"

lemma serveFrame_decoded:
  fixes env :: "'b env" and svc :: "('b, init_metas, 'v) service"
  assumes svc: "trpc_service pb sp up maxSize env svc"
    and dec: "\<And>s ms. sv_Decode pb sp up s ms buf = (s, msgWithRequestProtocol pb (ms\<lparr>frameHead := TrpcFrameHead h\<rparr>) req att, Ok body)"
    and "FrameType h = TRPC_UNARY_FRAME pb"
  shows "snd (serveFrame env svc lo re buf w) =
    (case snd (handle_and_encode env svc (TrpcServerCodec pb sp up maxSize) body (decoded_call pb sp up (opts svc) lo re buf w)) of
       Ok rsp \<Rightarrow> Respond rsp
     | Err e \<Rightarrow> if e = ErrServerNoResponse then NoReply else CloseConn
     | Panic \<Rightarrow> Crashed)"
proof -
  let ?s = "decoded_call pb sp up (opts svc) lo re buf w" and ?cd = "TrpcServerCodec pb sp up maxSize"
  let ?n = "count_request (opts svc) 1 (new_call lo re w)"
  have "svc_decode env (opts svc) ?cd buf ?n = (?s, Ok body)"
    by (auto simp: svc_decode_def TrpcServerCodec_def dec decoded_call_def Let_def)
  moreover have "ServerRspErr (env_rc env) (cl_msg ?s) = None"
    using decoded_call_facts(5) [where opt = "opts svc" and lo = lo and re = re and w = w, OF dec assms(3)]
    by (simp add: ServerRspErr_def)
  moreover have "cl_preDecode ?n = None" by (simp add: count_request_def new_call_def)
  moreover obtain s' r where hr: "handle_and_encode env svc ?cd body ?s = (s', r)" by (rule prod.exhaust)
  moreover have "so_Codec (opts svc) = Some ?cd" "so_OverloadCtrl (opts svc) = None" using svc by (simp_all add: trpc_service_def)
  ultimately have "snd (svc_Handle env svc buf (new_call lo re w)) = r"
    by (simp add: svc_Handle_def handle_request_def handle_decoded_def)
  then obtain s2 where "svc_Handle env svc buf (new_call lo re w) = (s2, r)" by (metis prod.collapse)
  with hr show ?thesis by (cases r) (simp_all add: serveFrame_def)
qed

text \<open>The response frame, for a result and for an error of the application.\<close>

lemma respond_result:
  assumes svc: "trpc_service pb sp up maxSize env svc"
    and h: "svc_handle env svc body s = (s2, Some (rsp, None))"
    and "codec_Marshal (env_ser env) (serializationType (cl_msg s2)) rsp = Inr d"
    and "codec_Compress (env_cmp env) (compressType (cl_msg s2)) d = Inr z"
  shows "snd (handle_and_encode env svc (TrpcServerCodec pb sp up maxSize) body s)
    = (case snd (snd (sv_Encode pb sp up maxSize (cl_codec s2) (cl_msg s2) z)) of
         Ok b \<Rightarrow> Ok b | Err e \<Rightarrow> Err (EOther (err_text pb e) None) | Panic \<Rightarrow> Panic)"
  using assms
  by (simp add: handle_and_encode_def handleResponse_def trpc_service_def IsValidSerializationType_def IsValidCompressType_def
      SerializationTypePB_def CompressTypeNoop_def svc_encode_def TrpcServerCodec_def Let_def split: prod.split res.split)

lemma respond_error:
  assumes svc: "trpc_service pb sp up maxSize env svc"
    and h: "svc_handle env svc body s = (s2, Some (r, Some v))" "v \<noteq> ErrServerNoResponse"
  shows "snd (handle_and_encode env svc (TrpcServerCodec pb sp up maxSize) body s)
    = (case snd (snd (sv_Encode pb sp up maxSize (cl_codec s2) ((cl_msg s2)\<lparr>serverRspErr := Some (deref (cl_errs s2) v)\<rparr>) [])) of
         Ok b \<Rightarrow> Ok b | Err e \<Rightarrow> Err (EOther (err_text pb e) None) | Panic \<Rightarrow> Panic)"
  using assms
  by (simp add: handle_and_encode_def trpc_service_def svc_encode_def TrpcServerCodec_def Let_def split: prod.split res.split)

subsection \<open>A whole call\<close>

definition trpc_client :: "pb_consts \<Rightarrow> stream_pb \<Rightarrow> unary_pb \<Rightarrow> nat \<Rightarrow> string \<Rightarrow> ('b, ClientCodec, 'v server_state) cenv
    \<Rightarrow> ('b, ClientCodec, 'v server_state) CallOptions \<Rightarrow> 'b env \<Rightarrow> bool" where
  "trpc_client pb sp up maxSize pn ce co env \<longleftrightarrow> co_Codec co = Some (TrpcClientCodec pb sp up maxSize pn)
     \<and> co_OverloadCtrl co = None \<and> co_CurrentSerializationType co < 0 \<and> co_CurrentCompressType co < 0
     \<and> ce_ser ce = env_ser env \<and> ce_cmp ce = env_cmp env"

text \<open>What is relied on of the protocol package: its encodings are inverted by its decodings, and the two
  frame types differ.\<close>

definition protocol_ok :: "pb_consts \<Rightarrow> unary_pb \<Rightarrow> bool" where
  "protocol_ok pb up \<longleftrightarrow> TRPC_UNARY_FRAME pb \<noteq> TRPC_STREAM_FRAME pb \<and> proto_req_ok up \<and> proto_rsp_ok up"

text \<open>A call about to be sent: no heads, no error, numbers that fit the fields of the head.\<close>

definition ready_call :: "('b, ClientCodec, 'w) ccall \<Rightarrow> bool" where
  "ready_call s \<longleftrightarrow>
     (let m = cc_msg s in fresh_client_msg m \<and> clientRspHead m = HeadNil \<and> clientRspErr m = None
        \<and> defaultCaller (cc_codec s) \<noteq> [] \<and> 0 \<le> serializationType m \<and> serializationType m < 2 ^ 32
        \<and> 0 \<le> compressType m \<and> compressType m < 2 ^ 32 \<and> 0 \<le> requestTimeout m \<and> requestTimeout m div 1000000 < 2 ^ 32)"

text \<open>The body on the receiving side: bytes fill it, no bytes leave it as it was.\<close>

definition received :: "'b \<Rightarrow> bytes \<Rightarrow> 'b \<Rightarrow> 'b" where
  "received old z new = (if z = [] then old else new)"

lemma client_sends:
  assumes "trpc_client pb sp up maxSize pn ce co env" "ready_call s"
    and "prepareRequestBuf ce co (TrpcClientCodec pb sp up maxSize pn) (Some req) s = (s1, Ok buf)"
  obtains d z c' m' where "codec_Marshal (env_ser env) (serializationType (cc_msg s)) (Some req) = Inr d"
    "codec_Compress (env_cmp env) (compressType (cc_msg s)) d = Inr z"
    "cl_Encode pb sp up maxSize pn (cc_codec s) (cc_msg s) z = (c', m', Ok buf)" "s1 = s\<lparr>cc_codec := c', cc_msg := m'\<rparr>"
proof -
  have v: "IsValidSerializationType (serializationType (cc_msg s))" "IsValidCompressType (compressType (cc_msg s))"
    "\<not> IsValidSerializationType (co_CurrentSerializationType co)" "\<not> IsValidCompressType (co_CurrentCompressType co)"
    using assms(1,2) by (auto simp: trpc_client_def ready_call_def IsValidSerializationType_def IsValidCompressType_def
        SerializationTypePB_def CompressTypeNoop_def Let_def)
  obtain z where z: "serializeAndCompress ce co (cc_msg s) (Some req) = Inr z"
    using assms(3) by (cases "serializeAndCompress ce co (cc_msg s) (Some req)")
      (auto simp: prepareRequestBuf_def cl_newFrameErr_def alloc_err_def)
  then obtain d where d: "codec_Marshal (env_ser env) (serializationType (cc_msg s)) (Some req) = Inr d"
    "(if compressType (cc_msg s) \<noteq> CompressTypeNoop then codec_Compress (env_cmp env) (compressType (cc_msg s)) d else Inr d) = Inr z"
    using v assms(1) by (auto simp: serializeAndCompress_def trpc_client_def Let_def split: sum.splits if_splits)
  from d(2) have "codec_Compress (env_cmp env) (compressType (cc_msg s)) d = Inr z"
    by (auto simp: codec_Compress_def split: if_splits)
  moreover obtain c' m' r where e: "cl_Encode pb sp up maxSize pn (cc_codec s) (cc_msg s) z = (c', m', r)" by (rule prod_cases3)
  moreover from this have "r = Ok buf" "s1 = s\<lparr>cc_codec := c', cc_msg := m'\<rparr>"
    using assms(3) z by (cases r; auto simp: prepareRequestBuf_def TrpcClientCodec_def cl_newFrameErr_def alloc_err_def)+
  ultimately show thesis using d(1) that by simp
qed

lemma call_reaches_app:
  fixes env :: "'b env" and svc :: "('b, init_metas, 'v) service" and w :: "'v server_state" and lo re
  assumes client: "trpc_client pb sp up maxSize pn ce co env" and server: "trpc_service pb sp up maxSize env svc"
    and proto: "protocol_ok pb up" "maxSize < 2 ^ 32" and ready: "ready_call s"
    and fmt: "body_ok (env_ser env) (env_cmp env) (serializationType (cc_msg s)) (compressType (cc_msg s)) typed"
      "typed req" "typed newReq"
    and sent: "prepareRequestBuf ce co (TrpcClientCodec pb sp up maxSize pn) (Some req) s = (s1, Ok buf)"
    and body: "serializeAndCompress ce co (cc_msg s) (Some req) = Inr z"
    and disp: "streamHandlers svc (clientRPCName (cc_msg s)) = None"
      "find_handler svc (clientRPCName (cc_msg s)) = Some (stub (span_names env (opts svc)) newReq impl)"
  defines "sd \<equiv> decoded_call pb sp up (opts svc) lo re buf w"
  obtains c' m' rs where "s1 = s\<lparr>cc_codec := c', cc_msg := m'\<rparr>" "awaiting m' (rs_RequestId rs)" "clientRspErr m' = None"
    "answering pb (cl_msg sd) rs" "ReadAll (ServerResponseAttachment (cl_msg sd)) = Ok []" "serverRspErr (cl_msg sd) = None"
    "serializationType (cl_msg sd) = serializationType (cc_msg s)" "compressType (cl_msg sd) = compressType (cc_msg s)"
    "callType (cl_msg sd) = uint (word_of_int (callType (cc_msg s)) :: u32)"
    "snd (serveFrame env svc lo re buf w) =
       (case snd (handle_and_encode env svc (TrpcServerCodec pb sp up maxSize) z sd) of
          Ok rsp \<Rightarrow> Respond rsp | Err e \<Rightarrow> if e = ErrServerNoResponse then NoReply else CloseConn | Panic \<Rightarrow> Crashed)"
    "streamHandlers svc (serverRPCName (cl_msg sd)) = None"
    "find_handler svc (serverRPCName (cl_msg sd)) = Some (stub (span_names env (opts svc)) newReq impl)"
    "cl_preUnmarshal sd = None" "decompressAndUnmarshal env (opts svc) (cl_msg sd) z (Some newReq) = Inr (Some (received newReq z req))"
proof -
  obtain d z' c' m' where d: "codec_Marshal (env_ser env) (serializationType (cc_msg s)) (Some req) = Inr d"
    "codec_Compress (env_cmp env) (compressType (cc_msg s)) d = Inr z'"
    and enc: "cl_Encode pb sp up maxSize pn (cc_codec s) (cc_msg s) z' = (c', m', Ok buf)" and s1: "s1 = s\<lparr>cc_codec := c', cc_msg := m'\<rparr>"
    by (rule client_sends [OF client ready sent])
  have [simp]: "z' = z"
    using body d client ready by (auto simp: serializeAndCompress_def trpc_client_def ready_call_def IsValidSerializationType_def
        IsValidCompressType_def SerializationTypePB_def CompressTypeNoop_def codec_Compress_def Let_def split: if_splits)
  have pre: "fresh_client_msg (cc_msg s)" "TRPC_UNARY_FRAME pb \<noteq> TRPC_STREAM_FRAME pb" "proto_req_ok up" "maxSize < 2 ^ 32"
    "defaultCaller (cc_codec s) \<noteq> []" "0 \<le> serializationType (cc_msg s)" "serializationType (cc_msg s) < 2 ^ 32"
    "0 \<le> compressType (cc_msg s)" "compressType (cc_msg s) < 2 ^ 32" "0 \<le> requestTimeout (cc_msg s)"
    "requestTimeout (cc_msg s) div 1000000 < 2 ^ 32"
    using proto ready by (simp_all add: protocol_ok_def ready_call_def Let_def)
  obtain h reqp att where dec: "\<And>s ms. sv_Decode pb sp up s ms buf
      = (s, msgWithRequestProtocol pb (ms\<lparr>frameHead := TrpcFrameHead h\<rparr>) reqp att, Ok z)"
    and h: "FrameType h = TRPC_UNARY_FRAME pb" and f: "rq_Func reqp = clientRPCName (cc_msg s)"
      "uint (rq_ContentType reqp) = serializationType (cc_msg s)" "uint (rq_ContentEncoding reqp) = compressType (cc_msg s)"
      "rq_CallType reqp = word_of_int (callType (cc_msg s))"
    and m': "clientReqHead m' = HeadReq reqp" "clientRspHead m' = clientRspHead (cc_msg s)" "clientRspErr m' = clientRspErr (cc_msg s)"
    by (rule request_transfer [OF enc pre]) auto
  note facts = decoded_call_facts [where opt = "opts svc" and lo = lo and re = re and w = w, OF dec h, folded sd_def]
  have "decompressAndUnmarshal env (opts svc) (cl_msg sd) z (Some newReq) = Inr (Some (received newReq z req))"
    using body_transfer [OF fmt(1) d(1,2) fmt(2,3)] server facts(2,3)
    by (auto simp: decompressAndUnmarshal_def trpc_service_def IsValidSerializationType_def IsValidCompressType_def
        SerializationTypePB_def CompressTypeNoop_def f received_def Let_def)
  with s1 show thesis
    using serveFrame_decoded [OF server dec h, of lo re w, folded sd_def] facts f m' ready disp
    by (intro that [where c' = c' and m' = m' and rs = "newResponseProtocol pb reqp"])
       (simp_all add: awaiting_def ready_call_def newResponseProtocol_def Let_def)
qed

lemma client_receives:
  assumes "trpc_client pb sp up maxSize pn ce co env" "co_Transport co = wire env svc lo re na"
    and "prepareRequestBuf ce co (TrpcClientCodec pb sp up maxSize pn) reqBody s = (s1, Ok buf)" "s1 = s\<lparr>cc_codec := c', cc_msg := m'\<rparr>"
    and "snd (serveFrame env svc lo re buf (cc_user s)) = Respond rbuf" "cl_Decode pb sp up m' rbuf = (mc', Ok body)"
  shows "\<exists>s3. callBackend ce co reqBody s = processResponseBuf ce co body s3
    \<and> cc_msg s3 = mc' \<and> cc_rsp s3 = cc_rsp s \<and> cc_errs s3 = cc_errs s"
proof -
  obtain v where v: "serveFrame env svc lo re buf (cc_user s) = (v, Respond rbuf)" using assms(5) by (metis prod.collapse)
  have "callBackend ce co reqBody s = processResponseBuf ce co body (s1\<lparr>cc_user := v, cc_codec := c', cc_msg := mc'\<rparr>)"
    using assms(1-4,6) v by (simp add: callBackend_def trpc_client_def wire_def TrpcClientCodec_def)
  with assms(4) show ?thesis by (intro exI [of _ "s1\<lparr>cc_user := v, cc_codec := c', cc_msg := mc'\<rparr>"]) simp
qed

lemma callFunc_plain:
  assumes "co_OverloadCtrl co = None" "callBackend ce co reqBody s = (s', Some None)"
  shows "callFunc ce (co, reqBody) s = (s', Some None)"
  using assms by (simp add: callFunc_def fixTimeout_def)

lemma process_body:
  assumes "trpc_client pb sp up maxSize pn ce co env" "body_ok (env_ser env) (env_cmp env) st ct typed" "0 \<le> st" "0 \<le> ct"
    and "codec_Marshal (env_ser env) st (Some rsp) = Inr d" "codec_Compress (env_cmp env) ct d = Inr w" "typed rsp" "typed old"
    and "cc_rsp s = Some old" "clientRspErr (cc_msg s) = None" "serializationType (cc_msg s) = st" "compressType (cc_msg s) = ct"
  shows "\<exists>s'. processResponseBuf ce co w s = (s', Some None) \<and> cc_rsp s' = Some (received old w rsp)"
proof (cases "w = []")
  case True
  then show ?thesis using assms(9,10) by (simp add: processResponseBuf_def received_def)
next
  case False
  note t = body_transfer [OF assms(2,5-8)]
  have "codec_Decompress (env_cmp env) ct w = Inr d" "ct = 0 \<Longrightarrow> w = d"
    using t(1) by (auto simp: CompressTypeNoop_def codec_Decompress_def)
  with False t(2) assms show ?thesis
    by (cases "ct = 0") (simp_all add: processResponseBuf_def trpc_client_def IsValidSerializationType_def IsValidCompressType_def
        SerializationTypePB_def CompressTypeNoop_def received_def Let_def)
qed

text \<open>C1: A unary call returns what the implementation returned. When the client sends a request whose
  body both sides can encode, and the filters and the implementation of the method answer the received
  request with a response that fits into a frame, the call ends without error and the caller's response
  body is the one the implementation returned. A body without bytes leaves the receiver's body as it was,
  on both sides.\<close>

theorem unary_call_returns:
  assumes client: "trpc_client pb sp up maxSize pn ce co env" "co_Transport co = wire env svc lo re na"
    and server: "trpc_service pb sp up maxSize env svc" and proto: "protocol_ok pb up" "maxSize < 2 ^ 32"
    and ready: "ready_call s" "cc_rsp s = Some old"
    and fmt: "body_ok (env_ser env) (env_cmp env) (serializationType (cc_msg s)) (compressType (cc_msg s)) typed"
      "typed req" "typed newReq" "typed rsp" "typed old"
    and sent: "prepareRequestBuf ce co (TrpcClientCodec pb sp up maxSize pn) (Some req) s = (s1, Ok buf)"
      "serializeAndCompress ce co (cc_msg s) (Some req) = Inr z"
    and twoway: "uint (word_of_int (callType (cc_msg s)) :: u32) \<noteq> env_SendOnly env"
    and disp: "streamHandlers svc (clientRPCName (cc_msg s)) = None"
      "find_handler svc (clientRPCName (cc_msg s)) = Some (stub (span_names env (opts svc)) newReq impl)"
    and app: "run_app env svc impl (received newReq z req) (decoded_call pb sp up (opts svc) lo re buf (cc_user s))
        = (s2, Some (Some rsp, None))" "cl_msg s2 = cl_msg (decoded_call pb sp up (opts svc) lo re buf (cc_user s))"
    and answer: "codec_Marshal (env_ser env) (serializationType (cc_msg s)) (Some rsp) = Inr d"
      "codec_Compress (env_cmp env) (compressType (cc_msg s)) d = Inr w"
      "marshalRsp up ((getAndInitResponseProtocol pb (cl_msg s2))\<lparr>rs_AttachmentSize := 0\<rparr>) = Some hdr"
      "hdr \<noteq> []" "length hdr \<le> 65535" "16 + length hdr + length w \<le> maxSize"
  shows "\<exists>s'. callFunc ce (co, Some req) s = (s', Some None) \<and> cc_rsp s' = Some (received old w rsp)"
proof -
  let ?sd = "decoded_call pb sp up (opts svc) lo re buf (cc_user s)" and ?cd = "TrpcServerCodec pb sp up maxSize"
  obtain c' m' rs where s1: "s1 = s\<lparr>cc_codec := c', cc_msg := m'\<rparr>" and aw: "awaiting m' (rs_RequestId rs)" "clientRspErr m' = None"
    and an: "answering pb (cl_msg ?sd) rs" "ReadAll (ServerResponseAttachment (cl_msg ?sd)) = Ok []" "serverRspErr (cl_msg ?sd) = None"
    and ty: "serializationType (cl_msg ?sd) = serializationType (cc_msg s)" "compressType (cl_msg ?sd) = compressType (cc_msg s)"
      "callType (cl_msg ?sd) = uint (word_of_int (callType (cc_msg s)) :: u32)"
    and sv: "snd (serveFrame env svc lo re buf (cc_user s)) = (case snd (handle_and_encode env svc ?cd z ?sd) of
          Ok rsp \<Rightarrow> Respond rsp | Err e \<Rightarrow> if e = ErrServerNoResponse then NoReply else CloseConn | Panic \<Rightarrow> Crashed)"
    and hd: "streamHandlers svc (serverRPCName (cl_msg ?sd)) = None"
      "find_handler svc (serverRPCName (cl_msg ?sd)) = Some (stub (span_names env (opts svc)) newReq impl)"
      "cl_preUnmarshal ?sd = None" "decompressAndUnmarshal env (opts svc) (cl_msg ?sd) z (Some newReq) = Inr (Some (received newReq z req))"
    by (rule call_reaches_app [OF client(1) server proto ready(1) fmt(1-3) sent disp])
  have sh: "svc_handle env svc z ?sd = (s2, Some (Some rsp, None))"
    using svc_handle_stub [OF hd] app ty(3) twoway by simp
  obtain rbuf mc' where enc: "snd (snd (sv_Encode pb sp up maxSize (cl_codec s2) (cl_msg s2) w)) = Ok rbuf"
    and dec: "cl_Decode pb sp up m' rbuf = (mc', Ok w)" "clientRspErr mc' = None"
      "serializationType mc' = serializationType (cc_msg s)" "compressType mc' = compressType (cc_msg s)"
    using response_transfer [of pb "cl_msg s2" rs "[]" up hdr w maxSize m' sp "cl_codec s2"] an aw answer proto ready ty app(2)
    by (auto simp: protocol_ok_def ready_call_def ServerRspErr_def transported_err_def uint_word_of_int Let_def)
  have "snd (serveFrame env svc lo re buf (cc_user s)) = Respond rbuf"
    using sv respond_result [OF server sh] answer(1,2) ty app(2) enc by simp
  from client_receives [OF client sent(1) s1 this dec(1)] obtain s3 where
    "callBackend ce co (Some req) s = processResponseBuf ce co w s3" "cc_msg s3 = mc'" "cc_rsp s3 = Some old" using ready(2) by auto
  moreover from this obtain s' where "processResponseBuf ce co w s3 = (s', Some None)" "cc_rsp s' = Some (received old w rsp)"
    using process_body [OF client(1) fmt(1) _ _ answer(1,2) fmt(4,5)] ready(1) dec(2-4) by (auto simp: ready_call_def Let_def)
  ultimately show ?thesis
    using callFunc_plain [of co ce "Some req" s s'] client(1) by (auto simp: trpc_client_def)
qed

lemma process_error:
  assumes "clientRspErr (cc_msg s) = transported_err e None"
  shows "\<exists>s' r'. processResponseBuf ce co [] s = (s', Some r') \<and> map_option (deref (cc_errs s')) r' = transported_err e None
    \<and> cc_rsp s' = cc_rsp s \<and> (\<forall>a. r' = Some (EPtr a) \<longrightarrow> e_Type (deref (cc_errs s') (EPtr a)) \<noteq> ErrorTypeFramework) \<and> r' \<noteq> Some ENilPtr"
  using assms
  by (auto simp: processResponseBuf_def transported_err_def own_err_def alloc_err_def ErrorTypeFramework_def ErrorTypeBusiness_def
      ErrorTypeCalleeFramework_def split: option.splits if_splits)

text \<open>C2: A unary call fails the way the implementation failed. When the filters and the implementation
  answer with an error, the caller's response body is untouched and the call returns that error with
  its code and message: a framework error as one of the callee's framework, any other error as a
  business error, an error of a foreign type with the code for unknown errors. An error with code zero
  is the exception: the call succeeds.\<close>

theorem unary_call_fails:
  assumes client: "trpc_client pb sp up maxSize pn ce co env" "co_Transport co = wire env svc lo re na"
    and server: "trpc_service pb sp up maxSize env svc" and proto: "protocol_ok pb up" "maxSize < 2 ^ 32" and ready: "ready_call s"
    and fmt: "body_ok (env_ser env) (env_cmp env) (serializationType (cc_msg s)) (compressType (cc_msg s)) typed" "typed req" "typed newReq"
    and sent: "prepareRequestBuf ce co (TrpcClientCodec pb sp up maxSize pn) (Some req) s = (s1, Ok buf)"
      "serializeAndCompress ce co (cc_msg s) (Some req) = Inr z"
    and disp: "streamHandlers svc (clientRPCName (cc_msg s)) = None"
      "find_handler svc (clientRPCName (cc_msg s)) = Some (stub (span_names env (opts svc)) newReq impl)"
    and app: "run_app env svc impl (received newReq z req) (decoded_call pb sp up (opts svc) lo re buf (cc_user s)) = (s2, Some (r, Some v))"
      "cl_msg s2 = cl_msg (decoded_call pb sp up (opts svc) lo re buf (cc_user s))" "v \<noteq> ENilPtr" "v \<noteq> ErrServerNoResponse"
      "\<not> (e_Type (deref (cl_errs s2) v) = ErrorTypeFramework \<and> e_Code (deref (cl_errs s2) v) = RetServerFullLinkTimeout (env_cc env))"
    and m: "m = (cl_msg s2)\<lparr>serverRspErr := Some (deref (cl_errs s2) v)\<rparr>"
    and answer: "marshalRsp up ((getAndInitResponseProtocol pb m)\<lparr>rs_AttachmentSize := 0\<rparr>) = Some hdr"
      "hdr \<noteq> []" "length hdr \<le> 65535" "16 + length hdr \<le> maxSize"
  shows "\<exists>s' r'. callFunc ce (co, Some req) s = (s', Some r') \<and> cc_rsp s' = cc_rsp s
    \<and> map_option (deref (cc_errs s')) r' = transported_err (ServerRspErr (pb_codes pb) m) None"
proof -
  let ?sd = "decoded_call pb sp up (opts svc) lo re buf (cc_user s)" and ?cd = "TrpcServerCodec pb sp up maxSize"
  obtain c' m' rs where s1: "s1 = s\<lparr>cc_codec := c', cc_msg := m'\<rparr>" and aw: "awaiting m' (rs_RequestId rs)" "clientRspErr m' = None"
    and an: "answering pb (cl_msg ?sd) rs" "ReadAll (ServerResponseAttachment (cl_msg ?sd)) = Ok []" "serverRspErr (cl_msg ?sd) = None"
    and sv: "snd (serveFrame env svc lo re buf (cc_user s)) = (case snd (handle_and_encode env svc ?cd z ?sd) of
          Ok rsp \<Rightarrow> Respond rsp | Err e \<Rightarrow> if e = ErrServerNoResponse then NoReply else CloseConn | Panic \<Rightarrow> Crashed)"
    and hd: "streamHandlers svc (serverRPCName (cl_msg ?sd)) = None"
      "find_handler svc (serverRPCName (cl_msg ?sd)) = Some (stub (span_names env (opts svc)) newReq impl)"
      "cl_preUnmarshal ?sd = None" "decompressAndUnmarshal env (opts svc) (cl_msg ?sd) z (Some newReq) = Inr (Some (received newReq z req))"
    by (rule call_reaches_app [OF client(1) server proto ready fmt sent disp])
  have sh: "svc_handle env svc z ?sd = (s2, Some (None, Some v))"
    using svc_handle_stub [OF hd] app by (cases v) auto
  have m': "answering pb m rs" "ReadAll (ServerResponseAttachment m) = Ok []"
    using an(1,2) app(2) by (simp_all add: m answering_def ServerResponseAttachment_def get_attachment_def)
  obtain rbuf mc' where enc: "snd (snd (sv_Encode pb sp up maxSize (cl_codec s2) m [])) = Ok rbuf"
    and dec: "cl_Decode pb sp up m' rbuf = (mc', Ok [])" "clientRspErr mc' = transported_err (ServerRspErr (pb_codes pb) m) None"
    using response_transfer [of pb m rs "[]" up hdr "[]" maxSize m' sp "cl_codec s2"] m' aw answer proto
    by (auto simp: protocol_ok_def)
  have "snd (serveFrame env svc lo re buf (cc_user s)) = Respond rbuf"
    using sv respond_error [OF server sh app(4)] enc by (simp add: m)
  from client_receives [OF client sent(1) s1 this dec(1)] obtain s3 where
    s3: "callBackend ce co (Some req) s = processResponseBuf ce co [] s3" "cc_msg s3 = mc'" "cc_rsp s3 = cc_rsp s" by auto
  obtain s' r' where r': "processResponseBuf ce co [] s3 = (s', Some r')"
    "map_option (deref (cc_errs s')) r' = transported_err (ServerRspErr (pb_codes pb) m) None" "cc_rsp s' = cc_rsp s3"
    "\<And>a. r' = Some (EPtr a) \<Longrightarrow> e_Type (deref (cc_errs s') (EPtr a)) \<noteq> ErrorTypeFramework" "r' \<noteq> Some ENilPtr"
    using process_error [of s3 "ServerRspErr (pb_codes pb) m" ce co] dec(2) s3(2) by auto
  then have "fixTimeout (ce_cc ce) (co_fixTimeout co) r' s' = (s', Some r')"
    by (auto simp: fixTimeout_def IsTimeout_def split: option.split err_val.split)
  then show ?thesis using s3 r' client(1) by (auto simp: callFunc_def trpc_client_def)
qed

subsection \<open>An example\<close>

text \<open>A service with one method, called with a body of one byte, that doubles the body or refuses it.\<close>

definition ping_ok :: ResponseProtocol where "ping_ok = emptyResponseProtocol\<lparr>rs_RequestId := 1\<rparr>"
definition ping_bad :: ResponseProtocol where
  "ping_bad = ping_ok\<lparr>rs_FuncRet := 5, rs_ErrorMsg := ''no''\<rparr>"

definition ping_up :: unary_pb where
  "ping_up = \<lparr>marshalReq = (\<lambda>r. if r = sample_req 0 then Some [1] else None),
     unmarshalReq = (\<lambda>b. if b = [1] then Some (sample_req 0) else None),
     marshalRsp = (\<lambda>r. if r = ping_ok then Some [3] else if r = ping_bad then Some [4] else None),
     unmarshalRsp = (\<lambda>b. if b = [3] then Some ping_ok else if b = [4] then Some ping_bad else None)\<rparr>"

definition ping_env :: "noop_body env" where
  "ping_env = \<lparr>env_rc = pb_codes sample_pb, env_cc = sample_codes, env_ser = [0 \<mapsto> NoopSerialization], env_cmp = Map.empty,
     env_rpcz = False, env_typeOf = (\<lambda>_. 0), env_SendOnly = 1\<rparr>"

definition ping_opts :: "(noop_body, init_metas, unit) ServerOptions" where
  "ping_opts = \<lparr>so_Namespace = [], so_EnvName = [], so_SetName = [], so_ServiceName = ''s'', so_Timeout = 0,
     so_DisableRequestTimeout = True, so_CurrentSerializationType = - 1, so_CurrentCompressType = - 1,
     so_Codec = Some (TrpcServerCodec sample_pb sample_sp ping_up 100), so_Filters = [], so_FilterNames = [],
     so_OverloadCtrl = None, so_StreamHandle = None, so_CloseWaitTime = 0, so_MaxCloseWaitTime = 0\<rparr>"

definition twice :: "(noop_body, init_metas, unit) ServerHandleFunc" where
  "twice q s = (s, Some (case snd q of Some (BodyPtr (Some d)) \<Rightarrow> Some (BodyPtr (Some (d @ d))) | b \<Rightarrow> b, None))"

definition refuse :: "(noop_body, init_metas, unit) ServerHandleFunc" where
  "refuse q s = (let (h, v) = alloc_err (err_New 5 ''no'') (cl_errs s) in (s\<lparr>cl_errs := h\<rparr>, Some (None, Some v)))"

definition ping_svc :: "(noop_body, init_metas, unit) ServerHandleFunc \<Rightarrow> (noop_body, init_metas, unit) service" where
  "ping_svc impl = \<lparr>opts = ping_opts, handlers = [''/a.b/M'' \<mapsto> stub None (BodyPtr (Some [])) impl],
     streamHandlers = Map.empty, streamInfo = Map.empty\<rparr>"

definition ping_srv :: "unit server_state" where
  "ping_srv = \<lparr>srv_errs = err_vars (pb_codes sample_pb) sample_codes, srv_metas = [], srv_tokens = [], srv_active = 0, srv_user = ()\<rparr>"

definition ping_cenv :: "(noop_body, ClientCodec, unit server_state) cenv" where
  "ping_cenv = \<lparr>ce_cc = sample_codes, ce_ser = [0 \<mapsto> NoopSerialization], ce_cmp = Map.empty, ce_rpcz = False,
     ce_codecs = Map.empty, ce_transports = Map.empty, ce_selectors = Map.empty, ce_ctxErr = (\<lambda>_. CtxOk), ce_ctxErrText = [],
     ce_hasIP = (\<lambda>_. True), ce_resolve = (\<lambda>n a. Some (n, a)), ce_parseAddr = (\<lambda>_ n a. Some (n, a)), ce_cost = ''1ms''\<rparr>"

definition ping_co :: "(noop_body, init_metas, unit) ServerHandleFunc \<Rightarrow> (noop_body, ClientCodec, unit server_state) CallOptions" where
  "ping_co impl = \<lparr>co_ServiceName = [], co_CallerServiceName = [], co_CalleeMethod = [], co_Timeout = 0, co_Target = [],
     co_endpoint = [], co_OverloadCtrl = None, co_Network = [], co_CallType = 0,
     co_Transport = wire ping_env (ping_svc impl) None None ErrClientNoResponse, co_Selector = None,
     co_DisableServiceRouter = False, co_shouldErrReport = (\<lambda>_. False), co_CurrentSerializationType = - 1,
     co_CurrentCompressType = - 1, co_SerializationType = - 1, co_CompressType = 0,
     co_Codec = Some (TrpcClientCodec sample_pb sample_sp ping_up 100 ''p''), co_MetaData = None, co_ReqHead = HeadNil,
     co_RspHead = HeadNil, co_fixTimeout = False, co_attachment = None, co_DestinationSetName = [], co_FilterNames = [],
     co_DisableFilter = False, co_selectorFilterPosFixed = False\<rparr>"

definition ping_call :: "(noop_body, ClientCodec, unit server_state) ccall" where
  "ping_call = \<lparr>spans = [], cc_msg = sample_call, cc_errs = err_vars (pb_codes sample_pb) sample_codes, cc_codec = sample_client,
     cc_rsp = Some (BodyPtr (Some [])), cc_tokens = [], cc_reports = [], cc_user = ping_srv\<rparr>"


lemma ping_encode:
  "\<exists>m' buf. cl_Encode sample_pb sample_sp ping_up 100 ''p'' sample_client sample_call [7]
      = (sample_client\<lparr>cc_requestID := 1\<rparr>, m', Ok buf) \<and> clientReqHead m' = HeadReq (sample_req 0)"
proof -
  have "updateRequestProtocol sample_pb ((newDefaultUnaryRequestProtocol sample_pb)\<lparr>rq_AttachmentSize := 0\<rparr>)
      (sample_call\<lparr>frameHead := f, clientReqHead := g, requestID := 1\<rparr>) = sample_req 0" for f g
    by (simp add: updateRequestProtocol_def newDefaultUnaryRequestProtocol_def sample_call_def resetDefault_def
        sample_req_def sample_pb_def quot_def setClientTransInfo_def md_list_def md_get_def)
  then show ?thesis
    by (simp add: cl_Encode_def sample_call_def sample_client_def loadOrStoreDefaultUnaryFrameHead_def
        loadOrStoreDefaultRequestProtocol_def resetDefault_def Frame.isStream_def isUnary_def newDefaultUnaryFrameHead_def
        ClientRequestAttachment_def get_attachment_def ReadAll_def updateCallerServiceName_def of_marshal_def
        ping_up_def construct_def Let_def sample_pb_def)
qed

lemma ping_setting:
  "trpc_client sample_pb sample_sp ping_up 100 ''p'' ping_cenv (ping_co impl) ping_env"
  "trpc_service sample_pb sample_sp ping_up 100 ping_env (ping_svc impl)" "protocol_ok sample_pb ping_up" "ready_call ping_call"
  by (auto simp: trpc_client_def trpc_service_def protocol_ok_def ready_call_def ping_co_def ping_cenv_def ping_env_def ping_svc_def
      ping_opts_def ping_call_def sample_call_def sample_client_def resetDefault_def fresh_client_msg_def proto_req_ok_def
      proto_rsp_ok_def ping_up_def sample_pb_def)

lemma ping_answer:
  assumes "serverRspErr m = None" "serverMetaData m = None"
  shows "getAndInitResponseProtocol sample_pb (setOpt opt (msgWithRequestProtocol sample_pb m (sample_req 0) [])) = ping_ok"
    and "getAndInitResponseProtocol sample_pb
      ((setOpt opt (msgWithRequestProtocol sample_pb m (sample_req 0) []))\<lparr>serverRspErr := Some (err_New 5 ''no'')\<rparr>) = ping_bad"
proof -
  let ?m = "msgWithRequestProtocol sample_pb m (sample_req 0) []"
  have "serverMetaData (setOpt opt ?m) = None" using assms(2)
    by (simp add: msgWithRequestProtocol_def sample_req_def newDefaultUnaryRequestProtocol_def md_list_def Let_def)
  moreover have "newResponseProtocol sample_pb (sample_req 0) = ping_ok"
    by (simp add: newResponseProtocol_def sample_req_def newDefaultUnaryRequestProtocol_def sample_pb_def ping_ok_def emptyResponseProtocol_def)
  moreover have "rq_ContentType (sample_req 0) = 0" "rq_ContentEncoding (sample_req 0) = 0"
    by (simp_all add: sample_req_def newDefaultUnaryRequestProtocol_def)
  ultimately show "getAndInitResponseProtocol sample_pb (setOpt opt ?m) = ping_ok"
    "getAndInitResponseProtocol sample_pb ((setOpt opt ?m)\<lparr>serverRspErr := Some (err_New 5 ''no'')\<rparr>) = ping_bad"
    using assms(1)
    by (simp_all add: getAndInitResponseProtocol_def msgWithRequestProtocol_fields msgWithRequestProtocol_more ServerRspErr_def
        md_list_def ping_bad_def ping_ok_def emptyResponseProtocol_def err_New_def ErrorTypeBusiness_def ErrorTypeFramework_def Let_def)
qed

lemma ping_sent:
  obtains s1 buf where "prepareRequestBuf ping_cenv (ping_co impl) (TrpcClientCodec sample_pb sample_sp ping_up 100 ''p'')
      (Some (BodyPtr (Some [7]))) ping_call = (s1, Ok buf)"
    "serializeAndCompress ping_cenv (ping_co impl) (cc_msg ping_call) (Some (BodyPtr (Some [7]))) = Inr [7]"
    "getAndInitResponseProtocol sample_pb (cl_msg (decoded_call sample_pb sample_sp ping_up ping_opts None None buf ping_srv)) = ping_ok"
    "getAndInitResponseProtocol sample_pb ((cl_msg (decoded_call sample_pb sample_sp ping_up ping_opts None None buf ping_srv))
       \<lparr>serverRspErr := Some (err_New 5 ''no'')\<rparr>) = ping_bad"
proof -
  obtain m' buf where enc: "cl_Encode sample_pb sample_sp ping_up 100 ''p'' sample_client sample_call [7]
      = (sample_client\<lparr>cc_requestID := 1\<rparr>, m', Ok buf)" and m': "clientReqHead m' = HeadReq (sample_req 0)"
    using ping_encode by blast
  have body: "serializeAndCompress ping_cenv (ping_co impl) (cc_msg ping_call) (Some (BodyPtr (Some [7]))) = Inr [7]"
    by (simp add: serializeAndCompress_def ping_co_def ping_cenv_def ping_call_def sample_call_def resetDefault_def codec_Marshal_def
        GetSerializer_def NoopSerialization_def IsValidSerializationType_def IsValidCompressType_def SerializationTypePB_def
        CompressTypeNoop_def SerializationTypeUnsupported_def Let_def)
  have pre: "fresh_client_msg sample_call" "TRPC_UNARY_FRAME sample_pb \<noteq> TRPC_STREAM_FRAME sample_pb" "proto_req_ok ping_up"
    "(100::nat) < 2 ^ 32" "defaultCaller sample_client \<noteq> []" "0 \<le> serializationType sample_call"
    "serializationType sample_call < 2 ^ 32" "0 \<le> compressType sample_call" "compressType sample_call < 2 ^ 32"
    "0 \<le> requestTimeout sample_call" "requestTimeout sample_call div 1000000 < 2 ^ 32"
    by (auto simp: fresh_client_msg_def sample_call_def resetDefault_def sample_pb_def proto_req_ok_def ping_up_def sample_client_def)
  obtain h req att where dec: "\<And>s ms. sv_Decode sample_pb sample_sp ping_up s ms buf
      = (s, msgWithRequestProtocol sample_pb (ms\<lparr>frameHead := TrpcFrameHead h\<rparr>) req att, Ok [7])"
    and "ReadAll (ClientRequestAttachment sample_call) = Ok att" "clientReqHead m' = HeadReq req"
    by (rule request_transfer [OF enc pre]) auto
  then have "req = sample_req 0" "att = []"
    using m' by (auto simp: ClientRequestAttachment_def get_attachment_def ReadAll_def sample_call_def resetDefault_def)
  with dec have "\<exists>m. cl_msg (decoded_call sample_pb sample_sp ping_up ping_opts None None buf ping_srv :: (noop_body, init_metas, unit) call)
        = setOpt ping_opts (msgWithRequestProtocol sample_pb m (sample_req 0) []) \<and> serverRspErr m = None \<and> serverMetaData m = None"
    by (simp add: decoded_call_def Let_def count_request_def)
      (rule exI [of _ "(setOpt ping_opts (cl_msg (new_call None None ping_srv :: (noop_body, init_metas, unit) call)))\<lparr>frameHead := TrpcFrameHead h\<rparr>"],
       simp add: new_call_def resetDefault_def)
  then show thesis
    using enc body ping_answer
    by (intro that) (auto simp: prepareRequestBuf_def TrpcClientCodec_def ping_call_def)
qed

lemma ping_dispatch:
  "streamHandlers (ping_svc impl) (clientRPCName (cc_msg ping_call)) = None"
  "find_handler (ping_svc impl) (clientRPCName (cc_msg ping_call))
     = Some (stub (span_names ping_env (opts (ping_svc impl))) (BodyPtr (Some [])) impl)"
  by (simp_all add: ping_svc_def find_handler_def ping_call_def sample_call_def span_names_def ping_env_def)

lemma ping_run:
  "run_app ping_env (ping_svc impl) impl req s = base_func ''HandleFunc'' impl (\<lparr>ctx_timeout = None\<rparr>, Some req) s"
  by (simp add: run_app_def call_timeout_def ping_svc_def ping_opts_def ServerChain_Filter_def empty_chain Let_def)

lemma ping_format:
  "body_ok (env_ser ping_env) (env_cmp ping_env) (serializationType (cc_msg ping_call)) (compressType (cc_msg ping_call))
     (\<lambda>b. \<exists>d. b = BodyPtr (Some d))"
proof -
  have "body_ok (env_ser ping_env) (env_cmp ping_env) 0 CompressTypeNoop (\<lambda>b. \<exists>d. b = BodyPtr (Some d))"
    by (rule noop_body_ok) (simp_all add: ping_env_def SerializationTypeUnsupported_def)
  then show ?thesis by (simp add: ping_call_def sample_call_def resetDefault_def CompressTypeNoop_def)
qed

theorem unary_call_returns_witness:
  "\<exists>s'. callFunc ping_cenv (ping_co twice, Some (BodyPtr (Some [7]))) ping_call = (s', Some None)
     \<and> cc_rsp s' = Some (BodyPtr (Some [7, 7]))"
proof -
  obtain s1 buf where sent: "prepareRequestBuf ping_cenv (ping_co twice) (TrpcClientCodec sample_pb sample_sp ping_up 100 ''p'')
      (Some (BodyPtr (Some [7]))) ping_call = (s1, Ok buf)"
    "serializeAndCompress ping_cenv (ping_co twice) (cc_msg ping_call) (Some (BodyPtr (Some [7]))) = Inr [7]"
    and ans: "getAndInitResponseProtocol sample_pb (cl_msg (decoded_call sample_pb sample_sp ping_up ping_opts None None buf ping_srv)) = ping_ok"
    by (rule ping_sent)
  let ?sd = "decoded_call sample_pb sample_sp ping_up (opts (ping_svc twice)) None None buf (cc_user ping_call)
    :: (noop_body, init_metas, unit) call"
  define s2 where "s2 = span_end ''HandleFunc'' (span_start ''HandleFunc'' ?sd)"
  have o: "opts (ping_svc twice) = ping_opts" "cc_user ping_call = ping_srv" by (simp_all add: ping_svc_def ping_call_def)
  have m: "cl_msg s2 = cl_msg ?sd" by (simp add: s2_def span_start_def span_end_def)
  have tr: "co_Transport (ping_co twice) = wire ping_env (ping_svc twice) None None ErrClientNoResponse" by (simp add: ping_co_def)
  have run: "run_app ping_env (ping_svc twice) twice (received (BodyPtr (Some [])) [7] (BodyPtr (Some [7]))) ?sd
      = (s2, Some (Some (BodyPtr (Some [7, 7])), None))"
    by (simp add: ping_run base_func_def twice_def received_def s2_def)
  have "\<exists>s'. callFunc ping_cenv (ping_co twice, Some (BodyPtr (Some [7]))) ping_call = (s', Some None)
     \<and> cc_rsp s' = Some (received (BodyPtr (Some [])) [7, 7] (BodyPtr (Some [7, 7])))"
  proof (rule unary_call_returns [OF ping_setting(1) tr ping_setting(2,3) _ ping_setting(4) _ ping_format _ _ _ _ sent _ ping_dispatch run m])
    show "marshalRsp ping_up ((getAndInitResponseProtocol sample_pb (cl_msg s2))\<lparr>rs_AttachmentSize := 0\<rparr>) = Some [3]"
      using ans by (simp add: m o ping_up_def ping_ok_def emptyResponseProtocol_def)
  qed (simp_all add: ping_call_def sample_call_def resetDefault_def ping_env_def codec_Marshal_def codec_Compress_def
      GetSerializer_def NoopSerialization_def CompressTypeNoop_def SerializationTypeUnsupported_def)
  then show ?thesis by (simp add: received_def)
qed

theorem unary_call_fails_witness:
  "\<exists>s' v. callFunc ping_cenv (ping_co refuse, Some (BodyPtr (Some [7]))) ping_call = (s', Some (Some v))
     \<and> deref (cc_errs s') v = err_New 5 ''no''"
proof -
  obtain s1 buf where sent: "prepareRequestBuf ping_cenv (ping_co refuse) (TrpcClientCodec sample_pb sample_sp ping_up 100 ''p'')
      (Some (BodyPtr (Some [7]))) ping_call = (s1, Ok buf)"
    "serializeAndCompress ping_cenv (ping_co refuse) (cc_msg ping_call) (Some (BodyPtr (Some [7]))) = Inr [7]"
    and ans: "getAndInitResponseProtocol sample_pb ((cl_msg (decoded_call sample_pb sample_sp ping_up ping_opts None None buf ping_srv))
       \<lparr>serverRspErr := Some (err_New 5 ''no'')\<rparr>) = ping_bad"
    by (rule ping_sent)
  let ?sd = "decoded_call sample_pb sample_sp ping_up (opts (ping_svc refuse)) None None buf (cc_user ping_call)
    :: (noop_body, init_metas, unit) call"
  define s2 where "s2 = span_end ''HandleFunc'' ((span_start ''HandleFunc'' ?sd)\<lparr>cl_errs := cl_errs ?sd @ [err_New 5 ''no'']\<rparr>)"
  let ?v = "EPtr (length (cl_errs ?sd))"
  have o: "opts (ping_svc refuse) = ping_opts" "cc_user ping_call = ping_srv" by (simp_all add: ping_svc_def ping_call_def)
  have s2: "cl_msg s2 = cl_msg ?sd" "cl_errs s2 = cl_errs ?sd @ [err_New 5 ''no'']" by (simp_all add: s2_def span_start_def span_end_def)
  have ne: "?v \<noteq> ErrServerNoResponse"
    by (simp add: ErrServerNoResponse_def decoded_call_def new_call_def count_request_def o ping_srv_def err_vars_def Let_def case_prod_beta)
  have tr: "co_Transport (ping_co refuse) = wire ping_env (ping_svc refuse) None None ErrClientNoResponse" by (simp add: ping_co_def)
  have run: "run_app ping_env (ping_svc refuse) refuse (received (BodyPtr (Some [])) [7] (BodyPtr (Some [7]))) ?sd = (s2, Some (None, Some ?v))"
    by (simp add: ping_run base_func_def refuse_def alloc_err_def s2_def span_start_def)
  have "\<exists>s' r'. callFunc ping_cenv (ping_co refuse, Some (BodyPtr (Some [7]))) ping_call = (s', Some r') \<and> cc_rsp s' = cc_rsp ping_call
    \<and> map_option (deref (cc_errs s')) r' = transported_err (ServerRspErr (pb_codes sample_pb)
        ((cl_msg s2)\<lparr>serverRspErr := Some (deref (cl_errs s2) ?v)\<rparr>)) None"
  proof (rule unary_call_fails [OF ping_setting(1) tr ping_setting(2,3) _ ping_setting(4) ping_format _ _ sent ping_dispatch run s2(1) _ _ _ refl])
    show "marshalRsp ping_up ((getAndInitResponseProtocol sample_pb ((cl_msg s2)\<lparr>serverRspErr := Some (deref (cl_errs s2) ?v)\<rparr>))
        \<lparr>rs_AttachmentSize := 0\<rparr>) = Some [4]"
      using ans by (simp add: s2 o ping_up_def ping_bad_def ping_ok_def emptyResponseProtocol_def)
  qed (use ne in \<open>simp_all add: s2 err_New_def ErrorTypeBusiness_def ErrorTypeFramework_def\<close>)
  then show ?thesis by (auto simp: s2 transported_err_def ServerRspErr_def err_New_def ErrorTypeBusiness_def ErrorTypeFramework_def)
qed

end
