(* ===== verification/Stream_Client.thy ===== *)
theory Stream_Client
  imports Client_Call Stream_Dispatcher
begin

text \<open>
  The client side of streaming: \<open>stream/client.go\<close>, the layer below it in \<open>client/stream.go\<close>, and the
  stream transport of \<open>transport/client_transport_stream.go\<close>. A client stream is a record; the state of
  the codec and of the surroundings (transport, context) is kept in it. The goroutines of a stream are
  \<open>dispatch\<close>, which reads frames into the receive queue, and \<open>monitorContextCancellation\<close>; the user's
  goroutines send and receive. Each iteration of \<open>dispatch\<close> and each call of the user is one function,
  and runs interleave them. An operation that waits (for window, a frame or a response) has the
  result \<open>None\<close>.
\<close>

subsection \<open>The transport interface\<close>

record 'w StreamTransport =
  tr_Init :: "msg \<Rightarrow> 'w \<Rightarrow> 'w \<times> msg \<times> go_error option"
  tr_Send :: "msg \<Rightarrow> bytes \<Rightarrow> 'w \<Rightarrow> 'w \<times> go_error option"
  tr_Recv :: "msg \<Rightarrow> 'w \<Rightarrow> ('w \<times> (go_error, bytes) res) option"
  tr_Close :: "msg \<Rightarrow> 'w \<Rightarrow> 'w"

text \<open>The options of a stream beside those of a call; \<open>Init\<close> has refused options without a codec.\<close>

record ('b, 'c, 'w) stream_opts =
  sp_call :: "('b, 'c, 'w) CallOptions"
  sp_Codec :: "'c Codec"
  sp_Transport :: "'w StreamTransport"
  sp_DisabledFlowControl :: bool
  sp_MaxWindowSize :: u32
  sp_pb :: pb_consts
  sp_STREAM_CLOSE :: u32
  sp_RetClientStreamReadEnd :: u32

record ('c, 'w) clientStream =
  cs_method :: string
  cs_ServerStreams :: bool
  cs_msg :: msg
  cs_streamID :: u32
  cs_recvQueue :: "response Queue"
  cs_closed :: bool
  cs_SControl :: "sendControl option"
  cs_RControl :: "receiveControl option"
  cs_monitor :: bool
  cs_codec :: 'c
  cs_user :: 'w

subsection \<open>client/stream.go\<close>

definition tr_fail :: "('b, 'c, 'w) stream_opts \<Rightarrow> msg \<Rightarrow> go_error \<Rightarrow> ('c, 'w) clientStream
    \<Rightarrow> ('c, 'w) clientStream \<times> msg \<times> (go_error, 'r) res" where
  "tr_fail so m e s = (s\<lparr>cs_user := tr_Close (sp_Transport so) m (cs_user s)\<rparr>, m, Err e)"

text \<open>\<open>GetWindow\<close> of the sender's flow control: it takes the window when there is some, fails when the
  context is done or the stream closed, and waits otherwise.\<close>

definition get_window :: "('b, 'c, 'w) cenv \<Rightarrow> bool \<Rightarrow> bytes \<Rightarrow> ('c, 'w) clientStream \<Rightarrow> (('c, 'w) clientStream \<times> go_error option) option" where
  "get_window ce isData buf s =
     (case cs_SControl s of
        Some sc \<Rightarrow>
          if \<not> isData then Some (s, None)
          else if GetWindow_test sc
            then Some (s\<lparr>cs_SControl := Some (GetWindow_take (word_of_nat (length buf)) sc)\<rparr>, None)
          else if cs_closed s \<or> ce_ctxErr ce (cs_user s) \<noteq> CtxOk
            then Some (s, Some (OtherError ''stream is already closed'' None))
          else None
      | None \<Rightarrow> Some (s, None))"

definition stream_Send :: "('b, 'c, 'w) cenv \<Rightarrow> ('b, 'c, 'w) stream_opts \<Rightarrow> msg \<Rightarrow> 'b option \<Rightarrow> ('c, 'w) clientStream
    \<Rightarrow> (('c, 'w) clientStream \<times> msg \<times> (go_error, unit) res) option" where
  "stream_Send ce so m body s =
     (case serializeAndCompress ce (sp_call so) m body of
        Inl t \<Rightarrow> Some (tr_fail so m (NewFrameError (RetClientEncodeFail (ce_cc ce)) t) s)
      | Inr buf \<Rightarrow>
          (case get_window ce (body \<noteq> None) buf s of
             None \<Rightarrow> None
           | Some (s, Some e) \<Rightarrow> Some (tr_fail so m e s)
           | Some (s, None) \<Rightarrow>
               (case cd_Encode (sp_Codec so) (cs_codec s) m buf of
                  (c, m, Err t) \<Rightarrow>
                    Some (tr_fail so m (NewFrameError (RetClientEncodeFail (ce_cc ce)) (''client codec Encode: '' @ t)) (s\<lparr>cs_codec := c\<rparr>))
                | (c, m, Panic) \<Rightarrow> Some (s\<lparr>cs_codec := c\<rparr>, m, Panic)
                | (c, m, Ok reqBuf) \<Rightarrow>
                    (case tr_Send (sp_Transport so) m reqBuf (cs_user s) of
                       (w, None) \<Rightarrow> Some (s\<lparr>cs_codec := c, cs_user := w\<rparr>, m, Ok ())
                     | (w, Some e) \<Rightarrow> Some (tr_fail so m e (s\<lparr>cs_codec := c, cs_user := w\<rparr>))))))"

definition stream_Recv :: "('b, 'c, 'w) cenv \<Rightarrow> ('b, 'c, 'w) stream_opts \<Rightarrow> msg \<Rightarrow> ('c, 'w) clientStream
    \<Rightarrow> (('c, 'w) clientStream \<times> msg \<times> (go_error, bytes) res) option" where
  "stream_Recv ce so m s =
     (case tr_Recv (sp_Transport so) m (cs_user s) of
        None \<Rightarrow> None
      | Some (w, Err e) \<Rightarrow> Some (tr_fail so m e (s\<lparr>cs_user := w\<rparr>))
      | Some (w, Panic) \<Rightarrow> Some (s\<lparr>cs_user := w\<rparr>, m, Panic)
      | Some (w, Ok rspBuf) \<Rightarrow>
          Some (case cd_Decode (sp_Codec so) (cs_codec s) m rspBuf of
             (c, m, Err t) \<Rightarrow>
               tr_fail so m (NewFrameError (RetClientDecodeFail (ce_cc ce)) (''client codec Decode: '' @ t)) (s\<lparr>cs_codec := c, cs_user := w\<rparr>)
           | (c, m, Panic) \<Rightarrow> (s\<lparr>cs_codec := c, cs_user := w\<rparr>, m, Panic)
           | (c, m, Ok body) \<Rightarrow>
               (let s = s\<lparr>cs_codec := c, cs_user := w\<rparr> in
                case clientRspErr m of
                  Some e \<Rightarrow> tr_fail so m e s
                | None \<Rightarrow>
                    (let ct = (if IsValidCompressType (co_CurrentCompressType (sp_call so)) then co_CurrentCompressType (sp_call so)
                               else compressType m)
                     in if body = [] \<or> \<not> IsValidCompressType ct \<or> ct = CompressTypeNoop then (s, m, Ok body)
                        else case codec_Decompress (ce_cmp ce) ct body of
                               Inr b \<Rightarrow> (s, m, Ok b)
                             | Inl t \<Rightarrow> tr_fail so m
                                 (NewFrameError (RetClientDecodeFail (ce_cc ce)) (''client codec Decompress: '' @ t)) s))))"

subsection \<open>Sending\<close>

definition stream_msg :: "('b, 'c, 'w) stream_opts \<Rightarrow> u8 \<Rightarrow> ('c, 'w) clientStream \<Rightarrow> msg" where
  "stream_msg so t s = (WithCloneContextAndMessage (Some (cs_msg s)))\<lparr>
     frameHead := TrpcFrameHead (newFrameHead (sp_pb so) t (cs_streamID s)), streamID := cs_streamID s\<rparr>"

abbreviation drop_msg :: "('s \<times> msg \<times> 'r) option \<Rightarrow> ('s \<times> 'r) option" where
  "drop_msg r \<equiv> map_option (\<lambda>(s, m, x). (s, x)) r"

definition cs_SendMsg :: "('b, 'c, 'w) cenv \<Rightarrow> ('b, 'c, 'w) stream_opts \<Rightarrow> 'b option \<Rightarrow> ('c, 'w) clientStream
    \<Rightarrow> (('c, 'w) clientStream \<times> (go_error, unit) res) option" where
  "cs_SendMsg ce so body s =
     drop_msg (stream_Send ce so
       ((WithClientRPCName (cs_method s) (stream_msg so (TRPC_STREAM_FRAME_DATA (sp_pb so)) s))\<lparr>compressType := compressType (cs_msg s)\<rparr>) body s)"

definition cs_CloseSend :: "('b, 'c, 'w) cenv \<Rightarrow> ('b, 'c, 'w) stream_opts \<Rightarrow> ('c, 'w) clientStream
    \<Rightarrow> (('c, 'w) clientStream \<times> (go_error, unit) res) option" where
  "cs_CloseSend ce so s =
     drop_msg (stream_Send ce so
       ((stream_msg so (TRPC_STREAM_FRAME_CLOSE (sp_pb so)) s)\<lparr>streamFrame :=
          StreamClose \<lparr>cm_CloseType = sp_STREAM_CLOSE so, cm_Ret = 0, cm_FuncRet = 0, cm_Msg = [], cm_MessageType = 0,
            cm_TransInfo = None\<rparr>\<rparr>) None s)"

definition cs_feedback :: "('b, 'c, 'w) cenv \<Rightarrow> ('b, 'c, 'w) stream_opts \<Rightarrow> u32 \<Rightarrow> ('c, 'w) clientStream
    \<Rightarrow> (('c, 'w) clientStream \<times> (go_error, unit) res) option" where
  "cs_feedback ce so i s =
     drop_msg (stream_Send ce so
       ((WithClientRPCName (cs_method s) (stream_msg so (TRPC_STREAM_FRAME_FEEDBACK (sp_pb so)) s))\<lparr>
          streamFrame := StreamFeedBack \<lparr>fb_WindowSizeIncrement = i\<rparr>\<rparr>) None s)"

subsection \<open>Receiving\<close>

definition recvFlowCtl :: "('b, 'c, 'w) cenv \<Rightarrow> ('b, 'c, 'w) stream_opts \<Rightarrow> nat \<Rightarrow> ('c, 'w) clientStream
    \<Rightarrow> (('c, 'w) clientStream \<times> (go_error, unit) res) option" where
  "recvFlowCtl ce so n s =
     (case cs_RControl s of
        None \<Rightarrow> Some (s, Ok ())
      | Some rc \<Rightarrow>
          if cs_closed s then Some (s, Ok ())
          else (case OnRecv (word_of_nat n) rc of
                  (rc', None) \<Rightarrow> Some (s\<lparr>cs_RControl := Some rc'\<rparr>, Ok ())
                | (rc', Some i) \<Rightarrow> cs_feedback ce so i (s\<lparr>cs_RControl := Some rc'\<rparr>)))"

definition dealContextDone :: "('b, 'c, 'w) cenv \<Rightarrow> ('c, 'w) clientStream \<Rightarrow> go_error option" where
  "dealContextDone ce s =
     (case ce_ctxErr ce (cs_user s) of
        CtxCanceled \<Rightarrow> Some (NewFrameError (RetClientCanceled (ce_cc ce)) (''tcp client stream canceled before recv: '' @ ce_ctxErrText ce))
      | CtxDeadlineExceeded \<Rightarrow> Some (NewFrameError (RetClientTimeout (ce_cc ce))
          (''tcp client stream canceled timeout before recv: '' @ ce_ctxErrText ce))
      | CtxOk \<Rightarrow> None)"

text \<open>\<open>recvQueue.Get\<close>: the queue was made with the context's \<open>Done\<close> channel.\<close>

definition cs_get :: "('b, 'c, 'w) cenv \<Rightarrow> ('c, 'w) clientStream \<Rightarrow> (('c, 'w) clientStream \<times> response option) option" where
  "cs_get ce s =
     (case queue_TryGet (cs_recvQueue s) of
        Some (q, r) \<Rightarrow> Some (s\<lparr>cs_recvQueue := q\<rparr>, Some r)
      | None \<Rightarrow> if ce_ctxErr ce (cs_user s) = CtxOk then None else Some (s, None))"

definition cs_recv :: "('b, 'c, 'w) cenv \<Rightarrow> ('b, 'c, 'w) stream_opts \<Rightarrow> 'b option \<Rightarrow> ('c, 'w) clientStream
    \<Rightarrow> (('c, 'w) clientStream \<times> (go_error, 'b option) res) option" where
  "cs_recv ce so body s =
     (case cs_get ce s of
        None \<Rightarrow> None
      | Some (s, None) \<Rightarrow> Some (s, case dealContextDone ce s of Some e \<Rightarrow> Err e | None \<Rightarrow> Ok body)
      | Some (s, Some resp) \<Rightarrow>
          (case rsp_err resp of
             Some e \<Rightarrow> Some (s, Err e)
           | None \<Rightarrow>
               (case recvFlowCtl ce so (length (rsp_data resp)) s of
                  None \<Rightarrow> None
                | Some (s, Err e) \<Rightarrow> Some (s, Err e)
                | Some (s, Panic) \<Rightarrow> Some (s, Panic)
                | Some (s, Ok _) \<Rightarrow>
                    (let st = (if IsValidSerializationType (co_CurrentSerializationType (sp_call so))
                               then co_CurrentSerializationType (sp_call so) else serializationType (cs_msg s))
                     in Some (s, case codec_Unmarshal (ce_ser ce) st (rsp_data resp) body of
                          Inl t \<Rightarrow> Err (NewFrameError (RetClientDecodeFail (ce_cc ce)) (''client codec Unmarshal: '' @ t))
                        | Inr b \<Rightarrow> Ok b)))))"

definition cs_RecvMsg :: "('b, 'c, 'w) cenv \<Rightarrow> ('b, 'c, 'w) stream_opts \<Rightarrow> 'b option \<Rightarrow> ('c, 'w) clientStream
    \<Rightarrow> (('c, 'w) clientStream \<times> (go_error, 'b option) res) option" where
  "cs_RecvMsg ce so body s =
     (case cs_recv ce so body s of
        Some (s, Ok b) \<Rightarrow>
          if cs_ServerStreams s then Some (s, Ok b)
          else (case cs_recv ce so b s of
                  Some (s, Ok _) \<Rightarrow> Some (s, Err (NewFrameError (sp_RetClientStreamReadEnd so)
                    ''client streaming protocol violation: get <nil>, want <EOF>''))
                | Some (s, Err e) \<Rightarrow> Some (s, if e = EOF then Ok b else Err e)
                | r \<Rightarrow> r)
      | r \<Rightarrow> r)"

subsection \<open>The dispatch goroutine\<close>

definition cs_close :: "('c, 'w) clientStream \<Rightarrow> ('c, 'w) clientStream" where
  "cs_close s = s\<lparr>cs_closed := True\<rparr>"

definition cs_put :: "response \<Rightarrow> ('c, 'w) clientStream \<Rightarrow> ('c, 'w) clientStream" where
  "cs_put r s = s\<lparr>cs_recvQueue := queue_Put r (cs_recvQueue s)\<rparr>"

definition cs_handleFeedback :: "msg \<Rightarrow> ('c, 'w) clientStream \<Rightarrow> ('c, 'w) clientStream" where
  "cs_handleFeedback m s =
     (case (streamFrame m, cs_SControl s) of
        (StreamFeedBack fb, Some sc) \<Rightarrow>
          (let (sc, sig) = UpdateWindow_add (fb_WindowSizeIncrement fb) sc
           in s\<lparr>cs_SControl := Some (if sig then UpdateWindow_signal sc else sc)\<rparr>)
      | _ \<Rightarrow> s)"

definition handleFrame :: "pb_consts \<Rightarrow> msg \<Rightarrow> bytes \<Rightarrow> FrameHead \<Rightarrow> ('c, 'w) clientStream \<Rightarrow> ('c, 'w) clientStream \<times> go_error option" where
  "handleFrame pb m respData h s =
     (if StreamFrameType h = TRPC_STREAM_FRAME_DATA pb then (cs_put \<lparr>rsp_data = respData, rsp_err = None\<rparr> s, None)
      else if StreamFrameType h = TRPC_STREAM_FRAME_CLOSE pb then
        (let err = (case clientRspErr m of Some e \<Rightarrow> e | None \<Rightarrow> EOF) in (cs_put \<lparr>rsp_data = [], rsp_err = Some err\<rparr> s, Some err))
      else if StreamFrameType h = TRPC_STREAM_FRAME_FEEDBACK pb then (cs_handleFeedback m s, None)
      else (s, None))"

text \<open>One iteration of the loop: the flag tells whether it goes on. A panic ends the process.\<close>

definition dispatch_iter :: "('b, 'c, 'w) cenv \<Rightarrow> ('b, 'c, 'w) stream_opts \<Rightarrow> ('c, 'w) clientStream
    \<Rightarrow> (('c, 'w) clientStream \<times> (go_error, bool) res) option" where
  "dispatch_iter ce so s =
     (let m = (WithCloneContextAndMessage (Some (cs_msg s)))\<lparr>compressType := compressType (cs_msg s), streamID := cs_streamID s\<rparr> in
      case stream_Recv ce so m s of
        None \<Rightarrow> None
      | Some (s, m, Panic) \<Rightarrow> Some (s, Panic)
      | Some (s, m, Err e) \<Rightarrow>
          Some (cs_put \<lparr>rsp_data = [], rsp_err = WrapFrameError (Some e) (sp_RetClientStreamReadEnd so) ''stream is already closed''\<rparr> s, Ok False)
      | Some (s, m, Ok respData) \<Rightarrow>
          (case frameHead m of
             TrpcFrameHead h \<Rightarrow>
               (case handleFrame (sp_pb so) m respData h s of (s, e) \<Rightarrow> Some (s, Ok (e = None)))
           | _ \<Rightarrow> Some (cs_put \<lparr>rsp_data = [], rsp_err = Some (OtherError ''frameHead is invalid'' None)\<rparr> s, Ok False)))"

definition dispatch_end :: "('b, 'c, 'w) stream_opts \<Rightarrow> ('c, 'w) clientStream \<Rightarrow> ('c, 'w) clientStream" where
  "dispatch_end so s = cs_close (s\<lparr>cs_user := tr_Close (sp_Transport so) (cs_msg s) (cs_user s)\<rparr>)"

text \<open>At most \<open>n\<close> iterations; the flag tells whether the goroutine has ended.\<close>

fun dispatch :: "('b, 'c, 'w) cenv \<Rightarrow> ('b, 'c, 'w) stream_opts \<Rightarrow> nat \<Rightarrow> ('c, 'w) clientStream \<Rightarrow> ('c, 'w) clientStream \<times> bool" where
  "dispatch ce so 0 s = (s, False)"
| "dispatch ce so (Suc n) s =
     (case dispatch_iter ce so s of
        None \<Rightarrow> (s, False)
      | Some (s, Ok True) \<Rightarrow> dispatch ce so n s
      | Some (s, _) \<Rightarrow> (dispatch_end so s, True))"

text \<open>\<open>monitorContextCancellation\<close>, when its \<open>select\<close> can proceed.\<close>

definition monitor_step :: "('b, 'c, 'w) cenv \<Rightarrow> ('b, 'c, 'w) stream_opts \<Rightarrow> ('c, 'w) clientStream \<Rightarrow> ('c, 'w) clientStream option" where
  "monitor_step ce so s =
     (if \<not> cs_monitor s then None
      else if ce_ctxErr ce (cs_user s) \<noteq> CtxOk then Some ((dispatch_end so s)\<lparr>cs_monitor := False\<rparr>)
      else if cs_closed s then Some (s\<lparr>cs_monitor := False\<rparr>)
      else None)"

subsection \<open>Opening a stream\<close>

text \<open>\<open>NewStreamClient\<close> and the identifier of the next stream.\<close>

definition NewStreamClient :: u32 where
  "NewStreamClient = 99"

definition next_streamID :: "u32 \<Rightarrow> u32" where
  "next_streamID lastID = lastID + 1"

definition new_clientStream :: "bool \<Rightarrow> string \<Rightarrow> u32 \<Rightarrow> msg \<Rightarrow> 'c \<Rightarrow> 'w \<Rightarrow> ('c, 'w) clientStream" where
  "new_clientStream serverStreams method sid m c w = \<lparr>cs_method = method, cs_ServerStreams = serverStreams,
     cs_msg = (WithClientRPCName method m)\<lparr>streamID := sid\<rparr>, cs_streamID = sid, cs_recvQueue = queue_New, cs_closed = False,
     cs_SControl = None, cs_RControl = None, cs_monitor = False, cs_codec = c, cs_user = w\<rparr>"

definition configSendControl :: "u32 \<Rightarrow> ('c, 'w) clientStream \<Rightarrow> ('c, 'w) clientStream" where
  "configSendControl initWindowSize s =
     (if initWindowSize = 0 then s\<lparr>cs_RControl := None, cs_SControl := None\<rparr>
      else if cs_SControl s = None then s\<lparr>cs_SControl := Some (newSendControl initWindowSize)\<rparr>
      else s)"

definition copyMetaData :: "msg \<Rightarrow> msg \<Rightarrow> msg" where
  "copyMetaData dst src = (case clientMetaData src of None \<Rightarrow> dst | md \<Rightarrow> WithClientMetaData (md_Clone md) dst)"

definition init_window :: "('b, 'c, 'w) stream_opts \<Rightarrow> u32" where
  "init_window so = (if sp_DisabledFlowControl so then 0 else getWindowSize (sp_MaxWindowSize so))"

definition init_msg :: "('b, 'c, 'w) stream_opts \<Rightarrow> ('c, 'w) clientStream \<Rightarrow> msg" where
  "init_msg so s =
     (WithClientRPCName (cs_method s)
        ((copyMetaData (WithCloneContextAndMessage (Some (cs_msg s))) (cs_msg s))\<lparr>
           frameHead := TrpcFrameHead (newFrameHead (sp_pb so) (TRPC_STREAM_FRAME_INIT (sp_pb so)) (cs_streamID s))\<rparr>))\<lparr>
      streamID := cs_streamID s, compressType := compressType (cs_msg s),
      streamFrame := StreamInit \<lparr>im_RequestMeta = Some \<lparr>irq_Caller = [], irq_Callee = [], irq_Func = [], irq_MessageType = 0,
        irq_TransInfo = None\<rparr>, im_ResponseMeta = None, im_ContentType = 0, im_ContentEncoding = 0,
        im_InitWindowSize = init_window so\<rparr>\<rparr>"

text \<open>\<open>invoke\<close> with the stream's own context; the message it sends the init frame with also receives the
  answer.\<close>

definition invoke :: "('b, 'c, 'w) cenv \<Rightarrow> ('b, 'c, 'w) stream_opts \<Rightarrow> ('c, 'w) clientStream
    \<Rightarrow> (('c, 'w) clientStream \<times> (go_error, unit) res) option" where
  "invoke ce so s =
     (case tr_Init (sp_Transport so) (cs_msg s) (cs_user s) of
        (w, m, Some e) \<Rightarrow> Some (s\<lparr>cs_user := w, cs_msg := m\<rparr>, Err e)
      | (w, m, None) \<Rightarrow>
          (let s = s\<lparr>cs_user := w, cs_msg := m\<rparr>; newMsg = init_msg so s;
               s = (if cs_RControl s = None then s\<lparr>cs_RControl := Some (newReceiveControl (init_window so) True)\<rparr> else s) in
           case stream_Send ce so newMsg None s of
             None \<Rightarrow> None
           | Some (s, newMsg, Err e) \<Rightarrow> Some (s, Err e)
           | Some (s, newMsg, Panic) \<Rightarrow> Some (s, Panic)
           | Some (s, newMsg, Ok _) \<Rightarrow>
               (case stream_Recv ce so newMsg (s\<lparr>cs_monitor := True\<rparr>) of
                  None \<Rightarrow> None
                | Some (s, newMsg, Err e) \<Rightarrow> Some (s, Err e)
                | Some (s, newMsg, Panic) \<Rightarrow> Some (s, Panic)
                | Some (s, newMsg, Ok _) \<Rightarrow>
                    (case streamFrame newMsg of
                       StreamInit im \<Rightarrow> Some (configSendControl (im_InitWindowSize im) s, Ok ())
                     | _ \<Rightarrow> Some (s, Err (OtherError ''unexpected frame type'' None))))))"

subsection \<open>transport/client\_transport\_stream.go\<close>

text \<open>The virtual connections of the multiplexed pool are the interface \<open>MuxConn\<close>; a connection is a
  handle. \<open>getOptions\<close> checks options that do not change during a stream.\<close>

record 'w MuxPool =
  mp_Get :: "u32 \<Rightarrow> 'w \<Rightarrow> 'w \<times> (string + nat)"
  mp_Addr :: "nat \<Rightarrow> net_addr \<times> net_addr"
  mp_Write :: "nat \<Rightarrow> bytes \<Rightarrow> 'w \<Rightarrow> 'w \<times> go_error option"
  mp_Read :: "nat \<Rightarrow> 'w \<Rightarrow> ('w \<times> (go_error, bytes) res) option"
  mp_Close :: "nat \<Rightarrow> 'w \<Rightarrow> 'w"

record 'w clientStreamTransport =
  streamIDToConn :: "u32 \<rightharpoonup> nat"
  cst_pool :: 'w

definition ctx_failed :: "('b, 'c, 'x) cenv \<Rightarrow> ctx_err \<Rightarrow> string \<Rightarrow> string \<Rightarrow> go_error option" where
  "ctx_failed ce c canceled timeout =
     (case c of
        CtxOk \<Rightarrow> None
      | CtxCanceled \<Rightarrow> Some (NewFrameError (RetClientCanceled (ce_cc ce)) (canceled @ ce_ctxErrText ce))
      | CtxDeadlineExceeded \<Rightarrow> Some (NewFrameError (RetClientTimeout (ce_cc ce)) (timeout @ ce_ctxErrText ce)))"

definition cst_Init :: "('b, 'c, 'w clientStreamTransport) cenv \<Rightarrow> 'w MuxPool \<Rightarrow> msg \<Rightarrow> 'w clientStreamTransport
    \<Rightarrow> 'w clientStreamTransport \<times> msg \<times> go_error option" where
  "cst_Init ce mp m t =
     (case ctx_failed ce (ce_ctxErr ce t) ''client canceled before tcp dial: '' ''client timeout before tcp dial: '' of
        Some e \<Rightarrow> (t, m, Some e)
      | None \<Rightarrow>
          (case mp_Get mp (streamID m) (cst_pool t) of
             (w, Inl text) \<Rightarrow> (t\<lparr>cst_pool := w\<rparr>, m,
               Some (NewFrameError (RetClientConnectFail (ce_cc ce)) (''tcp client transport multiplexed pool: '' @ text)))
           | (w, Inr conn) \<Rightarrow>
               (\<lparr>streamIDToConn = (streamIDToConn t)(streamID m \<mapsto> conn), cst_pool = w\<rparr>,
                m\<lparr>remoteAddr := snd (mp_Addr mp conn), localAddr := fst (mp_Addr mp conn)\<rparr>, None)))"

definition cst_Send :: "('b, 'c, 'w clientStreamTransport) cenv \<Rightarrow> 'w MuxPool \<Rightarrow> msg \<Rightarrow> bytes \<Rightarrow> 'w clientStreamTransport
    \<Rightarrow> 'w clientStreamTransport \<times> go_error option" where
  "cst_Send ce mp m req t =
     (case streamIDToConn t (streamID m) of
        None \<Rightarrow> (t, Some (NewFrameError (RetServerSystemErr (ce_cc ce)) ''Connection is Closed''))
      | Some conn \<Rightarrow> (case mp_Write mp conn req (cst_pool t) of (w, e) \<Rightarrow> (t\<lparr>cst_pool := w\<rparr>, e)))"

definition cst_Recv :: "('b, 'c, 'w clientStreamTransport) cenv \<Rightarrow> 'w MuxPool \<Rightarrow> msg \<Rightarrow> 'w clientStreamTransport
    \<Rightarrow> ('w clientStreamTransport \<times> (go_error, bytes) res) option" where
  "cst_Recv ce mp m t =
     (case streamIDToConn t (streamID m) of
        None \<Rightarrow> Some (t, Err (NewFrameError (RetServerSystemErr (ce_cc ce)) ''Stream is not inited yet''))
      | Some conn \<Rightarrow>
          (case ctx_failed ce (ce_ctxErr ce t) ''tcp client transport canceled before Write: ''
                  ''tcp client transport timeout before Write: '' of
             Some e \<Rightarrow> Some (t, Err e)
           | None \<Rightarrow> map_option (\<lambda>(w, r). (t\<lparr>cst_pool := w\<rparr>, r)) (mp_Read mp conn (cst_pool t))))"

definition cst_Close :: "'w MuxPool \<Rightarrow> msg \<Rightarrow> 'w clientStreamTransport \<Rightarrow> 'w clientStreamTransport" where
  "cst_Close mp m t =
     (case streamIDToConn t (streamID m) of
        None \<Rightarrow> t
      | Some conn \<Rightarrow> \<lparr>streamIDToConn = (streamIDToConn t)(streamID m := None), cst_pool = mp_Close mp conn (cst_pool t)\<rparr>)"

definition NewClientStreamTransport :: "('b, 'c, 'w clientStreamTransport) cenv \<Rightarrow> 'w MuxPool \<Rightarrow> 'w clientStreamTransport StreamTransport" where
  "NewClientStreamTransport ce mp = \<lparr>tr_Init = cst_Init ce mp, tr_Send = cst_Send ce mp, tr_Recv = cst_Recv ce mp,
     tr_Close = cst_Close mp\<rparr>"

end
