(* ===== verification/Stream_Session.thy ===== *)
theory Stream_Session
  imports Stream_Client Rpc_Call
begin

text \<open>
  Client and server of a stream together, through the tRPC codecs: what the handler of a stream
  sends is what the client's \<open>RecvMsg\<close> returns, in order and followed by the end of the stream or by
  the handler's error; what the client sends reaches the queue of the server's stream; and opening a
  stream makes the flow control of both ends agree. The network is a pair of frame queues.
\<close>

record net =
  net_in :: "bytes list"
  net_out :: "bytes list"
  net_closed :: bool

text \<open>A closed connection answers as the stream transport does when the stream has no connection any more.\<close>

definition pipe :: "u32 \<Rightarrow> net StreamTransport" where
  "pipe code = \<lparr>tr_Init = (\<lambda>m w. (w, m, None)),
     tr_Send = (\<lambda>m f w. if net_closed w then (w, Some (NewFrameError code ''Connection is Closed''))
                         else (w\<lparr>net_out := net_out w @ [f]\<rparr>, None)),
     tr_Recv = (\<lambda>m w. if net_closed w then Some (w, Err (NewFrameError code ''Stream is not inited yet''))
                       else case net_in w of [] \<Rightarrow> None | f # fs \<Rightarrow> Some (w\<lparr>net_in := fs\<rparr>, Ok f)),
     tr_Close = (\<lambda>m w. w\<lparr>net_closed := True\<rparr>)\<rparr>"

lemma pipe_simps [simp]:
  "tr_Init (pipe code) m w = (w, m, None)"
  "tr_Send (pipe code) m f w = (if net_closed w then (w, Some (NewFrameError code ''Connection is Closed''))
     else (w\<lparr>net_out := net_out w @ [f]\<rparr>, None))"
  "tr_Recv (pipe code) m w = (if net_closed w then Some (w, Err (NewFrameError code ''Stream is not inited yet''))
     else case net_in w of [] \<Rightarrow> None | f # fs \<Rightarrow> Some (w\<lparr>net_in := fs\<rparr>, Ok f))"
  "tr_Close (pipe code) m w = w\<lparr>net_closed := True\<rparr>"
  by (simp_all add: pipe_def)

text \<open>What the codecs rely on: the constants of the protocol are distinct, and unmarshalling inverts
  marshalling; feedback frames fit into a frame.\<close>

definition stream_proto :: "pb_consts \<Rightarrow> stream_pb \<Rightarrow> nat \<Rightarrow> bool" where
  "stream_proto pb sp maxSize \<longleftrightarrow>
     TRPC_STREAM_FRAME pb \<noteq> TRPC_UNARY_FRAME pb
   \<and> distinct [TRPC_STREAM_FRAME_INIT pb, TRPC_STREAM_FRAME_DATA pb, TRPC_STREAM_FRAME_CLOSE pb, TRPC_STREAM_FRAME_FEEDBACK pb]
   \<and> (\<forall>c b. marshalClose sp c = Some b \<longrightarrow> unmarshalClose sp b = Some c)
   \<and> (\<forall>im b. marshalInit sp im = Some b \<longrightarrow> unmarshalInit sp b = Some im)
   \<and> (\<forall>fb b. marshalFeedBack sp fb = Some b \<longrightarrow> unmarshalFeedBack sp b = Some fb)
   \<and> (\<forall>fb. \<exists>b. marshalFeedBack sp fb = Some b \<and> 16 + length b \<le> maxSize)
   \<and> maxSize < 2 ^ 32"

lemma stream_proto_ne:
  assumes "stream_proto pb sp maxSize"
  shows "TRPC_STREAM_FRAME_DATA pb \<noteq> TRPC_STREAM_FRAME_INIT pb" "TRPC_STREAM_FRAME_CLOSE pb \<noteq> TRPC_STREAM_FRAME_INIT pb"
    "TRPC_STREAM_FRAME_FEEDBACK pb \<noteq> TRPC_STREAM_FRAME_INIT pb" "TRPC_STREAM_FRAME_CLOSE pb \<noteq> TRPC_STREAM_FRAME_DATA pb"
    "TRPC_STREAM_FRAME_FEEDBACK pb \<noteq> TRPC_STREAM_FRAME_DATA pb" "TRPC_STREAM_FRAME_FEEDBACK pb \<noteq> TRPC_STREAM_FRAME_CLOSE pb"
  using assms by (auto simp: stream_proto_def)

lemma stream_proto_unmarshal:
  assumes "stream_proto pb sp maxSize"
  shows "marshalClose sp c = Some b \<Longrightarrow> unmarshalClose sp b = Some c" "marshalInit sp im = Some b \<Longrightarrow> unmarshalInit sp b = Some im"
    "marshalFeedBack sp fb = Some b \<Longrightarrow> unmarshalFeedBack sp b = Some fb"
    "\<exists>b. marshalFeedBack sp fb = Some b \<and> 16 + length b \<le> maxSize" "maxSize < 2 ^ 32"
  using assms by (auto simp: stream_proto_def)

text \<open>A server whose streams encode with the tRPC codec and send over the pipe.\<close>

definition trpc_stream_env :: "pb_consts \<Rightarrow> stream_pb \<Rightarrow> unary_pb \<Rightarrow> nat \<Rightarrow> init_metas \<Rightarrow> stream_env \<Rightarrow> bool" where
  "trpc_stream_env pb sp up maxSize metas env \<longleftrightarrow> env_pb env = pb
     \<and> env_Encode env = (\<lambda>m b. case sv_Encode pb sp up maxSize metas m b of
           (_, _, Ok buf) \<Rightarrow> Ok buf | (_, _, Err e) \<Rightarrow> Err (OtherError (err_text pb e) None) | (_, _, Panic) \<Rightarrow> Panic)
     \<and> env_Send env = (\<lambda>_. None) \<and> env_STREAM_CLOSE env \<noteq> TRPC_STREAM_RESET pb"

definition trpc_stream_client :: "pb_consts \<Rightarrow> stream_pb \<Rightarrow> unary_pb \<Rightarrow> nat \<Rightarrow> string
    \<Rightarrow> ('b, ClientCodec, net) cenv \<Rightarrow> ('b, ClientCodec, net) stream_opts \<Rightarrow> bool" where
  "trpc_stream_client pb sp up maxSize pn ce so \<longleftrightarrow> sp_pb so = pb \<and> sp_Codec so = TrpcClientCodec pb sp up maxSize pn
     \<and> sp_Transport so = pipe (RetServerSystemErr (ce_cc ce)) \<and> ce_ctxErr ce = (\<lambda>_. CtxOk)
     \<and> co_CurrentSerializationType (sp_call so) = -1 \<and> co_CurrentCompressType (sp_call so) = -1"

subsection \<open>Frames\<close>

text \<open>The head that the receiver of a frame reads.\<close>

definition recv_head :: "FrameHead \<Rightarrow> bytes \<Rightarrow> FrameHead" where
  "recv_head h body = h\<lparr>TotalLen := word_of_nat (16 + length body), HeaderLen := 0\<rparr>"

lemma recv_head_simps [simp]:
  "FrameType (recv_head h b) = FrameType h" "StreamFrameType (recv_head h b) = StreamFrameType h"
  "StreamID (recv_head h b) = StreamID h"
  by (simp_all add: recv_head_def)

lemma newFrameHead_simps [simp]:
  "FrameType (newFrameHead pb t i) = TRPC_STREAM_FRAME pb" "StreamFrameType (newFrameHead pb t i) = t" "StreamID (newFrameHead pb t i) = i"
  "Frame.isStream pb (newFrameHead pb t i)"
  by (simp_all add: newFrameHead_def Frame.isStream_def)

lemma frameWrite_read:
  assumes "frameWrite pb maxSize h body = Ok f"
  shows "extract_head h0 f = Ok (recv_head h body)" "payload f = body" "16 \<le> length f"
    "TotalLen (recv_head h body) = word_of_nat (length f)"
proof -
  from assms have f: "f = head_bytes pb h (word_of_nat (16 + length body)) 0 @ body"
    by (simp add: frameWrite_def construct_Ok)
  show "extract_head h0 f = Ok (recv_head h body)" unfolding f by (simp add: recv_head_def)
  show "payload f = body" "16 \<le> length f" "TotalLen (recv_head h body) = word_of_nat (length f)"
    by (simp_all add: f recv_head_def)
qed

lemma client_reads:
  assumes "frameWrite pb maxSize h body = Ok f" "Frame.isStream pb h" "stream_proto pb sp maxSize'"
  shows "cl_Decode pb sp up m f = cs_Decode pb sp (m\<lparr>frameHead := TrpcFrameHead (recv_head h body)\<rparr>) f"
  using frameWrite_read [OF assms(1)] assms(2,3)
  by (simp add: cl_Decode_def Let_def Frame.isStream_def stream_proto_def)

lemma server_reads:
  assumes "frameWrite pb maxSize h body = Ok f" "Frame.isStream pb h" "stream_proto pb sp maxSize'"
    and "ss_Decode pb sp s (m\<lparr>frameHead := TrpcFrameHead (recv_head h body)\<rparr>) f = (s', m', Ok b)"
  shows "sv_Decode pb sp up s m f = (s', m', Ok b)"
  using frameWrite_read [OF assms(1)] assms(2-4)
  by (simp add: sv_Decode_def Let_def Frame.isStream_def stream_proto_def)

subsection \<open>From server to client\<close>

lemma reply_msg_simps [simp]:
  "serverRspErr (reply_msg ss) = None" "localAddr (reply_msg ss) = localAddr (ss_ctx ss)" "remoteAddr (reply_msg ss) = remoteAddr (ss_ctx ss)"
  by (simp_all add: reply_msg_def WithCloneContextAndMessage_def copyServerToServerMessage_def copyCommonMessage_def resetDefault_def)

lemma trpc_encode_stream:
  assumes "trpc_stream_env pb sp up maxSize metas env" "env_Encode env m b = Ok f" "frameHead m = TrpcFrameHead h" "Frame.isStream pb h"
  shows "\<exists>s' m'. ss_Encode pb sp maxSize metas m b = (s', m', Ok f)"
  using assms by (auto simp: trpc_stream_env_def sv_Encode_def loadOrStoreDefaultUnaryFrameHead_def split: prod.splits res.splits)

lemma encode_send_Ok: "encode_send env m b = ([f], Ok ()) \<Longrightarrow> env_Encode env m b = Ok f"
  by (auto simp: encode_send_def split: res.splits)

text \<open>The frame of a message that a handler sends, and the frame that ends the stream.\<close>

lemma SendMsg_frame:
  assumes "trpc_stream_env pb sp up maxSize metas env" "stream_proto pb sp maxSize"
    and "ss_SendMsg env ss z = Some (ss', [f], Ok ())"
  shows "frameWrite pb maxSize (newFrameHead pb (TRPC_STREAM_FRAME_DATA pb) (ss_streamID ss)) z = Ok f"
proof -
  let ?h = "newFrameHead pb (TRPC_STREAM_FRAME_DATA pb) (ss_streamID ss)"
  have pb: "env_pb env = pb" using assms(1) by (simp add: trpc_stream_env_def)
  let ?m = "(reply_msg ss)\<lparr>compressType := compressType (ss_ctx ss), streamID := ss_streamID ss, frameHead := TrpcFrameHead ?h\<rparr>"
  have "encode_send env ?m z = ([f], Ok ())"
    using assms(3) by (auto simp: ss_SendMsg_def Let_def pb split: option.splits if_splits prod.splits)
  from trpc_encode_stream [OF assms(1) encode_send_Ok [OF this]] obtain s' m'
    where "ss_Encode pb sp maxSize metas ?m z = (s', m', Ok f)" by auto
  then show ?thesis using stream_proto_ne [OF assms(2)] by (simp add: ss_Encode_def ss_encodeDataFrame_def ServerRspErr_def Let_def)
qed

definition close_meta :: "stream_env \<Rightarrow> go_error option \<Rightarrow> u32 \<times> u32 \<times> string" where
  "close_meta env herr =
     (case herr of
        None \<Rightarrow> (env_STREAM_CLOSE env, 0, [])
      | Some e \<Rightarrow> (case errors_As e of
           None \<Rightarrow> (TRPC_STREAM_RESET (env_pb env), 0, err_Error e)
         | Some fe \<Rightarrow> (TRPC_STREAM_RESET (env_pb env), e_Code fe, e_Msg fe)))"

lemma handler_close_frame:
  assumes "trpc_stream_env pb sp up maxSize metas env" "stream_proto pb sp maxSize"
    and "sd_sent (fst (startStreamHandler env addr sid p herr sd)) = sd_sent sd @ [f]"
  shows "\<exists>c b. frameWrite pb maxSize (newFrameHead pb (TRPC_STREAM_FRAME_CLOSE pb) (ss_streamID (sd_objs sd ! p))) b = Ok f
     \<and> marshalClose sp c = Some b \<and> (cm_CloseType c, cm_Ret c, cm_Msg c) = close_meta env herr \<and> cm_FuncRet c = 0"
proof -
  let ?ss = "sd_objs sd ! p" and ?h = "newFrameHead pb (TRPC_STREAM_FRAME_CLOSE pb) (ss_streamID (sd_objs sd ! p))"
  have pb: "env_pb env = pb" using assms(1) by (simp add: trpc_stream_env_def)
  obtain t r x where c: "close_meta env herr = (t, r, x)" by (cases "close_meta env herr")
  let ?c = "\<lparr>cm_CloseType = t, cm_Ret = r, cm_FuncRet = 0, cm_Msg = x, cm_MessageType = 0, cm_TransInfo = None\<rparr>"
  let ?m = "(reply_msg ?ss)\<lparr>frameHead := TrpcFrameHead ?h, streamFrame := StreamClose ?c\<rparr>"
  have send: "fst (ss_CloseSend env ?ss t r x) = [f]"
    using assms(3) c by (auto simp: startStreamHandler_def close_meta_def Let_def pb update_obj_def split: option.splits go_error.splits res.splits)
  then have "env_Encode env ?m [] = Ok f" by (auto simp: ss_CloseSend_def encode_send_def pb split: res.splits)
  from trpc_encode_stream [OF assms(1) this] obtain s' m' where "ss_Encode pb sp maxSize metas ?m [] = (s', m', Ok f)" by auto
  then have "of_marshal (marshalClose sp (setStreamCloseMetaData ?m ?c)) (frameWrite pb maxSize ?h) = Ok f"
    using stream_proto_ne [OF assms(2)] by (auto simp: ss_Encode_def ss_encodeCloseFrame_def Let_def split: res.splits)
  then obtain b where "marshalClose sp (setStreamCloseMetaData ?m ?c) = Some b" "frameWrite pb maxSize ?h b = Ok f"
    by (auto simp: of_marshal_def split: option.splits)
  then show ?thesis unfolding c by (intro exI [of _ "setStreamCloseMetaData ?m ?c"] exI [of _ b]) (simp add: setStreamCloseMetaData_def)
qed

text \<open>One iteration of the client's dispatch goroutine on such frames.\<close>

lemma clone_simps [simp]:
  "clientRspErr (WithCloneContextAndMessage (Some m)) = None" "serializationType (WithCloneContextAndMessage (Some m)) = serializationType m"
  by (simp_all add: WithCloneContextAndMessage_def copyServerToServerMessage_def copyCommonMessage_def resetDefault_def)

lemma TrpcClientCodec_Decode:
  "cl_Decode pb sp up m f = (m', Ok b) \<Longrightarrow> cd_Decode (TrpcClientCodec pb sp up maxSize pn) c m f = (c, m', Ok b)"
  by (simp add: TrpcClientCodec_def)

lemma dispatch_data:
  assumes cl: "trpc_stream_client pb sp up maxSize pn ce so" and pr: "stream_proto pb sp maxSize"
    and f: "frameWrite pb maxSize (newFrameHead pb (TRPC_STREAM_FRAME_DATA pb) sid) z = Ok f"
    and w: "net_in (cs_user s) = f # fs" "\<not> net_closed (cs_user s)" and z: "codec_Decompress (ce_cmp ce) (compressType (cs_msg s)) z = Inr d"
    and ct: "CompressTypeNoop \<le> compressType (cs_msg s)"
  shows "dispatch_iter ce so s = Some (cs_put \<lparr>rsp_data = d, rsp_err = None\<rparr> (s\<lparr>cs_user := (cs_user s)\<lparr>net_in := fs\<rparr>\<rparr>), Ok True)"
proof -
  let ?h = "recv_head (newFrameHead pb (TRPC_STREAM_FRAME_DATA pb) sid) z"
  let ?m = "(WithCloneContextAndMessage (Some (cs_msg s)))\<lparr>compressType := compressType (cs_msg s), streamID := cs_streamID s\<rparr>"
  let ?m' = "?m\<lparr>frameHead := TrpcFrameHead ?h, streamID := sid\<rparr>"
  have "cl_Decode pb sp up ?m f = (?m', Ok z)"
    unfolding client_reads [OF f newFrameHead_simps(4) pr] using stream_proto_ne [OF pr] frameWrite_read(2) [OF f]
    by (simp add: cs_Decode_def cs_decodeDataFrame_def Let_def Frame.isStream_def)
  note dec = TrpcClientCodec_Decode [OF this, of maxSize pn "cs_codec s"]
  have "z = [] \<or> compressType (cs_msg s) = CompressTypeNoop \<Longrightarrow> d = z" using z by (auto simp: codec_Decompress_def split: if_splits)
  then show ?thesis
    using cl w dec z ct by (auto simp: dispatch_iter_def stream_Recv_def trpc_stream_client_def handleFrame_def Let_def
        IsValidCompressType_def CompressTypeNoop_def)
qed

definition final_err :: "('b, 'c, 'w) stream_opts \<Rightarrow> stream_env \<Rightarrow> go_error option \<Rightarrow> go_error" where
  "final_err so env herr =
     (case herr of
        None \<Rightarrow> EOF
      | Some e \<Rightarrow> TrpcError ErrorTypeFramework (sp_RetClientStreamReadEnd so) ''stream is already closed'' ''trpc''
          (Some (TrpcError ErrorTypeCalleeFramework (fst (snd (close_meta env herr))) (snd (snd (close_meta env herr))) ''trpc'' None)))"

lemma close_meta_simps:
  "close_meta env None = (env_STREAM_CLOSE env, 0, [])" "fst (close_meta env (Some e)) = TRPC_STREAM_RESET (env_pb env)"
  by (simp_all add: close_meta_def split: option.split)

lemma close_keeps [simp]: "clientRspErr (updateClientStreamCloseMeta m c) = clientRspErr m"
  "frameHead (updateClientStreamCloseMeta m c) = frameHead m"
  by (simp_all add: updateClientStreamCloseMeta_def WithClientMetaData_def Let_def split: head_any.split)

lemma dispatch_close:
  assumes cl: "trpc_stream_client pb sp up maxSize pn ce so" and pr: "stream_proto pb sp maxSize"
    and sv: "trpc_stream_env pb sp up maxSize metas env"
    and f: "frameWrite pb maxSize (newFrameHead pb (TRPC_STREAM_FRAME_CLOSE pb) sid) b = Ok f" "marshalClose sp c = Some b"
    and c: "(cm_CloseType c, cm_Ret c, cm_Msg c) = close_meta env herr" "cm_FuncRet c = 0"
    and w: "net_in (cs_user s) = f # fs" "\<not> net_closed (cs_user s)"
  shows "\<exists>w'. net_in w' = fs \<and> dispatch_iter ce so s = Some (cs_put \<lparr>rsp_data = [], rsp_err = Some (final_err so env herr)\<rparr> (s\<lparr>cs_user := w'\<rparr>), Ok False)"
proof -
  let ?h = "recv_head (newFrameHead pb (TRPC_STREAM_FRAME_CLOSE pb) sid) b"
  let ?m = "(WithCloneContextAndMessage (Some (cs_msg s)))\<lparr>compressType := compressType (cs_msg s), streamID := cs_streamID s\<rparr>"
  have "\<exists>m'. cl_Decode pb sp up ?m f = (m', Ok []) \<and> frameHead m' = TrpcFrameHead ?h
      \<and> clientRspErr m' = (if herr = None then None else Some (close_err c))"
    unfolding client_reads [OF f(1) newFrameHead_simps(4) pr]
    using stream_proto_ne [OF pr] frameWrite_read(2) [OF f(1)] stream_proto_unmarshal(1) [OF pr f(2)] c sv
    by (cases herr)
      (auto simp: cs_Decode_def cs_decodeCloseFrame_def Let_def Frame.isStream_def close_meta_simps trpc_stream_env_def prod_eq_iff [of "(_, _, _)"])
  then obtain m' where m': "cl_Decode pb sp up ?m f = (m', Ok [])" "frameHead m' = TrpcFrameHead ?h"
    "clientRspErr m' = (if herr = None then None else Some (close_err c))" by blast
  note dec = TrpcClientCodec_Decode [OF m'(1), of maxSize pn "cs_codec s"]
  show ?thesis
  proof (cases herr)
    case None
    then show ?thesis using cl w dec m'(2,3) stream_proto_ne [OF pr]
      by (intro exI [of _ "(cs_user s)\<lparr>net_in := fs\<rparr>"])
        (simp add: dispatch_iter_def stream_Recv_def trpc_stream_client_def handleFrame_def final_err_def)
  next
    case (Some e)
    then have "close_err c = TrpcError ErrorTypeCalleeFramework (fst (snd (close_meta env herr))) (snd (snd (close_meta env herr))) ''trpc'' None"
      using c(1) by (metis close_err_def fst_conv snd_conv)
    then show ?thesis using cl w dec m'(2,3) Some
      by (intro exI [of _ "(cs_user s)\<lparr>net_in := fs, net_closed := True\<rparr>"])
        (simp add: dispatch_iter_def stream_Recv_def trpc_stream_client_def final_err_def tr_fail_def WrapFrameError_def)
  qed
qed

subsection \<open>Sending over the pipe\<close>

lemma frameWrite_Ok: "16 + length b \<le> maxSize \<Longrightarrow> maxSize < 2 ^ 32 \<Longrightarrow> \<exists>f. frameWrite pb maxSize h b = Ok f"
  by (simp add: frameWrite_def construct_Ok)

lemma stream_Send_pipe:
  assumes "trpc_stream_client pb sp up maxSize pn ce so" "serializeAndCompress ce (sp_call so) m body = Inr buf"
    "get_window ce (body \<noteq> None) buf s = Some (s1, None)" "cs_Encode pb sp maxSize pn m buf = (m', Ok f)"
    "frameHead m = TrpcFrameHead h" "Frame.isStream pb h" "\<not> net_closed (cs_user s1)"
  shows "stream_Send ce so m body s = Some (s1\<lparr>cs_user := (cs_user s1)\<lparr>net_out := net_out (cs_user s1) @ [f]\<rparr>\<rparr>, m', Ok ())"
  using assms by (simp add: stream_Send_def trpc_stream_client_def TrpcClientCodec_def cl_Encode_def loadOrStoreDefaultUnaryFrameHead_def)

lemma serialize_nothing: "serializeAndCompress ce co m None = Inr []"
  by (simp add: serializeAndCompress_def codec_Marshal_def codec_Compress_empty Let_def)

lemma serialize_cong: "serializationType m = serializationType m' \<Longrightarrow> compressType m = compressType m' \<Longrightarrow>
    serializeAndCompress ce co m b = serializeAndCompress ce co m' b"
  unfolding serializeAndCompress_def by (simp only:)

lemma get_window_control [simp]: "get_window ce False buf s = Some (s, None)"
  by (simp add: get_window_def split: option.split)

lemma setters_frame [simp]: "frameHead (WithClientRPCName n m) = frameHead m" "streamFrame (WithClientRPCName n m) = streamFrame m"
  "serializationType (WithClientRPCName n m) = serializationType m" "compressType (WithClientRPCName n m) = compressType m"
  by (simp_all add: WithClientRPCName_def updateMethodNameUsingRPCName_def)

lemma stream_msg_head [simp]: "frameHead (stream_msg so t s) = TrpcFrameHead (newFrameHead (sp_pb so) t (cs_streamID s))"
  "serializationType (stream_msg so t s) = serializationType (cs_msg s)"
  by (simp_all add: stream_msg_def)

lemma feedback_sent:
  assumes cl: "trpc_stream_client pb sp up maxSize pn ce so" and pr: "stream_proto pb sp maxSize" and op: "\<not> net_closed (cs_user s)"
  shows "\<exists>f b. marshalFeedBack sp \<lparr>fb_WindowSizeIncrement = i\<rparr> = Some b
     \<and> frameWrite pb maxSize (newFrameHead pb (TRPC_STREAM_FRAME_FEEDBACK pb) (cs_streamID s)) b = Ok f
     \<and> cs_feedback ce so i s = Some (s\<lparr>cs_user := (cs_user s)\<lparr>net_out := net_out (cs_user s) @ [f]\<rparr>\<rparr>, Ok ())"
proof -
  have pb: "sp_pb so = pb" using cl by (simp add: trpc_stream_client_def)
  let ?h = "newFrameHead pb (TRPC_STREAM_FRAME_FEEDBACK pb) (cs_streamID s)"
  let ?m = "(WithClientRPCName (cs_method s) (stream_msg so (TRPC_STREAM_FRAME_FEEDBACK (sp_pb so)) s))\<lparr>
          streamFrame := StreamFeedBack \<lparr>fb_WindowSizeIncrement = i\<rparr>\<rparr>"
  obtain b where b: "marshalFeedBack sp \<lparr>fb_WindowSizeIncrement = i\<rparr> = Some b" "16 + length b \<le> maxSize"
    using stream_proto_unmarshal(4) [OF pr] by blast
  obtain f where f: "frameWrite pb maxSize ?h b = Ok f" using frameWrite_Ok [OF b(2) stream_proto_unmarshal(5) [OF pr]] by blast
  have "cs_Encode pb sp maxSize pn ?m [] = (?m, Ok f)"
    using b f stream_proto_ne [OF pr] by (simp add: cs_Encode_def cs_encodeFeedbackFrame_def of_marshal_def pb Let_def)
  from stream_Send_pipe [OF cl serialize_nothing _ this, where h = ?h and s = s and ?s1.0 = s] b f op show ?thesis
    by (auto simp: cs_feedback_def pb)
qed

lemma recvFlowCtl_pipe:
  assumes "trpc_stream_client pb sp up maxSize pn ce so" "stream_proto pb sp maxSize" "cs_closed s \<or> \<not> net_closed (cs_user s)"
  shows "\<exists>rc w. net_in w = net_in (cs_user s) \<and> net_closed w = net_closed (cs_user s) \<and> recvFlowCtl ce so n s = Some (s\<lparr>cs_RControl := rc, cs_user := w\<rparr>, Ok ())"
proof (cases "cs_RControl s")
  case None
  then show ?thesis by (intro exI [of _ None] exI [of _ "cs_user s"]) (simp add: recvFlowCtl_def)
next
  case (Some rc)
  obtain rc' fb where r: "OnRecv (word_of_nat n) rc = (rc', fb)" by (cases "OnRecv (word_of_nat n) rc")
  let ?s = "s\<lparr>cs_RControl := Some rc'\<rparr>"
  show ?thesis
  proof (cases "cs_closed s \<or> fb = None")
    case True
    then show ?thesis using Some r
      by (intro exI [of _ "if cs_closed s then Some rc else Some rc'"] exI [of _ "cs_user s"]) (auto simp: recvFlowCtl_def)
  next
    case False
    then obtain i where i: "fb = Some i" "\<not> cs_closed s" by auto
    from feedback_sent [OF assms(1,2), where s = ?s and i = i] assms(3) i(2) obtain f where
      "cs_feedback ce so i ?s = Some (?s\<lparr>cs_user := (cs_user s)\<lparr>net_out := net_out (cs_user s) @ [f]\<rparr>\<rparr>, Ok ())" by auto
    then show ?thesis using Some r i
      by (intro exI [of _ "Some rc'"] exI [of _ "(cs_user s)\<lparr>net_out := net_out (cs_user s) @ [f]\<rparr>"]) (simp add: recvFlowCtl_def)
  qed
qed

subsection \<open>Runs of a client stream\<close>

text \<open>The dispatch goroutine iterates, and its user receives and sends, in any order. The two deferred
  calls at the end of \<open>dispatch\<close> belong to its last iteration. The log holds the results of \<open>RecvMsg\<close>.\<close>

datatype 'b cs_op = DoDispatch | DoRecv | DoSend 'b

type_synonym ('b, 'c, 'w) cs_state = "('c, 'w) clientStream \<times> bool \<times> (go_error, 'b option) res list"

fun cs_step :: "('b, 'c, 'w) cenv \<Rightarrow> ('b, 'c, 'w) stream_opts \<Rightarrow> 'b \<Rightarrow> ('b, 'c, 'w) cs_state \<Rightarrow> 'b cs_op \<Rightarrow> ('b, 'c, 'w) cs_state" where
  "cs_step ce so new (s, ended, lg) DoDispatch =
     (if ended then (s, ended, lg) else case dispatch ce so 1 s of (s, ended) \<Rightarrow> (s, ended, lg))"
| "cs_step ce so new (s, ended, lg) DoRecv =
     (case cs_RecvMsg ce so (Some new) s of None \<Rightarrow> (s, ended, lg) | Some (s, r) \<Rightarrow> (s, ended, lg @ [r]))"
| "cs_step ce so new (s, ended, lg) (DoSend b) =
     (case cs_SendMsg ce so (Some b) s of None \<Rightarrow> (s, ended, lg) | Some (s, r) \<Rightarrow> (s, ended, lg))"

definition cs_run :: "('b, 'c, 'w) cenv \<Rightarrow> ('b, 'c, 'w) stream_opts \<Rightarrow> 'b \<Rightarrow> ('c, 'w) clientStream \<Rightarrow> 'b cs_op list \<Rightarrow> ('b, 'c, 'w) cs_state" where
  "cs_run ce so new s ops = foldl (cs_step ce so new) (s, False, []) ops"

text \<open>What \<open>RecvMsg\<close> makes of a response.\<close>

definition cs_result :: "('b, 'c, 'w) cenv \<Rightarrow> msg \<Rightarrow> 'b \<Rightarrow> response \<Rightarrow> (go_error, 'b option) res" where
  "cs_result ce m new r =
     (case response.rsp_err r of
        Some e \<Rightarrow> Err e
      | None \<Rightarrow> (case codec_Unmarshal (ce_ser ce) (serializationType m) (rsp_data r) (Some new) of
           Inl t \<Rightarrow> Err (NewFrameError (RetClientDecodeFail (ce_cc ce)) (''client codec Unmarshal: '' @ t))
         | Inr b \<Rightarrow> Ok b))"

lemma RecvMsg_pipe:
  assumes cl: "trpc_stream_client pb sp up maxSize pn ce so" and pr: "stream_proto pb sp maxSize"
    and s: "cs_closed s \<or> \<not> net_closed (cs_user s)" "cs_ServerStreams s" and q: "items (cs_recvQueue s) = r # rs"
  shows "\<exists>rc w. net_in w = net_in (cs_user s) \<and> net_closed w = net_closed (cs_user s)
    \<and> cs_RecvMsg ce so (Some new) s = Some (s\<lparr>cs_recvQueue := (cs_recvQueue s)\<lparr>items := rs\<rparr>, cs_RControl := rc, cs_user := w\<rparr>,
        cs_result ce (cs_msg s) new r)"
proof -
  let ?s = "s\<lparr>cs_recvQueue := (cs_recvQueue s)\<lparr>items := rs\<rparr>\<rparr>"
  have get: "cs_get ce s = Some (?s, Some r)" using q by (simp add: cs_get_def queue_TryGet_def Get_locked_def)
  obtain rc w where f: "net_in w = net_in (cs_user s)" "net_closed w = net_closed (cs_user s)"
    "recvFlowCtl ce so (length (rsp_data r)) ?s = Some (?s\<lparr>cs_RControl := rc, cs_user := w\<rparr>, Ok ())"
    using recvFlowCtl_pipe [OF cl pr, of ?s "length (rsp_data r)"] s(1) by auto
  show ?thesis
  proof (cases "response.rsp_err r")
    case None
    have st: "\<not> IsValidSerializationType (co_CurrentSerializationType (sp_call so))"
      using cl by (simp add: trpc_stream_client_def IsValidSerializationType_def SerializationTypePB_def)
    show ?thesis using None get f s(2) st
      by (intro exI [of _ rc] exI [of _ w]) (simp add: cs_RecvMsg_def cs_recv_def cs_result_def Let_def split: sum.split)
  next
    case (Some e)
    then show ?thesis using get
      by (intro exI [of _ "cs_RControl s"] exI [of _ "cs_user s"]) (simp add: cs_RecvMsg_def cs_recv_def cs_result_def)
  qed
qed

text \<open>\<open>SendMsg\<close> leaves what concerns receiving alone.\<close>

lemma SendMsg_pipe:
  assumes cl: "trpc_stream_client pb sp up maxSize pn ce so" and pr: "stream_proto pb sp maxSize"
    and z: "serializeAndCompress ce (sp_call so) (resetDefault\<lparr>serializationType := serializationType (cs_msg s), compressType := compressType (cs_msg s)\<rparr>)
        (Some b) = Inr z" "16 + length z \<le> maxSize"
    and send: "cs_SendMsg ce so (Some b) s = Some (s', r)"
  shows "\<exists>sc w. s' = s\<lparr>cs_SControl := sc, cs_user := w\<rparr> \<and> net_in w = net_in (cs_user s)
     \<and> (net_closed w = net_closed (cs_user s) \<or> cs_closed s \<or> net_closed (cs_user s))
     \<and> (\<not> net_closed (cs_user s) \<and> \<not> cs_closed s \<longrightarrow> r = Ok ()
        \<and> (\<exists>f. frameWrite pb maxSize (newFrameHead pb (TRPC_STREAM_FRAME_DATA pb) (cs_streamID s)) z = Ok f \<and> net_out w = net_out (cs_user s) @ [f]))"
proof -
  let ?h = "newFrameHead pb (TRPC_STREAM_FRAME_DATA pb) (cs_streamID s)"
  let ?m = "(WithClientRPCName (cs_method s) (stream_msg so (TRPC_STREAM_FRAME_DATA (sp_pb so)) s))\<lparr>compressType := compressType (cs_msg s)\<rparr>"
  have pb: "sp_pb so = pb" using cl by (simp add: trpc_stream_client_def)
  have ser: "serializeAndCompress ce (sp_call so) ?m (Some b) = Inr z"
    using z(1) by (subst serialize_cong [where m' = "resetDefault\<lparr>serializationType := serializationType (cs_msg s), compressType := compressType (cs_msg s)\<rparr>"]) simp_all
  obtain f where f: "frameWrite pb maxSize ?h z = Ok f" using frameWrite_Ok [OF z(2) stream_proto_unmarshal(5) [OF pr]] by blast
  have enc: "cs_Encode pb sp maxSize pn ?m z = (?m, Ok f)"
    using f stream_proto_ne [OF pr] by (simp add: cs_Encode_def cs_encodeDataFrame_def pb Let_def)
  have all: "cd_Encode (sp_Codec so) (cs_codec s) ?m z = (cs_codec s, ?m, Ok f)"
    using cl enc by (simp add: trpc_stream_client_def TrpcClientCodec_def cl_Encode_def loadOrStoreDefaultUnaryFrameHead_def pb)
  from send obtain s1 e where g: "get_window ce True z s = Some (s1, e)"
    by (auto simp: cs_SendMsg_def stream_Send_def ser split: option.splits)
  then obtain sc where s1: "s1 = s\<lparr>cs_SControl := sc\<rparr>" and e: "e = None \<or> cs_closed s"
    using cl by (cases "cs_SControl s") (auto simp: get_window_def trpc_stream_client_def split: if_splits intro: that [of "cs_SControl s"])
  show ?thesis
  proof (cases "e = None")
    case True
    then show ?thesis using send g s1 all cl f
      by (intro exI [of _ sc] exI [of _ "cs_user s'"])
        (auto simp: cs_SendMsg_def stream_Send_def ser trpc_stream_client_def tr_fail_def split: if_splits)
  next
    case False
    then show ?thesis using send g s1 e cl
      by (intro exI [of _ sc] exI [of _ "cs_user s'"])
        (auto simp: cs_SendMsg_def stream_Send_def ser trpc_stream_client_def tr_fail_def)
  qed
qed

subsection \<open>A client receives what the handler sent\<close>

text \<open>Frames and the responses they become in the client's queue.\<close>

definition frame_resp :: "('b, ClientCodec, net) cenv \<Rightarrow> ('b, ClientCodec, net) stream_opts \<Rightarrow> msg \<Rightarrow> bytes \<Rightarrow> response \<Rightarrow> bool \<Rightarrow> bool" where
  "frame_resp ce so m f r goOn \<longleftrightarrow> (\<forall>s fs. cs_msg s = m \<longrightarrow> net_in (cs_user s) = f # fs \<longrightarrow> \<not> net_closed (cs_user s) \<longrightarrow>
     (\<exists>w. net_in w = fs \<and> (goOn \<longrightarrow> \<not> net_closed w) \<and> dispatch_iter ce so s = Some (cs_put r (s\<lparr>cs_user := w\<rparr>), Ok goOn)))"

text \<open>The state of a run: \<open>k\<close> frames have been dispatched, \<open>l\<close> of their responses received.\<close>

definition cs_inv :: "('b, ClientCodec, net) cenv \<Rightarrow> 'b \<Rightarrow> msg \<Rightarrow> bytes list \<Rightarrow> response list \<Rightarrow> nat \<Rightarrow> nat
    \<Rightarrow> ('b, ClientCodec, net) cs_state \<Rightarrow> bool" where
  "cs_inv ce new m fs rs k l st \<longleftrightarrow> (case st of (s, ended, lg) \<Rightarrow>
     cs_msg s = m \<and> cs_ServerStreams s \<and> l \<le> k \<and> k \<le> length rs
   \<and> items (cs_recvQueue s) = drop l (take k rs) \<and> lg = map (cs_result ce m new) (take l rs)
   \<and> net_in (cs_user s) = drop k fs \<and> (ended \<longleftrightarrow> k = length rs) \<and> (cs_closed s \<longleftrightarrow> ended) \<and> (\<not> ended \<longrightarrow> \<not> net_closed (cs_user s)))"

definition frames_resps :: "('b, ClientCodec, net) cenv \<Rightarrow> ('b, ClientCodec, net) stream_opts \<Rightarrow> msg \<Rightarrow> bytes list \<Rightarrow> response list \<Rightarrow> bool" where
  "frames_resps ce so m fs rs \<longleftrightarrow> length fs = length rs \<and> (\<forall>i < length rs. frame_resp ce so m (fs ! i) (rs ! i) (Suc i < length rs))"

lemma dispatch_step_inv:
  assumes cl: "trpc_stream_client pb sp up maxSize pn ce so" and fr: "frames_resps ce so m fs rs" and inv: "cs_inv ce new m fs rs k l st"
  shows "cs_inv ce new m fs rs (min (Suc k) (length rs)) l (cs_step ce so new st DoDispatch)"
proof -
  obtain s ended lg where st: "st = (s, ended, lg)" by (cases st)
  show ?thesis
  proof (cases "k < length rs")
    case True
    then have w: "net_in (cs_user s) = fs ! k # drop (Suc k) fs" "\<not> net_closed (cs_user s)" "\<not> ended" "cs_msg s = m"
      using inv fr by (auto simp: cs_inv_def st frames_resps_def Cons_nth_drop_Suc)
    then obtain w where w': "net_in w = drop (Suc k) fs" "Suc k < length rs \<longrightarrow> \<not> net_closed w"
      "dispatch_iter ce so s = Some (cs_put (rs ! k) (s\<lparr>cs_user := w\<rparr>), Ok (Suc k < length rs))"
      using fr True unfolding frames_resps_def frame_resp_def by blast
    have q: "drop l (take (Suc k) rs) = drop l (take k rs) @ [rs ! k]"
      using True inv by (simp add: cs_inv_def st take_Suc_conv_app_nth)
    show ?thesis
    proof (cases "Suc k < length rs")
      case True
      then show ?thesis using inv w w' q by (simp add: cs_inv_def st cs_put_def)
    next
      case False
      then have "Suc k = length rs" using \<open>k < length rs\<close> by simp
      then show ?thesis using inv w w' q cl
        by (simp add: cs_inv_def st cs_put_def dispatch_end_def cs_close_def trpc_stream_client_def)
    qed
  next
    case False
    then show ?thesis using inv by (simp add: cs_inv_def st min_def)
  qed
qed

lemma recv_step_inv:
  assumes cl: "trpc_stream_client pb sp up maxSize pn ce so" "stream_proto pb sp maxSize" and inv: "cs_inv ce new m fs rs k l st"
  shows "cs_inv ce new m fs rs k (min (Suc l) k) (cs_step ce so new st DoRecv)"
proof -
  obtain s ended lg where st: "st = (s, ended, lg)" by (cases st)
  show ?thesis
  proof (cases "l < k")
    case True
    then have q: "items (cs_recvQueue s) = rs ! l # drop (Suc l) (take k rs)" "take (Suc l) rs = take l rs @ [rs ! l]"
      using inv by (simp_all add: cs_inv_def st Cons_nth_drop_Suc [symmetric] take_Suc_conv_app_nth)
    have s: "cs_closed s \<or> \<not> net_closed (cs_user s)" "cs_ServerStreams s" using inv by (auto simp: cs_inv_def st)
    show ?thesis using RecvMsg_pipe [OF cl s q(1), of new] inv True q(2) by (auto simp: cs_inv_def st)
  next
    case False
    then have "cs_RecvMsg ce so (Some new) s = None"
      using inv cl(1) by (simp add: cs_inv_def st cs_RecvMsg_def cs_recv_def cs_get_def queue_TryGet_def Get_locked_def trpc_stream_client_def)
    then show ?thesis using inv False by (simp add: cs_inv_def st min_def)
  qed
qed

definition sendable :: "('b, ClientCodec, net) cenv \<Rightarrow> ('b, ClientCodec, net) stream_opts \<Rightarrow> nat \<Rightarrow> msg \<Rightarrow> 'b \<Rightarrow> bool" where
  "sendable ce so maxSize m b \<longleftrightarrow> (\<exists>z. serializeAndCompress ce (sp_call so)
     (resetDefault\<lparr>serializationType := serializationType m, compressType := compressType m\<rparr>) (Some b) = Inr z \<and> 16 + length z \<le> maxSize)"

lemma send_step_inv:
  assumes cl: "trpc_stream_client pb sp up maxSize pn ce so" "stream_proto pb sp maxSize" and inv: "cs_inv ce new m fs rs k l st"
    and b: "sendable ce so maxSize m b"
  shows "cs_inv ce new m fs rs k l (cs_step ce so new st (DoSend b))"
proof -
  obtain s ended lg where st: "st = (s, ended, lg)" by (cases st)
  have m: "cs_msg s = m" using inv by (simp add: cs_inv_def st)
  obtain z where z: "serializeAndCompress ce (sp_call so) (resetDefault\<lparr>serializationType := serializationType (cs_msg s),
      compressType := compressType (cs_msg s)\<rparr>) (Some b) = Inr z" "16 + length z \<le> maxSize"
    using b unfolding m sendable_def by blast
  show ?thesis
  proof (cases "cs_SendMsg ce so (Some b) s")
    case None
    then show ?thesis using inv by (simp add: st)
  next
    case (Some x)
    obtain s' r where x: "x = (s', r)" by (cases x)
    from SendMsg_pipe [OF cl z Some [unfolded x]] show ?thesis using Some inv by (auto simp: st x cs_inv_def)
  qed
qed

lemma cs_run_inv:
  assumes cl: "trpc_stream_client pb sp up maxSize pn ce so" "stream_proto pb sp maxSize" and fr: "frames_resps ce so m fs rs"
    and start: "cs_inv ce new m fs rs 0 0 (s, False, [])" and b: "\<And>b. DoSend b \<in> set ops \<Longrightarrow> sendable ce so maxSize m b"
  shows "\<exists>k l. cs_inv ce new m fs rs k l (cs_run ce so new s ops)"
  using b
proof (induction ops rule: rev_induct)
  case Nil
  then show ?case using start by (auto simp: cs_run_def)
next
  case (snoc op ops)
  then obtain k l where inv: "cs_inv ce new m fs rs k l (cs_run ce so new s ops)" by auto
  then have "\<exists>k l. cs_inv ce new m fs rs k l (cs_step ce so new (cs_run ce so new s ops) op)"
    using dispatch_step_inv [OF cl(1) fr inv] recv_step_inv [OF cl inv] send_step_inv [OF cl inv] snoc.prems by (cases op) auto
  then show ?case by (simp add: cs_run_def)
qed

text \<open>Dispatching and receiving often enough completes a run.\<close>

lemma dispatch_all:
  assumes "trpc_stream_client pb sp up maxSize pn ce so" "frames_resps ce so m fs rs" "cs_inv ce new m fs rs k l st"
  shows "cs_inv ce new m fs rs (min (k + n) (length rs)) l (foldl (cs_step ce so new) st (replicate n DoDispatch))"
  using assms(3)
proof (induction n arbitrary: k st)
  case (Suc n)
  have k: "min (min (Suc k) (length rs) + n) (length rs) = min (k + Suc n) (length rs)" by auto
  from Suc.IH [OF dispatch_step_inv [OF assms(1,2) Suc.prems]] show ?case unfolding k by simp
qed (simp add: cs_inv_def min_def split: prod.splits)

lemma recv_all:
  assumes "trpc_stream_client pb sp up maxSize pn ce so" "stream_proto pb sp maxSize" "cs_inv ce new m fs rs k l st"
  shows "cs_inv ce new m fs rs k (min (l + n) k) (foldl (cs_step ce so new) st (replicate n DoRecv))"
  using assms(3)
proof (induction n arbitrary: l st)
  case (Suc n)
  have k: "min (min (Suc l) k + n) k = min (l + Suc n) k" by auto
  from Suc.IH [OF recv_step_inv [OF assms(1,2) Suc.prems]] show ?case unfolding k by simp
qed (simp add: cs_inv_def min_def split: prod.splits)

text \<open>A handler's \<open>SendMsg\<close> of the body \<open>b\<close>: its bytes \<open>z\<close> after serialization and compression, and the frame
  that was sent.\<close>

definition handler_sent :: "('b, 'c, 'w) cenv \<Rightarrow> stream_env \<Rightarrow> msg \<Rightarrow> 'b \<times> bytes \<times> bytes \<Rightarrow> bool" where
  "handler_sent ce env m x \<longleftrightarrow> (case x of (b, z, f) \<Rightarrow> \<exists>d ss ss'. codec_Marshal (ce_ser ce) (serializationType m) (Some b) = Inr d
     \<and> codec_Compress (ce_cmp ce) (compressType m) d = Inr z \<and> ss_SendMsg env ss z = Some (ss', [f], Ok ()))"

definition handler_ended :: "stream_env \<Rightarrow> go_error option \<Rightarrow> bytes \<Rightarrow> bool" where
  "handler_ended env herr f \<longleftrightarrow> (\<exists>addr sid p sd. sd_sent (fst (startStreamHandler env addr sid p herr sd)) = sd_sent sd @ [f])"

definition download :: "('b, 'c, 'w) stream_opts \<Rightarrow> stream_env \<Rightarrow> 'b \<Rightarrow> ('b \<times> bytes \<times> bytes) list \<Rightarrow> go_error option \<Rightarrow> (go_error, 'b option) res list" where
  "download so env new xs herr = map (\<lambda>(b, z, f). Ok (Some (Rpc_Call.received new z b))) xs @ [Err (final_err so env herr)]"

lemma handler_frames:
  assumes cl: "trpc_stream_client pb sp up maxSize pn ce so" and pr: "stream_proto pb sp maxSize" and sv: "trpc_stream_env pb sp up maxSize metas env"
    and fmt: "body_ok (ce_ser ce) (ce_cmp ce) (serializationType m) (compressType m) typed" "typed new" "CompressTypeNoop \<le> compressType m"
    and xs: "\<forall>x \<in> set xs. handler_sent ce env m x \<and> typed (fst x)" and close: "handler_ended env herr cf"
  shows "\<exists>rs. frames_resps ce so m (map (snd \<circ> snd) xs @ [cf]) rs \<and> map (cs_result ce m new) rs = download so env new xs herr"
proof -
  have one: "\<exists>r. frame_resp ce so m f r True \<and> cs_result ce m new r = Ok (Some (Rpc_Call.received new z b))" if "(b, z, f) \<in> set xs" for b z f
  proof -
    have x: "handler_sent ce env m (b, z, f)" "typed b" using bspec [OF xs that] by simp_all
    obtain d ss ss' where d: "codec_Marshal (ce_ser ce) (serializationType m) (Some b) = Inr d"
      "codec_Compress (ce_cmp ce) (compressType m) d = Inr z" "ss_SendMsg env ss z = Some (ss', [f], Ok ())" "typed b"
      using x by (auto simp: handler_sent_def)
    note t = body_transfer [OF fmt(1) d(1,2,4) fmt(2)]
    have "frame_resp ce so m f \<lparr>rsp_data = d, rsp_err = None\<rparr> True"
      unfolding frame_resp_def
    proof (intro allI impI)
      fix s :: "(ClientCodec, net) clientStream" and fs assume s: "cs_msg s = m" "net_in (cs_user s) = f # fs" "\<not> net_closed (cs_user s)"
      show "\<exists>w. net_in w = fs \<and> (True \<longrightarrow> \<not> net_closed w)
          \<and> dispatch_iter ce so s = Some (cs_put \<lparr>rsp_data = d, rsp_err = None\<rparr> (s\<lparr>cs_user := w\<rparr>), Ok True)"
        using dispatch_data [OF cl pr SendMsg_frame [OF sv pr d(3)] s(2,3)] t(1) fmt(3) s
        by (intro exI [of _ "(cs_user s)\<lparr>net_in := fs\<rparr>"]) simp
    qed
    then show ?thesis using t(2) by (intro exI [of _ "\<lparr>rsp_data = d, rsp_err = None\<rparr>"]) (simp add: cs_result_def Rpc_Call.received_def)
  qed
  then have "\<forall>x \<in> set xs. \<exists>r. frame_resp ce so m (snd (snd x)) r True
      \<and> cs_result ce m new r = (\<lambda>(b, z, f). Ok (Some (Rpc_Call.received new z b))) x" by (auto simp: split_beta)
  then obtain g where g: "\<forall>x \<in> set xs. frame_resp ce so m (snd (snd x)) (g x) True
      \<and> cs_result ce m new (g x) = (\<lambda>(b, z, f). Ok (Some (Rpc_Call.received new z b))) x" by metis
  let ?e = "\<lparr>rsp_data = [], rsp_err = Some (final_err so env herr)\<rparr>"
  obtain addr sid p sd where "sd_sent (fst (startStreamHandler env addr sid p herr sd)) = sd_sent sd @ [cf]"
    using close by (auto simp: handler_ended_def)
  from handler_close_frame [OF sv pr this] obtain c b where c:
    "frameWrite pb maxSize (newFrameHead pb (TRPC_STREAM_FRAME_CLOSE pb) (ss_streamID (sd_objs sd ! p))) b = Ok cf" "marshalClose sp c = Some b"
    "(cm_CloseType c, cm_Ret c, cm_Msg c) = close_meta env herr" "cm_FuncRet c = 0" by blast
  have fin: "frame_resp ce so m cf ?e False"
    unfolding frame_resp_def using dispatch_close [OF cl pr sv c] by blast
  have "frames_resps ce so m (map (snd \<circ> snd) xs @ [cf]) (map g xs @ [?e])"
    using g fin by (auto simp: frames_resps_def nth_append elim!: less_SucE)
  moreover have "map (cs_result ce m new) (map g xs @ [?e]) = download so env new xs herr"
    using g by (simp add: download_def) (simp add: cs_result_def)
  ultimately show ?thesis by blast
qed


subsection \<open>The server receives what the client sent\<close>

definition client_sent :: "('b, ClientCodec, net) cenv \<Rightarrow> ('b, ClientCodec, net) stream_opts \<Rightarrow> nat \<Rightarrow> u32 \<Rightarrow> bytes \<times> bytes \<Rightarrow> bool" where
  "client_sent ce so maxSize sid x \<longleftrightarrow> (case x of (z, f) \<Rightarrow> \<exists>s s' b. cs_streamID s = sid \<and> \<not> net_closed (cs_user s) \<and> \<not> cs_closed s
     \<and> serializeAndCompress ce (sp_call so) (resetDefault\<lparr>serializationType := serializationType (cs_msg s), compressType := compressType (cs_msg s)\<rparr>)
         (Some b) = Inr z \<and> 16 + length z \<le> maxSize
     \<and> cs_SendMsg ce so (Some b) s = Some (s', Ok ()) \<and> net_out (cs_user s') = net_out (cs_user s) @ [f])"

definition client_closed :: "('b, ClientCodec, net) cenv \<Rightarrow> ('b, ClientCodec, net) stream_opts \<Rightarrow> u32 \<Rightarrow> bytes \<Rightarrow> bool" where
  "client_closed ce so sid f \<longleftrightarrow> (\<exists>s s'. cs_streamID s = sid \<and> cs_CloseSend ce so s = Some (s', Ok ())
     \<and> net_out (cs_user s') = net_out (cs_user s) @ [f])"

lemma client_sent_frame:
  assumes "trpc_stream_client pb sp up maxSize pn ce so" "stream_proto pb sp maxSize" "client_sent ce so maxSize sid (z, f)"
  shows "frameWrite pb maxSize (newFrameHead pb (TRPC_STREAM_FRAME_DATA pb) sid) z = Ok f"
proof -
  obtain s s' b where s: "cs_streamID s = sid" "\<not> net_closed (cs_user s)" "\<not> cs_closed s"
    and z: "serializeAndCompress ce (sp_call so) (resetDefault\<lparr>serializationType := serializationType (cs_msg s), compressType := compressType (cs_msg s)\<rparr>)
         (Some b) = Inr z" "16 + length z \<le> maxSize"
    and send: "cs_SendMsg ce so (Some b) s = Some (s', Ok ())" "net_out (cs_user s') = net_out (cs_user s) @ [f]"
    using assms(3) by (auto simp: client_sent_def)
  show ?thesis using SendMsg_pipe [OF assms(1,2) z send(1)] send(2) s by auto
qed

lemma client_closed_frame:
  assumes "trpc_stream_client pb sp up maxSize pn ce so" "stream_proto pb sp maxSize" "client_closed ce so sid f"
  shows "\<exists>c b. frameWrite pb maxSize (newFrameHead pb (TRPC_STREAM_FRAME_CLOSE pb) sid) b = Ok f \<and> marshalClose sp c = Some b
    \<and> cm_CloseType c = sp_STREAM_CLOSE so \<and> cm_Ret c = 0"
proof -
  obtain s s' where s: "cs_streamID s = sid" "cs_CloseSend ce so s = Some (s', Ok ())" "net_out (cs_user s') = net_out (cs_user s) @ [f]"
    using assms(3) by (auto simp: client_closed_def)
  have pb: "sp_pb so = pb" using assms(1) by (simp add: trpc_stream_client_def)
  let ?c = "\<lparr>cm_CloseType = sp_STREAM_CLOSE so, cm_Ret = 0, cm_FuncRet = 0, cm_Msg = [], cm_MessageType = 0, cm_TransInfo = None\<rparr>"
  let ?h = "newFrameHead pb (TRPC_STREAM_FRAME_CLOSE pb) sid"
  let ?m = "(stream_msg so (TRPC_STREAM_FRAME_CLOSE (sp_pb so)) s)\<lparr>streamFrame := StreamClose ?c\<rparr>"
  have "cl_Encode pb sp up maxSize pn c ?m [] = (c, ?m, of_marshal (marshalClose sp ?c) (frameWrite pb maxSize ?h))" for c
    using stream_proto_ne [OF assms(2)] s(1)
    by (simp add: cl_Encode_def loadOrStoreDefaultUnaryFrameHead_def cs_Encode_def cs_encodeCloseFrame_def pb Let_def)
  then have "of_marshal (marshalClose sp ?c) (frameWrite pb maxSize ?h) = Ok f"
    using s(2,3) assms(1)
    by (auto simp: cs_CloseSend_def stream_Send_def serialize_nothing trpc_stream_client_def TrpcClientCodec_def tr_fail_def
        split: res.splits if_splits elim: res_text.elims)
  then show ?thesis by (auto simp: of_marshal_def intro!: exI [of _ ?c] split: option.splits)
qed

text \<open>A frame that arrives on a connection while the codec knows the stream, as an operation of the dispatcher.\<close>

definition arrives :: "pb_consts \<Rightarrow> stream_pb \<Rightarrow> unary_pb \<Rightarrow> net_addr \<Rightarrow> net_addr \<Rightarrow> string \<Rightarrow> u32 \<Rightarrow> bytes \<Rightarrow> sd_op \<Rightarrow> bool" where
  "arrives pb sp up lo re addr sid f op \<longleftrightarrow> (\<exists>metas metas' m b. findInitMeta addr sid metas \<noteq> None
     \<and> sv_Decode pb sp up metas (resetDefault\<lparr>localAddr := lo, remoteAddr := re\<rparr>) f = (metas', m, Ok b) \<and> op = OpFrame m b)"

fun is_mine :: "string \<Rightarrow> u32 \<Rightarrow> sd_op \<Rightarrow> bool" where
  "is_mine addr sid (OpFrame m req) = ((\<exists>h. frameHead m = TrpcFrameHead h) \<and> addressed m addr sid)"
| "is_mine addr sid op = False"

lemma inbox_mine: "inbox env addr sid ops = inbox env addr sid (filter (is_mine addr sid) ops)"
proof (induction ops rule: rev_induct)
  case (snoc op ops)
  have "inbox_step env addr sid q op = q" if "\<not> is_mine addr sid op" for q
    using that by (cases op) (auto simp: Let_def split: frame_head_any.split)
  then show ?case using snoc by (auto simp: inbox_def)
qed (simp add: inbox_def)

definition resp_of :: "bytes \<Rightarrow> response" where
  "resp_of z = \<lparr>rsp_data = z, rsp_err = None\<rparr>"

lemma WithServerRPCName_keeps [simp]: "frameHead (WithServerRPCName n m) = frameHead m" "serverRspErr (WithServerRPCName n m) = serverRspErr m"
  "serializationType (WithServerRPCName n m) = serializationType m"
  by (simp_all add: WithServerRPCName_def updateMethodNameUsingRPCName_def)

lemma data_arrives:
  assumes pr: "stream_proto pb sp maxSize" and env: "env_pb env = pb" and f: "frameWrite pb maxSize (newFrameHead pb (TRPC_STREAM_FRAME_DATA pb) sid) z = Ok f"
    and ad: "(AddrToKey lo re :: (codec_error, string) res) = Ok addr" "(AddrToKey lo re :: (unit, string) res) = Ok addr"
    and op: "arrives pb sp up lo re addr sid f op"
  shows "is_mine addr sid op" "inbox_step env addr sid q op = q @ [resp_of z]"
proof -
  obtain metas metas' m b im where im: "findInitMeta addr sid metas = Some im"
    and m: "sv_Decode pb sp up metas (resetDefault\<lparr>localAddr := lo, remoteAddr := re\<rparr>) f = (metas', m, Ok b)" "op = OpFrame m b"
    using op by (auto simp: arrives_def)
  let ?h = "recv_head (newFrameHead pb (TRPC_STREAM_FRAME_DATA pb) sid) z"
  let ?m = "WithServerRPCName (case im_RequestMeta im of None \<Rightarrow> [] | Some r \<Rightarrow> irq_Func r)
    (resetDefault\<lparr>localAddr := lo, remoteAddr := re, frameHead := TrpcFrameHead ?h, streamID := sid\<rparr>)"
  have "ss_Decode pb sp metas (resetDefault\<lparr>localAddr := lo, remoteAddr := re, frameHead := TrpcFrameHead ?h\<rparr>) f = (metas, ?m, Ok z)"
    using stream_proto_ne [OF pr] ad(1) im frameWrite_read(2) [OF f]
    by (simp add: ss_Decode_def ss_decodeDataFrame_def setInitMeta_def Let_def Frame.isStream_def)
  from server_reads [OF f newFrameHead_simps(4) pr this, of up] m(1) have "m = ?m" "b = z" by auto
  then show "is_mine addr sid op" "inbox_step env addr sid q op = q @ [resp_of z]"
    using m(2) ad(2) stream_proto_ne [OF pr] by (simp_all add: addressed_def env Let_def resp_of_def)
qed

lemma close_arrives:
  assumes pr: "stream_proto pb sp maxSize" and env: "env_pb env = pb"
    and f: "frameWrite pb maxSize (newFrameHead pb (TRPC_STREAM_FRAME_CLOSE pb) sid) bs = Ok f" "marshalClose sp c = Some bs"
      "cm_CloseType c \<noteq> TRPC_STREAM_RESET pb" "cm_Ret c = 0"
    and ad: "(AddrToKey lo re :: (codec_error, string) res) = Ok addr" "(AddrToKey lo re :: (unit, string) res) = Ok addr"
    and op: "arrives pb sp up lo re addr sid f op"
  shows "is_mine addr sid op" "inbox_step env addr sid q op = q @ [\<lparr>rsp_data = [], rsp_err = Some EOF\<rparr>]"
proof -
  obtain metas metas' m b im where im: "findInitMeta addr sid metas = Some im"
    and m: "sv_Decode pb sp up metas (resetDefault\<lparr>localAddr := lo, remoteAddr := re\<rparr>) f = (metas', m, Ok b)" "op = OpFrame m b"
    using op by (auto simp: arrives_def)
  let ?h = "recv_head (newFrameHead pb (TRPC_STREAM_FRAME_CLOSE pb) sid) bs"
  let ?m = "(WithServerRPCName (case im_RequestMeta im of None \<Rightarrow> [] | Some r \<Rightarrow> irq_Func r)
    (resetDefault\<lparr>localAddr := lo, remoteAddr := re, frameHead := TrpcFrameHead ?h, streamID := sid\<rparr>))\<lparr>streamFrame := StreamClose c\<rparr>"
  have "ss_Decode pb sp metas (resetDefault\<lparr>localAddr := lo, remoteAddr := re, frameHead := TrpcFrameHead ?h\<rparr>) f = (metas, ?m, Ok [])"
    using stream_proto_ne [OF pr] ad(1) im frameWrite_read(2) [OF f(1)] stream_proto_unmarshal(1) [OF pr f(2)] f(3,4)
    by (simp add: ss_Decode_def ss_decodeCloseFrame_def setInitMeta_def Let_def Frame.isStream_def)
  from server_reads [OF f(1) newFrameHead_simps(4) pr this, of up] m(1) have "m = ?m" "b = []" by auto
  then show "is_mine addr sid op" "inbox_step env addr sid q op = q @ [\<lparr>rsp_data = [], rsp_err = Some EOF\<rparr>]"
    using m(2) ad(2) stream_proto_ne [OF pr]
    by (simp_all add: addressed_def env Let_def ServerRspErr_def) (simp add: resetDefault_def)
qed


subsection \<open>Opening a stream\<close>

lemma getWindowSize_pos: "0 < getWindowSize w"
proof -
  have "0 < w" if "defaultInitWindowSize < w" using that by (simp add: word_less_nat_alt)
  then show ?thesis by (auto simp: getWindowSize_def defaultInitWindowSize_def maxInitWindowSize_def not_le)
qed

lemma init_msg_simps [simp]:
  "frameHead (init_msg so s) = TrpcFrameHead (newFrameHead (sp_pb so) (TRPC_STREAM_FRAME_INIT (sp_pb so)) (cs_streamID s))"
  "clientRspErr (init_msg so s) = None"
  by (simp_all add: init_msg_def copyMetaData_def WithClientMetaData_def WithClientRPCName_def updateMethodNameUsingRPCName_def split: option.split)

lemma WithCallerServiceName_client [simp]: "clientRspErr (WithCallerServiceName n m) = clientRspErr m"
  "streamFrame (WithCallerServiceName n m) = streamFrame m"
  by (simp_all add: WithCallerServiceName_def split: prod.split)

text \<open>The init frame that the client sends.\<close>

lemma init_frame:
  assumes pr: "stream_proto pb sp maxSize" and pb: "sp_pb so = pb" and enc: "cs_Encode pb sp maxSize pn (init_msg so s) [] = (m1, Ok f)"
  obtains im b where "marshalInit sp im = Some b" "frameWrite pb maxSize (newFrameHead pb (TRPC_STREAM_FRAME_INIT pb) (cs_streamID s)) b = Ok f"
    "im_RequestMeta im \<noteq> None" "im_InitWindowSize im = init_window so" "clientRspErr m1 = None"
proof -
  let ?h = "newFrameHead pb (TRPC_STREAM_FRAME_INIT pb) (cs_streamID s)"
  have sf: "\<exists>im q. streamFrame (init_msg so s) = StreamInit im \<and> im_RequestMeta im = Some q \<and> im_InitWindowSize im = init_window so"
    by (simp add: init_msg_def)
  have "cs_encodeInitFrame pb sp maxSize pn ?h (init_msg so s) = (m1, Ok f)"
    using enc by (simp add: cs_Encode_def pb Let_def)
  then obtain im where "of_marshal (marshalInit sp im) (frameWrite pb maxSize ?h) = Ok f" "im_RequestMeta im \<noteq> None"
    "im_InitWindowSize im = init_window so" "clientRspErr m1 = None"
    using sf by (auto simp: cs_encodeInitFrame_def Let_def split: if_splits)
  then show ?thesis using that by (auto simp: of_marshal_def split: option.splits)
qed

lemma stream_updateMsg_type: "stream_updateMsg pb m im = Ok m' \<Longrightarrow> serializationType m' = uint (im_ContentType im)"
  by (auto simp: stream_updateMsg_def WithServerMetaData_def Let_def split: option.splits if_splits)

lemma stream_updateMsg_head: "stream_updateMsg pb m im = Ok m' \<Longrightarrow> frameHead m' = frameHead m"
  by (auto simp: stream_updateMsg_def Let_def split: option.splits if_splits)

text \<open>The server decodes it and opens the stream.\<close>

lemma init_arrives:
  assumes pr: "stream_proto pb sp maxSize" and f: "marshalInit sp im = Some b" "frameWrite pb maxSize (newFrameHead pb (TRPC_STREAM_FRAME_INIT pb) sid) b = Ok f"
    and im: "im_RequestMeta im \<noteq> None" and ad: "(AddrToKey lo re :: (codec_error, string) res) = Ok addr"
  shows "\<exists>m. sv_Decode pb sp up metas (resetDefault\<lparr>localAddr := lo, remoteAddr := re\<rparr>) f = (storeInitMeta_at addr sid im metas, m, Ok [])
    \<and> streamFrame m = StreamInit im \<and> localAddr m = lo \<and> remoteAddr m = re \<and> streamID m = sid
    \<and> frameHead m = TrpcFrameHead (recv_head (newFrameHead pb (TRPC_STREAM_FRAME_INIT pb) sid) b)
    \<and> serializationType m = uint (im_ContentType im)"
proof -
  let ?h = "recv_head (newFrameHead pb (TRPC_STREAM_FRAME_INIT pb) sid) b"
  let ?m = "resetDefault\<lparr>localAddr := lo, remoteAddr := re, frameHead := TrpcFrameHead ?h, streamID := sid\<rparr>"
  obtain m1 where m1: "stream_updateMsg pb ?m im = Ok m1" using stream_updateMsg_total [of pb ?m im ?m] im by auto
  note conn = stream_updateMsg_conn [OF m1]
  have "ss_Decode pb sp metas (resetDefault\<lparr>localAddr := lo, remoteAddr := re, frameHead := TrpcFrameHead ?h\<rparr>) f
      = (storeInitMeta_at addr sid im metas, m1\<lparr>streamFrame := StreamInit im\<rparr>, Ok [])"
    using m1 conn ad frameWrite_read(2) [OF f(2)] stream_proto_unmarshal(2) [OF pr f(1)]
    by (simp add: ss_Decode_def ss_decodeInitFrame_def storeInitMeta_def Let_def Frame.isStream_def)
  from server_reads [OF f(2) newFrameHead_simps(4) pr this, of up] conn stream_updateMsg_head [OF m1] stream_updateMsg_type [OF m1] show ?thesis by simp
qed

text \<open>The server's answer carries the window of its receiver, unless the client has disabled flow control.\<close>

lemma handleInit_answer:
  assumes sv: "trpc_stream_env pb sp up maxSize metas env" and pr: "stream_proto pb sp maxSize"
    and m: "streamFrame m = StreamInit im" "(AddrToKey (localAddr m) (remoteAddr m) :: (unit, string) res) = Ok addr"
    and h: "handleInit env m sd = (sd', r)" "sd_sent sd' = sd_sent sd @ [g]"
  shows "\<exists>ss rsp b. sd_objs sd' = sd_objs sd @ [ss] \<and> find_stream addr (streamID m) (addrToServerStream sd') = Some (length (sd_objs sd))
     \<and> ss_sControl ss = (if im_InitWindowSize im = 0 then None else Some (newSendControl (im_InitWindowSize im)))
     \<and> ss_rControl ss = (if im_InitWindowSize im = 0 then None else Some (newReceiveControl (getWindowSize (env_MaxWindowSize env)) True))
     \<and> marshalInit sp rsp = Some b \<and> frameWrite pb maxSize (newFrameHead pb (TRPC_STREAM_FRAME_INIT pb) (streamID m)) b = Ok g
     \<and> im_ResponseMeta rsp = Some \<lparr>irs_Ret = 0, irs_ErrorMsg = []\<rparr>
     \<and> im_InitWindowSize rsp = (if im_InitWindowSize im = 0 then 0 else getWindowSize (env_MaxWindowSize env))"
proof -
  let ?m = "CopyMsg (pb_codes (env_pb env)) resetDefault m" and ?w = "getWindowSize (env_MaxWindowSize env)" and ?cw = "im_InitWindowSize im"
  let ?ss0 = "(newServerStream ?m (streamID m))\<lparr>ss_rControl := Some (newReceiveControl ?w True)\<rparr>"
  let ?h = "newFrameHead pb (TRPC_STREAM_FRAME_INIT pb) (streamID m)"
  have pb: "env_pb env = pb" using sv by (simp add: trpc_stream_env_def)
  obtain ss where ss: "setSendControl ?m ?ss0 = (ss, Ok ?cw)" "ss_streamID ss = streamID m"
    "ss_sControl ss = (if ?cw = 0 then None else Some (newSendControl ?cw))" "ss_rControl ss = (if ?cw = 0 then None else Some (newReceiveControl ?w True))"
    using m(1) by (cases "?cw = 0") (simp_all add: setSendControl_def newServerStream_def)
  have enc: "env_Encode env (init_response env ?w ss ?cw) [] = Ok g" and objs: "sd_objs sd' = sd_objs sd @ [ss]"
      "addrToServerStream sd' = storeServerStream addr (streamID m) (length (sd_objs sd)) (addrToServerStream sd)"
    using h m(2) ss(1) by (auto simp: handleInit_def encode_send_def Let_def split: res.splits prod.splits option.splits)
  have "frameHead (init_response env ?w ss ?cw) = TrpcFrameHead ?h" by (simp add: init_response_def pb ss(2))
  from trpc_encode_stream [OF sv enc this] obtain s1 m1 where "ss_Encode pb sp maxSize metas (init_response env ?w ss ?cw) [] = (s1, m1, Ok g)" by auto
  then obtain rsp where r: "of_marshal (marshalInit sp rsp) (frameWrite pb maxSize ?h) = Ok g"
    "im_ResponseMeta rsp = Some \<lparr>irs_Ret = 0, irs_ErrorMsg = []\<rparr>" "im_InitWindowSize rsp = (if ?cw = 0 then 0 else ?w)"
    by (auto simp: ss_Encode_def ss_encodeInitFrame_def init_response_def pb ss(2) ServerRspErr_def Let_def)
  then obtain b where "marshalInit sp rsp = Some b" "frameWrite pb maxSize ?h b = Ok g" by (auto simp: of_marshal_def split: option.splits)
  then show ?thesis using r(2,3) objs ss by (intro exI [of _ ss] exI [of _ rsp] exI [of _ b]) (simp add: find_store)
qed

lemma invoke_answered:
  assumes cl: "trpc_stream_client pb sp up maxSize pn ce so" "stream_proto pb sp maxSize"
    and s: "cs_SControl s = None" "cs_RControl s = None" "\<not> net_closed (cs_user s)" "net_in (cs_user s) = g # rest"
    and frame: "cs_Encode pb sp maxSize pn (init_msg so s) [] = (m1, Ok f)" "clientRspErr m1 = None"
    and g: "marshalInit sp rsp = Some b" "frameWrite pb maxSize h b = Ok g" "Frame.isStream pb h" "StreamFrameType h = TRPC_STREAM_FRAME_INIT pb"
      "im_ResponseMeta rsp = Some \<lparr>irs_Ret = 0, irs_ErrorMsg = []\<rparr>"
  shows "invoke ce so s = Some (configSendControl (im_InitWindowSize rsp)
     (s\<lparr>cs_RControl := Some (newReceiveControl (init_window so) True), cs_monitor := True,
        cs_user := (cs_user s)\<lparr>net_out := net_out (cs_user s) @ [f], net_in := rest\<rparr>\<rparr>), Ok ())"
proof -
  have pb: "sp_pb so = pb" using cl(1) by (simp add: trpc_stream_client_def)
  let ?s = "s\<lparr>cs_RControl := Some (newReceiveControl (init_window so) True)\<rparr>"
  have send: "stream_Send ce so (init_msg so s) None ?s = Some (?s\<lparr>cs_user := (cs_user s)\<lparr>net_out := net_out (cs_user s) @ [f]\<rparr>\<rparr>, m1, Ok ())"
    using stream_Send_pipe [OF cl(1) serialize_nothing _ frame(1), where s = ?s and ?s1.0 = ?s
      and h = "newFrameHead pb (TRPC_STREAM_FRAME_INIT pb) (cs_streamID s)"] s(3) pb by simp
  have "\<exists>m2. cl_Decode pb sp up m1 g = (m2, Ok []) \<and> clientRspErr m2 = None \<and> streamFrame m2 = StreamInit rsp"
    unfolding client_reads [OF g(2,3) cl(2)] using g(3-5) frame(2) frameWrite_read(2) [OF g(2)] stream_proto_unmarshal(2) [OF cl(2) g(1)]
    by (simp add: cs_Decode_def cs_decodeInitFrame_def Let_def Frame.isStream_def)
  then obtain m2 where m2: "cl_Decode pb sp up m1 g = (m2, Ok [])" "clientRspErr m2 = None" "streamFrame m2 = StreamInit rsp" by blast
  note dec = TrpcClientCodec_Decode [OF m2(1), of maxSize pn "cs_codec s"]
  show ?thesis using cl(1) s send m2(2,3) dec
    by (simp add: invoke_def stream_Recv_def trpc_stream_client_def Let_def)
qed

text \<open>C5: opening a stream gives both ends the same windows. When the client's init frame reaches the server
  and the server's answer the client, \<open>invoke\<close> succeeds; the server has opened the stream under the
  client's stream id, for the codec and for the dispatcher; and if flow control is enabled, in either
  direction the sender's window and the receiver's buffer are those of one flow \<open>flow_start\<close> with a
  positive window, the situation in which flow control neither overflows nor blocks. A client that
  disables it switches it off at both ends and in both directions.\<close>

theorem stream_handshake:
  assumes cl: "trpc_stream_client pb sp up maxSize pn ce so" "stream_proto pb sp maxSize" "trpc_stream_env pb sp up maxSize metas0 env"
    and s: "cs_SControl s = None" "cs_RControl s = None" "\<not> net_closed (cs_user s)" "net_in (cs_user s) = g # rest"
    and frame: "cs_Encode pb sp maxSize pn (init_msg so s) [] = (m1, Ok f)"
    and ad: "lo = Some (network, l)" "re = Some (network', r)" "addr = Join [network, l, r] ''_''"
    and decoded: "sv_Decode pb sp up metas (resetDefault\<lparr>localAddr := lo, remoteAddr := re\<rparr>) f = (metas', m, Ok b)"
    and served: "StreamHandleFunc env m b sd = (sd', res)" "sd_sent sd' = sd_sent sd @ [g]"
  defines "Wc \<equiv> getWindowSize (sp_MaxWindowSize so)" and "Ws \<equiv> getWindowSize (env_MaxWindowSize env)"
  shows "\<exists>s' ss. invoke ce so s = Some (s', Ok ()) \<and> net_out (cs_user s') = net_out (cs_user s) @ [f] \<and> net_in (cs_user s') = rest
    \<and> findInitMeta addr (cs_streamID s) metas' \<noteq> None
    \<and> find_stream addr (cs_streamID s) (addrToServerStream sd') = Some (length (sd_objs sd)) \<and> sd_objs sd' = sd_objs sd @ [ss]
    \<and> (if sp_DisabledFlowControl so
       then cs_SControl s' = None \<and> cs_RControl s' = None \<and> ss_sControl ss = None \<and> ss_rControl ss = None
       else cs_SControl s' = Some (fc_send (flow_start Ws)) \<and> ss_rControl ss = Some (fc_recv (flow_start Ws))
          \<and> ss_sControl ss = Some (fc_send (flow_start Wc)) \<and> cs_RControl s' = Some (fc_recv (flow_start Wc)) \<and> 0 < Wc \<and> 0 < Ws)"
proof -
  have pb: "sp_pb so = pb" "env_pb env = pb" using cl(1,3) by (simp_all add: trpc_stream_client_def trpc_stream_env_def)
  have key: "(AddrToKey lo re :: (codec_error, string) res) = Ok addr" "(AddrToKey lo re :: (unit, string) res) = Ok addr"
    using ad by (simp_all add: AddrToKey_def)
  obtain im bi where im: "marshalInit sp im = Some bi" "frameWrite pb maxSize (newFrameHead pb (TRPC_STREAM_FRAME_INIT pb) (cs_streamID s)) bi = Ok f"
    "im_RequestMeta im \<noteq> None" "im_InitWindowSize im = init_window so" "clientRspErr m1 = None"
    using init_frame [OF cl(2) pb(1) frame] .
  obtain m' where m': "sv_Decode pb sp up metas (resetDefault\<lparr>localAddr := lo, remoteAddr := re\<rparr>) f
      = (storeInitMeta_at addr (cs_streamID s) im metas, m', Ok [])" "streamFrame m' = StreamInit im" "localAddr m' = lo" "remoteAddr m' = re"
      "streamID m' = cs_streamID s" "frameHead m' = TrpcFrameHead (recv_head (newFrameHead pb (TRPC_STREAM_FRAME_INIT pb) (cs_streamID s)) bi)"
    using init_arrives [OF cl(2) im(1-3) key(1), of up metas] by blast
  have m: "m = m'" "metas' = storeInitMeta_at addr (cs_streamID s) im metas" using decoded m'(1) by simp_all
  have "handleInit env (m\<lparr>frameHead := FrameHeadNil\<rparr>) sd = (sd', res)"
    using served(1) m m'(6) by (simp add: StreamHandleFunc_def handleByStreamFrameType_def pb Let_def)
  from handleInit_answer [OF cl(3,2) _ _ this served(2), of im addr] m m' key(2) obtain ss rsp b where
    ss: "sd_objs sd' = sd_objs sd @ [ss]" "find_stream addr (cs_streamID s) (addrToServerStream sd') = Some (length (sd_objs sd))"
      "ss_sControl ss = (if im_InitWindowSize im = 0 then None else Some (newSendControl (im_InitWindowSize im)))"
      "ss_rControl ss = (if im_InitWindowSize im = 0 then None else Some (newReceiveControl Ws True))"
    and g: "marshalInit sp rsp = Some b" "frameWrite pb maxSize (newFrameHead pb (TRPC_STREAM_FRAME_INIT pb) (cs_streamID s)) b = Ok g"
      "im_ResponseMeta rsp = Some \<lparr>irs_Ret = 0, irs_ErrorMsg = []\<rparr>" "im_InitWindowSize rsp = (if im_InitWindowSize im = 0 then 0 else Ws)"
    unfolding Ws_def by auto
  have inv: "invoke ce so s = Some (configSendControl (im_InitWindowSize rsp)
     (s\<lparr>cs_RControl := Some (newReceiveControl (init_window so) True), cs_monitor := True,
        cs_user := (cs_user s)\<lparr>net_out := net_out (cs_user s) @ [f], net_in := rest\<rparr>\<rparr>), Ok ())"
    by (rule invoke_answered [OF cl(1,2) s frame im(5) g(1,2) _ _ g(3)]) simp_all
  have W: "0 < Wc" "0 < Ws" by (simp_all add: Wc_def Ws_def getWindowSize_pos)
  have "findInitMeta addr (cs_streamID s) metas' \<noteq> None" by (simp add: m(2) findInitMeta_store)
  moreover have iw: "init_window so = (if sp_DisabledFlowControl so then 0 else Wc)" by (simp add: init_window_def Wc_def)
  moreover have "Wc \<noteq> 0" "Ws \<noteq> 0" using W by auto
  ultimately show ?thesis using inv ss g(4) im(4) s(1) W
    by (cases "sp_DisabledFlowControl so") (simp_all add: configSendControl_def flow_start_def)
qed

subsection \<open>A concrete session\<close>

text \<open>One stream with identifier 5 whose handler sends one message and returns; the client sends one message.\<close>

definition chat_close :: CloseMeta where
  "chat_close = \<lparr>cm_CloseType = 0, cm_Ret = 0, cm_FuncRet = 0, cm_Msg = [], cm_MessageType = 0, cm_TransInfo = None\<rparr>"

definition chat_req :: InitMeta where
  "chat_req = \<lparr>im_RequestMeta = Some \<lparr>irq_Caller = ''trpc.app.p.service'', irq_Callee = [], irq_Func = ''/a.b/M'', irq_MessageType = 0,
     irq_TransInfo = None\<rparr>, im_ResponseMeta = None, im_ContentType = 0, im_ContentEncoding = 0, im_InitWindowSize = 65535\<rparr>"

definition chat_rsp :: InitMeta where
  "chat_rsp = \<lparr>im_RequestMeta = None, im_ResponseMeta = Some \<lparr>irs_Ret = 0, irs_ErrorMsg = []\<rparr>, im_ContentType = 0, im_ContentEncoding = 0,
     im_InitWindowSize = 65535\<rparr>"

definition chat_sp :: stream_pb where
  "chat_sp = \<lparr>marshalInit = (\<lambda>im. if im = chat_req then Some [1] else if im = chat_rsp then Some [2] else None),
     unmarshalInit = (\<lambda>b. if b = [1] then Some chat_req else if b = [2] then Some chat_rsp else None),
     marshalClose = (\<lambda>c. if c = chat_close then Some [9] else None), unmarshalClose = (\<lambda>b. if b = [9] then Some chat_close else None),
     marshalFeedBack = (\<lambda>fb. Some (PutUint32 (fb_WindowSizeIncrement fb))), unmarshalFeedBack = (\<lambda>b. Some \<lparr>fb_WindowSizeIncrement = Uint32 b\<rparr>)\<rparr>"

definition chat_frame :: "u8 \<Rightarrow> bytes \<Rightarrow> bytes" where
  "chat_frame t b = head_bytes sample_pb (newFrameHead sample_pb t 5) (word_of_nat (16 + length b)) 0 @ b"

definition chat_env :: stream_env where
  "chat_env = \<lparr>env_Encode = (\<lambda>m b. case sv_Encode sample_pb chat_sp ping_up 100 [] m b of
       (_, _, Ok buf) \<Rightarrow> Ok buf | (_, _, Err e) \<Rightarrow> Err (OtherError (err_text sample_pb e) None) | (_, _, Panic) \<Rightarrow> Panic),
     env_Send = (\<lambda>_. None), env_Decode = (\<lambda>b. Ok 0), env_MaxWindowSize = 0, env_pb = sample_pb, env_RetServerSystemErr = 31, env_STREAM_CLOSE = 0\<rparr>"

definition chat_ctx :: msg where
  "chat_ctx = resetDefault\<lparr>localAddr := Some (''tcp'', ''l''), remoteAddr := Some (''tcp'', ''r'')\<rparr>"

definition chat_cenv :: "(noop_body, ClientCodec, net) cenv" where
  "chat_cenv = \<lparr>ce_cc = sample_codes, ce_ser = [0 \<mapsto> NoopSerialization], ce_cmp = Map.empty, ce_rpcz = False,
     ce_codecs = Map.empty, ce_transports = Map.empty, ce_selectors = Map.empty, ce_ctxErr = (\<lambda>_. CtxOk), ce_ctxErrText = [],
     ce_hasIP = (\<lambda>_. True), ce_resolve = (\<lambda>n a. Some (n, a)), ce_parseAddr = (\<lambda>_ n a. Some (n, a)), ce_cost = ''1ms''\<rparr>"

definition chat_co :: "(noop_body, ClientCodec, net) CallOptions" where
  "chat_co = \<lparr>co_ServiceName = [], co_CallerServiceName = [], co_CalleeMethod = [], co_Timeout = 0, co_Target = [],
     co_endpoint = [], co_OverloadCtrl = None, co_Network = [], co_CallType = 0, co_Transport = (\<lambda>b s. (s, Err ErrClientNoResponse)),
     co_Selector = None, co_DisableServiceRouter = False, co_shouldErrReport = (\<lambda>_. False), co_CurrentSerializationType = - 1,
     co_CurrentCompressType = - 1, co_SerializationType = - 1, co_CompressType = 0, co_Codec = None, co_MetaData = None,
     co_ReqHead = HeadNil, co_RspHead = HeadNil, co_fixTimeout = False, co_attachment = None, co_DestinationSetName = [],
     co_FilterNames = [], co_DisableFilter = False, co_selectorFilterPosFixed = False\<rparr>"

definition chat_so :: "(noop_body, ClientCodec, net) stream_opts" where
  "chat_so = \<lparr>sp_call = chat_co, sp_Codec = TrpcClientCodec sample_pb chat_sp ping_up 100 ''p'', sp_Transport = pipe 31,
     sp_DisabledFlowControl = False, sp_MaxWindowSize = 0, sp_pb = sample_pb, sp_STREAM_CLOSE = 0, sp_RetClientStreamReadEnd = 201\<rparr>"

definition chat_cs :: "bytes list \<Rightarrow> (ClientCodec, net) clientStream" where
  "chat_cs fs = new_clientStream True ''/a.b/M'' 5 resetDefault sample_client \<lparr>net_in = fs, net_out = [], net_closed = False\<rparr>"

lemma chat_setting:
  "trpc_stream_client sample_pb chat_sp ping_up 100 ''p'' chat_cenv chat_so" "stream_proto sample_pb chat_sp 100"
  "trpc_stream_env sample_pb chat_sp ping_up 100 [] chat_env" "sp_STREAM_CLOSE chat_so \<noteq> TRPC_STREAM_RESET sample_pb"
  by (auto simp: trpc_stream_client_def chat_so_def chat_co_def chat_cenv_def sample_codes_def stream_proto_def sample_pb_def chat_sp_def
      trpc_stream_env_def chat_env_def split: if_splits)

lemma chat_consts: "TRPC_STREAM_FRAME_INIT sample_pb = 1" "TRPC_STREAM_FRAME_DATA sample_pb = 2" "TRPC_STREAM_FRAME_CLOSE sample_pb = 4"
  "env_pb chat_env = sample_pb" "env_MaxWindowSize chat_env = 0" "env_Send chat_env f = None"
  "env_Encode chat_env m b = (case sv_Encode sample_pb chat_sp ping_up 100 [] m b of
     (_, _, Ok buf) \<Rightarrow> Ok buf | (_, _, Err e) \<Rightarrow> Err (OtherError (err_text sample_pb e) None) | (_, _, Panic) \<Rightarrow> Panic)"
  by (simp_all add: chat_env_def) (simp_all add: sample_pb_def)

lemma chat_write: "length b \<le> 84 \<Longrightarrow> frameWrite sample_pb 100 (newFrameHead sample_pb t 5) b = Ok (chat_frame t b)"
  by (simp add: frameWrite_def construct_Ok chat_frame_def)

lemma chat_msg [simp]: "cs_msg (chat_cs fs) = (WithClientRPCName ''/a.b/M'' resetDefault)\<lparr>streamID := 5\<rparr>" "cs_streamID (chat_cs fs) = 5"
  "serializationType (cs_msg (chat_cs fs)) = 0" "compressType (cs_msg (chat_cs fs)) = 0" "cs_user (chat_cs fs) = \<lparr>net_in = fs, net_out = [], net_closed = False\<rparr>"
  "cs_ServerStreams (chat_cs fs)" "items (cs_recvQueue (chat_cs fs)) = []" "\<not> cs_closed (chat_cs fs)" "cs_SControl (chat_cs fs) = None" "cs_RControl (chat_cs fs) = None"
  "cs_method (chat_cs fs) = ''/a.b/M''"
  by (simp_all add: chat_cs_def new_clientStream_def queue_New_def) (simp_all add: resetDefault_def)

text \<open>What the handler does.\<close>

lemma chat_handler:
  "handler_sent chat_cenv chat_env (cs_msg (chat_cs fs)) (BodyPtr (Some [7]), [7], chat_frame 2 [7])"
  "handler_ended chat_env None (chat_frame 4 [9])"
proof -
  let ?ss = "newServerStream chat_ctx 5"
  have "ss_SendMsg chat_env ?ss [7] = Some (?ss, [chat_frame 2 [7]], Ok ())"
    using chat_write [of "[7]" 2]
    by (simp add: ss_SendMsg_def newServerStream_def encode_send_def chat_env_def sv_Encode_def loadOrStoreDefaultUnaryFrameHead_def
        ss_Encode_def ss_encodeDataFrame_def ServerRspErr_def sample_pb_def newFrameHead_def Frame.isStream_def Let_def)
  then show "handler_sent chat_cenv chat_env (cs_msg (chat_cs fs)) (BodyPtr (Some [7]), [7], chat_frame 2 [7])"
    by (auto simp: handler_sent_def chat_cenv_def codec_Marshal_def codec_Compress_def CompressTypeNoop_def GetSerializer_def
        NoopSerialization_def SerializationTypeUnsupported_def simp del: chat_msg(1))
  have "ss_CloseSend chat_env ?ss 0 0 [] = ([chat_frame 4 [9]], Ok ())"
    using chat_write [of "[9]" 4]
    by (simp add: ss_CloseSend_def newServerStream_def encode_send_def chat_env_def sv_Encode_def loadOrStoreDefaultUnaryFrameHead_def
        ss_Encode_def ss_encodeCloseFrame_def setStreamCloseMetaData_def deleteInitMeta_def AddrToKey_def of_marshal_def chat_sp_def chat_close_def
        sample_pb_def newFrameHead_def Frame.isStream_def Let_def chat_ctx_def reply_msg_def WithCloneContextAndMessage_def copyServerToServerMessage_def copyCommonMessage_def
        resetDefault_def md_Clone_def md_list_def)
  then have "sd_sent (fst (startStreamHandler chat_env [] 5 0 None (NewStreamDispatcher\<lparr>sd_objs := [?ss]\<rparr>))) = [chat_frame 4 [9]]"
    by (simp add: startStreamHandler_def NewStreamDispatcher_def chat_env_def update_obj_def Let_def)
  then show "handler_ended chat_env None (chat_frame 4 [9])"
    unfolding handler_ended_def by (intro exI [of _ "[]"] exI [of _ 5] exI [of _ 0] exI [of _ "NewStreamDispatcher\<lparr>sd_objs := [?ss]\<rparr>"])
      (simp add: NewStreamDispatcher_def)
qed

lemma chat_format: "body_ok (ce_ser chat_cenv) (ce_cmp chat_cenv) 0 0 (\<lambda>b. \<exists>d. b = BodyPtr (Some d))"
  using noop_body_ok [of "ce_ser chat_cenv" 0] by (simp add: chat_cenv_def SerializationTypeUnsupported_def CompressTypeNoop_def)


text \<open>What the client sends, and the operations of the dispatcher that its frames become.\<close>

lemma chat_client:
  "client_sent chat_cenv chat_so 100 5 ([7], chat_frame 2 [7])" "client_closed chat_cenv chat_so 5 (chat_frame 4 [9])"
proof -
  let ?s = "chat_cs []"
  have pb: "sp_pb chat_so = sample_pb" by (simp add: chat_so_def)
  have ser: "serializeAndCompress chat_cenv (sp_call chat_so) m (Some (BodyPtr (Some [7]))) = Inr [7]"
    if "serializationType m = 0" "compressType m = 0" for m
    using that by (simp add: serializeAndCompress_def chat_so_def chat_co_def chat_cenv_def codec_Marshal_def GetSerializer_def NoopSerialization_def
        IsValidSerializationType_def IsValidCompressType_def SerializationTypePB_def CompressTypeNoop_def SerializationTypeUnsupported_def Let_def)
  let ?m = "(WithClientRPCName (cs_method ?s) (stream_msg chat_so (TRPC_STREAM_FRAME_DATA (sp_pb chat_so)) ?s))\<lparr>compressType := compressType (cs_msg ?s)\<rparr>"
  have "cs_Encode sample_pb chat_sp 100 ''p'' ?m [7] = (?m, Ok (chat_frame 2 [7]))"
    using chat_write [of "[7]" 2] stream_proto_ne [OF chat_setting(2)]
    by (simp add: cs_Encode_def cs_encodeDataFrame_def pb Let_def sample_pb_def)
  from stream_Send_pipe [OF chat_setting(1) ser _ this, where s = ?s and ?s1.0 = ?s]
  have "cs_SendMsg chat_cenv chat_so (Some (BodyPtr (Some [7]))) ?s = Some (?s\<lparr>cs_user := (cs_user ?s)\<lparr>net_out := [chat_frame 2 [7]]\<rparr>\<rparr>, Ok ())"
    by (simp add: cs_SendMsg_def pb get_window_def del: chat_msg(1))
  then show "client_sent chat_cenv chat_so 100 5 ([7], chat_frame 2 [7])"
    unfolding client_sent_def prod.case using ser
    by (intro exI [of _ ?s] exI [of _ "?s\<lparr>cs_user := (cs_user ?s)\<lparr>net_out := [chat_frame 2 [7]]\<rparr>\<rparr>"] exI [of _ "BodyPtr (Some [7])"])
      (simp del: chat_msg(1))
  let ?c = "(stream_msg chat_so (TRPC_STREAM_FRAME_CLOSE (sp_pb chat_so)) ?s)\<lparr>streamFrame := StreamClose chat_close\<rparr>"
  have "cs_Encode sample_pb chat_sp 100 ''p'' ?c [] = (?c, Ok (chat_frame 4 [9]))"
    using chat_write [of "[9]" 4] stream_proto_ne [OF chat_setting(2)]
    by (simp add: cs_Encode_def cs_encodeCloseFrame_def of_marshal_def chat_sp_def pb Let_def sample_pb_def)
  from stream_Send_pipe [OF chat_setting(1) serialize_nothing _ this, where s = ?s and ?s1.0 = ?s]
  have "cs_CloseSend chat_cenv chat_so ?s = Some (?s\<lparr>cs_user := (cs_user ?s)\<lparr>net_out := [chat_frame 4 [9]]\<rparr>\<rparr>, Ok ())"
    by (simp add: cs_CloseSend_def pb chat_close_def chat_so_def del: chat_msg(1))
  then show "client_closed chat_cenv chat_so 5 (chat_frame 4 [9])"
    unfolding client_closed_def
    by (intro exI [of _ ?s] exI [of _ "?s\<lparr>cs_user := (cs_user ?s)\<lparr>net_out := [chat_frame 4 [9]]\<rparr>\<rparr>"]) simp
qed

definition chat_metas :: init_metas where
  "chat_metas = [(''tcp_l_r'', [(5, chat_req)])]"

definition chat_in :: "u8 \<Rightarrow> bytes \<Rightarrow> msg" where
  "chat_in t b = (WithServerRPCName ''/a.b/M'' (chat_ctx\<lparr>frameHead := TrpcFrameHead (recv_head (newFrameHead sample_pb t 5) b), streamID := 5\<rparr>))"

definition chat_open :: msg where
  "chat_open = (chat_in 1 [1])\<lparr>streamFrame := StreamInit chat_req\<rparr>"

definition chat_ops :: "sd_op list" where
  "chat_ops = [OpFrame chat_open [], OpFrame (chat_in 2 [7]) [7], OpFrame ((chat_in 4 [9])\<lparr>streamFrame := StreamClose chat_close\<rparr>) []]"

lemma chat_in_simps [simp]: "frameHead (chat_in t b) = TrpcFrameHead (recv_head (newFrameHead sample_pb t 5) b)"
  "localAddr (chat_in t b) = Some (''tcp'', ''l'')" "remoteAddr (chat_in t b) = Some (''tcp'', ''r'')" "streamID (chat_in t b) = 5"
  by (simp_all add: chat_in_def chat_ctx_def)

lemma chat_arrives:
  "arrives sample_pb chat_sp ping_up (Some (''tcp'', ''l'')) (Some (''tcp'', ''r'')) ''tcp_l_r'' 5 (chat_frame 2 [7]) (chat_ops ! 1)"
  "arrives sample_pb chat_sp ping_up (Some (''tcp'', ''l'')) (Some (''tcp'', ''r'')) ''tcp_l_r'' 5 (chat_frame 4 [9]) (chat_ops ! 2)"
proof -
  let ?m = "\<lambda>t b. resetDefault\<lparr>localAddr := Some (''tcp'', ''l''), remoteAddr := Some (''tcp'', ''r''),
    frameHead := TrpcFrameHead (recv_head (newFrameHead sample_pb t 5) b)\<rparr>"
  note s = stream_proto_ne [OF chat_setting(2)]
  have w: "frameWrite sample_pb 100 (newFrameHead sample_pb t 5) [x] = Ok (chat_frame t [x])" for t x by (rule chat_write) simp
  have find: "findInitMeta ''tcp_l_r'' 5 chat_metas = Some chat_req" by (simp add: chat_metas_def findInitMeta_def)
  have d1: "ss_Decode sample_pb chat_sp chat_metas (?m 2 [7]) (chat_frame 2 [7]) = (chat_metas, chat_in 2 [7], Ok [7])"
    using find frameWrite_read(2) [OF w, of 2 7]
    by (simp add: ss_Decode_def ss_decodeDataFrame_def setInitMeta_def AddrToKey_def Frame.isStream_def sample_pb_def chat_in_def chat_ctx_def chat_req_def Let_def)
  have d2: "ss_Decode sample_pb chat_sp chat_metas (?m 4 [9]) (chat_frame 4 [9])
      = (chat_metas, (chat_in 4 [9])\<lparr>streamFrame := StreamClose chat_close\<rparr>, Ok [])"
    using find frameWrite_read(2) [OF w, of 4 9]
    by (simp add: ss_Decode_def ss_decodeCloseFrame_def setInitMeta_def AddrToKey_def Frame.isStream_def sample_pb_def chat_in_def chat_ctx_def chat_req_def
        chat_sp_def chat_close_def Let_def)
  show "arrives sample_pb chat_sp ping_up (Some (''tcp'', ''l'')) (Some (''tcp'', ''r'')) ''tcp_l_r'' 5 (chat_frame 2 [7]) (chat_ops ! 1)"
    using find server_reads [OF w newFrameHead_simps(4) chat_setting(2) d1, of ping_up] unfolding arrives_def
    by (intro exI [of _ chat_metas]) (simp add: chat_ops_def)
  show "arrives sample_pb chat_sp ping_up (Some (''tcp'', ''l'')) (Some (''tcp'', ''r'')) ''tcp_l_r'' 5 (chat_frame 4 [9]) (chat_ops ! 2)"
    using find server_reads [OF w newFrameHead_simps(4) chat_setting(2) d2, of ping_up] unfolding arrives_def
    by (intro exI [of _ chat_metas]) (simp add: chat_ops_def)
qed

lemma reply_types: "serializationType (reply_msg ss) = serializationType (ss_ctx ss)" "compressType (reply_msg ss) = 0"
  by (simp_all add: reply_msg_def WithCloneContextAndMessage_def copyServerToServerMessage_def copyCommonMessage_def resetDefault_def)

lemma setters_type [simp]: "serializationType (WithServerMetaData d m) = serializationType m" "serializationType (WithClientMetaData d m) = serializationType m"
  "serializationType (WithCallerServiceName n m) = serializationType m" "serializationType (WithCalleeServiceName n m) = serializationType m"
  by (simp_all add: WithServerMetaData_def WithClientMetaData_def WithCallerServiceName_def WithCalleeServiceName_def split: prod.split)

lemma CopyMsg_type: "serializationType (CopyMsg rc d m) = serializationType m"
  by (simp add: CopyMsg_def Let_def)

lemma chat_opened:
  assumes m: "serializationType m = 0" "streamFrame m = StreamInit chat_req" "localAddr m = Some (''tcp'', ''l'')"
    "remoteAddr m = Some (''tcp'', ''r'')" "streamID m = 5"
  shows "\<exists>sd r. handleInit chat_env m NewStreamDispatcher = (sd, r)
     \<and> sd_sent sd = [chat_frame 1 [2]] \<and> find_stream ''tcp_l_r'' 5 (addrToServerStream sd) = Some 0"
proof -
  let ?c = "CopyMsg (pb_codes sample_pb) resetDefault m"
  let ?ss = "(newServerStream ?c 5)\<lparr>ss_rControl := Some (newReceiveControl (getWindowSize 0) True), ss_sControl := Some (newSendControl 65535)\<rparr>"
  have ct: "setSendControl ?c ((newServerStream ?c 5)\<lparr>ss_rControl := Some (newReceiveControl (getWindowSize 0) True)\<rparr>) = (?ss, Ok 65535)"
    using m(2) by (simp add: setSendControl_def chat_req_def)
  have rsp: "\<lparr>im_RequestMeta = None, im_ResponseMeta = Some \<lparr>irs_Ret = 0, irs_ErrorMsg = []\<rparr>, im_ContentType = 0, im_ContentEncoding = 0,
      im_InitWindowSize = getWindowSize 0\<rparr> = chat_rsp" by (simp add: chat_rsp_def getWindowSize_def defaultInitWindowSize_def)
  have ne: "marshalInit chat_sp chat_rsp = Some [2]" by (simp add: chat_sp_def chat_rsp_def chat_req_def)
  let ?r = "init_response chat_env (getWindowSize 0) ?ss 65535"
  have r: "frameHead ?r = TrpcFrameHead (newFrameHead sample_pb 1 5)" "serializationType ?r = 0" "compressType ?r = 0" "ServerRspErr (pb_codes sample_pb) ?r = None"
    "streamFrame ?r = StreamInit chat_rsp"
    using m(1) rsp by (simp_all add: init_response_def reply_types CopyMsg_type newServerStream_def chat_consts ServerRspErr_def)
  have "snd (snd (ss_Encode sample_pb chat_sp 100 [] ?r [])) = Ok (chat_frame 1 [2])"
    using chat_write [of "[2]" 1] r ne rsp
    by (simp add: ss_Encode_def ss_encodeInitFrame_def chat_consts Let_def of_marshal_def) (simp add: chat_rsp_def)
  then have "encode_send chat_env ?r [] = ([chat_frame 1 [2]], Ok ())"
    using r(1) by (cases "ss_Encode sample_pb chat_sp 100 [] ?r []") (simp add: encode_send_def chat_consts sv_Encode_def loadOrStoreDefaultUnaryFrameHead_def)
  then show ?thesis using m(3-5) ct
    by (simp add: handleInit_def chat_consts AddrToKey_def NewStreamDispatcher_def find_store Let_def)
qed

lemma frame_keeps_table:
  assumes "frameHead m = TrpcFrameHead h" "StreamFrameType h = TRPC_STREAM_FRAME_DATA (env_pb env) \<or> StreamFrameType h = TRPC_STREAM_FRAME_CLOSE (env_pb env)"
    "StreamFrameType h \<noteq> TRPC_STREAM_FRAME_INIT (env_pb env)"
  shows "addrToServerStream (fst (StreamHandleFunc env m req sd)) = addrToServerStream sd"
  using assms by (auto simp: StreamHandleFunc_def handleByStreamFrameType_def handleData_def handleClose_def Let_def intro!: with_stream_table)


lemma WithClientRPCName_keeps: "callerServiceName (WithClientRPCName n m) = callerServiceName m" "calleeServiceName (WithClientRPCName n m) = calleeServiceName m"
  "clientRPCName (WithClientRPCName n m) = n" "dyeing (WithClientRPCName n m) = dyeing m" "dyeingKey (WithClientRPCName n m) = dyeingKey m"
  "envTransfer (WithClientRPCName n m) = envTransfer m" "clientMetaData (WithClientRPCName n m) = clientMetaData m"
  by (simp_all add: WithClientRPCName_def updateMethodNameUsingRPCName_def)

lemma chat_init_frame:
  "\<exists>m1. cs_Encode sample_pb chat_sp 100 ''p'' (init_msg chat_so (chat_cs fs)) [] = (m1, Ok (chat_frame 1 [1]))"
proof -
  let ?i = "init_msg chat_so (chat_cs fs)"
  have i: "serializationType ?i = 0" "compressType ?i = 0" "callerServiceName ?i = []" "calleeServiceName ?i = []" "clientRPCName ?i = ''/a.b/M''"
      "dyeing ?i = False" "dyeingKey ?i = []" "envTransfer ?i = []" "clientMetaData ?i = None"
    by (simp_all add: init_msg_def copyMetaData_def WithCloneContextAndMessage_def copyServerToServerMessage_def copyCommonMessage_def
        WithClientRPCName_keeps) (simp_all add: resetDefault_def)
  have j: "callerServiceName (WithCallerServiceName n ?i) = n" "calleeServiceName (WithCallerServiceName n ?i) = []"
      "clientRPCName (WithCallerServiceName n ?i) = ''/a.b/M''" "dyeing (WithCallerServiceName n ?i) = False" "dyeingKey (WithCallerServiceName n ?i) = []"
      "envTransfer (WithCallerServiceName n ?i) = []" "clientMetaData (WithCallerServiceName n ?i) = None"
      "serializationType (WithCallerServiceName n ?i) = 0" "compressType (WithCallerServiceName n ?i) = 0" for n
    using i by (simp_all add: WithCallerServiceName_def split: prod.split)
  have t: "setClientTransInfo (WithCallerServiceName n ?i) None = None" for n by (simp add: setClientTransInfo_def j md_list_def md_get_def)
  have w: "init_window chat_so = 65535" by (simp add: init_window_def chat_so_def getWindowSize_def defaultInitWindowSize_def)
  have f: "streamFrame ?i = StreamInit \<lparr>im_RequestMeta = Some \<lparr>irq_Caller = [], irq_Callee = [], irq_Func = [], irq_MessageType = 0,
      irq_TransInfo = None\<rparr>, im_ResponseMeta = None, im_ContentType = 0, im_ContentEncoding = 0, im_InitWindowSize = 65535\<rparr>" by (simp add: init_msg_def w)
  have q: "marshalInit chat_sp chat_req = Some [1]" by (simp add: chat_sp_def)
  have pb: "sp_pb chat_so = sample_pb" by (simp add: chat_so_def)
  show ?thesis using chat_write [of "[1]" 1] q
    by (simp add: cs_Encode_def cs_encodeInitFrame_def pb chat_consts i j t f Let_def of_marshal_def chat_req_def)
qed

theorem stream_handshake_witness:
  "\<exists>s'. invoke chat_cenv chat_so (chat_cs [chat_frame 1 [2]]) = Some (s', Ok ()) \<and> cs_SControl s' = Some (newSendControl 65535)"
proof -
  let ?s = "chat_cs [chat_frame 1 [2]]"
  obtain m1 where m1: "cs_Encode sample_pb chat_sp 100 ''p'' (init_msg chat_so ?s) [] = (m1, Ok (chat_frame 1 [1]))"
    using chat_init_frame by blast
  let ?m = "resetDefault\<lparr>localAddr := Some (''tcp'', ''l''), remoteAddr := Some (''tcp'', ''r'')\<rparr>"
  have w: "frameWrite sample_pb 100 (newFrameHead sample_pb (TRPC_STREAM_FRAME_INIT sample_pb) 5) [1] = Ok (chat_frame 1 [1])"
    using chat_write [of "[1]" 1] by (simp add: chat_consts)
  have q: "marshalInit chat_sp chat_req = Some [1]" by (simp add: chat_sp_def)
  have r: "im_RequestMeta chat_req \<noteq> None" by (simp add: chat_req_def)
  have k: "(AddrToKey (Some (''tcp'', ''l'')) (Some (''tcp'', ''r'')) :: (codec_error, string) res) = Ok ''tcp_l_r''" by (simp add: AddrToKey_def)
  obtain m metas' where d: "sv_Decode sample_pb chat_sp ping_up [] ?m (chat_frame 1 [1]) = (metas', m, Ok [])"
    "streamFrame m = StreamInit chat_req" "localAddr m = Some (''tcp'', ''l'')" "remoteAddr m = Some (''tcp'', ''r'')" "streamID m = 5"
    "frameHead m = TrpcFrameHead (recv_head (newFrameHead sample_pb (TRPC_STREAM_FRAME_INIT sample_pb) 5) [1])" "serializationType m = uint (im_ContentType chat_req)"
    using init_arrives [OF chat_setting(2) q w r k, of ping_up "[]"] by blast
  obtain sd res where h: "StreamHandleFunc chat_env m [] NewStreamDispatcher = (sd, res)" by (cases "StreamHandleFunc chat_env m [] NewStreamDispatcher")
  have "sd_sent sd = sd_sent NewStreamDispatcher @ [chat_frame 1 [2]]"
  proof -
    have "handleInit chat_env (m\<lparr>frameHead := FrameHeadNil\<rparr>) NewStreamDispatcher = (sd, res)"
      using h d(6) by (simp add: StreamHandleFunc_def handleByStreamFrameType_def chat_consts)
    then show ?thesis using chat_opened [of "m\<lparr>frameHead := FrameHeadNil\<rparr>"] d(2-5,7) by (simp add: chat_req_def NewStreamDispatcher_def)
  qed
  from stream_handshake [OF chat_setting(1-3) _ _ _ _ m1 _ _ _ d(1) h this, where rest = "[]" and network = "''tcp''" and l = "''l''" and network' = "''tcp''"
      and r = "''r''" and addr = "''tcp_l_r''"]
  show ?thesis by (auto simp: chat_so_def flow_start_def chat_consts getWindowSize_def defaultInitWindowSize_def)
qed

subsection \<open>The end of dispatch\<close>

lemma feedback_refused:
  assumes cl: "trpc_stream_client pb sp up maxSize pn ce so" and pr: "stream_proto pb sp maxSize" and closed: "net_closed (cs_user s)"
  shows "cs_feedback ce so i s = Some (s, Err (NewFrameError (RetServerSystemErr (ce_cc ce)) ''Connection is Closed''))"
proof -
  have pb: "sp_pb so = pb" using cl by (simp add: trpc_stream_client_def)
  let ?h = "newFrameHead pb (TRPC_STREAM_FRAME_FEEDBACK pb) (cs_streamID s)"
  let ?m = "(WithClientRPCName (cs_method s) (stream_msg so (TRPC_STREAM_FRAME_FEEDBACK (sp_pb so)) s))\<lparr>
          streamFrame := StreamFeedBack \<lparr>fb_WindowSizeIncrement = i\<rparr>\<rparr>"
  obtain b where b: "marshalFeedBack sp \<lparr>fb_WindowSizeIncrement = i\<rparr> = Some b" "16 + length b \<le> maxSize"
    using stream_proto_unmarshal(4) [OF pr] by blast
  obtain f where f: "frameWrite pb maxSize ?h b = Ok f" using frameWrite_Ok [OF b(2) stream_proto_unmarshal(5) [OF pr]] by blast
  have "cl_Encode pb sp up maxSize pn (cs_codec s) ?m [] = (cs_codec s, ?m, Ok f)"
    using b f stream_proto_ne [OF pr]
    by (simp add: cl_Encode_def loadOrStoreDefaultUnaryFrameHead_def cs_Encode_def cs_encodeFeedbackFrame_def of_marshal_def pb Let_def)
  then show ?thesis using cl closed
    by (simp add: cs_feedback_def stream_Send_def serialize_nothing trpc_stream_client_def TrpcClientCodec_def tr_fail_def)
qed

text \<open>C37: the end of a stream can cost a message. When \<open>dispatch\<close> ends it first closes the transport and only
  then marks the stream as closed. A \<open>RecvMsg\<close> between the two that takes a message whose
  acknowledgement is due finds the stream not marked, fails to send the feedback frame and returns the
  transport's error: the message, received and already taken from the queue, is lost. Once the stream
  is marked the same call returns the message.\<close>

theorem recv_lost_while_closing:
  assumes cl: "trpc_stream_client pb sp up maxSize pn ce so" "stream_proto pb sp maxSize"
    and s: "\<not> cs_closed s" "cs_ServerStreams s" "items (cs_recvQueue s) = \<lparr>rsp_data = d, rsp_err = None\<rparr> # rs"
    and due: "cs_RControl s = Some rc" "OnRecv (word_of_nat (length d)) rc = (rc', Some i)"
    and closing: "s1 = s\<lparr>cs_user := tr_Close (sp_Transport so) (cs_msg s) (cs_user s)\<rparr>"
  shows "(\<exists>s2. cs_RecvMsg ce so (Some new) s1 = Some (s2, Err (NewFrameError (RetServerSystemErr (ce_cc ce)) ''Connection is Closed''))
        \<and> items (cs_recvQueue s2) = rs)
    \<and> (\<exists>s2. cs_RecvMsg ce so (Some new) (cs_close s1) = Some (s2, cs_result ce (cs_msg s) new \<lparr>rsp_data = d, rsp_err = None\<rparr>))"
proof
  let ?s = "s1\<lparr>cs_recvQueue := (cs_recvQueue s1)\<lparr>items := rs\<rparr>, cs_RControl := Some rc'\<rparr>"
  have n: "net_closed (cs_user ?s)" using cl(1) closing by (simp add: trpc_stream_client_def)
  have "cs_get ce s1 = Some (s1\<lparr>cs_recvQueue := (cs_recvQueue s1)\<lparr>items := rs\<rparr>\<rparr>, Some \<lparr>rsp_data = d, rsp_err = None\<rparr>)"
    using s(3) closing by (simp add: cs_get_def queue_TryGet_def Get_locked_def)
  then have "cs_RecvMsg ce so (Some new) s1 = Some (?s, Err (NewFrameError (RetServerSystemErr (ce_cc ce)) ''Connection is Closed''))"
    using due s(1) closing feedback_refused [OF cl n] by (simp add: cs_RecvMsg_def cs_recv_def recvFlowCtl_def)
  then show "\<exists>s2. cs_RecvMsg ce so (Some new) s1 = Some (s2, Err (NewFrameError (RetServerSystemErr (ce_cc ce)) ''Connection is Closed''))
        \<and> items (cs_recvQueue s2) = rs" by simp
  show "\<exists>s2. cs_RecvMsg ce so (Some new) (cs_close s1) = Some (s2, cs_result ce (cs_msg s) new \<lparr>rsp_data = d, rsp_err = None\<rparr>)"
    using RecvMsg_pipe [OF cl, of "cs_close s1" "\<lparr>rsp_data = d, rsp_err = None\<rparr>" rs new] s closing by (auto simp: cs_close_def)
qed

theorem recv_lost_while_closing_witness:
  "\<exists>s s2. items (cs_recvQueue s) = [\<lparr>rsp_data = [7], rsp_err = None\<rparr>] \<and> items (cs_recvQueue s2) = []
     \<and> cs_RecvMsg chat_cenv chat_so (Some (BodyPtr (Some []))) s = Some (s2, Err (NewFrameError 31 ''Connection is Closed''))"
proof -
  let ?s = "(cs_put \<lparr>rsp_data = [7], rsp_err = None\<rparr> (chat_cs []))\<lparr>cs_RControl := Some (newReceiveControl 4 True)\<rparr>"
  let ?s1 = "?s\<lparr>cs_user := tr_Close (sp_Transport chat_so) (cs_msg ?s) (cs_user ?s)\<rparr>"
  have q: "items (cs_recvQueue ?s) = [\<lparr>rsp_data = [7], rsp_err = None\<rparr>]" "\<not> cs_closed ?s" "cs_ServerStreams ?s"
    by (simp_all add: cs_put_def)
  have o: "OnRecv (word_of_nat (length [7 :: byte])) (newReceiveControl 4 True) = ((newReceiveControl 4 True)\<lparr>rc_unUpdated := 0\<rparr>, Some 1)"
    by (simp add: OnRecv_def newReceiveControl_def)
  obtain s2 where s2: "cs_RecvMsg chat_cenv chat_so (Some (BodyPtr (Some []))) ?s1 = Some (s2, Err (NewFrameError (RetServerSystemErr (ce_cc chat_cenv)) ''Connection is Closed''))"
    "items (cs_recvQueue s2) = []"
    using recv_lost_while_closing [OF chat_setting(1,2) q(2,3,1) _ o refl, of "BodyPtr (Some [])"] by auto
  then have e: "cs_RecvMsg chat_cenv chat_so (Some (BodyPtr (Some []))) ?s1 = Some (s2, Err (NewFrameError 31 ''Connection is Closed''))"
    by (simp add: chat_cenv_def sample_codes_def)
  show ?thesis by (rule exI [of _ ?s1], rule exI [of _ s2]) (use e s2(2) q(1) in simp)
qed

end
