(* ===== verification/Byte_Alloc.thy ===== *)
theory Byte_Alloc
  imports Go_Prelude
begin

text \<open>
  Memory for byte slices, the pooling allocator (\<open>internal/allocator\<close>) and the contract between an
  allocator and its users. Memory is a list of blocks; a Go slice is a window of a block. The locale
  \<open>allocator\<close> states what \<open>linkbuffer\<close> and \<open>packetbuffer\<close> rely on: the blocks that \<open>Malloc\<close> hands out are
  large enough and not in use, and \<open>Free\<close> accepts what \<open>Malloc\<close> returned. \<open>ClassAllocator\<close> satisfies it.
\<close>

subsection \<open>Blocks and slices\<close>

type_synonym heap = "bytes list"

record go_slice =
  sl_blk :: nat
  sl_off :: nat
  sl_len :: nat
  sl_cap :: nat

definition nil_slice :: go_slice where
  "nil_slice = \<lparr>sl_blk = 0, sl_off = 0, sl_len = 0, sl_cap = 0\<rparr>"

definition contents :: "heap \<Rightarrow> go_slice \<Rightarrow> bytes" where
  "contents h s = take (sl_len s) (drop (sl_off s) (h ! sl_blk s))"

text \<open>\<open>make([]byte, n)\<close>, and the copy of \<open>d\<close> to a position of a block.\<close>

definition make_bytes :: "nat \<Rightarrow> heap \<Rightarrow> heap \<times> go_slice" where
  "make_bytes n h = (h @ [replicate n 0], \<lparr>sl_blk = length h, sl_off = 0, sl_len = n, sl_cap = n\<rparr>)"

definition poke :: "nat \<Rightarrow> nat \<Rightarrow> bytes \<Rightarrow> heap \<Rightarrow> heap" where
  "poke b i d h = h[b := take i (h ! b) @ d @ drop (i + length d) (h ! b)]"

text \<open>A slice within memory, and memory of the same shape, perhaps with more blocks.\<close>

definition in_heap :: "heap \<Rightarrow> go_slice \<Rightarrow> bool" where
  "in_heap h s \<longleftrightarrow> 0 < sl_len s \<longrightarrow> sl_blk s < length h \<and> sl_off s + sl_len s \<le> length (h ! sl_blk s)"

definition refs :: "nat \<Rightarrow> go_slice \<Rightarrow> bool" where
  "refs b s \<longleftrightarrow> 0 < sl_len s \<and> sl_blk s = b"

definition extends :: "heap \<Rightarrow> heap \<Rightarrow> bool" where
  "extends h h' \<longleftrightarrow> length h \<le> length h' \<and> (\<forall>b < length h. length (h' ! b) = length (h ! b))"

lemma extends_refl [simp]: "extends h h"
  by (simp add: extends_def)

lemma extends_trans: "extends h h' \<Longrightarrow> extends h' h'' \<Longrightarrow> extends h h''"
  by (simp add: extends_def)

lemma length_poke [simp]: "length (poke b i d h) = length h"
  by (simp add: poke_def)

lemma nth_poke_other: "b' \<noteq> b \<Longrightarrow> poke b i d h ! b' = h ! b'"
  by (simp add: poke_def)

lemma nth_poke: "b < length h \<Longrightarrow> poke b i d h ! b = take i (h ! b) @ d @ drop (i + length d) (h ! b)"
  by (simp add: poke_def)

lemma length_nth_poke: "i + length d \<le> length (h ! b) \<Longrightarrow> length (poke b i d h ! b') = length (h ! b')"
  by (cases "b' = b"; cases "b < length h") (simp_all add: nth_poke nth_poke_other, simp add: poke_def list_update_beyond)

lemma extends_poke: "i + length d \<le> length (h ! b) \<Longrightarrow> extends h (poke b i d h)"
  by (simp add: extends_def length_nth_poke)

lemma contents_empty [simp]: "sl_len s = 0 \<Longrightarrow> contents h s = []"
  by (simp add: contents_def)

lemma length_contents: "in_heap h s \<Longrightarrow> length (contents h s) = sl_len s"
  by (cases "sl_len s") (auto simp: contents_def in_heap_def min_def)

lemma in_heap_extends: "in_heap h s \<Longrightarrow> extends h h' \<Longrightarrow> in_heap h' s"
  by (auto simp: in_heap_def extends_def)

text \<open>Writing outside of a slice does not change what it shows.\<close>

lemma contents_poke_before:
  assumes "in_heap h s" "refs b s \<longrightarrow> sl_off s + sl_len s \<le> i" "i + length d \<le> length (h ! b)"
  shows "contents (poke b i d h) s = contents h s"
proof (cases "0 < sl_len s \<and> sl_blk s = b")
  case True
  with assms(1,2) have "b < length h" "sl_off s + sl_len s \<le> i" by (auto simp: in_heap_def refs_def)
  with True assms(3) show ?thesis by (auto simp: contents_def nth_poke drop_take)
next
  case False
  then show ?thesis by (cases "sl_len s = 0") (auto simp: contents_def nth_poke_other)
qed

lemma contents_poke_end:
  assumes "b < length h" "p + n + length d \<le> length (h ! b)"
  shows "contents (poke b (p + n) d h) \<lparr>sl_blk = b, sl_off = p, sl_len = n + length d, sl_cap = c\<rparr>
    = contents h \<lparr>sl_blk = b, sl_off = p, sl_len = n, sl_cap = c'\<rparr> @ d"
  using assms by (simp add: contents_def nth_poke drop_take)

subsection \<open>The contract of an allocator\<close>

text \<open>An \<open>Allocator\<close> value: its methods work on a state of the allocator and on memory. The second result
  of \<open>Malloc\<close> is the slice to free, an interface value; \<open>Free\<close> of a nil interface is \<open>None\<close>.\<close>

record 'a Allocator =
  al_Malloc :: "int \<Rightarrow> 'a \<Rightarrow> heap \<Rightarrow> (unit, 'a \<times> heap \<times> go_slice \<times> go_slice) res"
  al_Free :: "go_slice option \<Rightarrow> 'a \<Rightarrow> (unit, 'a) res"

text \<open>A block that \<open>Malloc\<close> has handed out.\<close>

definition got_block :: "nat set \<Rightarrow> heap \<Rightarrow> nat set \<Rightarrow> heap \<Rightarrow> nat \<Rightarrow> bool" where
  "got_block av h av' h' k \<longleftrightarrow> (\<forall>b < length h. h' ! b = h ! b) \<and> {..<length h'} = insert k {..<length h}
     \<and> av' = av - {k} \<and> (k \<in> av \<or> length h \<le> k)"

text \<open>\<open>avail\<close> are the blocks that the allocator may hand out again, \<open>token\<close> the slices that it takes back.\<close>

locale allocator =
  fixes A :: "'a Allocator" and ok :: "'a \<Rightarrow> heap \<Rightarrow> bool" and avail :: "'a \<Rightarrow> nat set"
    and token :: "heap \<Rightarrow> go_slice \<Rightarrow> bool" and max_size :: int
  assumes malloc: "ok a h \<Longrightarrow> 0 < n \<Longrightarrow> n \<le> max_size \<Longrightarrow>
      \<exists>a' h' s v. al_Malloc A n a h = Ok (a', h', s, v) \<and> ok a' h' \<and> got_block (avail a) h (avail a') h' (sl_blk s)
        \<and> sl_off s = 0 \<and> sl_len s = nat n
        \<and> sl_len s \<le> sl_cap s \<and> sl_cap s = length (h' ! sl_blk s) \<and> sl_blk v = sl_blk s \<and> token h' v"
    and free: "ok a h \<Longrightarrow> token h v \<Longrightarrow> sl_blk v \<notin> avail a \<Longrightarrow>
      \<exists>a'. al_Free A (Some v) a = Ok a' \<and> ok a' h \<and> avail a' = insert (sl_blk v) (avail a)"
    and ok_extends: "ok a h \<Longrightarrow> extends h h' \<Longrightarrow> ok a h'"
    and token_extends: "token h v \<Longrightarrow> extends h h' \<Longrightarrow> token h' v"
    and avail_heap: "ok a h \<Longrightarrow> avail a \<subseteq> {..<length h}"
    and token_heap: "token h v \<Longrightarrow> sl_blk v < length h"

subsection \<open>ClassAllocator\<close>

definition maxPowerToRoundUpInt :: nat where
  "maxPowerToRoundUpInt = 63"

text \<open>The loop of \<open>powerToRoundUp\<close> on 64-bit integers; \<open>None\<close> is running out of fuel.\<close>

fun powerToRoundUp_loop :: "nat \<Rightarrow> u64 \<Rightarrow> u64 \<Rightarrow> nat \<Rightarrow> nat option" where
  "powerToRoundUp_loop 0 n powerOfTwo pow = None"
| "powerToRoundUp_loop (Suc fuel) n powerOfTwo pow =
     (if 0 <s n - powerOfTwo then powerToRoundUp_loop fuel n (push_bit 1 powerOfTwo) (pow + 1) else Some pow)"

definition powerToRoundUp :: "u64 \<Rightarrow> nat option" where
  "powerToRoundUp n = powerToRoundUp_loop 66 n 1 0"

text \<open>A \<open>sync.Pool\<close> is the list of what was put into it. \<open>Get\<close> takes any of them or makes a new one; the
  argument \<open>pick\<close> decides.\<close>

type_synonym ClassAllocator = "go_slice list list"

definition NewClassAllocator :: ClassAllocator where
  "NewClassAllocator = replicate maxPowerToRoundUpInt []"

definition pool_Get :: "(go_slice list \<Rightarrow> nat option) \<Rightarrow> nat \<Rightarrow> ClassAllocator \<Rightarrow> heap \<Rightarrow> ClassAllocator \<times> heap \<times> go_slice" where
  "pool_Get pick i pools h =
     (let p = pools ! i;
          new = (let (h', v) = make_bytes (2 ^ i) h in (pools, h', v))
      in case pick p of
           None \<Rightarrow> new
         | Some k \<Rightarrow> if k < length p then (pools[i := take k p @ drop (Suc k) p], h, p ! k) else new)"

definition Malloc :: "(go_slice list \<Rightarrow> nat option) \<Rightarrow> int \<Rightarrow> ClassAllocator \<Rightarrow> heap
    \<Rightarrow> (unit, ClassAllocator \<times> heap \<times> go_slice \<times> go_slice) res" where
  "Malloc pick sz pools h =
     (if sz \<le> 0 then Panic
      else case powerToRoundUp (word_of_int sz) of
        None \<Rightarrow> Panic
      | Some i \<Rightarrow>
          if length pools \<le> i then Panic
          else (let (pools, h, v) = pool_Get pick i pools h in
                if sl_cap v < nat sz then Panic else Ok (pools, h, v\<lparr>sl_len := nat sz\<rparr>, v)))"

definition Free :: "go_slice option \<Rightarrow> ClassAllocator \<Rightarrow> (unit, ClassAllocator) res" where
  "Free bts pools =
     (case bts of
        None \<Rightarrow> Panic
      | Some v \<Rightarrow>
          if sl_cap v = 0 then Panic
          else case powerToRoundUp (word_of_nat (sl_cap v)) of
            None \<Rightarrow> Panic
          | Some pow \<Rightarrow>
              if push_bit pow (1 :: u64) \<noteq> word_of_nat (sl_cap v) then Panic
              else if length pools \<le> pow then Panic
              else Ok (pools[pow := v # pools ! pow]))"

definition class_allocator :: "(go_slice list \<Rightarrow> nat option) \<Rightarrow> ClassAllocator Allocator" where
  "class_allocator pick = \<lparr>al_Malloc = Malloc pick, al_Free = Free\<rparr>"

subsection \<open>Size classes\<close>

text \<open>The difference that the loop tests does not overflow before the shifted power does.\<close>

lemma less_test:
  assumes "0 < n" "n < 2 ^ 63" "k \<le> 63"
  shows "0 <s (word_of_int n :: u64) - 2 ^ k \<longleftrightarrow> k < 63 \<and> 2 ^ k < n"
proof -
  define m :: int where "m = 2 ^ k"
  have m: "0 < m" "m \<le> 2 ^ 63" unfolding m_def using power_increasing [OF assms(3), of "2 :: int"] by auto
  have "(word_of_int n :: u64) - 2 ^ k = word_of_int (n - m)"
    by (simp add: m_def)
  moreover have "sint (word_of_int (n - m) :: u64) = n - m"
    unfolding sint_sbintrunc' by (rule signed_take_bit_int_eq_self) (use assms m in auto)
  moreover have "m < n \<longrightarrow> k < 63" using assms unfolding m_def by (cases "k = 63") auto
  ultimately show ?thesis using m by (auto simp: word_sless_alt m_def)
qed

lemma powerToRoundUp_loop_ends:
  assumes n: "0 < n" "n < 2 ^ 63" and p: "p \<le> 63" "p < 63 \<longrightarrow> n \<le> 2 ^ p" "\<forall>j < p. 2 ^ j < n"
  shows "k \<le> p \<Longrightarrow> p - k < fuel \<Longrightarrow> powerToRoundUp_loop fuel (word_of_int n) (2 ^ k) k = Some p"
proof (induction fuel arbitrary: k)
  case (Suc fuel)
  show ?case
  proof (cases "k = p")
    case True
    with n p(1,2) show ?thesis by (auto simp: less_test)
  next
    case False
    with Suc.prems p have "k < 63" "2 ^ k < n" by auto
    with Suc n False show ?thesis using Suc.IH [of "Suc k"] by (simp add: less_test push_bit_eq_mult mult.commute)
  qed
qed simp

definition size_class :: "int \<Rightarrow> nat" where
  "size_class n = (LEAST p. p = 63 \<or> n \<le> 2 ^ p)"

lemma size_class:
  "size_class n \<le> 63" "size_class n < 63 \<Longrightarrow> n \<le> 2 ^ size_class n" "j < size_class n \<Longrightarrow> 2 ^ j < n"
proof -
  show "size_class n \<le> 63" unfolding size_class_def by (rule Least_le) simp
  have "size_class n = 63 \<or> n \<le> 2 ^ size_class n" unfolding size_class_def by (rule LeastI [of _ 63]) simp
  then show "size_class n < 63 \<Longrightarrow> n \<le> 2 ^ size_class n" by auto
  show "j < size_class n \<Longrightarrow> 2 ^ j < n" unfolding size_class_def using not_less_Least by force
qed

lemma powerToRoundUp_eq: "0 < n \<Longrightarrow> n < 2 ^ 63 \<Longrightarrow> powerToRoundUp (word_of_int n) = Some (size_class n)"
  using powerToRoundUp_loop_ends [of n "size_class n" 0 66] size_class(1,2) [of n] size_class(3) [of _ n] by (simp add: powerToRoundUp_def)

lemma size_class_power: "i < 63 \<Longrightarrow> size_class (2 ^ i) = i"
  unfolding size_class_def by (rule Least_equality) auto

lemma size_class_small:
  assumes "n \<le> 2 ^ 62" shows "size_class n < 63" "n \<le> 2 ^ size_class n"
proof -
  have "size_class n \<le> 62" unfolding size_class_def using assms by (intro Least_le) simp
  then show "size_class n < 63" "n \<le> 2 ^ size_class n" using size_class(2) [of n] by auto
qed

lemma size_class_big: "2 ^ 62 < n \<Longrightarrow> size_class n = 63"
proof -
  assume n: "2 ^ 62 < n"
  have "\<not> size_class n < 63"
  proof
    assume l: "size_class n < 63"
    then have "(2 :: int) ^ size_class n \<le> 2 ^ 62" by (intro power_increasing) auto
    with size_class(2) [OF l] n show False by simp
  qed
  with size_class(1) [of n] show ?thesis by simp
qed

subsection \<open>ClassAllocator keeps the contract\<close>

definition pooled :: "heap \<Rightarrow> nat \<Rightarrow> go_slice \<Rightarrow> bool" where
  "pooled h i v \<longleftrightarrow> sl_off v = 0 \<and> sl_len v = 2 ^ i \<and> sl_cap v = 2 ^ i \<and> sl_blk v < length h \<and> length (h ! sl_blk v) = 2 ^ i"

definition class_ok :: "ClassAllocator \<Rightarrow> heap \<Rightarrow> bool" where
  "class_ok pools h \<longleftrightarrow> length pools = 63 \<and> (\<forall>i < 63. \<forall>v \<in> set (pools ! i). pooled h i v)
     \<and> distinct (map sl_blk (concat pools))"

definition class_avail :: "ClassAllocator \<Rightarrow> nat set" where
  "class_avail pools = sl_blk ` set (concat pools)"

definition class_token :: "heap \<Rightarrow> go_slice \<Rightarrow> bool" where
  "class_token h v \<longleftrightarrow> (\<exists>i < 63. pooled h i v)"

lemma concat_at:
  assumes "i < length xss"
  shows "concat xss = concat (take i xss) @ xss ! i @ concat (drop (Suc i) xss)"
    "concat (xss[i := ys]) = concat (take i xss) @ ys @ concat (drop (Suc i) xss)"
  using assms id_take_nth_drop [of i xss] by (metis concat.simps(2) concat_append, simp add: upd_conv_take_nth_drop)

lemma pooled_extends: "pooled h i v \<Longrightarrow> extends h h' \<Longrightarrow> pooled h' i v"
  by (auto simp: pooled_def extends_def)

lemma class_ok_extends: "class_ok p h \<Longrightarrow> extends h h' \<Longrightarrow> class_ok p h'"
  unfolding class_ok_def using pooled_extends by blast

lemma class_token_extends: "class_token h v \<Longrightarrow> extends h h' \<Longrightarrow> class_token h' v"
  unfolding class_token_def using pooled_extends by blast

lemma class_avail_heap: "class_ok p h \<Longrightarrow> class_avail p \<subseteq> {..<length h}"
  by (fastforce simp: class_ok_def class_avail_def pooled_def in_set_conv_nth)

lemma class_put:
  assumes "class_ok p h" "i < 63" "pooled h i v" "sl_blk v \<notin> class_avail p"
  shows "class_ok (p[i := v # p ! i]) h" "class_avail (p[i := v # p ! i]) = insert (sl_blk v) (class_avail p)"
proof -
  have i: "i < length p" using assms by (simp add: class_ok_def)
  show "class_avail (p[i := v # p ! i]) = insert (sl_blk v) (class_avail p)"
    unfolding class_avail_def concat_at(2) [OF i] concat_at(1) [OF i] by (simp add: image_Un)
  have "distinct (map sl_blk (concat (p[i := v # p ! i])))"
    using assms unfolding class_ok_def class_avail_def concat_at(2) [OF i] concat_at(1) [OF i]
    by (simp add: image_Un del: map_concat set_concat)
  then show "class_ok (p[i := v # p ! i]) h"
    using assms i by (auto simp: class_ok_def nth_list_update)
qed

lemma class_take:
  assumes "class_ok p h" "i < 63" "k < length (p ! i)"
  defines "p' \<equiv> p[i := take k (p ! i) @ drop (Suc k) (p ! i)]" and "v \<equiv> p ! i ! k"
  shows "class_ok p' h" "class_avail p' = class_avail p - {sl_blk v}" "sl_blk v \<in> class_avail p" "pooled h i v"
proof -
  have i: "i < length p" using assms by (simp add: class_ok_def)
  define xs ys where "xs = take k (p ! i)" and "ys = drop (Suc k) (p ! i)"
  have pi: "p ! i = xs @ v # ys" using id_take_nth_drop [OF assms(3)] by (simp add: xs_def ys_def v_def)
  have p': "concat p' = concat (take i p) @ (xs @ ys) @ concat (drop (Suc i) p)"
    unfolding p'_def concat_at(2) [OF i] by (simp add: xs_def ys_def)
  have p: "concat p = concat (take i p) @ (xs @ v # ys) @ concat (drop (Suc i) p)"
    by (subst concat_at(1) [OF i]) (simp add: pi)
  have d: "distinct (map sl_blk (concat p))" using assms(1) by (simp add: class_ok_def)
  show "class_avail p' = class_avail p - {sl_blk v}"
    using d unfolding class_avail_def p' p by (simp add: image_Un del: map_concat set_concat)
  show "sl_blk v \<in> class_avail p" unfolding class_avail_def p by simp
  show "pooled h i v" using assms(1-3) by (simp add: class_ok_def v_def)
  have "distinct (map sl_blk (concat p'))"
    using d unfolding p' p by (simp add: image_Un del: map_concat set_concat)
  moreover have "\<forall>j < 63. \<forall>w \<in> set (p' ! j). pooled h j w"
    using assms(1) i by (auto simp: class_ok_def p'_def nth_list_update dest: in_set_takeD in_set_dropD)
  ultimately show "class_ok p' h" using assms(1) by (simp add: class_ok_def p'_def)
qed

lemma extends_make [simp]: "extends h (h @ [x])"
  by (simp add: extends_def nth_append)

lemma pool_Get_cases:
  assumes "pool_Get pick i p h = (p', h', v)"
  shows "p' = p \<and> make_bytes (2 ^ i) h = (h', v)
    \<or> (\<exists>k < length (p ! i). p' = p[i := take k (p ! i) @ drop (Suc k) (p ! i)] \<and> h' = h \<and> v = p ! i ! k)"
proof -
  obtain g w where "make_bytes (2 ^ i) h = (g, w)" by fastforce
  with assms show ?thesis by (auto simp: pool_Get_def Let_def split: option.splits if_splits)
qed

lemma pool_Get_ok:
  assumes "class_ok p h" "i < 63" "pool_Get pick i p h = (p', h', v)"
  shows "class_ok p' h'" "length h \<le> length h'" "\<forall>b < length h. h' ! b = h ! b" "pooled h' i v"
    "class_avail p' = class_avail p - {sl_blk v}" "sl_blk v \<in> class_avail p \<or> length h \<le> sl_blk v"
    "{..<length h'} = insert (sl_blk v) {..<length h}"
proof -
  consider (new) "p' = p" "make_bytes (2 ^ i) h = (h', v)"
    | (old) k where "k < length (p ! i)" "p' = p[i := take k (p ! i) @ drop (Suc k) (p ! i)]" "h' = h" "v = p ! i ! k"
    using pool_Get_cases [OF assms(3)] by blast
  then have "class_ok p' h' \<and> length h \<le> length h' \<and> (\<forall>b < length h. h' ! b = h ! b) \<and> pooled h' i v
    \<and> class_avail p' = class_avail p - {sl_blk v} \<and> (sl_blk v \<in> class_avail p \<or> length h \<le> sl_blk v)
    \<and> {..<length h'} = insert (sl_blk v) {..<length h}"
  proof cases
    case new
    then have h: "h' = h @ [replicate (2 ^ i) 0]" "v = \<lparr>sl_blk = length h, sl_off = 0, sl_len = 2 ^ i, sl_cap = 2 ^ i\<rparr>"
      by (simp_all add: make_bytes_def)
    have "pooled h' i v" "\<forall>b < length h. h' ! b = h ! b" unfolding h by (simp_all add: pooled_def nth_append)
    moreover have "class_ok p' h'" unfolding new h by (rule class_ok_extends [OF assms(1) extends_make])
    moreover have "length h \<notin> class_avail p" using class_avail_heap [OF assms(1)] by blast
    ultimately show ?thesis using new(1) h by (simp add: lessThan_Suc)
  next
    case old
    then show ?thesis using class_take [OF assms(1,2) old(1)] class_avail_heap [OF assms(1)] by auto
  qed
  then show "class_ok p' h'" "length h \<le> length h'" "\<forall>b < length h. h' ! b = h ! b" "pooled h' i v"
    "class_avail p' = class_avail p - {sl_blk v}" "sl_blk v \<in> class_avail p \<or> length h \<le> sl_blk v"
    "{..<length h'} = insert (sl_blk v) {..<length h}"
    by blast+
qed

lemma Malloc_ok:
  assumes "class_ok p h" "0 < n" "n \<le> 2 ^ 62"
  shows "\<exists>p' h' v. Malloc pick n p h = Ok (p', h', v\<lparr>sl_len := nat n\<rparr>, v) \<and> pool_Get pick (size_class n) p h = (p', h', v)
    \<and> nat n \<le> sl_cap v"
proof -
  obtain p' h' v where g: "pool_Get pick (size_class n) p h = (p', h', v)" by (metis prod_cases3)
  note i = size_class_small [OF assms(3)]
  have "sl_cap v = 2 ^ size_class n" using pool_Get_ok(4) [OF assms(1) i(1) g] by (simp add: pooled_def)
  moreover have "nat n \<le> 2 ^ size_class n" using i(2) by (simp add: nat_le_iff)
  ultimately show ?thesis
    using assms i(1) g by (simp add: Malloc_def powerToRoundUp_eq class_ok_def)
qed

lemma Free_ok:
  assumes "i < 63" "pooled h i v" "length p = 63"
  shows "Free (Some v) p = Ok (p[i := v # p ! i])"
proof -
  have "powerToRoundUp (word_of_nat (2 ^ i)) = Some i"
    using powerToRoundUp_eq [of "2 ^ i"] size_class_power [OF assms(1)] assms(1) power_strict_increasing [of i 63 "2 :: int"]
    by simp
  with assms show ?thesis by (simp add: Free_def pooled_def)
qed

interpretation ca: allocator "class_allocator pick" class_ok class_avail class_token "2 ^ 62"
proof unfold_locales
  fix a h and n :: int assume ok: "class_ok a h" "0 < n" "n \<le> 2 ^ 62"
  obtain a' h' v where m: "Malloc pick n a h = Ok (a', h', v\<lparr>sl_len := nat n\<rparr>, v)"
    and g: "pool_Get pick (size_class n) a h = (a', h', v)" and c: "nat n \<le> sl_cap v"
    using Malloc_ok [OF ok] by blast
  note i = size_class_small(1) [OF ok(3)]
  note p = pool_Get_ok [OF ok(1) i g]
  have "class_token h' v" using p(4) i by (auto simp: class_token_def)
  with m p c show "\<exists>a' h' s v. al_Malloc (class_allocator pick) n a h = Ok (a', h', s, v) \<and> class_ok a' h'
        \<and> got_block (class_avail a) h (class_avail a') h' (sl_blk s) \<and> sl_off s = 0 \<and> sl_len s = nat n
        \<and> sl_len s \<le> sl_cap s \<and> sl_cap s = length (h' ! sl_blk s) \<and> sl_blk v = sl_blk s \<and> class_token h' v"
    by (intro exI [of _ a'] exI [of _ h'] exI [of _ "v\<lparr>sl_len := nat n\<rparr>"] exI [of _ v])
      (simp add: class_allocator_def pooled_def got_block_def)
next
  fix a h v assume "class_ok a h" "class_token h v" "sl_blk v \<notin> class_avail a"
  then show "\<exists>a'. al_Free (class_allocator pick) (Some v) a = Ok a' \<and> class_ok a' h \<and> class_avail a' = insert (sl_blk v) (class_avail a)"
    unfolding class_token_def class_allocator_def using Free_ok class_put by (metis Allocator.select_convs(2) class_ok_def)
qed (use class_ok_extends class_token_extends class_avail_heap in \<open>auto simp: class_token_def pooled_def\<close>)

subsection \<open>Users of the allocator\<close>

text \<open>Users allocate, and free one of the slices that they hold.\<close>

datatype al_op = AMalloc int | AFree nat

type_synonym al_state = "ClassAllocator \<times> heap \<times> (go_slice \<times> go_slice) list"

fun al_step :: "(go_slice list \<Rightarrow> nat option) \<Rightarrow> al_op \<Rightarrow> al_state \<Rightarrow> al_state option" where
  "al_step pick (AMalloc n) (p, h, live) =
     (case Malloc pick n p h of Ok (p, h, s, v) \<Rightarrow> Some (p, h, (s, v) # live) | _ \<Rightarrow> None)"
| "al_step pick (AFree i) (p, h, live) =
     (if i < length live then
        (case Free (Some (snd (live ! i))) p of Ok p \<Rightarrow> Some (p, h, take i live @ drop (Suc i) live) | _ \<Rightarrow> None)
      else Some (p, h, live))"

fun al_run :: "(go_slice list \<Rightarrow> nat option) \<Rightarrow> al_op list \<Rightarrow> al_state \<Rightarrow> al_state option" where
  "al_run pick [] st = Some st"
| "al_run pick (op # ops) st = (case al_step pick op st of None \<Rightarrow> None | Some st \<Rightarrow> al_run pick ops st)"

definition live_ok :: "heap \<Rightarrow> go_slice \<times> go_slice \<Rightarrow> bool" where
  "live_ok h = (\<lambda>(s, v). class_token h v \<and> s = v\<lparr>sl_len := sl_len s\<rparr> \<and> 0 < sl_len s \<and> sl_len s \<le> sl_cap s \<and> sl_cap s < 2 * sl_len s)"

definition al_typed :: "al_state \<Rightarrow> bool" where
  "al_typed st \<longleftrightarrow> (case st of (p, h, live) \<Rightarrow> class_ok p h \<and> (\<forall>x \<in> set live. live_ok h x)
     \<and> distinct (map (sl_blk \<circ> snd) live) \<and> (\<forall>x \<in> set live. sl_blk (snd x) \<notin> class_avail p))"

lemma live_ok_extends: "live_ok h x \<Longrightarrow> extends h h' \<Longrightarrow> live_ok h' x"
  by (auto simp: live_ok_def class_token_extends)

lemma size_class_tight: "0 < n \<Longrightarrow> 2 ^ size_class n < 2 * n"
proof (cases "size_class n")
  case (Suc k)
  then show ?thesis using size_class(3) [of k n] by simp
qed simp

lemma al_step_typed:
  assumes "al_typed (p, h, live)" "case op of AMalloc n \<Rightarrow> 0 < n \<and> n \<le> 2 ^ 62 | AFree i \<Rightarrow> True"
  shows "\<exists>st. al_step pick op (p, h, live) = Some st \<and> al_typed st"
proof (cases op)
  case (AMalloc n)
  then have n: "0 < n" "n \<le> 2 ^ 62" using assms(2) by simp_all
  have ok: "class_ok p h" and live: "\<forall>x \<in> set live. live_ok h x" "\<forall>x \<in> set live. sl_blk (snd x) \<notin> class_avail p"
    using assms(1) by (simp_all add: al_typed_def)
  obtain p' h' v where m: "Malloc pick n p h = Ok (p', h', v\<lparr>sl_len := nat n\<rparr>, v)"
    "pool_Get pick (size_class n) p h = (p', h', v)" "nat n \<le> sl_cap v"
    using Malloc_ok [OF ok n] by blast
  note g = pool_Get_ok [OF ok size_class_small(1) [OF n(2)] m(2)]
  have ext: "extends h h'" using g(2,3) by (simp add: extends_def)
  have "sl_blk (snd x) < length h" if "x \<in> set live" for x
    using live that by (auto simp: live_ok_def class_token_def pooled_def)
  with live(2) g(6) have fresh: "\<forall>x \<in> set live. sl_blk (snd x) \<noteq> sl_blk v" by fastforce
  have cap: "sl_cap v = 2 ^ size_class n" using g(4) by (simp add: pooled_def)
  have "(2 :: int) ^ size_class n < 2 * n" by (rule size_class_tight [OF n(1)])
  then have "int (sl_cap v) < int (2 * nat n)" using n(1) by (simp add: cap)
  then have "sl_cap v < 2 * nat n" by (simp only: of_nat_less_iff)
  moreover have "class_token h' v" using g(4) size_class_small(1) [OF n(2)] by (auto simp: class_token_def)
  ultimately have "live_ok h' (v\<lparr>sl_len := nat n\<rparr>, v)" using n m(3) by (simp add: live_ok_def)
  moreover have "\<forall>x \<in> set live. live_ok h' x" using live(1) live_ok_extends [OF _ ext] by blast
  moreover have "distinct (map (sl_blk \<circ> snd) live)" using assms(1) by (simp add: al_typed_def)
  ultimately show ?thesis using AMalloc m(1) g(1,5) live(2) fresh by (auto simp: al_typed_def)
next
  case (AFree i)
  show ?thesis
  proof (cases "i < length live")
    case True
    define x xs ys where "x = live ! i" and "xs = take i live" and "ys = drop (Suc i) live"
    have l: "live = xs @ x # ys" using id_take_nth_drop [OF True] by (simp add: x_def xs_def ys_def)
    have ok: "class_ok p h" and tok: "class_token h (snd x)" and av: "sl_blk (snd x) \<notin> class_avail p"
      using assms(1) by (auto simp: al_typed_def l live_ok_def)
    from ca.free [OF ok tok av] obtain p' where "Free (Some (snd x)) p = Ok p'" "class_ok p' h"
      "class_avail p' = insert (sl_blk (snd x)) (class_avail p)" by (auto simp: class_allocator_def)
    moreover from this have "al_step pick op (p, h, live) = Some (p', h, xs @ ys)"
      using AFree True by (simp add: x_def xs_def ys_def)
    moreover have "sl_blk (snd y) \<noteq> sl_blk (snd x)" if "y \<in> set (xs @ ys)" for y
      using assms(1) that by (auto simp: al_typed_def l image_iff)
    ultimately show ?thesis using assms(1) by (simp add: al_typed_def l)
  qed (use assms(1) AFree in simp)
qed

text \<open>C38: the pools stay well typed and no block is used twice. When users of a new allocator allocate sizes
  up to \<open>2^62\<close> and free slices that they hold, in any order, no call panics; every pool then holds whole
  blocks of its own size class, each at most once; and the slices that the users hold lie in different
  blocks, none of them in a pool, of a power-of-two size that is less than twice what was asked for.\<close>

theorem allocator_typed:
  assumes "\<forall>op \<in> set ops. case op of AMalloc n \<Rightarrow> 0 < n \<and> n \<le> 2 ^ 62 | AFree i \<Rightarrow> True"
  shows "\<exists>st. al_run pick ops (NewClassAllocator, h, []) = Some st \<and> al_typed st"
proof -
  have "\<exists>st. al_run pick ops st0 = Some st \<and> al_typed st" if "al_typed st0" for st0
    using assms that
  proof (induction ops arbitrary: st0)
    case (Cons op ops)
    obtain p h' live where "st0 = (p, h', live)" by (metis prod_cases3)
    with al_step_typed [of p h' live op pick] Cons obtain st where "al_step pick op st0 = Some st" "al_typed st" by auto
    with Cons show ?case by simp
  qed simp
  moreover have "al_typed (NewClassAllocator, h, [])"
    by (auto simp: al_typed_def class_ok_def NewClassAllocator_def maxPowerToRoundUpInt_def)
  ultimately show ?thesis by blast
qed

theorem allocator_typed_witness:
  "\<exists>st. al_run (\<lambda>p. Some 0) [AMalloc 5, AMalloc 8, AFree 1, AMalloc 3, AMalloc 8] (NewClassAllocator, [], []) = Some st \<and> al_typed st"
  using allocator_typed [of "[AMalloc 5, AMalloc 8, AFree 1, AMalloc 3, AMalloc 8]" "\<lambda>p. Some 0" "[]"] by simp

text \<open>sizes above \<open>2^62\<close> have no pool. \<open>powerToRoundUp\<close> returns for every positive size, its sign test
  surviving the overflow of the shifted power; for sizes above \<open>2^62\<close> it returns 63, and \<open>Malloc\<close> indexes
  its 63 pools out of range. A size that is not positive panics as well.\<close>

theorem Malloc_panics:
  assumes "class_ok p h" "n < 2 ^ 63"
  shows "Malloc pick n p h = Panic \<longleftrightarrow> n \<le> 0 \<or> 2 ^ 62 < n"
proof -
  consider (neg) "n \<le> 0" | (ok) "0 < n" "n \<le> 2 ^ 62" | (big) "2 ^ 62 < n" by linarith
  then show ?thesis
  proof cases
    case ok
    then show ?thesis using Malloc_ok [OF assms(1) ok, of pick] by auto
  next
    case big
    have "(0 :: int) < 2 ^ 62" by simp
    with big have "0 < n" by (rule less_trans [rotated])
    then show ?thesis
      using big powerToRoundUp_eq [OF _ assms(2)] size_class_big [OF big] assms(1) by (simp add: Malloc_def class_ok_def)
  qed (simp add: Malloc_def)
qed

theorem Malloc_panics_witness:
  "class_ok NewClassAllocator [] \<and> (2 ^ 62 + 1 :: int) < 2 ^ 63
   \<and> Malloc (\<lambda>p. None) (2 ^ 62 + 1) NewClassAllocator [] = Panic"
proof -
  have "class_ok NewClassAllocator []" by (simp add: class_ok_def NewClassAllocator_def maxPowerToRoundUpInt_def)
  then show ?thesis using Malloc_panics [of NewClassAllocator "[]" "2 ^ 62 + 1" "\<lambda>p. None"] by simp
qed

end
