(* ===== verification/Link_Buffer.thy ===== *)
theory Link_Buffer
  imports Byte_Alloc
begin

text \<open>
  The linked buffer (\<open>internal/linkbuffer\<close>). The nodes from \<open>head\<close> to \<open>tail\<close> are the list \<open>chain\<close>, those that
  wait for their release the list \<open>dirty\<close>. The buffer refines a list of bytes that is written at the end,
  extended at the front and read from the front; what it hands out stays intact until \<open>Release\<close>, which
  returns every block it may return and no block that is still to be read.
\<close>

record buf_node =
  n_bts :: go_slice
  n_release :: "go_slice option"

record Buf =
  minMallocSize :: int
  chain :: "buf_node list"
  dirty :: "buf_node list"

definition newBytes :: "go_slice \<Rightarrow> go_slice option \<Rightarrow> buf_node" where
  "newBytes bts release = \<lparr>n_bts = bts, n_release = release\<rparr>"

definition NewBuf :: "int \<Rightarrow> Buf" where
  "NewBuf m = \<lparr>minMallocSize = m, chain = [newBytes nil_slice None], dirty = []\<rparr>"

definition set_tail :: "buf_node \<Rightarrow> Buf \<Rightarrow> Buf" where
  "set_tail n b = b\<lparr>chain := butlast (chain b) @ [n]\<rparr>"

definition add_tail :: "buf_node \<Rightarrow> Buf \<Rightarrow> Buf" where
  "add_tail n b = b\<lparr>chain := chain b @ [n]\<rparr>"

text \<open>\<open>b.tail.bts = append(b.tail.bts, p...)\<close> within the capacity.\<close>

definition append_tail :: "bytes \<Rightarrow> heap \<Rightarrow> Buf \<Rightarrow> heap \<times> Buf" where
  "append_tail p h b =
     (let t = last (chain b); s = n_bts t
      in (poke (sl_blk s) (sl_off s + sl_len s) p h, set_tail (t\<lparr>n_bts := s\<lparr>sl_len := sl_len s + length p\<rparr>\<rparr>) b))"

definition malloc_tail :: "'a Allocator \<Rightarrow> int \<Rightarrow> bool \<Rightarrow> 'a \<Rightarrow> heap \<Rightarrow> Buf \<Rightarrow> (unit, 'a \<times> heap \<times> Buf \<times> go_slice) res" where
  "malloc_tail A n zero a h b =
     (case al_Malloc A n a h of
        Ok (a, h, s, v) \<Rightarrow> Ok (a, h, add_tail (newBytes (if zero then s\<lparr>sl_len := 0\<rparr> else s) (Some v)) b, s)
      | Err e \<Rightarrow> Err e
      | Panic \<Rightarrow> Panic)"

fun Write :: "'a Allocator \<Rightarrow> nat \<Rightarrow> bytes \<Rightarrow> 'a \<Rightarrow> heap \<Rightarrow> Buf \<Rightarrow> (unit, 'a \<times> heap \<times> Buf \<times> nat) res option" where
  "Write A 0 p a h b = None"
| "Write A (Suc fuel) p a h b =
     (case (if n_release (last (chain b)) = None then malloc_tail A (minMallocSize b) True a h b else Ok (a, h, b, nil_slice)) of
        Err e \<Rightarrow> Some (Err e)
      | Panic \<Rightarrow> Some Panic
      | Ok (a, h, b, _) \<Rightarrow>
          (let t = n_bts (last (chain b)); available = sl_cap t - sl_len t
           in if length p \<le> available then (let (h, b) = append_tail p h b in Some (Ok (a, h, b, length p)))
              else (let (h, b) = append_tail (take available p) h b
                    in case malloc_tail A (minMallocSize b) True a h b of
                         Err e \<Rightarrow> Some (Err e)
                       | Panic \<Rightarrow> Some Panic
                       | Ok (a, h, b, _) \<Rightarrow>
                           (case Write A fuel (drop available p) a h b of
                              Some (Ok (a, h, b, n)) \<Rightarrow> Some (Ok (a, h, b, available + n))
                            | r \<Rightarrow> r))))"

definition append_one :: "go_slice \<Rightarrow> Buf \<Rightarrow> Buf" where
  "append_one bts b =
     (let t = last (chain b); s = n_bts t
      in if n_release t = None \<or> sl_cap s = sl_len s then add_tail (newBytes bts None) b
         else add_tail (newBytes \<lparr>sl_blk = sl_blk s, sl_off = sl_off s + sl_len s, sl_len = 0, sl_cap = sl_cap s - sl_len s\<rparr> (n_release t))
                (add_tail (newBytes bts None) (set_tail (t\<lparr>n_release := None\<rparr>) b)))"

definition Append :: "go_slice list \<Rightarrow> Buf \<Rightarrow> Buf" where
  "Append bs b = fold append_one bs b"

definition Prepend :: "go_slice list \<Rightarrow> Buf \<Rightarrow> Buf" where
  "Prepend bs b = foldr (\<lambda>s b. b\<lparr>chain := newBytes s None # chain b\<rparr>) bs b"

text \<open>\<open>b.tail.bts[:l+n]\<close> fails for a negative bound, \<open>b.tail.bts[l : l+n]\<close> for negative \<open>n\<close>.\<close>

definition Alloc :: "'a Allocator \<Rightarrow> int \<Rightarrow> 'a \<Rightarrow> heap \<Rightarrow> Buf \<Rightarrow> (unit, 'a \<times> heap \<times> Buf \<times> go_slice) res" where
  "Alloc A n a h b =
     (let t = last (chain b); s = n_bts t
      in if n_release t \<noteq> None \<and> n \<le> int (sl_cap s) - int (sl_len s) then
           (if n < 0 then Panic
            else Ok (a, h, set_tail (t\<lparr>n_bts := s\<lparr>sl_len := sl_len s + nat n\<rparr>\<rparr>) b,
                   \<lparr>sl_blk = sl_blk s, sl_off = sl_off s + sl_len s, sl_len = nat n, sl_cap = sl_cap s - sl_len s\<rparr>))
         else malloc_tail A n False a h b)"

definition Prelloc :: "'a Allocator \<Rightarrow> int \<Rightarrow> 'a \<Rightarrow> heap \<Rightarrow> Buf \<Rightarrow> (unit, 'a \<times> heap \<times> Buf \<times> go_slice) res" where
  "Prelloc A n a h b =
     (case al_Malloc A n a h of
        Ok (a, h, s, v) \<Rightarrow> Ok (a, h, b\<lparr>chain := newBytes s (Some v) # chain b\<rparr>, s)
      | Err e \<Rightarrow> Err e
      | Panic \<Rightarrow> Panic)"

text \<open>Reading. \<open>chain\<close> is empty where the code's \<open>head\<close> is nil; the deferred \<open>ensureNotEmpty\<close> ends that.\<close>

definition ensureNotEmpty :: "Buf \<Rightarrow> Buf" where
  "ensureNotEmpty b = (if chain b = [] then b\<lparr>chain := [newBytes nil_slice None]\<rparr> else b)"

definition dirtyHead :: "Buf \<Rightarrow> Buf \<times> go_slice" where
  "dirtyHead b =
     (let n = hd (chain b); b = b\<lparr>chain := tl (chain b)\<rparr>
      in (if n_release n = None then b else b\<lparr>dirty := n # dirty b\<rparr>, n_bts n))"

function dirtyEmptyHeads :: "Buf \<Rightarrow> Buf" where
  "dirtyEmptyHeads b = (if chain b \<noteq> [] \<and> sl_len (n_bts (hd (chain b))) = 0 then dirtyEmptyHeads (fst (dirtyHead b)) else b)"
  by auto

termination
  by (relation "measure (\<lambda>b. length (chain b))") (auto simp: dirtyHead_def Let_def)

declare dirtyEmptyHeads.simps [simp del]

definition read_head :: "nat \<Rightarrow> Buf \<Rightarrow> Buf \<times> go_slice" where
  "read_head k b =
     (let n = hd (chain b); s = n_bts n
      in (b\<lparr>chain := n\<lparr>n_bts := \<lparr>sl_blk = sl_blk s, sl_off = sl_off s + k, sl_len = sl_len s - k, sl_cap = sl_cap s - k\<rparr>\<rparr> # tl (chain b)\<rparr>,
          s\<lparr>sl_len := k\<rparr>))"

text \<open>The loop of \<open>Read\<close>: \<open>len\<close> bytes of \<open>p\<close> are still to be filled.\<close>

function Read_loop :: "heap \<Rightarrow> nat \<Rightarrow> Buf \<Rightarrow> Buf \<times> bytes" where
  "Read_loop h len b =
     (if chain b = [] then (b, [])
      else (let k = min len (sl_len (n_bts (hd (chain b))));
                (b', s) = read_head k b;
                b' = dirtyEmptyHeads b'
            in if k = len then (b', contents h s)
               else (let (b'', d) = Read_loop h (len - k) b' in (b'', contents h s @ d))))"
  by auto

lemma length_dirtyHead: "chain b \<noteq> [] \<Longrightarrow> length (chain (fst (dirtyHead b))) < length (chain b)"
  by (simp add: dirtyHead_def Let_def)

lemma length_dirtyEmptyHeads: "length (chain (dirtyEmptyHeads b)) \<le> length (chain b)"
proof (induction b rule: dirtyEmptyHeads.induct)
  case (1 b)
  show ?case
  proof (cases "chain b \<noteq> [] \<and> sl_len (n_bts (hd (chain b))) = 0")
    case True
    with 1 length_dirtyHead [of b] show ?thesis by (simp add: dirtyEmptyHeads.simps [of b])
  next
    case False
    then show ?thesis by (simp add: dirtyEmptyHeads.simps [of b] if_not_P)
  qed
qed

lemma dirtyEmptyHeads_empty:
  assumes "chain b \<noteq> []" "sl_len (n_bts (hd (chain b))) = 0"
  shows "length (chain (dirtyEmptyHeads b)) < length (chain b)"
  using assms length_dirtyHead [of b] length_dirtyEmptyHeads [of "fst (dirtyHead b)"]
  by (subst dirtyEmptyHeads.simps) simp

termination Read_loop
proof (relation "measure (\<lambda>(h, len, b). length (chain b))")
  fix h len b k x b' s b''
  assume "chain b \<noteq> []" "k = min len (sl_len (n_bts (hd (chain b))))" "x = read_head k b" "(b', s) = x"
    "b'' = dirtyEmptyHeads b'" "k \<noteq> len"
  then show "((h, len - k, b''), h, len, b) \<in> measure (\<lambda>(h, len, b). length (chain b))"
    using dirtyEmptyHeads_empty [of b'] by (auto simp: read_head_def Let_def min_def split: if_splits)
qed simp

declare Read_loop.simps [simp del]

definition Read :: "heap \<Rightarrow> nat \<Rightarrow> Buf \<Rightarrow> Buf \<times> (unit, bytes) res" where
  "Read h len b =
     (if len = 0 then (b, Ok [])
      else (let (b, d) = Read_loop h len b in (ensureNotEmpty b, if d = [] then Err () else Ok d)))"

definition ReadN :: "int \<Rightarrow> Buf \<Rightarrow> Buf \<times> (unit, go_slice \<times> nat) res" where
  "ReadN n b =
     (let b = dirtyEmptyHeads b
      in if chain b = [] then (ensureNotEmpty b, Ok (nil_slice, 0))
         else if int (sl_len (n_bts (hd (chain b)))) \<le> n then
           (let (b, s) = dirtyHead b in (ensureNotEmpty (dirtyEmptyHeads b), Ok (s, sl_len s)))
         else if n < 0 then (ensureNotEmpty b, Panic)
         else (let (b, s) = read_head (nat n) b in (ensureNotEmpty b, Ok (s, nat n))))"

function ReadAll_loop :: "Buf \<Rightarrow> Buf \<times> go_slice list" where
  "ReadAll_loop b =
     (if chain b = [] then (b, [])
      else (let (b, s) = dirtyHead b; (b, ss) = ReadAll_loop b in (b, if sl_len s \<noteq> 0 then s # ss else ss)))"
  by auto

termination
  by (relation "measure (\<lambda>b. length (chain b))") (simp_all, metis fst_conv length_dirtyHead)

definition Buf_ReadAll :: "Buf \<Rightarrow> Buf \<times> go_slice list" where
  "Buf_ReadAll b = (let (b, ss) = ReadAll_loop b in (ensureNotEmpty b, ss))"

function ReadNext_loop :: "Buf \<Rightarrow> Buf \<times> go_slice" where
  "ReadNext_loop b =
     (if chain b = [] then (b, nil_slice)
      else (let (b, s) = dirtyHead b in if sl_len s \<noteq> 0 then (b, s) else ReadNext_loop b))"
  by auto

termination
  by (relation "measure (\<lambda>b. length (chain b))") (simp_all, metis fst_conv length_dirtyHead)

declare ReadAll_loop.simps [simp del] ReadNext_loop.simps [simp del]

definition ReadNext :: "Buf \<Rightarrow> Buf \<times> go_slice" where
  "ReadNext b = (let (b, s) = ReadNext_loop b in (ensureNotEmpty b, s))"

fun free_all :: "'a Allocator \<Rightarrow> buf_node list \<Rightarrow> 'a \<Rightarrow> (unit, 'a) res" where
  "free_all A [] a = Ok a"
| "free_all A (n # ns) a = (case al_Free A (n_release n) a of Ok a \<Rightarrow> free_all A ns a | r \<Rightarrow> r)"

definition Release :: "'a Allocator \<Rightarrow> 'a \<Rightarrow> Buf \<Rightarrow> (unit, 'a \<times> Buf) res" where
  "Release A a b = (case free_all A (dirty b) a of Ok a \<Rightarrow> Ok (a, b\<lparr>dirty := []\<rparr>) | Err e \<Rightarrow> Err e | Panic \<Rightarrow> Panic)"

definition Len :: "Buf \<Rightarrow> nat" where
  "Len b = sum_list (map (sl_len \<circ> n_bts) (chain b))"

text \<open>\<open>Merge\<close> with another \<open>*Buf\<close> and with any other \<open>Reader\<close>, given by what its \<open>ReadAll\<close> returns. The merged
  buffer keeps its pointers into the chain, but its caller must not use it any more.\<close>

definition Merge :: "Buf + go_slice list \<Rightarrow> Buf \<Rightarrow> Buf" where
  "Merge r b = (case r of Inl bb \<Rightarrow> b\<lparr>chain := chain b @ chain bb\<rparr> | Inr ss \<Rightarrow> Append ss b)"

end
