(* ===== verification/Link_Buffer_Proofs.thy ===== *)
theory Link_Buffer_Proofs
  imports Link_Buffer
begin

text \<open>
  The linked buffer refines a list of bytes, for every allocator that keeps its contract. The invariant
  says who may touch which block: the tail alone may be extended, a block is released by the last node
  that shows a part of it, and blocks belong to the user, to the allocator or to the buffer.
\<close>

subsection \<open>The invariant\<close>

fun rels :: "buf_node list \<Rightarrow> go_slice list" where
  "rels [] = []"
| "rels (n # ns) = (case n_release n of None \<Rightarrow> rels ns | Some v \<Rightarrow> v # rels ns)"

fun owner_last :: "buf_node list \<Rightarrow> bool" where
  "owner_last [] = True"
| "owner_last (n # ns) = ((\<forall>v. n_release n = Some v \<longrightarrow> (\<forall>m \<in> set ns. \<not> refs (sl_blk v) (n_bts m))) \<and> owner_last ns)"

definition bnode_ok :: "heap \<Rightarrow> buf_node \<Rightarrow> bool" where
  "bnode_ok h n \<longleftrightarrow> in_heap h (n_bts n) \<and> (\<forall>v. n_release n = Some v \<longrightarrow> sl_blk (n_bts n) = sl_blk v
     \<and> sl_off (n_bts n) + sl_cap (n_bts n) = length (h ! sl_blk v) \<and> sl_len (n_bts n) \<le> sl_cap (n_bts n))"

definition owned :: "buf_node list \<Rightarrow> buf_node list \<Rightarrow> nat set" where
  "owned ns ds = sl_blk ` set (rels ns) \<union> sl_blk ` set (rels ds)"

definition frontier :: "go_slice set \<Rightarrow> buf_node list \<Rightarrow> bool" where
  "frontier held ns \<longleftrightarrow> (\<forall>ms t v s. ns = ms @ [t] \<longrightarrow> n_release t = Some v \<longrightarrow> s \<in> n_bts ` set ns \<union> held \<longrightarrow> refs (sl_blk v) s
     \<longrightarrow> sl_off s + sl_len s \<le> sl_off (n_bts t) + sl_len (n_bts t))"

definition shown_ok :: "heap \<Rightarrow> nat set \<Rightarrow> nat set \<Rightarrow> go_slice \<Rightarrow> bool" where
  "shown_ok h U W s \<longleftrightarrow> in_heap h s \<and> (0 < sl_len s \<longrightarrow> sl_blk s \<in> U \<union> W)"

definition link_inv :: "nat set \<Rightarrow> (heap \<Rightarrow> go_slice \<Rightarrow> bool) \<Rightarrow> heap \<Rightarrow> nat set \<Rightarrow> go_slice set \<Rightarrow> buf_node list \<Rightarrow> buf_node list \<Rightarrow> bool" where
  "link_inv av tok h U held ns ds \<longleftrightarrow>
     (\<forall>n \<in> set ns. bnode_ok h n) \<and> (\<forall>s \<in> n_bts ` set ns \<union> held. shown_ok h U (owned ns ds) s)
     \<and> (\<forall>n \<in> set ds. n_release n \<noteq> None) \<and> (\<forall>v \<in> set (rels ns) \<union> set (rels ds). tok h v)
     \<and> distinct (map sl_blk (rels ns @ rels ds)) \<and> owner_last ns
     \<and> (\<forall>v \<in> set (rels ds). \<forall>n \<in> set ns. \<not> refs (sl_blk v) (n_bts n)) \<and> frontier held ns
     \<and> U \<inter> (av \<union> owned ns ds) = {} \<and> av \<inter> owned ns ds = {} \<and> {..<length h} = U \<union> av \<union> owned ns ds"

lemma link_invD:
  assumes "link_inv av tok h U held ns ds"
  shows "n \<in> set ns \<Longrightarrow> bnode_ok h n" "s \<in> n_bts ` set ns \<union> held \<Longrightarrow> shown_ok h U (owned ns ds) s"
    "\<forall>n \<in> set ds. n_release n \<noteq> None" "v \<in> set (rels ns) \<union> set (rels ds) \<Longrightarrow> tok h v"
    "distinct (map sl_blk (rels ns @ rels ds))" "owner_last ns"
    "v \<in> set (rels ds) \<Longrightarrow> n \<in> set ns \<Longrightarrow> \<not> refs (sl_blk v) (n_bts n)" "frontier held ns"
    "U \<inter> (av \<union> owned ns ds) = {}" "av \<inter> owned ns ds = {}" "{..<length h} = U \<union> av \<union> owned ns ds"
  using assms unfolding link_inv_def by blast+

lemma rels_append [simp]: "rels (ns @ ms) = rels ns @ rels ms"
  by (induction ns) (auto split: option.split)

lemma rels_iff: "v \<in> set (rels ns) \<longleftrightarrow> (\<exists>n \<in> set ns. n_release n = Some v)"
  by (induction ns) (auto split: option.split)

lemma owner_last_append: "owner_last (ns @ ms) \<longleftrightarrow> owner_last ns \<and> owner_last ms
    \<and> (\<forall>v \<in> set (rels ns). \<forall>m \<in> set ms. \<not> refs (sl_blk v) (n_bts m))"
  by (induction ns) (auto split: option.split)

lemma owned_simps [simp]: "owned [] [] = {}"
  "owned (n # ns) ds = (case n_release n of None \<Rightarrow> owned ns ds | Some v \<Rightarrow> insert (sl_blk v) (owned ns ds))"
  "owned (ns @ ms) ds = owned ns ds \<union> owned ms ds"
  by (auto simp: owned_def split: option.split)

lemma frontier_snoc: "frontier held (ms @ [t]) \<longleftrightarrow> (\<forall>v. n_release t = Some v \<longrightarrow>
    (\<forall>s \<in> n_bts ` set (ms @ [t]) \<union> held. refs (sl_blk v) s \<longrightarrow> sl_off s + sl_len s \<le> sl_off (n_bts t) + sl_len (n_bts t)))"
  by (auto simp: frontier_def)

lemma frontier_Nil [simp]: "frontier held []"
  by (simp add: frontier_def)

lemma frontier_Cons:
  "ns \<noteq> [] \<Longrightarrow> frontier held (n # ns) \<longleftrightarrow> frontier (insert (n_bts n) held) ns"
  by (cases ns rule: rev_cases) (simp_all add: frontier_snoc flip: append_Cons)

lemma frontier_mono: "frontier held ns \<Longrightarrow> held' \<subseteq> held \<Longrightarrow> frontier held' ns"
  unfolding frontier_def by blast

subsection \<open>Reading\<close>

lemma inv_held: "link_inv av tok h U held ns ds \<Longrightarrow> held' \<subseteq> held \<Longrightarrow> link_inv av tok h U held' ns ds"
  unfolding link_inv_def by (meson Un_mono frontier_mono order_refl subset_iff)

lemma inv_insert_empty:
  assumes "link_inv av tok h U held ns ds" "sl_len s = 0"
  shows "link_inv av tok h U (insert s held) ns ds"
proof -
  have "frontier (insert s held) ns" using link_invD(8) [OF assms(1)] assms(2) by (auto simp: frontier_def refs_def)
  moreover have "shown_ok h U W s" for W using assms(2) by (simp add: shown_ok_def in_heap_def)
  ultimately show ?thesis using assms(1) unfolding link_inv_def by simp
qed

lemma inv_pop:
  assumes "link_inv av tok h U held (n # ns) ds"
  shows "link_inv av tok h U (insert (n_bts n) held) ns (if n_release n = None then ds else n # ds)"
proof -
  have "frontier (insert (n_bts n) held) ns"
    using assms by (cases "ns = []") (auto simp: link_inv_def frontier_Cons)
  moreover have "owned ns (if n_release n = None then ds else n # ds) = owned (n # ns) ds"
    by (auto simp: owned_def)
  ultimately show ?thesis
    using assms unfolding link_inv_def by (cases "n_release n") (auto simp del: owned_simps)
qed

lemma inv_read_head:
  assumes "link_inv av tok h U held (n # ns) ds" "k \<le> sl_len (n_bts n)"
  defines "s \<equiv> n_bts n"
  shows "link_inv av tok h U (insert (s\<lparr>sl_len := k\<rparr>) held)
    (n\<lparr>n_bts := \<lparr>sl_blk = sl_blk s, sl_off = sl_off s + k, sl_len = sl_len s - k, sl_cap = sl_cap s - k\<rparr>\<rparr> # ns) ds"
    (is "link_inv av tok h U ?held (?n # ns) ds")
proof -
  have refs: "refs b (n_bts ?n) \<longrightarrow> refs b s" "refs b (s\<lparr>sl_len := k\<rparr>) \<longrightarrow> refs b s" for b
    using assms(2) by (auto simp: refs_def s_def)
  have "frontier ?held (?n # ns)"
  proof (cases "ns = []")
    case True
    with assms(1,2) refs show ?thesis
      by (auto simp: link_inv_def s_def frontier_snoc [of _ "[]", simplified])
  next
    case False
    then show ?thesis
    proof (cases ns rule: rev_cases)
      case (snoc ms t)
      with assms(1) have "frontier held ((n # ms) @ [t])" by (simp add: link_inv_def)
      then have "frontier ?held ((?n # ms) @ [t])" using assms(2) refs
        unfolding frontier_snoc s_def by (fastforce simp: refs_def)
      with snoc show ?thesis by simp
    qed simp
  qed
  moreover have "owned (?n # ns) ds = owned (n # ns) ds" by simp
  moreover have "bnode_ok h ?n" "shown_ok h U W (n_bts ?n) \<and> shown_ok h U W (s\<lparr>sl_len := k\<rparr>)" if "shown_ok h U W (n_bts n)" for W
    using that assms(1,2) by (auto simp: link_inv_def bnode_ok_def in_heap_def shown_ok_def s_def)
  ultimately show ?thesis
    using assms(1) refs unfolding link_inv_def s_def by (auto simp del: owned_simps split: option.splits)
qed

subsection \<open>Growing\<close>

definition user_slice :: "heap \<Rightarrow> nat set \<Rightarrow> go_slice \<Rightarrow> bool" where
  "user_slice h U s \<longleftrightarrow> in_heap h s \<and> (0 < sl_len s \<longrightarrow> sl_blk s \<in> U)"

lemma user_slice_refs: "user_slice h U s \<Longrightarrow> U \<inter> W = {} \<Longrightarrow> b \<in> W \<Longrightarrow> \<not> refs b s"
  by (auto simp: user_slice_def refs_def)

lemma inv_prepend:
  assumes "link_inv av tok h U held ns ds" "user_slice h U s"
  shows "link_inv av tok h U held (newBytes s None # ns) ds"
proof -
  have no: "\<not> refs (sl_blk v) s" if "v \<in> set (rels ns) \<union> set (rels ds)" for v
    using assms that by (intro user_slice_refs [where W = "owned ns ds"]) (auto simp: link_inv_def owned_def)
  have "frontier held (newBytes s None # ns)"
  proof (cases ns rule: rev_cases)
    case Nil
    then show ?thesis using frontier_snoc [of held "[]"] by (simp add: newBytes_def)
  next
    case (snoc ms t)
    with assms(1) have "frontier held (ms @ [t])" by (simp add: link_inv_def)
    with no snoc have "frontier held ((newBytes s None # ms) @ [t])"
      unfolding frontier_snoc by (auto simp: newBytes_def)
    with snoc show ?thesis by simp
  qed
  with assms no show ?thesis
    by (auto simp: link_inv_def newBytes_def bnode_ok_def shown_ok_def user_slice_def)
qed

lemma inv_snoc_user:
  assumes "link_inv av tok h U held ns ds" "user_slice h U s"
  shows "link_inv av tok h U held (ns @ [newBytes s None]) ds"
proof -
  have no: "\<not> refs (sl_blk v) s" if "v \<in> set (rels ns) \<union> set (rels ds)" for v
    using assms that by (intro user_slice_refs [where W = "owned ns ds"]) (auto simp: link_inv_def owned_def)
  have "owned (ns @ [newBytes s None]) ds = owned ns ds" by (auto simp: owned_def newBytes_def)
  moreover have "frontier held (ns @ [newBytes s None])" by (simp add: frontier_snoc newBytes_def)
  ultimately show ?thesis using assms no
    by (auto simp: link_inv_def owner_last_append newBytes_def bnode_ok_def shown_ok_def user_slice_def simp del: owned_simps)
qed

lemma got_block_extends: "got_block av h av' h' k \<Longrightarrow> extends h h'"
  unfolding got_block_def extends_def by (metis insert_subset lessThan_subset_iff subset_insertI)

lemma contents_same: "in_heap h s \<Longrightarrow> \<forall>b < length h. h' ! b = h ! b \<Longrightarrow> contents h' s = contents h s"
  by (cases "sl_len s = 0") (auto simp: in_heap_def contents_def)

lemma got_block_unused:
  assumes "got_block av h av' h' k" "link_inv av tok h U held ns ds"
  shows "k \<notin> U" "k \<notin> owned ns ds" "s \<in> n_bts ` set ns \<union> held \<Longrightarrow> \<not> refs k s"
proof -
  show k: "k \<notin> U" "k \<notin> owned ns ds"
    using assms unfolding link_inv_def got_block_def by (metis IntI Un_iff empty_iff lessThan_iff not_le)+
  assume "s \<in> n_bts ` set ns \<union> held"
  then have "0 < sl_len s \<longrightarrow> sl_blk s \<in> U \<union> owned ns ds"
    using assms(2) by (auto simp: link_inv_def shown_ok_def simp del: owned_simps)
  with k show "\<not> refs k s" by (auto simp: refs_def)
qed

lemma shown_ok_mono: "shown_ok h U W s \<Longrightarrow> extends h h' \<Longrightarrow> W \<subseteq> W' \<Longrightarrow> shown_ok h' U W' s"
  by (auto simp: shown_ok_def in_heap_extends)

lemma bnode_ok_extends:
  assumes "bnode_ok h n" "extends h h'" "\<forall>v. n_release n = Some v \<longrightarrow> sl_blk v < length h"
  shows "bnode_ok h' n"
  using assms by (auto simp: bnode_ok_def in_heap_extends extends_def)

lemma inv_rel_heap: "link_inv av tok h U held ns ds \<Longrightarrow> n \<in> set ns \<Longrightarrow> n_release n = Some v \<Longrightarrow> sl_blk v < length h"
  unfolding link_inv_def owned_def using rels_iff by (metis UnI1 UnI2 image_eqI lessThan_iff)

text \<open>A new node around it, in front of the chain or behind it.\<close>

lemma inv_fresh:
  assumes "link_inv av tok h U held ns ds" "got_block av h av' h' (sl_blk v)" "\<forall>w. tok h w \<longrightarrow> tok h' w" "tok h' v"
    and "sl_blk s = sl_blk v" "sl_off s = 0" "sl_cap s = length (h' ! sl_blk v)" "sl_len s \<le> sl_cap s"
    and ms: "ms = newBytes s (Some v) # ns \<and> ns \<noteq> [] \<or> ms = ns @ [newBytes s (Some v)]"
  shows "link_inv av' tok h' U held ms ds"
proof -
  note ext = got_block_extends [OF assms(2)] and un = got_block_unused [OF assms(2,1)]
  have set_ms: "set ms = insert (newBytes s (Some v)) (set ns)" and own: "owned ms ds = insert (sl_blk v) (owned ns ds)"
    and rms: "set (rels ms) = insert v (set (rels ns))"
    using ms by (auto simp: owned_def newBytes_def)
  have blk: "sl_blk v < length h'" using assms(2) unfolding got_block_def by blast
  have new: "bnode_ok h' (newBytes s (Some v))" "shown_ok h' U (owned ms ds) s"
    using assms(5-8) blk own by (auto simp: bnode_ok_def newBytes_def in_heap_def shown_ok_def)
  have "\<forall>n \<in> set ms. bnode_ok h' n"
    using new(1) assms(1) bnode_ok_extends [OF _ ext] inv_rel_heap [OF assms(1)] by (auto simp: set_ms link_inv_def)
  moreover have "\<forall>x \<in> n_bts ` set ms \<union> held. shown_ok h' U (owned ms ds) x"
    using new(2) assms(1) shown_ok_mono [OF _ ext, of U "owned ns ds" _ "owned ms ds"]
    by (auto simp: set_ms own newBytes_def link_inv_def simp del: owned_simps)
  moreover have "frontier held ms"
    using ms
  proof
    assume m: "ms = newBytes s (Some v) # ns \<and> ns \<noteq> []"
    then obtain ks t where ns: "ns = ks @ [t]" by (metis rev_exhaust)
    have "n_release t = Some w \<Longrightarrow> \<not> refs (sl_blk w) s" for w
      using un(2) assms(5) ns by (auto simp: owned_def refs_def)
    then have "frontier held ((newBytes s (Some v) # ks) @ [t])"
      using assms(1) unfolding frontier_snoc link_inv_def ns by (auto simp: newBytes_def)
    with m ns show ?thesis by simp
  next
    assume "ms = ns @ [newBytes s (Some v)]"
    with un(3) show ?thesis by (auto simp: frontier_snoc newBytes_def)
  qed
  moreover have old: "\<not> refs (sl_blk w) s" if "w \<in> set (rels ns) \<union> set (rels ds)" for w
    using that assms(5) un(2) by (auto simp: refs_def owned_def)
  then have "owner_last ms"
    using ms assms(1) un(3) by (auto simp: link_inv_def owner_last_append newBytes_def)
  moreover have "\<forall>w \<in> set (rels ds). \<forall>n \<in> set ms. \<not> refs (sl_blk w) (n_bts n)"
    using assms(1) old by (simp add: set_ms link_inv_def newBytes_def)
  moreover have "distinct (map sl_blk (rels ms @ rels ds))"
    using ms link_invD(5) [OF assms(1)] un(2) by (elim disjE) (simp_all add: newBytes_def owned_def)
  moreover have "\<forall>w \<in> set (rels ms) \<union> set (rels ds). tok h' w"
    using assms(1,3,4) by (auto simp: rms link_inv_def)
  moreover have "U \<inter> (av' \<union> owned ms ds) = {}" "av' \<inter> owned ms ds = {}" "{..<length h'} = U \<union> av' \<union> owned ms ds"
    using assms(1,2) un(1) by (auto simp: own link_inv_def got_block_def simp del: owned_simps)
  moreover have "\<forall>n \<in> set ds. n_release n \<noteq> None" using assms(1) by (simp add: link_inv_def)
  ultimately show ?thesis by (simp add: link_inv_def del: owned_simps)
qed

text \<open>Writes leave the blocks where they are.\<close>

lemma inv_poke:
  assumes "link_inv av tok h U held ns ds" "extends h h'" "length h' = length h" "\<forall>w. tok h w \<longrightarrow> tok h' w"
  shows "link_inv av tok h' U held ns ds"
proof -
  have "\<forall>n \<in> set ns. bnode_ok h' n"
    using assms(1) bnode_ok_extends [OF _ assms(2)] inv_rel_heap [OF assms(1)] by (auto simp: link_inv_def)
  moreover have "\<forall>x \<in> n_bts ` set ns \<union> held. shown_ok h' U (owned ns ds) x"
    using link_invD(2) [OF assms(1)] shown_ok_mono [OF _ assms(2) order_refl] by blast
  moreover have "{..<length h'} = U \<union> av \<union> owned ns ds" using link_invD(11) [OF assms(1)] assms(3) by simp
  ultimately show ?thesis using link_invD [OF assms(1)] assms(4) unfolding link_inv_def by metis
qed

text \<open>Extending the tail.\<close>

lemma inv_grow:
  assumes inv: "link_inv av tok h U held (ns @ [t]) ds" and t: "n_release t = Some v" "sl_len (n_bts t) + k \<le> sl_cap (n_bts t)"
  shows "link_inv av tok h U held (ns @ [t\<lparr>n_bts := n_bts t\<lparr>sl_len := sl_len (n_bts t) + k\<rparr>\<rparr>]) ds" (is "link_inv _ _ _ _ _ (ns @ [?t]) _")
proof -
  have blk: "sl_blk v < length h" using inv_rel_heap [OF inv _ t(1)] by simp
  have tn: "bnode_ok h t" using inv by (simp add: link_inv_def)
  have "bnode_ok h ?t" "shown_ok h U (owned (ns @ [t]) ds) (n_bts ?t)"
    using tn t blk by (auto simp: bnode_ok_def in_heap_def shown_ok_def)
  moreover have own: "owned (ns @ [?t]) ds = owned (ns @ [t]) ds" by (simp add: t(1))
  moreover have "\<not> refs (sl_blk w) (n_bts ?t)" if "w \<in> set (rels ns) \<union> set (rels ds)" for w
  proof -
    have "sl_blk w \<noteq> sl_blk v" using link_invD(5) [OF inv] that t(1) by (auto simp: image_iff)
    then show ?thesis using tn t(1) by (auto simp: refs_def bnode_ok_def)
  qed
  moreover have "frontier held (ns @ [?t])"
    using link_invD(8) [OF inv] t(1) unfolding frontier_snoc by fastforce
  ultimately show ?thesis
    using link_invD [OF inv] unfolding link_inv_def own by (simp add: owner_last_append t(1) del: owned_simps)
qed

text \<open>Splitting it around a slice of the user.\<close>

lemma inv_split:
  assumes inv: "link_inv av tok h U held (ns @ [t]) ds" and t: "n_release t = Some v" and u: "user_slice h U s"
  defines "r \<equiv> \<lparr>sl_blk = sl_blk (n_bts t), sl_off = sl_off (n_bts t) + sl_len (n_bts t), sl_len = 0,
      sl_cap = sl_cap (n_bts t) - sl_len (n_bts t)\<rparr>"
  shows "link_inv av tok h U held (ns @ [t\<lparr>n_release := None\<rparr>, newBytes s None, newBytes r (Some v)]) ds"
    (is "link_inv _ _ _ _ _ ?ms _")
proof -
  have tn: "bnode_ok h t" using inv by (simp add: link_inv_def)
  have own: "owned ?ms ds = owned (ns @ [t]) ds" by (auto simp: newBytes_def t owned_def)
  have no: "\<not> refs (sl_blk w) s" if "w \<in> set (rels (ns @ [t])) \<union> set (rels ds)" for w
    using inv u that by (intro user_slice_refs [where W = "owned (ns @ [t]) ds"]) (auto simp: link_inv_def owned_def)
  have "bnode_ok h (t\<lparr>n_release := None\<rparr>)" "bnode_ok h (newBytes s None)" "bnode_ok h (newBytes r (Some v))"
    using tn t u by (auto simp: bnode_ok_def newBytes_def r_def in_heap_def user_slice_def)
  moreover have "shown_ok h U W s" "shown_ok h U W r" for W using u by (auto simp: shown_ok_def user_slice_def r_def in_heap_def)
  moreover have "frontier held ((ns @ [t\<lparr>n_release := None\<rparr>, newBytes s None]) @ [newBytes r (Some v)])"
    using link_invD(8) [OF inv] t no [of v] unfolding frontier_snoc by (auto simp: newBytes_def r_def)
  moreover have "\<not> refs b r" for b by (simp add: refs_def r_def)
  moreover have "rels ?ms = rels (ns @ [t])" by (simp add: newBytes_def t)
  ultimately show ?thesis
    using link_invD [OF inv] no t unfolding link_inv_def own by (simp add: owner_last_append newBytes_def del: owned_simps)
qed

subsection \<open>What the operations do to the bytes\<close>

definition link_abs :: "heap \<Rightarrow> Buf \<Rightarrow> bytes" where
  "link_abs h b = concat (map (contents h \<circ> n_bts) (chain b))"

definition kept :: "nat set \<Rightarrow> go_slice set \<Rightarrow> heap \<Rightarrow> heap \<Rightarrow> bool" where
  "kept U held h h' \<longleftrightarrow> (\<forall>u \<in> U. h' ! u = h ! u) \<and> (\<forall>s \<in> held. contents h' s = contents h s)"

lemma kept_refl [simp]: "kept U held h h"
  by (simp add: kept_def)

lemma kept_trans: "kept U held h h' \<Longrightarrow> kept U held h' h'' \<Longrightarrow> kept U held h h''"
  by (simp add: kept_def)

definition room :: "Buf \<Rightarrow> nat" where
  "room b = (if n_release (last (chain b)) = None then 0 else sl_cap (n_bts (last (chain b))) - sl_len (n_bts (last (chain b))))"

definition buf_inv :: "('a \<Rightarrow> heap \<Rightarrow> bool) \<Rightarrow> ('a \<Rightarrow> nat set) \<Rightarrow> (heap \<Rightarrow> go_slice \<Rightarrow> bool) \<Rightarrow> int
    \<Rightarrow> 'a \<Rightarrow> heap \<Rightarrow> nat set \<Rightarrow> go_slice set \<Rightarrow> Buf \<Rightarrow> bool" where
  "buf_inv ok avail token m a h U held b \<longleftrightarrow> ok a h \<and> 0 < minMallocSize b \<and> minMallocSize b \<le> m \<and> chain b \<noteq> []
     \<and> link_inv (avail a) token h U held (chain b) (dirty b)"

definition full_tail :: "Buf \<Rightarrow> nat" where
  "full_tail b = (if n_release (last (chain b)) \<noteq> None \<and> room b = 0 then 1 else 0)"

lemma slice_full_eta: "s\<lparr>sl_len := n\<rparr> = \<lparr>sl_blk = sl_blk s, sl_off = sl_off s, sl_len = n, sl_cap = sl_cap s\<rparr>"
  by (cases s) simp

context allocator
begin

abbreviation binv where
  "binv \<equiv> buf_inv ok avail token max_size"

lemma poke_tail:
  assumes "binv a h U held b" "chain b = ns @ [t]" "n_release t = Some v" "sl_len (n_bts t) + length p \<le> sl_cap (n_bts t)"
  defines "h' \<equiv> poke (sl_blk (n_bts t)) (sl_off (n_bts t) + sl_len (n_bts t)) p h"
  shows "s \<in> n_bts ` set (chain b) \<union> held \<Longrightarrow> contents h' s = contents h s"
    "extends h h'" "kept U held h h'" "contents h' (n_bts t\<lparr>sl_len := sl_len (n_bts t) + length p\<rparr>) = contents h (n_bts t) @ p"
proof -
  have inv: "link_inv (avail a) token h U held (ns @ [t]) (dirty b)" using assms by (simp add: buf_inv_def)
  have t: "sl_blk (n_bts t) = sl_blk v" "sl_off (n_bts t) + sl_cap (n_bts t) = length (h ! sl_blk v)"
    using link_invD(1) [OF inv, of t] assms(3) by (auto simp: bnode_ok_def)
  have v: "sl_blk v < length h" using inv_rel_heap [OF inv _ assms(3)] by simp
  have fits: "sl_off (n_bts t) + sl_len (n_bts t) + length p \<le> length (h ! sl_blk (n_bts t))" using t assms(4) by simp
  show keep: "contents h' s = contents h s" if "s \<in> n_bts ` set (chain b) \<union> held" for s
    unfolding h'_def
  proof (rule contents_poke_before [OF _ _ fits])
    show "in_heap h s" using link_invD(2) [OF inv, of s] that assms(2) by (simp add: shown_ok_def)
    show "refs (sl_blk (n_bts t)) s \<longrightarrow> sl_off s + sl_len s \<le> sl_off (n_bts t) + sl_len (n_bts t)"
      using link_invD(8) [OF inv] that assms(2,3) t(1) unfolding frontier_snoc by auto
  qed
  show "extends h h'" unfolding h'_def by (rule extends_poke [OF fits])
  have "sl_blk v \<notin> U" using link_invD(9) [OF inv] assms(3) by (auto simp: owned_def)
  with keep t(1) show "kept U held h h'" by (auto simp: kept_def h'_def intro!: nth_poke_other)
  show "contents h' (n_bts t\<lparr>sl_len := sl_len (n_bts t) + length p\<rparr>) = contents h (n_bts t) @ p"
    using contents_poke_end [OF _ fits, of "sl_cap (n_bts t)" "sl_cap (n_bts t)"] v t(1)
    unfolding h'_def slice_full_eta by (simp add: contents_def)
qed

lemma append_tail_ok:
  assumes "binv a h U held b" "n_release (last (chain b)) = Some v" "length p \<le> room b"
  shows "case append_tail p h b of (h', b') \<Rightarrow> binv a h' U held b' \<and> kept U held h h' \<and> link_abs h' b' = link_abs h b @ p
    \<and> room b' = room b - length p \<and> n_release (last (chain b')) = Some v"
proof -
  obtain ns t where b: "chain b = ns @ [t]" using assms(1) by (metis buf_inv_def rev_exhaust)
  let ?h = "poke (sl_blk (n_bts t)) (sl_off (n_bts t) + sl_len (n_bts t)) p h"
  let ?t = "t\<lparr>n_bts := n_bts t\<lparr>sl_len := sl_len (n_bts t) + length p\<rparr>\<rparr>"
  have t: "n_release t = Some v" "sl_len (n_bts t) + length p \<le> sl_cap (n_bts t)"
    using assms(2,3) link_invD(1) [of "avail a" token h U held "ns @ [t]" "dirty b" t] assms(1)
    by (auto simp: b room_def buf_inv_def bnode_ok_def)
  note pt = poke_tail [OF assms(1) b t]
  have "link_inv (avail a) token h U held (ns @ [?t]) (dirty b)"
    using inv_grow [OF _ t] assms(1) b by (simp add: buf_inv_def)
  then have "link_inv (avail a) token ?h U held (ns @ [?t]) (dirty b)"
    using inv_poke [OF _ pt(2)] token_extends [OF _ pt(2)] by simp
  moreover have "ok a ?h" using ok_extends [OF _ pt(2)] assms(1) by (simp add: buf_inv_def)
  moreover have "concat (map (contents ?h \<circ> n_bts) ns) = concat (map (contents h \<circ> n_bts) ns)"
    using pt(1) by (intro arg_cong [of _ _ concat] map_cong) (auto simp: b)
  ultimately show ?thesis
    using assms(1) pt(3,4) t by (simp add: append_tail_def set_tail_def b buf_inv_def link_abs_def room_def Let_def)
qed

lemma abs_same:
  assumes "link_inv av tok h U held (chain b) ds" "\<forall>k < length h. h' ! k = h ! k"
  shows "concat (map (contents h' \<circ> n_bts) (chain b)) = link_abs h b" "kept U held h h'"
proof -
  show "concat (map (contents h' \<circ> n_bts) (chain b)) = link_abs h b"
    unfolding link_abs_def using link_invD(2) [OF assms(1)] contents_same [OF _ assms(2)]
    by (intro arg_cong [of _ _ concat] map_cong) (auto simp: shown_ok_def)
  have "U \<subseteq> {..<length h}" using link_invD(11) [OF assms(1)] by blast
  then show "kept U held h h'"
    using assms(2) link_invD(2) [OF assms(1)] contents_same [OF _ assms(2)] by (auto simp: kept_def shown_ok_def)
qed

lemma malloc_block:
  assumes "binv a h U held b" "0 < n" "n \<le> max_size"
  obtains a' h' s v where "al_Malloc A n a h = Ok (a', h', s, v)" "ok a' h'" "got_block (avail a) h (avail a') h' (sl_blk v)"
    "token h' v" "sl_blk s = sl_blk v" "sl_off s = 0" "sl_len s = nat n" "sl_len s \<le> sl_cap s" "sl_cap s = length (h' ! sl_blk v)"
    "concat (map (contents h' \<circ> n_bts) (chain b)) = link_abs h b" "kept U held h h'" "\<forall>w. token h w \<longrightarrow> token h' w"
proof -
  have ok: "ok a h" and l: "link_inv (avail a) token h U held (chain b) (dirty b)" using assms(1) by (simp_all add: buf_inv_def)
  obtain a' h' s v where m: "al_Malloc A n a h = Ok (a', h', s, v)" "ok a' h'" "got_block (avail a) h (avail a') h' (sl_blk s)"
    "sl_off s = 0" "sl_len s = nat n" "sl_len s \<le> sl_cap s" "sl_cap s = length (h' ! sl_blk s)" "sl_blk v = sl_blk s" "token h' v"
    using malloc [OF ok assms(2,3)] by blast
  have g: "got_block (avail a) h (avail a') h' (sl_blk v)" using m by simp
  have "\<forall>w. token h w \<longrightarrow> token h' w" using token_extends got_block_extends [OF g] by blast
  moreover have "\<forall>k < length h. h' ! k = h ! k" using g by (simp add: got_block_def)
  ultimately show thesis using that [OF m(1,2) g] m abs_same [OF l] by simp
qed

lemma malloc_tail_ok:
  assumes "binv a h U held b" "0 < n" "n \<le> max_size"
  obtains a' h' b' s where "malloc_tail A n zero a h b = Ok (a', h', b', s)" "binv a' h' U held b'" "kept U held h h'"
    "link_abs h' b' = link_abs h b @ (if zero then [] else contents h' s)" "zero \<Longrightarrow> nat n \<le> room b'"
    "n_release (last (chain b')) \<noteq> None" "minMallocSize b' = minMallocSize b"
proof -
  from malloc_block [OF assms] obtain a' h' s v where m: "al_Malloc A n a h = Ok (a', h', s, v)" "ok a' h'"
    "got_block (avail a) h (avail a') h' (sl_blk v)" "token h' v" "sl_blk s = sl_blk v" "sl_off s = 0"
    "sl_len s = nat n" "sl_len s \<le> sl_cap s" "sl_cap s = length (h' ! sl_blk v)"
    "concat (map (contents h' \<circ> n_bts) (chain b)) = link_abs h b" "kept U held h h'" "\<forall>w. token h w \<longrightarrow> token h' w" by metis
  let ?s = "if zero then s\<lparr>sl_len := 0\<rparr> else s"
  let ?b = "add_tail (newBytes ?s (Some v)) b"
  have inv: "link_inv (avail a') token h' U held (chain ?b) (dirty ?b)"
    using inv_fresh [of "avail a" token h U held "chain b" "dirty b" "avail a'" h' v ?s] m assms(1)
    by (auto simp: buf_inv_def add_tail_def)
  show thesis
    by (rule that [of a' h' ?b s])
      (use m inv assms(1) in \<open>auto simp: malloc_tail_def add_tail_def set_tail_def buf_inv_def link_abs_def room_def newBytes_def contents_def\<close>)
qed

text \<open>\<open>Write\<close> ends: every block after the first takes at least one byte.\<close>

lemma write_start:
  assumes "binv a h U held b"
  obtains a' h' b' s v where
    "(if n_release (last (chain b)) = None then malloc_tail A (minMallocSize b) True a h b else Ok (a, h, b, nil_slice)) = Ok (a', h', b', s)"
    "binv a' h' U held b'" "kept U held h h'" "link_abs h' b' = link_abs h b" "n_release (last (chain b')) = Some v"
    "room b' = 0 \<longrightarrow> full_tail b = 1"
proof (cases "n_release (last (chain b))")
  case None
  have m: "0 < minMallocSize b" "minMallocSize b \<le> max_size" using assms by (simp_all add: buf_inv_def)
  from malloc_tail_ok [OF assms m, of True] obtain a' h' b' s where
    "malloc_tail A (minMallocSize b) True a h b = Ok (a', h', b', s)" "binv a' h' U held b'" "kept U held h h'"
    "link_abs h' b' = link_abs h b" "nat (minMallocSize b) \<le> room b'" "n_release (last (chain b')) \<noteq> None" by (metis append_Nil2)
  moreover from this m have "room b' \<noteq> 0" by linarith
  ultimately show thesis using None that by auto
next
  case (Some v)
  with assms that [of a h b nil_slice v] show thesis by (simp add: full_tail_def)
qed

lemma Write_ok:
  assumes "binv a h U held b" "length p + full_tail b < fuel"
  shows "\<exists>a' h' b'. Write A fuel p a h b = Some (Ok (a', h', b', length p)) \<and> binv a' h' U held b' \<and> kept U held h h'
    \<and> link_abs h' b' = link_abs h b @ p"
  using assms
proof (induction fuel arbitrary: p a h b)
  case (Suc fuel)
  from write_start [OF Suc.prems(1)] obtain a1 h1 b1 s1 v where w:
    "(if n_release (last (chain b)) = None then malloc_tail A (minMallocSize b) True a h b else Ok (a, h, b, nil_slice)) = Ok (a1, h1, b1, s1)"
    "binv a1 h1 U held b1" "kept U held h h1" "link_abs h1 b1 = link_abs h b" "n_release (last (chain b1)) = Some v"
    "room b1 = 0 \<longrightarrow> full_tail b = 1" by blast
  let ?av = "sl_cap (n_bts (last (chain b1))) - sl_len (n_bts (last (chain b1)))"
  have av: "?av = room b1" using w(5) by (simp add: room_def)
  show ?case
  proof (cases "length p \<le> ?av")
    case True
    obtain h2 b2 where a2: "append_tail p h1 b1 = (h2, b2)" by fastforce
    with append_tail_ok [OF w(2,5)] True av kept_trans [OF w(3)] show ?thesis
      using w(1,4) by (fastforce simp: Let_def)
  next
    case False
    obtain h2 b2 where a2: "append_tail (take ?av p) h1 b1 = (h2, b2)" by fastforce
    then have b2: "binv a1 h2 U held b2" "kept U held h1 h2" "link_abs h2 b2 = link_abs h b @ take ?av p"
      using append_tail_ok [OF w(2,5), of "take ?av p"] False av w(4) by auto
    then have "0 < minMallocSize b2" "minMallocSize b2 \<le> max_size" by (simp_all add: buf_inv_def)
    from malloc_tail_ok [OF b2(1) this, of True] obtain a3 h3 b3 s3 where m:
      "malloc_tail A (minMallocSize b2) True a1 h2 b2 = Ok (a3, h3, b3, s3)" "binv a3 h3 U held b3" "kept U held h2 h3"
      "link_abs h3 b3 = link_abs h2 b2" "nat (minMallocSize b2) \<le> room b3" by (metis append_Nil2)
    have "full_tail b3 = 0" using m(5) \<open>0 < minMallocSize b2\<close> unfolding full_tail_def by auto
    moreover have "length (drop ?av p) < fuel" using Suc.prems(2) w(6) False av by (cases "room b1 = 0") auto
    ultimately obtain a4 h4 b4 where i: "Write A fuel (drop ?av p) a3 h3 b3 = Some (Ok (a4, h4, b4, length (drop ?av p)))"
      "binv a4 h4 U held b4" "kept U held h3 h4" "link_abs h4 b4 = link_abs h3 b3 @ drop ?av p"
      using Suc.IH [OF m(2), of "drop ?av p"] by auto
    have "kept U held h h4" using kept_trans w(3) b2(2) m(3) i(3) by blast
    moreover have "link_abs h4 b4 = link_abs h b @ p" using i(4) m(4) b2(3) by simp
    moreover have "Write A (Suc fuel) p a h b = Some (Ok (a4, h4, b4, length p))"
      using False a2 i(1) m(1) by (simp add: w(1) Let_def)
    ultimately show ?thesis using i(2) by blast
  qed
qed simp

lemma append_one_ok:
  assumes "binv a h U held b" "user_slice h U s"
  shows "binv a h U held (append_one s b) \<and> link_abs h (append_one s b) = link_abs h b @ contents h s"
proof (cases "n_release (last (chain b)) = None \<or> sl_cap (n_bts (last (chain b))) = sl_len (n_bts (last (chain b)))")
  case True
  then show ?thesis using assms inv_snoc_user [of "avail a" token h U held "chain b" "dirty b" s]
    by (simp add: append_one_def Let_def add_tail_def buf_inv_def link_abs_def newBytes_def)
next
  case False
  obtain ns t where b: "chain b = ns @ [t]" using assms(1) by (metis buf_inv_def rev_exhaust)
  with False obtain v where v: "n_release t = Some v" by auto
  then show ?thesis using assms False b inv_split [of "avail a" token h U held ns t "dirty b" v s]
    by (simp add: append_one_def Let_def add_tail_def set_tail_def buf_inv_def link_abs_def newBytes_def)
qed

lemma Append_ok:
  assumes "binv a h U held b" "\<forall>s \<in> set ss. user_slice h U s"
  shows "binv a h U held (Append ss b) \<and> link_abs h (Append ss b) = link_abs h b @ concat (map (contents h) ss)"
  using assms
proof (induction ss arbitrary: b)
  case (Cons s ss)
  then show ?case using append_one_ok [OF Cons.prems(1), of s] Cons.IH [of "append_one s b"] by (simp add: Append_def)
qed (simp add: Append_def)

lemma Prepend_ok:
  assumes "binv a h U held b" "\<forall>s \<in> set ss. user_slice h U s"
  shows "binv a h U held (Prepend ss b) \<and> link_abs h (Prepend ss b) = concat (map (contents h) ss) @ link_abs h b"
  using assms
proof (induction ss)
  case (Cons s ss)
  then show ?case
    using inv_prepend [of "avail a" token h U held "chain (Prepend ss b)" "dirty (Prepend ss b)" s]
    by (simp add: Prepend_def buf_inv_def link_abs_def newBytes_def)
qed (simp add: Prepend_def)

text \<open>What \<open>Alloc\<close> and \<open>Prelloc\<close> return is for the user to fill.\<close>

lemma Alloc_ok:
  assumes "binv a h U held b" "0 < length d" "int (length d) \<le> max_size"
  obtains a' h' b' s where "Alloc A (int (length d)) a h b = Ok (a', h', b', s)" "sl_len s = length d"
    "binv a' (poke (sl_blk s) (sl_off s) d h') U held b'" "kept U held h (poke (sl_blk s) (sl_off s) d h')"
    "link_abs (poke (sl_blk s) (sl_off s) d h') b' = link_abs h b @ d"
proof (cases "n_release (last (chain b)) \<noteq> None \<and> length d \<le> room b")
  case True
  let ?t = "n_bts (last (chain b))"
  let ?s = "\<lparr>sl_blk = sl_blk ?t, sl_off = sl_off ?t + sl_len ?t, sl_len = length d, sl_cap = sl_cap ?t - sl_len ?t\<rparr>"
  have "length d \<le> sl_cap ?t - sl_len ?t" using True by (auto simp: room_def)
  with assms(2) have "int (length d) \<le> int (sl_cap ?t) - int (sl_len ?t)" by linarith
  then have "Alloc A (int (length d)) a h b = Ok (a, h, snd (append_tail d h b), ?s)"
    using True by (simp add: Alloc_def append_tail_def Let_def)
  moreover have "fst (append_tail d h b) = poke (sl_blk ?s) (sl_off ?s) d h" by (simp add: append_tail_def Let_def)
  ultimately show thesis
    using that [of a h "snd (append_tail d h b)" ?s] append_tail_ok [OF assms(1), of _ d] True by (auto simp: case_prod_unfold)
next
  case False
  have n: "0 < int (length d)" using assms(2) by simp
  from malloc_block [OF assms(1) n assms(3)] obtain a' h' s v where m: "al_Malloc A (int (length d)) a h = Ok (a', h', s, v)" "ok a' h'"
    "got_block (avail a) h (avail a') h' (sl_blk v)" "token h' v" "sl_blk s = sl_blk v" "sl_off s = 0"
    "sl_len s = nat (int (length d))" "sl_len s \<le> sl_cap s" "sl_cap s = length (h' ! sl_blk v)"
    "concat (map (contents h' \<circ> n_bts) (chain b)) = link_abs h b" "kept U held h h'" "\<forall>w. token h w \<longrightarrow> token h' w" by metis
  let ?b = "add_tail (newBytes (s\<lparr>sl_len := 0\<rparr>) (Some v)) b"
  let ?b' = "add_tail (newBytes s (Some v)) b"
  have b: "binv a' h' U held ?b"
    using inv_fresh [of "avail a" token h U held "chain b" "dirty b" "avail a'" h' v "s\<lparr>sl_len := 0\<rparr>"] m assms(1)
    by (simp add: buf_inv_def add_tail_def)
  have "append_tail d h' ?b = (poke (sl_blk s) (sl_off s) d h', ?b')"
    using m(6,7) by (simp add: append_tail_def add_tail_def set_tail_def newBytes_def Let_def)
  with append_tail_ok [OF b, of v d] m(7,8)
  have "binv a' (poke (sl_blk s) (sl_off s) d h') U held ?b'" "kept U held h' (poke (sl_blk s) (sl_off s) d h')"
    "link_abs (poke (sl_blk s) (sl_off s) d h') ?b' = link_abs h' ?b @ d"
    by (simp_all add: room_def add_tail_def newBytes_def)
  moreover have "link_abs h' ?b = link_abs h b" using m(10) by (simp add: link_abs_def add_tail_def newBytes_def)
  moreover have "Alloc A (int (length d)) a h b = Ok (a', h', ?b', s)"
    using False m(1) by (auto simp: Alloc_def malloc_tail_def room_def Let_def)
  ultimately show thesis using that m(7) kept_trans [OF m(11)] by simp
qed

lemma Prelloc_ok:
  assumes "binv a h U held b" "0 < length d" "int (length d) \<le> max_size"
  obtains a' h' b' s where "Prelloc A (int (length d)) a h b = Ok (a', h', b', s)" "sl_len s = length d"
    "binv a' (poke (sl_blk s) (sl_off s) d h') U held b'" "kept U held h (poke (sl_blk s) (sl_off s) d h')"
    "link_abs (poke (sl_blk s) (sl_off s) d h') b' = d @ link_abs h b"
proof -
  have n: "0 < int (length d)" using assms(2) by simp
  from malloc_block [OF assms(1) n assms(3)] obtain a' h' s v where m: "al_Malloc A (int (length d)) a h = Ok (a', h', s, v)" "ok a' h'"
    "got_block (avail a) h (avail a') h' (sl_blk v)" "token h' v" "sl_blk s = sl_blk v" "sl_off s = 0"
    "sl_len s = nat (int (length d))" "sl_len s \<le> sl_cap s" "sl_cap s = length (h' ! sl_blk v)"
    "concat (map (contents h' \<circ> n_bts) (chain b)) = link_abs h b" "kept U held h h'" "\<forall>w. token h w \<longrightarrow> token h' w" by metis
  have l: "link_inv (avail a) token h U held (chain b) (dirty b)" using assms(1) by (simp add: buf_inv_def)
  let ?h = "poke (sl_blk s) (sl_off s) d h'" and ?b = "b\<lparr>chain := newBytes s (Some v) # chain b\<rparr>"
  have fits: "sl_off s + length d \<le> length (h' ! sl_blk s)" using m(5-9) by simp
  have "link_inv (avail a') token h' U held (chain ?b) (dirty ?b)"
    using inv_fresh [of "avail a" token h U held "chain b" "dirty b" "avail a'" h' v s] m assms(1) by (auto simp: buf_inv_def)
  then have "link_inv (avail a') token ?h U held (chain ?b) (dirty ?b)"
    using inv_poke [OF _ extends_poke [OF fits]] token_extends [OF _ extends_poke [OF fits]] by simp
  moreover have "ok a' ?h" using ok_extends [OF m(2) extends_poke [OF fits]] .
  ultimately have "binv a' ?h U held ?b" using assms(1) by (simp add: buf_inv_def)
  moreover have same: "contents ?h x = contents h' x" if "x \<in> n_bts ` set (chain b) \<union> held" for x
    using got_block_unused(3) [OF m(3) l that] link_invD(2) [OF l that] in_heap_extends [OF _ got_block_extends [OF m(3)]] fits
    by (intro contents_poke_before) (auto simp: shown_ok_def m(5))
  then have "concat (map (contents ?h \<circ> n_bts) (chain b)) = link_abs h b"
    unfolding m(10) [symmetric] by (intro arg_cong [of _ _ concat] map_cong) auto
  moreover have "kept U held h' ?h" using same got_block_unused(1) [OF m(3) l] m(5)
    by (auto simp: kept_def intro!: nth_poke_other)
  moreover have "contents ?h s = d"
    using contents_poke_end [of "sl_blk s" h' 0 0 d "sl_cap s" 0] m(3,5-9) unfolding got_block_def
    by (cases s) (auto simp: contents_def)
  moreover have "Prelloc A (int (length d)) a h b = Ok (a', h', ?b, s)" using m(1) by (simp add: Prelloc_def)
  ultimately show thesis
    using that [of a' h' ?b s] kept_trans [OF m(11)] m(7) by (simp add: link_abs_def newBytes_def)
qed

end

subsection \<open>What reading does to the bytes\<close>

lemma ensureNotEmpty_ok:
  assumes "link_inv av tok h U held (chain b) (dirty b)"
  shows "link_inv av tok h U held (chain (ensureNotEmpty b)) (dirty (ensureNotEmpty b))" "link_abs h (ensureNotEmpty b) = link_abs h b"
    "chain (ensureNotEmpty b) \<noteq> []" "minMallocSize (ensureNotEmpty b) = minMallocSize b"
  using assms inv_prepend [of av tok h U held "[]" "dirty b" nil_slice]
  by (cases "chain b = []"; simp add: ensureNotEmpty_def link_abs_def newBytes_def user_slice_def in_heap_def nil_slice_def)+

lemma dirtyHead_ok:
  assumes "link_inv av tok h U held (chain b) (dirty b)" "chain b \<noteq> []" "dirtyHead b = (b', s)"
  shows "link_inv av tok h U (insert s held) (chain b') (dirty b')" "link_abs h b = contents h s @ link_abs h b'"
    "minMallocSize b' = minMallocSize b" "in_heap h s" "s = n_bts (hd (chain b))"
proof -
  obtain n ns where b: "chain b = n # ns" using assms(2) by (cases "chain b") auto
  have bn: "b' = (if n_release n = None then b\<lparr>chain := ns\<rparr> else b\<lparr>chain := ns, dirty := n # dirty b\<rparr>)" "s = n_bts n"
    using assms(3) by (auto simp: dirtyHead_def Let_def b)
  then show "link_inv av tok h U (insert s held) (chain b') (dirty b')" "link_abs h b = contents h s @ link_abs h b'"
    "minMallocSize b' = minMallocSize b" "s = n_bts (hd (chain b))"
    using inv_pop [of av tok h U held n ns "dirty b"] assms(1) b by (auto simp: link_abs_def split: if_splits)
  show "in_heap h s" using link_invD(2) [OF assms(1), of s] bn b by (simp add: shown_ok_def)
qed

lemma dirtyEmptyHeads_ok:
  assumes "link_inv av tok h U held (chain b) (dirty b)"
  shows "link_inv av tok h U held (chain (dirtyEmptyHeads b)) (dirty (dirtyEmptyHeads b)) \<and> link_abs h (dirtyEmptyHeads b) = link_abs h b
    \<and> minMallocSize (dirtyEmptyHeads b) = minMallocSize b
    \<and> (chain (dirtyEmptyHeads b) \<noteq> [] \<longrightarrow> 0 < sl_len (n_bts (hd (chain (dirtyEmptyHeads b)))))"
  using assms
proof (induction b rule: dirtyEmptyHeads.induct)
  case (1 b)
  show ?case
  proof (cases "chain b \<noteq> [] \<and> sl_len (n_bts (hd (chain b))) = 0")
    case True
    obtain b' s where d: "dirtyHead b = (b', s)" by fastforce
    note dh = dirtyHead_ok [OF "1.prems" _ d]
    from dh(1) have "link_inv av tok h U held (chain b') (dirty b')" using True inv_held by blast
    with "1.IH" d True dh(2,3,5) show ?thesis by (simp add: dirtyEmptyHeads.simps [of b])
  next
    case False
    with "1.prems" show ?thesis by (auto simp: dirtyEmptyHeads.simps [of b])
  qed
qed

lemma read_head_ok:
  assumes "link_inv av tok h U held (chain b) (dirty b)" "chain b \<noteq> []" "k \<le> sl_len (n_bts (hd (chain b)))" "read_head k b = (b', s)"
  shows "link_inv av tok h U (insert s held) (chain b') (dirty b')" "link_abs h b = contents h s @ link_abs h b'"
    "minMallocSize b' = minMallocSize b" "in_heap h s" "sl_len s = k" "chain b' \<noteq> []"
    "sl_len (n_bts (hd (chain b'))) = sl_len (n_bts (hd (chain b))) - k"
proof -
  obtain n ns where b: "chain b = n # ns" using assms(2) by (cases "chain b") auto
  let ?n = "n\<lparr>n_bts := \<lparr>sl_blk = sl_blk (n_bts n), sl_off = sl_off (n_bts n) + k, sl_len = sl_len (n_bts n) - k, sl_cap = sl_cap (n_bts n) - k\<rparr>\<rparr>"
  have bn: "b' = b\<lparr>chain := ?n # ns\<rparr>" "s = (n_bts n)\<lparr>sl_len := k\<rparr>"
    using assms(4) by (auto simp: read_head_def Let_def b)
  have "contents h (n_bts n) = contents h s @ contents h (n_bts ?n)"
    using assms(3) b bn(2) take_add [of k "sl_len (n_bts n) - k" "drop (sl_off (n_bts n)) (h ! sl_blk (n_bts n))"]
    by (simp add: contents_def add.commute)
  then show "link_inv av tok h U (insert s held) (chain b') (dirty b')" "link_abs h b = contents h s @ link_abs h b'"
    "minMallocSize b' = minMallocSize b" "sl_len s = k" "chain b' \<noteq> []" "sl_len (n_bts (hd (chain b'))) = sl_len (n_bts (hd (chain b))) - k"
    using inv_read_head [of av tok h U held n ns "dirty b" k] assms(1,3) b bn by (simp_all add: link_abs_def)
  then show "in_heap h s" using link_invD(2) [of av tok h U "insert s held" "chain b'" "dirty b'" s] by (simp add: shown_ok_def)
qed

lemma Read_loop_ok:
  assumes "link_inv av tok h U held (chain b) (dirty b)" "Read_loop h len b = (b', d)"
  shows "link_inv av tok h U held (chain b') (dirty b') \<and> d = take len (link_abs h b) \<and> link_abs h b' = drop len (link_abs h b)
    \<and> minMallocSize b' = minMallocSize b"
  using assms
proof (induction h len b arbitrary: b' d rule: Read_loop.induct)
  case (1 h len b)
  show ?case
  proof (cases "chain b = []")
    case True
    with 1 show ?thesis by (auto simp: Read_loop.simps [of h len b] link_abs_def)
  next
    case False
    define k where "k = min len (sl_len (n_bts (hd (chain b))))"
    obtain b1 s where r: "read_head k b = (b1, s)" by fastforce
    define b2 where "b2 = dirtyEmptyHeads b1"
    have k: "k \<le> sl_len (n_bts (hd (chain b)))" by (simp add: k_def)
    note rh = read_head_ok [OF "1.prems"(1) False k r]
    have "link_inv av tok h U held (chain b1) (dirty b1)" using inv_held [OF rh(1)] by blast
    note e = dirtyEmptyHeads_ok [OF this, folded b2_def]
    have s: "length (contents h s) = k" using rh(4,5) by (simp add: length_contents)
    have abs: "link_abs h b = contents h s @ link_abs h b2" using rh(2) e by simp
    show ?thesis
    proof (cases "k = len")
      case True
      with "1.prems"(2) False r e s abs rh(3) show ?thesis
        by (simp add: Read_loop.simps [of h len b] k_def [symmetric] b2_def [symmetric] Let_def)
    next
      case neq: False
      obtain b3 d3 where i: "Read_loop h (len - k) b2 = (b3, d3)" by fastforce
      have "k < len" using neq by (simp add: k_def)
      moreover have "b' = b3" "d = contents h s @ d3"
        using "1.prems"(2) False r i neq by (simp_all add: Read_loop.simps [of h len b] k_def [symmetric] b2_def [symmetric] Let_def)
      moreover note "1.IH" [OF False k_def refl r [symmetric] b2_def neq _ i]
      ultimately show ?thesis using e s abs rh(3) by simp
    qed
  qed
qed

lemma ReadAll_loop_ok:
  assumes "link_inv av tok h U held (chain b) (dirty b)" "ReadAll_loop b = (b', ss)"
  shows "link_inv av tok h U (set ss \<union> held) (chain b') (dirty b') \<and> concat (map (contents h) ss) = link_abs h b \<and> chain b' = []
    \<and> minMallocSize b' = minMallocSize b \<and> (\<forall>s \<in> set ss. 0 < sl_len s)"
  using assms
proof (induction b arbitrary: b' ss held rule: ReadAll_loop.induct)
  case (1 b)
  show ?case
  proof (cases "chain b = []")
    case True
    with 1 show ?thesis by (auto simp: ReadAll_loop.simps [of b] link_abs_def)
  next
    case False
    obtain b1 s where r: "dirtyHead b = (b1, s)" by fastforce
    obtain b2 ss2 where i: "ReadAll_loop b1 = (b2, ss2)" by fastforce
    note dh = dirtyHead_ok [OF "1.prems"(1) False r]
    have o: "b' = b2" "ss = (if sl_len s \<noteq> 0 then s # ss2 else ss2)"
      using "1.prems"(2) False r i by (simp_all add: ReadAll_loop.simps [of b] Let_def)
    note ih = "1.IH" [OF False r [symmetric] refl dh(1) i]
    then have "link_inv av tok h U (set ss \<union> held) (chain b') (dirty b')" using o by (auto elim: inv_held)
    with ih o dh(2,3) show ?thesis by auto
  qed
qed

lemma ReadAll_loop_empty: "ReadAll_loop b = (b', ss) \<Longrightarrow> chain b' = []"
proof (induction b arbitrary: b' ss rule: ReadAll_loop.induct)
  case (1 b)
  obtain b1 s where d: "dirtyHead b = (b1, s)" by fastforce
  obtain b2 ss2 where r: "ReadAll_loop b1 = (b2, ss2)" by fastforce
  show ?case
  proof (cases "chain b = []")
    case True
    with "1.prems" show ?thesis by (simp add: ReadAll_loop.simps [of b])
  next
    case False
    with "1.prems" d r have "b' = b2" by (simp add: ReadAll_loop.simps [of b])
    with "1.IH" [OF False d [symmetric] refl r] show ?thesis by simp
  qed
qed

lemma ReadNext_loop_ok:
  assumes "link_inv av tok h U held (chain b) (dirty b)" "ReadNext_loop b = (b', s)"
  shows "link_inv av tok h U (insert s held) (chain b') (dirty b') \<and> link_abs h b = contents h s @ link_abs h b'
    \<and> minMallocSize b' = minMallocSize b \<and> in_heap h s \<and> (sl_len s = 0 \<longrightarrow> link_abs h b' = [])"
  using assms
proof (induction b arbitrary: b' s rule: ReadNext_loop.induct)
  case (1 b)
  show ?case
  proof (cases "chain b = []")
    case True
    have "link_inv av tok h U (insert nil_slice held) (chain b) (dirty b)"
      using inv_insert_empty [OF "1.prems"(1)] by (simp add: nil_slice_def)
    with 1 True show ?thesis by (auto simp: ReadNext_loop.simps [of b] link_abs_def nil_slice_def in_heap_def contents_def)
  next
    case False
    obtain b1 s1 where r: "dirtyHead b = (b1, s1)" by fastforce
    note dh = dirtyHead_ok [OF "1.prems"(1) False r]
    have l: "link_inv av tok h U held (chain b1) (dirty b1)" using inv_held [OF dh(1)] by blast
    show ?thesis
    proof (cases "sl_len s1 = 0")
      case True
      then have "ReadNext_loop b1 = (b', s)" using "1.prems"(2) False r by (simp add: ReadNext_loop.simps [of b])
      with "1.IH" [OF False r [symmetric] refl _ l] True dh(2,3) show ?thesis by simp
    next
      case neq: False
      then have "b' = b1" "s = s1" using "1.prems"(2) False r by (simp_all add: ReadNext_loop.simps [of b])
      with neq dh show ?thesis by simp
    qed
  qed
qed

subsection \<open>Sequences of operations\<close>

datatype lb_op = LWrite bytes | LAppend "go_slice list" | LPrepend "go_slice list" | LAlloc bytes | LPrelloc bytes
  | LRead nat | LReadN nat | LReadAll | LReadNext | LRelease | LLen

datatype lb_out = ODone | OCount nat | OBytes bytes | OEOF | OSlices "(go_slice \<times> bytes) list"

type_synonym 'a lb_state = "'a \<times> heap \<times> Buf"

text \<open>One call of the buffer's user. What \<open>Alloc\<close> and \<open>Prelloc\<close> return is filled at once, slices are returned
  with the bytes they show. \<open>None\<close> is a panic or a call that does not return.\<close>

fun lb_step :: "'a Allocator \<Rightarrow> lb_op \<Rightarrow> 'a lb_state \<Rightarrow> ('a lb_state \<times> lb_out) option" where
  "lb_step A (LWrite p) (a, h, b) =
     (case Write A (length p + 2) p a h b of Some (Ok (a, h, b, n)) \<Rightarrow> Some ((a, h, b), OCount n) | _ \<Rightarrow> None)"
| "lb_step A (LAppend ss) (a, h, b) = Some ((a, h, Append ss b), ODone)"
| "lb_step A (LPrepend ss) (a, h, b) = Some ((a, h, Prepend ss b), ODone)"
| "lb_step A (LAlloc d) (a, h, b) =
     (case Alloc A (int (length d)) a h b of
        Ok (a, h, b, s) \<Rightarrow> Some ((a, poke (sl_blk s) (sl_off s) d h, b), OCount (sl_len s)) | _ \<Rightarrow> None)"
| "lb_step A (LPrelloc d) (a, h, b) =
     (case Prelloc A (int (length d)) a h b of
        Ok (a, h, b, s) \<Rightarrow> Some ((a, poke (sl_blk s) (sl_off s) d h, b), OCount (sl_len s)) | _ \<Rightarrow> None)"
| "lb_step A (LRead n) (a, h, b) =
     (case Read h n b of (b, Ok d) \<Rightarrow> Some ((a, h, b), OBytes d) | (b, Err _) \<Rightarrow> Some ((a, h, b), OEOF) | _ \<Rightarrow> None)"
| "lb_step A (LReadN n) (a, h, b) =
     (case ReadN (int n) b of (b, Ok (s, k)) \<Rightarrow> Some ((a, h, b), OSlices [(s, contents h s)]) | _ \<Rightarrow> None)"
| "lb_step A LReadAll (a, h, b) = (case Buf_ReadAll b of (b, ss) \<Rightarrow> Some ((a, h, b), OSlices (map (\<lambda>s. (s, contents h s)) ss)))"
| "lb_step A LReadNext (a, h, b) = (case ReadNext b of (b, s) \<Rightarrow> Some ((a, h, b), OSlices [(s, contents h s)]))"
| "lb_step A LRelease (a, h, b) = (case Release A a b of Ok (a, b) \<Rightarrow> Some ((a, h, b), ODone) | _ \<Rightarrow> None)"
| "lb_step A LLen (a, h, b) = Some ((a, h, b), OCount (Len b))"

text \<open>The same call on a list of bytes; \<open>h0\<close> is memory at the start, which shows the user's slices.\<close>

fun lb_spec :: "heap \<Rightarrow> lb_op \<Rightarrow> bytes \<Rightarrow> lb_out \<Rightarrow> bytes \<Rightarrow> bool" where
  "lb_spec h0 (LWrite p) xs out ys \<longleftrightarrow> out = OCount (length p) \<and> ys = xs @ p"
| "lb_spec h0 (LAppend ss) xs out ys \<longleftrightarrow> out = ODone \<and> ys = xs @ concat (map (contents h0) ss)"
| "lb_spec h0 (LPrepend ss) xs out ys \<longleftrightarrow> out = ODone \<and> ys = concat (map (contents h0) ss) @ xs"
| "lb_spec h0 (LAlloc d) xs out ys \<longleftrightarrow> out = OCount (length d) \<and> ys = xs @ d"
| "lb_spec h0 (LPrelloc d) xs out ys \<longleftrightarrow> out = OCount (length d) \<and> ys = d @ xs"
| "lb_spec h0 (LRead n) xs out ys \<longleftrightarrow> out = (if n = 0 then OBytes [] else if xs = [] then OEOF else OBytes (take n xs)) \<and> ys = drop n xs"
| "lb_spec h0 (LReadN n) xs out ys \<longleftrightarrow> (\<exists>s d. out = OSlices [(s, d)] \<and> xs = d @ ys \<and> length d \<le> n \<and> (d = [] \<longrightarrow> n = 0 \<or> xs = []))"
| "lb_spec h0 LReadAll xs out ys \<longleftrightarrow> (\<exists>sds. out = OSlices sds \<and> concat (map snd sds) = xs \<and> [] \<notin> snd ` set sds \<and> ys = [])"
| "lb_spec h0 LReadNext xs out ys \<longleftrightarrow> (\<exists>s d. out = OSlices [(s, d)] \<and> xs = d @ ys \<and> (d = [] \<longrightarrow> xs = []))"
| "lb_spec h0 LRelease xs out ys \<longleftrightarrow> out = ODone \<and> ys = xs"
| "lb_spec h0 LLen xs out ys \<longleftrightarrow> out = OCount (length xs) \<and> ys = xs"

text \<open>The slices that the user may still look at: those returned since the last \<open>Release\<close>.\<close>

fun lb_held :: "(go_slice \<times> bytes) list \<Rightarrow> lb_op \<Rightarrow> lb_out \<Rightarrow> (go_slice \<times> bytes) list" where
  "lb_held held LRelease out = []"
| "lb_held held op (OSlices sds) = sds @ held"
| "lb_held held op out = held"

fun lb_run :: "'a Allocator \<Rightarrow> lb_op list \<Rightarrow> 'a lb_state \<Rightarrow> ('a lb_state \<times> lb_out list) option" where
  "lb_run A [] st = Some (st, [])"
| "lb_run A (op # ops) st =
     (case lb_step A op st of None \<Rightarrow> None
      | Some (st, out) \<Rightarrow> (case lb_run A ops st of None \<Rightarrow> None | Some (st, outs) \<Rightarrow> Some (st, out # outs)))"

fun lb_specs :: "heap \<Rightarrow> lb_op list \<Rightarrow> bytes \<Rightarrow> lb_out list \<Rightarrow> bytes \<Rightarrow> bool" where
  "lb_specs h0 [] xs outs zs \<longleftrightarrow> outs = [] \<and> zs = xs"
| "lb_specs h0 (op # ops) xs outs zs \<longleftrightarrow> (\<exists>out outs' ys. outs = out # outs' \<and> lb_spec h0 op xs out ys \<and> lb_specs h0 ops ys outs' zs)"

fun lb_helds :: "(go_slice \<times> bytes) list \<Rightarrow> lb_op list \<Rightarrow> lb_out list \<Rightarrow> (go_slice \<times> bytes) list" where
  "lb_helds held (op # ops) (out # outs) = lb_helds (lb_held held op out) ops outs"
| "lb_helds held ops outs = held"

text \<open>The user passes slices of memory of its own, and asks for sizes that can be allocated.\<close>

fun op_ok :: "int \<Rightarrow> heap \<Rightarrow> nat set \<Rightarrow> lb_op \<Rightarrow> bool" where
  "op_ok m h0 U (LAppend ss) \<longleftrightarrow> (\<forall>s \<in> set ss. user_slice h0 U s)"
| "op_ok m h0 U (LPrepend ss) \<longleftrightarrow> (\<forall>s \<in> set ss. user_slice h0 U s)"
| "op_ok m h0 U (LAlloc d) \<longleftrightarrow> 0 < length d \<and> int (length d) \<le> m"
| "op_ok m h0 U (LPrelloc d) \<longleftrightarrow> 0 < length d \<and> int (length d) \<le> m"
| "op_ok m h0 U op \<longleftrightarrow> True"

definition lb_inv :: "('a \<Rightarrow> heap \<Rightarrow> bool) \<Rightarrow> ('a \<Rightarrow> nat set) \<Rightarrow> (heap \<Rightarrow> go_slice \<Rightarrow> bool) \<Rightarrow> int \<Rightarrow> heap \<Rightarrow> nat set
    \<Rightarrow> (go_slice \<times> bytes) list \<Rightarrow> 'a lb_state \<Rightarrow> bool" where
  "lb_inv ok avail token m h0 U held st \<longleftrightarrow> (case st of (a, h, b) \<Rightarrow> buf_inv ok avail token m a h U (fst ` set held) b
     \<and> (\<forall>(s, d) \<in> set held. contents h s = d) \<and> (\<forall>u \<in> U. h ! u = h0 ! u))"

lemma user_slice_now:
  assumes "user_slice h0 U s" "U \<subseteq> {..<length h}" "\<forall>u \<in> U. h ! u = h0 ! u"
  shows "user_slice h U s" "contents h s = contents h0 s"
  using assms by (cases "sl_len s = 0"; auto simp: user_slice_def in_heap_def contents_def)+

lemma Len_eq:
  assumes "link_inv av tok h U held (chain b) ds"
  shows "Len b = length (link_abs h b)"
proof -
  have "sum_list (map (sl_len \<circ> n_bts) (chain b)) = sum_list (map (length \<circ> (contents h \<circ> n_bts)) (chain b))"
    using link_invD(2) [OF assms] by (intro arg_cong [of _ _ sum_list] map_cong) (auto simp: shown_ok_def length_contents)
  then show ?thesis by (simp add: Len_def link_abs_def length_concat)
qed

lemma ReadN_ok:
  assumes "link_inv av tok h U held (chain b) (dirty b)"
  obtains b' s k where "ReadN (int n) b = (b', Ok (s, k))" "link_inv av tok h U (insert s held) (chain b') (dirty b')" "chain b' \<noteq> []"
    "minMallocSize b' = minMallocSize b" "link_abs h b = contents h s @ link_abs h b'" "length (contents h s) \<le> n"
    "contents h s = [] \<longrightarrow> n = 0 \<or> link_abs h b = []"
proof -
  define b1 where "b1 = dirtyEmptyHeads b"
  note e = dirtyEmptyHeads_ok [OF assms, folded b1_def]
  consider (none) "chain b1 = []" | (all) "chain b1 \<noteq> []" "sl_len (n_bts (hd (chain b1))) \<le> n"
    | (part) "chain b1 \<noteq> []" "n < sl_len (n_bts (hd (chain b1)))" by force
  then show thesis
  proof cases
    case none
    have "link_inv av tok h U (insert nil_slice held) (chain b1) (dirty b1)" using inv_insert_empty e by (simp add: nil_slice_def)
    note en = ensureNotEmpty_ok [OF this]
    have "ReadN (int n) b = (ensureNotEmpty b1, Ok (nil_slice, 0))" using none by (simp add: ReadN_def b1_def)
    moreover have "contents h nil_slice = []" "link_abs h b1 = []" using none by (simp_all add: nil_slice_def link_abs_def)
    ultimately show thesis using that [of "ensureNotEmpty b1" nil_slice 0] en e by simp
  next
    case all
    obtain b2 s where d: "dirtyHead b1 = (b2, s)" by fastforce
    note dh = dirtyHead_ok [OF conjunct1 [OF e] all(1) d]
    note e2 = dirtyEmptyHeads_ok [OF dh(1)]
    note en = ensureNotEmpty_ok [OF conjunct1 [OF e2]]
    have "ReadN (int n) b = (ensureNotEmpty (dirtyEmptyHeads b2), Ok (s, sl_len s))"
      using all d by (simp add: ReadN_def b1_def Let_def)
    moreover have "contents h s \<noteq> []" "length (contents h s) \<le> n" using e dh(5) all length_contents [OF dh(4)] by auto
    moreover have "link_abs h b = contents h s @ link_abs h (ensureNotEmpty (dirtyEmptyHeads b2))"
      "minMallocSize (ensureNotEmpty (dirtyEmptyHeads b2)) = minMallocSize b" using e e2 en(2,4) dh(2,3) by simp_all
    ultimately show thesis using that en(1,3) by blast
  next
    case part
    obtain b2 s where d: "read_head n b1 = (b2, s)" by fastforce
    note rh = read_head_ok [OF conjunct1 [OF e] part(1) less_imp_le [OF part(2)] d]
    note en = ensureNotEmpty_ok [OF rh(1)]
    have "ReadN (int n) b = (ensureNotEmpty b2, Ok (s, n))"
      using part d by (simp add: ReadN_def b1_def Let_def)
    moreover have "contents h s \<noteq> [] \<or> n = 0" "length (contents h s) \<le> n" using rh(5) length_contents [OF rh(4)] by auto
    moreover have "link_abs h b = contents h s @ link_abs h (ensureNotEmpty b2)" "minMallocSize (ensureNotEmpty b2) = minMallocSize b"
      using e en(2,4) rh(2,3) by simp_all
    ultimately show thesis using that en(1,3) by blast
  qed
qed

context allocator
begin

lemma free_all_ok:
  assumes "ok a h" "\<forall>n \<in> set ds. n_release n \<noteq> None" "\<forall>v \<in> set (rels ds). token h v \<and> sl_blk v \<notin> avail a" "distinct (map sl_blk (rels ds))"
  shows "\<exists>a'. free_all A ds a = Ok a' \<and> ok a' h \<and> avail a' = avail a \<union> sl_blk ` set (rels ds)"
  using assms
proof (induction ds arbitrary: a)
  case (Cons n ds)
  then obtain v where v: "n_release n = Some v" by auto
  with Cons.prems free [of a h v] obtain a1 where f: "al_Free A (Some v) a = Ok a1" "ok a1 h" "avail a1 = insert (sl_blk v) (avail a)"
    by auto
  have "\<forall>w \<in> set (rels ds). token h w \<and> sl_blk w \<notin> avail a1" using Cons.prems(3,4) v f(3) by (auto simp: image_iff)
  with Cons.IH [OF f(2)] Cons.prems(2,4) v obtain a' where
    "free_all A ds a1 = Ok a'" "ok a' h" "avail a' = avail a1 \<union> sl_blk ` set (rels ds)" by auto
  with v f show ?case by auto
qed simp

lemma Release_ok:
  assumes "binv a h U held b"
  shows "\<exists>a'. Release A a b = Ok (a', b\<lparr>dirty := []\<rparr>) \<and> binv a' h U {} (b\<lparr>dirty := []\<rparr>)"
proof -
  have l: "link_inv (avail a) token h U held (chain b) (dirty b)" and ok: "ok a h" using assms by (simp_all add: buf_inv_def)
  have "\<forall>v \<in> set (rels (dirty b)). token h v \<and> sl_blk v \<notin> avail a"
    using link_invD(4,10) [OF l] by (auto simp: owned_def)
  moreover have "distinct (map sl_blk (rels (dirty b)))" using link_invD(5) [OF l] by simp
  ultimately obtain a' where f: "free_all A (dirty b) a = Ok a'" "ok a' h" "avail a' = avail a \<union> sl_blk ` set (rels (dirty b))"
    using free_all_ok [OF ok link_invD(3) [OF l]] by blast
  have own: "owned (chain b) (dirty b) = owned (chain b) [] \<union> sl_blk ` set (rels (dirty b))"
    and dis: "owned (chain b) [] \<inter> sl_blk ` set (rels (dirty b)) = {}" using link_invD(5) [OF l] by (auto simp: owned_def)
  have "shown_ok h U (owned (chain b) []) (n_bts n)" if "n \<in> set (chain b)" for n
    using link_invD(2) [OF l, of "n_bts n"] link_invD(7) [OF l _ that] that own by (fastforce simp: shown_ok_def refs_def)
  moreover have "frontier {} (chain b)" using frontier_mono [OF link_invD(8) [OF l]] by simp
  ultimately have "link_inv (avail a') token h U {} (chain b) []"
    using link_invD(1,4,5,6,9,10,11) [OF l] dis unfolding link_inv_def f(3) own by auto
  with f assms show ?thesis by (simp add: Release_def buf_inv_def)
qed

lemma lb_invI:
  assumes "lb_inv ok avail token max_size h0 U held (a, h, b)" "binv a' h' U (fst ` set held) b'" "kept U (fst ` set held) h h'"
  shows "lb_inv ok avail token max_size h0 U held (a', h', b')"
  using assms by (fastforce simp: lb_inv_def kept_def)

lemma lb_invI_read:
  assumes "lb_inv ok avail token max_size h0 U held (a, h, b)" "link_inv (avail a) token h U (fst ` set sds \<union> fst ` set held) (chain b') (dirty b')"
    "chain b' \<noteq> []" "minMallocSize b' = minMallocSize b" "\<forall>(s, d) \<in> set sds. d = contents h s"
  shows "lb_inv ok avail token max_size h0 U (sds @ held) (a, h, b')"
  using assms by (fastforce simp: lb_inv_def buf_inv_def image_Un)

lemma lb_step_ok:
  assumes I: "lb_inv ok avail token max_size h0 U held (a, h, b)" and op: "op_ok max_size h0 U op"
  shows "\<exists>a' h' b' out. lb_step A op (a, h, b) = Some ((a', h', b'), out)
    \<and> lb_inv ok avail token max_size h0 U (lb_held held op out) (a', h', b') \<and> lb_spec h0 op (link_abs h b) out (link_abs h' b')"
proof -
  have b: "binv a h U (fst ` set held) b" and h: "\<forall>u \<in> U. h ! u = h0 ! u" using I by (auto simp: lb_inv_def)
  have l: "link_inv (avail a) token h U (fst ` set held) (chain b) (dirty b)" using b by (simp add: buf_inv_def)
  have U: "U \<subseteq> {..<length h}" using link_invD(11) [OF l] by blast
  have us: "(\<forall>s \<in> set ss. user_slice h U s) \<and> concat (map (contents h) ss) = concat (map (contents h0) ss)" if "\<forall>s \<in> set ss. user_slice h0 U s" for ss
    using user_slice_now [OF _ U h] that by (auto intro!: arg_cong [of _ _ concat])
  show ?thesis
  proof (cases op)
    case (LWrite p)
    have "length p + full_tail b < length p + 2" by (simp add: full_tail_def)
    from Write_ok [OF b this] obtain a' h' b' where "Write A (length p + 2) p a h b = Some (Ok (a', h', b', length p))"
      "binv a' h' U (fst ` set held) b'" "kept U (fst ` set held) h h'" "link_abs h' b' = link_abs h b @ p" by blast
    with LWrite lb_invI [OF I] show ?thesis by simp
  next
    case (LAppend ss)
    with us op Append_ok [OF b, of ss] lb_invI [OF I] show ?thesis by simp
  next
    case (LPrepend ss)
    with us op Prepend_ok [OF b, of ss] lb_invI [OF I] show ?thesis by simp
  next
    case (LAlloc d)
    then have "0 < length d" "int (length d) \<le> max_size" using op by simp_all
    from Alloc_ok [OF b this] obtain a' h' b' s where "Alloc A (int (length d)) a h b = Ok (a', h', b', s)" "sl_len s = length d"
      "binv a' (poke (sl_blk s) (sl_off s) d h') U (fst ` set held) b'" "kept U (fst ` set held) h (poke (sl_blk s) (sl_off s) d h')"
      "link_abs (poke (sl_blk s) (sl_off s) d h') b' = link_abs h b @ d" by blast
    with LAlloc lb_invI [OF I] show ?thesis by simp
  next
    case (LPrelloc d)
    then have "0 < length d" "int (length d) \<le> max_size" using op by simp_all
    from Prelloc_ok [OF b this] obtain a' h' b' s where "Prelloc A (int (length d)) a h b = Ok (a', h', b', s)" "sl_len s = length d"
      "binv a' (poke (sl_blk s) (sl_off s) d h') U (fst ` set held) b'" "kept U (fst ` set held) h (poke (sl_blk s) (sl_off s) d h')"
      "link_abs (poke (sl_blk s) (sl_off s) d h') b' = d @ link_abs h b" by blast
    with LPrelloc lb_invI [OF I] show ?thesis by simp
  next
    case (LRead n)
    obtain b' d where r: "Read_loop h n b = (b', d)" by fastforce
    note rl = Read_loop_ok [OF l r]
    note en = ensureNotEmpty_ok [OF conjunct1 [OF rl]]
    have "binv a h U (fst ` set held) (ensureNotEmpty b')" using en b rl by (simp add: buf_inv_def)
    with lb_invI [OF I] LRead r rl en(2) I show ?thesis by (cases "n = 0") (auto simp: Read_def)
  next
    case (LReadN n)
    from ReadN_ok [OF l, of n] obtain b' s k where r: "ReadN (int n) b = (b', Ok (s, k))"
      "link_inv (avail a) token h U (insert s (fst ` set held)) (chain b') (dirty b')" "chain b' \<noteq> []"
      "minMallocSize b' = minMallocSize b" "link_abs h b = contents h s @ link_abs h b'" "length (contents h s) \<le> n"
      "contents h s = [] \<longrightarrow> n = 0 \<or> link_abs h b = []" by blast
    with lb_invI_read [OF I, of "[(s, contents h s)]" b'] LReadN show ?thesis by simp
  next
    case LReadAll
    obtain b' ss where r: "ReadAll_loop b = (b', ss)" by fastforce
    note ra = ReadAll_loop_ok [OF l r]
    note en = ensureNotEmpty_ok [OF conjunct1 [OF ra]]
    let ?sds = "map (\<lambda>s. (s, contents h s)) ss"
    have "link_abs h b' = []" using ra by (simp add: link_abs_def)
    moreover have "[] \<notin> snd ` set ?sds"
      using ra link_invD(2) [OF conjunct1 [OF ra]] length_contents [of h] by (fastforce simp: shown_ok_def)
    moreover have "fst ` set ?sds = set ss" "concat (map snd ?sds) = link_abs h b" using ra by (auto simp: image_image comp_def)
    ultimately show ?thesis
      using lb_invI_read [OF I, of ?sds "ensureNotEmpty b'"] en ra LReadAll r by (simp add: Buf_ReadAll_def)
  next
    case LReadNext
    obtain b' s where r: "ReadNext_loop b = (b', s)" by fastforce
    note rn = ReadNext_loop_ok [OF l r]
    note en = ensureNotEmpty_ok [OF conjunct1 [OF rn]]
    have "contents h s = [] \<longrightarrow> sl_len s = 0" using rn length_contents [of h s] by auto
    with en lb_invI_read [OF I, of "[(s, contents h s)]" "ensureNotEmpty b'"] LReadNext r rn show ?thesis
      by (simp add: ReadNext_def)
  next
    case LRelease
    from Release_ok [OF b] LRelease h show ?thesis by (auto simp: lb_inv_def link_abs_def)
  next
    case LLen
    with I Len_eq [OF l] show ?thesis by simp
  qed
qed

lemma lb_run_ok:
  assumes "lb_inv ok avail token max_size h0 U held (a, h, b)" "\<forall>op \<in> set ops. op_ok max_size h0 U op"
  shows "\<exists>a' h' b' outs. lb_run A ops (a, h, b) = Some ((a', h', b'), outs)
    \<and> lb_inv ok avail token max_size h0 U (lb_helds held ops outs) (a', h', b') \<and> lb_specs h0 ops (link_abs h b) outs (link_abs h' b')"
  using assms
proof (induction ops arbitrary: held a h b)
  case (Cons op ops)
  then have "op_ok max_size h0 U op" by simp
  from lb_step_ok [OF Cons.prems(1) this] obtain a1 h1 b1 out where s: "lb_step A op (a, h, b) = Some ((a1, h1, b1), out)"
    "lb_inv ok avail token max_size h0 U (lb_held held op out) (a1, h1, b1)" "lb_spec h0 op (link_abs h b) out (link_abs h1 b1)"
    by blast
  with Cons.IH [OF s(2)] Cons.prems(2) obtain a' h' b' outs where "lb_run A ops (a1, h1, b1) = Some ((a', h', b'), outs)"
    "lb_inv ok avail token max_size h0 U (lb_helds (lb_held held op out) ops outs) (a', h', b')"
    "lb_specs h0 ops (link_abs h1 b1) outs (link_abs h' b')" by auto
  with s show ?case by auto
qed simp

lemma NewBuf_inv:
  assumes "ok a h" "U \<union> avail a = {..<length h}" "U \<inter> avail a = {}" "0 < m" "m \<le> max_size"
  shows "lb_inv ok avail token max_size h U [] (a, h, NewBuf m)"
proof -
  have "link_inv (avail a) token h U {} [] []" using assms(2,3) by (auto simp: link_inv_def owned_def)
  then have "link_inv (avail a) token h U {} [newBytes nil_slice None] []"
    by (rule inv_prepend) (simp add: user_slice_def in_heap_def nil_slice_def)
  with assms show ?thesis by (simp add: lb_inv_def buf_inv_def NewBuf_def)
qed

lemma lb_refines:
  assumes "ok a h" "U \<union> avail a = {..<length h}" "U \<inter> avail a = {}" "0 < m" "m \<le> max_size" "\<forall>op \<in> set ops. op_ok max_size h U op"
  shows "\<exists>a' h' b' outs. lb_run A ops (a, h, NewBuf m) = Some ((a', h', b'), outs) \<and> lb_specs h ops [] outs (link_abs h' b')
    \<and> (\<forall>(s, d) \<in> set (lb_helds [] ops outs). contents h' s = d) \<and> (\<forall>u \<in> U. h' ! u = h ! u)"
proof -
  have "link_abs h (NewBuf m) = []" by (simp add: link_abs_def NewBuf_def newBytes_def nil_slice_def)
  with lb_run_ok [OF NewBuf_inv [OF assms(1-5)] assms(6)] show ?thesis by (auto simp: lb_inv_def)
qed

lemma lb_run_append: "lb_run A (ops @ ops') st =
    (case lb_run A ops st of None \<Rightarrow> None | Some (st, outs) \<Rightarrow> map_option (\<lambda>(st, outs'). (st, outs @ outs')) (lb_run A ops' st))"
  by (induction ops arbitrary: st) (auto simp: option.map_id split: option.split prod.split)

text \<open>When everything is read and released, the allocator has all blocks but the user's.\<close>

lemma lb_no_leak:
  assumes "ok a h" "U \<union> avail a = {..<length h}" "U \<inter> avail a = {}" "0 < m" "m \<le> max_size" "\<forall>op \<in> set ops. op_ok max_size h U op"
  shows "\<exists>a' h' b' outs. lb_run A (ops @ [LReadAll, LRelease]) (a, h, NewBuf m) = Some ((a', h', b'), outs)
    \<and> U \<union> avail a' = {..<length h'} \<and> U \<inter> avail a' = {}"
proof -
  from lb_run_ok [OF NewBuf_inv [OF assms(1-5)], of "ops @ [LReadAll, LRelease]"] assms(6)
  obtain a' h' b' outs held where r: "lb_run A (ops @ [LReadAll, LRelease]) (a, h, NewBuf m) = Some ((a', h', b'), outs)"
    "lb_inv ok avail token max_size h U held (a', h', b')" by auto
  obtain a1 h1 b1 outs1 where "lb_run A ops (a, h, NewBuf m) = Some ((a1, h1, b1), outs1)"
    using r(1) by (auto simp: lb_run_append split: option.splits)
  moreover obtain b2 ss where ra: "ReadAll_loop b1 = (b2, ss)" by fastforce
  ultimately have "chain b' = chain (ensureNotEmpty b2)" "dirty b' = []"
    using r(1) by (auto simp: lb_run_append Buf_ReadAll_def Release_def split: res.splits option.splits)
  moreover have "chain b2 = []" using ra by (rule ReadAll_loop_empty)
  ultimately have "owned (chain b') (dirty b') = {}" by (simp add: ensureNotEmpty_def newBytes_def)
  moreover have "link_inv (avail a') token h' U (fst ` set held) (chain b') (dirty b')" using r(2) by (simp add: lb_inv_def buf_inv_def)
  note link_invD(9,11) [OF this]
  ultimately show ?thesis using r(1) by auto
qed

end

subsection \<open>The buffer over the pooling allocator\<close>


definition lb_demo_heap :: heap where
  "lb_demo_heap = [[7, 8, 9]]"

definition lb_demo_ops :: "lb_op list" where
  "lb_demo_ops = [LWrite [1, 2, 3, 4, 5], LAppend [\<lparr>sl_blk = 0, sl_off = 1, sl_len = 2, sl_cap = 2\<rparr>], LPrelloc [6], LAlloc [3, 3],
     LReadN 1, LRead 3, LReadNext, LRelease, LLen]"

lemma lb_demo_start: "class_ok NewClassAllocator h" "class_avail NewClassAllocator = {}" "{..<length lb_demo_heap} = {0}"
  by (auto simp: class_ok_def class_avail_def NewClassAllocator_def maxPowerToRoundUpInt_def lb_demo_heap_def)

lemma lb_demo_ops_ok: "\<forall>op \<in> set lb_demo_ops. op_ok (2 ^ 62) lb_demo_heap {0} op"
  by (simp add: lb_demo_ops_def user_slice_def in_heap_def lb_demo_heap_def)




end
