(* ===== verification/Packet_Buffer.thy ===== *)
theory Packet_Buffer
  imports Byte_Alloc
begin

text \<open>
  The packet buffer (\<open>internal/packetbuffer\<close>) that lets a framer read a datagram piece by piece. The packet
  connection is an argument: \<open>ReadFrom n\<close> receives a packet into a buffer of \<open>n\<close> bytes and returns what it
  copied and the sender.
\<close>

record PacketBuffer =
  pb_buf :: go_slice
  pb_toBeFree :: go_slice
  pb_raddr :: "go_any option"
  pb_r :: nat
  pb_w :: nat

definition pb_New :: "'a Allocator \<Rightarrow> int \<Rightarrow> 'a \<Rightarrow> heap \<Rightarrow> (unit, 'a \<times> heap \<times> PacketBuffer) res" where
  "pb_New A n a h =
     (case al_Malloc A n a h of
        Ok (a, h, buf, i) \<Rightarrow> Ok (a, h, \<lparr>pb_buf = buf, pb_toBeFree = i, pb_raddr = None, pb_r = 0, pb_w = 0\<rparr>)
      | Err e \<Rightarrow> Err e
      | Panic \<Rightarrow> Panic)"

datatype pb_err = ConnErr string | PacketEOF | NotDrained nat

type_synonym 'c PacketConn = "nat \<Rightarrow> 'c \<Rightarrow> 'c \<times> (string, bytes \<times> go_any) res"

definition pb_window :: "PacketBuffer \<Rightarrow> go_slice" where
  "pb_window pb = \<lparr>sl_blk = sl_blk (pb_buf pb), sl_off = sl_off (pb_buf pb) + pb_r pb, sl_len = pb_w pb - pb_r pb, sl_cap = sl_cap (pb_buf pb) - pb_r pb\<rparr>"

definition pb_copy :: "nat \<Rightarrow> heap \<Rightarrow> PacketBuffer \<Rightarrow> PacketBuffer \<times> (pb_err, bytes) res" where
  "pb_copy len h pb =
     (if sl_cap (pb_buf pb) < pb_w pb \<or> pb_w pb < pb_r pb then (pb, Panic)
      else (let d = take len (contents h (pb_window pb))
            in if d = [] then (pb, Err PacketEOF) else (pb\<lparr>pb_r := pb_r pb + length d\<rparr>, Ok d)))"

definition pb_Read :: "'c PacketConn \<Rightarrow> nat \<Rightarrow> 'c \<Rightarrow> heap \<Rightarrow> PacketBuffer \<Rightarrow> 'c \<times> heap \<times> PacketBuffer \<times> (pb_err, bytes) res" where
  "pb_Read ReadFrom len c h pb =
     (if len = 0 then (c, h, pb, Ok [])
      else if pb_w pb = 0 then
        (case ReadFrom (sl_len (pb_buf pb)) c of
           (c, Err e) \<Rightarrow> (c, h, pb, Err (ConnErr e))
         | (c, Panic) \<Rightarrow> (c, h, pb, Panic)
         | (c, Ok (d, raddr)) \<Rightarrow>
             (let h = poke (sl_blk (pb_buf pb)) (sl_off (pb_buf pb)) d h;
                  (pb, r) = pb_copy len h (pb\<lparr>pb_w := length d, pb_raddr := Some raddr\<rparr>)
              in (c, h, pb, r)))
      else (let (pb, r) = pb_copy len h pb in (c, h, pb, r)))"

definition pb_Next :: "PacketBuffer \<Rightarrow> PacketBuffer \<times> (pb_err, unit) res" where
  "pb_Next pb =
     (if pb_w pb = 0 then (pb, Ok ())
      else (pb\<lparr>pb_r := 0, pb_w := 0, pb_raddr := None\<rparr>, if pb_w pb - pb_r pb \<noteq> 0 then Err (NotDrained (pb_w pb - pb_r pb)) else Ok ()))"

definition CurrentPacketAddr :: "PacketBuffer \<Rightarrow> go_any option" where
  "CurrentPacketAddr pb = pb_raddr pb"

definition pb_Close :: "'a Allocator \<Rightarrow> PacketBuffer \<Rightarrow> 'a \<Rightarrow> (unit, 'a) res" where
  "pb_Close A pb a = al_Free A (Some (pb_toBeFree pb)) a"

subsection \<open>Reading a packet piece by piece\<close>

fun pb_reads :: "'c PacketConn \<Rightarrow> nat list \<Rightarrow> 'c \<Rightarrow> heap \<Rightarrow> PacketBuffer \<Rightarrow> 'c \<times> heap \<times> PacketBuffer \<times> (pb_err, bytes) res list" where
  "pb_reads ReadFrom [] c h pb = (c, h, pb, [])"
| "pb_reads ReadFrom (len # lens) c h pb =
     (case pb_Read ReadFrom len c h pb of (c, h, pb, r) \<Rightarrow>
        (case pb_reads ReadFrom lens c h pb of (c, h, pb, rs) \<Rightarrow> (c, h, pb, r # rs)))"

text \<open>What the reads of a packet return.\<close>

fun packet_reads :: "nat list \<Rightarrow> bytes \<Rightarrow> (pb_err, bytes) res list" where
  "packet_reads [] d = []"
| "packet_reads (len # lens) d = (if len = 0 then Ok [] else if d = [] then Err PacketEOF else Ok (take len d)) # packet_reads lens (drop len d)"

text \<open>A buffer that holds the packet of which \<open>d\<close> is still unread.\<close>

definition pb_holds :: "heap \<Rightarrow> PacketBuffer \<Rightarrow> bytes \<Rightarrow> bool" where
  "pb_holds h pb d \<longleftrightarrow> 0 < pb_w pb \<and> pb_r pb \<le> pb_w pb \<and> pb_w pb \<le> sl_cap (pb_buf pb)
     \<and> contents h (pb_window pb) = d \<and> length d = pb_w pb - pb_r pb"

lemma pb_copy_holds:
  assumes "pb_holds h pb d" "0 < len"
  shows "\<exists>pb'. pb_copy len h pb = (pb', if d = [] then Err PacketEOF else Ok (take len d)) \<and> pb_holds h pb' (drop len d)
    \<and> pb_buf pb' = pb_buf pb \<and> pb_toBeFree pb' = pb_toBeFree pb \<and> pb_raddr pb' = pb_raddr pb \<and> pb_w pb' = pb_w pb"
proof (cases "d = []")
  case True
  with assms show ?thesis by (simp add: pb_copy_def pb_holds_def)
next
  case False
  let ?pb = "pb\<lparr>pb_r := pb_r pb + length (take len d)\<rparr>"
  have "contents h (pb_window ?pb) = drop len d"
    using assms(1) unfolding pb_holds_def pb_window_def contents_def
    by (auto simp: min_def drop_take add.commute add.left_commute intro!: arg_cong2 [of _ _ _ _ take])
  with False assms show ?thesis by (auto simp: pb_copy_def pb_holds_def Let_def min_def)
qed

lemma pb_reads_holds:
  assumes "pb_holds h pb d"
  shows "\<exists>pb'. pb_reads ReadFrom lens c h pb = (c, h, pb', packet_reads lens d) \<and> pb_holds h pb' (drop (sum_list lens) d)
    \<and> pb_buf pb' = pb_buf pb \<and> pb_toBeFree pb' = pb_toBeFree pb \<and> pb_raddr pb' = pb_raddr pb \<and> pb_w pb' = pb_w pb"
  using assms
proof (induction lens arbitrary: pb d)
  case (Cons len lens)
  show ?case
  proof (cases "len = 0")
    case True
    with Cons.IH [OF Cons.prems] show ?thesis by (auto simp: pb_Read_def)
  next
    case False
    with pb_copy_holds [OF Cons.prems, of len] obtain pb1 where p:
      "pb_copy len h pb = (pb1, if d = [] then Err PacketEOF else Ok (take len d))" "pb_holds h pb1 (drop len d)"
      "pb_buf pb1 = pb_buf pb" "pb_toBeFree pb1 = pb_toBeFree pb" "pb_raddr pb1 = pb_raddr pb" "pb_w pb1 = pb_w pb" by auto
    have "pb_Read ReadFrom len c h pb = (c, h, pb1, if d = [] then Err PacketEOF else Ok (take len d))"
      using False p(1) Cons.prems by (simp add: pb_Read_def pb_holds_def)
    moreover from Cons.IH [OF p(2)] obtain pb' where "pb_reads ReadFrom lens c h pb1 = (c, h, pb', packet_reads lens (drop len d))"
      "pb_holds h pb' (drop (sum_list (len # lens)) d)" "pb_buf pb' = pb_buf pb" "pb_toBeFree pb' = pb_toBeFree pb"
      "pb_raddr pb' = pb_raddr pb" "pb_w pb' = pb_w pb" by (auto simp: p add.commute)
    ultimately show ?thesis using False by simp
  qed
qed simp

definition pb_fresh :: "heap \<Rightarrow> PacketBuffer \<Rightarrow> bool" where
  "pb_fresh h pb \<longleftrightarrow> pb_r pb = 0 \<and> pb_w pb = 0 \<and> pb_raddr pb = None \<and> sl_blk (pb_buf pb) < length h
     \<and> sl_len (pb_buf pb) \<le> sl_cap (pb_buf pb) \<and> sl_off (pb_buf pb) + sl_cap (pb_buf pb) \<le> length (h ! sl_blk (pb_buf pb))"

lemma pb_New_fresh:
  assumes "class_ok p h" "0 < n" "n \<le> 2 ^ 62"
  shows "\<exists>p' h' pb. pb_New (class_allocator pick) n p h = Ok (p', h', pb) \<and> pb_fresh h' pb \<and> sl_len (pb_buf pb) = nat n \<and> class_ok p' h'"
proof -
  obtain p' h' s v where m: "al_Malloc (class_allocator pick) n p h = Ok (p', h', s, v)" "class_ok p' h'"
    "sl_off s = 0" "sl_len s = nat n" "sl_len s \<le> sl_cap s" "sl_cap s = length (h' ! sl_blk s)" "sl_blk v = sl_blk s" "class_token h' v"
    using ca.malloc [OF assms, of pick] by blast
  with ca.token_heap [OF m(8)] show ?thesis by (simp add: pb_New_def pb_fresh_def)
qed

text \<open>a packet is read piece by piece and never mixed with the next. After \<open>New\<close> or \<open>Next\<close>, reads of any
  lengths of which the first is not empty receive one packet and return its bytes in order, then \<open>io.EOF\<close>,
  without receiving again; \<open>CurrentPacketAddr\<close> is its sender; and \<open>Next\<close> reports exactly the bytes that were
  not read and prepares the buffer for the next packet. The packet must not be empty.\<close>

theorem packet_read_whole:
  assumes "pb_fresh h pb" "ReadFrom (sl_len (pb_buf pb)) c = (c', Ok (d, addr))" "d \<noteq> []" "length d \<le> sl_len (pb_buf pb)" "0 < len"
  shows "\<exists>h' pb'. pb_reads ReadFrom (len # lens) c h pb = (c', h', pb', packet_reads (len # lens) d)
    \<and> CurrentPacketAddr pb' = Some addr \<and> fst (pb_Next pb') = pb \<and> pb_fresh h' pb
    \<and> snd (pb_Next pb') = (let k = length d - sum_list (len # lens) in if k = 0 then Ok () else Err (NotDrained k))"
proof -
  let ?b = "pb_buf pb" and ?pb = "pb\<lparr>pb_w := length d, pb_raddr := Some addr\<rparr>"
  let ?h = "poke (sl_blk ?b) (sl_off ?b) d h"
  have b: "sl_blk ?b < length h" "sl_off ?b + length d \<le> length (h ! sl_blk ?b)" using assms(1,4) by (auto simp: pb_fresh_def)
  have "contents ?h (pb_window ?pb) = d"
    using contents_poke_end [of "sl_blk ?b" h "sl_off ?b" 0 d "sl_cap ?b" 0] b assms(1)
    by (simp add: pb_window_def pb_fresh_def contents_def)
  then have holds: "pb_holds ?h ?pb d" using assms by (auto simp: pb_holds_def pb_fresh_def)
  obtain pb' where r: "pb_reads ReadFrom (len # lens) c' ?h ?pb = (c', ?h, pb', packet_reads (len # lens) d)"
    "pb_holds ?h pb' (drop (sum_list (len # lens)) d)" "pb_buf pb' = ?b" "pb_toBeFree pb' = pb_toBeFree pb" "pb_raddr pb' = Some addr" "pb_w pb' = length d"
    using pb_reads_holds [OF holds, of ReadFrom "len # lens" c'] by auto
  have "pb_Read ReadFrom len c h pb = pb_Read ReadFrom len c' ?h ?pb"
    using assms by (simp add: pb_Read_def pb_fresh_def Let_def case_prod_unfold)
  then have "pb_reads ReadFrom (len # lens) c h pb = (c', ?h, pb', packet_reads (len # lens) d)" using r(1) by simp
  moreover have "pb_fresh ?h pb" using assms(1) b(2) by (simp add: pb_fresh_def length_nth_poke)
  moreover have "fst (pb_Next pb') = pb" using r(3-6) assms(1,3) by (cases pb, cases pb') (simp add: pb_Next_def pb_fresh_def)
  moreover have "pb_w pb' - pb_r pb' = length d - sum_list (len # lens)" using r(2) by (simp add: pb_holds_def)
  then have "snd (pb_Next pb') = (let k = length d - sum_list (len # lens) in if k = 0 then Ok () else Err (NotDrained k))"
    using r(6) assms(3) by (simp add: pb_Next_def Let_def)
  ultimately show ?thesis using r(5) by (auto simp: CurrentPacketAddr_def)
qed

text \<open>An empty packet ends with \<open>io.EOF\<close> as well, but the read after it receives the next packet without \<open>Next\<close>.\<close>

lemma empty_packet_read_across:
  assumes "pb_fresh h pb" "ReadFrom (sl_len (pb_buf pb)) c = (c1, Ok ([], addr))" "0 < len"
    and "ReadFrom (sl_len (pb_buf pb)) c1 = (c2, Err e)"
  shows "\<exists>h' pb'. pb_reads ReadFrom [len, len] c h pb = (c2, h', pb', [Err PacketEOF, Err (ConnErr e)])"
  using assms by (simp add: pb_Read_def pb_copy_def pb_window_def contents_def pb_fresh_def Let_def)

definition pb_demo :: PacketBuffer where
  "pb_demo = \<lparr>pb_buf = \<lparr>sl_blk = 0, sl_off = 0, sl_len = 4, sl_cap = 4\<rparr>, pb_toBeFree = \<lparr>sl_blk = 0, sl_off = 0, sl_len = 4, sl_cap = 4\<rparr>,
     pb_raddr = None, pb_r = 0, pb_w = 0\<rparr>"

theorem packet_read_whole_witness:
  "pb_fresh [[0, 0, 0, 0]] pb_demo
   \<and> (\<exists>h' pb'. pb_reads (\<lambda>n c. (c + 1, Ok ([1, 2, 3], 9))) [2, 5, 1] (0 :: nat) [[0, 0, 0, 0]] pb_demo
       = (1, h', pb', [Ok [1, 2], Ok [3], Err PacketEOF]) \<and> CurrentPacketAddr pb' = Some 9 \<and> snd (pb_Next pb') = Ok ())"
proof -
  have f: "pb_fresh [[0, 0, 0, 0]] pb_demo" by (simp add: pb_fresh_def pb_demo_def)
  have "\<exists>h' pb'. pb_reads (\<lambda>n c. (c + 1, Ok ([1, 2, 3], 9))) (2 # [5, 1]) (0 :: nat) [[0, 0, 0, 0]] pb_demo
       = (1, h', pb', packet_reads (2 # [5, 1]) [1, 2, 3]) \<and> CurrentPacketAddr pb' = Some 9 \<and> fst (pb_Next pb') = pb_demo \<and> pb_fresh h' pb_demo
     \<and> snd (pb_Next pb') = (let k = length [1, 2, 3 :: byte] - sum_list (2 # [5, 1]) in if k = 0 then Ok () else Err (NotDrained k))"
    by (rule packet_read_whole [OF f]) (simp_all add: pb_demo_def)
  with f show ?thesis by (auto simp: Let_def)
qed

end
