(* ===== verification/Keep_Order.thy ===== *)
theory Keep_Order
  imports Go_Prelude "HOL-Library.Sublist"
begin

text \<open>
  Keeping requests in order by key (\<open>internal/keeporder/actor\<close>): one actor per key runs the functions that are
  added for the key, one after the other, and goes away when it has been idle for some time. Goroutines
  that call \<open>Add\<close>, \<open>Remove\<close> and \<open>Stop\<close> and the goroutines of the actors are steps of a transition system, one step
  per locked section, channel operation or timer event; any order of steps is a run. Functions are
  numbers. The two logs of what was sent to and taken from the channels are ghost state.
\<close>

subsection \<open>Actors\<close>

datatype actor_pc = Selecting | Running go_any | Returning | Gone

record Actor =
  ac_key :: string
  ac_jobs :: "go_any list"
  ac_cap :: nat
  ac_closed :: bool
  ac_idleGroupTimeout :: int
  ac_pc :: actor_pc

record ActorOptions =
  IdleGroupTimeout :: int
  MaxElementCount :: nat

definition defaultIdleGroupTimeout :: int where
  "defaultIdleGroupTimeout = 30000000000"

definition defaultMaxElementCount :: nat where
  "defaultMaxElementCount = 1024"

definition fixDefault :: "ActorOptions \<Rightarrow> ActorOptions" where
  "fixDefault opts =
     (let opts = (if IdleGroupTimeout opts = 0 then opts\<lparr>IdleGroupTimeout := defaultIdleGroupTimeout\<rparr> else opts)
      in if MaxElementCount opts = 0 then opts\<lparr>MaxElementCount := defaultMaxElementCount\<rparr> else opts)"

definition NewActor :: "string \<Rightarrow> ActorOptions option \<Rightarrow> Actor" where
  "NewActor key opts =
     (let opts = fixDefault (case opts of None \<Rightarrow> \<lparr>IdleGroupTimeout = 0, MaxElementCount = 0\<rparr> | Some opts \<Rightarrow> opts)
      in \<lparr>ac_key = key, ac_jobs = [], ac_cap = MaxElementCount opts, ac_closed = False,
          ac_idleGroupTimeout = IdleGroupTimeout opts, ac_pc = Selecting\<rparr>)"

text \<open>The actors by number, the map from keys to actors, and how far the callers have come.\<close>

datatype caller_pc = PCreate string go_any | PSend nat go_any | PStop nat

record Actors =
  as_map :: "string \<Rightarrow> nat option"
  as_actors :: "Actor list"
  as_callers :: "nat \<Rightarrow> caller_pc option"
  as_panicked :: bool
  as_sent :: "(nat \<times> go_any) list"
  as_taken :: "(nat \<times> go_any) list"

definition NewActors :: Actors where
  "NewActors = \<lparr>as_map = Map.empty, as_actors = [], as_callers = Map.empty, as_panicked = False, as_sent = [], as_taken = []\<rparr>"

definition set_actor :: "nat \<Rightarrow> (Actor \<Rightarrow> Actor) \<Rightarrow> Actors \<Rightarrow> Actors" where
  "set_actor a f st = st\<lparr>as_actors := (as_actors st)[a := f (as_actors st ! a)]\<rparr>"

definition set_caller :: "nat \<Rightarrow> caller_pc option \<Rightarrow> Actors \<Rightarrow> Actors" where
  "set_caller t pc st = st\<lparr>as_callers := (as_callers st)(t := pc)\<rparr>"

text \<open>\<open>Add\<close>: the lookup under the read lock, the second one under the write lock, and the send to the channel,
  which blocks (\<open>None\<close>) when the channel is full and panics when it is closed.\<close>

definition Add_lookup :: "nat \<Rightarrow> string \<Rightarrow> go_any \<Rightarrow> Actors \<Rightarrow> Actors" where
  "Add_lookup t key fn st =
     set_caller t (Some (case as_map st key of Some a \<Rightarrow> PSend a fn | None \<Rightarrow> PCreate key fn)) st"

definition Add_create :: "nat \<Rightarrow> string \<Rightarrow> go_any \<Rightarrow> Actors \<Rightarrow> Actors" where
  "Add_create t key fn st =
     (case as_map st key of
        Some a \<Rightarrow> set_caller t (Some (PSend a fn)) st
      | None \<Rightarrow>
          (let a = length (as_actors st)
           in set_caller t (Some (PSend a fn))
                (st\<lparr>as_actors := as_actors st @ [NewActor key None], as_map := (as_map st)(key \<mapsto> a)\<rparr>)))"

definition Actor_Add :: "nat \<Rightarrow> nat \<Rightarrow> go_any \<Rightarrow> Actors \<Rightarrow> Actors option" where
  "Actor_Add t a fn st =
     (let ac = as_actors st ! a
      in if ac_closed ac then Some (set_caller t None (st\<lparr>as_panicked := True\<rparr>))
         else if length (ac_jobs ac) < ac_cap ac then
           Some (set_caller t None (set_actor a (\<lambda>ac. ac\<lparr>ac_jobs := ac_jobs ac @ [fn]\<rparr>) (st\<lparr>as_sent := as_sent st @ [(a, fn)]\<rparr>)))
         else None)"

definition Actor_Stop :: "nat \<Rightarrow> Actors \<Rightarrow> Actors" where
  "Actor_Stop a st = set_actor a (\<lambda>ac. ac\<lparr>ac_closed := True\<rparr>) st"

definition Remove_lookup :: "nat \<Rightarrow> string \<Rightarrow> Actors \<Rightarrow> Actors" where
  "Remove_lookup t key st = (case as_map st key of Some a \<Rightarrow> set_caller t (Some (PStop a)) st | None \<Rightarrow> st)"

definition Actors_Stop :: "Actors \<Rightarrow> Actors" where
  "Actors_Stop st = st\<lparr>as_actors := map (\<lambda>(i, ac). if as_map st (ac_key ac) = Some i then ac\<lparr>ac_closed := True\<rparr> else ac)
     (enumerate 0 (as_actors st))\<rparr>"

text \<open>The loop of an actor: the two branches of its \<open>select\<close>, the end of a function, and the deferred cleanup.\<close>

definition actor_receive :: "nat \<Rightarrow> Actors \<Rightarrow> Actors option" where
  "actor_receive a st =
     (let ac = as_actors st ! a
      in if ac_pc ac \<noteq> Selecting then None
         else case ac_jobs ac of
             fn # fns \<Rightarrow> Some (set_actor a (\<lambda>ac. ac\<lparr>ac_jobs := fns, ac_pc := Running fn\<rparr>) (st\<lparr>as_taken := as_taken st @ [(a, fn)]\<rparr>))
           | [] \<Rightarrow> if ac_closed ac then Some (set_actor a (\<lambda>ac. ac\<lparr>ac_pc := Returning\<rparr>) st) else None)"

definition actor_timeout :: "nat \<Rightarrow> Actors \<Rightarrow> Actors option" where
  "actor_timeout a st =
     (if ac_pc (as_actors st ! a) = Selecting then Some (set_actor a (\<lambda>ac. ac\<lparr>ac_pc := Returning\<rparr>) st) else None)"

definition actor_finish :: "nat \<Rightarrow> Actors \<Rightarrow> Actors option" where
  "actor_finish a st =
     (case ac_pc (as_actors st ! a) of Running fn \<Rightarrow> Some (set_actor a (\<lambda>ac. ac\<lparr>ac_pc := Selecting\<rparr>) st) | _ \<Rightarrow> None)"

definition actor_cleanup :: "nat \<Rightarrow> Actors \<Rightarrow> Actors option" where
  "actor_cleanup a st =
     (if ac_pc (as_actors st ! a) = Returning
      then Some ((set_actor a (\<lambda>ac. ac\<lparr>ac_pc := Gone\<rparr>) st)\<lparr>as_map := (as_map st)(ac_key (as_actors st ! a) := None)\<rparr>)
      else None)"

subsection \<open>Runs\<close>

datatype act = BeginAdd nat string go_any | BeginRemove nat string | Continue nat | StopAll
  | Receive nat | Timeout nat | Finish nat | Cleanup nat

definition act_step :: "act \<Rightarrow> Actors \<Rightarrow> Actors option" where
  "act_step x st =
     (if as_panicked st then None
      else case x of
        BeginAdd t key fn \<Rightarrow> if as_callers st t = None then Some (Add_lookup t key fn st) else None
      | BeginRemove t key \<Rightarrow> if as_callers st t = None then Some (Remove_lookup t key st) else None
      | Continue t \<Rightarrow>
          (case as_callers st t of
             None \<Rightarrow> None
           | Some (PCreate key fn) \<Rightarrow> Some (Add_create t key fn st)
           | Some (PSend a fn) \<Rightarrow> Actor_Add t a fn st
           | Some (PStop a) \<Rightarrow> Some (set_caller t None (Actor_Stop a st)))
      | StopAll \<Rightarrow> Some (Actors_Stop st)
      | Receive a \<Rightarrow> if a < length (as_actors st) then actor_receive a st else None
      | Timeout a \<Rightarrow> if a < length (as_actors st) then actor_timeout a st else None
      | Finish a \<Rightarrow> if a < length (as_actors st) then actor_finish a st else None
      | Cleanup a \<Rightarrow> if a < length (as_actors st) then actor_cleanup a st else None)"

fun act_run :: "act list \<Rightarrow> Actors \<Rightarrow> Actors option" where
  "act_run [] st = Some st"
| "act_run (x # xs) st = (case act_step x st of None \<Rightarrow> None | Some st \<Rightarrow> act_run xs st)"

text \<open>What was sent and taken for a key, and what waits in the channel of its actor.\<close>

definition of_key :: "string \<Rightarrow> Actors \<Rightarrow> (nat \<times> go_any) list \<Rightarrow> go_any list" where
  "of_key k st xs = map snd (filter (\<lambda>x. ac_key (as_actors st ! fst x) = k) xs)"

definition waiting_jobs :: "string \<Rightarrow> Actors \<Rightarrow> go_any list" where
  "waiting_jobs k st = (case as_map st k of None \<Rightarrow> [] | Some a \<Rightarrow> ac_jobs (as_actors st ! a))"

subsection \<open>One actor per key\<close>

definition actors_ok :: "Actors \<Rightarrow> bool" where
  "actors_ok st \<longleftrightarrow> (\<forall>k a. as_map st k = Some a \<longrightarrow> a < length (as_actors st) \<and> ac_key (as_actors st ! a) = k \<and> ac_pc (as_actors st ! a) \<noteq> Gone)
     \<and> (\<forall>a < length (as_actors st). ac_pc (as_actors st ! a) \<noteq> Gone \<longrightarrow> as_map st (ac_key (as_actors st ! a)) = Some a)
     \<and> (\<forall>t a fn. as_callers st t = Some (PSend a fn) \<or> as_callers st t = Some (PStop a) \<longrightarrow> a < length (as_actors st))
     \<and> (\<forall>x \<in> set (as_sent st) \<union> set (as_taken st). fst x < length (as_actors st))"

lemma actors_okD:
  assumes "actors_ok st"
  shows "as_map st k = Some a \<Longrightarrow> a < length (as_actors st) \<and> ac_key (as_actors st ! a) = k \<and> ac_pc (as_actors st ! a) \<noteq> Gone"
    "a < length (as_actors st) \<Longrightarrow> ac_pc (as_actors st ! a) \<noteq> Gone \<Longrightarrow> as_map st (ac_key (as_actors st ! a)) = Some a"
    "as_callers st t = Some (PSend a fn) \<Longrightarrow> a < length (as_actors st)" "as_callers st t = Some (PStop a) \<Longrightarrow> a < length (as_actors st)"
    "x \<in> set (as_sent st) \<Longrightarrow> fst x < length (as_actors st)" "x \<in> set (as_taken st) \<Longrightarrow> fst x < length (as_actors st)"
  using assms unfolding actors_ok_def by blast+

text \<open>How the jobs of a key change in a step: not at all, by one that is sent to the actor of the key or to
  an actor that has gone, or by those that wait when the actor goes.\<close>

inductive key_step :: "go_any list \<Rightarrow> go_any list \<Rightarrow> go_any list \<Rightarrow> go_any list \<Rightarrow> bool \<Rightarrow> bool" where
  same: "key_step ls ss ls ss lost"
| sent: "key_step ls ss (ls @ [fn]) (ss @ [fn]) lost"
| late: "key_step ls ss ls (ss @ [fn]) True"
| gone: "key_step (ls @ w) ss ls ss True"

definition key_log :: "string \<Rightarrow> Actors \<Rightarrow> go_any list" where
  "key_log k st = of_key k st (as_taken st) @ waiting_jobs k st"

definition tidy :: "Actors \<Rightarrow> bool" where
  "tidy st \<longleftrightarrow> (\<forall>a < length (as_actors st). ac_pc (as_actors st ! a) \<in> {Returning, Gone} \<longrightarrow>
     ac_closed (as_actors st ! a) \<and> ac_jobs (as_actors st ! a) = [])"

lemma set_caller_simps [simp]:
  "as_map (set_caller t pc st) = as_map st" "as_actors (set_caller t pc st) = as_actors st" "as_sent (set_caller t pc st) = as_sent st"
  "as_taken (set_caller t pc st) = as_taken st" "as_callers (set_caller t pc st) = (as_callers st)(t := pc)"
  "as_panicked (set_caller t pc st) = as_panicked st"
  by (simp_all add: set_caller_def)

lemma set_actor_simps [simp]:
  "as_map (set_actor a f st) = as_map st" "as_sent (set_actor a f st) = as_sent st" "as_taken (set_actor a f st) = as_taken st"
  "as_callers (set_actor a f st) = as_callers st" "length (as_actors (set_actor a f st)) = length (as_actors st)"
  "as_panicked (set_actor a f st) = as_panicked st"
  by (simp_all add: set_actor_def)

lemma nth_set_actor:
  "b < length (as_actors st) \<Longrightarrow> as_actors (set_actor a f st) ! b = (if b = a then f (as_actors st ! a) else as_actors st ! b)"
  by (simp add: set_actor_def nth_list_update)

lemma of_key_cong:
  assumes "\<forall>x \<in> set xs. ac_key (as_actors st' ! fst x) = ac_key (as_actors st ! fst x)"
  shows "of_key k st' xs = of_key k st xs"
  unfolding of_key_def using assms by (auto intro!: arg_cong [of _ _ "map snd"] filter_cong)

lemma of_key_snoc [simp]:
  "of_key k st (xs @ [(a, fn)]) = of_key k st xs @ (if ac_key (as_actors st ! a) = k then [fn] else [])"
  by (simp add: of_key_def)

text \<open>Steps that change nothing but the flags of actors.\<close>

lemma quiet_step:
  assumes "actors_ok st" "as_map st' = as_map st" "length (as_actors st') = length (as_actors st)" "as_sent st' = as_sent st" "as_taken st' = as_taken st"
    and "\<forall>a < length (as_actors st). ac_key (as_actors st' ! a) = ac_key (as_actors st ! a) \<and> ac_jobs (as_actors st' ! a) = ac_jobs (as_actors st ! a)"
  shows "key_log k st' = key_log k st" "of_key k st' (as_sent st') = of_key k st (as_sent st)"
proof -
  have "of_key k st' (as_taken st) = of_key k st (as_taken st)" "of_key k st' (as_sent st) = of_key k st (as_sent st)"
    using actors_okD(5,6) [OF assms(1)] assms(6) by (simp_all add: of_key_cong)
  moreover have "waiting_jobs k st' = waiting_jobs k st"
    using actors_okD(1) [OF assms(1)] assms(2,6) by (simp add: waiting_jobs_def split: option.split)
  ultimately show "key_log k st' = key_log k st" "of_key k st' (as_sent st') = of_key k st (as_sent st)"
    by (simp_all add: key_log_def assms(4,5))
qed

lemma quiet_ok:
  assumes "actors_ok st" "as_map st' = as_map st" "length (as_actors st') = length (as_actors st)" "as_sent st' = as_sent st" "as_taken st' = as_taken st"
    and "\<forall>a < length (as_actors st). ac_key (as_actors st' ! a) = ac_key (as_actors st ! a) \<and> (ac_pc (as_actors st' ! a) = Gone \<longleftrightarrow> ac_pc (as_actors st ! a) = Gone)"
    and "\<forall>t a fn. as_callers st' t = Some (PSend a fn) \<or> as_callers st' t = Some (PStop a) \<longrightarrow> a < length (as_actors st)"
  shows "actors_ok st'"
proof -
  have kp: "ac_key (as_actors st' ! a) = ac_key (as_actors st ! a)" "ac_pc (as_actors st' ! a) = Gone \<longleftrightarrow> ac_pc (as_actors st ! a) = Gone"
    if "a < length (as_actors st)" for a using assms(6) that by blast+
  have "\<forall>k a. as_map st k = Some a \<longrightarrow> a < length (as_actors st) \<and> ac_key (as_actors st' ! a) = k \<and> ac_pc (as_actors st' ! a) \<noteq> Gone"
    using actors_okD(1) [OF assms(1)] kp by simp
  moreover have "\<forall>a < length (as_actors st). ac_pc (as_actors st' ! a) \<noteq> Gone \<longrightarrow> as_map st (ac_key (as_actors st' ! a)) = Some a"
    using actors_okD(2) [OF assms(1)] kp by simp
  moreover have "\<forall>x \<in> set (as_sent st) \<union> set (as_taken st). fst x < length (as_actors st)"
    using actors_okD(5,6) [OF assms(1)] by blast
  ultimately show ?thesis using assms(7) unfolding actors_ok_def assms(2-5) by blast
qed

lemma callers_ok:
  assumes "actors_ok st" "pc \<in> {None, Some (PCreate key fn)} \<or> (\<exists>a < length (as_actors st). pc = Some (PSend a fn) \<or> pc = Some (PStop a))"
  shows "\<forall>t' a fn. ((as_callers st)(t := pc)) t' = Some (PSend a fn) \<or> ((as_callers st)(t := pc)) t' = Some (PStop a) \<longrightarrow> a < length (as_actors st)"
  using actors_okD(3,4) [OF assms(1)] assms(2) by (auto split: if_splits)

text \<open>The send.\<close>

lemma Actor_Add_ok:
  assumes ok: "actors_ok st" and a: "a < length (as_actors st)" and st': "Actor_Add t a fn st = Some st'"
  shows "actors_ok st' \<and> key_step (key_log k st) (of_key k st (as_sent st)) (key_log k st') (of_key k st' (as_sent st')) (\<not> tidy st)
    \<and> (tidy st \<longrightarrow> tidy st')"
proof (cases "ac_closed (as_actors st ! a)")
  case True
  then have e: "st' = set_caller t None (st\<lparr>as_panicked := True\<rparr>)" using st' by (simp add: Actor_Add_def Let_def)
  have "actors_ok st'" by (rule quiet_ok [OF ok]) (use callers_ok [OF ok, of None] in \<open>simp_all add: e\<close>)
  moreover have "key_log k st' = key_log k st \<and> of_key k st' (as_sent st') = of_key k st (as_sent st)"
    using quiet_step [OF ok, of st' k] by (simp add: e)
  ultimately show ?thesis by (auto simp: e tidy_def intro: key_step.same)
next
  case False
  let ?st = "set_actor a (\<lambda>ac. ac\<lparr>ac_jobs := ac_jobs ac @ [fn]\<rparr>) st"
  have e: "st' = set_caller t None ?st\<lparr>as_sent := as_sent st @ [(a, fn)]\<rparr>"
    using False st' by (cases st) (auto simp: Actor_Add_def Let_def set_actor_def set_caller_def split: if_splits)
  have key: "ac_key (as_actors ?st ! b) = ac_key (as_actors st ! b)" for b
    using a by (cases "b = a") (simp_all add: set_actor_def)
  have "actors_ok (set_caller t None ?st)"
    by (rule quiet_ok [OF ok]) (use callers_ok [OF ok, of None] in \<open>auto simp: nth_set_actor\<close>)
  then have ok': "actors_ok st'" using a by (simp add: e actors_ok_def)
  have logs: "of_key k st' (as_sent st') = of_key k st (as_sent st) @ (if ac_key (as_actors st ! a) = k then [fn] else [])"
    "of_key k st' (as_taken st') = of_key k st (as_taken st)"
    unfolding e by (simp_all add: of_key_def key)
  have wait: "waiting_jobs k st' = waiting_jobs k st @ (if as_map st k = Some a then [fn] else [])"
    unfolding e using actors_okD(1) [OF ok] by (auto simp: waiting_jobs_def nth_set_actor split: option.split)
  have tidy: "tidy st \<Longrightarrow> ac_pc (as_actors st ! a) \<noteq> Gone \<and> tidy st'"
    using False a by (auto simp: tidy_def e nth_set_actor)
  show ?thesis
  proof (cases "ac_key (as_actors st ! a) = k")
    case True
    show ?thesis
    proof (cases "as_map st k = Some a")
      case True
      then show ?thesis using \<open>ac_key _ = k\<close> ok' logs wait tidy by (auto simp: key_log_def simp flip: append_assoc intro: key_step.sent)
    next
      case False
      then have "\<not> tidy st" using tidy actors_okD(2) [OF ok a] True by auto
      then show ?thesis using False True ok' logs wait by (auto simp: key_log_def intro: key_step.late)
    qed
  next
    case False
    then have "as_map st k \<noteq> Some a" using actors_okD(1) [OF ok] by blast
    then show ?thesis using False ok' logs wait tidy by (auto simp: key_log_def intro: key_step.same)
  qed
qed

text \<open>Steps that only move program counters or close channels.\<close>

lemma flags_ok:
  assumes ok: "actors_ok st" and a: "\<forall>ac. ac_key (f ac) = ac_key ac \<and> ac_jobs (f ac) = ac_jobs ac"
    "ac_pc (f (as_actors st ! a)) = Gone \<longleftrightarrow> ac_pc (as_actors st ! a) = Gone" and c: "as_callers st' = as_callers st \<or> as_callers st' = (as_callers st)(t := None)"
    and st': "as_map st' = as_map st" "as_actors st' = as_actors (set_actor a f st)" "as_sent st' = as_sent st" "as_taken st' = as_taken st"
  shows "actors_ok st' \<and> key_step (key_log k st) (of_key k st (as_sent st)) (key_log k st') (of_key k st' (as_sent st')) lost"
proof -
  have "actors_ok st'"
  proof (rule quiet_ok [OF ok])
    show "\<forall>t a fn. as_callers st' t = Some (PSend a fn) \<or> as_callers st' t = Some (PStop a) \<longrightarrow> a < length (as_actors st)"
      using c callers_ok [OF ok, of None _ undefined t] actors_okD(3,4) [OF ok] by (elim disjE) (simp_all only:, blast+)
  qed (use a st' in \<open>auto simp: nth_set_actor\<close>)
  moreover have "key_log k st' = key_log k st \<and> of_key k st' (as_sent st') = of_key k st (as_sent st)"
    using quiet_step [OF ok, of st' k] a st' by (auto simp: nth_set_actor)
  ultimately show ?thesis by (auto intro: key_step.same)
qed

lemma callers_only:
  assumes "actors_ok st" "pc \<in> {None, Some (PCreate key fn)} \<or> (\<exists>a < length (as_actors st). pc = Some (PSend a fn) \<or> pc = Some (PStop a))"
  shows "actors_ok (set_caller t pc st) \<and> key_log k (set_caller t pc st) = key_log k st \<and> of_key k (set_caller t pc st) xs = of_key k st xs
    \<and> (tidy (set_caller t pc st) \<longleftrightarrow> tidy st)"
proof -
  have "actors_ok (set_caller t pc st)" by (rule quiet_ok [OF assms(1)]) (use callers_ok [OF assms] in simp_all)
  then show ?thesis by (simp add: key_log_def of_key_def waiting_jobs_def tidy_def split: option.split)
qed

text \<open>A new actor.\<close>

lemma Add_create_ok:
  assumes ok: "actors_ok st" and n: "as_map st key = None"
  defines "st' \<equiv> st\<lparr>as_actors := as_actors st @ [NewActor key None], as_map := (as_map st)(key \<mapsto> length (as_actors st))\<rparr>"
  shows "actors_ok st' \<and> key_log k st' = key_log k st \<and> of_key k st' (as_sent st') = of_key k st (as_sent st) \<and> (tidy st \<longrightarrow> tidy st')"
proof -
  have new: "ac_key (NewActor key None) = key" "ac_pc (NewActor key None) = Selecting" "ac_jobs (NewActor key None) = []"
    by (simp_all add: NewActor_def Let_def)
  have old: "ac_key (as_actors st' ! b) = ac_key (as_actors st ! b)" "as_actors st' ! b = as_actors st ! b" if "b < length (as_actors st)" for b
    using that by (simp_all add: st'_def nth_append)
  have len: "length (as_actors st') = Suc (length (as_actors st))" "as_actors st' ! length (as_actors st) = NewActor key None"
    by (simp_all add: st'_def)
  have "ac_key (as_actors st ! a) \<noteq> key" if "a < length (as_actors st)" "ac_pc (as_actors st ! a) \<noteq> Gone" for a
    using actors_okD(2) [OF ok that] n by auto
  then have "\<forall>a < length (as_actors st'). ac_pc (as_actors st' ! a) \<noteq> Gone \<longrightarrow> as_map st' (ac_key (as_actors st' ! a)) = Some a"
    using actors_okD(2) [OF ok] new by (simp add: less_Suc_eq st'_def nth_append)
  moreover have "as_map st' k' = Some a \<longrightarrow> a < length (as_actors st') \<and> ac_key (as_actors st' ! a) = k' \<and> ac_pc (as_actors st' ! a) \<noteq> Gone" for k' a
    using actors_okD(1) [OF ok, of k' a] new by (auto simp: st'_def nth_append split: if_splits)
  moreover have logs: "as_callers st' = as_callers st" "as_sent st' = as_sent st" "as_taken st' = as_taken st" by (simp_all add: st'_def)
  moreover have "\<forall>t a fn. as_callers st t = Some (PSend a fn) \<or> as_callers st t = Some (PStop a) \<longrightarrow> a < length (as_actors st')"
    "\<forall>x \<in> set (as_sent st) \<union> set (as_taken st). fst x < length (as_actors st')"
    using actors_okD(3-6) [OF ok] unfolding len(1) using less_SucI by blast+
  ultimately have "actors_ok st'" unfolding actors_ok_def by simp
  moreover have "of_key k st' (as_taken st) = of_key k st (as_taken st)" "of_key k st' (as_sent st) = of_key k st (as_sent st)"
    using actors_okD(5,6) [OF ok] old by (simp_all add: of_key_cong)
  moreover have "waiting_jobs k st' = waiting_jobs k st"
    using n new actors_okD(1) [OF ok, of k] by (auto simp: waiting_jobs_def st'_def nth_append split: option.split)
  moreover have "tidy st \<longrightarrow> tidy st'" using new by (auto simp: tidy_def st'_def nth_append less_Suc_eq)
  ultimately show ?thesis by (simp add: key_log_def logs)
qed

text \<open>Taking a job.\<close>

lemma take_job_ok:
  assumes ok: "actors_ok st" and a: "a < length (as_actors st)" "ac_pc (as_actors st ! a) = Selecting" "ac_jobs (as_actors st ! a) = fn # fns"
  defines "st' \<equiv> set_actor a (\<lambda>ac. ac\<lparr>ac_jobs := fns, ac_pc := Running fn\<rparr>) (st\<lparr>as_taken := as_taken st @ [(a, fn)]\<rparr>)"
  shows "actors_ok st' \<and> key_log k st' = key_log k st \<and> of_key k st' (as_sent st') = of_key k st (as_sent st) \<and> (tidy st \<longrightarrow> tidy st')"
proof -
  let ?st = "set_actor a (\<lambda>ac. ac\<lparr>ac_jobs := fns, ac_pc := Running fn\<rparr>) st"
  have e: "st' = ?st\<lparr>as_taken := as_taken st @ [(a, fn)]\<rparr>" by (cases st) (simp add: st'_def set_actor_def)
  have key: "ac_key (as_actors ?st ! b) = ac_key (as_actors st ! b)" for b
    using a by (cases "b = a") (simp_all add: set_actor_def)
  have "actors_ok ?st"
    by (rule quiet_ok [OF ok]) (use a actors_okD(3,4) [OF ok] in \<open>auto simp: nth_set_actor\<close>)
  then have "actors_ok st'" using a(1) by (simp add: e actors_ok_def)
  moreover have "of_key k st' (as_taken st') = of_key k st (as_taken st) @ (if ac_key (as_actors st ! a) = k then [fn] else [])"
    "of_key k st' (as_sent st') = of_key k st (as_sent st)"
    unfolding e by (simp_all add: of_key_def key)
  moreover have m: "as_map st (ac_key (as_actors st ! a)) = Some a" using actors_okD(2) [OF ok a(1)] a(2) by simp
  have "(if ac_key (as_actors st ! a) = k then [fn] else []) @ waiting_jobs k st' = waiting_jobs k st"
    unfolding e using actors_okD(1) [OF ok, of k] m a by (auto simp: waiting_jobs_def nth_set_actor split: option.split)
  moreover have "tidy st \<longrightarrow> tidy st'" by (auto simp: tidy_def e nth_set_actor)
  ultimately show ?thesis by (simp add: key_log_def)
qed

text \<open>The cleanup.\<close>

lemma actor_cleanup_ok:
  assumes ok: "actors_ok st" and a: "a < length (as_actors st)" and st': "actor_cleanup a st = Some st'"
  shows "actors_ok st' \<and> key_step (key_log k st) (of_key k st (as_sent st)) (key_log k st') (of_key k st' (as_sent st')) (\<not> tidy st)
    \<and> (tidy st \<longrightarrow> tidy st')"
proof -
  let ?key = "ac_key (as_actors st ! a)"
  have pc: "ac_pc (as_actors st ! a) = Returning"
    and e: "st' = (set_actor a (\<lambda>ac. ac\<lparr>ac_pc := Gone\<rparr>) st)\<lparr>as_map := (as_map st)(?key := None)\<rparr>"
    using st' by (auto simp: actor_cleanup_def split: if_splits)
  have m: "as_map st ?key = Some a" using actors_okD(2) [OF ok a] pc by simp
  have key: "ac_key (as_actors st' ! b) = ac_key (as_actors st ! b)" for b
    using a by (cases "b = a") (simp_all add: e set_actor_def)
  have nth: "as_actors st' ! b = (if b = a then (as_actors st ! a)\<lparr>ac_pc := Gone\<rparr> else as_actors st ! b)" if "b < length (as_actors st)" for b
    using that by (simp add: e nth_set_actor)
  have "as_map st' k' = Some b \<longrightarrow> b < length (as_actors st') \<and> ac_key (as_actors st' ! b) = k' \<and> ac_pc (as_actors st' ! b) \<noteq> Gone" for k' b
    using actors_okD(1) [OF ok, of k' b] m nth [of b] by (auto simp: e)
  moreover have "as_map st' (ac_key (as_actors st' ! b)) = Some b" if "b < length (as_actors st')" "ac_pc (as_actors st' ! b) \<noteq> Gone" for b
    using actors_okD(2) [OF ok, of b] that m nth [of b] key [of b] by (auto simp: e split: if_splits)
  ultimately have ok': "actors_ok st'" using actors_okD(3-6) [OF ok] unfolding actors_ok_def by (auto simp: e)
  have logs: "of_key k st' (as_taken st') = of_key k st (as_taken st)" "of_key k st' (as_sent st') = of_key k st (as_sent st)"
    by (simp_all add: of_key_def key) (simp_all add: e)
  have tidy: "tidy st \<Longrightarrow> tidy st' \<and> ac_jobs (as_actors st ! a) = []"
    using pc a by (auto simp: tidy_def e nth_set_actor)
  show ?thesis
  proof (cases "k = ?key")
    case True
    then have "waiting_jobs k st' = []" "waiting_jobs k st = ac_jobs (as_actors st ! a)" using m by (simp_all add: waiting_jobs_def e)
    then show ?thesis using ok' logs tidy by (cases "tidy st") (auto simp: key_log_def intro: key_step.same key_step.gone)
  next
    case False
    then have "waiting_jobs k st' = waiting_jobs k st"
      using actors_okD(1) [OF ok, of k] nth by (auto simp: waiting_jobs_def e split: option.split)
    then show ?thesis using ok' logs tidy by (auto simp: key_log_def intro: key_step.same)
  qed
qed

lemma Actors_Stop_ok:
  assumes ok: "actors_ok st"
  shows "actors_ok (Actors_Stop st) \<and> key_log k (Actors_Stop st) = key_log k st
    \<and> of_key k (Actors_Stop st) (as_sent (Actors_Stop st)) = of_key k st (as_sent st) \<and> (tidy st \<longrightarrow> tidy (Actors_Stop st))"
proof -
  have len: "length (as_actors (Actors_Stop st)) = length (as_actors st)" by (simp add: Actors_Stop_def)
  have nth: "as_actors (Actors_Stop st) ! a = (if as_map st (ac_key (as_actors st ! a)) = Some a
      then (as_actors st ! a)\<lparr>ac_closed := True\<rparr> else as_actors st ! a)" if "a < length (as_actors st)" for a
    using that by (simp add: Actors_Stop_def nth_enumerate_eq)
  have st: "as_map (Actors_Stop st) = as_map st" "as_sent (Actors_Stop st) = as_sent st" "as_taken (Actors_Stop st) = as_taken st"
    "as_callers (Actors_Stop st) = as_callers st" by (simp_all add: Actors_Stop_def)
  have same: "ac_key (as_actors (Actors_Stop st) ! a) = ac_key (as_actors st ! a)" "ac_jobs (as_actors (Actors_Stop st) ! a) = ac_jobs (as_actors st ! a)"
    "ac_pc (as_actors (Actors_Stop st) ! a) = ac_pc (as_actors st ! a)" if "a < length (as_actors st)" for a
    using nth [OF that] by (simp_all split: if_splits)
  have "actors_ok (Actors_Stop st)"
    by (rule quiet_ok [OF ok st(1) len st(2,3)]) (use same actors_okD(3,4) [OF ok] in \<open>auto simp: st(4)\<close>)
  moreover have "tidy st \<longrightarrow> tidy (Actors_Stop st)" using nth by (simp add: tidy_def len)
  ultimately show ?thesis using quiet_step [OF ok st(1) len st(2,3), of k] same by simp
qed

lemma Continue_ok:
  assumes ok: "actors_ok st" and step: "act_step (Continue t) st = Some st'"
  shows "actors_ok st' \<and> key_step (key_log k st) (of_key k st (as_sent st)) (key_log k st') (of_key k st' (as_sent st')) (\<not> tidy st)
    \<and> (tidy st \<longrightarrow> tidy st')"
proof -
  obtain pc where pc: "as_callers st t = Some pc" using step by (auto simp: act_step_def split: if_splits option.splits)
  show ?thesis
  proof (cases pc)
    case (PCreate key fn)
    then have st': "st' = Add_create t key fn st" using step pc by (simp add: act_step_def split: if_splits)
    show ?thesis
    proof (cases "as_map st key")
      case None
      let ?st = "st\<lparr>as_actors := as_actors st @ [NewActor key None], as_map := (as_map st)(key \<mapsto> length (as_actors st))\<rparr>"
      have e: "st' = set_caller t (Some (PSend (length (as_actors st)) fn)) ?st" using st' None by (simp add: Add_create_def Let_def)
      note c = Add_create_ok [OF ok None, of k]
      show ?thesis using c callers_only [of ?st "Some (PSend (length (as_actors st)) fn)" key fn t k "as_sent st"] unfolding e
        by (simp add: key_step.same)
    next
      case (Some a)
      then show ?thesis using st' ok callers_only [OF ok, of "Some (PSend a fn)" key fn t k] actors_okD(1) [OF ok Some]
        by (simp add: Add_create_def key_step.same)
    qed
  next
    case (PSend a fn)
    then show ?thesis using step pc Actor_Add_ok [OF ok actors_okD(3) [OF ok]] by (simp add: act_step_def split: if_splits)
  next
    case (PStop a)
    then have e: "st' = set_caller t None (Actor_Stop a st)" using step pc by (simp add: act_step_def split: if_splits)
    have "tidy st \<longrightarrow> tidy st'" by (auto simp: tidy_def e Actor_Stop_def nth_set_actor)
    then show ?thesis using flags_ok [OF ok, of "\<lambda>ac. ac\<lparr>ac_closed := True\<rparr>" a st' t k "\<not> tidy st"] by (simp add: e Actor_Stop_def)
  qed
qed

lemma act_step_ok:
  assumes ok: "actors_ok st" and step: "act_step x st = Some st'"
  shows "actors_ok st' \<and> key_step (key_log k st) (of_key k st (as_sent st)) (key_log k st') (of_key k st' (as_sent st')) (\<not> tidy st)
    \<and> (tidy st \<longrightarrow> (\<forall>a. x \<noteq> Timeout a) \<longrightarrow> tidy st')"
proof (cases x)
  case (BeginAdd t key fn)
  let ?pc = "Some (case as_map st key of Some a \<Rightarrow> PSend a fn | None \<Rightarrow> PCreate key fn)"
  have "st' = set_caller t ?pc st" using step BeginAdd by (simp add: act_step_def Add_lookup_def split: if_splits)
  moreover have "?pc \<in> {None, Some (PCreate key fn)} \<or> (\<exists>a < length (as_actors st). ?pc = Some (PSend a fn) \<or> ?pc = Some (PStop a))"
    using actors_okD(1) [OF ok, of key] by (auto split: option.split)
  ultimately show ?thesis using callers_only [OF ok, of ?pc key fn t k] by (simp add: key_step.same)
next
  case (BeginRemove t key)
  then have "st' = (case as_map st key of None \<Rightarrow> st | Some a \<Rightarrow> set_caller t (Some (PStop a)) st)"
    using step by (simp add: act_step_def Remove_lookup_def split: if_splits)
  then show ?thesis
    using ok callers_only [OF ok, of "Some (PStop _)" _ _ t k] actors_okD(1) [OF ok, of key]
    by (cases "as_map st key") (simp_all add: key_step.same)
next
  case (Continue t)
  with step show ?thesis using Continue_ok [OF ok] by blast
next
  case StopAll
  then show ?thesis using step Actors_Stop_ok [OF ok, of k] by (simp add: act_step_def key_step.same split: if_splits)
next
  case (Receive a)
  then have a: "a < length (as_actors st)" and r: "actor_receive a st = Some st'" using step by (auto simp: act_step_def split: if_splits)
  then have pc: "ac_pc (as_actors st ! a) = Selecting" by (simp add: actor_receive_def Let_def split: if_splits)
  show ?thesis
  proof (cases "ac_jobs (as_actors st ! a)")
    case (Cons fn fns)
    then show ?thesis using take_job_ok [OF ok a pc Cons, of k] r pc by (auto simp: actor_receive_def Let_def key_step.same)
  next
    case Nil
    with r pc have c: "ac_closed (as_actors st ! a)" and e: "st' = set_actor a (\<lambda>ac. ac\<lparr>ac_pc := Returning\<rparr>) st"
      by (auto simp: actor_receive_def Let_def split: if_splits)
    have "tidy st \<longrightarrow> tidy st'" using c Nil by (auto simp: tidy_def e nth_set_actor)
    then show ?thesis using flags_ok [OF ok, of "\<lambda>ac. ac\<lparr>ac_pc := Returning\<rparr>" a st' _ k "\<not> tidy st"] pc by (simp add: e)
  qed
next
  case (Timeout a)
  then have pc: "ac_pc (as_actors st ! a) = Selecting" and e: "st' = set_actor a (\<lambda>ac. ac\<lparr>ac_pc := Returning\<rparr>) st"
    using step by (auto simp: act_step_def actor_timeout_def split: if_splits)
  then show ?thesis using Timeout flags_ok [OF ok, of "\<lambda>ac. ac\<lparr>ac_pc := Returning\<rparr>" a st' _ k "\<not> tidy st"] by (simp add: e)
next
  case (Finish a)
  then obtain fn where pc: "ac_pc (as_actors st ! a) = Running fn" and e: "st' = set_actor a (\<lambda>ac. ac\<lparr>ac_pc := Selecting\<rparr>) st"
    using step by (auto simp: act_step_def actor_finish_def split: if_splits actor_pc.splits)
  have "tidy st \<longrightarrow> tidy st'" by (auto simp: tidy_def e nth_set_actor)
  then show ?thesis using flags_ok [OF ok, of "\<lambda>ac. ac\<lparr>ac_pc := Selecting\<rparr>" a st' _ k "\<not> tidy st"] pc by (simp add: e)
next
  case (Cleanup a)
  then show ?thesis using step actor_cleanup_ok [OF ok, of a st' k] by (simp add: act_step_def split: if_splits)
qed

lemma NewActors_ok: "actors_ok NewActors" "tidy NewActors" "key_log k NewActors = []" "of_key k NewActors (as_sent NewActors) = []"
  by (simp_all add: NewActors_def actors_ok_def tidy_def key_log_def of_key_def waiting_jobs_def)

lemma key_step_subseq: "key_step ls ss ls' ss' lost \<Longrightarrow> subseq ls ss \<Longrightarrow> subseq ls' ss'"
  by (induction rule: key_step.induct) (auto dest: subseq_appendE elim: subseq_order.order_trans [rotated])

lemma key_step_eq: "key_step ls ls ls' ss' False \<Longrightarrow> ls' = ss'"
  by (auto elim: key_step.cases)

lemma act_run_ok:
  assumes "act_run xs st = Some st'" "actors_ok st" "\<forall>k. subseq (key_log k st) (of_key k st (as_sent st))"
  shows "actors_ok st' \<and> (\<forall>k. subseq (key_log k st') (of_key k st' (as_sent st')))"
  using assms
proof (induction xs arbitrary: st)
  case (Cons x xs)
  then obtain st1 where s: "act_step x st = Some st1" "act_run xs st1 = Some st'" by (auto split: option.splits)
  note ok = act_step_ok [OF Cons.prems(2) s(1)]
  have "subseq (key_log k st1) (of_key k st1 (as_sent st1))" for k
    using ok [of k] Cons.prems(3) key_step_subseq by blast
  then show ?case using ok by (intro Cons.IH [OF s(2)]) simp_all
qed simp

lemma act_run_tidy:
  assumes "act_run xs st = Some st'" "actors_ok st" "tidy st" "\<forall>k. key_log k st = of_key k st (as_sent st)" "\<forall>a. Timeout a \<notin> set xs"
  shows "\<forall>k. key_log k st' = of_key k st' (as_sent st')"
  using assms
proof (induction xs arbitrary: st)
  case (Cons x xs)
  then obtain st1 where s: "act_step x st = Some st1" "act_run xs st1 = Some st'" by (auto split: option.splits)
  note ok = act_step_ok [OF Cons.prems(2) s(1)]
  have "key_log k st1 = of_key k st1 (as_sent st1)" for k
    using ok [of k] Cons.prems(3,4) by (auto dest: key_step_eq)
  with ok Cons.prems(3,5) show ?case by (intro Cons.IH [OF s(2)]) auto
qed simp

subsection \<open>What is kept in order\<close>

definition busy_with :: "string \<Rightarrow> Actors \<Rightarrow> nat set" where
  "busy_with k st = {a. a < length (as_actors st) \<and> ac_key (as_actors st ! a) = k \<and> (\<exists>fn. ac_pc (as_actors st ! a) = Running fn)}"

text \<open>C17: functions of a key run in order and one at a time. In every interleaving of callers that add, remove
  and stop with the goroutines of the actors, the functions of a key that have been started are among
  those that were sent for the key, in the order in which they were sent and each at most once, and at
  most one of them is running. As long as no actor times out, none is lost either: what was sent is
  what was started followed by what waits for the actor of the key.\<close>

theorem actors_keep_order:
  assumes "act_run xs NewActors = Some st"
  shows "subseq (of_key k st (as_taken st)) (of_key k st (as_sent st)) \<and> card (busy_with k st) \<le> 1
    \<and> ((\<forall>a. Timeout a \<notin> set xs) \<longrightarrow> of_key k st (as_sent st) = of_key k st (as_taken st) @ waiting_jobs k st)"
proof (intro conjI impI)
  have r: "actors_ok st" "subseq (key_log k st) (of_key k st (as_sent st))"
    using act_run_ok [OF assms NewActors_ok(1)] NewActors_ok(3,4) by auto
  show "subseq (of_key k st (as_taken st)) (of_key k st (as_sent st))"
    using r(2) unfolding key_log_def by (meson subseq_order.order_trans subseq_rev_drop_many subseq_order.order_refl)
  have "busy_with k st \<subseteq> set_option (as_map st k)"
    using actors_okD(2) [OF r(1)] by (fastforce simp: busy_with_def)
  then have "card (busy_with k st) \<le> card (set_option (as_map st k))" by (intro card_mono) auto
  then show "card (busy_with k st) \<le> 1" by (cases "as_map st k") auto
  show "of_key k st (as_sent st) = of_key k st (as_taken st) @ waiting_jobs k st" if "\<forall>a. Timeout a \<notin> set xs"
    using act_run_tidy [OF assms NewActors_ok(1,2)] NewActors_ok(3,4) that by (simp add: key_log_def)
qed

definition demo_acts :: "act list" where
  "demo_acts = [BeginAdd 0 ''k'' 7, BeginAdd 1 ''k'' 8, Continue 1, Continue 0, Continue 0, Continue 1, Receive 0, Finish 0, Receive 0]"

lemma demo_acts_run: "act_run demo_acts NewActors \<noteq> None"
  by code_simp

theorem actors_keep_order_witness:
  "\<exists>st. act_run demo_acts NewActors = Some st \<and> subseq (of_key ''k'' st (as_taken st)) (of_key ''k'' st (as_sent st))
    \<and> card (busy_with ''k'' st) \<le> 1 \<and> of_key ''k'' st (as_sent st) = of_key ''k'' st (as_taken st) @ waiting_jobs ''k'' st"
proof -
  obtain st where st: "act_run demo_acts NewActors = Some st" using demo_acts_run by blast
  moreover have "\<forall>a. Timeout a \<notin> set demo_acts" by (simp add: demo_acts_def)
  ultimately show ?thesis using actors_keep_order [OF st, of "''k''"] by blast
qed

subsection \<open>What is lost\<close>

definition taken_by :: "nat \<Rightarrow> Actors \<Rightarrow> go_any list" where
  "taken_by a st = map snd (filter (\<lambda>x. fst x = a) (as_taken st))"

definition over :: "nat \<Rightarrow> Actors \<Rightarrow> bool" where
  "over a st \<longleftrightarrow> a < length (as_actors st) \<and> ac_pc (as_actors st ! a) \<in> {Returning, Gone}"

text \<open>An actor that has left its loop takes no job any more.\<close>

lemma over_caller [simp]: "over a (set_caller t pc st) = over a st" "taken_by a (set_caller t pc st) = taken_by a st"
  by (simp_all add: over_def taken_by_def)

lemma over_stop: "over a st \<Longrightarrow> over a (Actors_Stop st) \<and> taken_by a (Actors_Stop st) = taken_by a st"
  by (simp add: over_def taken_by_def Actors_Stop_def nth_enumerate_eq)

lemma over_step:
  assumes "act_step x st = Some st'" "over a st"
  shows "over a st' \<and> taken_by a st' = taken_by a st"
proof (cases x)
  case (Continue t)
  then obtain pc where "as_callers st t = Some pc" using assms(1) by (auto simp: act_step_def split: if_splits option.splits)
  with assms Continue show ?thesis
    by (cases pc) (auto simp: act_step_def Add_create_def Actor_Add_def Actor_Stop_def over_def taken_by_def nth_set_actor nth_append Let_def
      split: if_splits option.splits)
next
  case (Receive b)
  with assms show ?thesis
    by (auto simp: act_step_def actor_receive_def over_def taken_by_def nth_set_actor Let_def split: if_splits list.splits)
next
  case (Cleanup b)
  with assms show ?thesis by (auto simp: act_step_def actor_cleanup_def over_def taken_by_def nth_set_actor split: if_splits)
next
  case (Finish b)
  with assms show ?thesis
    by (auto simp: act_step_def actor_finish_def over_def taken_by_def nth_set_actor split: if_splits actor_pc.splits)
next
  case StopAll
  with assms over_stop [of a st] show ?thesis by (auto simp: act_step_def split: if_splits)
qed (use assms in \<open>auto simp: act_step_def Add_lookup_def Remove_lookup_def actor_timeout_def over_def taken_by_def nth_set_actor
    split: if_splits option.splits\<close>)

lemma over_run: "act_run xs st = Some st' \<Longrightarrow> over a st \<Longrightarrow> over a st' \<and> taken_by a st' = taken_by a st"
proof (induction xs arbitrary: st)
  case (Cons x xs)
  then obtain st1 where "act_step x st = Some st1" "act_run xs st1 = Some st'" by (auto split: option.splits)
  with over_step Cons show ?case by metis
qed simp

text \<open>C18: a function that is added while its actor goes away is lost. \<open>Add\<close> looks the actor up under the lock
  but sends to its channel after releasing it; when the idle timer of the actor fires in between, the
  send succeeds, into a channel that nobody reads: \<open>Add\<close> returns, and in no continuation is the function ever
  started. For a connection that keeps its requests in order this is a request without a response.\<close>

theorem add_to_idle_actor_is_lost:
  assumes "as_callers st t = Some (PSend a fn)" "over a st" "\<not> as_panicked st"
    and "\<not> ac_closed (as_actors st ! a)" "length (ac_jobs (as_actors st ! a)) < ac_cap (as_actors st ! a)"
  shows "\<exists>st'. act_step (Continue t) st = Some st' \<and> as_sent st' = as_sent st @ [(a, fn)] \<and> as_callers st' t = None
    \<and> (\<forall>xs st''. act_run xs st' = Some st'' \<longrightarrow> taken_by a st'' = taken_by a st)"
proof -
  obtain st' where s: "act_step (Continue t) st = Some st'" "as_sent st' = as_sent st @ [(a, fn)]" "as_callers st' t = None"
    using assms by (simp add: act_step_def Actor_Add_def Let_def)
  with over_step [OF s(1) assms(2)] over_run show ?thesis by metis
qed

definition lost_acts :: "act list" where
  "lost_acts = [BeginAdd 0 ''k'' 7, Continue 0, Continue 0, Receive 0, Finish 0, BeginAdd 1 ''k'' 8, Timeout 0, Cleanup 0]"

definition lost_state :: Actors where
  "lost_state = the (act_run lost_acts NewActors)"

lemma lost_state_facts:
  "as_callers lost_state 1 = Some (PSend 0 8)" "ac_pc (as_actors lost_state ! 0) = Gone" "length (as_actors lost_state) = 1"
  "\<not> as_panicked lost_state" "\<not> ac_closed (as_actors lost_state ! 0)" "ac_jobs (as_actors lost_state ! 0) = []"
  "ac_cap (as_actors lost_state ! 0) = 1024" "taken_by 0 lost_state = [7]"
  by code_simp+

theorem add_to_idle_actor_is_lost_witness:
  "\<exists>st' st''. act_step (Continue 1) lost_state = Some st' \<and> as_sent st' = as_sent lost_state @ [(0, 8)]
    \<and> act_run [BeginAdd 2 ''k'' 9, Continue 2, Continue 2, Receive 1] st' = Some st'' \<and> taken_by 0 st'' = [7]"
proof -
  obtain st' where st': "act_step (Continue 1) lost_state = Some st'" "as_sent st' = as_sent lost_state @ [(0, 8)]"
    "\<forall>xs st''. act_run xs st' = Some st'' \<longrightarrow> taken_by 0 st'' = taken_by 0 lost_state"
    using add_to_idle_actor_is_lost [of lost_state 1 0 8] lost_state_facts by (auto simp: over_def)
  have "act_run (Continue 1 # [BeginAdd 2 ''k'' 9, Continue 2, Continue 2, Receive 1]) lost_state \<noteq> None" by code_simp
  then obtain st'' where r: "act_run [BeginAdd 2 ''k'' 9, Continue 2, Continue 2, Receive 1] st' = Some st''"
    using st'(1) by (simp only: act_run.simps option.case) blast
  have "taken_by 0 st'' = [7]" using st'(3) r lost_state_facts(8) by metis
  with st'(1,2) r show ?thesis by blast
qed

end
