(* ===== verification/Selectors.thy ===== *)
theory Selectors
  imports Naming
begin

text \<open>
  The selectors (\<open>naming/selector\<close>) that turn a service name into a node: the selector for lists of addresses,
  the pass-through selector, and the selector that puts discovery, router, load balancer and circuit breaker
  together. The locale \<open>ban_selector\<close> states what a selector does that obeys a mandatory list of banned
  nodes; the address selector and the random load balancer both do.
\<close>

subsection \<open>ipSelector\<close>

definition str_Count :: "string \<Rightarrow> char \<Rightarrow> nat" where
  "str_Count s c = length (filter (\<lambda>x. x = c) s)"

text \<open>The loop of \<open>chooseOne\<close>, with \<open>r\<close> rounds to go after this one.\<close>

function ip_chooseOne_loop :: "nat \<Rightarrow> string \<Rightarrow> string" where
  "ip_chooseOne_loop r serviceName =
     (case IndexByte serviceName CHR '','' of
        None \<Rightarrow> serviceName
      | Some j \<Rightarrow> if r = 0 then take j serviceName else ip_chooseOne_loop (r - 1) (drop (j + 1) serviceName))"
  by auto

termination
  by (relation "measure fst") auto

declare ip_chooseOne_loop.simps [simp del]

definition ip_chooseOne :: "(nat \<Rightarrow> nat) \<Rightarrow> string \<Rightarrow> string" where
  "ip_chooseOne intn serviceName =
     (let num = str_Count serviceName CHR '','' + 1
      in if num = 1 then serviceName else ip_chooseOne_loop (intn num) serviceName)"

text \<open>\<open>Intn k n\<close> is the \<open>k\<close>-th draw below \<open>n\<close>. An index out of range and a nil node among the bans panic.\<close>

definition addr_is_not :: "string \<Rightarrow> nodeptr \<Rightarrow> (string, bool) res" where
  "addr_is_not addr n = (case n of None \<Rightarrow> Panic | Some n' \<Rightarrow> Ok (Address n' \<noteq> addr))"

function ip_chooseUnbanned :: "(nat \<Rightarrow> nat \<Rightarrow> nat) \<Rightarrow> nat \<Rightarrow> string list \<Rightarrow> nodeptr list \<Rightarrow> (string, string) res" where
  "ip_chooseUnbanned Intn k addrs bans =
     (if addrs = [] then Err ''no available targets''
      else (let r = Intn k (length addrs)
            in if length addrs \<le> r then Panic
               else case Range bans (addr_is_not (addrs ! r)) of
                 Ok True \<Rightarrow> Ok (addrs ! r)
               | Ok False \<Rightarrow> ip_chooseUnbanned Intn (k + 1) (take r addrs @ drop (r + 1) addrs) bans
               | _ \<Rightarrow> Panic))"
  by auto

termination
  by (relation "measure (\<lambda>(Intn, k, addrs, bans). length addrs)") auto

declare ip_chooseUnbanned.simps [simp del]

definition addr_node :: "string \<Rightarrow> string \<Rightarrow> node" where
  "addr_node serviceName addr = \<lparr>ServiceName = serviceName, ContainerName = [], Address = addr, Network = [], Protocol = [],
     SetName = [], Weight = 0, CostTime = 0, EnvKey = [], Metadata = None, ParseAddr = None\<rparr>"

definition ip_Select :: "(nat \<Rightarrow> nat \<Rightarrow> nat) \<Rightarrow> string \<Rightarrow> ban_ctx option \<Rightarrow> ban_ctx option \<times> (string, node) res" where
  "ip_Select Intn serviceName octx =
     (if serviceName = [] then (octx, Err ''serviceName empty'')
      else case octx of
        None \<Rightarrow> (octx, Ok (addr_node serviceName (ip_chooseOne (Intn 0) serviceName)))
      | Some ctx \<Rightarrow>
          (case FromCtx ctx of
             (bans, mand, ok) \<Rightarrow>
               if \<not> ok then (octx, Ok (addr_node serviceName (ip_chooseOne (Intn 0) serviceName)))
               else
                 (let addrs = Split CHR '','' serviceName;
                      r = ip_chooseUnbanned Intn 0 addrs bans;
                      r' = (case r of Err e \<Rightarrow> if mand then r else Ok (ip_chooseOne (Intn (length addrs)) serviceName) | _ \<Rightarrow> r)
                  in case r' of
                       Ok addr \<Rightarrow> (Some (Naming.Add ctx [Some (addr_node serviceName addr)]), Ok (addr_node serviceName addr))
                     | Err e \<Rightarrow> (octx, Err e)
                     | Panic \<Rightarrow> (octx, Panic))))"

subsection \<open>Choosing among the addresses\<close>

lemma Split_IndexByte:
  "IndexByte s c = Some j \<Longrightarrow> Split c s = take j s # Split c (drop (j + 1) s)"
proof -
  assume j: "IndexByte s c = Some j"
  then have "s = take j s @ c # drop (j + 1) s" using IndexByte_Some [OF j] id_take_nth_drop [of j s] by simp
  then show ?thesis using IndexByte_Some [OF j] Split_append_sep [of c "take j s" "drop (j + 1) s"] by metis
qed

lemma Split_no_IndexByte: "IndexByte s c = None \<Longrightarrow> Split c s = [s]"
  by (simp add: IndexByte_None Split_atom)

lemma length_Split: "length (Split c s) = str_Count s c + 1"
proof (induction s)
  case (Cons x xs)
  then show ?case by (cases "Split c xs") (auto simp: str_Count_def)
qed (simp add: str_Count_def)

lemma ip_chooseOne_loop_nth: "r < length (Split CHR '','' s) \<Longrightarrow> ip_chooseOne_loop r s = Split CHR '','' s ! r"
proof (induction r arbitrary: s)
  case 0
  then show ?case by (cases "IndexByte s CHR '',''") (auto simp: ip_chooseOne_loop.simps Split_IndexByte Split_no_IndexByte)
next
  case (Suc r)
  then show ?case
    by (cases "IndexByte s CHR '',''") (auto simp: ip_chooseOne_loop.simps [of "Suc r"] Split_IndexByte Split_no_IndexByte)
qed

lemma ip_chooseOne_nth:
  assumes "intn (length (Split CHR '','' s)) < length (Split CHR '','' s)" "intn 1 = 0"
  shows "ip_chooseOne intn s = Split CHR '','' s ! intn (length (Split CHR '','' s))"
proof (cases "str_Count s CHR '','' = 0")
  case True
  then have "CHR '','' \<notin> set s" by (auto simp: str_Count_def filter_empty_conv)
  with True assms(2) show ?thesis by (simp add: ip_chooseOne_def Split_atom)
next
  case False
  with assms(1) show ?thesis by (simp add: ip_chooseOne_def length_Split ip_chooseOne_loop_nth)
qed

lemma Range_addr_is_not:
  assumes "None \<notin> set bans"
  shows "Range bans (addr_is_not a) = Ok (a \<notin> banned_addrs bans)"
proof -
  have "Range bans (addr_is_not a) = Ok (\<forall>p \<in> set bans. Address (the p) \<noteq> a)"
    using assms by (intro Range_total) (auto simp: addr_is_not_def split: option.splits dest: not_None_in_set)
  moreover have "(\<forall>p \<in> set bans. Address (the p) \<noteq> a) \<longleftrightarrow> a \<notin> banned_addrs bans"
    unfolding banned_addrs_def mem_Collect_eq by (metis assms not_None_in_set option.sel)
  ultimately show ?thesis by simp
qed

text \<open>Recursion removes one banned address after the other.\<close>

lemma ip_chooseUnbanned_spec:
  assumes "None \<notin> set bans" "\<forall>k n. 0 < n \<longrightarrow> Intn k n < n"
  shows "case ip_chooseUnbanned Intn k addrs bans of
      Ok a \<Rightarrow> a \<in> set addrs \<and> a \<notin> banned_addrs bans | Err e \<Rightarrow> set addrs \<subseteq> banned_addrs bans | Panic \<Rightarrow> False"
  using assms
proof (induction Intn k addrs bans rule: ip_chooseUnbanned.induct)
  case (1 Intn k addrs bans)
  show ?case
  proof (cases "addrs = []")
    case True
    then show ?thesis by (simp add: ip_chooseUnbanned.simps)
  next
    case False
    define r where "r = Intn k (length addrs)"
    let ?rest = "take r addrs @ drop (r + 1) addrs"
    have r: "r < length addrs" using "1.prems"(2) False by (simp add: r_def)
    note ra = Range_addr_is_not [OF "1.prems"(1), of "addrs ! r"]
    show ?thesis
    proof (cases "addrs ! r \<in> banned_addrs bans")
      case True
      have "set addrs = insert (addrs ! r) (set ?rest)"
        using arg_cong [OF id_take_nth_drop [OF r], of set] by simp
      moreover have "ip_chooseUnbanned Intn k addrs bans = ip_chooseUnbanned Intn (k + 1) ?rest bans"
        using False r ra True by (simp add: ip_chooseUnbanned.simps [of Intn k] r_def [symmetric])
      moreover have "case ip_chooseUnbanned Intn (k + 1) ?rest bans of
          Ok a \<Rightarrow> a \<in> set ?rest \<and> a \<notin> banned_addrs bans | Err e \<Rightarrow> set ?rest \<subseteq> banned_addrs bans | Panic \<Rightarrow> False"
        using "1.IH" [OF False r_def, of False] "1.prems" r ra True by simp
      ultimately show ?thesis using True by (auto split: res.splits)
    next
      case out: False
      then show ?thesis using False r ra by (simp add: ip_chooseUnbanned.simps [of Intn k] r_def [symmetric])
    qed
  qed
qed

subsection \<open>Selectors that obey mandatory bans\<close>

text \<open>\<open>select r\<close> is one selection with the random draws \<open>r\<close>: it returns an address that is not banned yet and
  bans it, or fails when all are banned.\<close>

locale ban_selector =
  fixes select :: "'r \<Rightarrow> nodeptr list \<Rightarrow> nodeptr list \<times> string option" and valid :: "'r \<Rightarrow> bool" and targets :: "string set"
  assumes finite_targets: "finite targets"
    and selects: "valid r \<Longrightarrow> None \<notin> set bans \<Longrightarrow> select r bans = (bans', Some a) \<Longrightarrow>
      a \<in> targets \<and> a \<notin> banned_addrs bans \<and> banned_addrs bans' = insert a (banned_addrs bans) \<and> None \<notin> set bans'"
    and fails: "valid r \<Longrightarrow> None \<notin> set bans \<Longrightarrow> select r bans = (bans', None) \<Longrightarrow> bans' = bans \<and> targets \<subseteq> banned_addrs bans"

fun ban_run :: "('r \<Rightarrow> nodeptr list \<Rightarrow> nodeptr list \<times> string option) \<Rightarrow> 'r list \<Rightarrow> nodeptr list \<Rightarrow> string list" where
  "ban_run select [] bans = []"
| "ban_run select (r # rs) bans = (case select r bans of (bans', Some a) \<Rightarrow> a # ban_run select rs bans' | (bans', None) \<Rightarrow> ban_run select rs bans')"

context ban_selector
begin

lemma run_no_repeat:
  assumes "\<forall>r \<in> set rs. valid r" "None \<notin> set bans"
  shows "distinct (ban_run select rs bans) \<and> set (ban_run select rs bans) \<subseteq> targets - banned_addrs bans
    \<and> length (ban_run select rs bans) = min (length rs) (card (targets - banned_addrs bans))"
  using assms
proof (induction rs arbitrary: bans)
  case (Cons r rs)
  have v: "valid r" using Cons.prems(1) by simp
  obtain bans' o' where s: "select r bans = (bans', o')" by fastforce
  show ?case
  proof (cases o')
    case None
    with s fails [OF v Cons.prems(2)] have b: "bans' = bans" "targets - banned_addrs bans = {}" by auto
    from b(2) have "card (targets - banned_addrs bans) = 0" by (metis card.empty)
    with Cons.IH [of bans] Cons.prems s None b(1) show ?thesis by simp
  next
    case (Some a)
    with s selects [OF v Cons.prems(2)] have a: "a \<in> targets" "a \<notin> banned_addrs bans" "banned_addrs bans' = insert a (banned_addrs bans)"
      "None \<notin> set bans'" by auto
    have "card (targets - banned_addrs bans) = Suc (card (targets - insert a (banned_addrs bans)))"
      using a finite_targets by (subst card_Suc_Diff1 [symmetric, of _ a]) (auto simp: Diff_insert2 [symmetric] Diff_insert [symmetric])
    moreover have "distinct (ban_run select rs bans') \<and> set (ban_run select rs bans') \<subseteq> targets - insert a (banned_addrs bans)
        \<and> length (ban_run select rs bans') = min (length rs) (card (targets - insert a (banned_addrs bans)))"
      using Cons.IH [OF _ a(4)] Cons.prems(1) unfolding a(3) by simp
    moreover have "ban_run select (r # rs) bans = a # ban_run select rs bans'" using s Some by simp
    ultimately show ?thesis using a(1,2) by (simp only: distinct.simps list.set list.size) auto
  qed
qed simp

end

definition mandatory_ctx :: "nodeptr list \<Rightarrow> ban_ctx option" where
  "mandatory_ctx bans = Some (Some \<lparr>bn_nodes = bans, mandatory = True\<rparr>)"

definition bans_of :: "ban_ctx option \<Rightarrow> nodeptr list" where
  "bans_of octx = (case octx of Some (Some b) \<Rightarrow> bn_nodes b | _ \<Rightarrow> [])"

definition ip_pick :: "string \<Rightarrow> (nat \<Rightarrow> nat \<Rightarrow> nat) \<Rightarrow> nodeptr list \<Rightarrow> nodeptr list \<times> string option" where
  "ip_pick serviceName Intn bans =
     (case ip_Select Intn serviceName (mandatory_ctx bans) of
        (octx, Ok n) \<Rightarrow> (bans_of octx, Some (Address n)) | (octx, _) \<Rightarrow> (bans_of octx, None))"

definition random_pick :: "nodeptr list \<Rightarrow> (nat \<Rightarrow> nat \<Rightarrow> nat) \<Rightarrow> nodeptr list \<Rightarrow> nodeptr list \<times> string option" where
  "random_pick nodes Intn bans =
     (case Random_Select Intn (mandatory_ctx bans) nodes of
        (octx, Ok (Some n)) \<Rightarrow> (bans_of octx, Some (Address n)) | (octx, _) \<Rightarrow> (bans_of octx, None))"

definition draws :: "(nat \<Rightarrow> nat \<Rightarrow> nat) \<Rightarrow> bool" where
  "draws Intn \<longleftrightarrow> (\<forall>k n. 0 < n \<longrightarrow> Intn k n < n)"

definition ip_targets :: "string \<Rightarrow> string set" where
  "ip_targets serviceName = (if serviceName = [] then {} else set (Split CHR '','' serviceName))"

lemma ip_Select_mandatory:
  assumes "draws Intn" "None \<notin> set bans" "serviceName \<noteq> []"
  shows "(\<exists>a \<in> ip_targets serviceName - banned_addrs bans. ip_pick serviceName Intn bans = (Some (addr_node serviceName a) # bans, Some a))
    \<or> ip_targets serviceName \<subseteq> banned_addrs bans \<and> ip_pick serviceName Intn bans = (bans, None)"
  using ip_chooseUnbanned_spec [OF assms(2), where Intn = Intn and k = 0 and addrs = "Split CHR '','' serviceName"] assms
  by (auto simp: ip_pick_def ip_Select_def mandatory_ctx_def FromCtx_def Naming.Add_def bans_of_def draws_def ip_targets_def addr_node_def
      split: res.splits)

interpretation ips: ban_selector "ip_pick serviceName" draws "ip_targets serviceName"
proof unfold_locales
  show "finite (ip_targets serviceName)" by (simp add: ip_targets_def)
  fix Intn bans bans' a assume p: "draws Intn" "None \<notin> set bans" "ip_pick serviceName Intn bans = (bans', Some a)"
  then have "serviceName \<noteq> []" by (auto simp: ip_pick_def ip_Select_def)
  from ip_Select_mandatory [OF p(1,2) this] p show "a \<in> ip_targets serviceName \<and> a \<notin> banned_addrs bans
      \<and> banned_addrs bans' = insert a (banned_addrs bans) \<and> None \<notin> set bans'" by (auto simp: addr_node_def)
next
  fix Intn bans bans' assume p: "draws Intn" "None \<notin> set bans" "ip_pick serviceName Intn bans = (bans', None)"
  show "bans' = bans \<and> ip_targets serviceName \<subseteq> banned_addrs bans"
  proof (cases "serviceName = []")
    case True
    with p(3) show ?thesis by (simp add: ip_pick_def ip_Select_def ip_targets_def bans_of_def mandatory_ctx_def)
  next
    case False
    from ip_Select_mandatory [OF p(1,2) False] p(3) show ?thesis by auto
  qed
qed

lemma random_pick_mandatory:
  assumes "None \<notin> set nodes" "None \<notin> set bans"
  shows "(\<exists>n. Some n \<in> set nodes \<and> Address n \<notin> banned_addrs bans \<and> random_pick nodes Intn bans = (Some n # bans, Some (Address n)))
    \<or> (\<forall>n. Some n \<in> set nodes \<longrightarrow> Address n \<in> banned_addrs bans) \<and> random_pick nodes Intn bans = (bans, None)"
  using Random_Select_mandatory [OF assms, of Intn] by (auto simp: random_pick_def mandatory_ctx_def bans_of_def)

interpretation rnd: ban_selector "random_pick (map Some ns)" "\<lambda>_. True" "Address ` set ns"
proof unfold_locales
  fix Intn bans bans' a assume p: "None \<notin> set bans" "random_pick (map Some ns) Intn bans = (bans', Some a)"
  have "None \<notin> set (map Some ns)" by auto
  from random_pick_mandatory [OF this p(1), of Intn] p show "a \<in> Address ` set ns \<and> a \<notin> banned_addrs bans
      \<and> banned_addrs bans' = insert a (banned_addrs bans) \<and> None \<notin> set bans'" by auto
next
  fix Intn bans bans' assume p: "None \<notin> set bans" "random_pick (map Some ns) Intn bans = (bans', None)"
  have "None \<notin> set (map Some ns)" by auto
  from random_pick_mandatory [OF this p(1), of Intn] p show "bans' = bans \<and> Address ` set ns \<subseteq> banned_addrs bans" by auto
qed simp

text \<open>C39: retries go to different addresses. Selections of the address selector that share a context with a
  mandatory list of banned nodes return addresses of the service name, never the same one twice, whatever
  is drawn, and they only start to fail when every distinct address has been returned.\<close>

theorem ip_selector_no_repeat:
  assumes "\<forall>Intn \<in> set rs. draws Intn" "serviceName \<noteq> []"
  shows "distinct (ban_run (ip_pick serviceName) rs []) \<and> set (ban_run (ip_pick serviceName) rs []) \<subseteq> set (Split CHR '','' serviceName)
    \<and> length (ban_run (ip_pick serviceName) rs []) = min (length rs) (card (set (Split CHR '','' serviceName)))"
  using ips.run_no_repeat [where serviceName = serviceName and rs = rs and bans = "[]"] assms by (simp add: ip_targets_def banned_addrs_def)

theorem ip_selector_no_repeat_witness:
  "list_all draws [\<lambda>k n. 0, \<lambda>k n. k mod n] \<and> distinct (ban_run (ip_pick ''a:1,b:2'') [\<lambda>k n. 0, \<lambda>k n. k mod n] [])
   \<and> length (ban_run (ip_pick ''a:1,b:2'') [\<lambda>k n. 0, \<lambda>k n. k mod n] []) = 2"
proof -
  have d: "\<forall>Intn \<in> set [\<lambda>k n. 0, \<lambda>k n. k mod n]. draws Intn" by (simp add: draws_def)
  have "card (set (Split CHR '','' ''a:1,b:2'')) = 2" by simp
  with ip_selector_no_repeat [OF d, of "''a:1,b:2''"] show ?thesis using d by (simp add: list_all_iff)
qed

subsection \<open>passthroughSelector, TrpcSelector and the registry\<close>

definition passthrough_Select :: "string \<Rightarrow> node" where
  "passthrough_Select serviceName = addr_node serviceName serviceName"

definition IPDiscovery_List :: "string \<Rightarrow> nodeptr list" where
  "IPDiscovery_List serviceName = [Some (addr_node serviceName serviceName)]"

definition NoopServiceRouter_Filter :: "string \<Rightarrow> nodeptr list \<Rightarrow> nodeptr list" where
  "NoopServiceRouter_Filter serviceName nodes = nodes"

text \<open>The parts that a selection puts together; a nil one is \<open>None\<close>. They work on a state \<open>'w\<close> of the program around
  them. A circuit breaker is a handle, and \<open>breaker_Report\<close> its method.\<close>

record 'w SelectorOptions =
  so_Discovery :: "(string \<Rightarrow> 'w \<Rightarrow> 'w \<times> (string, nodeptr list) res) option"
  so_ServiceRouter :: "(string \<Rightarrow> nodeptr list \<Rightarrow> 'w \<Rightarrow> 'w \<times> (string, nodeptr list) res) option"
  so_LoadBalancer :: "(string \<Rightarrow> nodeptr list \<Rightarrow> 'w \<Rightarrow> 'w \<times> (string, nodeptr) res) option"
  so_CircuitBreaker :: "go_any option"

definition set_breaker :: "go_any \<Rightarrow> node \<Rightarrow> node" where
  "set_breaker cb n = n\<lparr>Metadata := Some ((case Metadata n of None \<Rightarrow> Map.empty | Some m \<Rightarrow> m)(''circuitbreaker'' \<mapsto> cb))\<rparr>"

definition trpc_Select :: "'w SelectorOptions \<Rightarrow> ('w SelectorOptions \<Rightarrow> 'w SelectorOptions) list \<Rightarrow> string \<Rightarrow> 'w \<Rightarrow> 'w \<times> (string, node) res" where
  "trpc_Select defaults opt serviceName w =
     (if serviceName = [] then (w, Err ''service name empty'')
      else (let opts = fold (\<lambda>f. f) opt defaults in
        case so_Discovery opts of
          None \<Rightarrow> (w, Err ''discovery not exists'')
        | Some list \<Rightarrow>
            (case list serviceName w of
               (w, Err e) \<Rightarrow> (w, Err e) | (w, Panic) \<Rightarrow> (w, Panic)
             | (w, Ok nodes) \<Rightarrow>
                 (case so_ServiceRouter opts of
                    None \<Rightarrow> (w, Err ''servicerouter not exists'')
                  | Some filt \<Rightarrow>
                      (case filt serviceName nodes w of
                         (w, Err e) \<Rightarrow> (w, Err e) | (w, Panic) \<Rightarrow> (w, Panic)
                       | (w, Ok nodes) \<Rightarrow>
                           (case (so_LoadBalancer opts, so_CircuitBreaker opts) of
                              (None, _) \<Rightarrow> (w, Err ''loadbalancer not exists'')
                            | (_, None) \<Rightarrow> (w, Err ''circuitbreaker not exists'')
                            | (Some sel, Some cb) \<Rightarrow>
                                (case sel serviceName nodes w of
                                   (w, Err e) \<Rightarrow> (w, Err e) | (w, Panic) \<Rightarrow> (w, Panic)
                                 | (w, Ok None) \<Rightarrow> (w, Panic)
                                 | (w, Ok (Some n)) \<Rightarrow> (w, Ok (set_breaker cb n)))))))))"

datatype report_err = ErrReportNodeEmpty | ErrReportMetaDataEmpty | ErrReportNoCircuitBreaker | ErrReportInvalidCircuitBreaker | BreakerErr string

definition trpc_Report :: "(go_any \<Rightarrow> (node \<Rightarrow> int \<Rightarrow> string option \<Rightarrow> 'w \<Rightarrow> 'w \<times> string option) option) \<Rightarrow> nodeptr \<Rightarrow> int
    \<Rightarrow> string option \<Rightarrow> 'w \<Rightarrow> 'w \<times> report_err option" where
  "trpc_Report breaker_Report p cost err w =
     (case p of
        None \<Rightarrow> (w, Some ErrReportNodeEmpty)
      | Some n \<Rightarrow>
          (case Metadata n of
             None \<Rightarrow> (w, Some ErrReportMetaDataEmpty)
           | Some m \<Rightarrow>
               (case m ''circuitbreaker'' of
                  None \<Rightarrow> (w, Some ErrReportNoCircuitBreaker)
                | Some v \<Rightarrow>
                    (case breaker_Report v of
                       None \<Rightarrow> (w, Some ErrReportInvalidCircuitBreaker)
                     | Some report \<Rightarrow> map_prod id (map_option BreakerErr) (report n cost err w)))))"

text \<open>The table of selectors: \<open>Register\<close> copies it, \<open>Get\<close> reads it.\<close>

definition sel_Register :: "string \<Rightarrow> 's \<Rightarrow> (string \<rightharpoonup> 's) \<Rightarrow> (string \<rightharpoonup> 's)" where
  "sel_Register name s m = m(name \<mapsto> s)"

definition sel_Get :: "string \<Rightarrow> (string \<rightharpoonup> 's) \<Rightarrow> 's option" where
  "sel_Get name m = m name"

text \<open>the outcome of a call is reported to the circuit breaker that was chosen for it. When a selection
  succeeds with the circuit breaker \<open>cb\<close> in its options, the node is the load balancer's choice among what
  the router left of what discovery found, and reporting the node afterwards, in whatever state, is
  exactly one call of the \<open>Report\<close> of \<open>cb\<close> for this node.\<close>

theorem trpc_select_report:
  assumes "trpc_Select defaults opt serviceName w = (w', Ok n)" "so_CircuitBreaker (fold (\<lambda>f. f) opt defaults) = Some cb"
    and "breaker_Report cb = Some report"
  shows "(\<exists>list filt sel w1 w2 ns1 ns2 n0. so_Discovery (fold (\<lambda>f. f) opt defaults) = Some list
      \<and> so_ServiceRouter (fold (\<lambda>f. f) opt defaults) = Some filt \<and> so_LoadBalancer (fold (\<lambda>f. f) opt defaults) = Some sel
      \<and> list serviceName w = (w1, Ok ns1) \<and> filt serviceName ns1 w1 = (w2, Ok ns2) \<and> sel serviceName ns2 w2 = (w', Ok (Some n0))
      \<and> n = set_breaker cb n0)
    \<and> trpc_Report breaker_Report (Some n) cost err v = map_prod id (map_option BreakerErr) (report n cost err v)"
proof -
  have "\<exists>list filt sel w1 w2 ns1 ns2 n0. so_Discovery (fold (\<lambda>f. f) opt defaults) = Some list
      \<and> so_ServiceRouter (fold (\<lambda>f. f) opt defaults) = Some filt \<and> so_LoadBalancer (fold (\<lambda>f. f) opt defaults) = Some sel
      \<and> list serviceName w = (w1, Ok ns1) \<and> filt serviceName ns1 w1 = (w2, Ok ns2) \<and> sel serviceName ns2 w2 = (w', Ok (Some n0))
      \<and> n = set_breaker cb n0"
    using assms(1,2) by (auto simp: trpc_Select_def Let_def split: if_splits option.splits prod.splits res.splits)
  moreover from this obtain n0 where "n = set_breaker cb n0" by blast
  then have "trpc_Report breaker_Report (Some n) cost err v = map_prod id (map_option BreakerErr) (report n cost err v)"
    using assms(3) by (simp add: trpc_Report_def set_breaker_def)
  ultimately show ?thesis by blast
qed

text \<open>The default parts: discovery that returns the name itself, no routing, random choice.\<close>

definition trpc_defaults :: "(nat \<Rightarrow> nat \<Rightarrow> nat) \<Rightarrow> 'w SelectorOptions" where
  "trpc_defaults Intn = \<lparr>so_Discovery = Some (\<lambda>s w. (w, Ok (IPDiscovery_List s))),
     so_ServiceRouter = Some (\<lambda>s ns w. (w, Ok (NoopServiceRouter_Filter s ns))),
     so_LoadBalancer = Some (\<lambda>s ns w. (w, case snd (Random_Select Intn None ns) of Ok n \<Rightarrow> Ok n | Err e \<Rightarrow> Err ''no server is available'' | Panic \<Rightarrow> Panic)),
     so_CircuitBreaker = Some 0\<rparr>"

lemma trpc_default_select:
  "s \<noteq> [] \<Longrightarrow> Intn 0 1 = 0 \<Longrightarrow> trpc_Select (trpc_defaults Intn) [] s w = (w, Ok (set_breaker 0 (addr_node s s)))"
  by (simp add: trpc_Select_def trpc_defaults_def IPDiscovery_List_def NoopServiceRouter_Filter_def Random_Select_def chooseOne_def)

theorem trpc_select_report_witness:
  "trpc_Select (trpc_defaults (\<lambda>k n. 0)) [] ''10.0.0.1:80'' [] = ([], Ok (set_breaker 0 (addr_node ''10.0.0.1:80'' ''10.0.0.1:80'')))
   \<and> trpc_Report (\<lambda>cb. Some (\<lambda>n cost err w. ((cb, Address n, err) # w, None))) (Some (set_breaker 0 (addr_node ''10.0.0.1:80'' ''10.0.0.1:80''))) 5 None []
     = ([(0, ''10.0.0.1:80'', None)], None)"
proof -
  let ?n = "set_breaker 0 (addr_node ''10.0.0.1:80'' ''10.0.0.1:80'')"
  have s: "trpc_Select (trpc_defaults (\<lambda>k n. 0)) [] ''10.0.0.1:80'' [] = ([], Ok ?n)" by (simp add: trpc_default_select)
  have c: "so_CircuitBreaker (fold (\<lambda>f. f) [] (trpc_defaults (\<lambda>k n. 0))) = Some 0" by (simp add: trpc_defaults_def)
  have "trpc_Report (\<lambda>cb. Some (\<lambda>n cost err w. ((cb, Address n, err) # w, None))) (Some ?n) 5 None []
      = map_prod id (map_option BreakerErr) (((0, Address ?n, None) # [], None) :: (go_any \<times> string \<times> string option) list \<times> string option)"
    by (rule trpc_select_report [OF s c, THEN conjunct2]) simp
  moreover have "Address ?n = ''10.0.0.1:80''" by (simp add: set_breaker_def addr_node_def)
  ultimately show ?thesis using s by simp
qed

end
