(* ===== verification/Health_Check.thy ===== *)
theory Health_Check
  imports Go_Prelude
begin

text \<open>
  Health checking (\<open>healthcheck/\<close>): services register, update their status through the function that \<open>Register\<close>
  returned, and are watched. The code keeps the services of every status beside the status of every
  service; the status of the server is computed from the sizes of these sets.
\<close>

subsection \<open>HealthCheck\<close>

type_synonym Status = int

definition Unknown :: Status where "Unknown = 0"

definition Serving :: Status where "Serving = 1"

definition NotServing :: Status where "NotServing = 2"

text \<open>The initial status of unregistered services and the watchers are options of \<open>New\<close>. Watchers are functions of the user, given by numbers; \<open>hc_calls\<close> is the ghost log of their calls.\<close>

record HealthCheck =
  unregisteredServiceStatus :: Status
  serviceStatuses :: "string \<rightharpoonup> Status"
  statusServices :: "Status \<rightharpoonup> string set"
  serviceWatchers :: "string \<Rightarrow> go_any list"
  hc_calls :: "(go_any \<times> Status) list"

definition hc_New :: "Status \<Rightarrow> (string \<Rightarrow> go_any list) \<Rightarrow> HealthCheck" where
  "hc_New unregistered watchers = \<lparr>unregisteredServiceStatus = unregistered, serviceStatuses = Map.empty,
     statusServices = [Unknown \<mapsto> {}, Serving \<mapsto> {}, NotServing \<mapsto> {}], serviceWatchers = watchers, hc_calls = []\<rparr>"

definition status_of :: "string \<Rightarrow> HealthCheck \<Rightarrow> Status" where
  "status_of name hc = (case serviceStatuses hc name of None \<Rightarrow> 0 | Some s \<Rightarrow> s)"

definition notify :: "string \<Rightarrow> Status \<Rightarrow> HealthCheck \<Rightarrow> HealthCheck" where
  "notify name s hc = hc\<lparr>hc_calls := hc_calls hc @ map (\<lambda>w. (w, s)) (serviceWatchers hc name)\<rparr>"

text \<open>\<open>delete\<close> on a nil map does nothing, a write to a nil map panics.\<close>

definition delete_service :: "string \<Rightarrow> HealthCheck \<Rightarrow> HealthCheck" where
  "delete_service name hc =
     (case statusServices hc (status_of name hc) of
        None \<Rightarrow> hc
      | Some names \<Rightarrow> hc\<lparr>statusServices := (statusServices hc)(status_of name hc \<mapsto> names - {name})\<rparr>)"

definition insert_service :: "string \<Rightarrow> Status \<Rightarrow> HealthCheck \<Rightarrow> HealthCheck option" where
  "insert_service name s hc =
     (case statusServices hc s of
        None \<Rightarrow> None
      | Some names \<Rightarrow> Some (hc\<lparr>statusServices := (statusServices hc)(s \<mapsto> insert name names)\<rparr>))"

definition hc_Register :: "string \<Rightarrow> HealthCheck \<Rightarrow> HealthCheck \<times> (string, unit) res" where
  "hc_Register name hc =
     (if serviceStatuses hc name \<noteq> None then (hc, Err (''service '' @ name @ '' has been registered''))
      else (let hc = hc\<lparr>serviceStatuses := (serviceStatuses hc)(name \<mapsto> Unknown)\<rparr>
            in case insert_service name Unknown hc of
                 None \<Rightarrow> (hc, Panic)
               | Some hc \<Rightarrow> (notify name Unknown hc, Ok ())))"

definition hc_update :: "string \<Rightarrow> Status \<Rightarrow> HealthCheck \<Rightarrow> HealthCheck \<times> (string, unit) res" where
  "hc_update name s hc =
     (let hc = delete_service name hc
      in case insert_service name s hc of
           None \<Rightarrow> (hc, Panic)
         | Some hc \<Rightarrow> (notify name s (hc\<lparr>serviceStatuses := (serviceStatuses hc)(name \<mapsto> s)\<rparr>), Ok ()))"

definition hc_Unregister :: "string \<Rightarrow> HealthCheck \<Rightarrow> HealthCheck" where
  "hc_Unregister name hc = (delete_service name hc)\<lparr>serviceStatuses := (serviceStatuses hc)(name := None)\<rparr>"

definition CheckService :: "string \<Rightarrow> HealthCheck \<Rightarrow> Status" where
  "CheckService name hc = (case serviceStatuses hc name of None \<Rightarrow> unregisteredServiceStatus hc | Some s \<Rightarrow> s)"

definition len_of :: "string set option \<Rightarrow> nat" where
  "len_of names = (case names of None \<Rightarrow> 0 | Some names \<Rightarrow> card names)"

definition CheckServer :: "HealthCheck \<Rightarrow> Status" where
  "CheckServer hc =
     (if len_of (statusServices hc Serving) = card (dom (serviceStatuses hc)) then Serving
      else if len_of (statusServices hc Unknown) \<noteq> 0 then Unknown
      else NotServing)"

definition hc_Watch :: "string \<Rightarrow> go_any \<Rightarrow> HealthCheck \<Rightarrow> HealthCheck" where
  "hc_Watch name w hc = hc\<lparr>serviceWatchers := (serviceWatchers hc)(name := serviceWatchers hc name @ [w])\<rparr>"

subsection \<open>Sequences of calls\<close>

datatype hc_op = HRegister string | HUpdate string Status | HUnregister string | HWatch string go_any

fun hc_step :: "hc_op \<Rightarrow> HealthCheck \<Rightarrow> HealthCheck \<times> (string, unit) res" where
  "hc_step (HRegister name) hc = hc_Register name hc"
| "hc_step (HUpdate name s) hc = hc_update name s hc"
| "hc_step (HUnregister name) hc = (hc_Unregister name hc, Ok ())"
| "hc_step (HWatch name w) hc = (hc_Watch name w hc, Ok ())"

definition hc_run :: "hc_op list \<Rightarrow> HealthCheck \<Rightarrow> HealthCheck" where
  "hc_run ops hc = fold (\<lambda>op hc. fst (hc_step op hc)) ops hc"

text \<open>The specification: the statuses alone.\<close>

fun hc_spec :: "hc_op \<Rightarrow> (string \<rightharpoonup> Status) \<Rightarrow> (string \<rightharpoonup> Status)" where
  "hc_spec (HRegister name) m = (if m name = None then m(name \<mapsto> Unknown) else m)"
| "hc_spec (HUpdate name s) m = m(name \<mapsto> s)"
| "hc_spec (HUnregister name) m = m(name := None)"
| "hc_spec (HWatch name w) m = m"

definition server_status :: "(string \<rightharpoonup> Status) \<Rightarrow> Status" where
  "server_status m = (if \<forall>s \<in> ran m. s = Serving then Serving else if Unknown \<in> ran m then Unknown else NotServing)"

definition known :: "Status \<Rightarrow> bool" where
  "known s \<longleftrightarrow> s \<in> {Unknown, Serving, NotServing}"

definition hc_ok :: "HealthCheck \<Rightarrow> bool" where
  "hc_ok hc \<longleftrightarrow> finite (dom (serviceStatuses hc)) \<and> (\<forall>s \<in> ran (serviceStatuses hc). known s)
     \<and> (\<forall>s. statusServices hc s = (if known s then Some {n. serviceStatuses hc n = Some s} else None))"

lemma known_simps [simp]: "known Unknown" "known Serving" "known NotServing" "known 0"
  by (simp_all add: known_def Unknown_def)

lemma hc_New_ok: "hc_ok (hc_New u ws)"
  by (auto simp: hc_ok_def hc_New_def known_def Unknown_def Serving_def NotServing_def)

lemma delete_service_ok:
  assumes "hc_ok hc"
  shows "statusServices (delete_service name hc) s = (if known s then Some ({n. serviceStatuses hc n = Some s} - {name}) else None)"
    "serviceStatuses (delete_service name hc) = serviceStatuses hc"
proof -
  have "known (status_of name hc)" using assms by (auto simp: hc_ok_def status_of_def ran_def split: option.splits)
  then show "statusServices (delete_service name hc) s = (if known s then Some ({n. serviceStatuses hc n = Some s} - {name}) else None)"
    using assms by (auto simp: hc_ok_def delete_service_def status_of_def split: option.splits)
  show "serviceStatuses (delete_service name hc) = serviceStatuses hc" by (simp add: delete_service_def split: option.split)
qed

lemma hc_step_ok:
  assumes "hc_ok hc" "case op of HUpdate n s \<Rightarrow> known s | _ \<Rightarrow> True"
  shows "hc_ok (fst (hc_step op hc)) \<and> serviceStatuses (fst (hc_step op hc)) = hc_spec op (serviceStatuses hc) \<and> snd (hc_step op hc) \<noteq> Panic"
proof (cases op)
  case (HRegister name)
  show ?thesis
  proof (cases "serviceStatuses hc name")
    case None
    then show ?thesis using assms HRegister
      by (auto simp: hc_ok_def hc_Register_def insert_service_def notify_def Let_def ran_def split: if_splits)
  qed (use assms HRegister in \<open>simp add: hc_Register_def\<close>)
next
  case (HUpdate name s)
  then have s: "known s" using assms(2) by simp
  let ?hc = "delete_service name hc"
  note d = delete_service_ok [OF assms(1), of name]
  have "hc_update name s hc = (notify name s (?hc\<lparr>statusServices := (statusServices ?hc)(s \<mapsto> insert name ({n. serviceStatuses hc n = Some s} - {name})),
      serviceStatuses := (serviceStatuses hc)(name \<mapsto> s)\<rparr>), Ok ())"
    using s by (simp add: hc_update_def insert_service_def Let_def d)
  then show ?thesis using HUpdate assms(1) s by (auto simp: hc_ok_def notify_def d ran_def)
next
  case (HUnregister name)
  then show ?thesis using assms(1) by (auto simp: hc_ok_def hc_Unregister_def delete_service_ok [OF assms(1)] ran_def)
qed (use assms in \<open>simp add: hc_ok_def hc_Watch_def\<close>)

lemma hc_run_ok:
  assumes "hc_ok hc" "\<forall>op \<in> set ops. case op of HUpdate n s \<Rightarrow> known s | _ \<Rightarrow> True"
  shows "hc_ok (hc_run ops hc) \<and> serviceStatuses (hc_run ops hc) = fold hc_spec ops (serviceStatuses hc)"
  using assms
proof (induction ops arbitrary: hc)
  case (Cons op ops)
  then show ?case using hc_step_ok [OF Cons.prems(1), of op] Cons.IH [of "fst (hc_step op hc)"] by (simp add: hc_run_def)
qed (simp add: hc_run_def)

lemma CheckServer_eq:
  assumes "hc_ok hc"
  shows "CheckServer hc = server_status (serviceStatuses hc)"
proof -
  let ?m = "serviceStatuses hc" and ?S = "\<lambda>s. {n. serviceStatuses hc n = Some s}"
  have fin: "finite (dom ?m)" and len: "known s \<Longrightarrow> len_of (statusServices hc s) = card (?S s)" for s
    using assms by (simp_all add: hc_ok_def len_of_def)
  have sub: "?S s \<subseteq> dom ?m" for s by auto
  have "card (?S Serving) = card (dom ?m) \<longleftrightarrow> ?S Serving = dom ?m" using card_subset_eq [OF fin sub] by auto
  also have "\<dots> \<longleftrightarrow> (\<forall>s \<in> ran ?m. s = Serving)"
    by (auto simp: ran_def dom_def set_eq_iff) (metis option.inject)
  finally have all: "card (?S Serving) = card (dom ?m) \<longleftrightarrow> (\<forall>s \<in> ran ?m. s = Serving)" .
  have "card (?S Unknown) \<noteq> 0 \<longleftrightarrow> Unknown \<in> ran ?m"
    using finite_subset [OF sub fin, of Unknown] by (auto simp: ran_def)
  with all show ?thesis by (simp add: CheckServer_def server_status_def len)
qed

text \<open>C40: the health of the server follows from the statuses of its services. After any calls that register,
  update to one of the three statuses, unregister and watch, no call has panicked, every service has the
  status it was last given, and the status of the server, which the code computes from the sizes of its
  sets, is serving if all services are, otherwise unknown if one is, and otherwise not serving.\<close>

theorem health_check_correct:
  fixes u :: Status and ws :: "string \<Rightarrow> go_any list"
  assumes "\<forall>op \<in> set ops. case op of HUpdate n s \<Rightarrow> known s | _ \<Rightarrow> True"
  defines "hc \<equiv> hc_run ops (hc_New u ws)" and "m \<equiv> fold hc_spec ops Map.empty"
  shows "CheckServer hc = server_status m \<and> CheckService name hc = (case m name of None \<Rightarrow> unregisteredServiceStatus hc | Some s \<Rightarrow> s)
    \<and> (\<forall>op. (case op of HUpdate n s \<Rightarrow> known s | _ \<Rightarrow> True) \<longrightarrow> snd (hc_step op hc) \<noteq> Panic)"
proof -
  have r: "hc_ok hc" "serviceStatuses hc = m"
    using hc_run_ok [OF hc_New_ok assms(1), of u ws] by (simp_all add: hc_def m_def) (simp add: hc_New_def)
  then show ?thesis using CheckServer_eq [OF r(1)] hc_step_ok [OF r(1)] by (simp add: CheckService_def)
qed

theorem health_check_correct_witness:
  "known Serving
   \<and> CheckServer (hc_run [HRegister ''a'', HUpdate ''a'' Serving, HRegister ''b''] (hc_New Unknown (\<lambda>_. []))) = Unknown"
proof -
  have k: "\<forall>op \<in> set [HRegister ''a'', HUpdate ''a'' Serving, HRegister ''b'']. case op of HUpdate n s \<Rightarrow> known s | _ \<Rightarrow> True" by simp
  have "server_status (fold hc_spec [HRegister ''a'', HUpdate ''a'' Serving, HRegister ''b''] Map.empty) = Unknown"
  proof -
    have u: "Unknown \<in> ran (fold hc_spec [HRegister ''a'', HUpdate ''a'' Serving, HRegister ''b''] Map.empty)"
      by (rule ranI [of _ "''b''"]) simp
    have "Unknown \<noteq> Serving" by (simp add: Unknown_def Serving_def)
    with u show ?thesis unfolding server_status_def by (metis (no_types))
  qed
  with health_check_correct [OF k, of Unknown "\<lambda>_. []"] k show ?thesis by simp
qed

text \<open>The function that \<open>Register\<close> returned still works after \<open>Unregister\<close>: a late update registers the
  service again, and then it cannot be registered any more.\<close>

lemma late_update_registers:
  assumes "hc_ok hc" "known s"
  shows "serviceStatuses (fst (hc_update name s (hc_Unregister name hc))) name = Some s"
    "snd (hc_Register name (fst (hc_update name s (hc_Unregister name hc)))) = Err (''service '' @ name @ '' has been registered'')"
proof -
  have "hc_ok (hc_Unregister name hc)" using hc_step_ok [OF assms(1), of "HUnregister name"] by simp
  from hc_step_ok [OF this, of "HUpdate name s"] assms(2)
  show s: "serviceStatuses (fst (hc_update name s (hc_Unregister name hc))) name = Some s" by simp
  then show "snd (hc_Register name (fst (hc_update name s (hc_Unregister name hc)))) = Err (''service '' @ name @ '' has been registered'')" by (simp add: hc_Register_def)
qed

text \<open>A status that is none of the three panics, after the service has been removed from its set.\<close>

lemma unknown_status_panics:
  assumes "hc_ok hc" "\<not> known s"
  shows "snd (hc_update name s hc) = Panic"
  using assms by (simp add: hc_update_def insert_service_def delete_service_ok [OF assms(1)])

end
