(* ===== verification/Span_Store.thy ===== *)
theory Span_Store
  imports Go_Prelude
begin

text \<open>
  The store of ended tracing spans (\<open>rpcz/spanarray.go\<close>, \<open>rpcz/spanstore.go\<close>): a circular array with 32-bit
  indices and a table by span id, which together refine a list of the most recent spans. Spans are
  pointers into a store of span values, since an expired span is cleared for reuse.
\<close>

subsection \<open>spanArray\<close>

type_synonym span_ref = nat

record spanArray =
  sa_capacity :: u32
  sa_length :: u32
  sa_data :: "span_ref option list"
  sa_head :: u32
  sa_tail :: u32

definition newSpanArray :: "u32 \<Rightarrow> (unit, spanArray) res" where
  "newSpanArray capacity =
     (if capacity = 0 then Panic
      else Ok \<lparr>sa_capacity = capacity, sa_length = 0, sa_data = replicate (unat capacity) None, sa_head = 0, sa_tail = 0\<rparr>)"

definition nextIndex :: "spanArray \<Rightarrow> u32 \<Rightarrow> u32" where
  "nextIndex a index = (index + 1) mod sa_capacity a"

definition previousIndex :: "spanArray \<Rightarrow> u32 \<Rightarrow> u32" where
  "previousIndex a index = (index + sa_capacity a - 1) mod sa_capacity a"

definition sa_full :: "spanArray \<Rightarrow> bool" where
  "sa_full a \<longleftrightarrow> sa_length a \<ge> sa_capacity a"

definition sa_front :: "spanArray \<Rightarrow> span_ref option" where
  "sa_front a = sa_data a ! unat (sa_head a)"

definition sa_dequeue :: "spanArray \<Rightarrow> spanArray" where
  "sa_dequeue a = a\<lparr>sa_head := nextIndex a (sa_head a), sa_length := sa_length a - 1\<rparr>"

definition sa_enqueue :: "span_ref \<Rightarrow> spanArray \<Rightarrow> spanArray" where
  "sa_enqueue v a =
     (let a = (if sa_full a then sa_dequeue a else a);
          a = a\<lparr>sa_data := (sa_data a)[unat (sa_tail a) := Some v]\<rparr>
      in a\<lparr>sa_tail := nextIndex a (sa_tail a), sa_length := sa_length a + 1\<rparr>)"

text \<open>The function that is called for every span works on a state and returns whether to go on.\<close>

fun doBackward_loop :: "nat \<Rightarrow> u32 \<Rightarrow> (span_ref option \<Rightarrow> 'st \<Rightarrow> 'st \<times> bool) \<Rightarrow> spanArray \<Rightarrow> 'st \<Rightarrow> 'st" where
  "doBackward_loop 0 iter f a st = st"
| "doBackward_loop (Suc n) iter f a st =
     (let iter = previousIndex a iter; (st, go) = f (sa_data a ! unat iter) st
      in if go then doBackward_loop n iter f a st else st)"

definition doBackward :: "(span_ref option \<Rightarrow> 'st \<Rightarrow> 'st \<times> bool) \<Rightarrow> spanArray \<Rightarrow> 'st \<Rightarrow> 'st" where
  "doBackward f a st = doBackward_loop (unat (sa_length a)) (sa_tail a) f a st"

subsection \<open>The array is a queue\<close>

definition sa_at :: "spanArray \<Rightarrow> nat \<Rightarrow> nat" where
  "sa_at a i = (unat (sa_head a) + i) mod unat (sa_capacity a)"

definition sa_ok :: "spanArray \<Rightarrow> bool" where
  "sa_ok a \<longleftrightarrow> 0 < sa_capacity a \<and> unat (sa_capacity a) \<le> 2 ^ 31 \<and> length (sa_data a) = unat (sa_capacity a)
     \<and> sa_head a < sa_capacity a \<and> sa_length a \<le> sa_capacity a \<and> unat (sa_tail a) = sa_at a (unat (sa_length a))
     \<and> (\<forall>i < unat (sa_length a). sa_data a ! sa_at a i \<noteq> None)"

definition sa_list :: "spanArray \<Rightarrow> span_ref list" where
  "sa_list a = map (\<lambda>i. the (sa_data a ! sa_at a i)) [0..<unat (sa_length a)]"

lemma unat_nextIndex:
  assumes "i < sa_capacity a" "unat (sa_capacity a) \<le> 2 ^ 31"
  shows "unat (nextIndex a i) = (unat i + 1) mod unat (sa_capacity a)"
proof -
  have "unat i + 1 < 2 ^ 32" using assms by (simp add: word_less_nat_alt)
  then have "unat (i + 1) = unat i + 1" by (simp add: unat_word_ariths)
  then show ?thesis by (simp add: nextIndex_def unat_mod)
qed

lemma unat_previousIndex:
  assumes "i < sa_capacity a" "unat (sa_capacity a) \<le> 2 ^ 31"
  shows "unat (previousIndex a i) = (unat i + unat (sa_capacity a) - 1) mod unat (sa_capacity a)"
proof -
  have lt: "unat i < unat (sa_capacity a)" using assms(1) by (simp add: word_less_nat_alt)
  then have "unat (i + sa_capacity a) = unat i + unat (sa_capacity a)"
    using assms(2) by (simp add: unat_word_ariths)
  moreover from this lt have "1 \<le> i + sa_capacity a" by (simp add: word_le_nat_alt)
  ultimately have "unat (i + sa_capacity a - 1) = unat i + unat (sa_capacity a) - 1" by (simp add: unat_sub)
  then show ?thesis by (simp add: previousIndex_def unat_mod)
qed

lemma newSpanArray_ok:
  assumes "0 < c" "unat c \<le> 2 ^ 31"
  shows "\<exists>a. newSpanArray c = Ok a \<and> sa_ok a \<and> sa_list a = [] \<and> sa_capacity a = c"
  using assms by (auto simp: newSpanArray_def sa_ok_def sa_list_def sa_at_def)

lemma sa_dequeue_ok:
  assumes "sa_ok a" "0 < unat (sa_length a)"
  shows "sa_ok (sa_dequeue a) \<and> sa_list (sa_dequeue a) = tl (sa_list a) \<and> unat (sa_length (sa_dequeue a)) = unat (sa_length a) - 1
    \<and> sa_capacity (sa_dequeue a) = sa_capacity a"
proof -
  let ?a = "sa_dequeue a" and ?c = "unat (sa_capacity a)" and ?n = "unat (sa_length a)"
  have c: "0 < ?c" using assms(1) by (simp add: sa_ok_def word_less_nat_alt)
  have h: "unat (sa_head ?a) = (unat (sa_head a) + 1) mod ?c"
    using unat_nextIndex [of "sa_head a" a] assms(1) by (simp add: sa_dequeue_def sa_ok_def)
  have n: "unat (sa_length ?a) = ?n - 1"
    using assms(2) by (simp add: sa_dequeue_def unat_sub word_le_nat_alt)
  have at: "sa_at ?a i = sa_at a (i + 1)" for i
    using h by (simp add: sa_at_def sa_dequeue_def mod_simps ac_simps)
  have "sa_head ?a < sa_capacity a" using h c by (simp add: word_less_nat_alt)
  moreover have "sa_length ?a \<le> sa_capacity a" using n assms(1) by (simp add: word_le_nat_alt sa_ok_def) linarith
  moreover have "unat (sa_tail ?a) = sa_at ?a (unat (sa_length ?a))" using assms n at by (simp add: sa_ok_def sa_dequeue_def)
  moreover have "\<forall>i < unat (sa_length ?a). sa_data ?a ! sa_at ?a i \<noteq> None"
    using assms n at by (simp add: sa_ok_def) (simp add: sa_dequeue_def)
  ultimately have "sa_ok ?a" using assms(1) unfolding sa_ok_def by (simp add: sa_dequeue_def)
  moreover have "sa_list ?a = tl (sa_list a)"
    using assms(2) n at by (cases ?n) (simp_all add: sa_list_def upt_conv_Cons map_Suc_upt [symmetric] comp_def sa_dequeue_def del: upt_Suc)
  ultimately show ?thesis using n by (simp add: sa_dequeue_def)
qed

lemma sa_at_inj:
  assumes "sa_at a i = sa_at a j" "i < unat (sa_capacity a)" "j < unat (sa_capacity a)"
  shows "i = j"
proof -
  have "(unat (sa_head a) + i) mod unat (sa_capacity a) = (unat (sa_head a) + j) mod unat (sa_capacity a)" using assms(1) by (simp add: sa_at_def)
  then have "i mod unat (sa_capacity a) = j mod unat (sa_capacity a)" by (simp add: mod_add_left_eq nat_mod_eq_iff)
  with assms(2,3) show ?thesis by simp
qed

lemma sa_put_ok:
  fixes v :: span_ref
  assumes "sa_ok a" "unat (sa_length a) < unat (sa_capacity a)"
  defines "b \<equiv> a\<lparr>sa_data := (sa_data a)[unat (sa_tail a) := Some v]\<rparr>"
  defines "a' \<equiv> b\<lparr>sa_tail := nextIndex b (sa_tail b), sa_length := sa_length b + 1\<rparr>"
  shows "sa_ok a' \<and> sa_list a' = sa_list a @ [v] \<and> unat (sa_length a') = unat (sa_length a) + 1 \<and> sa_capacity a' = sa_capacity a"
proof -
  let ?c = "unat (sa_capacity a)" and ?n = "unat (sa_length a)"
  have c: "0 < ?c" "?c \<le> 2 ^ 31" "length (sa_data a) = ?c" and tail: "unat (sa_tail a) = sa_at a ?n"
    using assms(1) by (simp_all add: sa_ok_def word_less_nat_alt)
  have lt: "sa_at a i < ?c" for i using c(1) by (simp add: sa_at_def)
  have n: "unat (sa_length a') = ?n + 1" using assms(2) c(2) by (simp add: a'_def b_def unat_word_ariths)
  have at: "sa_at a' i = sa_at a i" for i by (simp add: a'_def b_def sa_at_def)
  have "sa_tail a < sa_capacity a" using lt tail by (simp add: word_less_nat_alt)
  then have "unat (sa_tail a') = (unat (sa_tail a) + 1) mod ?c"
    using unat_nextIndex [of "sa_tail b" b] c(2) by (simp add: a'_def b_def)
  then have t: "unat (sa_tail a') = sa_at a' (unat (sa_length a'))" unfolding n at tail by (simp add: sa_at_def mod_simps)
  have old: "sa_data a' ! sa_at a i = (if i = ?n then Some v else sa_data a ! sa_at a i)" if "i < ?n + 1" for i
    using sa_at_inj [of a i ?n] that assms(2) lt c(3) tail by (auto simp: a'_def b_def nth_list_update)
  have "sa_ok a'"
    using assms(1,2) n t old unfolding sa_ok_def at by (auto simp: a'_def b_def word_le_nat_alt less_Suc_eq)
  moreover have "sa_list a' = sa_list a @ [v]" using old by (auto simp: sa_list_def n at)
  ultimately show ?thesis using n by (simp add: a'_def b_def)
qed

lemma sa_full_iff: "sa_ok a \<Longrightarrow> sa_full a \<longleftrightarrow> unat (sa_length a) = unat (sa_capacity a)"
  by (auto simp: sa_full_def sa_ok_def word_le_nat_alt)

lemma sa_enqueue_ok:
  assumes "sa_ok a"
  shows "sa_ok (sa_enqueue v a) \<and> sa_list (sa_enqueue v a) = (if sa_full a then tl (sa_list a) else sa_list a) @ [v]
    \<and> sa_capacity (sa_enqueue v a) = sa_capacity a"
proof (cases "sa_full a")
  case True
  have pos: "0 < unat (sa_length a)" using True assms by (simp add: sa_full_iff [OF assms] sa_ok_def word_less_nat_alt)
  note d = sa_dequeue_ok [OF assms pos]
  have "unat (sa_length (sa_dequeue a)) < unat (sa_capacity (sa_dequeue a))" using d True pos sa_full_iff [OF assms] by simp
  from sa_put_ok [OF _ this, of v] d True show ?thesis by (simp add: sa_enqueue_def Let_def)
next
  case False
  then have "unat (sa_length a) < unat (sa_capacity a)" using assms sa_full_iff [OF assms] by (auto simp: sa_ok_def word_le_nat_alt)
  from sa_put_ok [OF assms this, of v] False show ?thesis by (simp add: sa_enqueue_def Let_def)
qed

lemma sa_front_list: "sa_ok a \<Longrightarrow> 0 < unat (sa_length a) \<Longrightarrow> sa_front a = Some (hd (sa_list a))"
proof -
  assume a: "sa_ok a" "0 < unat (sa_length a)"
  have "sa_at a 0 = unat (sa_head a)" using a by (simp add: sa_at_def sa_ok_def word_less_nat_alt)
  with a show ?thesis by (auto simp: sa_front_def sa_list_def sa_ok_def hd_map upt_conv_Cons)
qed

text \<open>Backwards over the list.\<close>

fun visit :: "(span_ref option \<Rightarrow> 'st \<Rightarrow> 'st \<times> bool) \<Rightarrow> span_ref list \<Rightarrow> 'st \<Rightarrow> 'st" where
  "visit f [] st = st"
| "visit f (s # ss) st = (case f (Some s) st of (st, go) \<Rightarrow> if go then visit f ss st else st)"

lemma doBackward_loop_visit:
  assumes "sa_ok a" "n \<le> unat (sa_length a)" "unat iter = sa_at a n"
  shows "doBackward_loop n iter f a st = visit f (rev (take n (sa_list a))) st"
  using assms
proof (induction n arbitrary: iter st)
  case (Suc n)
  let ?c = "unat (sa_capacity a)"
  have c: "0 < ?c" "?c \<le> 2 ^ 31" using Suc.prems(1) by (simp_all add: sa_ok_def word_less_nat_alt)
  have "iter < sa_capacity a" using Suc.prems(3) c(1) by (simp add: word_less_nat_alt sa_at_def)
  then have "unat (previousIndex a iter) = (sa_at a (Suc n) + ?c - 1) mod ?c" using unat_previousIndex c(2) Suc.prems(3) by simp
  also have "\<dots> = (unat (sa_head a) + n) mod ?c"
  proof -
    have "(sa_at a (Suc n) + ?c - 1) mod ?c = (sa_at a (Suc n) + (?c - 1)) mod ?c" using c(1) by simp
    also have "\<dots> = (unat (sa_head a) + Suc n + (?c - 1)) mod ?c" by (simp add: sa_at_def mod_add_left_eq)
    also have "unat (sa_head a) + Suc n + (?c - 1) = unat (sa_head a) + n + ?c" using c(1) by simp
    finally show ?thesis by simp
  qed
  finally have p: "unat (previousIndex a iter) = sa_at a n" by (simp add: sa_at_def)
  have n: "n < unat (sa_length a)" using Suc.prems(2) by simp
  then obtain s where s: "sa_data a ! sa_at a n = Some s" using Suc.prems(1) by (auto simp: sa_ok_def)
  then have "sa_list a ! n = s" "n < length (sa_list a)" using n by (simp_all add: sa_list_def)
  then have "rev (take (Suc n) (sa_list a)) = s # rev (take n (sa_list a))" by (simp add: take_Suc_conv_app_nth)
  with Suc.IH [OF Suc.prems(1) _ p] n s p show ?case by (auto simp: Let_def split: prod.split)
qed simp

lemma doBackward_visit: "sa_ok a \<Longrightarrow> doBackward f a st = visit f (rev (sa_list a)) st"
  using doBackward_loop_visit [of a "unat (sa_length a)" "sa_tail a" f st] by (simp add: doBackward_def sa_ok_def sa_list_def)

subsection \<open>spanStore\<close>

text \<open>\<open>ids\<close> is the \<open>id\<close> field of the spans. An expired span is handed to \<open>putSpanToPool\<close>, which clears it; it is the
  second result.\<close>

record spanStore =
  idSpans :: "int \<rightharpoonup> span_ref"
  ss_spans :: spanArray

definition newSpanStore :: "u32 \<Rightarrow> (unit, spanStore) res" where
  "newSpanStore capacity = (case newSpanArray capacity of Ok a \<Rightarrow> Ok \<lparr>idSpans = Map.empty, ss_spans = a\<rparr> | Err e \<Rightarrow> Err e | Panic \<Rightarrow> Panic)"

definition ss_insert :: "(span_ref \<Rightarrow> int) \<Rightarrow> span_ref \<Rightarrow> spanStore \<Rightarrow> (unit, spanStore \<times> span_ref option) res" where
  "ss_insert ids s ss =
     (let add = (\<lambda>ss. ss\<lparr>ss_spans := sa_enqueue s (ss_spans ss), idSpans := (idSpans ss)(ids s \<mapsto> s)\<rparr>)
      in if sa_full (ss_spans ss) then
           (case sa_front (ss_spans ss) of
              None \<Rightarrow> Panic
            | Some expiredSpan \<Rightarrow>
                Ok (add (ss\<lparr>ss_spans := sa_dequeue (ss_spans ss), idSpans := (idSpans ss)(ids expiredSpan := None)\<rparr>), Some expiredSpan))
         else Ok (add ss, None))"

definition ss_query :: "int \<Rightarrow> spanStore \<Rightarrow> span_ref option" where
  "ss_query i ss = idSpans ss i"

definition ss_batchQuery :: "int \<Rightarrow> spanStore \<Rightarrow> span_ref list" where
  "ss_batchQuery num ss =
     snd (doBackward (\<lambda>s (num, spans). if num \<le> 0 then ((num, spans), False) else ((num - 1, spans @ [the s]), True)) (ss_spans ss) (num, []))"

fun ss_run :: "(span_ref \<Rightarrow> int) \<Rightarrow> span_ref list \<Rightarrow> spanStore \<Rightarrow> (unit, spanStore) res" where
  "ss_run ids [] ss = Ok ss"
| "ss_run ids (s # rest) ss = (case ss_insert ids s ss of Ok (ss, _) \<Rightarrow> ss_run ids rest ss | Err e \<Rightarrow> Err e | Panic \<Rightarrow> Panic)"

text \<open>The most recent \<open>c\<close> elements.\<close>

definition recent :: "nat \<Rightarrow> 'x list \<Rightarrow> 'x list" where
  "recent c xs = drop (length xs - c) xs"

lemma recent_snoc: "0 < c \<Longrightarrow> recent c (xs @ [x]) = (if length (recent c xs) = c then tl (recent c xs) else recent c xs) @ [x]"
  by (auto simp: recent_def drop_Suc Suc_diff_le tl_drop [symmetric])

definition ss_holds :: "(span_ref \<Rightarrow> int) \<Rightarrow> u32 \<Rightarrow> span_ref list \<Rightarrow> spanStore \<Rightarrow> bool" where
  "ss_holds ids c ss st \<longleftrightarrow> sa_ok (ss_spans st) \<and> sa_capacity (ss_spans st) = c \<and> sa_list (ss_spans st) = recent (unat c) ss
     \<and> (\<forall>i s. idSpans st i = Some s \<longleftrightarrow> s \<in> set (recent (unat c) ss) \<and> ids s = i)"

lemma length_sa_list [simp]: "length (sa_list a) = unat (sa_length a)"
  by (simp add: sa_list_def)

lemma ss_insert_ok:
  assumes h: "ss_holds ids c xs st" and inj: "inj_on ids (set (xs @ [s]))" "distinct (xs @ [s])"
  shows "\<exists>st' e. ss_insert ids s st = Ok (st', e) \<and> ss_holds ids c (xs @ [s]) st'"
proof -
  let ?a = "ss_spans st" and ?r = "recent (unat c) xs"
  have a: "sa_ok ?a" "sa_capacity ?a = c" "sa_list ?a = ?r" and q: "idSpans st i = Some x \<longleftrightarrow> x \<in> set ?r \<and> ids x = i" for i x
    using h by (auto simp: ss_holds_def)
  have c: "0 < unat c" using a(1,2) by (simp add: sa_ok_def word_less_nat_alt)
  have sub: "set ?r \<subseteq> set xs" by (auto simp: recent_def dest: in_set_dropD)
  have dist: "distinct ?r" using inj(2) by (simp add: recent_def)
  have full: "sa_full ?a \<longleftrightarrow> length ?r = unat c" using sa_full_iff [OF a(1)] a(2) a(3) [symmetric] by simp
  have inj': "x \<in> set xs \<Longrightarrow> y \<in> set xs \<Longrightarrow> ids x = ids y \<Longrightarrow> x = y" "x \<in> set xs \<Longrightarrow> ids x \<noteq> ids s" for x y
    using inj by (auto simp: inj_on_def)
  show ?thesis
  proof (cases "sa_full ?a")
    case True
    then have pos: "0 < unat (sa_length ?a)" using full c a(3) by (metis length_sa_list)
    then obtain e r where r: "?r = e # r" using a(3) by (cases ?r) (auto simp flip: length_sa_list)
    have front: "sa_front ?a = Some e" using sa_front_list [OF a(1) pos] a(3) r by simp
    note d = sa_dequeue_ok [OF a(1) pos]
    have nf: "\<not> sa_full (sa_dequeue ?a)" using d sa_full_iff [of "sa_dequeue ?a"] sa_full_iff [OF a(1)] True pos by simp
    let ?st = "st\<lparr>ss_spans := sa_enqueue s (sa_dequeue ?a), idSpans := ((idSpans st)(ids e := None))(ids s \<mapsto> s)\<rparr>"
    have "ss_insert ids s st = Ok (?st, Some e)" using True front by (simp add: ss_insert_def Let_def)
    moreover have rec: "recent (unat c) (xs @ [s]) = r @ [s]" using recent_snoc [OF c, of xs s] True full r by simp
    have "idSpans ?st i = Some x \<longleftrightarrow> x \<in> set (r @ [s]) \<and> ids x = i" for i x
      using q [of i x] r dist sub inj' inj(2) by (auto; fastforce)
    then have "ss_holds ids c (xs @ [s]) ?st"
      using sa_enqueue_ok [of "sa_dequeue ?a" s] d nf a r rec by (simp add: ss_holds_def)
    ultimately show ?thesis by blast
  next
    case False
    let ?st = "st\<lparr>ss_spans := sa_enqueue s ?a, idSpans := (idSpans st)(ids s \<mapsto> s)\<rparr>"
    have "ss_insert ids s st = Ok (?st, None)" using False by (simp add: ss_insert_def Let_def)
    moreover have rec: "recent (unat c) (xs @ [s]) = ?r @ [s]" using recent_snoc [OF c, of xs s] False full by simp
    have "idSpans ?st i = Some x \<longleftrightarrow> x \<in> set (?r @ [s]) \<and> ids x = i" for i x
      using q [of i x] sub inj' inj(2) by auto
    then have "ss_holds ids c (xs @ [s]) ?st" using sa_enqueue_ok [OF a(1), of s] False a rec by (simp add: ss_holds_def)
    ultimately show ?thesis by blast
  qed
qed

lemma ss_run_ok:
  assumes "ss_holds ids c xs st" "inj_on ids (set (xs @ ys))" "distinct (xs @ ys)"
  shows "\<exists>st'. ss_run ids ys st = Ok st' \<and> ss_holds ids c (xs @ ys) st'"
  using assms
proof (induction ys arbitrary: xs st)
  case (Cons y ys)
  have "inj_on ids (set (xs @ [y]))" "distinct (xs @ [y])" using Cons.prems(2,3) by (auto simp: inj_on_def)
  from ss_insert_ok [OF Cons.prems(1) this] obtain st1 e where "ss_insert ids y st = Ok (st1, e)" "ss_holds ids c (xs @ [y]) st1" by blast
  with Cons.IH [of "xs @ [y]" st1] Cons.prems(2,3) show ?case by simp
qed auto

lemma batch_visit:
  "snd (visit (\<lambda>s (num, spans). if num \<le> 0 then ((num, spans), False) else ((num - 1, spans @ [the s]), True)) xs (num, acc))
    = acc @ take (nat num) xs"
proof (induction xs arbitrary: num acc)
  case (Cons x xs)
  show ?case
  proof (cases "num \<le> 0")
    case False
    then have "nat num = Suc (nat (num - 1))" by simp
    with Cons False show ?thesis by simp
  qed simp
qed simp

text \<open>the store holds the most recent spans. After any number of spans with different ids have been recorded
  in a store of capacity \<open>c\<close>, up to \<open>2^31\<close>, a query by id finds exactly the spans among the last \<open>c\<close>, and a
  batch query returns the most recent ones, newest first.\<close>

theorem span_store_recent:
  assumes "0 < c" "unat c \<le> 2 ^ 31" "inj_on ids (set xs)" "distinct xs"
  shows "\<exists>st0 st. newSpanStore c = Ok st0 \<and> ss_run ids xs st0 = Ok st
    \<and> ss_batchQuery num st = take (nat num) (rev (recent (unat c) xs))
    \<and> (\<forall>i s. ss_query i st = Some s \<longleftrightarrow> s \<in> set (recent (unat c) xs) \<and> ids s = i)"
proof -
  obtain a where a: "newSpanArray c = Ok a" "sa_ok a" "sa_list a = []" "sa_capacity a = c" using newSpanArray_ok [OF assms(1,2)] by blast
  let ?st = "\<lparr>idSpans = Map.empty, ss_spans = a\<rparr>"
  have "ss_holds ids c [] ?st" using a by (simp add: ss_holds_def recent_def)
  from ss_run_ok [OF this, of xs] assms obtain st where "ss_run ids xs ?st = Ok st" "ss_holds ids c xs st" by auto
  moreover from this have "ss_batchQuery num st = take (nat num) (rev (recent (unat c) xs))"
    by (simp add: ss_batchQuery_def ss_holds_def doBackward_visit batch_visit)
  ultimately show ?thesis using a(1) by (auto simp: newSpanStore_def ss_query_def ss_holds_def)
qed

theorem span_store_recent_witness:
  "\<exists>st0 st. newSpanStore 2 = Ok st0 \<and> ss_run int [4, 5, 6] st0 = Ok st \<and> ss_batchQuery 5 st = [6, 5] \<and> ss_query 4 st = None"
proof -
  have "inj_on int (set [4, 5, 6])" "distinct [4, 5, 6 :: nat]" by (auto simp: inj_on_def)
  from span_store_recent [of 2 int "[4, 5, 6]" 5, OF _ _ this] obtain st0 st where s: "newSpanStore 2 = Ok st0" "ss_run int [4, 5, 6] st0 = Ok st"
    "ss_batchQuery 5 st = take (nat 5) (rev (recent (unat (2 :: u32)) [4, 5, 6]))"
    "\<forall>i s. ss_query i st = Some s \<longleftrightarrow> s \<in> set (recent (unat (2 :: u32)) [4, 5, 6]) \<and> int s = i" by auto
  have r: "recent (unat (2 :: u32)) [4, 5, 6 :: nat] = [5, 6]" by (simp add: recent_def)
  have "ss_query 4 st = None" using s(4) unfolding r by (cases "ss_query 4 st") auto
  moreover have "ss_batchQuery 5 st = [6, 5]" using s(3) unfolding r by simp
  ultimately show ?thesis using s(1,2) by blast
qed

end
