(* ===== verification/Spec2Isabelle.thy ===== *)
theory Spec2Isabelle
  imports Go_Prelude Naming Load_Balance Consistent_Hash Go_Stack Http_Rule Http_Rule_Proofs Http_Match
    Keyed_Table Router_Trie Errs RPC_Name Message Frame Stream_Codec Trpc_Codec Codec_Roundtrip
    Fifo Ring_Buffer Fifo_Queue Plugin_Setup Flow_Control Stream_Dispatcher Conn_List Conn_Pool
    Double_Array Double_Array_Proofs Mux Mux_Proofs
    Call_Errors Body_Codec Filter_Chain Server_Service Server_Proofs Client_Call Client_Proofs Rpc_Call
    Stream_Client Stream_Session
    Byte_Alloc Link_Buffer Link_Buffer_Proofs Packet_Buffer Keep_Order Selectors Health_Check Span_Store
begin

text \<open>
  A verification library for trpc-go, an RPC framework. The theories model the logic of the framework as
  Isabelle functions and step relations, translated from the Go sources under \<open>src/\<close>, and prove what
  makes each part correct; where the code does not do what it means to, a theorem shows how.

  \<^bold>\<open>How the program is put together.\<close> A client call (\<open>client/client.go\<close>) resolves its target, updates the
  message of the call (\<open>codec/message_impl.go\<close>), runs a chain of filters (\<open>filter/filter.go\<close>) of which the
  last selects a node (\<open>naming/\<close>), serializes and compresses the body (\<open>codec/serialization.go\<close>,
  \<open>codec/compress.go\<close>), packs it into a frame (\<open>codec.go\<close>, \<open>codec_stream.go\<close>) and sends it over a connection
  from one of two pools (\<open>pool/connpool\<close>, \<open>pool/multiplexed\<close>). A server connection
  (\<open>transport/server_transport_tcp.go\<close>) reads frames and hands them to a service (\<open>server/service.go\<close>), which
  decodes them, asks overload control, dispatches to a handler inside its filters and encodes the response
  or the error (\<open>errs/errs.go\<close>). Streams (\<open>stream/\<close>) multiplex several conversations over a connection with
  flow control. HTTP requests reach the same handlers through the RESTful router (\<open>restful/\<close>,
  \<open>internal/httprule\<close>, \<open>internal/dat\<close>). Plugins are set up once at start (\<open>plugin/\<close>).

  \<^bold>\<open>Conventions.\<close> \<open>Go_Prelude\<close> fixes them: a function that may fail or panic returns \<open>res\<close> (\<open>Ok\<close>, \<open>Err\<close>, \<open>Panic\<close>);
  structs are records, interfaces with known implementations are datatypes, nil is \<open>None\<close>; fixed-width
  integers are words wherever wrap-around matters and integers elsewhere; maps whose order or nilness
  matters are association lists. Code that is not under \<open>src/\<close> (protocol buffers, compressors, the network,
  clocks, random numbers, user code) is an argument, and what is relied on of it is a named hypothesis of
  the theorems. Goroutines are interleavings of steps, one step per locked section.

  \<^bold>\<open>The call path.\<close>
  \<^item> \<open>RPC_Name\<close>, \<open>Message\<close>: service and method names, the message and its cloning (\<open>codec/message_impl.go\<close>,
    \<open>internal/attachment\<close>). \<open>Errs\<close>, \<open>Call_Errors\<close>: error values and chains, and errors as pointers into a store,
    as the call path compares and changes them.
  \<^item> \<open>Frame\<close>, \<open>Trpc_Codec\<close>, \<open>Codec_Roundtrip\<close>: the frame head, the framer, the unary codecs. What the framer
    accepts is bounded and delimited; a stream of frames is read back frame by frame; requests and responses
    survive the round trip, with the errors they carry; two overflows of the attachment size panic.
  \<^item> \<open>Stream_Codec\<close>: the streaming codecs refine a table of open streams per connection.
  \<^item> \<open>Body_Codec\<close>, \<open>Filter_Chain\<close>: body formats (the locale \<open>body_format\<close> is the contract of a serializer and
    a compressor) and the order in which filters run.
  \<^item> \<open>Server_Service\<close>, \<open>Server_Proofs\<close>: serving a request, registration, keep-order entry points. Tokens and the
    count of active requests are balanced unless a handler panics; three ways in which errors go wrong.
  \<^item> \<open>Client_Call\<close>, \<open>Client_Proofs\<close>: \<open>Invoke\<close>, the selector filter and \<open>callFunc\<close>; every attempt is reported once.
  \<^item> \<open>Rpc_Call\<close>: client, codecs and service composed over a wire. A call returns what the implementation
    returned, and fails the way it failed.

  \<^bold>\<open>Choosing nodes and connections.\<close>
  \<^item> \<open>Naming\<close>, \<open>Load_Balance\<close>, \<open>Consistent_Hash\<close>: banned nodes and the random, round-robin, smooth weighted
    and consistent-hash balancers (\<open>naming/\<close>). Banned nodes are not chosen again, picks are proportional to
    the weights in every period, adding or removing a node moves only its own keys. The locale \<open>picker\<close> is the
    contract of a balancer that rebuilds its state when the node list changes.
  \<^item> \<open>Selectors\<close> (\<open>naming/selector\<close>): the selectors for address lists and for names that pass through, and the one
    that puts discovery, router, balancer and circuit breaker together. Retries go to different addresses,
    and outcomes reach the circuit breaker that was chosen. The locale \<open>ban_selector\<close> is the contract of a
    selector that obeys a mandatory ban list.
  \<^item> \<open>Conn_List\<close>, \<open>Conn_Pool\<close>: the idle list as a doubly linked list in a heap, and the connection pool as a
    transition system: no connection is handed out twice, limits hold, idle ones are open or on their way out.
  \<^item> \<open>Mux\<close>, \<open>Mux_Proofs\<close>: the multiplexed pool with virtual connections, reconnection and idle limits.

  \<^bold>\<open>Streams and queues.\<close>
  \<^item> \<open>Fifo\<close> (the contract of a queue), \<open>Ring_Buffer\<close> and \<open>Fifo_Queue\<close> (\<open>internal/ring\<close>, \<open>internal/queue\<close>): the ring
    with 32-bit sequence numbers refines a bounded queue; the blocking queue is first-in first-out and loses
    no wake-up.
  \<^item> \<open>Flow_Control\<close>, \<open>Stream_Dispatcher\<close> (\<open>stream/\<close>): windows are never exceeded and a blocked sender is woken; every
    stream gets exactly the frames sent to it, in order.
  \<^item> \<open>Stream_Client\<close> (\<open>stream/client.go\<close>, \<open>client/stream.go\<close>, \<open>transport/client_transport_stream.go\<close>): opening a
    stream, sending, receiving, and the iterations of the goroutines that dispatch frames and watch the
    context; a call that blocks is \<open>None\<close>. The transport is an argument, and the one over the multiplexed pool
    is a model of it.
  \<^item> \<open>Stream_Session\<close>: both ends of a stream over a pair of frame queues. Messages arrive in order in both
    directions, then the end of the stream or the handler's error; opening a stream makes the windows of
    both ends agree. The steps of a run are an iteration of \<open>dispatch\<close>, a receive or a send; what its deferred
    function does belongs to the last iteration, except where \<open>recv_lost_while_closing\<close> takes it apart.

  \<^bold>\<open>Memory and order.\<close>
  \<^item> \<open>Byte_Alloc\<close> (\<open>internal/allocator\<close>): memory as blocks, slices as windows of blocks, pools by size class on
    64-bit sizes. The locale \<open>allocator\<close> is the contract that the buffers rely on.
  \<^item> \<open>Link_Buffer\<close>, \<open>Link_Buffer_Proofs\<close> (\<open>internal/linkbuffer\<close>): the linked buffer refines a list of bytes for every
    allocator that keeps the contract; what it hands out stays intact until it is released, and released
    blocks all return. \<open>Packet_Buffer\<close> (\<open>internal/packetbuffer\<close>): packets are read piece by piece and not mixed.
  \<^item> \<open>Keep_Order\<close> (\<open>internal/keeporder/actor\<close>): callers and actors as interleaved steps. The functions of a key run in
    order and one at a time; one that arrives while its actor goes away is lost.
  \<^item> \<open>Span_Store\<close> (\<open>rpcz/spanarray.go\<close>, \<open>rpcz/spanstore.go\<close>): the store of ended spans holds the most recent ones.

  \<^bold>\<open>The RESTful router.\<close>
  \<^item> \<open>Go_Stack\<close> (\<open>internal/stack\<close>, with the locale \<open>stack\<close>), \<open>Http_Rule\<close>, \<open>Http_Rule_Proofs\<close>, \<open>Http_Match\<close>
    (\<open>internal/httprule\<close>): parsing a template ends, printing and parsing again gives the same template, and the
    matcher does what the template declares.
  \<^item> \<open>Keyed_Table\<close> (the contract of a registration table), \<open>Router_Trie\<close> (\<open>restful/\<close>): the transcoder that is
    found for a path is a registered one that matches.
  \<^item> \<open>Double_Array\<close>, \<open>Double_Array_Proofs\<close> (\<open>internal/dat\<close>): the double array trie decides whether a field path
    has a registered prefix.

  \<^bold>\<open>Starting up and health.\<close> \<open>Plugin_Setup\<close> (\<open>plugin/\<close>): plugins are set up after what they depend on, all of them when
  the dependencies allow it. \<open>Health_Check\<close> (\<open>healthcheck/\<close>): the status of the server follows from those of its
  services.

  \<^bold>\<open>Interfaces.\<close> Every locale is interpreted on the model: \<open>picker\<close> by the two balancers, \<open>stack\<close> by the linked
  stack, \<open>fifo\<close> by the ring and by the list queue, \<open>keyed_table\<close> by the route tree, the stream metadata and
  the table of open streams, \<open>body_format\<close> by the no-op format, \<open>allocator\<close> by the pooling allocator, \<open>ban_selector\<close>
  by the address selector and the random balancer.

  \<^bold>\<open>Bounds and fuel.\<close> The template parser gets twice the length of its input and some as fuel, which
  \<open>Parse_total\<close> shows to suffice. A write to the linked buffer gets two more than the length of its data, enough
  because every block takes at least one byte; rounding up to a power of two gets 66 rounds, more than the
  64 bits of a size. The double array trie inserts with fuel for the depth of the longest path and
  for every position of its search, and \<open>dat_correct\<close> shows that building ends. Loops that wait on the
  outside (polling, reconnecting) run over what they observe, a list that is an argument.

  \<^bold>\<open>Not modelled.\<close> Listening and reading from sockets, TLS, reuse of ports and files (\<open>transport/\<close>, \<open>reuseport/\<close>,
  \<open>internal/tls\<close>); the HTTP codecs and transports and the transcoding of HTTP messages, which rest on the
  HTTP packages and on protocol-buffer reflection (\<open>http/\<close>, \<open>restful/\<close>); loading and merging configuration
  (\<open>config.go\<close>, \<open>config/\<close>, \<open>client/config.go\<close>); logging, metrics and the admin commands (\<open>log/\<close>, \<open>metrics/\<close>, \<open>admin/\<close>);
  generated code, mocks, examples and tests. Of time, only the order of events and the comparisons the code
  makes are modelled; of memory, only the aliasing that matters (errors, messages, list nodes).

  \<^bold>\<open>Left for later.\<close> The trees of tracing spans (\<open>rpcz/span.go\<close>), the setters of options and the defaults of the
  configuration.
\<close>

end
